(* ===== verification/Relay_Prelude.thy ===== *)
theory Relay_Prelude
  imports Complex_Main "HOL-Library.AList" "HOL-Library.Word" "HOL-Library.Sublist"
begin

text \<open>
  Shared ground of the development. It holds
  \<^item> the model of the JavaScript values that the sources read off a wire or out of storage
    (\<open>jsnum\<close>, \<open>json\<close>) with property access, truthiness and the \<open>typeof\<close> tests;
  \<^item> the string helpers of the language that the sources use (\<open>trim\<close>, \<open>parseInt\<close>, digits);
  \<^item> JavaScript \<open>Map\<close>s as insertion-ordered association lists (\<open>AList.update\<close> keeps the place of
    an existing key and appends a new one, exactly as \<open>Map.prototype.set\<close> does);
  \<^item> fixed-width byte encodings;
  \<^item> the interfaces that several components share, as locales: a state machine driven by events
    (\<open>event_machine\<close>, \<open>monotone_machine\<close>) and an encoder with its decoder (\<open>codec\<close>).

  A JavaScript string is a list of code units; the model keeps the code units below 256, as
  \<open>string\<close>. A JavaScript number is a rational or one of the non-finite values: the arithmetic of
  the model is exact where IEEE doubles would round.
\<close>

named_theorems js_simps \<open>evaluation rules of the JavaScript value model\<close>
named_theorems machine_intros \<open>one-step facts of the event machines\<close>

section \<open>Bytes\<close>

type_synonym byte = "8 word"
type_synonym bytes = "byte list"

text \<open>The byte of weight \<open>256 ^ k\<close> of a natural number, and the big- and little-endian layouts.\<close>

definition byte_at :: "nat \<Rightarrow> nat \<Rightarrow> byte" where
  "byte_at k v = word_of_nat (v div 256 ^ k)"

fun be_bytes :: "nat \<Rightarrow> nat \<Rightarrow> bytes" where
  "be_bytes 0 v = []"
| "be_bytes (Suc n) v = byte_at n v # be_bytes n v"

definition le_bytes :: "nat \<Rightarrow> nat \<Rightarrow> bytes" where
  "le_bytes n v = rev (be_bytes n v)"

fun be_value :: "bytes \<Rightarrow> nat" where
  "be_value [] = 0"
| "be_value (b # bs) = unat b * 256 ^ length bs + be_value bs"

definition le_value :: "bytes \<Rightarrow> nat" where
  "le_value bs = be_value (rev bs)"

lemma length_be_bytes [simp]: "length (be_bytes n v) = n"
  by (induction n) auto

lemma length_le_bytes [simp]: "length (le_bytes n v) = n"
  by (simp add: le_bytes_def)

lemma unat_byte_at: "unat (byte_at k v) = v div 256 ^ k mod 256"
  by (simp add: byte_at_def unat_of_nat)

lemma be_value_be_bytes: "be_value (be_bytes n v) = v mod 256 ^ n"
proof (induction n)
  case 0
  then show ?case by simp
next
  case (Suc n)
  have "v mod (256 ^ n * 256) = 256 ^ n * (v div 256 ^ n mod 256) + v mod 256 ^ n"
    by (rule mod_mult2_eq)
  with Suc show ?case
    by (simp add: unat_byte_at algebra_simps)
qed

lemma le_value_le_bytes: "le_value (le_bytes n v) = v mod 256 ^ n"
  by (simp add: le_value_def le_bytes_def be_value_be_bytes)

lemma be_bytes_inj:
  assumes "be_bytes n u = be_bytes n v" "u < 256 ^ n" "v < 256 ^ n"
  shows "u = v"
  using arg_cong [OF assms(1), of be_value] assms(2,3) by (simp add: be_value_be_bytes)

section \<open>JavaScript numbers and JSON values\<close>

datatype jsnum = Fin rat | PosInf | NegInf | NaN

fun num_is_finite :: "jsnum \<Rightarrow> bool" where
  "num_is_finite (Fin r) = True"
| "num_is_finite _ = False"

definition rat_is_int :: "rat \<Rightarrow> bool" where
  "rat_is_int r \<longleftrightarrow> of_int (floor r) = r"

definition MAX_SAFE_INTEGER :: rat where
  "MAX_SAFE_INTEGER = 9007199254740991"

text \<open>\<open>Number.isSafeInteger\<close>.\<close>

fun num_is_safe_integer :: "jsnum \<Rightarrow> bool" where
  "num_is_safe_integer (Fin r) \<longleftrightarrow> rat_is_int r \<and> \<bar>r\<bar> \<le> MAX_SAFE_INTEGER"
| "num_is_safe_integer _ \<longleftrightarrow> False"

text \<open>The comparisons \<open>x > 0\<close> and \<open>x >= k\<close> against a finite bound; \<open>NaN\<close> compares false.\<close>

fun num_gt :: "jsnum \<Rightarrow> rat \<Rightarrow> bool" where
  "num_gt (Fin r) k \<longleftrightarrow> r > k"
| "num_gt PosInf k \<longleftrightarrow> True"
| "num_gt _ k \<longleftrightarrow> False"

fun num_ge :: "jsnum \<Rightarrow> rat \<Rightarrow> bool" where
  "num_ge (Fin r) k \<longleftrightarrow> r \<ge> k"
| "num_ge PosInf k \<longleftrightarrow> True"
| "num_ge _ k \<longleftrightarrow> False"

text \<open>
  A value that \<open>JSON.parse\<close> can return. The properties of an object are listed in their order;
  \<open>undefined\<close>, the value of a missing property, is \<open>None\<close> of type \<open>json option\<close>.
\<close>

datatype json =
    JNull
  | JBool bool
  | JNum jsnum
  | JStr string
  | JArr "json list"
  | JObj "(string \<times> json) list"

fun jprop :: "json \<Rightarrow> string \<Rightarrow> json option" where
  "jprop (JObj ps) k = map_of ps k"
| "jprop _ k = None"

text \<open>\<open>Boolean(v)\<close>, with \<open>None\<close> for \<open>undefined\<close>.\<close>

fun truthy :: "json option \<Rightarrow> bool" where
  "truthy None = False"
| "truthy (Some JNull) = False"
| "truthy (Some (JBool b)) = b"
| "truthy (Some (JNum (Fin r))) = (r \<noteq> 0)"
| "truthy (Some (JNum NaN)) = False"
| "truthy (Some (JNum _)) = True"
| "truthy (Some (JStr s)) = (s \<noteq> [])"
| "truthy (Some _) = True"

text \<open>\<open>typeof v === "object"\<close>, which also holds of arrays and of \<open>null\<close>.\<close>

fun typeof_object :: "json \<Rightarrow> bool" where
  "typeof_object JNull = True"
| "typeof_object (JArr _) = True"
| "typeof_object (JObj _) = True"
| "typeof_object _ = False"

fun as_string :: "json option \<Rightarrow> string option" where
  "as_string (Some (JStr s)) = Some s"
| "as_string _ = None"

fun as_number :: "json option \<Rightarrow> jsnum option" where
  "as_number (Some (JNum n)) = Some n"
| "as_number _ = None"

text \<open>\<open>v ?? d\<close>: the default replaces \<open>null\<close> and \<open>undefined\<close> only.\<close>

fun nullish_or :: "json option \<Rightarrow> json \<Rightarrow> json" where
  "nullish_or None d = d"
| "nullish_or (Some JNull) d = d"
| "nullish_or (Some v) d = v"

lemma as_string_Some_iff [simp]: "as_string v = Some s \<longleftrightarrow> v = Some (JStr s)"
  by (cases v rule: as_string.cases) auto

lemma as_number_Some_iff [simp]: "as_number v = Some n \<longleftrightarrow> v = Some (JNum n)"
  by (cases v rule: as_number.cases) auto

section \<open>Strings\<close>

text \<open>The white space \<open>trim\<close> removes, among the code units below 256.\<close>

definition js_space :: "char \<Rightarrow> bool" where
  "js_space c \<longleftrightarrow> (of_char c :: nat) \<in> {9, 10, 11, 12, 13, 32, 160}"

definition js_trim :: "string \<Rightarrow> string" where
  "js_trim s = rev (dropWhile js_space (rev (dropWhile js_space s)))"

definition is_digit :: "char \<Rightarrow> bool" where
  "is_digit c \<longleftrightarrow> 48 \<le> (of_char c :: nat) \<and> (of_char c :: nat) \<le> 57"

definition digit_value :: "char \<Rightarrow> nat" where
  "digit_value c = of_char c - 48"

definition digits_value :: "string \<Rightarrow> nat" where
  "digits_value ds = foldl (\<lambda>n c. 10 * n + digit_value c) 0 ds"

text \<open>
  \<open>Number.parseInt(s, 10)\<close>: leading white space, a sign, the longest run of digits; \<open>None\<close>
  stands for \<open>NaN\<close>.
\<close>

definition parse_int10 :: "string \<Rightarrow> int option" where
  "parse_int10 s =
     (let t = dropWhile js_space s;
          neg = (case t of c # _ \<Rightarrow> c = CHR ''-'' | [] \<Rightarrow> False);
          u = (case t of c # r \<Rightarrow> (if c = CHR ''-'' \<or> c = CHR ''+'' then r else t) | [] \<Rightarrow> []);
          ds = takeWhile is_digit u
      in if ds = [] then None
         else Some (if neg then - int (digits_value ds) else int (digits_value ds)))"

lemma js_trim_Nil [simp]: "js_trim [] = []"
  by (simp add: js_trim_def)

lemma dropWhile_js_trim_head: "js_trim s = c # r \<Longrightarrow> \<not> js_space c"
proof -
  assume eq: "js_trim s = c # r"
  let ?u = "dropWhile js_space s"
  have "\<exists>zs. ?u = js_trim s @ zs"
    unfolding js_trim_def
    by (metis rev_append rev_rev_ident takeWhile_dropWhile_id)
  then obtain zs where "?u = c # r @ zs" using eq by auto
  then show ?thesis by (metis hd_dropWhile list.distinct(1) list.sel(1))
qed

text \<open>\<open>toLowerCase\<close> on the ASCII letters, which is where the sources use it.\<close>

definition ascii_lower :: "char \<Rightarrow> char" where
  "ascii_lower c =
     (if 65 \<le> (of_char c :: nat) \<and> (of_char c :: nat) \<le> 90 then char_of ((of_char c :: nat) + 32) else c)"

text \<open>A case-insensitive prefix, as in \<open>/^wss:/i\<close>, for a prefix written in lower case.\<close>

definition iprefix :: "string \<Rightarrow> string \<Rightarrow> bool" where
  "iprefix p s \<longleftrightarrow> map ascii_lower (take (length p) s) = p"

text \<open>The decimal rendering of a number in a template literal.\<close>

fun show_nat :: "nat \<Rightarrow> string" where
  "show_nat n = (if n < 10 then [char_of (48 + n)] else show_nat (n div 10) @ [char_of (48 + n mod 10)])"

declare show_nat.simps [simp del]

definition show_int :: "int \<Rightarrow> string" where
  "show_int i = (if i < 0 then CHR ''-'' # show_nat (nat (- i)) else show_nat (nat i))"

text \<open>UTF-8 of a code unit below 256, and \<open>encodeURIComponent\<close>.\<close>

definition utf8_char :: "char \<Rightarrow> nat list" where
  "utf8_char c =
     (let n = (of_char c :: nat) in if n < 128 then [n] else [192 + n div 64, 128 + n mod 64])"

definition hex_digit :: "nat \<Rightarrow> char" where
  "hex_digit n = (if n < 10 then char_of (48 + n) else char_of (55 + n))"

definition uri_unreserved :: "char \<Rightarrow> bool" where
  "uri_unreserved c \<longleftrightarrow>
     is_digit c \<or> (65 \<le> (of_char c :: nat) \<and> (of_char c :: nat) \<le> 90) \<or>
     (97 \<le> (of_char c :: nat) \<and> (of_char c :: nat) \<le> 122) \<or>
     (of_char c :: nat) \<in> {45, 95, 46, 33, 126, 42, 39, 40, 41}"

definition encodeURIComponent :: "string \<Rightarrow> string" where
  "encodeURIComponent s =
     concat (map (\<lambda>c. if uri_unreserved c then [c]
       else concat (map (\<lambda>n. [CHR ''%'', hex_digit (n div 16), hex_digit (n mod 16)]) (utf8_char c))) s)"

text \<open>\<open>s.replace(/\/+$/, "")\<close>.\<close>

definition strip_trailing_slashes :: "string \<Rightarrow> string" where
  "strip_trailing_slashes s = rev (dropWhile (\<lambda>c. c = CHR ''/'') (rev s))"

section \<open>HTTP\<close>

record fetch_request =
  fr_url :: string
  fr_method :: string
  fr_headers :: "(string \<times> string) list"
  fr_body :: "json option"

text \<open>
  A response with its status, the value of \<open>response.json()\<close> and the text of \<open>response.text()\<close>
  (\<open>None\<close> when they throw). A call that does not reach the server has no response.
\<close>

record fetch_response =
  rsp_ok :: bool
  rsp_status :: nat
  rsp_json :: "json option"
  rsp_text :: "string option"

section \<open>Maps in insertion order\<close>

text \<open>
  The distinct-key invariant of a JavaScript \<open>Map\<close>, and what \<open>set\<close> and \<open>delete\<close> do to it and to
  lookups.
\<close>

definition jsmap_ok :: "('k \<times> 'v) list \<Rightarrow> bool" where
  "jsmap_ok m \<longleftrightarrow> distinct (map fst m)"

lemma jsmap_ok_Nil [simp, intro]: "jsmap_ok []"
  by (simp add: jsmap_ok_def)

lemma jsmap_ok_update [intro]: "jsmap_ok m \<Longrightarrow> jsmap_ok (AList.update k v m)"
  by (simp add: jsmap_ok_def distinct_update)

lemma jsmap_ok_delete [intro]: "jsmap_ok m \<Longrightarrow> jsmap_ok (AList.delete k m)"
  by (simp add: jsmap_ok_def distinct_delete)

lemma jsmap_get_set [simp]: "map_of (AList.update k v m) k' = (if k' = k then Some v else map_of m k')"
  by (simp add: update_conv')

lemma jsmap_get_delete [simp]: "map_of (AList.delete k m) k' = (if k' = k then None else map_of m k')"
  by (simp add: delete_conv')

lemma set_update_subset: "set (AList.update k v m) \<subseteq> insert (k, v) (set m)"
  by (induction m) auto

lemma set_delete_subset: "set (AList.delete k m) \<subseteq> set m"
  by (auto simp: AList.delete_eq)

lemma jsmap_in_set_iff: "jsmap_ok m \<Longrightarrow> (k, v) \<in> set m \<longleftrightarrow> map_of m k = Some v"
  by (auto simp: jsmap_ok_def dest: map_of_SomeD)

section \<open>Interface: an event-driven state machine\<close>

text \<open>
  Most components are objects whose methods and callbacks the event loop calls one after the
  other. The contract of such a component is an invariant that every step keeps; its clients
  use that the invariant holds after any sequence of events.
\<close>

locale event_machine =
  fixes step :: "'s \<Rightarrow> 'e \<Rightarrow> 's"
    and inv :: "'s \<Rightarrow> bool"
  assumes step_inv: "inv s \<Longrightarrow> inv (step s e)"
begin

lemma run_inv: "inv s \<Longrightarrow> inv (foldl step s es)"
  by (induction es arbitrary: s) (auto intro: step_inv)

lemma run_induct_from:
  assumes "inv s" "P s" "\<And>t e. inv t \<Longrightarrow> P t \<Longrightarrow> P (step t e)"
  shows "P (foldl step s es)"
  using assms by (induction es arbitrary: s) (auto intro: step_inv)

end

text \<open>A machine with a quantity that no step decreases (a counter, a generation, a log).\<close>

locale monotone_machine = event_machine step inv
  for step :: "'s \<Rightarrow> 'e \<Rightarrow> 's" and inv :: "'s \<Rightarrow> bool" +
  fixes level :: "'s \<Rightarrow> nat"
  assumes step_mono: "inv s \<Longrightarrow> level s \<le> level (step s e)"
begin

lemma run_mono: "inv s \<Longrightarrow> level s \<le> level (foldl step s es)"
proof (induction es arbitrary: s)
  case Nil
  then show ?case by simp
next
  case (Cons e es)
  then have "level s \<le> level (step s e)" "level (step s e) \<le> level (foldl step (step s e) es)"
    by (auto intro: step_mono step_inv)
  then show ?case by simp
qed

end

section \<open>Interface: an encoder and its decoder\<close>

locale codec =
  fixes encode :: "'a \<Rightarrow> 'w"
    and decode :: "'w \<Rightarrow> 'a option"
    and valid :: "'a \<Rightarrow> bool"
  assumes decode_encode: "valid x \<Longrightarrow> decode (encode x) = Some x"
begin

lemma encode_inj: "valid x \<Longrightarrow> valid y \<Longrightarrow> encode x = encode y \<Longrightarrow> x = y"
  by (metis decode_encode option.inject)

lemma encode_inj_on: "inj_on encode {x. valid x}"
  by (auto intro!: inj_onI encode_inj)

lemma decode_map_encode: "list_all valid xs \<Longrightarrow> map decode (map encode xs) = map Some xs"
  by (induction xs) (auto simp: decode_encode)

end

end
