(* ===== verification/Base64.thy ===== *)
theory Base64
  imports Relay_Prelude
begin

text \<open>
  Base64 as the sources use it through the platform: \<open>btoa\<close> over the code units of a byte string,
  the forgiving decoder \<open>atob\<close> (white space dropped, padding optional, left-over bits discarded),
  and the canonical-form test of the end-to-end encryption code, a regular expression followed by
  re-encoding. The development uses the round trip and the length law of the encoding.
\<close>

section \<open>The alphabet\<close>

definition b64_char :: "nat \<Rightarrow> char" where
  "b64_char i =
     (if i < 26 then char_of (65 + i)
      else if i < 52 then char_of (71 + i)
      else if i < 62 then char_of (i - 4)
      else if i = 62 then CHR ''+''
      else CHR ''/'')"

definition b64_index :: "char \<Rightarrow> nat option" where
  "b64_index c =
     (let n = (of_char c :: nat) in
      if 65 \<le> n \<and> n \<le> 90 then Some (n - 65)
      else if 97 \<le> n \<and> n \<le> 122 then Some (n - 71)
      else if 48 \<le> n \<and> n \<le> 57 then Some (n + 4)
      else if c = CHR ''+'' then Some 62
      else if c = CHR ''/'' then Some 63
      else None)"

definition is_b64_char :: "char \<Rightarrow> bool" where
  "is_b64_char c \<longleftrightarrow> b64_index c \<noteq> None"

lemma b64_index_char [simp]: "i < 64 \<Longrightarrow> b64_index (b64_char i) = Some i"
proof -
  assume "i < 64"
  then consider "i < 26" | "26 \<le> i \<and> i < 52" | "52 \<le> i \<and> i < 62" | "i = 62" | "i = 63"
    by linarith
  then show ?thesis
    by cases (auto simp: b64_char_def b64_index_def Let_def of_char_of)
qed

lemma is_b64_char_char [simp]: "i < 64 \<Longrightarrow> is_b64_char (b64_char i)"
  by (simp add: is_b64_char_def)

lemma not_is_b64_char_pad [simp]: "\<not> is_b64_char CHR ''=''"
  by (simp add: is_b64_char_def b64_index_def Let_def)

lemma b64_char_not_pad [simp]: "i < 64 \<Longrightarrow> b64_char i \<noteq> CHR ''=''"
  using is_b64_char_char not_is_b64_char_pad by metis

lemma b64_index_less: "b64_index c = Some i \<Longrightarrow> i < 64"
  by (auto simp: b64_index_def Let_def split: if_splits)

lemma not_space_b64_char: "is_b64_char c \<Longrightarrow> \<not> js_space c"
  by (auto simp: is_b64_char_def b64_index_def Let_def js_space_def split: if_splits)

section \<open>Encoding\<close>

fun btoa :: "bytes \<Rightarrow> string" where
  "btoa [] = []"
| "btoa [a] = [b64_char (unat a div 4), b64_char (unat a mod 4 * 16), CHR ''='', CHR ''='']"
| "btoa [a, b] =
     [b64_char (unat a div 4), b64_char (unat a mod 4 * 16 + unat b div 16),
      b64_char (unat b mod 16 * 4), CHR ''='']"
| "btoa (a # b # c # r) =
     b64_char (unat a div 4) # b64_char (unat a mod 4 * 16 + unat b div 16) #
     b64_char (unat b mod 16 * 4 + unat c div 64) # b64_char (unat c mod 64) # btoa r"

section \<open>Decoding\<close>

definition byte_of :: "nat \<Rightarrow> byte" where
  "byte_of n = word_of_nat n"

fun b64_groups :: "nat list \<Rightarrow> bytes" where
  "b64_groups (a # b # c # d # r) =
     byte_of (a * 4 + b div 16) # byte_of (b mod 16 * 16 + c div 4) #
     byte_of (c mod 4 * 64 + d) # b64_groups r"
| "b64_groups [a, b, c] = [byte_of (a * 4 + b div 16), byte_of (b mod 16 * 16 + c div 4)]"
| "b64_groups [a, b] = [byte_of (a * 4 + b div 16)]"
| "b64_groups _ = []"

text \<open>The padding that \<open>atob\<close> removes: at most two \<open>=\<close> at the end of a string of 4k characters.\<close>

definition strip_pad :: "string \<Rightarrow> string" where
  "strip_pad s =
     (if length s mod 4 \<noteq> 0 then s
      else case rev s of
          x # y # r \<Rightarrow> (if x = CHR ''='' then (if y = CHR ''='' then rev r else rev (y # r)) else s)
        | _ \<Rightarrow> s)"

definition atob_space :: "char \<Rightarrow> bool" where
  "atob_space c \<longleftrightarrow> (of_char c :: nat) \<in> {9, 10, 12, 13, 32}"

definition atob :: "string \<Rightarrow> bytes option" where
  "atob s =
     (let t = strip_pad (filter (\<lambda>c. \<not> atob_space c) s) in
      if length t mod 4 = 1 \<or> \<not> list_all is_b64_char t then None
      else Some (b64_groups (map (\<lambda>c. the (b64_index c)) t)))"

section \<open>Round trip and length\<close>

lemma unat_byte_less [simp]: "unat (a :: byte) < 256"
  by (rule less_le_trans [OF unsigned_less]) simp

lemma byte_quotients [simp]:
  "unat (a :: byte) div 4 < 64" "unat a div 16 < 16" "unat a div 64 < 4"
  using unat_byte_less [of a] by (simp_all add: less_mult_imp_div_less)

lemma byte_idx [simp]:
  "unat (a :: byte) mod 4 * 16 < 64"
  "unat a mod 4 * 16 + unat (b :: byte) div 16 < 64"
  "unat b mod 16 * 4 < 64"
  "unat b mod 16 * 4 + unat (c :: byte) div 64 < 64"
  "unat c mod 64 < 64"
proof -
  have "unat a mod 4 < 4" "unat b mod 16 < 16" "unat b div 16 < 16" "unat c div 64 < 4" by simp_all
  then show "unat a mod 4 * 16 < 64" "unat a mod 4 * 16 + unat b div 16 < 64"
    "unat b mod 16 * 4 < 64" "unat b mod 16 * 4 + unat c div 64 < 64"
    by linarith+
qed simp

lemma byte_ofI: "n = unat a \<Longrightarrow> byte_of n = a"
  by (simp add: byte_of_def)

text \<open>The four sextets carry the three bytes.\<close>

lemma sextet_bytes:
  fixes x y z k :: nat
  shows "y div 16 < 16 \<Longrightarrow> x div 4 * 4 + (x mod 4 * 16 + y div 16) div 16 = x"
    and "y div 16 < 16 \<Longrightarrow> z div 64 < 4 \<Longrightarrow>
      (k * 16 + y div 16) mod 16 * 16 + (y mod 16 * 4 + z div 64) div 4 = y"
    and "z div 64 < 4 \<Longrightarrow> (k * 4 + z div 64) mod 4 * 64 + z mod 64 = z"
proof -
  have split: "(k * m + r) div m = k" "(k * m + r) mod m = r" if "r < m" for k m r :: nat
    using that by simp_all
  show "y div 16 < 16 \<Longrightarrow> x div 4 * 4 + (x mod 4 * 16 + y div 16) div 16 = x"
    by (simp only: split div_mult_mod_eq)
  show "y div 16 < 16 \<Longrightarrow> z div 64 < 4 \<Longrightarrow>
      (k * 16 + y div 16) mod 16 * 16 + (y mod 16 * 4 + z div 64) div 4 = y"
    by (simp only: split div_mult_mod_eq)
  show "z div 64 < 4 \<Longrightarrow> (k * 4 + z div 64) mod 4 * 64 + z mod 64 = z"
    by (simp only: split div_mult_mod_eq)
qed

lemma b64_groups_three:
  "b64_groups (unat a div 4 # (unat a mod 4 * 16 + unat b div 16) #
     (unat b mod 16 * 4 + unat c div 64) # (unat c mod 64) # r) = a # b # c # b64_groups r"
  by (simp only: b64_groups.simps sextet_bytes byte_quotients) (simp add: byte_ofI)

lemma b64_groups_two:
  "b64_groups [unat a div 4, unat a mod 4 * 16 + unat b div 16, unat b mod 16 * 4] = [a, b]"
  using sextet_bytes(1) [of "unat b" "unat a"] sextet_bytes(2) [of "unat b" 0 "unat a mod 4"]
  by (simp add: byte_ofI)

lemma b64_groups_one: "b64_groups [unat a div 4, unat a mod 4 * 16] = [a]"
  using sextet_bytes(1) [of 0 "unat a"] by (simp add: byte_ofI)

definition b64_body :: "bytes \<Rightarrow> string" where
  "b64_body bs = filter is_b64_char (btoa bs)"

lemma btoa_chars: "c \<in> set (btoa bs) \<Longrightarrow> is_b64_char c \<or> c = CHR ''=''"
  by (induction bs rule: btoa.induct) auto

lemma length_btoa: "length (btoa bs) = 4 * ((length bs + 2) div 3)"
proof (induction bs rule: btoa.induct)
  case (4 a b c r)
  have "(n + 5) div 3 = Suc ((n + 2) div 3)" for n :: nat by presburger
  then show ?case using 4 by (simp add: add.commute)
qed simp_all

lemma strip_pad_btoa: "strip_pad (btoa bs) = b64_body bs"
proof -
  have four: "strip_pad (w # x # y # z # s) = w # x # y # z # strip_pad s"
    if "length s mod 4 = 0" "s \<noteq> [] \<Longrightarrow> length s \<ge> 4" "s = [] \<Longrightarrow> z \<noteq> CHR ''=''" for w x y z s
  proof (cases "s = []")
    case True
    with that(3) show ?thesis by (simp add: strip_pad_def)
  next
    case False
    with that(2) have "2 \<le> length (rev s)" by simp
    then obtain p q r where "rev s = p # q # r"
      by (metis One_nat_def Suc_1 Suc_le_length_iff)
    moreover have "length (w # x # y # z # s) mod 4 = 0"
      using that(1) by (simp add: mod_Suc)
    ultimately show ?thesis using that(1) by (simp add: strip_pad_def)
  qed
  show ?thesis
  proof (induction bs rule: btoa.induct)
    case (4 a b c r)
    have "btoa r \<noteq> [] \<Longrightarrow> length (btoa r) \<ge> 4" by (cases r) (auto simp: length_btoa)
    then show ?case using 4 by (simp add: four length_btoa b64_body_def)
  qed (simp_all add: strip_pad_def b64_body_def)
qed

lemma b64_body_mod: "length (b64_body bs) mod 4 \<noteq> Suc 0"
  by (induction bs rule: btoa.induct) (auto simp: b64_body_def mod_Suc)

lemma b64_groups_body: "b64_groups (map (\<lambda>c. the (b64_index c)) (b64_body bs)) = bs"
  by (induction bs rule: btoa.induct)
     (simp_all add: b64_body_def b64_groups_one b64_groups_two b64_groups_three
       del: b64_groups.simps(1,2,3))

lemma filter_space_btoa: "filter (\<lambda>c. \<not> atob_space c) (btoa bs) = btoa bs"
proof (rule filter_True, rule ballI)
  fix c assume "c \<in> set (btoa bs)"
  then have "is_b64_char c \<or> c = CHR ''=''" by (rule btoa_chars)
  moreover have "is_b64_char c \<Longrightarrow> \<not> atob_space c"
    by (drule not_space_b64_char) (auto simp: js_space_def atob_space_def)
  moreover have "\<not> atob_space CHR ''=''" by (simp add: atob_space_def)
  ultimately show "\<not> atob_space c" by auto
qed

lemma list_all_b64_body: "list_all is_b64_char (b64_body bs)"
  by (auto simp: b64_body_def list_all_iff)

theorem atob_btoa: "atob (btoa bs) = Some bs"
  by (simp add: atob_def Let_def filter_space_btoa strip_pad_btoa b64_body_mod list_all_b64_body
      b64_groups_body)

interpretation base64: codec btoa atob "\<lambda>_. True"
  by unfold_locales (simp add: atob_btoa)

section \<open>The canonical form\<close>

text \<open>
  The pattern \<open>/^(?:[A-Za-z0-9+/]{4})*(?:[A-Za-z0-9+/]{2}==|[A-Za-z0-9+/]{3}=)?$/\<close> of the
  end-to-end encryption code: groups of four, the last one possibly padded.
\<close>

fun b64_pattern :: "string \<Rightarrow> bool" where
  "b64_pattern [] = True"
| "b64_pattern [a, b, c, d] =
     (is_b64_char a \<and> is_b64_char b \<and>
       (is_b64_char c \<and> is_b64_char d \<or> c = CHR ''='' \<and> d = CHR ''='' \<or> is_b64_char c \<and> d = CHR ''=''))"
| "b64_pattern (a # b # c # d # r) =
     (is_b64_char a \<and> is_b64_char b \<and> is_b64_char c \<and> is_b64_char d \<and> b64_pattern r)"
| "b64_pattern _ = False"

lemma b64_pattern_btoa [simp]: "b64_pattern (btoa bs)"
proof (induction bs rule: btoa.induct)
  case (4 a b c r)
  then show ?case by (cases "btoa r") simp_all
qed simp_all

end
