(* ===== verification/Relay_Wire.thy ===== *)
theory Relay_Wire
  imports Base64
begin

text \<open>
  The wire contract of the session relay (\<open>platform/apps/relay/src\<close>): the limits and their
  environment configuration (\<open>relay-runtime-deps.ts\<close>, \<open>relay-config.ts\<close>), the validated inbound
  and the outbound messages (\<open>relay-wire-contract.ts\<close>), and the admission verifier that redeems a
  capability at the control plane (\<open>admission-verifier.ts\<close>).

  The zod schemas are translated combinator by combinator: a strict object has no other key, a
  bounded string counts code units, \<open>int()\<close> of zod 4 accepts the safe integers. The functions
  \<open>JSON.parse\<close> (\<open>None\<close> when it throws) and \<open>fetch\<close> are arguments of the definitions that call them.
\<close>

section \<open>Limits and configuration\<close>

datatype relay_role = Driver | Viewer

record relay_limits =
  maxFrameBytes :: int
  maxFramesPerSecond :: int
  maxBytesPerSecond :: int
  maxQueuedPtyFrames :: int
  maxQueuedControlFrames :: int
  sendHighWaterMarkBytes :: int

definition DEFAULT_RELAY_LIMITS :: relay_limits where
  "DEFAULT_RELAY_LIMITS =
     \<lparr>maxFrameBytes = 256 * 1024,
      maxFramesPerSecond = 240,
      maxBytesPerSecond = 8 * 1024 * 1024,
      maxQueuedPtyFrames = 512,
      maxQueuedControlFrames = 4096,
      sendHighWaterMarkBytes = 1024 * 1024\<rparr>"

record relay_config =
  cfg_host :: string
  cfg_port :: int
  cfg_serviceName :: string
  cfg_limits :: relay_limits
  cfg_admission :: "(string \<times> string) option" \<comment> \<open>control plane URL, operator token\<close>

type_synonym process_env = "string \<Rightarrow> string option"

definition loadAdmissionConfig :: "process_env \<Rightarrow> (string \<times> string) option" where
  "loadAdmissionConfig env =
     (case (env ''PIE_RELAY_CONTROL_PLANE_URL'', env ''PIE_RELAY_OPERATOR_TOKEN'') of
        (Some url, Some token) \<Rightarrow> (if url \<noteq> [] \<and> token \<noteq> [] then Some (url, token) else None)
      | _ \<Rightarrow> None)"

definition intFromEnv :: "string option \<Rightarrow> int \<Rightarrow> int" where
  "intFromEnv v fallback =
     (case parse_int10 (case v of Some s \<Rightarrow> s | None \<Rightarrow> []) of Some n \<Rightarrow> n | None \<Rightarrow> fallback)"

definition loadRelayConfig :: "process_env \<Rightarrow> relay_config" where
  "loadRelayConfig env =
     \<lparr>cfg_host = (case env ''PIE_RELAY_HOST'' of Some h \<Rightarrow> h | None \<Rightarrow> ''0.0.0.0''),
      cfg_port = intFromEnv (env ''PIE_RELAY_PORT'') 8081,
      cfg_serviceName = ''relay'',
      cfg_limits =
        \<lparr>maxFrameBytes = intFromEnv (env ''PIE_RELAY_MAX_FRAME_BYTES'') (maxFrameBytes DEFAULT_RELAY_LIMITS),
         maxFramesPerSecond =
           intFromEnv (env ''PIE_RELAY_MAX_FRAMES_PER_SECOND'') (maxFramesPerSecond DEFAULT_RELAY_LIMITS),
         maxBytesPerSecond =
           intFromEnv (env ''PIE_RELAY_MAX_BYTES_PER_SECOND'') (maxBytesPerSecond DEFAULT_RELAY_LIMITS),
         maxQueuedPtyFrames =
           intFromEnv (env ''PIE_RELAY_MAX_QUEUED_PTY_FRAMES'') (maxQueuedPtyFrames DEFAULT_RELAY_LIMITS),
         maxQueuedControlFrames =
           intFromEnv (env ''PIE_RELAY_MAX_QUEUED_CONTROL_FRAMES'')
             (maxQueuedControlFrames DEFAULT_RELAY_LIMITS),
         sendHighWaterMarkBytes =
           intFromEnv (env ''PIE_RELAY_SEND_HIGH_WATER_MARK_BYTES'')
             (sendHighWaterMarkBytes DEFAULT_RELAY_LIMITS)\<rparr>,
      cfg_admission = loadAdmissionConfig env\<rparr>"

section \<open>Messages\<close>

datatype frame_dir = Output | Control

definition RELAY_PROTOCOL_VERSION :: string where
  "RELAY_PROTOCOL_VERSION = ''1.0''"

record frame_message =
  fm_streamId :: string
  fm_seq :: int
  fm_dir :: frame_dir
  fm_payload :: string

datatype relay_inbound =
    Join string string string \<comment> \<open>session, stream, credential\<close>
  | Frame frame_message
  | Leave

datatype relay_error_code =
    Malformed | Not_Joined | Already_Joined | Admission_Denied | Forbidden_Control
  | Frame_Too_Large | Rate_Limited

record stamped_sender =
  ss_participantId :: string
  ss_role :: relay_role

datatype relay_outbound =
    Join_Ack string string string string relay_role \<comment> \<open>version, session, stream, participant, role\<close>
  | Frame_Out string int frame_dir string stamped_sender
  | Error_Out relay_error_code string
  | Stream_Lagged string nat frame_dir
  | Leave_Ack

section \<open>Schemas\<close>

text \<open>\<open>z.object({...}).strict()\<close>: an object all of whose keys are among the listed ones.\<close>

fun z_strict :: "string list \<Rightarrow> json \<Rightarrow> bool" where
  "z_strict ks (JObj ps) \<longleftrightarrow> list_all (\<lambda>p. fst p \<in> set ks) ps"
| "z_strict ks _ \<longleftrightarrow> False"

text \<open>\<open>z.string().min(lo).max(hi)\<close> and \<open>z.literal(s)\<close>.\<close>

definition z_string :: "nat \<Rightarrow> nat \<Rightarrow> json option \<Rightarrow> string option" where
  "z_string lo hi v =
     (case as_string v of
        Some s \<Rightarrow> (if lo \<le> length s \<and> length s \<le> hi then Some s else None)
      | None \<Rightarrow> None)"

definition z_literal :: "string \<Rightarrow> json option \<Rightarrow> bool" where
  "z_literal s v \<longleftrightarrow> v = Some (JStr s)"

text \<open>\<open>z.number().int().min(0)\<close>.\<close>

definition z_nonneg_int :: "json option \<Rightarrow> int option" where
  "z_nonneg_int v =
     (case v of
        Some (JNum (Fin r)) \<Rightarrow> (if num_is_safe_integer (Fin r) \<and> 0 \<le> r then Some (floor r) else None)
      | _ \<Rightarrow> None)"

text \<open>\<open>/^[A-Za-z0-9+/]*={0,2}$/\<close>.\<close>

definition payload_pattern :: "string \<Rightarrow> bool" where
  "payload_pattern s \<longleftrightarrow>
     (let r = dropWhile is_b64_char s in list_all (\<lambda>c. c = CHR ''='') r \<and> length r \<le> 2)"

definition payloadSchema :: "json option \<Rightarrow> string option" where
  "payloadSchema v =
     (case z_string 0 (2 * 1024 * 1024) v of
        Some s \<Rightarrow> (if payload_pattern s then Some s else None)
      | None \<Rightarrow> None)"

definition dirSchema :: "json option \<Rightarrow> frame_dir option" where
  "dirSchema v =
     (if z_literal ''output'' v then Some Output
      else if z_literal ''control'' v then Some Control else None)"

definition RelayJoinSchema :: "json \<Rightarrow> relay_inbound option" where
  "RelayJoinSchema j =
     (if z_strict [''type'', ''protocolVersion'', ''sessionId'', ''streamId'', ''credential''] j \<and>
         z_literal ''join'' (jprop j ''type'') \<and>
         z_literal RELAY_PROTOCOL_VERSION (jprop j ''protocolVersion'')
      then (case (z_string 1 128 (jprop j ''sessionId''), z_string 1 128 (jprop j ''streamId''),
                  z_string 1 4096 (jprop j ''credential'')) of
              (Some session, Some stream, Some credential) \<Rightarrow> Some (Join session stream credential)
            | _ \<Rightarrow> None)
      else None)"

definition RelayFrameInboundSchema :: "json \<Rightarrow> relay_inbound option" where
  "RelayFrameInboundSchema j =
     (if z_strict [''type'', ''streamId'', ''seq'', ''dir'', ''payload'', ''sender''] j \<and>
         z_literal ''frame'' (jprop j ''type'')
      then (case (z_string 1 128 (jprop j ''streamId''), z_nonneg_int (jprop j ''seq''),
                  dirSchema (jprop j ''dir''), payloadSchema (jprop j ''payload'')) of
              (Some stream, Some sq, Some dir, Some payload) \<Rightarrow>
                Some (Frame \<lparr>fm_streamId = stream, fm_seq = sq, fm_dir = dir, fm_payload = payload\<rparr>)
            | _ \<Rightarrow> None)
      else None)"

definition RelayLeaveSchema :: "json \<Rightarrow> relay_inbound option" where
  "RelayLeaveSchema j =
     (if z_strict [''type''] j \<and> z_literal ''leave'' (jprop j ''type'') then Some Leave else None)"

text \<open>The discriminated union picks the schema by the literal of \<open>type\<close>.\<close>

definition RelayInboundMessageSchema :: "json \<Rightarrow> relay_inbound option" where
  "RelayInboundMessageSchema j =
     (if z_literal ''join'' (jprop j ''type'') then RelayJoinSchema j
      else if z_literal ''frame'' (jprop j ''type'') then RelayFrameInboundSchema j
      else if z_literal ''leave'' (jprop j ''type'') then RelayLeaveSchema j
      else None)"

definition parseRelayInbound :: "(string \<Rightarrow> json option) \<Rightarrow> string \<Rightarrow> relay_inbound option" where
  "parseRelayInbound json_parse raw =
     (case json_parse raw of None \<Rightarrow> None | Some j \<Rightarrow> RelayInboundMessageSchema j)"

definition ends_with :: "string \<Rightarrow> string \<Rightarrow> bool" where
  "ends_with s t \<longleftrightarrow> take (length t) (rev s) = rev t"

definition base64DecodedByteLength :: "string \<Rightarrow> int" where
  "base64DecodedByteLength b64 =
     (let len = length b64;
          padding = (if ends_with b64 ''=='' then 2 else if ends_with b64 ''='' then 1 else 0)
      in if len = 0 then 0 else int (len * 3 div 4) - padding)"

section \<open>Admission\<close>

record admission_request =
  ar_sessionId :: string
  ar_streamId :: string
  ar_credential :: string

datatype admission_decision = Admitted string relay_role | Denied string

datatype capability = View | Terminal_Control | Desktop_Control | File_Transfer

definition mapCapabilityToRole :: "capability \<Rightarrow> relay_role" where
  "mapCapabilityToRole c = (if c = View then Viewer else Driver)"

definition CAPABILITY_KINDS :: "string \<Rightarrow> capability option" where
  "CAPABILITY_KINDS s =
     (if s = ''view'' then Some View
      else if s = ''terminal_control'' then Some Terminal_Control
      else if s = ''desktop_control'' then Some Desktop_Control
      else if s = ''file_transfer'' then Some File_Transfer
      else None)"

definition parseCredential :: "(string \<Rightarrow> json option) \<Rightarrow> string \<Rightarrow> (string \<times> string) option" where
  "parseCredential json_parse credential =
     (case json_parse credential of
        None \<Rightarrow> None
      | Some j \<Rightarrow>
          (case (as_string (jprop j ''organizationId''), as_string (jprop j ''nonce'')) of
             (Some org, Some nonce) \<Rightarrow> Some (org, nonce)
           | _ \<Rightarrow> None))"

definition relay_admit_request :: "string \<Rightarrow> string \<Rightarrow> admission_request \<Rightarrow> string \<times> string \<Rightarrow> fetch_request" where
  "relay_admit_request baseUrl operatorToken request credential =
     \<lparr>fr_url = strip_trailing_slashes baseUrl @ ''/internal/remote-sessions/'' @
         encodeURIComponent (ar_sessionId request) @ ''/relay-admit'',
      fr_method = ''POST'',
      fr_headers = [(''authorization'', ''Bearer '' @ operatorToken), (''content-type'', ''application/json'')],
      fr_body = Some (JObj [(''nonce'', JStr (snd credential)), (''audience'', JStr (ar_streamId request)),
         (''organizationId'', JStr (fst credential))])\<rparr>"

text \<open>
  The verifier of \<open>createControlPlaneAdmissionVerifier\<close>. \<open>fetch\<close> returns \<open>None\<close> on a network error;
  every failure is a denial.
\<close>

definition verifyAtControlPlane ::
  "(string \<Rightarrow> json option) \<Rightarrow> (fetch_request \<Rightarrow> fetch_response option) \<Rightarrow> string \<Rightarrow> string \<Rightarrow>
   admission_request \<Rightarrow> admission_decision" where
  "verifyAtControlPlane json_parse do_fetch baseUrl operatorToken request =
     (case parseCredential json_parse (ar_credential request) of
        None \<Rightarrow> Denied ''invalid_credential''
      | Some credential \<Rightarrow>
          (case do_fetch (relay_admit_request baseUrl operatorToken request credential) of
             None \<Rightarrow> Denied ''admission_unavailable''
           | Some response \<Rightarrow>
               (if \<not> rsp_ok response
                then Denied (''admission_rejected_'' @ show_nat (rsp_status response))
                else (case rsp_json response of
                        None \<Rightarrow> Denied ''admission_unavailable''
                      | Some grant \<Rightarrow>
                          (case (as_string (jprop grant ''participantId''),
                                 as_string (jprop grant ''capability'')) of
                             (Some participant, Some kind) \<Rightarrow>
                               (case CAPABILITY_KINDS kind of
                                  Some c \<Rightarrow> Admitted participant (mapCapabilityToRole c)
                                | None \<Rightarrow> Denied ''admission_malformed'')
                           | _ \<Rightarrow> Denied ''admission_malformed'')))))"

text \<open>\<open>selectAdmissionVerifier\<close> of \<open>index.ts\<close>.\<close>

definition selectAdmissionVerifier ::
  "(string \<Rightarrow> json option) \<Rightarrow> (fetch_request \<Rightarrow> fetch_response option) \<Rightarrow> relay_config \<Rightarrow>
   admission_request \<Rightarrow> admission_decision" where
  "selectAdmissionVerifier json_parse do_fetch config request =
     (case cfg_admission config of
        Some (url, token) \<Rightarrow> verifyAtControlPlane json_parse do_fetch url token request
      | None \<Rightarrow> Denied ''admission_not_configured'')"

section \<open>Lemmas\<close>

lemma z_string_Some_iff:
  "z_string lo hi v = Some s \<longleftrightarrow> v = Some (JStr s) \<and> lo \<le> length s \<and> length s \<le> hi"
  by (auto simp: z_string_def split: option.splits)

lemma payload_pattern_length:
  "payload_pattern s \<Longrightarrow> \<exists>body pad. s = body @ pad \<and> list_all is_b64_char body \<and> length pad \<le> 2"
  by (rule exI [of _ "takeWhile is_b64_char s"], rule exI [of _ "dropWhile is_b64_char s"])
     (auto simp: payload_pattern_def Let_def list_all_iff dest: set_takeWhileD)

lemma RelayFrameInboundSchema_Some:
  assumes "RelayFrameInboundSchema j = Some m"
  shows "\<exists>f. m = Frame f \<and> 1 \<le> length (fm_streamId f) \<and> length (fm_streamId f) \<le> 128 \<and>
    0 \<le> fm_seq f \<and> length (fm_payload f) \<le> 2 * 1024 * 1024 \<and> payload_pattern (fm_payload f) \<and>
    jprop j ''payload'' = Some (JStr (fm_payload f)) \<and> dirSchema (jprop j ''dir'') = Some (fm_dir f)"
  using assms
  by (auto simp: RelayFrameInboundSchema_def payloadSchema_def z_string_Some_iff z_nonneg_int_def
      split: if_splits option.splits json.splits jsnum.splits)

text \<open>The decoded length is the length of the bytes that were encoded.\<close>

lemma ends_with_btoa:
  "ends_with (btoa bs) ''=='' \<longleftrightarrow> length bs mod 3 = 1"
  "ends_with (btoa bs) ''='' \<longleftrightarrow> length bs mod 3 \<noteq> 0"
proof (induction bs rule: btoa.induct)
  case (4 a b c r)
  have ext: "ends_with (w # x # y # z # btoa r) t = ends_with (btoa r) t"
    if "length t \<le> 2" "r \<noteq> []" for w x y z t
  proof -
    have "length t \<le> length (btoa r)" using that by (cases r) (auto simp: length_btoa)
    then show ?thesis by (simp add: ends_with_def)
  qed
  have mod3: "Suc (Suc (Suc n)) mod 3 = n mod 3" for n :: nat by presburger
  { case 1 with 4 show ?case
      by (cases "r = []") (simp_all add: ext mod3, simp add: ends_with_def) }
  { case 2 with 4 show ?case
      by (cases "r = []") (simp_all add: ext mod3, simp add: ends_with_def) }
qed (auto simp: ends_with_def)

lemma base64DecodedByteLength_encoded: "base64DecodedByteLength (btoa bs) = int (length bs)"
proof -
  obtain q where "length bs = 3 * q \<or> length bs = 3 * q + 1 \<or> length bs = 3 * q + 2"
    by (metis (no_types) add.right_neutral div_mult_mod_eq less_2_cases mod_less_divisor
        mult.commute numeral_3_eq_3 One_nat_def Suc_1 less_Suc_eq zero_less_Suc)
  then consider "length bs = 3 * q" | "length bs = 3 * q + 1" | "length bs = 3 * q + 2" by blast
  then show ?thesis
  proof cases
    case 1
    then show ?thesis by (auto simp: base64DecodedByteLength_def Let_def ends_with_btoa length_btoa)
  next
    case 2
    have "(3 * q + 1) mod 3 = 1" "(3 * q + 1 + 2) div 3 = q + 1" by presburger+
    with 2 show ?thesis
      by (simp add: base64DecodedByteLength_def Let_def ends_with_btoa length_btoa)
  next
    case 3
    have "(3 * q + 2) mod 3 = 2" "(3 * q + 2 + 2) div 3 = q + 1" by presburger+
    with 3 show ?thesis
      by (simp add: base64DecodedByteLength_def Let_def ends_with_btoa length_btoa)
  qed
qed

text \<open>What a schema reads of an object, and what it does not read.\<close>

lemma jprop_without:
  "k \<noteq> k' \<Longrightarrow> jprop (JObj (filter (\<lambda>p. fst p \<noteq> k') ps)) k = jprop (JObj ps) k"
  by (induction ps) auto

lemma z_strict_without: "k' \<in> set ks \<Longrightarrow> z_strict ks (JObj (filter (\<lambda>p. fst p \<noteq> k') ps)) = z_strict ks (JObj ps)"
  by (induction ps) auto

lemma RelayJoinSchema_Some:
  "RelayJoinSchema j = Some m \<Longrightarrow> \<exists>session stream credential. m = Join session stream credential \<and>
     1 \<le> length session \<and> length session \<le> 128 \<and> 1 \<le> length stream \<and> length stream \<le> 128 \<and>
     1 \<le> length credential \<and> length credential \<le> 4096"
  by (auto simp: RelayJoinSchema_def z_string_Some_iff split: if_splits option.splits)

lemma payload_pattern_decoded:
  assumes "payload_pattern s"
  shows "- 1 \<le> base64DecodedByteLength s \<and> base64DecodedByteLength s \<le> int (length s)"
proof (cases "length s < 2")
  case True
  then have "length s * 3 div 4 = 0" by simp
  moreover have "\<not> ends_with s ''==''"
  proof
    assume "ends_with s ''==''"
    from arg_cong [OF this [unfolded ends_with_def], of length] True show False by simp
  qed
  ultimately show ?thesis by (simp add: base64DecodedByteLength_def Let_def)
next
  case False
  then have "1 \<le> length s * 3 div 4" "length s * 3 div 4 \<le> length s" by simp_all
  then have "1 \<le> int (length s * 3 div 4)" "int (length s * 3 div 4) \<le> int (length s)" by linarith+
  then show ?thesis by (auto simp: base64DecodedByteLength_def Let_def)
qed

section \<open>Properties\<close>

text \<open>
  The inbound schema never reads the identity a client claims: dropping the \<open>sender\<close>
  field of a frame does not change what the relay parses, for every JSON object.
\<close>

theorem inbound_frame_ignores_sender:
  assumes "jprop (JObj ps) ''type'' = Some (JStr ''frame'')"
  shows "RelayInboundMessageSchema (JObj (filter (\<lambda>p. fst p \<noteq> ''sender'') ps)) =
    RelayInboundMessageSchema (JObj ps)"
  using assms
  by (simp add: RelayInboundMessageSchema_def RelayFrameInboundSchema_def z_literal_def jprop_without
      z_strict_without del: jprop.simps z_strict.simps)

theorem inbound_frame_ignores_sender_witness:
  "RelayInboundMessageSchema (JObj [(''type'', JStr ''frame''), (''streamId'', JStr ''s''), (''seq'', JNum (Fin 0)),
      (''dir'', JStr ''control''), (''payload'', JStr []), (''sender'', JStr ''mallory'')]) =
   RelayInboundMessageSchema (JObj [(''type'', JStr ''frame''), (''streamId'', JStr ''s''), (''seq'', JNum (Fin 0)),
      (''dir'', JStr ''control''), (''payload'', JStr [])])"
  using inbound_frame_ignores_sender [of "[(''type'', JStr ''frame''), (''streamId'', JStr ''s''),
      (''seq'', JNum (Fin 0)), (''dir'', JStr ''control''), (''payload'', JStr []), (''sender'', JStr ''mallory'')]"]
  by simp

text \<open>
  Whatever text a client sends, a message that passes \<open>parseRelayInbound\<close> is within
  the contract: ids of 1 to 128 characters, a credential of at most 4096, a non-negative sequence
  number, a base64 payload of at most 2 MiB whose decoded length is at most its own length.
\<close>

theorem parsed_messages_are_bounded:
  assumes "parseRelayInbound json_parse raw = Some m"
  shows "case m of
      Join session stream credential \<Rightarrow>
        length session \<in> {1..128} \<and> length stream \<in> {1..128} \<and> length credential \<in> {1..4096}
    | Frame f \<Rightarrow>
        length (fm_streamId f) \<in> {1..128} \<and> 0 \<le> fm_seq f \<and> length (fm_payload f) \<le> 2097152 \<and>
        payload_pattern (fm_payload f) \<and> base64DecodedByteLength (fm_payload f) \<le> int (length (fm_payload f))
    | Leave \<Rightarrow> True"
proof -
  obtain j where "RelayInboundMessageSchema j = Some m"
    using assms by (auto simp: parseRelayInbound_def split: option.splits)
  then consider "RelayJoinSchema j = Some m" | "RelayFrameInboundSchema j = Some m" | "RelayLeaveSchema j = Some m"
    by (auto simp: RelayInboundMessageSchema_def split: if_splits)
  then show ?thesis
  proof cases
    case 1
    from RelayJoinSchema_Some [OF this] show ?thesis by auto
  next
    case 2
    from RelayFrameInboundSchema_Some [OF this] show ?thesis using payload_pattern_decoded by auto
  qed (auto simp: RelayLeaveSchema_def split: if_splits)
qed

theorem parsed_messages_are_bounded_witness:
  "\<exists>f. parseRelayInbound (\<lambda>_. Some (JObj [(''type'', JStr ''frame''), (''streamId'', JStr ''s''), (''seq'', JNum (Fin 7)),
      (''dir'', JStr ''output''), (''payload'', JStr ''QQ=='')])) ''raw'' = Some (Frame f) \<and> 0 \<le> fm_seq f"
proof -
  let ?p = "\<lambda>_ :: string. Some (JObj [(''type'', JStr ''frame''), (''streamId'', JStr ''s''), (''seq'', JNum (Fin 7)),
      (''dir'', JStr ''output''), (''payload'', JStr ''QQ=='')])"
  have floor7: "\<lfloor>7 :: rat\<rfloor> = 7" by (rule floor_unique) simp_all
  let ?f = "\<lparr>fm_streamId = ''s'', fm_seq = 7, fm_dir = Output, fm_payload = ''QQ==''\<rparr>"
  have "parseRelayInbound ?p ''raw'' = Some (Frame ?f)"
    by (simp add: parseRelayInbound_def RelayInboundMessageSchema_def RelayFrameInboundSchema_def z_literal_def
        z_string_def z_nonneg_int_def dirSchema_def payloadSchema_def payload_pattern_def rat_is_int_def
        MAX_SAFE_INTEGER_def is_b64_char_def b64_index_def floor7 Let_def)
  with parsed_messages_are_bounded [OF this] show ?thesis by auto
qed

text \<open>
  The size the relay charges for a payload is the number of bytes the sender encoded:
  the arithmetic on the length and the padding agrees with base64 encoding for every byte string.
\<close>

theorem charged_size_is_decoded_size:
  "base64DecodedByteLength (btoa bs) = int (length bs) \<and> atob (btoa bs) = Some bs"
  by (simp add: base64DecodedByteLength_encoded atob_btoa)



end
