(* ===== verification/Relay_Limiter.thy ===== *)
theory Relay_Limiter
  imports Relay_Wire
begin

text \<open>
  The per-connection rate limiter of the session relay (\<open>frame-rate-limiter.ts\<close>): two token
  buckets, frames per second and bytes per second, refilled from the clock that the caller reads.
  Times are milliseconds and tokens are exact rationals.
\<close>

section \<open>Token bucket\<close>

record token_bucket =
  tb_capacity :: rat
  tb_refillPerSecond :: rat
  tb_tokens :: rat
  tb_lastRefillMs :: rat

definition tb_new :: "rat \<Rightarrow> rat \<Rightarrow> rat \<Rightarrow> token_bucket" where
  "tb_new capacity refillPerSecond now =
     \<lparr>tb_capacity = capacity, tb_refillPerSecond = refillPerSecond, tb_tokens = capacity,
      tb_lastRefillMs = now\<rparr>"

definition tb_refill :: "rat \<Rightarrow> token_bucket \<Rightarrow> token_bucket" where
  "tb_refill now b =
     (let elapsedMs = now - tb_lastRefillMs b in
      if elapsedMs \<le> 0 then b
      else b\<lparr>tb_tokens := min (tb_capacity b) (tb_tokens b + elapsedMs / 1000 * tb_refillPerSecond b),
             tb_lastRefillMs := now\<rparr>)"

definition tb_available :: "rat \<Rightarrow> rat \<Rightarrow> token_bucket \<Rightarrow> bool \<times> token_bucket" where
  "tb_available now amount b = (let b' = tb_refill now b in (tb_tokens b' \<ge> amount, b'))"

definition tb_commit :: "rat \<Rightarrow> token_bucket \<Rightarrow> token_bucket" where
  "tb_commit amount b = b\<lparr>tb_tokens := tb_tokens b - amount\<rparr>"

section \<open>The limiter\<close>

record frame_limiter =
  fl_frames :: token_bucket
  fl_bytes :: token_bucket

definition limiter_new :: "rat \<Rightarrow> relay_limits \<Rightarrow> frame_limiter" where
  "limiter_new now limits =
     \<lparr>fl_frames = tb_new (of_int (maxFramesPerSecond limits)) (of_int (maxFramesPerSecond limits)) now,
      fl_bytes = tb_new (of_int (maxBytesPerSecond limits)) (of_int (maxBytesPerSecond limits)) now\<rparr>"

text \<open>\<open>||\<close> short-circuits: the byte bucket is refilled only when the frame bucket has a token.\<close>

definition limiter_allow :: "rat \<Rightarrow> rat \<Rightarrow> frame_limiter \<Rightarrow> bool \<times> frame_limiter" where
  "limiter_allow now frameBytes l =
     (let (okF, f) = tb_available now 1 (fl_frames l) in
      if \<not> okF then (False, l\<lparr>fl_frames := f\<rparr>)
      else (let (okB, b) = tb_available now frameBytes (fl_bytes l) in
            if \<not> okB then (False, l\<lparr>fl_frames := f, fl_bytes := b\<rparr>)
            else (True, l\<lparr>fl_frames := tb_commit 1 f, fl_bytes := tb_commit frameBytes b\<rparr>)))"

text \<open>A sequence of frames \<open>(arrival time, bytes)\<close>, and the ones that are let through.\<close>

fun limiter_run :: "frame_limiter \<Rightarrow> (rat \<times> rat) list \<Rightarrow> (rat \<times> rat) list \<times> frame_limiter" where
  "limiter_run l [] = ([], l)"
| "limiter_run l ((now, bytes) # xs) =
     (let (ok, l') = limiter_allow now bytes l; (acc, l'') = limiter_run l' xs
      in (if ok then (now, bytes) # acc else acc, l''))"

section \<open>Lemmas\<close>

definition tb_ok :: "token_bucket \<Rightarrow> bool" where
  "tb_ok b \<longleftrightarrow> 0 \<le> tb_tokens b \<and> tb_tokens b \<le> tb_capacity b \<and> 0 \<le> tb_refillPerSecond b"

definition limiter_ok :: "frame_limiter \<Rightarrow> bool" where
  "limiter_ok l \<longleftrightarrow> tb_ok (fl_frames l) \<and> tb_ok (fl_bytes l)"

lemma tb_refill_frame [simp]:
  "tb_capacity (tb_refill now b) = tb_capacity b"
  "tb_refillPerSecond (tb_refill now b) = tb_refillPerSecond b"
  by (simp_all add: tb_refill_def Let_def)

lemma tb_refill_last [simp]: "tb_lastRefillMs (tb_refill now b) = max now (tb_lastRefillMs b)"
  by (simp add: tb_refill_def Let_def max_def)

lemma tb_commit_frame [simp]:
  "tb_capacity (tb_commit a b) = tb_capacity b"
  "tb_refillPerSecond (tb_commit a b) = tb_refillPerSecond b"
  "tb_lastRefillMs (tb_commit a b) = tb_lastRefillMs b"
  "tb_tokens (tb_commit a b) = tb_tokens b - a"
  by (simp_all add: tb_commit_def)

lemma tb_refill_tokens:
  assumes "tb_ok b"
  shows "tb_tokens b \<le> tb_tokens (tb_refill now b)"
    and "tb_tokens (tb_refill now b) \<le> tb_capacity b"
    and "tb_tokens (tb_refill now b) \<le>
      tb_tokens b + tb_refillPerSecond b * (max now (tb_lastRefillMs b) - tb_lastRefillMs b) / 1000"
proof -
  have "0 \<le> (now - tb_lastRefillMs b) / 1000 * tb_refillPerSecond b" if "tb_lastRefillMs b \<le> now"
    using that assms by (auto simp: tb_ok_def intro!: mult_nonneg_nonneg)
  then show "tb_tokens b \<le> tb_tokens (tb_refill now b)"
    using assms by (auto simp: tb_refill_def Let_def tb_ok_def)
  show "tb_tokens (tb_refill now b) \<le> tb_capacity b"
    using assms by (auto simp: tb_refill_def Let_def tb_ok_def)
  show "tb_tokens (tb_refill now b) \<le>
      tb_tokens b + tb_refillPerSecond b * (max now (tb_lastRefillMs b) - tb_lastRefillMs b) / 1000"
    by (auto simp: tb_refill_def Let_def max_def min_def algebra_simps)
qed

lemma tb_ok_refill [intro]: "tb_ok b \<Longrightarrow> tb_ok (tb_refill now b)"
  using tb_refill_tokens [of b now] by (auto simp: tb_ok_def)

lemma tb_ok_commit [intro]: "tb_ok b \<Longrightarrow> 0 \<le> a \<Longrightarrow> a \<le> tb_tokens b \<Longrightarrow> tb_ok (tb_commit a b)"
  by (auto simp: tb_ok_def)

lemma limiter_allow_cases:
  "limiter_allow now bytes l = (ok, l') \<longleftrightarrow>
     (let f = tb_refill now (fl_frames l); b = tb_refill now (fl_bytes l) in
      if tb_tokens f < 1 then \<not> ok \<and> l' = l\<lparr>fl_frames := f\<rparr>
      else if tb_tokens b < bytes then \<not> ok \<and> l' = l\<lparr>fl_frames := f, fl_bytes := b\<rparr>
      else ok \<and> l' = l\<lparr>fl_frames := tb_commit 1 f, fl_bytes := tb_commit bytes b\<rparr>)"
  by (auto simp: limiter_allow_def tb_available_def Let_def not_less)

lemma limiter_allow_ok:
  assumes "limiter_ok l" "0 \<le> bytes"
  shows "limiter_ok (snd (limiter_allow now bytes l))"
proof -
  obtain ok l' where eq: "limiter_allow now bytes l = (ok, l')" by fastforce
  then have "limiter_ok l'"
    using assms
    by (auto simp: limiter_allow_cases limiter_ok_def Let_def not_less split: if_splits)
  with eq show ?thesis by simp
qed

text \<open>
  What one call does to a bucket: the tokens it spends are bounded by the tokens it had plus what
  the elapsed time added.
\<close>

lemma limiter_allow_bucket:
  assumes ok: "limiter_ok l" and b: "0 \<le> bytes"
    and eq: "limiter_allow now bytes l = (acc, l')"
    and sel: "(get, cost) = (fl_frames, 1) \<or> (get, cost) = (fl_bytes, bytes)"
  shows "tb_refillPerSecond (get l') = tb_refillPerSecond (get l)"
    and "tb_lastRefillMs (get l) \<le> tb_lastRefillMs (get l')"
    and "tb_lastRefillMs (get l') \<le> max now (tb_lastRefillMs (get l))"
    and "tb_tokens (get l') + (if acc then cost else 0) \<le>
      tb_tokens (get l) + tb_refillPerSecond (get l) * (tb_lastRefillMs (get l') - tb_lastRefillMs (get l)) / 1000"
  using eq sel tb_refill_tokens [of "fl_frames l" now] tb_refill_tokens [of "fl_bytes l" now] ok
  by (auto simp: limiter_allow_cases Let_def limiter_ok_def split: if_splits)

text \<open>The bound of a whole run, for a bucket and the cost it charges.\<close>

lemma limiter_run_bucket:
  assumes "limiter_ok l" "\<forall>x \<in> set xs. 0 \<le> snd x \<and> fst x \<le> T" "tb_lastRefillMs (get l) \<le> T"
    and sel: "(get = fl_frames \<and> cost = (\<lambda>_. 1)) \<or> (get = fl_bytes \<and> cost = snd)"
  shows "sum_list (map cost (fst (limiter_run l xs))) \<le>
    tb_tokens (get l) + tb_refillPerSecond (get l) * (T - tb_lastRefillMs (get l)) / 1000"
  using assms(1-3)
proof (induction xs arbitrary: l)
  case Nil
  have "tb_ok (get l)" using Nil.prems(1) sel by (auto simp: limiter_ok_def)
  with Nil show ?case by (auto simp: tb_ok_def intro!: add_nonneg_nonneg mult_nonneg_nonneg)
next
  case (Cons x xs)
  obtain now bytes where x: "x = (now, bytes)" by fastforce
  obtain acc l' where eq: "limiter_allow now bytes l = (acc, l')" by fastforce
  have prem: "0 \<le> bytes" "now \<le> T" using Cons.prems(2) x by auto
  have ok': "limiter_ok l'" using limiter_allow_ok [OF Cons.prems(1) prem(1), of now] eq by simp
  have "(get, cost x) = (fl_frames, 1) \<or> (get, cost x) = (fl_bytes, bytes)" using sel x by auto
  note step = limiter_allow_bucket [OF Cons.prems(1) prem(1) eq this]
  have "tb_lastRefillMs (get l') \<le> T" using step(3) prem(2) Cons.prems(3) by auto
  then have "sum_list (map cost (fst (limiter_run l' xs))) \<le>
    tb_tokens (get l') + tb_refillPerSecond (get l') * (T - tb_lastRefillMs (get l')) / 1000"
    using Cons.IH [OF ok'] Cons.prems(2) by simp
  moreover have "sum_list (map cost (fst (limiter_run l (x # xs)))) =
    (if acc then cost x else 0) + sum_list (map cost (fst (limiter_run l' xs)))"
    using x eq by (auto simp: split_beta Let_def)
  ultimately show ?case
    using step(1,4) by (auto simp: field_simps split: if_splits)
qed

lemma limiter_new_ok: "0 \<le> maxFramesPerSecond limits \<Longrightarrow> 0 \<le> maxBytesPerSecond limits \<Longrightarrow>
    limiter_ok (limiter_new now limits)"
  by (simp add: limiter_ok_def limiter_new_def tb_new_def tb_ok_def)

text \<open>The limiter as an event machine: an event is an arrival, a negative size counts as none.\<close>

definition limiter_step :: "frame_limiter \<Rightarrow> rat \<times> rat \<Rightarrow> frame_limiter" where
  "limiter_step l x = snd (limiter_allow (fst x) (max 0 (snd x)) l)"

interpretation limiter: event_machine limiter_step limiter_ok
  by unfold_locales (simp add: limiter_step_def limiter_allow_ok)

section \<open>Properties\<close>



end
