(* ===== verification/Relay_Queue.thy ===== *)
theory Relay_Queue
  imports Relay_Wire
begin

text \<open>
  The bounded two-lane send queue of one consumer (\<open>consumer-send-queue.ts\<close>). The socket's
  \<open>bufferedAmount\<close> is an argument of every operation that reads it: \<open>ba i\<close> is the value of the
  \<open>i\<close>-th read during that call, so nothing is assumed about how fast the socket drains.

  The loop that trims a lane runs while the lane is longer than its bound, and the bound is read
  from the environment without a check. It is a partial function: for a negative bound it does
  not return.
\<close>

section \<open>State\<close>

record 's queued_frame =
  qf_dir :: frame_dir
  qf_serialized :: 's
  qf_bytes :: int

record 's send_queue =
  q_control :: "'s queued_frame list"
  q_pty :: "'s queued_frame list"
  q_ptyDropRun :: nat
  q_controlDropRun :: nat

datatype 's queue_out = Q_Send "'s queued_frame" | Q_Lagged frame_dir nat

definition queue_new :: "'s send_queue" where
  "queue_new = \<lparr>q_control = [], q_pty = [], q_ptyDropRun = 0, q_controlDropRun = 0\<rparr>"

section \<open>Operations\<close>

partial_function (option) trim_lane :: "int \<Rightarrow> 'a list \<Rightarrow> nat \<Rightarrow> ('a list \<times> nat) option" where
  "trim_lane bound lane dropRun =
     (if int (length lane) > bound then trim_lane bound (tl lane) (Suc dropRun)
      else Some (lane, dropRun))"

text \<open>The drain loop; the sent frames, the control lane and the bulk lane that are left.\<close>

fun pump_loop ::
  "(nat \<Rightarrow> int) \<Rightarrow> int \<Rightarrow> nat \<Rightarrow> 's queued_frame list \<Rightarrow> 's queued_frame list \<Rightarrow>
   's queued_frame list \<times> 's queued_frame list \<times> 's queued_frame list" where
  "pump_loop ba hwm i (c # cs) ps =
     (if ba i < hwm
      then (let (sent, cs', ps') = pump_loop ba hwm (Suc i) cs ps in (c # sent, cs', ps'))
      else ([], c # cs, ps))"
| "pump_loop ba hwm i [] (p # ps) =
     (if ba i < hwm
      then (let (sent, cs', ps') = pump_loop ba hwm (Suc i) [] ps in (p # sent, cs', ps'))
      else ([], [], p # ps))"
| "pump_loop ba hwm i [] [] = ([], [], [])"

definition flushLagSignals :: "'s send_queue \<Rightarrow> 's send_queue \<times> 's queue_out list" where
  "flushLagSignals q =
     (q\<lparr>q_controlDropRun := 0, q_ptyDropRun := 0\<rparr>,
      (if q_controlDropRun q > 0 then [Q_Lagged Control (q_controlDropRun q)] else []) @
      (if q_ptyDropRun q > 0 then [Q_Lagged Output (q_ptyDropRun q)] else []))"

definition pump :: "relay_limits \<Rightarrow> (nat \<Rightarrow> int) \<Rightarrow> 's send_queue \<Rightarrow> 's send_queue \<times> 's queue_out list" where
  "pump limits ba q =
     (let (sent, cs, ps) = pump_loop ba (sendHighWaterMarkBytes limits) 0 (q_control q) (q_pty q);
          (q', lags) = flushLagSignals (q\<lparr>q_control := cs, q_pty := ps\<rparr>)
      in (q', map Q_Send sent @ lags))"

definition enqueue ::
  "relay_limits \<Rightarrow> (nat \<Rightarrow> int) \<Rightarrow> frame_dir \<Rightarrow> 's \<Rightarrow> int \<Rightarrow> 's send_queue \<Rightarrow>
   ('s send_queue \<times> 's queue_out list) option" where
  "enqueue limits ba dir serialized bytes q =
     (let f = \<lparr>qf_dir = dir, qf_serialized = serialized, qf_bytes = bytes\<rparr> in
      case dir of
        Control \<Rightarrow>
          (case trim_lane (maxQueuedControlFrames limits) (q_control q @ [f]) (q_controlDropRun q) of
             None \<Rightarrow> None
           | Some (lane, n) \<Rightarrow> Some (pump limits ba (q\<lparr>q_control := lane, q_controlDropRun := n\<rparr>)))
      | Output \<Rightarrow>
          (case trim_lane (maxQueuedPtyFrames limits) (q_pty q @ [f]) (q_ptyDropRun q) of
             None \<Rightarrow> None
           | Some (lane, n) \<Rightarrow> Some (pump limits ba (q\<lparr>q_pty := lane, q_ptyDropRun := n\<rparr>))))"

text \<open>A sequence of enqueues, each with its own readings of the socket; the effects in order.\<close>

fun queue_run ::
  "relay_limits \<Rightarrow> 's send_queue \<Rightarrow> ((nat \<Rightarrow> int) \<times> frame_dir \<times> 's \<times> int) list \<Rightarrow>
   ('s send_queue \<times> 's queue_out list) option" where
  "queue_run limits q [] = Some (q, [])"
| "queue_run limits q ((ba, dir, s, n) # xs) =
     (case enqueue limits ba dir s n q of
        None \<Rightarrow> None
      | Some (q', outs) \<Rightarrow>
          (case queue_run limits q' xs of
             None \<Rightarrow> None
           | Some (q'', outs') \<Rightarrow> Some (q'', outs @ outs')))"

section \<open>The trim loop\<close>

lemma trim_lane_returns:
  assumes "0 \<le> bound"
  shows "trim_lane bound lane n =
    Some (drop (length lane - nat bound) lane, n + (length lane - nat bound))"
proof (induction "length lane" arbitrary: lane n)
  case 0
  with assms show ?case by (subst trim_lane.simps) simp
next
  case (Suc k)
  then obtain x xs where lane: "lane = x # xs" by (cases lane) auto
  show ?case
  proof (cases "int (length lane) > bound")
    case True
    with assms have "length lane - nat bound = Suc (length xs - nat bound)"
      by (simp add: lane Suc_diff_le nat_le_iff)
    with True Suc lane show ?thesis by (subst trim_lane.simps) simp
  next
    case False
    with assms have "length lane - nat bound = 0" by linarith
    with False show ?thesis by (subst trim_lane.simps) simp
  qed
qed

lemma trim_lane_Some: "trim_lane bound lane n = Some r \<Longrightarrow> int (length (fst r)) \<le> bound"
proof (rule trim_lane.raw_induct [where P = "\<lambda>bound _ _ r. int (length (fst r)) \<le> bound"])
  fix f bound n r and lane :: "'a list"
  assume "\<And>b l n r. f b l n = Some r \<Longrightarrow> int (length (fst r)) \<le> b"
    and "(if int (length lane) > bound then f bound (tl lane) (Suc n) else Some (lane, n)) = Some r"
  then show "int (length (fst r)) \<le> bound" by (auto split: if_splits)
qed

section \<open>Lanes\<close>

definition limits_ok :: "relay_limits \<Rightarrow> bool" where
  "limits_ok l \<longleftrightarrow> 0 \<le> maxQueuedPtyFrames l \<and> 0 \<le> maxQueuedControlFrames l"

text \<open>The lane of a direction, its bound, and the sent frames and reported drops of a lane.\<close>

definition lane_of :: "frame_dir \<Rightarrow> 's send_queue \<Rightarrow> 's queued_frame list" where
  "lane_of d q = (case d of Control \<Rightarrow> q_control q | Output \<Rightarrow> q_pty q)"

definition drop_run :: "frame_dir \<Rightarrow> 's send_queue \<Rightarrow> nat" where
  "drop_run d q = (case d of Control \<Rightarrow> q_controlDropRun q | Output \<Rightarrow> q_ptyDropRun q)"

definition bound_of :: "frame_dir \<Rightarrow> relay_limits \<Rightarrow> int" where
  "bound_of d l = (case d of Control \<Rightarrow> maxQueuedControlFrames l | Output \<Rightarrow> maxQueuedPtyFrames l)"

fun sent_in :: "frame_dir \<Rightarrow> 's queue_out list \<Rightarrow> 's queued_frame list" where
  "sent_in d [] = []"
| "sent_in d (Q_Send f # outs) = (if qf_dir f = d then f # sent_in d outs else sent_in d outs)"
| "sent_in d (Q_Lagged _ _ # outs) = sent_in d outs"

fun reported_in :: "frame_dir \<Rightarrow> 's queue_out list \<Rightarrow> nat" where
  "reported_in d [] = 0"
| "reported_in d (Q_Send _ # outs) = reported_in d outs"
| "reported_in d (Q_Lagged d' n # outs) = (if d' = d then n else 0) + reported_in d outs"

definition queue_ok :: "'s send_queue \<Rightarrow> bool" where
  "queue_ok q \<longleftrightarrow> (\<forall>d. (\<forall>f \<in> set (lane_of d q). qf_dir f = d) \<and> drop_run d q = 0)"

lemmas lane_defs = lane_of_def drop_run_def bound_of_def

lemma sent_in_append [simp]: "sent_in d (xs @ ys) = sent_in d xs @ sent_in d ys"
  by (induction d xs rule: sent_in.induct) auto

lemma reported_in_append [simp]: "reported_in d (xs @ ys) = reported_in d xs + reported_in d ys"
  by (induction d xs rule: reported_in.induct) auto

lemma sent_in_map_Send [simp]: "sent_in d (map Q_Send fs) = filter (\<lambda>f. qf_dir f = d) fs"
  by (induction fs) auto

lemma reported_in_map_Send [simp]: "reported_in d (map Q_Send fs) = 0"
  by (induction fs) auto

lemma queue_ok_new: "queue_ok queue_new"
  by (auto simp: queue_ok_def queue_new_def lane_defs split: frame_dir.splits)

subsection \<open>The drain loop\<close>

lemma pump_loop_split:
  assumes "pump_loop ba hwm i cs ps = (sent, cs', ps')"
  shows "\<exists>a b. sent = a @ b \<and> cs = a @ cs' \<and> ps = b @ ps' \<and> (b \<noteq> [] \<longrightarrow> cs' = [])"
  using assms
proof (induction ba hwm i cs ps arbitrary: sent cs' ps' rule: pump_loop.induct)
  case (1 ba hwm i c cs ps)
  show ?case
  proof (cases "ba i < hwm")
    case True
    obtain s2 c2 p2 where rec: "pump_loop ba hwm (Suc i) cs ps = (s2, c2, p2)"
      by (metis prod_cases3)
    then obtain a b where "s2 = a @ b" "cs = a @ c2" "ps = b @ p2" "b \<noteq> [] \<longrightarrow> c2 = []"
      using "1.IH" [OF True] by blast
    with True rec "1.prems" show ?thesis
      by (intro exI [of _ "c # a"] exI [of _ b]) auto
  qed (use "1.prems" in auto)
next
  case (2 ba hwm i p ps)
  show ?case
  proof (cases "ba i < hwm")
    case True
    obtain s2 c2 p2 where rec: "pump_loop ba hwm (Suc i) [] ps = (s2, c2, p2)"
      by (metis prod_cases3)
    then obtain b where "s2 = b" "c2 = []" "ps = b @ p2"
      using "2.IH" [OF True] by auto
    with True rec "2.prems" show ?thesis
      by (intro exI [of _ "[]"] exI [of _ "p # b"]) auto
  qed (use "2.prems" in auto)
qed auto

text \<open>
  One pump, seen from a lane: a prefix of the lane is sent and the drop counter is reported and
  cleared; bulk frames are sent only when the control lane is empty at the end.
\<close>

lemma pump_lane:
  assumes ok: "\<forall>d. \<forall>f \<in> set (lane_of d q). qf_dir f = d"
    and eq: "pump limits ba q = (q', outs)"
  shows "sent_in d outs @ lane_of d q' = lane_of d q"
    and "reported_in d outs = drop_run d q"
    and "drop_run d q' = 0"
    and "sent_in Output outs \<noteq> [] \<Longrightarrow> q_control q' = []"
    and "\<forall>d. \<forall>f \<in> set (lane_of d q'). qf_dir f = d"
proof -
  obtain sent cs ps where
    loop: "pump_loop ba (sendHighWaterMarkBytes limits) 0 (q_control q) (q_pty q) = (sent, cs, ps)"
    by (metis prod_cases3)
  then obtain a b where split: "sent = a @ b" "q_control q = a @ cs" "q_pty q = b @ ps"
    "b \<noteq> [] \<longrightarrow> cs = []"
    using pump_loop_split by metis
  have dirs: "\<forall>f \<in> set a. qf_dir f = Control" "\<forall>f \<in> set b. qf_dir f = Output"
    "\<forall>f \<in> set cs. qf_dir f = Control" "\<forall>f \<in> set ps. qf_dir f = Output"
    using spec [OF ok, of Control] spec [OF ok, of Output] split by (auto simp: lane_of_def)
  have outs: "outs = map Q_Send (a @ b) @
      (if q_controlDropRun q > 0 then [Q_Lagged Control (q_controlDropRun q)] else []) @
      (if q_ptyDropRun q > 0 then [Q_Lagged Output (q_ptyDropRun q)] else [])"
    and q': "q' = q\<lparr>q_control := cs, q_pty := ps, q_controlDropRun := 0, q_ptyDropRun := 0\<rparr>"
    using eq loop split(1) by (auto simp: pump_def flushLagSignals_def)
  have filt: "filter (\<lambda>f. qf_dir f = Control) (a @ b) = a" "filter (\<lambda>f. qf_dir f = Output) (a @ b) = b"
    using dirs by (auto simp: filter_empty_conv filter_id_conv)
  have sent: "sent_in d outs = (case d of Control \<Rightarrow> a | Output \<Rightarrow> b)" for d
    unfolding outs sent_in_append sent_in_map_Send using filt by (cases d) simp_all
  show "sent_in d outs @ lane_of d q' = lane_of d q"
    using split by (cases d) (simp_all add: sent q' lane_of_def)
  show "reported_in d outs = drop_run d q"
    unfolding outs by (cases d) (simp_all add: drop_run_def)
  show "drop_run d q' = 0" by (cases d) (simp_all add: q' drop_run_def)
  show "sent_in Output outs \<noteq> [] \<Longrightarrow> q_control q' = []" using split(4) by (simp add: sent q')
  show "\<forall>d. \<forall>f \<in> set (lane_of d q'). qf_dir f = d"
    using dirs by (auto simp: q' lane_of_def split: frame_dir.splits)
qed

subsection \<open>One enqueue\<close>

text \<open>The state right before the pump: the frame appended to its lane, the lane trimmed.\<close>

definition queue_push :: "relay_limits \<Rightarrow> 's queued_frame \<Rightarrow> 's send_queue \<Rightarrow> 's send_queue" where
  "queue_push l f q =
     (let d = qf_dir f; lane = lane_of d q @ [f]; k = length lane - nat (bound_of d l) in
      case d of
        Control \<Rightarrow> q\<lparr>q_control := drop k lane, q_controlDropRun := q_controlDropRun q + k\<rparr>
      | Output \<Rightarrow> q\<lparr>q_pty := drop k lane, q_ptyDropRun := q_ptyDropRun q + k\<rparr>)"

lemma enqueue_eq:
  assumes "limits_ok l"
  shows "enqueue l ba d s n q =
    Some (pump l ba (queue_push l \<lparr>qf_dir = d, qf_serialized = s, qf_bytes = n\<rparr> q))"
  using assms
  by (cases d) (simp_all add: enqueue_def queue_push_def limits_ok_def trim_lane_returns lane_defs Let_def)

lemma queue_push_lane:
  assumes "limits_ok l"
  defines "k \<equiv> \<lambda>d q. Suc (length (lane_of d q)) - nat (bound_of d l)"
  shows "lane_of d (queue_push l f q) =
      (if d = qf_dir f then drop (k d q) (lane_of d q @ [f]) else lane_of d q)"
    and "drop_run d (queue_push l f q) = drop_run d q + (if d = qf_dir f then k d q else 0)"
  by (cases d; cases "qf_dir f"; simp add: queue_push_def lane_defs k_def Let_def)+

lemma queue_push_dirs:
  "\<forall>d. \<forall>f \<in> set (lane_of d q). qf_dir f = d \<Longrightarrow>
   \<forall>d. \<forall>g \<in> set (lane_of d (queue_push l f q)). qf_dir g = d"
  by (cases "qf_dir f")
     (auto simp: queue_push_def lane_defs Let_def split: frame_dir.splits dest: in_set_dropD)

lemma enqueue_lane:
  assumes lim: "limits_ok l" and ok: "queue_ok q"
    and eq: "enqueue l ba dir s n q = Some (q', outs)"
  defines "f \<equiv> \<lparr>qf_dir = dir, qf_serialized = s, qf_bytes = n\<rparr>"
  shows "\<exists>k. sent_in d outs @ lane_of d q' = drop k (lane_of d q @ (if d = dir then [f] else [])) \<and>
      reported_in d outs = k \<and> k \<le> length (lane_of d q @ (if d = dir then [f] else [])) \<and>
      (d \<noteq> dir \<longrightarrow> k = 0)"
    and "queue_ok q'"
    and "sent_in Output outs \<noteq> [] \<Longrightarrow> q_control q' = []"
proof -
  have p: "pump l ba (queue_push l f q) = (q', outs)"
    using eq enqueue_eq [OF lim, of ba dir s n q] f_def by simp
  have dirs: "\<forall>d. \<forall>g \<in> set (lane_of d (queue_push l f q)). qf_dir g = d"
    using ok by (intro queue_push_dirs) (auto simp: queue_ok_def)
  note pl = pump_lane [OF dirs p]
  have dr: "drop_run d q = 0" using ok by (auto simp: queue_ok_def)
  show "\<exists>k. sent_in d outs @ lane_of d q' = drop k (lane_of d q @ (if d = dir then [f] else [])) \<and>
      reported_in d outs = k \<and> k \<le> length (lane_of d q @ (if d = dir then [f] else [])) \<and>
      (d \<noteq> dir \<longrightarrow> k = 0)"
    using pl(1,2) [of d] queue_push_lane [OF lim, of d f q] dr
    by (intro exI [of _ "if d = dir then Suc (length (lane_of d q)) - nat (bound_of d l) else 0"])
       (auto simp: f_def)
  show "queue_ok q'" using pl(3,5) by (auto simp: queue_ok_def)
  show "sent_in Output outs \<noteq> [] \<Longrightarrow> q_control q' = []" by (rule pl(4))
qed

lemma enqueue_bounded:
  assumes lim: "limits_ok l" and ok: "queue_ok q" and eq: "enqueue l ba dir s n q = Some (q', outs)"
    and "int (length (lane_of d q)) \<le> bound_of d l"
  shows "int (length (lane_of d q')) \<le> bound_of d l"
proof -
  let ?f = "\<lparr>qf_dir = dir, qf_serialized = s, qf_bytes = n\<rparr>"
  have p: "pump l ba (queue_push l ?f q) = (q', outs)"
    using eq enqueue_eq [OF lim, of ba dir s n q] by simp
  have dirs: "\<forall>d. \<forall>g \<in> set (lane_of d (queue_push l ?f q)). qf_dir g = d"
    using ok by (intro queue_push_dirs) (auto simp: queue_ok_def)
  have "length (lane_of d q') \<le> length (lane_of d (queue_push l ?f q))"
    using arg_cong [OF pump_lane(1) [OF dirs p, of d], of length] by simp
  also have "int \<dots> \<le> bound_of d l"
    using assms(4) lim queue_push_lane(1) [OF lim, of d ?f q]
    by (auto simp: limits_ok_def bound_of_def split: frame_dir.splits if_splits)
  finally show ?thesis by simp
qed

section \<open>Runs\<close>

text \<open>The frames of a direction among the enqueued ones, in order.\<close>

definition offered_in ::
  "frame_dir \<Rightarrow> ((nat \<Rightarrow> int) \<times> frame_dir \<times> 's \<times> int) list \<Rightarrow> 's queued_frame list" where
  "offered_in d xs =
     map (\<lambda>(ba, dir, s, n). \<lparr>qf_dir = dir, qf_serialized = s, qf_bytes = n\<rparr>)
       (filter (\<lambda>(ba, dir, s, n). dir = d) xs)"

definition within_bounds :: "relay_limits \<Rightarrow> 's send_queue \<Rightarrow> bool" where
  "within_bounds l q \<longleftrightarrow> (\<forall>d. int (length (lane_of d q)) \<le> bound_of d l)"

lemma within_bounds_new: "limits_ok l \<Longrightarrow> within_bounds l queue_new"
  by (auto simp: within_bounds_def limits_ok_def queue_new_def lane_defs split: frame_dir.splits)

text \<open>The queue as an event machine: the state keeps its shape and its bounds.\<close>

definition queue_step ::
  "relay_limits \<Rightarrow> 's send_queue \<Rightarrow> (nat \<Rightarrow> int) \<times> frame_dir \<times> 's \<times> int \<Rightarrow> 's send_queue" where
  "queue_step l q x =
     (case x of (ba, dir, s, n) \<Rightarrow> (case enqueue l ba dir s n q of Some (q', _) \<Rightarrow> q' | None \<Rightarrow> q))"

interpretation queue: event_machine "queue_step l" "\<lambda>q. limits_ok l \<longrightarrow> queue_ok q \<and> within_bounds l q" for l
proof unfold_locales
  fix q :: "'a send_queue" and x :: "(nat \<Rightarrow> int) \<times> frame_dir \<times> 'a \<times> int"
  assume inv: "limits_ok l \<longrightarrow> queue_ok q \<and> within_bounds l q"
  obtain ba dir s n where x: "x = (ba, dir, s, n)" by (metis prod_cases4)
  show "limits_ok l \<longrightarrow> queue_ok (queue_step l q x) \<and> within_bounds l (queue_step l q x)"
  proof
    assume lim: "limits_ok l"
    obtain q' outs where e: "enqueue l ba dir s n q = Some (q', outs)"
      using enqueue_eq [OF lim, of ba dir s n q] by (metis surj_pair)
    have "queue_ok q'" using enqueue_lane(2) [OF lim _ e] inv lim by simp
    moreover have "within_bounds l q'"
      using enqueue_bounded [OF lim _ e] inv lim by (simp add: within_bounds_def)
    ultimately show "queue_ok (queue_step l q x) \<and> within_bounds l (queue_step l q x)"
      by (simp add: queue_step_def x e)
  qed
qed

lemma subseq_drop_append: "subseq (s @ m) (xs @ ys)" if "s @ m' = drop k xs" "subseq m (m' @ ys)"
proof -
  have "subseq (s @ m) (s @ m' @ ys)" using that(2) by (simp add: list_emb_append_mono)
  also have "s @ m' @ ys = drop k xs @ ys" using that(1) by (metis append.assoc)
  also have "subseq (drop k xs @ ys) (xs @ ys)"
    by (rule list_emb_append_mono) (auto simp: suffix_drop suffix_imp_subseq)
  finally show ?thesis .
qed

lemma queue_run_lane:
  assumes "limits_ok l" "queue_ok q"
  shows "\<exists>q' outs. queue_run l q xs = Some (q', outs) \<and> q' = foldl (queue_step l) q xs \<and>
    (\<forall>d. subseq (sent_in d outs @ lane_of d q') (lane_of d q @ offered_in d xs) \<and>
      length (sent_in d outs) + length (lane_of d q') + reported_in d outs =
        length (lane_of d q) + length (offered_in d xs))"
  using assms(2)
proof (induction xs arbitrary: q)
  case Nil
  then show ?case by (simp add: offered_in_def)
next
  case (Cons x xs)
  obtain ba dir s n where x: "x = (ba, dir, s, n)" by (metis prod_cases4)
  obtain q1 o1 where e: "enqueue l ba dir s n q = Some (q1, o1)"
    using enqueue_eq [OF assms(1), of ba dir s n q] by (metis surj_pair)
  note lane = enqueue_lane [OF assms(1) Cons.prems e]
  obtain q' o2 where r: "queue_run l q1 xs = Some (q', o2)" "q' = foldl (queue_step l) q1 xs"
    and ih: "\<And>d. subseq (sent_in d o2 @ lane_of d q') (lane_of d q1 @ offered_in d xs)"
      "\<And>d. length (sent_in d o2) + length (lane_of d q') + reported_in d o2 =
        length (lane_of d q1) + length (offered_in d xs)"
    using Cons.IH [OF lane(2)] by blast
  have "subseq (sent_in d (o1 @ o2) @ lane_of d q') (lane_of d q @ offered_in d (x # xs)) \<and>
      length (sent_in d (o1 @ o2)) + length (lane_of d q') + reported_in d (o1 @ o2) =
        length (lane_of d q) + length (offered_in d (x # xs))" for d
  proof -
    let ?new = "if d = dir then [\<lparr>qf_dir = dir, qf_serialized = s, qf_bytes = n\<rparr>] else []"
    obtain k where k: "sent_in d o1 @ lane_of d q1 = drop k (lane_of d q @ ?new)" "reported_in d o1 = k"
      "k \<le> length (lane_of d q @ ?new)"
      using lane(1) [of d] by blast
    have off: "offered_in d (x # xs) = ?new @ offered_in d xs" by (simp add: offered_in_def x)
    have "subseq (sent_in d o1 @ (sent_in d o2 @ lane_of d q')) ((lane_of d q @ ?new) @ offered_in d xs)"
      by (rule subseq_drop_append [OF k(1)]) (rule ih(1))
    moreover have "length (sent_in d o1) + length (lane_of d q1) + k = length (lane_of d q @ ?new)"
      using arg_cong [OF k(1), of length] k(3) by simp
    ultimately show ?thesis using ih(2) [of d] k(2) by (simp add: off)
  qed
  moreover have "queue_step l q x = q1" by (simp add: queue_step_def x e)
  ultimately show ?case using r e x by simp
qed

section \<open>Properties\<close>

text \<open>
  Property C3. Every frame offered to a consumer is accounted for. For non-negative bounds, any
  sequence of enqueues on a fresh queue returns; in each lane the sent frames and then the waiting
  ones are a subsequence of the offered ones (nothing is reordered, duplicated or made up), sent +
  waiting + reported as dropped is exactly the number offered, and what waits is within the bound.
\<close>

theorem queue_conserves_frames:
  assumes "limits_ok l"
  shows "\<exists>q outs. queue_run l queue_new xs = Some (q, outs) \<and>
    (\<forall>d. subseq (sent_in d outs @ lane_of d q) (offered_in d xs) \<and>
      length (sent_in d outs) + length (lane_of d q) + reported_in d outs = length (offered_in d xs) \<and>
      int (length (lane_of d q)) \<le> bound_of d l)"
proof -
  have empty: "lane_of d queue_new = ([] :: 'a queued_frame list)" for d
    by (simp add: queue_new_def lane_of_def split: frame_dir.splits)
  have "limits_ok l \<longrightarrow> queue_ok (foldl (queue_step l) queue_new xs) \<and>
      within_bounds l (foldl (queue_step l) queue_new xs)"
    by (rule queue.run_inv) (simp add: within_bounds_new queue_ok_new)
  then have "within_bounds l (foldl (queue_step l) queue_new xs)" using assms by simp
  with queue_run_lane [OF assms queue_ok_new, of xs] show ?thesis
    by (auto simp: empty within_bounds_def)
qed

theorem queue_conserves_frames_witness:
  "limits_ok DEFAULT_RELAY_LIMITS \<and>
   (\<exists>q outs. queue_run DEFAULT_RELAY_LIMITS queue_new [(\<lambda>_. 0, Output, ''x'', 1)] = Some (q, outs) \<and>
     length (sent_in Output outs) + length (lane_of Output q) + reported_in Output outs = 1)"
proof -
  have "limits_ok DEFAULT_RELAY_LIMITS" by (simp add: limits_ok_def DEFAULT_RELAY_LIMITS_def)
  with queue_conserves_frames [OF this, of "[(\<lambda>_. 0, Output, ''x'', 1)]"] show ?thesis
    by (auto simp: offered_in_def)
qed

text \<open>
  A flood of output cannot cost a control frame and cannot overtake one: enqueueing an
  output frame keeps every waiting control frame (sent now, in order, or still waiting) and reports
  no control drop; and whenever a call sends an output frame, no control frame is left waiting.
\<close>

theorem output_flood_spares_control:
  assumes "limits_ok l" "queue_ok q" "enqueue l ba Output s n q = Some (q', outs)"
  shows "sent_in Control outs @ q_control q' = q_control q \<and> reported_in Control outs = 0 \<and>
    (sent_in Output outs \<noteq> [] \<longrightarrow> q_control q' = [])"
proof -
  have "sent_in Control outs @ lane_of Control q' = lane_of Control q \<and> reported_in Control outs = 0"
    using enqueue_lane(1) [OF assms, of Control] by auto
  with enqueue_lane(3) [OF assms] show ?thesis by (simp add: lane_of_def)
qed

theorem output_flood_spares_control_witness:
  "\<exists>q' outs. enqueue (DEFAULT_RELAY_LIMITS\<lparr>maxQueuedPtyFrames := 0\<rparr>) (\<lambda>_. 2000000) Output ''o'' 1
      (queue_new\<lparr>q_control := [\<lparr>qf_dir = Control, qf_serialized = ''c'', qf_bytes = 1\<rparr>]\<rparr>) = Some (q', outs) \<and>
    reported_in Control outs = 0 \<and> length (q_control q') = 1"
proof -
  let ?l = "DEFAULT_RELAY_LIMITS\<lparr>maxQueuedPtyFrames := 0\<rparr>"
  let ?q = "queue_new\<lparr>q_control := [\<lparr>qf_dir = Control, qf_serialized = ''c'', qf_bytes = 1\<rparr>]\<rparr>"
  have l: "limits_ok ?l" by (simp add: limits_ok_def DEFAULT_RELAY_LIMITS_def)
  have q: "queue_ok ?q" by (auto simp: queue_ok_def queue_new_def lane_defs split: frame_dir.splits)
  let ?r = "pump ?l (\<lambda>_. 2000000) (queue_push ?l \<lparr>qf_dir = Output, qf_serialized = ''o'', qf_bytes = 1\<rparr> ?q)"
  have e: "enqueue ?l (\<lambda>_. 2000000) Output ''o'' 1 ?q = Some (fst ?r, snd ?r)"
    using enqueue_eq [OF l, of "\<lambda>_. 2000000" Output "''o''" 1 ?q] by simp
  moreover have "length (q_control (fst ?r)) = 1"
    by (simp add: queue_push_def lane_defs pump_def flushLagSignals_def Let_def queue_new_def
        DEFAULT_RELAY_LIMITS_def split_beta)
  ultimately show ?thesis using output_flood_spares_control [OF l q e] by blast
qed

text \<open>
  Property C36. With a negative bound, which the environment can set, enqueueing a frame of that
  lane never returns: the trim loop keeps shifting an empty array.
\<close>

theorem enqueue_diverges_on_negative_bound:
  assumes "bound_of d l < 0"
  shows "enqueue l ba d s n q = None"
proof -
  have never: "trim_lane (bound_of d l) lane k = None" for k and lane :: "'a queued_frame list"
  proof (cases "trim_lane (bound_of d l) lane k")
    case (Some r)
    from trim_lane_Some [OF this] assms show ?thesis by simp
  qed
  show ?thesis
    using never by (cases d) (simp_all add: enqueue_def bound_of_def Let_def)
qed

theorem enqueue_diverges_on_negative_bound_witness:
  "enqueue (cfg_limits (loadRelayConfig (\<lambda>k. if k = ''PIE_RELAY_MAX_QUEUED_PTY_FRAMES'' then Some ''-1'' else None)))
     (\<lambda>_. 0) Output ''x'' 1 queue_new = None"
  by (rule enqueue_diverges_on_negative_bound)
     (simp add: bound_of_def loadRelayConfig_def intFromEnv_def parse_int10_def js_space_def is_digit_def
        digits_value_def digit_value_def Let_def)

end
