(* ===== verification/Relay_Room.thy ===== *)
theory Relay_Room
  imports Relay_Queue
begin

text \<open>
  Rooms and the room registry of the session relay (\<open>relay-room.ts\<close>). A \<open>RelayRoom\<close> object is
  shared: the registry holds it under its key and every connection keeps a reference to the room
  it joined, also after the registry has dropped it. Room objects therefore live in a store, and
  the registry and the connections hold indices into it.

  A member sends to its own socket, so the effect of an operation on rooms is a list of
  \<open>(connection, message)\<close> pairs. A serialized message is represented by the message it serializes.
\<close>

record room_member =
  m_connectionId :: string
  m_participantId :: string
  m_role :: relay_role
  m_streamId :: string \<comment> \<open>captured for the lag signal\<close>
  m_queue :: "relay_outbound send_queue"

record relay_room =
  r_sessionId :: string
  r_streamId :: string
  r_members :: "(string \<times> room_member) list"

record relay_rooms =
  rr_store :: "relay_room list"
  rr_rooms :: "(string \<times> nat) list"

datatype routing_outcome = Delivered nat | Not_Delivered

type_synonym deliveries = "(string \<times> relay_outbound) list"

text \<open>The readings of \<open>bufferedAmount\<close> of every socket during one call.\<close>

type_synonym readings = "string \<Rightarrow> nat \<Rightarrow> int"

section \<open>Members\<close>

definition member_new :: "string \<Rightarrow> string \<Rightarrow> relay_role \<Rightarrow> string \<Rightarrow> room_member" where
  "member_new connectionId participantId role streamId =
     \<lparr>m_connectionId = connectionId, m_participantId = participantId, m_role = role,
      m_streamId = streamId, m_queue = queue_new\<rparr>"

fun member_out :: "room_member \<Rightarrow> relay_outbound queue_out \<Rightarrow> string \<times> relay_outbound" where
  "member_out m (Q_Send f) = (m_connectionId m, qf_serialized f)"
| "member_out m (Q_Lagged dir n) = (m_connectionId m, Stream_Lagged (m_streamId m) n dir)"

definition enqueueForward ::
  "relay_limits \<Rightarrow> readings \<Rightarrow> frame_dir \<Rightarrow> relay_outbound \<Rightarrow> int \<Rightarrow> room_member \<Rightarrow>
   (room_member \<times> deliveries) option" where
  "enqueueForward limits ba dir msg bytes m =
     (case enqueue limits (ba (m_connectionId m)) dir msg bytes (m_queue m) of
        None \<Rightarrow> None
      | Some (q, outs) \<Rightarrow> Some (m\<lparr>m_queue := q\<rparr>, map (member_out m) outs))"

definition resumeDrain :: "relay_limits \<Rightarrow> readings \<Rightarrow> room_member \<Rightarrow> room_member \<times> deliveries" where
  "resumeDrain limits ba m =
     (let (q, outs) = pump limits (ba (m_connectionId m)) (m_queue m)
      in (m\<lparr>m_queue := q\<rparr>, map (member_out m) outs))"

section \<open>Rooms\<close>

definition room_new :: "string \<Rightarrow> string \<Rightarrow> relay_room" where
  "room_new sessionId streamId = \<lparr>r_sessionId = sessionId, r_streamId = streamId, r_members = []\<rparr>"

definition room_add :: "room_member \<Rightarrow> relay_room \<Rightarrow> relay_room" where
  "room_add m r = r\<lparr>r_members := AList.update (m_connectionId m) m (r_members r)\<rparr>"

definition room_remove :: "string \<Rightarrow> relay_room \<Rightarrow> relay_room" where
  "room_remove c r = r\<lparr>r_members := AList.delete c (r_members r)\<rparr>"

text \<open>The loop over the members, which skips the sender; it also counts the recipients.\<close>

fun forward_all ::
  "relay_limits \<Rightarrow> readings \<Rightarrow> string \<Rightarrow> frame_dir \<Rightarrow> relay_outbound \<Rightarrow> int \<Rightarrow>
   (string \<times> room_member) list \<Rightarrow> (nat \<times> (string \<times> room_member) list \<times> deliveries) option" where
  "forward_all limits ba sender dir msg bytes [] = Some (0, [], [])"
| "forward_all limits ba sender dir msg bytes ((k, m) # ms) =
     (if m_connectionId m = sender
      then (case forward_all limits ba sender dir msg bytes ms of
              None \<Rightarrow> None | Some (n, ms', ds) \<Rightarrow> Some (n, (k, m) # ms', ds))
      else (case enqueueForward limits ba dir msg bytes m of
              None \<Rightarrow> None
            | Some (m', ds) \<Rightarrow>
                (case forward_all limits ba sender dir msg bytes ms of
                   None \<Rightarrow> None
                 | Some (n, ms', ds') \<Rightarrow> Some (Suc n, (k, m') # ms', ds @ ds'))))"

definition stamped :: "room_member \<Rightarrow> frame_message \<Rightarrow> relay_outbound" where
  "stamped sender frame =
     Frame_Out (fm_streamId frame) (fm_seq frame) (fm_dir frame) (fm_payload frame)
       \<lparr>ss_participantId = m_participantId sender, ss_role = m_role sender\<rparr>"

definition room_route ::
  "relay_limits \<Rightarrow> readings \<Rightarrow> room_member \<Rightarrow> frame_message \<Rightarrow> relay_room \<Rightarrow>
   (routing_outcome \<times> relay_room \<times> deliveries) option" where
  "room_route limits ba sender frame r =
     (if fm_dir frame = Control \<and> m_role sender \<noteq> Driver then Some (Not_Delivered, r, [])
      else (case forward_all limits ba (m_connectionId sender) (fm_dir frame) (stamped sender frame)
              (base64DecodedByteLength (fm_payload frame)) (r_members r) of
              None \<Rightarrow> None
            | Some (n, ms, ds) \<Rightarrow> Some (Delivered n, r\<lparr>r_members := ms\<rparr>, ds)))"

section \<open>Registry\<close>

definition rooms_new :: relay_rooms where
  "rooms_new = \<lparr>rr_store = [], rr_rooms = []\<rparr>"

text \<open>The key of a room: the two ids around a NUL character.\<close>

definition room_key :: "string \<Rightarrow> string \<Rightarrow> string" where
  "room_key sessionId streamId = sessionId @ [CHR 0x00] @ streamId"

definition registry_join :: "string \<Rightarrow> string \<Rightarrow> room_member \<Rightarrow> relay_rooms \<Rightarrow> nat \<times> relay_rooms" where
  "registry_join sessionId streamId m rr =
     (let key = room_key sessionId streamId in
      case map_of (rr_rooms rr) key of
        Some ref \<Rightarrow> (ref, rr\<lparr>rr_store := (rr_store rr)[ref := room_add m (rr_store rr ! ref)]\<rparr>)
      | None \<Rightarrow>
          (length (rr_store rr),
           rr\<lparr>rr_store := rr_store rr @ [room_add m (room_new sessionId streamId)],
              rr_rooms := AList.update key (length (rr_store rr)) (rr_rooms rr)\<rparr>))"

definition registry_leave :: "string \<Rightarrow> string \<Rightarrow> string \<Rightarrow> relay_rooms \<Rightarrow> relay_rooms" where
  "registry_leave sessionId streamId connectionId rr =
     (let key = room_key sessionId streamId in
      case map_of (rr_rooms rr) key of
        None \<Rightarrow> rr
      | Some ref \<Rightarrow>
          (let room = room_remove connectionId (rr_store rr ! ref);
               rr' = rr\<lparr>rr_store := (rr_store rr)[ref := room]\<rparr>
           in if r_members room = [] then rr'\<lparr>rr_rooms := AList.delete key (rr_rooms rr)\<rparr> else rr'))"

definition roomCount :: "relay_rooms \<Rightarrow> nat" where
  "roomCount rr = length (rr_rooms rr)"

definition hasRoom :: "relay_rooms \<Rightarrow> string \<Rightarrow> string \<Rightarrow> bool" where
  "hasRoom rr sessionId streamId \<longleftrightarrow> map_of (rr_rooms rr) (room_key sessionId streamId) \<noteq> None"

section \<open>Well-formed rooms\<close>

text \<open>
  The frames a member holds are stamped frames; \<open>P\<close> is what is known of their stamps. A room
  knows its members by their connection ids.
\<close>

definition frame_ok :: "(relay_outbound \<Rightarrow> bool) \<Rightarrow> room_member \<Rightarrow> bool" where
  "frame_ok P m \<longleftrightarrow> (\<forall>d. \<forall>f \<in> set (lane_of d (m_queue m)). P (qf_serialized f))"

definition member_ok :: "(relay_outbound \<Rightarrow> bool) \<Rightarrow> string \<Rightarrow> room_member \<Rightarrow> bool" where
  "member_ok P k m \<longleftrightarrow> m_connectionId m = k \<and> queue_ok (m_queue m) \<and> frame_ok P m"

definition room_ok :: "(relay_outbound \<Rightarrow> bool) \<Rightarrow> relay_room \<Rightarrow> bool" where
  "room_ok P r \<longleftrightarrow> jsmap_ok (r_members r) \<and> (\<forall>(k, m) \<in> set (r_members r). member_ok P k m)"

text \<open>A registered room carries the ids of its key and has a member.\<close>

definition registered_ok :: "string \<Rightarrow> relay_room \<Rightarrow> bool" where
  "registered_ok k r \<longleftrightarrow> k = room_key (r_sessionId r) (r_streamId r) \<and> r_members r \<noteq> []"

definition registry_ok :: "relay_rooms \<Rightarrow> bool" where
  "registry_ok rr \<longleftrightarrow> jsmap_ok (rr_rooms rr) \<and>
     (\<forall>k ref. map_of (rr_rooms rr) k = Some ref \<longrightarrow>
        ref < length (rr_store rr) \<and> registered_ok k (rr_store rr ! ref))"

definition rooms_ok :: "(relay_outbound \<Rightarrow> bool) \<Rightarrow> relay_rooms \<Rightarrow> bool" where
  "rooms_ok P rr \<longleftrightarrow> registry_ok rr \<and> (\<forall>r \<in> set (rr_store rr). room_ok P r)"

lemma rooms_ok_new [simp]: "rooms_ok P rooms_new"
  by (simp add: rooms_ok_def registry_ok_def rooms_new_def)

lemma member_new_ok [simp]: "member_ok P c (member_new c p r s)"
  using queue_ok_new
  by (simp add: member_ok_def member_new_def frame_ok_def queue_new_def lane_defs split: frame_dir.splits)

lemma member_new_id [simp]: "m_connectionId (member_new c p r s) = c"
  "m_participantId (member_new c p r s) = p" "m_role (member_new c p r s) = r"
  "m_queue (member_new c p r s) = queue_new"
  by (simp_all add: member_new_def)

lemma room_add_ok: "room_ok P r \<Longrightarrow> member_ok P (m_connectionId m) m \<Longrightarrow> room_ok P (room_add m r)"
  using set_update_subset [of "m_connectionId m" m "r_members r"]
  by (auto simp: room_ok_def room_add_def)

lemma room_remove_ok: "room_ok P r \<Longrightarrow> room_ok P (room_remove c r)"
  using set_delete_subset [of c "r_members r"]
  by (auto simp: room_ok_def room_remove_def)

lemma room_new_ok [simp]: "room_ok P (room_new s t)"
  by (simp add: room_ok_def room_new_def)

lemma room_add_nonempty [simp]: "r_members (room_add m r) \<noteq> []"
  by (cases "r_members r") (auto simp: room_add_def)

lemma room_ids [simp]:
  "r_sessionId (room_add m r) = r_sessionId r" "r_streamId (room_add m r) = r_streamId r"
  "r_sessionId (room_remove c r) = r_sessionId r" "r_streamId (room_remove c r) = r_streamId r"
  "r_sessionId (room_new s t) = s" "r_streamId (room_new s t) = t" "r_members (room_new s t) = []"
  by (simp_all add: room_add_def room_remove_def room_new_def)

lemma registered_ok_add: "registered_ok k r \<Longrightarrow> registered_ok k (room_add m r)"
  by (simp add: registered_ok_def)

text \<open>Two registered keys never share a room object.\<close>

lemma registry_ok_inj:
  "registry_ok rr \<Longrightarrow> map_of (rr_rooms rr) k = Some ref \<Longrightarrow> map_of (rr_rooms rr) k' = Some ref \<Longrightarrow> k = k'"
  unfolding registry_ok_def registered_ok_def by metis

text \<open>Replacing the room object of one key, or appending a fresh one under a new key.\<close>

lemma registry_ok_replace:
  assumes "registry_ok rr" "map_of (rr_rooms rr) k = Some ref" "registered_ok k r"
  shows "registry_ok (rr\<lparr>rr_store := (rr_store rr)[ref := r]\<rparr>)"
proof -
  have "registered_ok k' ((rr_store rr)[ref := r] ! ref')" if "map_of (rr_rooms rr) k' = Some ref'" for k' ref'
    using that assms registry_ok_inj [OF assms(1) that, of k]
    by (cases "ref' = ref") (auto simp: registry_ok_def)
  with assms(1) show ?thesis by (simp add: registry_ok_def)
qed

lemma registry_ok_append:
  assumes "registry_ok rr" "registered_ok k r"
  shows "registry_ok (rr\<lparr>rr_store := rr_store rr @ [r],
     rr_rooms := AList.update k (length (rr_store rr)) (rr_rooms rr)\<rparr>)"
  using assms by (auto simp: registry_ok_def nth_append less_Suc_eq)

lemma registry_ok_forget:
  assumes "registry_ok rr" "map_of (rr_rooms rr) k = Some ref"
  shows "registry_ok (rr\<lparr>rr_store := (rr_store rr)[ref := r], rr_rooms := AList.delete k (rr_rooms rr)\<rparr>)"
proof -
  have "registered_ok k' ((rr_store rr)[ref := r] ! ref')"
    if "map_of (rr_rooms rr) k' = Some ref'" "k' \<noteq> k" for k' ref'
    using that assms registry_ok_inj [OF assms(1) that(1), of k]
    by (cases "ref' = ref") (auto simp: registry_ok_def)
  with assms(1) show ?thesis by (simp add: registry_ok_def jsmap_ok_delete)
qed

lemma store_update_ok:
  "\<forall>x \<in> set xs. room_ok P x \<Longrightarrow> room_ok P r \<Longrightarrow> \<forall>x \<in> set (xs[i := r]). room_ok P x"
  by (auto dest!: set_update_subset_insert [THEN subsetD])

lemma registry_join_ok:
  assumes rr: "rooms_ok P rr" and m: "member_ok P (m_connectionId m) m"
  shows "rooms_ok P (snd (registry_join s t m rr))"
proof (cases "map_of (rr_rooms rr) (room_key s t)")
  case None
  have "registered_ok (room_key s t) (room_add m (room_new s t))" by (simp add: registered_ok_def)
  with rr m None show ?thesis
    by (simp add: rooms_ok_def registry_join_def registry_ok_append room_add_ok)
next
  case (Some ref)
  with rr have ref: "ref < length (rr_store rr)" "registered_ok (room_key s t) (rr_store rr ! ref)"
    by (auto simp: rooms_ok_def registry_ok_def)
  then have "room_ok P (rr_store rr ! ref)" using rr by (simp add: rooms_ok_def)
  then have "\<forall>x \<in> set ((rr_store rr)[ref := room_add m (rr_store rr ! ref)]). room_ok P x"
    using rr m by (intro store_update_ok room_add_ok) (simp_all add: rooms_ok_def)
  with rr Some ref show ?thesis
    by (simp add: rooms_ok_def registry_join_def registry_ok_replace registered_ok_add)
qed

lemma registry_leave_ok:
  assumes rr: "rooms_ok P rr"
  shows "rooms_ok P (registry_leave s t c rr)"
proof (cases "map_of (rr_rooms rr) (room_key s t)")
  case None
  with rr show ?thesis by (simp add: registry_leave_def)
next
  case (Some ref)
  let ?r = "room_remove c (rr_store rr ! ref)"
  have ref: "ref < length (rr_store rr)" "registered_ok (room_key s t) (rr_store rr ! ref)"
    using rr Some by (auto simp: rooms_ok_def registry_ok_def)
  then have "\<forall>x \<in> set ((rr_store rr)[ref := ?r]). room_ok P x"
    using rr by (intro store_update_ok room_remove_ok) (simp_all add: rooms_ok_def)
  moreover have "r_members ?r \<noteq> [] \<Longrightarrow> registered_ok (room_key s t) ?r"
    using ref(2) by (simp add: registered_ok_def)
  ultimately show ?thesis
    using rr Some
    by (simp add: rooms_ok_def registry_leave_def Let_def registry_ok_replace registry_ok_forget)
qed

section \<open>Routing\<close>

text \<open>One forward keeps the member well formed, and what it sends are frames of the member.\<close>

definition delivery_ok :: "(relay_outbound \<Rightarrow> bool) \<Rightarrow> relay_outbound \<Rightarrow> bool" where
  "delivery_ok P out \<longleftrightarrow> P out \<or> (\<exists>t k d. out = Stream_Lagged t k d)"

lemma sent_in_complete: "Q_Send f \<in> set outs \<Longrightarrow> f \<in> set (sent_in (qf_dir f) outs)"
proof (induction outs)
  case (Cons x outs)
  then show ?case by (cases x) auto
qed simp

lemma enqueueForward_ok:
  assumes lim: "limits_ok l" and m: "member_ok P k m" and msg: "P msg"
    and eq: "enqueueForward l ba dir msg n m = Some (m', ds)"
  shows "member_ok P k m' \<and> (\<forall>(c, out) \<in> set ds. c = k \<and> delivery_ok P out)"
proof -
  obtain q outs where e: "enqueue l (ba (m_connectionId m)) dir msg n (m_queue m) = Some (q, outs)"
    and m': "m' = m\<lparr>m_queue := q\<rparr>" and ds: "ds = map (member_out m) outs"
    using eq by (auto simp: enqueueForward_def split: option.splits)
  have mq: "queue_ok (m_queue m)" "frame_ok P m" "m_connectionId m = k"
    using m by (simp_all add: member_ok_def)
  note lane = enqueue_lane [OF lim mq(1) e]
  let ?f = "\<lparr>qf_dir = dir, qf_serialized = msg, qf_bytes = n\<rparr>"
  have P: "P (qf_serialized f)" if "f \<in> set (sent_in d outs @ lane_of d q)" for f d
  proof -
    obtain j where "sent_in d outs @ lane_of d q =
      drop j (lane_of d (m_queue m) @ (if d = dir then [?f] else []))"
      using lane(1) by blast
    then have "f \<in> set (lane_of d (m_queue m) @ (if d = dir then [?f] else []))"
      using that by (metis in_set_dropD)
    then show ?thesis using mq(2) msg by (auto simp: frame_ok_def split: if_splits)
  qed
  have "delivery_ok P (snd (member_out m x)) \<and> fst (member_out m x) = k" if "x \<in> set outs" for x
  proof (cases x)
    case (Q_Send f)
    with that have "f \<in> set (sent_in (qf_dir f) outs)" by (simp add: sent_in_complete)
    with P [of f "qf_dir f"] Q_Send mq(3) show ?thesis by (simp add: delivery_ok_def)
  next
    case (Q_Lagged d n)
    with mq(3) show ?thesis by (simp add: delivery_ok_def)
  qed
  moreover have "member_ok P k m'"
    using lane(2) P mq(3) by (auto simp: member_ok_def frame_ok_def m')
  ultimately show ?thesis by (auto simp: ds) (metis fst_conv snd_conv)+
qed

lemma enqueueForward_total:
  "limits_ok l \<Longrightarrow> \<exists>m' ds. enqueueForward l ba dir msg n m = Some (m', ds)"
  using enqueue_eq [of l "ba (m_connectionId m)" dir msg n "m_queue m"]
  by (auto simp: enqueueForward_def split: prod.splits)

lemma forward_all_ok:
  assumes lim: "limits_ok l" and msg: "P msg"
    and ms: "\<forall>(k, m) \<in> set ms. member_ok P k m"
  shows "\<exists>ms' ds. forward_all l ba c dir msg b ms =
      Some (length (filter (\<lambda>p. fst p \<noteq> c) ms), ms', ds) \<and>
    map fst ms' = map fst ms \<and> (\<forall>(k, m) \<in> set ms'. member_ok P k m) \<and>
    (\<forall>(k, out) \<in> set ds. k \<noteq> c \<and> k \<in> fst ` set ms \<and> delivery_ok P out)"
  using ms
proof (induction ms)
  case Nil
  then show ?case by simp
next
  case (Cons p ms)
  obtain k m where p: "p = (k, m)" by fastforce
  have m: "member_ok P k m" "m_connectionId m = k" using Cons.prems p by (auto simp: member_ok_def)
  obtain ms2 ds2 where rec: "forward_all l ba c dir msg b ms =
      Some (length (filter (\<lambda>p. fst p \<noteq> c) ms), ms2, ds2)"
    and ih: "map fst ms2 = map fst ms" "\<forall>(k, m) \<in> set ms2. member_ok P k m"
    "\<forall>(k, out) \<in> set ds2. k \<noteq> c \<and> k \<in> fst ` set ms \<and> delivery_ok P out"
    using Cons.IH Cons.prems by auto
  show ?case
  proof (cases "k = c")
    case True
    with rec m p have "forward_all l ba c dir msg b (p # ms) =
        Some (length (filter (\<lambda>p. fst p \<noteq> c) (p # ms)), p # ms2, ds2)" by simp
    with ih m p show ?thesis by (intro exI [of _ "p # ms2"] exI [of _ ds2]) auto
  next
    case False
    obtain m' d1 where e: "enqueueForward l ba dir msg b m = Some (m', d1)"
      using enqueueForward_total [OF lim] by blast
    have "member_ok P k m' \<and> (\<forall>(c, out) \<in> set d1. c = k \<and> delivery_ok P out)"
      by (rule enqueueForward_ok [OF lim m(1) msg e])
    moreover have "forward_all l ba c dir msg b (p # ms) =
        Some (length (filter (\<lambda>p. fst p \<noteq> c) (p # ms)), (k, m') # ms2, d1 @ ds2)"
      using rec m p e False by simp
    ultimately show ?thesis using ih p False
      by (intro exI [of _ "(k, m') # ms2"] exI [of _ "d1 @ ds2"]) auto
  qed
qed

lemma room_route_ok:
  assumes lim: "limits_ok l" and r: "room_ok P r"
    and msg: "fm_dir frame = Control \<longrightarrow> m_role sender = Driver \<Longrightarrow> P (stamped sender frame)"
  shows "\<exists>oc r' ds. room_route l ba sender frame r = Some (oc, r', ds) \<and> room_ok P r' \<and>
    map fst (r_members r') = map fst (r_members r) \<and>
    r_sessionId r' = r_sessionId r \<and> r_streamId r' = r_streamId r \<and>
    (\<forall>(k, out) \<in> set ds. k \<noteq> m_connectionId sender \<and> k \<in> fst ` set (r_members r) \<and> delivery_ok P out)"
proof (cases "fm_dir frame = Control \<and> m_role sender \<noteq> Driver")
  case True
  with r show ?thesis by (simp add: room_route_def)
next
  case False
  then have P: "P (stamped sender frame)" using msg by auto
  have "\<forall>(k, m) \<in> set (r_members r). member_ok P k m" using r by (simp add: room_ok_def)
  from forward_all_ok [OF lim P this] obtain ms ds where
    f: "forward_all l ba (m_connectionId sender) (fm_dir frame) (stamped sender frame)
        (base64DecodedByteLength (fm_payload frame)) (r_members r) =
        Some (length (filter (\<lambda>p. fst p \<noteq> m_connectionId sender) (r_members r)), ms, ds)"
    and fa: "map fst ms = map fst (r_members r)" "\<forall>(k, m) \<in> set ms. member_ok P k m"
      "\<forall>(k, out) \<in> set ds. k \<noteq> m_connectionId sender \<and> k \<in> fst ` set (r_members r) \<and> delivery_ok P out"
    by blast
  with False r show ?thesis by (simp add: room_route_def room_ok_def jsmap_ok_def)
qed

section \<open>Idle sockets\<close>

definition idle :: "relay_limits \<Rightarrow> readings \<Rightarrow> bool" where
  "idle l ba \<longleftrightarrow> (\<forall>c i. ba c i < sendHighWaterMarkBytes l)"

lemma enqueueForward_idle:
  assumes "limits_ok l" "idle l ba" "0 < bound_of dir l" "m_queue m = queue_new"
  shows "enqueueForward l ba dir msg n m = Some (m, [(m_connectionId m, msg)])"
proof -
  have q: "m\<lparr>m_queue := queue_new\<rparr> = m" using assms(4) by (cases m) simp
  have d: "Suc 0 - nat (bound_of dir l) = 0" using assms(3) by simp
  show ?thesis
    using assms(2,4) q d
    by (cases dir) (simp_all add: enqueueForward_def enqueue_eq [OF assms(1)] queue_push_def lane_of_def
        queue_new_def pump_def flushLagSignals_def idle_def Let_def)
qed

lemma forward_all_idle:
  assumes "limits_ok l" "idle l ba" "0 < bound_of dir l"
    and "\<forall>(k, m) \<in> set ms. m_connectionId m = k \<and> m_queue m = queue_new"
  shows "forward_all l ba c dir msg n ms =
    Some (length (filter (\<lambda>p. fst p \<noteq> c) ms), ms, map (\<lambda>p. (fst p, msg)) (filter (\<lambda>p. fst p \<noteq> c) ms))"
  using assms(4)
proof (induction ms)
  case (Cons p ms)
  then show ?case
    by (cases p) (auto simp: enqueueForward_idle [OF assms(1-3)])
qed simp

section \<open>Properties\<close>

text \<open>
  Property C10. Routing one frame. A control frame of a non-driver changes nothing and reaches
  nobody. Any other frame is offered to every member but the sender: the reported number of
  recipients is the number of those members, the membership is unchanged, and every message it
  causes goes to another member of the room and is a frame with a stamp of the room or a lag notice.
  When the sockets are idle and nothing waits, each other member gets this frame exactly once, with
  the identity and the role that admission gave the sender, and nothing else is sent.
\<close>

theorem route_reaches_exactly_the_others:
  assumes "limits_ok l" "room_ok P r"
    and "fm_dir frame = Control \<longrightarrow> m_role sender = Driver \<Longrightarrow> P (stamped sender frame)"
  shows "(fm_dir frame = Control \<and> m_role sender = Viewer \<longrightarrow>
        room_route l ba sender frame r = Some (Not_Delivered, r, [])) \<and>
    (fm_dir frame = Output \<or> m_role sender = Driver \<longrightarrow>
      (\<exists>ms ds. room_route l ba sender frame r =
          Some (Delivered (length (filter (\<lambda>p. fst p \<noteq> m_connectionId sender) (r_members r))),
            r\<lparr>r_members := ms\<rparr>, ds) \<and>
        map fst ms = map fst (r_members r) \<and>
        (\<forall>(k, out) \<in> set ds. k \<noteq> m_connectionId sender \<and> k \<in> fst ` set (r_members r) \<and> delivery_ok P out) \<and>
        (idle l ba \<and> 0 < bound_of (fm_dir frame) l \<and> (\<forall>(k, m) \<in> set (r_members r). m_queue m = queue_new) \<longrightarrow>
          ds = map (\<lambda>p. (fst p, stamped sender frame))
                 (filter (\<lambda>p. fst p \<noteq> m_connectionId sender) (r_members r)))))"
proof (intro conjI impI)
  assume "fm_dir frame = Control \<and> m_role sender = Viewer"
  then show "room_route l ba sender frame r = Some (Not_Delivered, r, [])" by (simp add: room_route_def)
next
  assume "fm_dir frame = Output \<or> m_role sender = Driver"
  then have allowed: "\<not> (fm_dir frame = Control \<and> m_role sender \<noteq> Driver)" by auto
  let ?others = "filter (\<lambda>p. fst p \<noteq> m_connectionId sender) (r_members r)"
  let ?fwd = "forward_all l ba (m_connectionId sender) (fm_dir frame) (stamped sender frame)
    (base64DecodedByteLength (fm_payload frame)) (r_members r)"
  have members: "\<forall>(k, m) \<in> set (r_members r). member_ok P k m" using assms(2) by (simp add: room_ok_def)
  obtain ms ds where f: "?fwd = Some (length ?others, ms, ds)" and fa: "map fst ms = map fst (r_members r)"
      "\<forall>(k, out) \<in> set ds. k \<noteq> m_connectionId sender \<and> k \<in> fst ` set (r_members r) \<and> delivery_ok P out"
    using forward_all_ok [OF assms(1) assms(3) members] allowed by blast
  have "ds = map (\<lambda>p. (fst p, stamped sender frame)) ?others"
    if "idle l ba" "0 < bound_of (fm_dir frame) l" "\<forall>(k, m) \<in> set (r_members r). m_queue m = queue_new"
  proof -
    have "\<forall>(k, m) \<in> set (r_members r). m_connectionId m = k \<and> m_queue m = queue_new"
      using members that(3) by (auto simp: member_ok_def)
    from forward_all_idle [OF assms(1) that(1,2) this] f show ?thesis by auto
  qed
  with f fa allowed show "\<exists>ms ds. room_route l ba sender frame r =
      Some (Delivered (length ?others), r\<lparr>r_members := ms\<rparr>, ds) \<and>
      map fst ms = map fst (r_members r) \<and>
      (\<forall>(k, out) \<in> set ds. k \<noteq> m_connectionId sender \<and> k \<in> fst ` set (r_members r) \<and> delivery_ok P out) \<and>
      (idle l ba \<and> 0 < bound_of (fm_dir frame) l \<and> (\<forall>(k, m) \<in> set (r_members r). m_queue m = queue_new) \<longrightarrow>
        ds = map (\<lambda>p. (fst p, stamped sender frame)) ?others)"
    by (intro exI [of _ ms] exI [of _ ds]) (auto simp: room_route_def)
qed

theorem route_reaches_exactly_the_others_witness:
  "\<exists>ms. room_route DEFAULT_RELAY_LIMITS (\<lambda>_ _. 0) (member_new ''a'' ''pa'' Driver ''t'')
      \<lparr>fm_streamId = ''t'', fm_seq = 1, fm_dir = Control, fm_payload = []\<rparr>
      (room_add (member_new ''b'' ''pb'' Viewer ''t'') (room_add (member_new ''a'' ''pa'' Driver ''t'') (room_new ''s'' ''t''))) =
    Some (Delivered 1, \<lparr>r_sessionId = ''s'', r_streamId = ''t'', r_members = ms\<rparr>,
      [(''b'', Frame_Out ''t'' 1 Control [] \<lparr>ss_participantId = ''pa'', ss_role = Driver\<rparr>)])"
proof -
  let ?a = "member_new ''a'' ''pa'' Driver ''t''" and ?b = "member_new ''b'' ''pb'' Viewer ''t''"
  let ?r = "room_add ?b (room_add ?a (room_new ''s'' ''t''))"
  let ?f = "\<lparr>fm_streamId = ''t'', fm_seq = 1, fm_dir = Control, fm_payload = []\<rparr>"
  have l: "limits_ok DEFAULT_RELAY_LIMITS" by (simp add: limits_ok_def DEFAULT_RELAY_LIMITS_def)
  have r: "room_ok (\<lambda>_. True) ?r" by (intro room_add_ok room_new_ok) simp_all
  have "idle DEFAULT_RELAY_LIMITS (\<lambda>_ _. 0)" "0 < bound_of Control DEFAULT_RELAY_LIMITS"
    by (simp_all add: idle_def bound_of_def DEFAULT_RELAY_LIMITS_def)
  with route_reaches_exactly_the_others [OF l r, of ?f ?a "\<lambda>_ _. 0"] show ?thesis
    by (auto simp: room_add_def room_new_def member_new_def stamped_def)
qed

text \<open>
  Rooms of different session and stream ids are different rooms as long as no session id
  contains the NUL character that separates the two ids in the key. The inbound schema does not
  exclude NUL, and then two different pairs do share a key.
\<close>

theorem room_key_injective:
  assumes "CHR 0x00 \<notin> set s1" "CHR 0x00 \<notin> set s2" "room_key s1 t1 = room_key s2 t2"
  shows "s1 = s2 \<and> t1 = t2"
proof -
  have tw: "takeWhile (\<lambda>c. c \<noteq> CHR 0x00) (room_key s t) = s" if "CHR 0x00 \<notin> set s" for s t
    using that by (auto simp: room_key_def takeWhile_append)
  have "s1 = s2" using tw [OF assms(1), of t1] tw [OF assms(2), of t2] assms(3) by simp
  with assms(3) show ?thesis by (simp add: room_key_def)
qed

theorem room_key_injective_witness:
  "room_key ''s'' ''t'' \<noteq> room_key ''s'' ''u'' \<and>
   room_key (''s'' @ [CHR 0x00] @ ''t'') ''u'' = room_key ''s'' (''t'' @ [CHR 0x00] @ ''u'')"
  using room_key_injective [of "''s''" "''s''" "''t''" "''u''"] by (auto simp: room_key_def)

end
