(* ===== verification/Relay_Connection.thy ===== *)
theory Relay_Connection
  imports Relay_Limiter Relay_Room
begin

text \<open>
  The connections of the session relay (\<open>relay-connection.ts\<close>) over the shared room registry, as
  one state machine. Its events are what the event loop delivers: a new socket, a message, the
  settlement of an admission request, a closed socket. \<open>handlePreJoin\<close> awaits the admission
  verifier, so its second half is an event of its own and any other event may come in between:
  \<open>w_pending\<close> holds the requests that are under way. \<open>w_wire\<close> records the calls on the sockets and
  \<open>w_audit\<close> the structured log lines, in order.
\<close>

section \<open>State\<close>

datatype socket_event = Sent relay_outbound | Closed int string

datatype audit_event =
    Audit_Joined string string string relay_role
  | Audit_Denied string string
  | Audit_Left string string string
  | Audit_Control_Rejected string string string relay_role

record relay_conn =
  c_limiter :: frame_limiter
  c_member :: "room_member option"
  c_room :: "nat option"
  c_sessionId :: string
  c_streamId :: string
  c_left :: bool

record relay_world =
  w_rooms :: relay_rooms
  w_conns :: "(string \<times> relay_conn) list"
  w_pending :: "(string \<times> admission_request) list"
  w_wire :: "(string \<times> socket_event) list"
  w_audit :: "audit_event list"

definition relay_init :: relay_world where
  "relay_init = \<lparr>w_rooms = rooms_new, w_conns = [], w_pending = [], w_wire = [], w_audit = []\<rparr>"

definition CLOSE_ADMISSION_DENIED :: int where "CLOSE_ADMISSION_DENIED = 4403"
definition CLOSE_NORMAL :: int where "CLOSE_NORMAL = 1000"

section \<open>Handlers\<close>

definition conn_new :: "rat \<Rightarrow> relay_limits \<Rightarrow> relay_conn" where
  "conn_new now limits =
     \<lparr>c_limiter = limiter_new now limits, c_member = None, c_room = None,
      c_sessionId = [], c_streamId = [], c_left = False\<rparr>"

definition set_conn :: "string \<Rightarrow> relay_conn \<Rightarrow> relay_world \<Rightarrow> relay_world" where
  "set_conn c cn w = w\<lparr>w_conns := AList.update c cn (w_conns w)\<rparr>"

definition send :: "string \<Rightarrow> relay_outbound \<Rightarrow> relay_world \<Rightarrow> relay_world" where
  "send c msg w = w\<lparr>w_wire := w_wire w @ [(c, Sent msg)]\<rparr>"

definition sendError :: "string \<Rightarrow> relay_error_code \<Rightarrow> string \<Rightarrow> relay_world \<Rightarrow> relay_world" where
  "sendError c code msg w = send c (Error_Out code msg) w"

definition close_socket :: "string \<Rightarrow> int \<Rightarrow> string \<Rightarrow> relay_world \<Rightarrow> relay_world" where
  "close_socket c code reason w = w\<lparr>w_wire := w_wire w @ [(c, Closed code reason)]\<rparr>"

definition audit :: "audit_event \<Rightarrow> relay_world \<Rightarrow> relay_world" where
  "audit a w = w\<lparr>w_audit := w_audit w @ [a]\<rparr>"

text \<open>\<open>handlePreJoin\<close> up to its \<open>await\<close>.\<close>

fun handlePreJoin :: "string \<Rightarrow> relay_inbound \<Rightarrow> relay_world \<Rightarrow> relay_world" where
  "handlePreJoin c (Join session stream credential) w =
     w\<lparr>w_pending := w_pending w @
        [(c, \<lparr>ar_sessionId = session, ar_streamId = stream, ar_credential = credential\<rparr>)]\<rparr>"
| "handlePreJoin c _ w = sendError c Not_Joined ''join is required before any other message'' w"

text \<open>\<open>handlePreJoin\<close> from the decision on.\<close>

fun preJoinDecided :: "string \<Rightarrow> admission_request \<Rightarrow> admission_decision \<Rightarrow> relay_world \<Rightarrow> relay_world" where
  "preJoinDecided c req (Denied reason) w =
     close_socket c CLOSE_ADMISSION_DENIED ''admission denied''
       (sendError c Admission_Denied ''admission denied''
         (audit (Audit_Denied (ar_sessionId req) (ar_streamId req)) w))"
| "preJoinDecided c req (Admitted participant role) w =
     (case map_of (w_conns w) c of
        None \<Rightarrow> w
      | Some cn \<Rightarrow>
          (let m = member_new c participant role (ar_streamId req);
               (ref, rr) = registry_join (ar_sessionId req) (ar_streamId req) m (w_rooms w);
               cn' = cn\<lparr>c_sessionId := ar_sessionId req, c_streamId := ar_streamId req,
                        c_member := Some m, c_room := Some ref\<rparr>
           in send c (Join_Ack RELAY_PROTOCOL_VERSION (ar_sessionId req) (ar_streamId req) participant role)
                (audit (Audit_Joined (ar_sessionId req) (ar_streamId req) participant role)
                  ((set_conn c cn' w)\<lparr>w_rooms := rr\<rparr>))))"

definition leaveRoom :: "string \<Rightarrow> relay_world \<Rightarrow> relay_world" where
  "leaveRoom c w =
     (case map_of (w_conns w) c of
        None \<Rightarrow> w
      | Some cn \<Rightarrow>
          (if c_left cn \<or> c_member cn = None then w
           else audit (Audit_Left (c_sessionId cn) (c_streamId cn) c)
             ((set_conn c (cn\<lparr>c_left := True\<rparr>) w)
                \<lparr>w_rooms := registry_leave (c_sessionId cn) (c_streamId cn) c (w_rooms w)\<rparr>)))"

text \<open>Routing through the room object of the connection, with the effects on the other sockets.\<close>

definition route_from ::
  "relay_limits \<Rightarrow> readings \<Rightarrow> string \<Rightarrow> relay_conn \<Rightarrow> frame_message \<Rightarrow> relay_world \<Rightarrow> relay_world option" where
  "route_from limits ba c cn f w =
     (case (c_room cn, c_member cn) of
        (Some ref, Some m) \<Rightarrow>
          (let room = rr_store (w_rooms w) ! ref in
           case room_route limits ba m f room of
             None \<Rightarrow> None
           | Some (oc, room', ds) \<Rightarrow>
               (let w' = w\<lparr>w_rooms := (w_rooms w)\<lparr>rr_store := (rr_store (w_rooms w))[ref := room']\<rparr>,
                           w_wire := w_wire w @ map (\<lambda>(k, out). (k, Sent out)) ds\<rparr>
                in case oc of
                     Delivered n \<Rightarrow> Some w'
                   | Not_Delivered \<Rightarrow>
                       Some (sendError c Forbidden_Control ''only the driver may send control frames''
                         (audit (Audit_Control_Rejected (r_sessionId room) (r_streamId room)
                           (m_participantId m) (m_role m)) w'))))
      | _ \<Rightarrow> Some w)"

fun handlePostJoin ::
  "relay_limits \<Rightarrow> readings \<Rightarrow> rat \<Rightarrow> string \<Rightarrow> relay_conn \<Rightarrow> relay_inbound \<Rightarrow> relay_world \<Rightarrow>
   relay_world option" where
  "handlePostJoin limits ba now c cn (Join _ _ _) w =
     Some (sendError c Already_Joined ''this connection already joined a room'' w)"
| "handlePostJoin limits ba now c cn Leave w =
     Some (close_socket c CLOSE_NORMAL ''left'' (leaveRoom c (send c Leave_Ack w)))"
| "handlePostJoin limits ba now c cn (Frame f) w =
     (let bytes = base64DecodedByteLength (fm_payload f) in
      if bytes > maxFrameBytes limits
      then Some (sendError c Frame_Too_Large
             (''frame exceeds '' @ show_int (maxFrameBytes limits) @ '' bytes'') w)
      else (let (ok, lim) = limiter_allow now (of_int bytes) (c_limiter cn);
                w1 = set_conn c (cn\<lparr>c_limiter := lim\<rparr>) w
            in if \<not> ok then Some (sendError c Rate_Limited ''frame rate/byte budget exceeded'' w1)
               else route_from limits ba c (cn\<lparr>c_limiter := lim\<rparr>) f w1))"

definition onMessage ::
  "(string \<Rightarrow> json option) \<Rightarrow> relay_limits \<Rightarrow> readings \<Rightarrow> rat \<Rightarrow> string \<Rightarrow> string \<Rightarrow> relay_world \<Rightarrow>
   relay_world option" where
  "onMessage json_parse limits ba now c raw w =
     (case map_of (w_conns w) c of
        None \<Rightarrow> Some w
      | Some cn \<Rightarrow>
          (case parseRelayInbound json_parse raw of
             None \<Rightarrow> Some (sendError c Malformed ''message failed schema validation'' w)
           | Some msg \<Rightarrow>
               (if c_member cn = None then Some (handlePreJoin c msg w)
                else handlePostJoin limits ba now c cn msg w)))"

section \<open>The event loop\<close>

datatype relay_event =
    Connected string rat
  | Message string string rat readings
  | Admission_Settled nat admission_decision
  | Socket_Closed string

fun relay_step ::
  "(string \<Rightarrow> json option) \<Rightarrow> relay_limits \<Rightarrow> relay_world \<Rightarrow> relay_event \<Rightarrow> relay_world option" where
  "relay_step json_parse limits w (Connected c now) =
     Some (if map_of (w_conns w) c = None then set_conn c (conn_new now limits) w else w)"
| "relay_step json_parse limits w (Message c raw now ba) = onMessage json_parse limits ba now c raw w"
| "relay_step json_parse limits w (Admission_Settled i decision) =
     Some (if i < length (w_pending w)
           then preJoinDecided (fst (w_pending w ! i)) (snd (w_pending w ! i)) decision
                  (w\<lparr>w_pending := take i (w_pending w) @ drop (Suc i) (w_pending w)\<rparr>)
           else w)"
| "relay_step json_parse limits w (Socket_Closed c) = Some (leaveRoom c w)"

text \<open>A step that does not return leaves the process in the state it was in.\<close>

definition relay_next ::
  "(string \<Rightarrow> json option) \<Rightarrow> relay_limits \<Rightarrow> relay_world \<Rightarrow> relay_event \<Rightarrow> relay_world" where
  "relay_next json_parse limits w e =
     (case relay_step json_parse limits w e of Some w' \<Rightarrow> w' | None \<Rightarrow> w)"

section \<open>The invariant\<close>

text \<open>A stamp names a participant that was admitted with that role; control comes from a driver.\<close>

fun stamp_ok :: "audit_event list \<Rightarrow> relay_outbound \<Rightarrow> bool" where
  "stamp_ok aud (Frame_Out _ _ dir _ s) \<longleftrightarrow>
     (dir = Control \<longrightarrow> ss_role s = Driver) \<and>
     (\<exists>session stream. Audit_Joined session stream (ss_participantId s) (ss_role s) \<in> set aud)"
| "stamp_ok aud _ \<longleftrightarrow> False"

definition wire_ok :: "audit_event list \<Rightarrow> string \<times> socket_event \<Rightarrow> bool" where
  "wire_ok aud x \<longleftrightarrow>
     (case snd x of Sent out \<Rightarrow> (case out of Frame_Out _ _ _ _ _ \<Rightarrow> stamp_ok aud out | _ \<Rightarrow> True) | _ \<Rightarrow> True)"

definition conn_ok :: "audit_event list \<Rightarrow> relay_rooms \<Rightarrow> string \<Rightarrow> relay_conn \<Rightarrow> bool" where
  "conn_ok aud rr c cn \<longleftrightarrow>
     (case c_member cn of
        None \<Rightarrow> c_room cn = None
      | Some m \<Rightarrow> m_connectionId m = c \<and>
          (\<exists>session stream. Audit_Joined session stream (m_participantId m) (m_role m) \<in> set aud) \<and>
          (\<exists>ref. c_room cn = Some ref \<and> ref < length (rr_store rr)))"

definition relay_inv :: "relay_world \<Rightarrow> bool" where
  "relay_inv w \<longleftrightarrow>
     rooms_ok (stamp_ok (w_audit w)) (w_rooms w) \<and>
     (\<forall>c cn. map_of (w_conns w) c = Some cn \<longrightarrow> conn_ok (w_audit w) (w_rooms w) c cn) \<and>
     (\<forall>x \<in> set (w_wire w). wire_ok (w_audit w) x)"

lemma stamp_ok_mono: "stamp_ok aud out \<Longrightarrow> stamp_ok (aud @ aud2) out"
  by (cases out) auto

lemma wire_ok_mono: "wire_ok aud x \<Longrightarrow> wire_ok (aud @ aud2) x"
  using stamp_ok_mono by (auto simp: wire_ok_def split: socket_event.splits relay_outbound.splits)

lemma conn_ok_mono:
  "conn_ok aud rr c cn \<Longrightarrow> length (rr_store rr) \<le> length (rr_store rr') \<Longrightarrow> conn_ok (aud @ aud2) rr' c cn"
  by (fastforce simp: conn_ok_def split: option.splits)

lemma conn_ok_fields [simp]:
  "conn_ok aud rr c (cn\<lparr>c_limiter := fl\<rparr>) = conn_ok aud rr c cn"
  "conn_ok aud rr c (cn\<lparr>c_left := l\<rparr>) = conn_ok aud rr c cn"
  by (simp_all add: conn_ok_def split: option.splits)

lemma conn_ok_rooms:
  "conn_ok aud rr c cn \<Longrightarrow> length (rr_store rr) \<le> length (rr_store rr') \<Longrightarrow> conn_ok aud rr' c cn"
  using conn_ok_mono [of aud rr c cn rr' "[]"] by simp

lemma rooms_ok_mono: "rooms_ok P rr \<Longrightarrow> (\<And>x. P x \<Longrightarrow> Q x) \<Longrightarrow> rooms_ok Q rr"
  by (fastforce simp: rooms_ok_def room_ok_def member_ok_def frame_ok_def)

lemma relay_inv_init: "relay_inv relay_init"
  by (simp add: relay_inv_def relay_init_def)

text \<open>The effects that touch only the sockets and the log.\<close>

lemma relay_inv_send:
  "relay_inv w \<Longrightarrow> wire_ok (w_audit w) (c, Sent msg) \<Longrightarrow> relay_inv (send c msg w)"
  by (auto simp: relay_inv_def send_def)

lemma relay_inv_sendError: "relay_inv w \<Longrightarrow> relay_inv (sendError c code msg w)"
  by (simp add: sendError_def relay_inv_send wire_ok_def)

lemma relay_inv_close: "relay_inv w \<Longrightarrow> relay_inv (close_socket c code reason w)"
  by (auto simp: relay_inv_def close_socket_def wire_ok_def)

lemma relay_inv_audit: "relay_inv w \<Longrightarrow> relay_inv (audit a w)"
  unfolding relay_inv_def audit_def
  by (auto intro: wire_ok_mono conn_ok_mono rooms_ok_mono [OF _ stamp_ok_mono])

lemma relay_inv_pending: "relay_inv w \<Longrightarrow> relay_inv (w\<lparr>w_pending := p\<rparr>)"
  by (simp add: relay_inv_def)

lemma relay_inv_set_conn:
  "relay_inv w \<Longrightarrow> conn_ok (w_audit w) (w_rooms w) c cn \<Longrightarrow> relay_inv (set_conn c cn w)"
  by (simp add: relay_inv_def set_conn_def)

lemmas relay_inv_intros =
  relay_inv_send relay_inv_sendError relay_inv_close relay_inv_audit relay_inv_pending relay_inv_set_conn

lemma set_conn_simps [simp]:
  "w_rooms (set_conn c cn w) = w_rooms w" "w_audit (set_conn c cn w) = w_audit w"
  "w_wire (set_conn c cn w) = w_wire w" "w_pending (set_conn c cn w) = w_pending w"
  "map_of (w_conns (set_conn c cn w)) k = (if k = c then Some cn else map_of (w_conns w) k)"
  by (simp_all add: set_conn_def)

lemma registry_leave_length [simp]: "length (rr_store (registry_leave s t c rr)) = length (rr_store rr)"
  by (auto simp: registry_leave_def Let_def split: option.splits)

lemma registry_join_ref:
  assumes "registry_ok rr" "registry_join s t m rr = (ref, rr')"
  shows "ref < length (rr_store rr')" "length (rr_store rr) \<le> length (rr_store rr')"
  using assms by (auto simp: registry_join_def registry_ok_def Let_def split: option.splits)

lemma relay_inv_leaveRoom: "relay_inv w \<Longrightarrow> relay_inv (leaveRoom c w)"
proof (cases "map_of (w_conns w) c")
  case (Some cn)
  assume inv: "relay_inv w"
  show ?thesis
  proof (cases "c_left cn \<or> c_member cn = None")
    case False
    let ?w = "(set_conn c (cn\<lparr>c_left := True\<rparr>) w)
      \<lparr>w_rooms := registry_leave (c_sessionId cn) (c_streamId cn) c (w_rooms w)\<rparr>"
    have "conn_ok (w_audit w) (w_rooms w) c cn" using inv Some by (simp add: relay_inv_def)
    then have "relay_inv ?w"
      using inv by (auto simp: relay_inv_def registry_leave_ok intro: conn_ok_rooms [of _ "w_rooms w"])
    from relay_inv_audit [OF this] show ?thesis
      using Some False by (auto simp: leaveRoom_def)
  qed (use inv Some in \<open>simp add: leaveRoom_def\<close>)
qed (simp add: leaveRoom_def)

lemma relay_inv_preJoinDecided: "relay_inv w \<Longrightarrow> relay_inv (preJoinDecided c req decision w)"
proof (cases decision)
  case (Denied reason)
  assume "relay_inv w"
  with Denied show ?thesis by (simp add: relay_inv_intros)
next
  case (Admitted participant role)
  assume inv: "relay_inv w"
  show ?thesis
  proof (cases "map_of (w_conns w) c")
    case None
    with Admitted inv show ?thesis by simp
  next
    case (Some cn)
    let ?m = "member_new c participant role (ar_streamId req)"
    obtain ref rr where j: "registry_join (ar_sessionId req) (ar_streamId req) ?m (w_rooms w) = (ref, rr)"
      by fastforce
    let ?aud = "w_audit w @ [Audit_Joined (ar_sessionId req) (ar_streamId req) participant role]"
    let ?cn = "cn\<lparr>c_sessionId := ar_sessionId req, c_streamId := ar_streamId req,
      c_member := Some ?m, c_room := Some ref\<rparr>"
    let ?w = "audit (Audit_Joined (ar_sessionId req) (ar_streamId req) participant role)
      ((set_conn c ?cn w)\<lparr>w_rooms := rr\<rparr>)"
    have rooms: "rooms_ok (stamp_ok (w_audit w)) (w_rooms w)" using inv by (simp add: relay_inv_def)
    then have "rooms_ok (stamp_ok (w_audit w)) rr"
      using registry_join_ok [of "stamp_ok (w_audit w)" "w_rooms w" ?m "ar_sessionId req" "ar_streamId req"] j
      by simp
    then have rr: "rooms_ok (stamp_ok ?aud) rr" by (rule rooms_ok_mono) (rule stamp_ok_mono)
    have ref: "ref < length (rr_store rr)" "length (rr_store (w_rooms w)) \<le> length (rr_store rr)"
      using registry_join_ref [OF _ j] rooms by (auto simp: rooms_ok_def)
    have "conn_ok ?aud rr c ?cn" using ref(1) by (auto simp: conn_ok_def)
    moreover have "conn_ok ?aud rr k cn'" if "map_of (w_conns w) k = Some cn'" for k cn'
      using inv that ref(2) by (auto simp: relay_inv_def intro: conn_ok_mono [of _ "w_rooms w"])
    moreover have "wire_ok ?aud x" if "x \<in> set (w_wire w)" for x
      using inv that by (auto simp: relay_inv_def intro: wire_ok_mono)
    ultimately have "relay_inv ?w" using rr by (simp add: relay_inv_def audit_def)
    then show ?thesis
      using Admitted Some j by (simp add: relay_inv_send wire_ok_def)
  qed
qed

lemma route_from_inv:
  assumes lim: "limits_ok limits" and inv: "relay_inv w" and cn: "conn_ok (w_audit w) (w_rooms w) c cn"
  shows "\<exists>w'. route_from limits ba c cn f w = Some w' \<and> relay_inv w'"
proof (cases "c_member cn")
  case None
  with cn inv show ?thesis by (simp add: route_from_def conn_ok_def)
next
  case (Some m)
  with cn obtain ref where ref: "c_room cn = Some ref" "ref < length (rr_store (w_rooms w))"
    and joined: "\<exists>s t. Audit_Joined s t (m_participantId m) (m_role m) \<in> set (w_audit w)"
    by (auto simp: conn_ok_def)
  let ?P = "stamp_ok (w_audit w)" and ?room = "rr_store (w_rooms w) ! ref"
  have rooms: "rooms_ok ?P (w_rooms w)" using inv by (simp add: relay_inv_def)
  then have room: "room_ok ?P ?room" using ref(2) by (simp add: rooms_ok_def)
  have msg: "?P (stamped m f)" if "fm_dir f = Control \<longrightarrow> m_role m = Driver"
    using joined that by (simp add: stamped_def)
  obtain oc room' ds where r: "room_route limits ba m f ?room = Some (oc, room', ds)"
    and ok: "room_ok ?P room'" "map fst (r_members room') = map fst (r_members ?room)"
      "r_sessionId room' = r_sessionId ?room" "r_streamId room' = r_streamId ?room"
    and ds: "\<forall>(k, out) \<in> set ds. k \<noteq> m_connectionId m \<and> k \<in> fst ` set (r_members ?room) \<and> delivery_ok ?P out"
    using room_route_ok [OF lim room msg] by blast
  have nonempty: "r_members room' = [] \<longleftrightarrow> r_members ?room = []" using ok(2) by (metis map_is_Nil_conv)
  let ?rr = "(w_rooms w)\<lparr>rr_store := (rr_store (w_rooms w))[ref := room']\<rparr>"
  let ?w = "w\<lparr>w_rooms := ?rr, w_wire := w_wire w @ map (\<lambda>(k, out). (k, Sent out)) ds\<rparr>"
  have "registered_ok k ?room \<Longrightarrow> registered_ok k room'" for k
    using ok(3,4) nonempty by (simp add: registered_ok_def)
  then have "registry_ok ?rr"
    using rooms ref(2) by (auto simp: rooms_ok_def registry_ok_def nth_list_update)
  moreover have "\<forall>r \<in> set (rr_store ?rr). room_ok ?P r"
    using rooms ok(1) store_update_ok [of "rr_store (w_rooms w)" ?P room' ref] by (simp add: rooms_ok_def)
  moreover have "\<forall>x \<in> set (map (\<lambda>(k, out). (k, Sent out)) ds). wire_ok (w_audit w) x"
    using ds by (fastforce simp: wire_ok_def delivery_ok_def split: relay_outbound.splits)
  moreover have "conn_ok (w_audit w) ?rr k cn'" if "map_of (w_conns w) k = Some cn'" for k cn'
    using inv that by (auto simp: relay_inv_def intro: conn_ok_rooms [of _ "w_rooms w"])
  ultimately have "relay_inv ?w"
    using inv by (auto simp: relay_inv_def rooms_ok_def)
  then show ?thesis
    using r ref(1) Some by (cases oc) (auto simp: route_from_def Let_def intro: relay_inv_intros)
qed

lemma relay_step_inv:
  assumes lim: "limits_ok limits" and inv: "relay_inv w"
  shows "\<exists>w'. relay_step json_parse limits w e = Some w' \<and> relay_inv w'"
proof (cases e)
  case (Connected c now)
  have "conn_ok (w_audit w) (w_rooms w) c (conn_new now limits)" by (simp add: conn_ok_def conn_new_def)
  with Connected inv show ?thesis by (simp add: relay_inv_set_conn)
next
  case (Admission_Settled i decision)
  with inv show ?thesis by (simp add: relay_inv_preJoinDecided relay_inv_pending)
next
  case (Socket_Closed c)
  with inv show ?thesis by (simp add: relay_inv_leaveRoom)
next
  case (Message c raw now ba)
  show ?thesis
  proof (cases "map_of (w_conns w) c")
    case None
    with Message inv show ?thesis by (simp add: onMessage_def)
  next
    case (Some cn)
    then have cn: "conn_ok (w_audit w) (w_rooms w) c cn" using inv by (simp add: relay_inv_def)
    show ?thesis
    proof (cases "parseRelayInbound json_parse raw")
      case None
      with Message Some inv show ?thesis by (simp add: onMessage_def relay_inv_sendError)
    next
      case parsed: (Some msg)
      have pre: "relay_inv (handlePreJoin c msg w)"
        using inv by (cases msg) (simp_all add: relay_inv_intros)
      have "\<exists>w'. handlePostJoin limits ba now c cn msg w = Some w' \<and> relay_inv w'"
      proof (cases msg)
        case (Join s t k)
        with inv show ?thesis by (simp add: relay_inv_sendError)
      next
        case Leave
        with inv show ?thesis by (simp add: relay_inv_intros relay_inv_leaveRoom wire_ok_def)
      next
        case (Frame f)
        obtain ok lim' where a: "limiter_allow now (of_int (base64DecodedByteLength (fm_payload f)))
          (c_limiter cn) = (ok, lim')" by fastforce
        let ?cn = "cn\<lparr>c_limiter := lim'\<rparr>"
        have cn': "conn_ok (w_audit w) (w_rooms w) c ?cn" using cn by simp
        then have "relay_inv (set_conn c ?cn w)" using inv by (simp add: relay_inv_set_conn)
        with Frame a inv cn' lim show ?thesis
          by (auto simp: Let_def relay_inv_sendError intro!: route_from_inv)
      qed
      with Message Some parsed pre show ?thesis by (simp add: onMessage_def)
    qed
  qed
qed

text \<open>The relay is an event machine: the invariant holds after any sequence of events.\<close>

interpretation relay: event_machine "relay_next json_parse limits"
    "\<lambda>w. limits_ok limits \<longrightarrow> relay_inv w" for json_parse limits
proof unfold_locales
  fix w e
  assume "limits_ok limits \<longrightarrow> relay_inv w"
  then show "limits_ok limits \<longrightarrow> relay_inv (relay_next json_parse limits w e)"
    using relay_step_inv [of limits w json_parse e] by (auto simp: relay_next_def)
qed

definition relay_run ::
  "(string \<Rightarrow> json option) \<Rightarrow> relay_limits \<Rightarrow> relay_event list \<Rightarrow> relay_world" where
  "relay_run json_parse limits es = foldl (relay_next json_parse limits) relay_init es"

lemma relay_run_inv: "limits_ok limits \<Longrightarrow> relay_inv (relay_run json_parse limits es)"
  using relay.run_inv [of limits relay_init json_parse es] relay_inv_init by (simp add: relay_run_def)

section \<open>Properties\<close>

text \<open>
  Property C8. The relay stays well formed and keeps serving. For non-negative queue bounds and any
  sequence of connects, messages, admission decisions and closes, in any interleaving, the next
  event is handled to completion, every registered room has at least one member and is registered
  under the key of its own ids, and no two keys share a room.
\<close>

theorem relay_keeps_serving:
  fixes json_parse es
  assumes "limits_ok limits"
  defines "w \<equiv> relay_run json_parse limits es"
  shows "relay_step json_parse limits w e \<noteq> None \<and>
    (\<forall>k ref. map_of (rr_rooms (w_rooms w)) k = Some ref \<longrightarrow>
      ref < length (rr_store (w_rooms w)) \<and> r_members (rr_store (w_rooms w) ! ref) \<noteq> [] \<and>
      k = room_key (r_sessionId (rr_store (w_rooms w) ! ref)) (r_streamId (rr_store (w_rooms w) ! ref))) \<and>
    (\<forall>k k' ref. map_of (rr_rooms (w_rooms w)) k = Some ref \<and> map_of (rr_rooms (w_rooms w)) k' = Some ref \<longrightarrow> k = k')"
proof -
  have inv: "relay_inv w" using relay_run_inv [OF assms(1)] by (simp add: w_def)
  then have reg: "registry_ok (w_rooms w)" by (simp add: relay_inv_def rooms_ok_def)
  have "relay_step json_parse limits w e \<noteq> None"
    using relay_step_inv [OF assms(1) inv, of json_parse e] by auto
  with reg registry_ok_inj [OF reg] show ?thesis
    unfolding registry_ok_def registered_ok_def by blast
qed

theorem relay_keeps_serving_witness:
  "relay_step (\<lambda>_. None) DEFAULT_RELAY_LIMITS
     (relay_run (\<lambda>_. None) DEFAULT_RELAY_LIMITS [Connected ''a'' 0, Message ''a'' ''x'' 1 (\<lambda>_ _. 0)])
     (Socket_Closed ''a'') \<noteq> None"
  using relay_keeps_serving [of DEFAULT_RELAY_LIMITS "\<lambda>_. None"
      "[Connected ''a'' 0, Message ''a'' ''x'' 1 (\<lambda>_ _. 0)]" "Socket_Closed ''a''"]
  by (simp add: limits_ok_def DEFAULT_RELAY_LIMITS_def)


definition sample_parse :: "string \<Rightarrow> json option" where
  "sample_parse raw =
     Some (if raw = ''join''
       then JObj [(''type'', JStr ''join''), (''protocolVersion'', JStr ''1.0''), (''sessionId'', JStr ''s''),
         (''streamId'', JStr ''t''), (''credential'', JStr ''k'')]
       else JObj [(''type'', JStr ''frame''), (''streamId'', JStr ''t''), (''seq'', JNum (Fin 0)),
         (''dir'', JStr ''control''), (''payload'', JStr [])])"

definition sample_events :: "relay_event list" where
  "sample_events =
     [Connected ''a'' 0, Connected ''b'' 0, Message ''a'' ''join'' 0 (\<lambda>_ _. 0), Message ''b'' ''join'' 0 (\<lambda>_ _. 0),
      Admission_Settled 0 (Admitted ''pa'' Driver), Admission_Settled 0 (Admitted ''pb'' Viewer),
      Message ''a'' ''frame'' 1 (\<lambda>_ _. 0)]"

lemma sample_parse_join: "parseRelayInbound sample_parse ''join'' = Some (Join ''s'' ''t'' ''k'')"
  by (simp add: sample_parse_def parseRelayInbound_def RelayInboundMessageSchema_def RelayJoinSchema_def
      z_literal_def z_string_def RELAY_PROTOCOL_VERSION_def)

lemma sample_parse_frame: "parseRelayInbound sample_parse ''frame'' =
    Some (Frame \<lparr>fm_streamId = ''t'', fm_seq = 0, fm_dir = Control, fm_payload = []\<rparr>)"
  by (simp add: sample_parse_def parseRelayInbound_def RelayInboundMessageSchema_def RelayFrameInboundSchema_def
      z_literal_def z_string_def z_nonneg_int_def dirSchema_def payloadSchema_def payload_pattern_def
      rat_is_int_def MAX_SAFE_INTEGER_def)

lemma sample_idle: "idle DEFAULT_RELAY_LIMITS (\<lambda>_ _. 0)" "0 < bound_of Control DEFAULT_RELAY_LIMITS"
  by (simp_all add: idle_def bound_of_def DEFAULT_RELAY_LIMITS_def)

lemma maxFrameBytes_default: "maxFrameBytes DEFAULT_RELAY_LIMITS = 262144"
  by (simp add: DEFAULT_RELAY_LIMITS_def)

lemma sample_limiter: "fst (limiter_allow 1 0 (limiter_new 0 DEFAULT_RELAY_LIMITS))"
  by (simp add: limiter_allow_def tb_available_def tb_refill_def limiter_new_def tb_new_def
      DEFAULT_RELAY_LIMITS_def Let_def)

lemmas sample_eval =
  relay_run_def sample_events_def relay_next_def onMessage_def sample_parse_join sample_parse_frame
  relay_init_def conn_new_def set_conn_def send_def audit_def registry_join_def rooms_new_def room_add_def
  room_new_def route_from_def room_route_def enqueueForward_idle sample_limiter stamped_def Let_def
  base64DecodedByteLength_def maxFrameBytes_default split_beta


text \<open>
  A connection that has not been admitted cannot act on anyone. Whatever it sends, the
  rooms, the other connections and the audit log are unchanged, and the only socket written to is
  its own.
\<close>

theorem unadmitted_connection_is_isolated:
  assumes "map_of (w_conns w) c = Some cn" "c_member cn = None"
  shows "\<exists>w' out. relay_step json_parse limits w (Message c raw now ba) = Some w' \<and>
    w_rooms w' = w_rooms w \<and> w_conns w' = w_conns w \<and> w_audit w' = w_audit w \<and>
    w_wire w' = w_wire w @ map (Pair c) out"
proof (cases "parseRelayInbound json_parse raw")
  case None
  with assms show ?thesis
    by (auto simp: onMessage_def sendError_def send_def intro: exI [of _ "[_]"])
next
  case (Some msg)
  show ?thesis
  proof (cases msg)
    case (Join s t k)
    with Some assms show ?thesis by (auto simp: onMessage_def intro: exI [of _ "[]"])
  qed (use Some assms in \<open>auto simp: onMessage_def sendError_def send_def intro: exI [of _ "[_]"]\<close>)
qed

theorem unadmitted_connection_is_isolated_witness:
  "\<exists>w' out. relay_step (\<lambda>_. None) DEFAULT_RELAY_LIMITS
      (relay_run (\<lambda>_. None) DEFAULT_RELAY_LIMITS [Connected ''a'' 0]) (Message ''a'' ''junk'' 1 (\<lambda>_ _. 0)) = Some w' \<and>
    w_wire w' = map (Pair ''a'') out"
  using unadmitted_connection_is_isolated [of "relay_run (\<lambda>_. None) DEFAULT_RELAY_LIMITS [Connected ''a'' 0]" "''a''"
      "conn_new 0 DEFAULT_RELAY_LIMITS" "\<lambda>_. None" DEFAULT_RELAY_LIMITS "''junk''" 1 "\<lambda>_ _. 0"]
  by (auto simp: relay_run_def relay_next_def relay_init_def conn_new_def set_conn_def)

text \<open>
  Property C39. A socket that closes while its admission is pending leaves a member behind. The close
  handler does nothing then; when the admission is granted the connection still joins the room, and
  the room stays registered, although no close event is left to remove it.
\<close>

theorem close_during_admission_leaks_member:
  assumes "map_of (w_conns w) c = Some cn" "c_member cn = None" "w_pending w = [(c, req)]"
    and "registry_ok (w_rooms w)"
  shows "\<exists>w'. relay_step json_parse limits w (Socket_Closed c) = Some w \<and>
    relay_step json_parse limits w (Admission_Settled 0 (Admitted p role)) = Some w' \<and>
    hasRoom (w_rooms w') (ar_sessionId req) (ar_streamId req) \<and>
    (\<exists>cn' ref. map_of (w_conns w') c = Some cn' \<and> c_room cn' = Some ref \<and>
      map_of (r_members (rr_store (w_rooms w') ! ref)) c = Some (member_new c p role (ar_streamId req)))"
proof -
  let ?m = "member_new c p role (ar_streamId req)"
  obtain ref rr where j: "registry_join (ar_sessionId req) (ar_streamId req) ?m (w_rooms w) = (ref, rr)"
    by fastforce
  have "map_of (r_members (rr_store rr ! ref)) c = Some ?m \<and> hasRoom rr (ar_sessionId req) (ar_streamId req)"
    using j assms(4)
    by (auto simp: registry_join_def hasRoom_def room_add_def registry_ok_def Let_def nth_append
        split: option.splits)
  with assms j show ?thesis
    by (auto simp: leaveRoom_def send_def audit_def set_conn_def)
qed

theorem close_during_admission_leaks_member_witness:
  "\<exists>w'. relay_step sample_parse DEFAULT_RELAY_LIMITS
      (relay_run sample_parse DEFAULT_RELAY_LIMITS [Connected ''a'' 0, Message ''a'' ''join'' 0 (\<lambda>_ _. 0)])
      (Admission_Settled 0 (Admitted ''p'' Viewer)) = Some w' \<and> hasRoom (w_rooms w') ''s'' ''t''"
proof -
  let ?w = "relay_run sample_parse DEFAULT_RELAY_LIMITS [Connected ''a'' 0, Message ''a'' ''join'' 0 (\<lambda>_ _. 0)]"
  have "map_of (w_conns ?w) ''a'' = Some (conn_new 0 DEFAULT_RELAY_LIMITS)"
    "w_pending ?w = [(''a'', \<lparr>ar_sessionId = ''s'', ar_streamId = ''t'', ar_credential = ''k''\<rparr>)]"
    "registry_ok (w_rooms ?w)"
    by (simp_all add: relay_run_def relay_next_def relay_init_def set_conn_def onMessage_def sample_parse_join
        conn_new_def rooms_new_def registry_ok_def)
  from close_during_admission_leaks_member [OF this(1) _ this(2,3), of sample_parse DEFAULT_RELAY_LIMITS "''p''" Viewer]
  show ?thesis by (auto simp: conn_new_def)
qed

text \<open>
  Leaving does not stop a connection from sending. The member and the room stay set
  after \<open>leave\<close>, so a frame that arrives afterwards is handled exactly as before it: the same
  deliveries go to the members of the room.
\<close>

theorem frames_after_leave_are_still_routed:
  assumes "map_of (w_conns w) c = Some cn" "c_member cn \<noteq> None"
    and "parseRelayInbound json_parse raw = Some (Frame f)"
  shows "map_option w_wire (relay_step json_parse limits (set_conn c (cn\<lparr>c_left := True\<rparr>) w) (Message c raw now ba)) =
    map_option w_wire (relay_step json_parse limits w (Message c raw now ba))"
proof -
  have r: "map_option w_wire (route_from limits ba c (cn\<lparr>c_left := True, c_limiter := fl\<rparr>) f
      (set_conn c (cn\<lparr>c_left := True, c_limiter := fl\<rparr>) (set_conn c (cn\<lparr>c_left := True\<rparr>) w))) =
    map_option w_wire (route_from limits ba c (cn\<lparr>c_limiter := fl\<rparr>) f (set_conn c (cn\<lparr>c_limiter := fl\<rparr>) w))" for fl
    by (auto simp: route_from_def Let_def sendError_def send_def audit_def
        split: option.splits prod.splits routing_outcome.splits)
  obtain ok fl where a: "limiter_allow now (of_int (base64DecodedByteLength (fm_payload f))) (c_limiter cn) = (ok, fl)"
    by fastforce
  show ?thesis
    using assms a r by (auto simp: onMessage_def Let_def sendError_def send_def)
qed

theorem frames_after_leave_are_still_routed_witness:
  "\<exists>cn wire. c_left cn \<and>
     map_option w_wire (relay_step sample_parse DEFAULT_RELAY_LIMITS
       (set_conn ''a'' cn (relay_run sample_parse DEFAULT_RELAY_LIMITS (butlast sample_events)))
       (Message ''a'' ''frame'' 1 (\<lambda>_ _. 0))) = Some wire \<and>
     (''b'', Sent (Frame_Out ''t'' 0 Control [] \<lparr>ss_participantId = ''pa'', ss_role = Driver\<rparr>)) \<in> set wire"
proof -
  let ?w = "relay_run sample_parse DEFAULT_RELAY_LIMITS (butlast sample_events)"
  let ?cn = "\<lparr>c_limiter = limiter_new 0 DEFAULT_RELAY_LIMITS, c_member = Some (member_new ''a'' ''pa'' Driver ''t''),
    c_room = Some 0, c_sessionId = ''s'', c_streamId = ''t'', c_left = False\<rparr>"
  have l: "limits_ok DEFAULT_RELAY_LIMITS" by (simp add: limits_ok_def DEFAULT_RELAY_LIMITS_def)
  have cn: "map_of (w_conns ?w) ''a'' = Some ?cn" by (simp add: sample_eval)
  have sent: "\<exists>wire. map_option w_wire (relay_step sample_parse DEFAULT_RELAY_LIMITS ?w (Message ''a'' ''frame'' 1 (\<lambda>_ _. 0)))
      = Some wire \<and>
    (''b'', Sent (Frame_Out ''t'' 0 Control [] \<lparr>ss_participantId = ''pa'', ss_role = Driver\<rparr>)) \<in> set wire"
    using sample_idle l by (simp add: sample_eval)
  have "map_option w_wire (relay_step sample_parse DEFAULT_RELAY_LIMITS (set_conn ''a'' (?cn\<lparr>c_left := True\<rparr>) ?w)
      (Message ''a'' ''frame'' 1 (\<lambda>_ _. 0))) =
    map_option w_wire (relay_step sample_parse DEFAULT_RELAY_LIMITS ?w (Message ''a'' ''frame'' 1 (\<lambda>_ _. 0)))"
    by (rule frames_after_leave_are_still_routed [OF cn _ sample_parse_frame]) simp
  with sent show ?thesis by (intro exI [of _ "?cn\<lparr>c_left := True\<rparr>"]) simp
qed

end
