(* ===== verification/Desktop_Protocol.thy ===== *)
theory Desktop_Protocol
  imports Base64
begin

text \<open>
  The pure core of the desktop participant client (\<open>desktop/src/protocol.ts\<close>, up to the chat
  reducer): the parsers of chat and terminal events, the builders of outbound frames, the scroll and
  key classifiers of the terminal, and the readers of unverified JWT claims.

  \<open>JSON.parse\<close> is an argument (\<open>None\<close> when it throws). A builder returns the value that it passes
  to \<open>JSON.stringify\<close>. A field that the code copies without looking at its type (\<open>e.text ?? ""\<close>)
  stays a JSON value: \<open>server_event\<close> has a type parameter for those fields, which is \<open>json\<close> off the
  wire and \<open>string\<close> where the declared types hold.
\<close>

section \<open>Chat events\<close>

datatype 'v server_event =
    SE_Session_Id 'v
  | SE_Text 'v
  | SE_Thinking 'v
  | SE_Done 'v
  | SE_Error 'v
  | SE_Aborted
  | SE_Peer_Chat 'v 'v \<comment> \<open>from, text\<close>
  | SE_Host_Status bool
  | SE_Unavailable 'v
  | SE_Tool_Call 'v "json option" \<comment> \<open>name, input\<close>
  | SE_Tool_Result "json option"
  | SE_Permission_Request 'v 'v "json option" \<comment> \<open>request id, tool name, input\<close>

text \<open>\<open>e.k ?? ""\<close>.\<close>

definition field_or_blank :: "json \<Rightarrow> string \<Rightarrow> json" where
  "field_or_blank e k = nullish_or (jprop e k) (JStr [])"

definition parseServerEvent :: "(string \<Rightarrow> json option) \<Rightarrow> string \<Rightarrow> json server_event option" where
  "parseServerEvent json_parse raw =
     (case json_parse raw of
        None \<Rightarrow> None
      | Some e \<Rightarrow>
          if \<not> truthy (Some e) \<or> \<not> typeof_object e then None
          else (case as_string (jprop e ''type'') of
                  None \<Rightarrow> None
                | Some t \<Rightarrow>
                    if t = ''session_id'' then Some (SE_Session_Id (field_or_blank e ''sessionId''))
                    else if t = ''text'' then Some (SE_Text (field_or_blank e ''text''))
                    else if t = ''thinking'' then Some (SE_Thinking (field_or_blank e ''text''))
                    else if t = ''done'' then Some (SE_Done (field_or_blank e ''sessionId''))
                    else if t = ''error'' then Some (SE_Error (field_or_blank e ''message''))
                    else if t = ''aborted'' then Some SE_Aborted
                    else if t = ''peer_chat''
                    then Some (SE_Peer_Chat (field_or_blank e ''from'') (field_or_blank e ''text''))
                    else if t = ''host:status'' \<or> t = ''agent:status''
                    then Some (SE_Host_Status (truthy (jprop e ''connected'')))
                    else if t = ''agent:unavailable'' then Some (SE_Unavailable (field_or_blank e ''reason''))
                    else if t = ''tool_call''
                    then Some (SE_Tool_Call (field_or_blank e ''name'') (jprop e ''input''))
                    else if t = ''tool_result'' then Some (SE_Tool_Result (jprop e ''content''))
                    else if t = ''permission_request''
                    then (case jprop e ''requestId'' of
                            Some r \<Rightarrow>
                              (if truthy (Some r)
                               then Some (SE_Permission_Request r (field_or_blank e ''toolName'') (jprop e ''input''))
                               else None)
                          | None \<Rightarrow> None)
                    else None))"

text \<open>\<open>/^guest:(.+)-[^-]+$/\<close>: the last hyphen of the rest splits it; \<open>.\<close> matches no line break.\<close>

definition guest_name :: "string \<Rightarrow> string option" where
  "guest_name from =
     (if take 6 from = ''guest:''
      then (let r = rev (drop 6 from);
                suffix = takeWhile (\<lambda>c. c \<noteq> CHR ''-'') r;
                name = rev (drop (Suc (length suffix)) r)
            in if suffix \<noteq> [] \<and> length suffix < length r \<and> name \<noteq> [] \<and>
                 list_all (\<lambda>c. (of_char c :: nat) \<notin> {10, 13}) name
               then Some name else None)
      else None)"

definition speakerName :: "string \<Rightarrow> string" where
  "speakerName from =
     (if from = [] then ''?'' else case guest_name from of Some name \<Rightarrow> name | None \<Rightarrow> from)"

section \<open>Outbound frames\<close>

definition buildChat :: "string \<Rightarrow> string \<Rightarrow> json" where
  "buildChat prompt sessionId =
     JObj ([(''type'', JStr ''chat''), (''prompt'', JStr prompt)] @
       (if sessionId \<noteq> [] then [(''sessionId'', JStr sessionId)] else []))"

definition buildPermissionResponse :: "string \<Rightarrow> bool \<Rightarrow> json" where
  "buildPermissionResponse requestId allow =
     JObj [(''type'', JStr ''permission_response''), (''requestId'', JStr requestId), (''allow'', JBool allow)]"

definition buildPtyInput :: "string \<Rightarrow> json" where
  "buildPtyInput data = JObj [(''type'', JStr ''pty_input''), (''data'', JStr data)]"

definition buildPtyScroll :: "string \<Rightarrow> json" where
  "buildPtyScroll data = JObj [(''type'', JStr ''pty_scroll''), (''data'', JStr data)]"

definition buildPtyResize :: "jsnum \<Rightarrow> jsnum \<Rightarrow> json" where
  "buildPtyResize cols rows = JObj [(''type'', JStr ''pty_resize''), (''cols'', JNum cols), (''rows'', JNum rows)]"

definition buildSetDriver :: "string \<Rightarrow> json" where
  "buildSetDriver target = JObj [(''type'', JStr ''set_driver''), (''target'', JStr target), (''driver'', JStr target)]"

definition buildRequestScreen :: "string option \<Rightarrow> jsnum option \<Rightarrow> json" where
  "buildRequestScreen incarnationId sq =
     JObj ([(''type'', JStr ''request_screen'')] @
       (case incarnationId of Some i \<Rightarrow> [(''incarnationId'', JStr i)] | None \<Rightarrow> []) @
       (case sq of Some n \<Rightarrow> [(''seq'', JNum n)] | None \<Rightarrow> []))"

definition buildDriverHeartbeat :: json where
  "buildDriverHeartbeat = JObj [(''type'', JStr ''driver_heartbeat'')]"

definition buildDriverRequest :: json where
  "buildDriverRequest = JObj [(''type'', JStr ''driver_request'')]"

definition buildRoomChat :: "string \<Rightarrow> json" where
  "buildRoomChat text = JObj [(''type'', JStr ''room_chat''), (''text'', JStr text)]"

section \<open>Terminal events\<close>

datatype room_mode = Mode_Chat | Mode_Terminal

record participant_presence =
  pp_userId :: string
  pp_role :: string
  pp_access :: string
  pp_connectionId :: string
  pp_connectedAt :: jsnum

record stream_position =
  sp_streamId :: "string option"
  sp_incarnationId :: "string option"
  sp_seq :: "jsnum option"

datatype terminal_event =
    TE_Room_Mode room_mode
  | TE_Pty_Output string stream_position
  | TE_Pty_Snapshot string stream_position "jsnum option" "jsnum option" \<comment> \<open>data, position, cols, rows\<close>
  | TE_Pty_Exit "jsnum option"
  | TE_Driver string
  | TE_Driver_State string jsnum "jsnum option" \<comment> \<open>driver, generation, expiry\<close>
  | TE_Driver_Request string
  | TE_Participant_Roster "participant_presence list" string jsnum
  | TE_Pty_Size jsnum jsnum
  | TE_Room_Chat json json \<comment> \<open>from, text\<close>

text \<open>\<open>typeof e.k === "string" ? e.k : d\<close>.\<close>

definition string_or :: "json \<Rightarrow> string \<Rightarrow> string \<Rightarrow> string" where
  "string_or e k d = (case as_string (jprop e k) of Some s \<Rightarrow> s | None \<Rightarrow> d)"

definition terminalSequence :: "json \<Rightarrow> bool \<Rightarrow> stream_position" where
  "terminalSequence e allowZero =
     \<lparr>sp_streamId = as_string (jprop e ''streamId''),
      sp_incarnationId = as_string (jprop e ''incarnationId''),
      sp_seq = (case as_number (jprop e ''seq'') of
                  Some n \<Rightarrow> (if num_is_safe_integer n \<and> num_ge n (if allowZero then 0 else 1)
                            then Some n else None)
                | None \<Rightarrow> None)\<rparr>"

text \<open>\<open>Number.isFinite(e.k) && e.k > 0\<close>, and \<open>Number.isSafeInteger(e.k) ? e.k : 0\<close>.\<close>

definition positive_field :: "json \<Rightarrow> string \<Rightarrow> jsnum option" where
  "positive_field e k =
     (case as_number (jprop e k) of
        Some n \<Rightarrow> (if num_is_finite n \<and> num_gt n 0 then Some n else None)
      | None \<Rightarrow> None)"

definition safe_int_or_zero :: "json \<Rightarrow> string \<Rightarrow> jsnum" where
  "safe_int_or_zero e k =
     (case as_number (jprop e k) of
        Some n \<Rightarrow> (if num_is_safe_integer n then n else Fin 0)
      | None \<Rightarrow> Fin 0)"

definition parse_presence :: "json \<Rightarrow> participant_presence list" where
  "parse_presence raw =
     (if \<not> truthy (Some raw) \<or> \<not> typeof_object raw then []
      else (case (as_string (jprop raw ''userId''), as_string (jprop raw ''connectionId'')) of
              (Some userId, Some connectionId) \<Rightarrow>
                [\<lparr>pp_userId = userId, pp_role = string_or raw ''role'' ''participant'',
                  pp_access = string_or raw ''access'' ''view'', pp_connectionId = connectionId,
                  pp_connectedAt = (case as_number (jprop raw ''connectedAt'') of Some n \<Rightarrow> n | None \<Rightarrow> Fin 0)\<rparr>]
            | _ \<Rightarrow> []))"

definition roster_participants :: "json option \<Rightarrow> participant_presence list" where
  "roster_participants v = (case v of Some (JArr xs) \<Rightarrow> concat (map parse_presence xs) | _ \<Rightarrow> [])"

definition parseTerminalEvent :: "(string \<Rightarrow> json option) \<Rightarrow> string \<Rightarrow> terminal_event option" where
  "parseTerminalEvent json_parse raw =
     (case json_parse raw of
        None \<Rightarrow> None
      | Some e \<Rightarrow>
          if \<not> truthy (Some e) \<or> \<not> typeof_object e then None
          else (case as_string (jprop e ''type'') of
                  None \<Rightarrow> None
                | Some t \<Rightarrow>
                    if t = ''room_mode''
                    then (if jprop e ''mode'' = Some (JStr ''terminal'') then Some (TE_Room_Mode Mode_Terminal)
                          else if jprop e ''mode'' = Some (JStr ''chat'') then Some (TE_Room_Mode Mode_Chat)
                          else None)
                    else if t = ''pty_output''
                    then Some (TE_Pty_Output (string_or e ''data'' []) (terminalSequence e False))
                    else if t = ''pty_snapshot''
                    then Some (TE_Pty_Snapshot (string_or e ''data'' []) (terminalSequence e True)
                      (positive_field e ''cols'') (positive_field e ''rows''))
                    else if t = ''pty_exit'' then Some (TE_Pty_Exit (as_number (jprop e ''code'')))
                    else if t = ''driver'' then Some (TE_Driver (string_or e ''from'' []))
                    else if t = ''driver_state''
                    then Some (TE_Driver_State (string_or e ''driver'' []) (safe_int_or_zero e ''generation'')
                      (positive_field e ''expiresAt''))
                    else if t = ''driver_request'' then Some (TE_Driver_Request (string_or e ''from'' []))
                    else if t = ''participant_roster''
                    then Some (TE_Participant_Roster (roster_participants (jprop e ''participants''))
                      (string_or e ''driver'' []) (safe_int_or_zero e ''generation''))
                    else if t = ''pty_size''
                    then (case (positive_field e ''cols'', positive_field e ''rows'') of
                            (Some cols, Some rows) \<Rightarrow> Some (TE_Pty_Size cols rows)
                          | _ \<Rightarrow> None)
                    else if t = ''room_chat''
                    then Some (TE_Room_Chat (field_or_blank e ''from'') (field_or_blank e ''text''))
                    else None))"

definition peekRoomMode :: "(string \<Rightarrow> json option) \<Rightarrow> string \<Rightarrow> room_mode option" where
  "peekRoomMode json_parse raw =
     (case parseTerminalEvent json_parse raw of Some (TE_Room_Mode m) \<Rightarrow> Some m | _ \<Rightarrow> None)"

section \<open>Terminal input\<close>

text \<open>
  \<open>/^\x1b\[<(\d+);\d+;\d+[Mm]$/\<close>; the digits of the button.
\<close>

definition sgr_button :: "string \<Rightarrow> string option" where
  "sgr_button data =
     (if take 3 data = [CHR 0x1B, CHR ''['', CHR ''<'']
      then (let btn = takeWhile is_digit (drop 3 data); r1 = dropWhile is_digit (drop 3 data);
                x = takeWhile is_digit (tl r1); r2 = dropWhile is_digit (tl r1);
                y = takeWhile is_digit (tl r2); r3 = dropWhile is_digit (tl r2)
            in if btn \<noteq> [] \<and> x \<noteq> [] \<and> y \<noteq> [] \<and> take 1 r1 = '';'' \<and> take 1 r2 = '';'' \<and>
                 (r3 = ''M'' \<or> r3 = ''m'')
               then Some btn else None)
      else None)"

definition isScrollSeq :: "string \<Rightarrow> bool" where
  "isScrollSeq data =
     (case sgr_button data of
        Some btn \<Rightarrow> bit (digits_value btn) 6
      | None \<Rightarrow>
          if length data = 6 \<and> take 3 data = [CHR 0x1B, CHR ''['', CHR ''M'']
          then bit (of_char (data ! 3) - 32 :: int) 6
          else data \<in> {[CHR 0x1B, CHR ''O'', CHR ''A''], [CHR 0x1B, CHR ''O'', CHR ''B''],
                       [CHR 0x1B, CHR ''['', CHR ''A''], [CHR 0x1B, CHR ''['', CHR ''B'']})"

text \<open>\<open>base64ToBytes\<close>: a malformed payload is dropped.\<close>

definition base64ToBytes :: "string \<Rightarrow> bytes" where
  "base64ToBytes b64 = (case atob b64 of Some bs \<Rightarrow> bs | None \<Rightarrow> [])"

definition shouldSendInput :: "string \<Rightarrow> string \<Rightarrow> bool" where
  "shouldSendInput driver mySub \<longleftrightarrow> mySub \<noteq> [] \<and> driver = mySub"

record key_event =
  ke_key :: string
  ke_ctrlKey :: bool
  ke_altKey :: bool
  ke_metaKey :: bool

definition ESC :: char where "ESC = CHR 0x1B"

definition named_keys :: "(string \<times> string) list" where
  "named_keys =
     [(''Enter'', [CHR 0x0D]), (''Backspace'', [CHR 0x7F]), (''Tab'', [CHR 0x09]), (''Escape'', [ESC]),
      (''ArrowUp'', ESC # ''[A''), (''ArrowDown'', ESC # ''[B''), (''ArrowRight'', ESC # ''[C''),
      (''ArrowLeft'', ESC # ''[D''), (''Home'', ESC # ''[H''), (''End'', ESC # ''[F''),
      (''PageUp'', ESC # ''[5~''), (''PageDown'', ESC # ''[6~''), (''Delete'', ESC # ''[3~'')]"

definition ctrl_chord :: "char \<Rightarrow> string option" where
  "ctrl_chord k =
     (let lower = ascii_lower k in
      if 97 \<le> (of_char lower :: nat) \<and> (of_char lower :: nat) \<le> 122
      then Some [char_of ((of_char lower :: nat) - 96)]
      else if k = CHR ''['' then Some [CHR 0x1B]
      else if k = CHR '']'' then Some [CHR 0x1D]
      else if k = CHR 0x5C then Some [CHR 0x1C]
      else if k = CHR '' '' then Some [CHR 0x00]
      else None)"

definition keyToSequence :: "key_event \<Rightarrow> string option" where
  "keyToSequence e =
     (case map_of named_keys (ke_key e) of
        Some s \<Rightarrow> Some s
      | None \<Rightarrow>
          if ke_ctrlKey e \<and> \<not> ke_metaKey e \<and> length (ke_key e) = 1 then ctrl_chord (hd (ke_key e))
          else None)"

definition cursorPx :: "rat \<Rightarrow> rat \<Rightarrow> rat \<Rightarrow> rat \<Rightarrow> rat \<Rightarrow> rat \<Rightarrow> rat \<times> rat" where
  "cursorPx cursorX cursorY cellW cellH padL padT = (padL + cursorX * cellW, padT + cursorY * cellH)"

section \<open>Unverified token claims\<close>

text \<open>\<open>s.split(c)\<close> for a one-character separator.\<close>

fun split_on :: "char \<Rightarrow> string \<Rightarrow> string list" where
  "split_on c [] = [[]]"
| "split_on c (x # s) =
     (if x = c then [] # split_on c s
      else (case split_on c s of p # ps \<Rightarrow> (x # p) # ps | [] \<Rightarrow> [[x]]))"

text \<open>\<open>while (b64.length % 4 !== 0) b64 += "="\<close>.\<close>

function pad_to_4 :: "string \<Rightarrow> string" where
  "pad_to_4 b64 = (if length b64 mod 4 \<noteq> 0 then pad_to_4 (b64 @ ''='') else b64)"
  by pat_completeness auto
termination
proof (relation "measure (\<lambda>s. (4 - length s mod 4) mod 4)")
  fix s :: string
  assume nz: "length s mod 4 \<noteq> 0"
  have "length s mod 4 < 4" by simp
  with nz have "length s mod 4 = 1 \<or> length s mod 4 = 2 \<or> length s mod 4 = 3" by linarith
  then show "(s @ ''='', s) \<in> measure (\<lambda>s. (4 - length s mod 4) mod 4)" by (auto simp: mod_Suc)
qed simp

declare pad_to_4.simps [simp del]

definition from_base64url :: "string \<Rightarrow> string" where
  "from_base64url s = map (\<lambda>c. if c = CHR ''-'' then CHR ''+'' else if c = CHR ''_'' then CHR ''/'' else c) s"

definition jwtPayload :: "(string \<Rightarrow> json option) \<Rightarrow> string \<Rightarrow> json option" where
  "jwtPayload json_parse token =
     (case split_on (CHR ''.'') token of
        _ # payload # _ \<Rightarrow>
          (case atob (pad_to_4 (from_base64url payload)) of
             None \<Rightarrow> None
           | Some bs \<Rightarrow>
               (case json_parse (map (\<lambda>b. char_of (unat b)) bs) of
                  None \<Rightarrow> None
                | Some j \<Rightarrow> (if truthy (Some j) \<and> typeof_object j then Some j else None)))
      | _ \<Rightarrow> None)"

definition subFromToken :: "(string \<Rightarrow> json option) \<Rightarrow> string \<Rightarrow> string" where
  "subFromToken json_parse token =
     (case jwtPayload json_parse token of Some p \<Rightarrow> string_or p ''sub'' [] | None \<Rightarrow> [])"

datatype token_access = Access_Control | Access_View | Access_Unknown

definition accessFromToken :: "(string \<Rightarrow> json option) \<Rightarrow> string \<Rightarrow> token_access" where
  "accessFromToken json_parse token =
     (case jwtPayload json_parse token of
        None \<Rightarrow> Access_Unknown
      | Some p \<Rightarrow> (if jprop p ''access'' = Some (JStr ''view'') then Access_View else Access_Control))"

definition roomFromToken :: "(string \<Rightarrow> json option) \<Rightarrow> string \<Rightarrow> string" where
  "roomFromToken json_parse token =
     (case jwtPayload json_parse token of
        None \<Rightarrow> []
      | Some p \<Rightarrow>
          (case as_string (jprop p ''room'') of
             Some r \<Rightarrow> (if r \<noteq> [] then r else string_or p ''sub'' [])
           | None \<Rightarrow> string_or p ''sub'' []))"

datatype execution_target = Target_Local | Target_Docker

definition executionTargetFromToken :: "(string \<Rightarrow> json option) \<Rightarrow> string \<Rightarrow> execution_target option" where
  "executionTargetFromToken json_parse token =
     (case Option.bind (jwtPayload json_parse token) (\<lambda>p. as_string (jprop p ''execution_target'')) of
        Some t \<Rightarrow> (if t = ''local'' then Some Target_Local else if t = ''docker'' then Some Target_Docker else None)
      | None \<Rightarrow> None)"

definition nonblank_claim :: "(string \<Rightarrow> json option) \<Rightarrow> string \<Rightarrow> string \<Rightarrow> string option" where
  "nonblank_claim json_parse token k =
     (case Option.bind (jwtPayload json_parse token) (\<lambda>p. as_string (jprop p k)) of
        Some v \<Rightarrow> (if v \<noteq> [] then Some v else None)
      | None \<Rightarrow> None)"

definition deviceIdFromToken :: "(string \<Rightarrow> json option) \<Rightarrow> string \<Rightarrow> string option" where
  "deviceIdFromToken json_parse token = nonblank_claim json_parse token ''device_id''"

definition relaySessionIdFromToken :: "(string \<Rightarrow> json option) \<Rightarrow> string \<Rightarrow> string option" where
  "relaySessionIdFromToken json_parse token = nonblank_claim json_parse token ''session_id''"

section \<open>Tool activity\<close>

text \<open>\<open>replace(/\s+/g, " ")\<close>; the flag says whether the previous character was white space.\<close>

fun collapse_space :: "bool \<Rightarrow> string \<Rightarrow> string" where
  "collapse_space prev [] = []"
| "collapse_space prev (c # s) =
     (if js_space c then (if prev then collapse_space True s else CHR '' '' # collapse_space True s)
      else c # collapse_space False s)"

text \<open>A label, cut with an ellipsis or whole.\<close>

datatype clipped = Whole string | Cut string

definition clip :: "string \<Rightarrow> nat \<Rightarrow> clipped" where
  "clip s m = (if length s > m then Cut (take m s) else Whole s)"

definition pickString :: "json option \<Rightarrow> string option" where
  "pickString v = (case as_string v of Some s \<Rightarrow> (if js_trim s \<noteq> [] then Some s else None) | None \<Rightarrow> None)"

fun first_some :: "'a option list \<Rightarrow> 'a option" where
  "first_some [] = None"
| "first_some (Some x # _) = Some x"
| "first_some (None # r) = first_some r"

definition toolPreview :: "json option \<Rightarrow> clipped" where
  "toolPreview input =
     (let label = (\<lambda>s. clip (js_trim (collapse_space False s)) 120);
          first = (case input of
             Some o1 \<Rightarrow>
               if truthy (Some o1) \<and> typeof_object o1
               then first_some (map (\<lambda>k. pickString (jprop o1 k))
                 [''command'', ''file_path'', ''path'', ''pattern'', ''url'', ''description''])
               else None
           | None \<Rightarrow> None)
      in case first of
           Some s \<Rightarrow> label s
         | None \<Rightarrow> (case pickString input of Some s \<Rightarrow> label s | None \<Rightarrow> Whole []))"

text \<open>
  \<open>summarizeJson\<close> with \<open>JSON.stringify(_, null, 2)\<close> as an argument; parsed values are never
  circular, so its \<open>catch\<close> is not reached.
\<close>

definition summarizeJson :: "(json \<Rightarrow> string) \<Rightarrow> json option \<Rightarrow> string" where
  "summarizeJson pretty v = (case v of None \<Rightarrow> [] | Some j \<Rightarrow> pretty j)"

definition render_block :: "(json \<Rightarrow> string) \<Rightarrow> json \<Rightarrow> string" where
  "render_block pretty b =
     (case b of
        JStr s \<Rightarrow> s
      | _ \<Rightarrow> (if truthy (Some b) \<and> typeof_object b
             then (case as_string (jprop b ''text'') of Some t \<Rightarrow> t | None \<Rightarrow> summarizeJson pretty (Some b))
             else summarizeJson pretty (Some b)))"

fun join_lines :: "string list \<Rightarrow> string" where
  "join_lines [] = []"
| "join_lines [s] = s"
| "join_lines (s # r) = s @ [CHR 0x0A] @ join_lines r"

fun renderToolResultContent :: "(json \<Rightarrow> string) \<Rightarrow> json option \<Rightarrow> string" where
  "renderToolResultContent pretty None = []"
| "renderToolResultContent pretty (Some JNull) = []"
| "renderToolResultContent pretty (Some (JStr s)) = s"
| "renderToolResultContent pretty (Some (JArr bs)) =
     join_lines (filter (\<lambda>s. s \<noteq> []) (map (render_block pretty) bs))"
| "renderToolResultContent pretty (Some v) = summarizeJson pretty (Some v)"

section \<open>Lemmas\<close>

lemma positive_field_Some: "positive_field e k = Some n \<Longrightarrow> num_is_finite n \<and> num_gt n 0"
  by (auto simp: positive_field_def split: option.splits if_splits)

lemma terminalSequence_seq:
  "sp_seq (terminalSequence e z) = Some n \<Longrightarrow> num_is_safe_integer n \<and> num_ge n (if z then 0 else 1)"
  by (auto simp: terminalSequence_def split: option.splits if_splits)

lemma safe_int_or_zero_safe [simp]: "num_is_safe_integer (safe_int_or_zero e k)"
  by (auto simp: safe_int_or_zero_def rat_is_int_def MAX_SAFE_INTEGER_def split: option.splits)

text \<open>A sequence too short for a mouse report scrolls only if it is a cursor key.\<close>

lemma isScrollSeq_short:
  assumes "length s < 6"
  shows "isScrollSeq s \<longleftrightarrow>
    s \<in> {[CHR 0x1B, CHR ''O'', CHR ''A''], [CHR 0x1B, CHR ''O'', CHR ''B''],
         [CHR 0x1B, CHR ''['', CHR ''A''], [CHR 0x1B, CHR ''['', CHR ''B'']}"
proof -
  have "sgr_button s = None"
  proof (rule ccontr)
    assume "sgr_button s \<noteq> None"
    let ?d = "drop 3 s"
    let ?r1 = "dropWhile is_digit ?d"
    let ?r2 = "dropWhile is_digit (tl ?r1)"
    let ?r3 = "dropWhile is_digit (tl ?r2)"
    from \<open>sgr_button s \<noteq> None\<close> have ne: "takeWhile is_digit ?d \<noteq> []" "takeWhile is_digit (tl ?r1) \<noteq> []"
        "take 1 ?r1 = '';''" "take 1 ?r2 = '';''"
      by (auto simp: sgr_button_def Let_def split: if_splits)
    have "length (takeWhile is_digit ?d) + length ?r1 = length ?d"
      by (metis length_append takeWhile_dropWhile_id)
    moreover have "length (takeWhile is_digit (tl ?r1)) + length ?r2 = length (tl ?r1)"
      by (metis length_append takeWhile_dropWhile_id)
    moreover have "1 \<le> length ?r1" "1 \<le> length ?r2"
      using ne(3,4) by (metis One_nat_def Suc_leI length_greater_0_conv list.distinct(1) take_Nil)+
    moreover have "1 \<le> length (takeWhile is_digit ?d)" "1 \<le> length (takeWhile is_digit (tl ?r1))"
      using ne(1,2) by (simp_all add: Suc_leI)
    ultimately show False using assms by simp
  qed
  with assms show ?thesis by (auto simp: isScrollSeq_def)
qed

lemma ctrl_chord_single: "ctrl_chord k = Some s \<Longrightarrow> length s = 1"
  by (auto simp: ctrl_chord_def Let_def split: if_splits)

lemma named_keys_Some:
  "map_of named_keys k = Some s \<Longrightarrow> length s < 6 \<and> (s = ESC # ''[A'' \<longleftrightarrow> k = ''ArrowUp'') \<and>
     (s = ESC # ''[B'' \<longleftrightarrow> k = ''ArrowDown'') \<and> s \<noteq> ESC # ''OA'' \<and> s \<noteq> ESC # ''OB''"
  by (auto simp: named_keys_def ESC_def split: if_splits)

subsection \<open>Base64url segments\<close>

definition to_base64url :: "bytes \<Rightarrow> string" where
  "to_base64url bs =
     map (\<lambda>c. if c = CHR ''+'' then CHR ''-'' else if c = CHR ''/'' then CHR ''_'' else c)
       (filter is_b64_char (btoa bs))"

lemma b64_char_url: "is_b64_char c \<Longrightarrow> c \<noteq> CHR ''-'' \<and> c \<noteq> CHR ''_'' \<and> c \<noteq> CHR ''.''"
  by (auto simp: is_b64_char_def b64_index_def)

lemma from_to_base64url: "from_base64url (to_base64url bs) = b64_body bs"
  unfolding from_base64url_def to_base64url_def b64_body_def map_map
  by (rule map_idI) (auto simp: b64_char_url)

lemma to_base64url_no_dot: "CHR ''.'' \<notin> set (to_base64url bs)"
  using b64_char_url [of "CHR ''.''"] by (auto simp: to_base64url_def split: if_splits)

lemma btoa_padding: "\<exists>k < 4. btoa bs = b64_body bs @ replicate k CHR ''=''"
proof (induction bs rule: btoa.induct)
  case (4 a b c r)
  then obtain k where "k < 4" "btoa r = b64_body r @ replicate k CHR ''=''" by blast
  then show ?case by (intro exI [of _ k]) (simp add: b64_body_def)
next
  case (2 a)
  show ?case by (intro exI [of _ 2]) (simp add: b64_body_def numeral_2_eq_2)
next
  case (3 a b)
  show ?case by (intro exI [of _ 1]) (simp add: b64_body_def)
qed (simp_all add: b64_body_def)

lemma pad_to_4_fill:
  "k < 4 \<Longrightarrow> (length s + k) mod 4 = 0 \<Longrightarrow> pad_to_4 s = s @ replicate k CHR ''=''"
proof (induction k arbitrary: s)
  case 0
  then show ?case by (subst pad_to_4.simps) simp
next
  case (Suc k)
  have "length s mod 4 \<noteq> 0"
  proof
    assume "length s mod 4 = 0"
    then have "(length s + Suc k) mod 4 = Suc k mod 4" by (metis add_0 mod_add_left_eq)
    with Suc.prems show False by simp
  qed
  with Suc.IH [of "s @ ''=''"] Suc.prems show ?case
    by (subst pad_to_4.simps) simp
qed

lemma pad_to_4_body: "pad_to_4 (b64_body bs) = btoa bs"
proof -
  obtain k where k: "k < 4" "btoa bs = b64_body bs @ replicate k CHR ''=''" using btoa_padding by blast
  have "length (b64_body bs) + k = length (btoa bs)" using k(2) by simp
  also have "\<dots> mod 4 = 0" by (simp add: length_btoa)
  finally show ?thesis using pad_to_4_fill [OF k(1)] k(2) by simp
qed

lemma split_on_no_sep: "c \<notin> set s \<Longrightarrow> split_on c (s @ c # r) = s # split_on c r"
  by (induction s) auto

lemma split_on_end: "c \<notin> set s \<Longrightarrow> split_on c s = [s]"
  by (induction s) auto

lemma split_on_payload:
  "CHR ''.'' \<notin> set h \<Longrightarrow> \<exists>rest. split_on CHR ''.'' (h @ ''.'' @ to_base64url bs @ ''.'' @ sig) =
     h # to_base64url bs # rest"
  using split_on_no_sep [of "CHR ''.''" h "to_base64url bs @ ''.'' @ sig"]
    split_on_no_sep [OF to_base64url_no_dot, of bs sig] by simp

text \<open>The sizes and positions that the parser yields.\<close>

fun terminal_event_ok :: "terminal_event \<Rightarrow> bool" where
  "terminal_event_ok (TE_Pty_Size cols rows) \<longleftrightarrow>
     num_is_finite cols \<and> num_gt cols 0 \<and> num_is_finite rows \<and> num_gt rows 0"
| "terminal_event_ok (TE_Pty_Output d p) \<longleftrightarrow>
     (case sp_seq p of Some n \<Rightarrow> num_is_safe_integer n \<and> num_ge n 1 | None \<Rightarrow> True)"
| "terminal_event_ok (TE_Pty_Snapshot d p cols rows) \<longleftrightarrow>
     (case sp_seq p of Some n \<Rightarrow> num_is_safe_integer n \<and> num_ge n 0 | None \<Rightarrow> True) \<and>
     list_all (\<lambda>v. case v of Some n \<Rightarrow> num_is_finite n \<and> num_gt n 0 | None \<Rightarrow> True) [cols, rows]"
| "terminal_event_ok (TE_Driver_State d g t) \<longleftrightarrow> num_is_safe_integer g"
| "terminal_event_ok (TE_Participant_Roster ps d g) \<longleftrightarrow> num_is_safe_integer g"
| "terminal_event_ok _ \<longleftrightarrow> True"

lemma positive_field_case: "case positive_field e k of Some n \<Rightarrow> num_is_finite n \<and> num_gt n 0 | None \<Rightarrow> True"
  using positive_field_Some by (auto split: option.splits)

lemmas terminalSequence_seqs =
  terminalSequence_seq [where z = True, simplified] terminalSequence_seq [where z = False, simplified]

lemma parseTerminalEvent_ok: "parseTerminalEvent json_parse raw = Some ev \<Longrightarrow> terminal_event_ok ev"
  by (cases ev)
     (auto simp: parseTerminalEvent_def positive_field_case positive_field_Some dest: terminalSequence_seqs
       split: option.splits if_splits)

section \<open>Properties\<close>

text \<open>
  The unguarded scroll path cannot carry typing. Of all the key presses that the client
  turns into terminal bytes, with any modifiers, exactly the up and down arrows pass the filter
  \<open>isScrollSeq\<close>; no control character, escape, enter or editing key does.
\<close>

theorem only_vertical_arrows_scroll:
  assumes "keyToSequence e = Some s"
  shows "isScrollSeq s \<longleftrightarrow> ke_key e = ''ArrowUp'' \<or> ke_key e = ''ArrowDown''"
proof (cases "map_of named_keys (ke_key e)")
  case (Some s')
  with assms have "map_of named_keys (ke_key e) = Some s" by (simp add: keyToSequence_def)
  from named_keys_Some [OF this] show ?thesis by (auto simp: isScrollSeq_short ESC_def)
next
  case None
  with assms have "length s = 1" by (auto simp: keyToSequence_def ctrl_chord_single split: if_splits)
  moreover have "ke_key e \<noteq> ''ArrowUp'' \<and> ke_key e \<noteq> ''ArrowDown''"
    using None by (auto simp: named_keys_def split: if_splits)
  ultimately show ?thesis by (auto simp: isScrollSeq_short)
qed

theorem only_vertical_arrows_scroll_witness:
  "\<not> isScrollSeq [CHR 0x03] \<and>
   keyToSequence \<lparr>ke_key = ''c'', ke_ctrlKey = True, ke_altKey = False, ke_metaKey = False\<rparr> = Some [CHR 0x03]"
proof -
  let ?e = "\<lparr>ke_key = ''c'', ke_ctrlKey = True, ke_altKey = False, ke_metaKey = False\<rparr>"
  have "keyToSequence ?e = Some [CHR 0x03]"
    by (simp add: keyToSequence_def named_keys_def ctrl_chord_def ascii_lower_def char_of_def bit_iff_odd)
  with only_vertical_arrows_scroll [OF this] show ?thesis by simp
qed

text \<open>
  What the scroll filter lets through beyond those keys is a mouse report whose button
  has the bit 0x40. That is a larger set than the wheel buttons 64 to 67 named beside it: in the
  six-character form every code below 32 passes too, and the last two characters are arbitrary.
\<close>

theorem scroll_filter_accepts_more_than_wheel:
  "isScrollSeq (ESC # ''[<96;1;1M'') \<and>
   (of_char cb < (32 :: nat) \<longrightarrow> isScrollSeq ([ESC, CHR ''['', CHR ''M''] @ [cb, x, y]))"
proof -
  have "sgr_button ([ESC, CHR ''['', CHR ''M''] @ [cb, x, y]) = None"
    by (simp add: sgr_button_def ESC_def)
  moreover have "bit (of_char cb - 32 :: int) 6" if small: "of_char cb < (32 :: nat)"
  proof -
    let ?n = "(of_char cb :: nat)"
    have "(of_char cb :: int) = int ?n" by (simp add: of_nat_of_char)
    then have "(of_char cb - 32 :: int) div 2 ^ 6 = -1" using small by auto
    then show ?thesis by (simp add: bit_iff_odd)
  qed
  moreover have "isScrollSeq (ESC # ''[<96;1;1M'')"
    by (simp add: isScrollSeq_def sgr_button_def ESC_def is_digit_def digits_value_def digit_value_def bit_iff_odd)
  ultimately show ?thesis by (auto simp: isScrollSeq_def ESC_def)
qed

theorem scroll_filter_accepts_more_than_wheel_witness:
  "isScrollSeq [ESC, CHR ''['', CHR ''M'', CHR 0x03, CHR ''x'', CHR 0x0D]"
  using scroll_filter_accepts_more_than_wheel [of "CHR 0x03" "CHR ''x''" "CHR 0x0D"] by simp

text \<open>
  Claims survive the encoding of a token: for any header and signature, the payload
  that is read from the middle segment in unpadded base64url is the JSON value of the encoded bytes,
  and it is accepted exactly when it is an object or an array.
\<close>

theorem jwt_payload_roundtrip:
  assumes "CHR ''.'' \<notin> set header" "json_parse (map (\<lambda>b. char_of (unat b)) bs) = Some j"
  shows "jwtPayload json_parse (header @ ''.'' @ to_base64url bs @ ''.'' @ sig) =
    (if j \<noteq> JNull \<and> typeof_object j then Some j else None)"
proof -
  have "truthy (Some j) \<and> typeof_object j \<longleftrightarrow> j \<noteq> JNull \<and> typeof_object j" by (cases j) simp_all
  with split_on_payload [OF assms(1), of bs sig] assms(2) show ?thesis
    by (auto simp: jwtPayload_def from_to_base64url pad_to_4_body atob_btoa)
qed

theorem jwt_payload_roundtrip_witness:
  "jwtPayload (\<lambda>s. if s = ''{}'' then Some (JObj []) else None) (''h'' @ ''.'' @ to_base64url [123, 125] @ ''.'' @ ''s'') =
    Some (JObj [])"
  using jwt_payload_roundtrip [of "''h''" "\<lambda>s. if s = ''{}'' then Some (JObj []) else None" "[123, 125]" "JObj []" "''s''"]
  by (simp add: char_of_def bit_iff_odd)

text \<open>
  Property C35. No frame can corrupt the terminal grid or the stream position: every size that the
  terminal parser yields is finite and positive, every sequence number is a safe integer, at least 1
  for output and at least 0 for a snapshot, and every generation is a safe integer.
\<close>

theorem terminal_events_are_well_formed:
  "case parseTerminalEvent json_parse raw of
     Some (TE_Pty_Size cols rows) \<Rightarrow>
       num_is_finite cols \<and> num_gt cols 0 \<and> num_is_finite rows \<and> num_gt rows 0
   | Some (TE_Pty_Output d p) \<Rightarrow>
       (case sp_seq p of Some n \<Rightarrow> num_is_safe_integer n \<and> num_ge n 1 | None \<Rightarrow> True)
   | Some (TE_Pty_Snapshot d p cols rows) \<Rightarrow>
       (case sp_seq p of Some n \<Rightarrow> num_is_safe_integer n \<and> num_ge n 0 | None \<Rightarrow> True) \<and>
       list_all (\<lambda>v. case v of Some n \<Rightarrow> num_is_finite n \<and> num_gt n 0 | None \<Rightarrow> True) [cols, rows]
   | Some (TE_Driver_State d g t) \<Rightarrow> num_is_safe_integer g
   | Some (TE_Participant_Roster ps d g) \<Rightarrow> num_is_safe_integer g
   | _ \<Rightarrow> True"
proof (cases "parseTerminalEvent json_parse raw")
  case (Some ev)
  then have "terminal_event_ok ev" by (rule parseTerminalEvent_ok)
  with Some show ?thesis by (cases ev) simp_all
qed simp

end
