(* ===== verification/Desktop_Chat.thy ===== *)
theory Desktop_Chat
  imports Desktop_Protocol
begin

text \<open>
  The chat transcript of the desktop client: the state and the reducer of \<open>desktop/src/protocol.ts\<close>
  (from \<open>SpeakerKind\<close> on). Events are the parsed ones at their declared type, with strings where the
  declaration says string. The fixed texts of the reducer are constructors of \<open>chat_text\<close>.
  \<open>pretty\<close> is the \<open>JSON.stringify\<close> that renders a tool result.
\<close>

section \<open>State\<close>

datatype speaker_kind = K_Claude | K_Me | K_Peer | K_System | K_Error | K_Activity | K_Permission

datatype chat_text = Plain string | Error_Text string | Aborted_Text | Unavailable_Text

record tool_activity =
  ta_name :: string
  ta_input :: "json option"
  ta_result :: "string option"
  ta_hasResult :: bool

datatype permission_decision = Pending | Allowed | Denied_By_Host

record permission_card =
  pc_requestId :: string
  pc_toolName :: string
  pc_input :: "json option"
  pc_decision :: permission_decision

record chat_message =
  cm_id :: nat
  cm_kind :: speaker_kind
  cm_name :: "string option"
  cm_text :: chat_text
  cm_activity :: "tool_activity option"
  cm_permission :: "permission_card option"

record chat_state =
  cs_messages :: "chat_message list"
  cs_streaming :: string
  cs_responding :: bool
  cs_thinking :: string
  cs_sessionId :: string
  cs_hostUp :: bool
  cs_nextId :: nat

definition initialChatState :: chat_state where
  "initialChatState =
     \<lparr>cs_messages = [], cs_streaming = [], cs_responding = False, cs_thinking = [], cs_sessionId = [],
      cs_hostUp = False, cs_nextId = 1\<rparr>"

datatype chat_action =
    Act_Event "string server_event"
  | Act_Send string string \<comment> \<open>name, text\<close>
  | Act_System string
  | Act_Permission_Decide string bool

section \<open>The reducer\<close>

text \<open>A message without its id: the fields that the literal sets, the others absent.\<close>

definition message :: "speaker_kind \<Rightarrow> chat_text \<Rightarrow> chat_message" where
  "message kind text =
     \<lparr>cm_id = 0, cm_kind = kind, cm_name = None, cm_text = text, cm_activity = None, cm_permission = None\<rparr>"

definition push :: "chat_state \<Rightarrow> chat_message \<Rightarrow> chat_state" where
  "push s m = s\<lparr>cs_messages := cs_messages s @ [m\<lparr>cm_id := cs_nextId s\<rparr>], cs_nextId := cs_nextId s + 1\<rparr>"

definition flushStreaming :: "chat_state \<Rightarrow> bool \<Rightarrow> chat_state" where
  "flushStreaming s keepResponding =
     (let trimmed = js_trim (cs_streaming s);
          flushed = (if trimmed \<noteq> [] then push s (message K_Claude (Plain trimmed)) else s)
      in flushed\<lparr>cs_streaming := [], cs_responding := keepResponding,
           cs_thinking := (if keepResponding then cs_thinking flushed else [])\<rparr>)"

definition finalizeStreaming :: "chat_state \<Rightarrow> chat_state" where
  "finalizeStreaming s = flushStreaming s False"

definition decide_message :: "string \<Rightarrow> bool \<Rightarrow> chat_message \<Rightarrow> chat_message" where
  "decide_message requestId allow m =
     (case cm_permission m of
        Some p \<Rightarrow>
          (if cm_kind m = K_Permission \<and> pc_requestId p = requestId \<and> pc_decision p = Pending
           then m\<lparr>cm_permission := Some (p\<lparr>pc_decision := (if allow then Allowed else Denied_By_Host)\<rparr>)\<rparr>
           else m)
      | None \<Rightarrow> m)"

text \<open>Returning the old state when nothing changed is the same value.\<close>

definition decidePermission :: "chat_state \<Rightarrow> string \<Rightarrow> bool \<Rightarrow> chat_state" where
  "decidePermission s requestId allow =
     s\<lparr>cs_messages := map (decide_message requestId allow) (cs_messages s)\<rparr>"

definition awaiting_result :: "chat_message \<Rightarrow> bool" where
  "awaiting_result m \<longleftrightarrow>
     cm_kind m = K_Activity \<and> (case cm_activity m of Some a \<Rightarrow> \<not> ta_hasResult a | None \<Rightarrow> False)"

definition with_result :: "string \<Rightarrow> chat_message \<Rightarrow> chat_message" where
  "with_result r m =
     m\<lparr>cm_activity := map_option (\<lambda>a. a\<lparr>ta_hasResult := True, ta_result := Some r\<rparr>) (cm_activity m)\<rparr>"

text \<open>The loop from the last message to the first; \<open>i\<close> messages are still to be looked at.\<close>

fun attach_from :: "nat \<Rightarrow> string \<Rightarrow> chat_message list \<Rightarrow> chat_message list" where
  "attach_from 0 r ms = ms"
| "attach_from (Suc i) r ms =
     (if awaiting_result (ms ! i) then ms[i := with_result r (ms ! i)] else attach_from i r ms)"

definition attachToolResult :: "(json \<Rightarrow> string) \<Rightarrow> chat_state \<Rightarrow> json option \<Rightarrow> chat_state" where
  "attachToolResult pretty s content =
     s\<lparr>cs_messages := attach_from (length (cs_messages s)) (renderToolResultContent pretty content) (cs_messages s)\<rparr>"

fun applyEvent :: "(json \<Rightarrow> string) \<Rightarrow> chat_state \<Rightarrow> string server_event \<Rightarrow> chat_state" where
  "applyEvent pretty s (SE_Session_Id i) = (if i \<noteq> [] then s\<lparr>cs_sessionId := i\<rparr> else s)"
| "applyEvent pretty s (SE_Text t) = s\<lparr>cs_responding := True, cs_streaming := cs_streaming s @ t\<rparr>"
| "applyEvent pretty s (SE_Thinking t) = s\<lparr>cs_responding := True, cs_thinking := cs_thinking s @ t\<rparr>"
| "applyEvent pretty s (SE_Done i) = finalizeStreaming (if i \<noteq> [] then s\<lparr>cs_sessionId := i\<rparr> else s)"
| "applyEvent pretty s (SE_Error msg) = push (finalizeStreaming s) (message K_Error (Error_Text msg))"
| "applyEvent pretty s SE_Aborted = push (finalizeStreaming s) (message K_System Aborted_Text)"
| "applyEvent pretty s (SE_Peer_Chat from t) =
     push s ((message K_Peer (Plain t))\<lparr>cm_name := Some (speakerName from)\<rparr>)"
| "applyEvent pretty s (SE_Host_Status up) =
     (if cs_hostUp s = up then s else s\<lparr>cs_hostUp := up\<rparr>)"
| "applyEvent pretty s (SE_Unavailable reason) =
     push (s\<lparr>cs_responding := False\<rparr>) (message K_System Unavailable_Text)"
| "applyEvent pretty s (SE_Tool_Call name input) =
     push (flushStreaming s True)
       ((message K_Activity (Plain []))
         \<lparr>cm_activity := Some \<lparr>ta_name = name, ta_input = input, ta_result = None, ta_hasResult = False\<rparr>\<rparr>)"
| "applyEvent pretty s (SE_Tool_Result content) = attachToolResult pretty s content"
| "applyEvent pretty s (SE_Permission_Request requestId toolName input) =
     push s ((message K_Permission (Plain []))
       \<lparr>cm_permission := Some \<lparr>pc_requestId = requestId, pc_toolName = toolName, pc_input = input,
          pc_decision = Pending\<rparr>\<rparr>)"

fun chatReducer :: "(json \<Rightarrow> string) \<Rightarrow> chat_state \<Rightarrow> chat_action \<Rightarrow> chat_state" where
  "chatReducer pretty s (Act_Send name text) =
     (push s ((message K_Me (Plain text))\<lparr>cm_name := Some name\<rparr>))\<lparr>cs_responding := True, cs_thinking := []\<rparr>"
| "chatReducer pretty s (Act_System text) = push s (message K_System (Plain text))"
| "chatReducer pretty s (Act_Permission_Decide requestId allow) = decidePermission s requestId allow"
| "chatReducer pretty s (Act_Event event) = applyEvent pretty s event"

section \<open>Invariant\<close>

definition message_ok :: "chat_message \<Rightarrow> bool" where
  "message_ok m \<longleftrightarrow>
     (cm_activity m \<noteq> None \<longleftrightarrow> cm_kind m = K_Activity) \<and>
     (cm_permission m \<noteq> None \<longleftrightarrow> cm_kind m = K_Permission)"

definition chat_ok :: "chat_state \<Rightarrow> bool" where
  "chat_ok s \<longleftrightarrow> map cm_id (cs_messages s) = [1..<cs_nextId s] \<and> 1 \<le> cs_nextId s \<and>
     (\<forall>m \<in> set (cs_messages s). message_ok m)"

text \<open>How a message may change once it is in the transcript.\<close>

definition activity_evolves :: "tool_activity option \<Rightarrow> tool_activity option \<Rightarrow> bool" where
  "activity_evolves x y \<longleftrightarrow> y = x \<or>
     (\<exists>a r. x = Some a \<and> \<not> ta_hasResult a \<and> y = Some (a\<lparr>ta_hasResult := True, ta_result := Some r\<rparr>))"

definition card_evolves :: "permission_card option \<Rightarrow> permission_card option \<Rightarrow> bool" where
  "card_evolves x y \<longleftrightarrow> y = x \<or>
     (\<exists>p d. x = Some p \<and> pc_decision p = Pending \<and> d \<noteq> Pending \<and> y = Some (p\<lparr>pc_decision := d\<rparr>))"

definition evolves :: "chat_message \<Rightarrow> chat_message \<Rightarrow> bool" where
  "evolves m m' \<longleftrightarrow>
     cm_id m' = cm_id m \<and> cm_kind m' = cm_kind m \<and> cm_name m' = cm_name m \<and> cm_text m' = cm_text m \<and>
     activity_evolves (cm_activity m) (cm_activity m') \<and> card_evolves (cm_permission m) (cm_permission m')"

lemmas evolves_defs = evolves_def activity_evolves_def card_evolves_def

definition extends :: "chat_message list \<Rightarrow> chat_message list \<Rightarrow> bool" where
  "extends ms ms' \<longleftrightarrow> length ms \<le> length ms' \<and> list_all2 evolves ms (take (length ms) ms')"

lemma evolves_refl [simp, intro]: "evolves m m"
  by (simp add: evolves_defs)

lemma activity_evolves_trans: "activity_evolves x y \<Longrightarrow> activity_evolves y z \<Longrightarrow> activity_evolves x z"
  unfolding activity_evolves_def by (elim disjE exE conjE) auto

lemma card_evolves_trans: "card_evolves x y \<Longrightarrow> card_evolves y z \<Longrightarrow> card_evolves x z"
  unfolding card_evolves_def by (elim disjE exE conjE) auto

lemma evolves_trans: "evolves a b \<Longrightarrow> evolves b c \<Longrightarrow> evolves a c"
  unfolding evolves_def by (auto intro: activity_evolves_trans card_evolves_trans)

lemma extends_nth:
  "extends ms ms' \<longleftrightarrow> length ms \<le> length ms' \<and> (\<forall>i < length ms. evolves (ms ! i) (ms' ! i))"
  by (auto simp: extends_def list_all2_conv_all_nth min_def)

lemma extends_refl [simp, intro]: "extends ms ms"
  by (simp add: extends_nth)

lemma extends_trans: "extends a b \<Longrightarrow> extends b c \<Longrightarrow> extends a c"
  unfolding extends_nth by (meson evolves_trans le_trans less_le_trans)

lemma extends_append [simp, intro]: "extends ms (ms @ rest)"
  by (simp add: extends_nth nth_append)

lemma evolves_decide: "evolves m (decide_message r allow m)"
  by (auto simp: decide_message_def evolves_defs split: option.splits)

lemma evolves_with_result: "awaiting_result m \<Longrightarrow> evolves m (with_result r m)"
  by (cases "cm_activity m") (auto simp: awaiting_result_def with_result_def evolves_defs)

lemma extends_attach: "i \<le> length ms \<Longrightarrow> extends ms (attach_from i r ms)"
proof (induction i)
  case (Suc i)
  then show ?case
    by (auto simp: extends_nth nth_list_update intro: evolves_with_result)
qed simp

lemma evolves_ok: "evolves m m' \<Longrightarrow> message_ok m \<Longrightarrow> message_ok m'"
  by (auto simp: evolves_defs message_ok_def)

text \<open>A change within the transcript keeps the ids and the shape; an append extends them.\<close>

lemma chat_ok_evolve:
  assumes "chat_ok s" "list_all2 evolves (cs_messages s) ms"
  shows "chat_ok (s\<lparr>cs_messages := ms\<rparr>)"
proof -
  have "map cm_id ms = map cm_id (cs_messages s)"
    using assms(2) by (induction rule: list_all2_induct) (auto simp: evolves_def)
  moreover have "\<forall>m \<in> set ms. message_ok m"
    using assms unfolding chat_ok_def list_all2_conv_all_nth by (metis evolves_ok in_set_conv_nth)
  ultimately show ?thesis using assms(1) by (simp add: chat_ok_def)
qed

lemma chat_ok_push: "chat_ok s \<Longrightarrow> message_ok m \<Longrightarrow> chat_ok (push s m)"
  by (auto simp: chat_ok_def push_def message_ok_def)

lemma chat_ok_fields [simp]:
  "chat_ok (s\<lparr>cs_streaming := a\<rparr>) = chat_ok s" "chat_ok (s\<lparr>cs_responding := b\<rparr>) = chat_ok s"
  "chat_ok (s\<lparr>cs_thinking := a\<rparr>) = chat_ok s" "chat_ok (s\<lparr>cs_sessionId := a\<rparr>) = chat_ok s"
  "chat_ok (s\<lparr>cs_hostUp := b\<rparr>) = chat_ok s"
  by (simp_all add: chat_ok_def)

lemma message_ok_plain [simp]: "message_ok (message k t) \<longleftrightarrow> k \<noteq> K_Activity \<and> k \<noteq> K_Permission"
  by (auto simp: message_ok_def message_def)

lemma push_messages [simp]:
  "cs_messages (push s m) = cs_messages s @ [m\<lparr>cm_id := cs_nextId s\<rparr>]"
  "cs_nextId (push s m) = Suc (cs_nextId s)"
  by (simp_all add: push_def)

lemma chat_ok_flush: "chat_ok s \<Longrightarrow> chat_ok (flushStreaming s k)"
  by (simp add: flushStreaming_def Let_def chat_ok_push)

lemma flush_extends: "extends (cs_messages s) (cs_messages (flushStreaming s k))"
  by (simp add: flushStreaming_def Let_def)

lemma flush_session [simp]:
  "cs_messages (flushStreaming (s\<lparr>cs_sessionId := i\<rparr>) k) = cs_messages (flushStreaming s k)"
  by (simp add: flushStreaming_def push_def Let_def)

lemma list_all2_attach: "list_all2 evolves ms (attach_from (length ms) r ms)"
proof -
  have len: "length (attach_from i r ms) = length ms" for i by (induction i) auto
  show ?thesis using extends_attach [of "length ms" ms r] by (simp add: extends_def len)
qed

lemma chat_ok_step: "chat_ok s \<Longrightarrow> chat_ok (chatReducer pretty s a)"
proof (cases a)
  case (Act_Permission_Decide r b)
  assume "chat_ok s"
  moreover have "list_all2 evolves (cs_messages s) (map (decide_message r b) (cs_messages s))"
    by (simp add: list_all2_conv_all_nth evolves_decide)
  ultimately show ?thesis using Act_Permission_Decide by (simp add: decidePermission_def chat_ok_evolve)
next
  case (Act_Event e)
  assume ok: "chat_ok s"
  then show ?thesis
    unfolding Act_Event chatReducer.simps
    by (cases e)
       (simp_all add: finalizeStreaming_def chat_ok_flush chat_ok_push attachToolResult_def chat_ok_evolve
         list_all2_attach message_ok_def message_def)
qed (auto intro!: chat_ok_push simp: message_ok_def message_def)

lemma step_extends: "extends (cs_messages s) (cs_messages (chatReducer pretty s a))"
proof (cases a)
  case (Act_Permission_Decide r b)
  then show ?thesis by (simp add: decidePermission_def extends_nth evolves_decide)
next
  case (Act_Event e)
  then show ?thesis
    by (cases e)
       (auto simp: finalizeStreaming_def attachToolResult_def extends_attach
         intro: extends_trans [OF flush_extends] flush_extends)
qed auto

interpretation chat: monotone_machine "chatReducer pretty" chat_ok "\<lambda>s. length (cs_messages s)" for pretty
  using step_extends by unfold_locales (auto simp: chat_ok_step extends_def)

lemma run_extends: "extends (cs_messages s) (cs_messages (foldl (chatReducer pretty) s as))"
  by (induction as arbitrary: s) (auto intro: extends_trans [OF step_extends])

section \<open>Streaming\<close>

lemma deltas_accumulate:
  "foldl (chatReducer pretty) s (map (\<lambda>t. Act_Event (SE_Text t)) ts) =
     (if ts = [] then s else s\<lparr>cs_responding := True, cs_streaming := cs_streaming s @ concat ts\<rparr>)"
  by (induction ts arbitrary: s) auto

text \<open>The last message that awaits a result.\<close>

lemma attach_from_last:
  assumes "j < i" "awaiting_result (ms ! j)" "\<forall>k. j < k \<and> k < i \<longrightarrow> \<not> awaiting_result (ms ! k)"
  shows "attach_from i r ms = ms[j := with_result r (ms ! j)]"
  using assms
proof (induction i)
  case (Suc i)
  then show ?case by (cases "j = i") auto
qed simp

lemma attach_from_none: "\<forall>k < i. \<not> awaiting_result (ms ! k) \<Longrightarrow> attach_from i r ms = ms"
  by (induction i) auto

section \<open>Properties\<close>

text \<open>
  After any sequence of server events, sends, banners and decisions the message ids are
  1, 2, 3, \<open>\<dots>\<close> without a gap or a repetition, the next id is fresh, and a message has an activity
  exactly when it is an activity line and a permission card exactly when it is an approval request.
\<close>

theorem chat_ids_and_shape:
  fixes pretty as
  defines "s \<equiv> foldl (chatReducer pretty) initialChatState as"
  shows "map cm_id (cs_messages s) = [1..<length (cs_messages s) + 1] \<and>
    cs_nextId s = length (cs_messages s) + 1 \<and>
    (\<forall>m. m \<in> set (cs_messages s) \<longrightarrow>
      (cm_activity m \<noteq> None \<longleftrightarrow> cm_kind m = K_Activity) \<and>
      (cm_permission m \<noteq> None \<longleftrightarrow> cm_kind m = K_Permission))"
proof -
  have "chat_ok initialChatState" by (simp add: chat_ok_def initialChatState_def)
  then have ok: "chat_ok s" unfolding s_def by (rule chat.run_inv)
  then have "length (cs_messages s) = cs_nextId s - 1" by (metis chat_ok_def length_map length_upt)
  with ok show ?thesis by (simp add: chat_ok_def message_ok_def)
qed

theorem chat_ids_and_shape_witness:
  "map cm_id (cs_messages (foldl (chatReducer (\<lambda>_. [])) initialChatState
     [Act_Send ''me'' ''hi'', Act_Event (SE_Text ''a''), Act_Event SE_Aborted])) = [1, 2, 3]"
  using chat_ids_and_shape [of "\<lambda>_. []" "[Act_Send ''me'' ''hi'', Act_Event (SE_Text ''a''), Act_Event SE_Aborted]"]
  by (simp add: initialChatState_def push_def finalizeStreaming_def flushStreaming_def message_def js_trim_def
      js_space_def)

text \<open>
  The transcript is append-only. Whatever happens later, a message keeps its place, id,
  kind, speaker and text; a tool line that has its result keeps it; and an approval that was decided
  is never reopened or reversed.
\<close>

theorem transcript_is_append_only:
  fixes i :: nat and s pretty as
  assumes "i < length (cs_messages s)"
  defines "s' \<equiv> foldl (chatReducer pretty) s as"
  defines "m \<equiv> cs_messages s ! i" and "m' \<equiv> cs_messages s' ! i"
  shows "i < length (cs_messages s') \<and> cm_id m' = cm_id m \<and> cm_kind m' = cm_kind m \<and>
    cm_name m' = cm_name m \<and> cm_text m' = cm_text m \<and>
    (\<forall>a. cm_activity m = Some a \<and> ta_hasResult a \<longrightarrow> cm_activity m' = Some a) \<and>
    (\<forall>p. cm_permission m = Some p \<and> pc_decision p \<noteq> Pending \<longrightarrow> cm_permission m' = Some p)"
proof -
  have "extends (cs_messages s) (cs_messages s')" unfolding s'_def by (rule run_extends)
  then have "i < length (cs_messages s')" "evolves m m'"
    using assms(1) by (auto simp: extends_nth m_def m'_def)
  then show ?thesis by (auto simp: evolves_defs)
qed

theorem transcript_is_append_only_witness:
  "cm_text (cs_messages (foldl (chatReducer (\<lambda>_. [])) (push initialChatState (message K_System (Plain ''x'')))
     [Act_Event SE_Aborted]) ! 0) = Plain ''x''"
  using transcript_is_append_only [of 0 "push initialChatState (message K_System (Plain ''x''))" "\<lambda>_. []"
      "[Act_Event SE_Aborted]"]
  by (simp add: initialChatState_def message_def)

text \<open>
  A streamed answer is reassembled exactly. However the answer is cut into deltas, at the
  end of the turn the transcript has grown by one Claude message with the trimmed concatenation of
  what was pending and all deltas, or not at all when that is blank; the stream and the thinking text
  are empty, the turn is over, and the session id is the announced one.
\<close>

theorem streamed_turn_is_reassembled:
  fixes pretty s ts i
  defines "s' \<equiv> foldl (chatReducer pretty) s (map (\<lambda>t. Act_Event (SE_Text t)) ts @ [Act_Event (SE_Done i)])"
    and "answer \<equiv> js_trim (cs_streaming s @ concat ts)"
  shows "cs_messages s' = cs_messages s @
      (if answer = [] then [] else [(message K_Claude (Plain answer))\<lparr>cm_id := cs_nextId s\<rparr>]) \<and>
    cs_streaming s' = [] \<and> cs_thinking s' = [] \<and> \<not> cs_responding s' \<and>
    cs_sessionId s' = (if i = [] then cs_sessionId s else i)"
  unfolding s'_def answer_def
  by (simp add: deltas_accumulate finalizeStreaming_def flushStreaming_def push_def Let_def)

text \<open>
  A tool result annotates the most recent call that has none, and nothing else; a result
  with no open call changes nothing. Two calls that are answered in call order therefore end up with
  each other's results.
\<close>

theorem tool_result_goes_to_latest_open_call:
  assumes "j < length (cs_messages s)" "awaiting_result (cs_messages s ! j)"
    and "\<forall>k. j < k \<and> k < length (cs_messages s) \<longrightarrow> \<not> awaiting_result (cs_messages s ! k)"
  shows "chatReducer pretty s (Act_Event (SE_Tool_Result content)) =
    s\<lparr>cs_messages := (cs_messages s)[j :=
       with_result (renderToolResultContent pretty content) (cs_messages s ! j)]\<rparr>"
  using attach_from_last [OF assms(1,2)] assms(3) by (simp add: attachToolResult_def)

theorem tool_result_goes_to_latest_open_call_witness:
  "map (\<lambda>m. Option.bind (cm_activity m) ta_result) (cs_messages
     (chatReducer (\<lambda>_. [])
       (foldl (chatReducer (\<lambda>_. [])) initialChatState
         [Act_Event (SE_Tool_Call ''A'' None), Act_Event (SE_Tool_Call ''B'' None)])
       (Act_Event (SE_Tool_Result (Some (JStr ''result of A'')))))) = [None, Some ''result of A'']"
proof -
  let ?s = "foldl (chatReducer (\<lambda>_. [])) initialChatState
         [Act_Event (SE_Tool_Call ''A'' None), Act_Event (SE_Tool_Call ''B'' None)]"
  have two: "length (cs_messages ?s) = 2" "awaiting_result (cs_messages ?s ! 1)"
    by (simp_all add: initialChatState_def flushStreaming_def push_def message_def awaiting_result_def Let_def)
  have lt: "1 < length (cs_messages ?s)" unfolding two(1) by simp
  have "\<forall>k. 1 < k \<and> k < length (cs_messages ?s) \<longrightarrow> \<not> awaiting_result (cs_messages ?s ! k)"
    unfolding two(1) by auto
  note eq = tool_result_goes_to_latest_open_call [OF lt two(2) this]
  show ?thesis
    unfolding eq
    by (simp add: initialChatState_def flushStreaming_def push_def message_def with_result_def Let_def)
qed

end
