(* ===== verification/Desktop_Terminal.thy ===== *)
theory Desktop_Terminal
  imports Relay_Prelude
begin

text \<open>
  The terminal stream of the desktop client: the sequence tracker that decides which output frames
  are painted (\<open>desktop/src/terminal-stream.ts\<close>), and the scheduler that feeds the terminal in
  bounded chunks (\<open>desktop/src/terminal-output-scheduler.ts\<close>). The scheduler is a machine over its
  method calls, the parser callbacks of the terminal and the timers; every callback carries the
  generation that its closure captured.
\<close>

section \<open>Sequence tracker\<close>

record sequenced_frame =
  sf_incarnationId :: "string option"
  sf_seq :: "jsnum option"

datatype stream_decision = Apply | Snapshot | Duplicate | Gap

record stream_tracker =
  st_incarnationId :: string
  st_lastSeq :: int
  st_awaitingSnapshot :: bool

definition tracker_new :: stream_tracker where
  "tracker_new = \<lparr>st_incarnationId = [], st_lastSeq = 0, st_awaitingSnapshot = False\<rparr>"

text \<open>The metadata of a frame: a non-empty incarnation and a safe integer at least \<open>lo\<close>.\<close>

definition frame_position :: "int \<Rightarrow> sequenced_frame \<Rightarrow> (string \<times> int) option" where
  "frame_position lo f =
     (case (sf_incarnationId f, sf_seq f) of
        (Some i, Some (Fin r)) \<Rightarrow>
          (if i \<noteq> [] \<and> num_is_safe_integer (Fin r) \<and> r \<ge> of_int lo then Some (i, floor r) else None)
      | _ \<Rightarrow> None)"

definition acceptOutput :: "sequenced_frame \<Rightarrow> stream_tracker \<Rightarrow> stream_decision \<times> stream_tracker" where
  "acceptOutput frame t =
     (case frame_position 1 frame of
        None \<Rightarrow> (Apply, t)
      | Some (inc, sq) \<Rightarrow>
          if st_incarnationId t = []
          then (if sq \<noteq> 1
                then (Gap, t\<lparr>st_incarnationId := inc, st_awaitingSnapshot := True\<rparr>)
                else (Apply, t\<lparr>st_incarnationId := inc, st_lastSeq := sq\<rparr>))
          else if inc \<noteq> st_incarnationId t
          then (Gap, t\<lparr>st_incarnationId := inc, st_lastSeq := 0, st_awaitingSnapshot := True\<rparr>)
          else if st_awaitingSnapshot t then (Duplicate, t)
          else if sq \<le> st_lastSeq t then (Duplicate, t)
          else if sq \<noteq> st_lastSeq t + 1 then (Gap, t\<lparr>st_awaitingSnapshot := True\<rparr>)
          else (Apply, t\<lparr>st_lastSeq := sq\<rparr>))"

definition acceptSnapshot :: "sequenced_frame \<Rightarrow> stream_tracker \<Rightarrow> stream_decision \<times> stream_tracker" where
  "acceptSnapshot frame t =
     (let t' = (case frame_position 0 frame of
                  Some (inc, sq) \<Rightarrow> t\<lparr>st_incarnationId := inc, st_lastSeq := sq\<rparr>
                | None \<Rightarrow> t)
      in (Snapshot, t'\<lparr>st_awaitingSnapshot := False\<rparr>))"

definition resumeCursor :: "stream_tracker \<Rightarrow> (string \<times> int) option" where
  "resumeCursor t = (if st_incarnationId t \<noteq> [] then Some (st_incarnationId t, st_lastSeq t) else None)"

text \<open>A run of output frames: the positions that were painted, in order, and the final tracker.\<close>

fun paint :: "stream_tracker \<Rightarrow> sequenced_frame list \<Rightarrow> (string \<times> int) list \<times> stream_tracker" where
  "paint t [] = ([], t)"
| "paint t (f # fs) =
     (let (d, t') = acceptOutput f t; (ps, t'') = paint t' fs
      in (case (d, frame_position 1 f) of (Apply, Some p) \<Rightarrow> p # ps | _ \<Rightarrow> ps, t''))"

section \<open>Output scheduler\<close>

record scheduler_options =
  so_maxForegroundBytes :: nat
  so_maxBackgroundBytes :: nat
  so_chunkBytes :: nat
  so_stallMs :: nat

definition DEFAULT_SCHEDULER_OPTIONS :: scheduler_options where
  "DEFAULT_SCHEDULER_OPTIONS =
     \<lparr>so_maxForegroundBytes = 4 * 1024 * 1024, so_maxBackgroundBytes = 1024 * 1024,
      so_chunkBytes = 16 * 1024, so_stallMs = 5000\<rparr>"

record output_scheduler =
  os_queue :: "bytes list"
  os_queuedBytes :: int
  os_writing :: bool
  os_disposed :: bool
  os_generation :: nat
  os_stallTimer :: "nat option" \<comment> \<open>the generation its callback captured\<close>

definition scheduler_new :: output_scheduler where
  "scheduler_new =
     \<lparr>os_queue = [], os_queuedBytes = 0, os_writing = False, os_disposed = False, os_generation = 0,
      os_stallTimer = None\<rparr>"

text \<open>What the scheduler asks of its environment.\<close>

datatype scheduler_effect =
    Term_Write nat bytes \<comment> \<open>with the generation of its callback\<close>
  | Later_Pump
  | On_Overflow
  | On_Stall

definition recover :: "output_scheduler \<Rightarrow> output_scheduler" where
  "recover s =
     s\<lparr>os_generation := os_generation s + 1, os_queue := [], os_queuedBytes := 0, os_writing := False,
       os_stallTimer := None\<rparr>"

definition dispose :: "output_scheduler \<Rightarrow> output_scheduler" where
  "dispose s = recover (s\<lparr>os_disposed := True\<rparr>)"

definition sched_pump :: "scheduler_options \<Rightarrow> output_scheduler \<Rightarrow> output_scheduler \<times> scheduler_effect list" where
  "sched_pump opt s =
     (if os_disposed s \<or> os_writing s then (s, [])
      else case os_queue s of
          [] \<Rightarrow> (s, [])
        | head # rest \<Rightarrow>
            (let chunk = (if length head \<le> so_chunkBytes opt then head else take (so_chunkBytes opt) head);
                 queue = (if length chunk = length head then rest else drop (length chunk) head # rest)
             in (s\<lparr>os_queue := queue, os_queuedBytes := os_queuedBytes s - int (length chunk),
                   os_writing := True, os_stallTimer := Some (os_generation s)\<rparr>,
                 [Term_Write (os_generation s) chunk])))"

definition sched_enqueue ::
  "scheduler_options \<Rightarrow> bytes \<Rightarrow> bool \<Rightarrow> output_scheduler \<Rightarrow> bool \<times> output_scheduler \<times> scheduler_effect list" where
  "sched_enqueue opt data background s =
     (if os_disposed s \<or> data = [] then (\<not> os_disposed s, s, [])
      else (let limit = (if background then so_maxBackgroundBytes opt else so_maxForegroundBytes opt) in
            if os_queuedBytes s + int (length data) > int limit then (False, recover s, [On_Overflow])
            else (let (s', effs) = sched_pump opt
                    (s\<lparr>os_queue := os_queue s @ [data], os_queuedBytes := os_queuedBytes s + int (length data)\<rparr>)
                  in (True, s', effs))))"

text \<open>The callback of \<open>terminal.write\<close> and the callback of the stall timer.\<close>

definition write_done :: "nat \<Rightarrow> output_scheduler \<Rightarrow> output_scheduler \<times> scheduler_effect list" where
  "write_done generation s =
     (if generation \<noteq> os_generation s \<or> os_disposed s then (s, [])
      else (s\<lparr>os_stallTimer := None, os_writing := False\<rparr>, [Later_Pump]))"

definition stall_fired :: "nat \<Rightarrow> output_scheduler \<Rightarrow> output_scheduler \<times> scheduler_effect list" where
  "stall_fired generation s =
     (if os_disposed s \<or> generation \<noteq> os_generation s \<or> \<not> os_writing s then (s, [])
      else (recover s, [On_Stall]))"

datatype scheduler_event =
    Enqueue bytes bool
  | Write_Done nat
  | Stall_Fired nat
  | Pump_Timer
  | Recover
  | Dispose

fun sched_step :: "scheduler_options \<Rightarrow> output_scheduler \<Rightarrow> scheduler_event \<Rightarrow> output_scheduler \<times> scheduler_effect list" where
  "sched_step opt s (Enqueue data background) = snd (sched_enqueue opt data background s)"
| "sched_step opt s (Write_Done g) = write_done g s"
| "sched_step opt s (Stall_Fired g) = stall_fired g s"
| "sched_step opt s Pump_Timer = sched_pump opt s"
| "sched_step opt s Recover = (recover s, [])"
| "sched_step opt s Dispose = (dispose s, [])"

text \<open>A run with its history: the bytes accepted and the bytes written in the current generation.\<close>

record sched_history =
  sh_state :: output_scheduler
  sh_accepted :: bytes
  sh_written :: bytes

definition written_now :: "scheduler_effect list \<Rightarrow> bytes" where
  "written_now effs = concat (map (\<lambda>e. case e of Term_Write _ bs \<Rightarrow> bs | _ \<Rightarrow> []) effs)"

definition accepted_now :: "scheduler_options \<Rightarrow> output_scheduler \<Rightarrow> scheduler_event \<Rightarrow> bytes" where
  "accepted_now opt s e =
     (case e of
        Enqueue data background \<Rightarrow>
          (if os_disposed s \<or> \<not> fst (sched_enqueue opt data background s) then [] else data)
      | _ \<Rightarrow> [])"

definition sched_history_step :: "scheduler_options \<Rightarrow> sched_history \<Rightarrow> scheduler_event \<Rightarrow> sched_history" where
  "sched_history_step opt h e =
     (let s = sh_state h; (s', effs) = sched_step opt s e in
      if os_generation s' \<noteq> os_generation s then \<lparr>sh_state = s', sh_accepted = [], sh_written = []\<rparr>
      else \<lparr>sh_state = s', sh_accepted = sh_accepted h @ accepted_now opt s e,
            sh_written = sh_written h @ written_now effs\<rparr>)"

definition sched_history_new :: sched_history where
  "sched_history_new = \<lparr>sh_state = scheduler_new, sh_accepted = [], sh_written = []\<rparr>"

section \<open>Lemmas\<close>

lemma frame_position_ge: "frame_position lo f = Some (i, n) \<Longrightarrow> lo \<le> n \<and> i \<noteq> []"
  by (auto simp: frame_position_def le_floor_iff split: option.splits jsnum.splits if_splits)

text \<open>While a snapshot is awaited, no sequenced frame is painted.\<close>

lemma paint_awaiting:
  assumes "st_awaitingSnapshot t" "st_incarnationId t \<noteq> []"
  shows "fst (paint t fs) = []"
  using assms
proof (induction fs arbitrary: t)
  case (Cons f fs)
  show ?case
  proof (cases "frame_position 1 f")
    case None
    with Cons show ?thesis by (auto simp: acceptOutput_def split_beta Let_def)
  next
    case (Some p)
    obtain i n where p: "p = (i, n)" by fastforce
    have "i \<noteq> []" using Some p frame_position_ge by blast
    with Cons Some p show ?thesis by (auto simp: acceptOutput_def split_beta Let_def)
  qed
qed simp

text \<open>From a tracker that follows an incarnation, the painted frames continue its cursor.\<close>

lemma paint_follows:
  assumes "st_incarnationId t \<noteq> []"
  shows "\<exists>k. fst (paint t fs) = map (\<lambda>j. (st_incarnationId t, st_lastSeq t + 1 + int j)) [0..<k]"
  using assms
proof (induction fs arbitrary: t)
  case Nil
  show ?case by (intro exI [of _ 0]) simp
next
  case (Cons f fs)
  show ?case
  proof (cases "frame_position 1 f")
    case None
    with Cons show ?thesis by (auto simp: acceptOutput_def split_beta Let_def)
  next
    case (Some p)
    obtain i n where p: "p = (i, n)" by fastforce
    have i: "i \<noteq> []" using Some p frame_position_ge by blast
    consider (nxt) "i = st_incarnationId t" "\<not> st_awaitingSnapshot t" "n = st_lastSeq t + 1"
      | (gap) "i \<noteq> st_incarnationId t \<or> (\<not> st_awaitingSnapshot t \<and> n > st_lastSeq t + 1)"
      | (dup) "i = st_incarnationId t" "st_awaitingSnapshot t \<or> n \<le> st_lastSeq t"
      by fastforce
    then show ?thesis
    proof cases
      case nxt
      let ?t = "t\<lparr>st_lastSeq := n\<rparr>"
      obtain k where "fst (paint ?t fs) = map (\<lambda>j. (st_incarnationId ?t, st_lastSeq ?t + 1 + int j)) [0..<k]"
        using Cons.IH [of ?t] Cons.prems by auto
      then have "fst (paint t (f # fs)) =
          map (\<lambda>j. (st_incarnationId t, st_lastSeq t + 1 + int j)) (0 # map Suc [0..<k])"
        using Some p nxt Cons.prems by (auto simp: acceptOutput_def split_beta Let_def)
      then show ?thesis by (intro exI [of _ "Suc k"]) (simp add: map_Suc_upt upt_conv_Cons)
    next
      case gap
      then have "fst (paint t (f # fs)) = []"
        using Some p Cons.prems i paint_awaiting by (auto simp: acceptOutput_def split_beta Let_def)
      then show ?thesis by (intro exI [of _ 0]) simp
    next
      case dup
      with Some p Cons show ?thesis by (auto simp: acceptOutput_def split_beta Let_def)
    qed
  qed
qed

subsection \<open>The scheduler invariant\<close>

definition sched_inv :: "scheduler_options \<Rightarrow> sched_history \<Rightarrow> bool" where
  "sched_inv opt h \<longleftrightarrow>
     (let s = sh_state h in
      os_queuedBytes s = int (length (concat (os_queue s))) \<and> [] \<notin> set (os_queue s) \<and>
      length (concat (os_queue s)) \<le> max (so_maxForegroundBytes opt) (so_maxBackgroundBytes opt) \<and>
      sh_accepted h = sh_written h @ concat (os_queue s) \<and>
      (os_disposed s \<longrightarrow> os_queue s = [] \<and> \<not> os_writing s) \<and>
      os_stallTimer s = (if os_writing s then Some (os_generation s) else None))"

lemma sched_inv_new: "sched_inv opt sched_history_new"
  by (simp add: sched_inv_def sched_history_new_def scheduler_new_def)

lemma recover_simps [simp]:
  "os_queue (recover s) = []" "os_queuedBytes (recover s) = 0" "os_writing (recover s) = False"
  "os_disposed (recover s) = os_disposed s" "os_generation (recover s) = Suc (os_generation s)"
  "os_stallTimer (recover s) = None"
  by (simp_all add: recover_def)

text \<open>One pump moves a prefix of the queued bytes to the terminal.\<close>

lemma sched_pump_cases:
  "sched_pump opt s = (s, []) \<and> (os_disposed s \<or> os_writing s \<or> os_queue s = []) \<or>
   (\<exists>chunk queue. sched_pump opt s =
       (s\<lparr>os_queue := queue, os_queuedBytes := os_queuedBytes s - int (length chunk),
          os_writing := True, os_stallTimer := Some (os_generation s)\<rparr>, [Term_Write (os_generation s) chunk]) \<and>
     \<not> os_disposed s \<and> \<not> os_writing s \<and> length chunk \<le> so_chunkBytes opt \<and>
     concat (os_queue s) = chunk @ concat queue \<and>
     ([] \<notin> set (os_queue s) \<longrightarrow> [] \<notin> set queue \<and> (0 < so_chunkBytes opt \<longrightarrow> chunk \<noteq> [])))"
proof (cases "os_disposed s \<or> os_writing s \<or> os_queue s = []")
  case True
  then show ?thesis by (auto simp: sched_pump_def split: list.splits)
next
  case False
  then obtain head rest where q: "os_queue s = head # rest" by (auto simp: neq_Nil_conv)
  show ?thesis
  proof (cases "length head \<le> so_chunkBytes opt")
    case True
    with False q show ?thesis by (intro disjI2 exI [of _ head] exI [of _ rest]) (auto simp: sched_pump_def)
  next
    case long: False
    with False q show ?thesis
      by (intro disjI2 exI [of _ "take (so_chunkBytes opt) head"] exI [of _ "drop (so_chunkBytes opt) head # rest"])
         (auto simp: sched_pump_def Let_def)
  qed
qed

lemma sched_pump_inv:
  assumes inv: "sched_inv opt h" and s: "s = sh_state h" and p: "sched_pump opt s = (s', effs)"
  shows "sched_inv opt (h\<lparr>sh_state := s', sh_written := sh_written h @ written_now effs\<rparr>) \<and>
    os_generation s' = os_generation s"
proof -
  have "(s' = s \<and> effs = []) \<or> (\<exists>chunk queue.
      s' = s\<lparr>os_queue := queue, os_queuedBytes := os_queuedBytes s - int (length chunk),
         os_writing := True, os_stallTimer := Some (os_generation s)\<rparr> \<and>
      effs = [Term_Write (os_generation s) chunk] \<and> \<not> os_disposed s \<and>
      concat (os_queue s) = chunk @ concat queue \<and> [] \<notin> set queue)"
    using sched_pump_cases [of opt s] p inv s by (auto simp: sched_inv_def Let_def)
  then show ?thesis
  proof (elim disjE exE conjE)
    assume "s' = s" "effs = []"
    with inv s show ?thesis by (simp add: sched_inv_def written_now_def)
  next
    fix chunk queue
    assume a: "s' = s\<lparr>os_queue := queue, os_queuedBytes := os_queuedBytes s - int (length chunk),
         os_writing := True, os_stallTimer := Some (os_generation s)\<rparr>"
      "effs = [Term_Write (os_generation s) chunk]" "\<not> os_disposed s"
      "concat (os_queue s) = chunk @ concat queue" "[] \<notin> set queue"
    have "os_queuedBytes s = int (length chunk + length (concat queue))"
      "length chunk + length (concat queue) \<le> max (so_maxForegroundBytes opt) (so_maxBackgroundBytes opt)"
      "sh_accepted h = sh_written h @ chunk @ concat queue"
      using inv a(4) s by (simp_all add: sched_inv_def Let_def)
    with a show ?thesis by (simp add: sched_inv_def written_now_def)
  qed
qed

lemma sched_history_step_inv:
  assumes inv: "sched_inv opt h"
  shows "sched_inv opt (sched_history_step opt h e)"
proof -
  let ?s = "sh_state h"
  have rec: "sched_inv opt \<lparr>sh_state = recover t, sh_accepted = [], sh_written = []\<rparr>" for t
    by (simp add: sched_inv_def)
  have pump: "sched_inv opt (h\<lparr>sh_state := s', sh_written := sh_written h @ written_now effs\<rparr>) \<and>
      os_generation s' = os_generation ?s" if "sched_pump opt ?s = (s', effs)" for s' effs
    using sched_pump_inv [OF inv refl that] .
  show ?thesis
  proof (cases e)
    case (Enqueue data bg)
    let ?limit = "if bg then so_maxBackgroundBytes opt else so_maxForegroundBytes opt"
    consider "os_disposed ?s \<or> data = []" | "\<not> (os_disposed ?s \<or> data = [])" "os_queuedBytes ?s + int (length data) > int ?limit"
      | "\<not> (os_disposed ?s \<or> data = [])" "\<not> os_queuedBytes ?s + int (length data) > int ?limit" by blast
    then show ?thesis
    proof cases
      case 1
      with inv Enqueue show ?thesis
        by (auto simp: sched_history_step_def sched_enqueue_def accepted_now_def written_now_def sched_inv_def Let_def)
    next
      case 2
      with Enqueue rec show ?thesis by (simp add: sched_history_step_def sched_enqueue_def)
    next
      case 3
      let ?t = "?s\<lparr>os_queue := os_queue ?s @ [data], os_queuedBytes := os_queuedBytes ?s + int (length data)\<rparr>"
      let ?h = "h\<lparr>sh_state := ?t, sh_accepted := sh_accepted h @ data\<rparr>"
      have "length (concat (os_queue ?s)) + length data \<le> ?limit"
        using 3(2) inv by (auto simp: sched_inv_def Let_def split: if_splits)
      then have h: "sched_inv opt ?h" using inv 3(1) by (auto simp: sched_inv_def Let_def split: if_splits)
      obtain s' effs where p: "sched_pump opt ?t = (s', effs)" by fastforce
      have "sched_inv opt (?h\<lparr>sh_state := s', sh_written := sh_written ?h @ written_now effs\<rparr>) \<and>
          os_generation s' = os_generation ?t"
        by (rule sched_pump_inv [OF h _ p]) simp
      moreover have "sched_enqueue opt data bg ?s = (True, s', effs)" using 3 p by (simp add: sched_enqueue_def)
      ultimately show ?thesis using 3(1) Enqueue
        by (simp add: sched_history_step_def accepted_now_def sched_inv_def)
    qed
  next
    case (Write_Done g)
    with inv show ?thesis
      by (auto simp: sched_history_step_def write_done_def accepted_now_def written_now_def sched_inv_def Let_def)
  next
    case (Stall_Fired g)
    with inv rec show ?thesis
      by (auto simp: sched_history_step_def stall_fired_def accepted_now_def written_now_def sched_inv_def Let_def)
  next
    case Pump_Timer
    obtain s' effs where p: "sched_pump opt ?s = (s', effs)" by fastforce
    with pump [OF p] Pump_Timer show ?thesis
      by (simp add: sched_history_step_def accepted_now_def sched_inv_def)
  next
    case Recover
    with rec show ?thesis by (simp add: sched_history_step_def)
  next
    case Dispose
    with rec show ?thesis by (simp add: sched_history_step_def dispose_def)
  qed
qed

interpretation scheduler: event_machine "sched_history_step opt" "sched_inv opt" for opt
  by unfold_locales (rule sched_history_step_inv)

text \<open>One completed write and the pump after it.\<close>

definition tick :: "scheduler_options \<Rightarrow> sched_history \<Rightarrow> sched_history" where
  "tick opt h = foldl (sched_history_step opt) h [Write_Done (os_generation (sh_state h)), Pump_Timer]"

lemma tick_progress:
  assumes "sched_inv opt h" "0 < so_chunkBytes opt" "\<not> os_disposed (sh_state h)"
  shows "sched_inv opt (tick opt h) \<and> \<not> os_disposed (sh_state (tick opt h)) \<and>
    sh_accepted (tick opt h) = sh_accepted h \<and>
    length (concat (os_queue (sh_state (tick opt h)))) \<le> length (concat (os_queue (sh_state h))) - 1"
proof -
  let ?s = "(sh_state h)\<lparr>os_stallTimer := None, os_writing := False\<rparr>"
  let ?h = "sched_history_step opt h (Write_Done (os_generation (sh_state h)))"
  have h: "?h = h\<lparr>sh_state := ?s\<rparr>"
    using assms(3) by (simp add: sched_history_step_def write_done_def accepted_now_def written_now_def)
  have inv: "sched_inv opt (tick opt h)"
    using assms(1) by (simp add: tick_def sched_history_step_inv)
  obtain s' effs where p: "sched_pump opt ?s = (s', effs)" by fastforce
  have ne: "[] \<notin> set (os_queue ?s)" using assms(1) by (simp add: sched_inv_def Let_def)
  have "os_generation s' = os_generation ?s \<and> \<not> os_disposed s' \<and>
      length (concat (os_queue s')) \<le> length (concat (os_queue ?s)) - 1"
    using sched_pump_cases [of opt ?s] p assms(2,3) ne by (auto simp: neq_Nil_conv)
  with inv p h show ?thesis
    by (simp add: tick_def sched_history_step_def accepted_now_def)
qed

lemma ticks_drain:
  assumes "sched_inv opt h" "0 < so_chunkBytes opt" "\<not> os_disposed (sh_state h)"
    and "length (concat (os_queue (sh_state h))) \<le> n"
  shows "sh_written ((tick opt ^^ n) h) = sh_accepted h"
  using assms
proof (induction n arbitrary: h)
  case 0
  then show ?case by (simp add: sched_inv_def Let_def)
next
  case (Suc n)
  note t = tick_progress [OF Suc.prems(1-3)]
  have "sh_written ((tick opt ^^ n) (tick opt h)) = sh_accepted (tick opt h)"
    using Suc.IH [of "tick opt h"] t Suc.prems(2,4) by auto
  with t show ?case by (simp add: funpow_swap1)
qed

section \<open>Properties\<close>

text \<open>
  The screen never shows a stream with a hole in it. Whatever output frames arrive
  between two snapshots (lost, repeated, reordered, from another incarnation of the producer), the
  sequenced frames that are painted are all of the one incarnation that the tracker follows and their
  numbers continue its cursor without gap or repetition; a fresh tracker starts at 1.
\<close>

theorem painted_stream_has_no_gap:
  "\<exists>inc k. fst (paint t fs) = map (\<lambda>j. (inc, st_lastSeq t + 1 + int j)) [0..<k] \<and>
     (st_incarnationId t \<noteq> [] \<longrightarrow> inc = st_incarnationId t)" if "st_incarnationId t = [] \<longrightarrow> st_lastSeq t = 0"
proof (cases "st_incarnationId t = []")
  case False
  with paint_follows [OF False, of fs] show ?thesis by blast
next
  case True
  with that show ?thesis
  proof (induction fs arbitrary: t)
    case Nil
    show ?case by (intro exI [of _ "[]"] exI [of _ 0]) (simp add: Nil)
  next
    case (Cons f fs)
    have last: "st_lastSeq t = 0" using Cons.prems by simp
    show ?case
    proof (cases "frame_position 1 f")
      case None
      with Cons show ?thesis by (auto simp: acceptOutput_def split_beta Let_def)
    next
      case (Some p)
      obtain i n where p: "p = (i, n)" by fastforce
      have i: "i \<noteq> []" using Some p frame_position_ge by blast
      show ?thesis
      proof (cases "n = 1")
        case True
        let ?t = "t\<lparr>st_incarnationId := i, st_lastSeq := 1\<rparr>"
        obtain k where "fst (paint ?t fs) = map (\<lambda>j. (i, 2 + int j)) [0..<k]"
          using paint_follows [of ?t fs] i by auto
        then have "fst (paint t (f # fs)) = map (\<lambda>j. (i, st_lastSeq t + 1 + int j)) (0 # map Suc [0..<k])"
          using Some p True Cons.prems last by (auto simp: acceptOutput_def split_beta Let_def)
        then show ?thesis
          using Cons.prems by (intro exI [of _ i] exI [of _ "Suc k"]) (simp add: map_Suc_upt upt_conv_Cons)
      next
        case False
        then have "fst (paint t (f # fs)) = []"
          using Some p Cons.prems i paint_awaiting by (auto simp: acceptOutput_def split_beta Let_def)
        then show ?thesis using Cons.prems by (intro exI [of _ "[]"] exI [of _ 0]) simp
      qed
    qed
  qed
qed

theorem painted_stream_has_no_gap_witness:
  "\<exists>inc k. fst (paint tracker_new
      [\<lparr>sf_incarnationId = Some ''p'', sf_seq = Some (Fin 1)\<rparr>, \<lparr>sf_incarnationId = Some ''p'', sf_seq = Some (Fin 3)\<rparr>]) =
     map (\<lambda>j. (inc, 1 + int j)) [0..<k]"
  using painted_stream_has_no_gap [of tracker_new
      "[\<lparr>sf_incarnationId = Some ''p'', sf_seq = Some (Fin 1)\<rparr>, \<lparr>sf_incarnationId = Some ''p'', sf_seq = Some (Fin 3)\<rparr>]"]
  by (auto simp: tracker_new_def)

text \<open>
  Property C34. The output scheduler loses nothing, repeats nothing and stays bounded. After any
  interleaving of enqueues, terminal callbacks, timers, recoveries and disposal, the bytes accepted
  since the last reset are the bytes written to the terminal followed by the bytes still queued, the
  byte counter is exact, and the backlog is at most the larger of the two limits.
\<close>

theorem scheduler_is_lossless_and_bounded:
  fixes opt es
  defines "h \<equiv> foldl (sched_history_step opt) sched_history_new es"
  shows "sh_accepted h = sh_written h @ concat (os_queue (sh_state h)) \<and>
    os_queuedBytes (sh_state h) = int (length (concat (os_queue (sh_state h)))) \<and>
    length (concat (os_queue (sh_state h))) \<le> max (so_maxForegroundBytes opt) (so_maxBackgroundBytes opt)"
  using scheduler.run_inv [OF sched_inv_new, of opt es] by (simp add: h_def sched_inv_def Let_def)

text \<open>
  The terminal is fed one bounded chunk at a time: a step hands over at most one chunk, of
  at most \<open>chunkBytes\<close> bytes, only when no write is in flight, and a callback or a stall timer that
  belongs to an earlier generation changes nothing.
\<close>

theorem one_bounded_write_in_flight:
  assumes "sched_step opt s e = (s', effs)"
  shows "(\<forall>g bs. Term_Write g bs \<in> set effs \<longrightarrow>
        effs = [Term_Write g bs] \<and> length bs \<le> so_chunkBytes opt \<and> \<not> os_writing s \<and> os_writing s' \<and>
        g = os_generation s') \<and>
    (\<forall>g. (e = Write_Done g \<or> e = Stall_Fired g) \<and> g \<noteq> os_generation s \<longrightarrow> s' = s \<and> effs = [])"
proof -
  have pump: "effs = [Term_Write g bs] \<and> length bs \<le> so_chunkBytes opt \<and> \<not> os_writing t \<and> os_writing s' \<and>
      g = os_generation s'" if "sched_pump opt t = (s', effs)" "Term_Write g bs \<in> set effs" for t g bs
    using sched_pump_cases [of opt t] that by auto
  show ?thesis
  proof (cases e)
    case (Enqueue data bg)
    with assms show ?thesis
      by (auto simp: sched_enqueue_def Let_def split_beta split: if_splits prod.splits
          dest!: pump [OF prod_eqI] dest: pump)
  qed (use assms pump in \<open>auto simp: write_done_def stall_fired_def split: if_splits\<close>)
qed

theorem one_bounded_write_in_flight_witness:
  "\<exists>s' effs. sched_step (DEFAULT_SCHEDULER_OPTIONS\<lparr>so_chunkBytes := 2\<rparr>) scheduler_new (Enqueue [1, 2, 3] False) = (s', effs) \<and>
     Term_Write 0 [1, 2] \<in> set effs \<and> os_writing s'"
proof -
  let ?opt = "DEFAULT_SCHEDULER_OPTIONS\<lparr>so_chunkBytes := 2\<rparr>"
  obtain s' effs where e: "sched_step ?opt scheduler_new (Enqueue [1, 2, 3] False) = (s', effs)" by fastforce
  then have "effs = [Term_Write 0 [1, 2]]"
    by (auto simp: sched_enqueue_def sched_pump_def scheduler_new_def DEFAULT_SCHEDULER_OPTIONS_def Let_def)
  with one_bounded_write_in_flight [OF e] e show ?thesis by auto
qed

text \<open>
  Everything accepted reaches the terminal. In any reachable state that is not disposed,
  as many rounds of a completed write and its follow-up pump as there are queued bytes empty the
  queue, and then exactly the accepted bytes have been written, in order.
\<close>

theorem scheduler_drains:
  fixes opt es
  defines "h \<equiv> foldl (sched_history_step opt) sched_history_new es"
  assumes "0 < so_chunkBytes opt" "\<not> os_disposed (sh_state h)"
  shows "sh_written ((tick opt ^^ length (concat (os_queue (sh_state h)))) h) = sh_accepted h"
  using ticks_drain [OF scheduler.run_inv [OF sched_inv_new, of opt es]] assms by (simp add: h_def)

theorem scheduler_drains_witness:
  "let opt = DEFAULT_SCHEDULER_OPTIONS\<lparr>so_chunkBytes := 2\<rparr>;
       h = foldl (sched_history_step opt) sched_history_new [Enqueue [1, 2, 3, 4, 5] False]
   in sh_written ((tick opt ^^ 3) h) = [1, 2, 3, 4, 5]"
proof -
  let ?opt = "DEFAULT_SCHEDULER_OPTIONS\<lparr>so_chunkBytes := 2\<rparr>"
  let ?h = "foldl (sched_history_step ?opt) sched_history_new [Enqueue [1, 2, 3, 4, 5] False]"
  have "\<not> os_disposed (sh_state ?h)" "sh_accepted ?h = [1, 2, 3, 4, 5]"
    "length (concat (os_queue (sh_state ?h))) = 3"
    by (simp_all add: sched_history_step_def sched_history_new_def sched_enqueue_def sched_pump_def scheduler_new_def
        accepted_now_def DEFAULT_SCHEDULER_OPTIONS_def Let_def)
  with scheduler_drains [of ?opt "[Enqueue [1, 2, 3, 4, 5] False]"] show ?thesis
    by (simp add: DEFAULT_SCHEDULER_OPTIONS_def del: foldl.simps)
qed

end
