(* ===== verification/Desktop_Rooms.thy ===== *)
theory Desktop_Rooms
  imports Desktop_Protocol
begin

text \<open>
  The multi-room shell of the desktop client (\<open>desktop/src/rooms.ts\<close>): the open rooms, the active
  one, the unread badges, and their persistence in \<open>localStorage\<close>. A JavaScript \<open>Set\<close> is a set, an
  absent optional field is \<open>None\<close>. \<open>JSON.parse\<close> and \<open>JSON.stringify\<close> are arguments of the
  persistence functions, and the storage is a map from keys to strings.
\<close>

section \<open>State\<close>

datatype room_kind = Kind_Chat | Kind_Terminal | Kind_Unknown

record room =
  rm_id :: string
  rm_wsUrl :: string
  rm_token :: string
  rm_room :: string
  rm_name :: string
  rm_asHost :: bool
  rm_label :: "string option"
  rm_executionTarget :: "execution_target option"
  rm_deviceId :: "string option"
  rm_relaySessionId :: "string option"
  rm_mode :: room_kind

record rooms_state =
  rs_rooms :: "room list"
  rs_active :: "string option"
  rs_unread :: "string set"

datatype rooms_action =
    Add_Room room
  | Close_Room string
  | Activate "string option"
  | Activity string
  | Set_Mode string room_mode
  | Rename "string option" "string option" "string option" \<comment> \<open>id, label, name\<close>

definition initialRoomsState :: "room list \<Rightarrow> rooms_state" where
  "initialRoomsState rooms =
     \<lparr>rs_rooms = rooms, rs_active = (case rooms of r # _ \<Rightarrow> Some (rm_id r) | [] \<Rightarrow> None), rs_unread = {}\<rparr>"

definition sameRoomIdentity :: "room \<Rightarrow> room \<Rightarrow> bool" where
  "sameRoomIdentity a b \<longleftrightarrow>
     rm_wsUrl a = rm_wsUrl b \<and> rm_room a = rm_room b \<and> rm_name a = rm_name b \<and> rm_asHost a = rm_asHost b"

definition findRoom :: "room list \<Rightarrow> room \<Rightarrow> room option" where
  "findRoom rooms session = find (\<lambda>r. sameRoomIdentity r session) rooms"

text \<open>\<open>n.toString(36)\<close>, and the id made of the clock and the process-wide counter.\<close>

definition digit36 :: "nat \<Rightarrow> char" where
  "digit36 d = (if d < 10 then char_of (48 + d) else char_of (87 + d))"

fun show_base36 :: "nat \<Rightarrow> string" where
  "show_base36 n = (if n < 36 then [digit36 n] else show_base36 (n div 36) @ [digit36 (n mod 36)])"

declare show_base36.simps [simp del]

definition makeRoomId :: "nat \<Rightarrow> nat \<Rightarrow> string \<times> nat" where
  "makeRoomId now roomCounter = (''r'' @ show_base36 now @ show_base36 roomCounter, roomCounter + 1)"

definition withoutUnread :: "string set \<Rightarrow> string \<Rightarrow> string set" where
  "withoutUnread unread i = unread - {i}"

definition kind_of_mode :: "room_mode \<Rightarrow> room_kind" where
  "kind_of_mode m = (case m of Mode_Chat \<Rightarrow> Kind_Chat | Mode_Terminal \<Rightarrow> Kind_Terminal)"

section \<open>The reducer\<close>

definition update_room :: "string \<Rightarrow> (room \<Rightarrow> room) \<Rightarrow> room list \<Rightarrow> room list" where
  "update_room i f rooms = map (\<lambda>r. if rm_id r = i then f r else r) rooms"

fun roomsReducer :: "rooms_state \<Rightarrow> rooms_action \<Rightarrow> rooms_state" where
  "roomsReducer s (Add_Room room) =
     (case findRoom (rs_rooms s) room of
        Some existing \<Rightarrow>
          (let tokenChanged = (rm_token existing \<noteq> rm_token room);
               nextLabel = (case rm_label room of Some l \<Rightarrow> Some l | None \<Rightarrow> rm_label existing);
               labelChanged = (nextLabel \<noteq> rm_label existing)
           in s\<lparr>rs_rooms := (if tokenChanged \<or> labelChanged
                   then update_room (rm_id existing)
                     (\<lambda>r. r\<lparr>rm_token := rm_token room, rm_label := nextLabel\<rparr>) (rs_rooms s)
                   else rs_rooms s),
                rs_active := Some (rm_id existing),
                rs_unread := withoutUnread (rs_unread s) (rm_id existing)\<rparr>)
      | None \<Rightarrow>
          \<lparr>rs_rooms = rs_rooms s @ [room], rs_active = Some (rm_id room),
           rs_unread = withoutUnread (rs_unread s) (rm_id room)\<rparr>)"
| "roomsReducer s (Close_Room i) =
     (let rooms = filter (\<lambda>r. rm_id r \<noteq> i) (rs_rooms s)
      in \<lparr>rs_rooms = rooms,
          rs_active = (if rs_active s = Some i
             then (case rooms of r # _ \<Rightarrow> Some (rm_id r) | [] \<Rightarrow> None) else rs_active s),
          rs_unread = withoutUnread (rs_unread s) i\<rparr>)"
| "roomsReducer s (Activate None) = s\<lparr>rs_active := None\<rparr>"
| "roomsReducer s (Activate (Some i)) =
     s\<lparr>rs_active := Some i, rs_unread := withoutUnread (rs_unread s) i\<rparr>"
| "roomsReducer s (Activity i) =
     (if Some i = rs_active s \<or> i \<in> rs_unread s then s else s\<lparr>rs_unread := insert i (rs_unread s)\<rparr>)"
| "roomsReducer s (Set_Mode i mode) =
     s\<lparr>rs_rooms := update_room i (\<lambda>r. r\<lparr>rm_mode := kind_of_mode mode\<rparr>) (rs_rooms s)\<rparr>"
| "roomsReducer s (Rename i label name) =
     (case (case i of Some k \<Rightarrow> find (\<lambda>r. rm_id r = k) (rs_rooms s)
                    | None \<Rightarrow> find rm_asHost (rev (rs_rooms s))) of
        None \<Rightarrow> s
      | Some target \<Rightarrow>
          (let nextLabel = (case label of Some l \<Rightarrow> Some l | None \<Rightarrow> rm_label target);
               nextName = (case name of Some n \<Rightarrow> n | None \<Rightarrow> rm_name target)
           in if nextLabel = rm_label target \<and> nextName = rm_name target then s
              else s\<lparr>rs_rooms := update_room (rm_id target)
                     (\<lambda>r. r\<lparr>rm_label := nextLabel, rm_name := nextName\<rparr>) (rs_rooms s)\<rparr>))"

section \<open>Persistence\<close>

type_synonym storage = "string \<Rightarrow> string option"

definition ROOMS_LS_KEY :: string where "ROOMS_LS_KEY = ''pie-relay.rooms''"
definition LEGACY_ROOMS_LS_KEY :: string where "LEGACY_ROOMS_LS_KEY = ''cli-relay.rooms''"

text \<open>\<open>a || b\<close> on optional strings: an empty string falls through.\<close>

definition string_or_else :: "string option \<Rightarrow> string option \<Rightarrow> string option" where
  "string_or_else a b = (case a of Some s \<Rightarrow> (if s \<noteq> [] then Some s else b) | None \<Rightarrow> b)"

definition parse_kind :: "json option \<Rightarrow> room_kind" where
  "parse_kind v =
     (if v = Some (JStr ''terminal'') then Kind_Terminal
      else if v = Some (JStr ''chat'') then Kind_Chat else Kind_Unknown)"

definition parse_room :: "json \<Rightarrow> room list" where
  "parse_room v =
     (if truthy (Some v) \<and> typeof_object v
      then (case (as_string (jprop v ''id''), as_string (jprop v ''wsUrl''), as_string (jprop v ''name'')) of
              (Some i, Some wsUrl, Some name) \<Rightarrow>
                [\<lparr>rm_id = i, rm_wsUrl = wsUrl, rm_token = string_or v ''token'' [], rm_room = string_or v ''room'' [],
                  rm_name = name, rm_asHost = truthy (jprop v ''asHost''), rm_label = as_string (jprop v ''label''),
                  rm_executionTarget = None, rm_deviceId = None, rm_relaySessionId = None,
                  rm_mode = parse_kind (jprop v ''mode'')\<rparr>]
            | _ \<Rightarrow> [])
      else [])"

definition loadRooms :: "(string \<Rightarrow> json option) \<Rightarrow> storage \<Rightarrow> room list" where
  "loadRooms json_parse ls =
     (case string_or_else (ls ROOMS_LS_KEY) (ls LEGACY_ROOMS_LS_KEY) of
        None \<Rightarrow> []
      | Some raw \<Rightarrow>
          (if raw = [] then []
           else case json_parse raw of Some (JArr vs) \<Rightarrow> concat (map parse_room vs) | _ \<Rightarrow> []))"

definition kind_name :: "room_kind \<Rightarrow> string" where
  "kind_name k = (case k of Kind_Chat \<Rightarrow> ''chat'' | Kind_Terminal \<Rightarrow> ''terminal'' | Kind_Unknown \<Rightarrow> ''unknown'')"

definition slim_room :: "room \<Rightarrow> json" where
  "slim_room r =
     JObj ([(''id'', JStr (rm_id r)), (''wsUrl'', JStr (rm_wsUrl r)), (''token'', JStr (rm_token r)),
       (''room'', JStr (rm_room r)), (''name'', JStr (rm_name r)), (''asHost'', JBool (rm_asHost r)),
       (''mode'', JStr (kind_name (rm_mode r)))] @
       (case rm_label r of Some l \<Rightarrow> [(''label'', JStr l)] | None \<Rightarrow> []))"

text \<open>A storage that throws leaves everything as it was; the save that goes through: \<open>full = False\<close>.\<close>

definition saveRooms :: "(json \<Rightarrow> string) \<Rightarrow> bool \<Rightarrow> room list \<Rightarrow> storage \<Rightarrow> storage" where
  "saveRooms stringify full rooms ls =
     (if full then ls else ls(ROOMS_LS_KEY \<mapsto> stringify (JArr (map slim_room rooms))))"

section \<open>Lemmas\<close>

definition room_ids :: "rooms_state \<Rightarrow> string set" where
  "room_ids s = rm_id ` set (rs_rooms s)"

definition rooms_state_ok :: "rooms_state \<Rightarrow> bool" where
  "rooms_state_ok s \<longleftrightarrow> distinct (map rm_id (rs_rooms s)) \<and>
     (\<forall>i. rs_active s = Some i \<longrightarrow> i \<in> room_ids s)"

text \<open>What the shell guarantees of an action: fresh ids for new rooms, selection of an open room.\<close>

fun action_ok :: "rooms_state \<Rightarrow> rooms_action \<Rightarrow> bool" where
  "action_ok s (Add_Room r) \<longleftrightarrow> rm_id r \<notin> room_ids s"
| "action_ok s (Activate (Some i)) \<longleftrightarrow> i \<in> room_ids s"
| "action_ok s _ \<longleftrightarrow> True"

lemma update_room_ids:
  "(\<And>r. rm_id (f r) = rm_id r) \<Longrightarrow> map rm_id (update_room i f rooms) = map rm_id rooms"
  by (simp add: update_room_def)

lemma update_room_id_set:
  "(\<And>r. rm_id (f r) = rm_id r) \<Longrightarrow> rm_id ` set (update_room i f rooms) = rm_id ` set rooms"
  using arg_cong [OF update_room_ids [of f i rooms], of set] by simp

lemmas update_room_simps = update_room_ids update_room_id_set

lemma findRoom_Some: "findRoom rooms r = Some e \<Longrightarrow> e \<in> set rooms \<and> sameRoomIdentity e r"
  by (auto simp: findRoom_def find_Some_iff in_set_conv_nth)

lemma findRoom_None: "findRoom rooms r = None \<longleftrightarrow> (\<forall>e \<in> set rooms. \<not> sameRoomIdentity e r)"
  by (auto simp: findRoom_def find_None_iff)

lemma roomsReducer_ok:
  assumes "rooms_state_ok s" "action_ok s a"
  shows "rooms_state_ok (roomsReducer s a)"
proof (cases a)
  case (Add_Room r)
  show ?thesis
  proof (cases "findRoom (rs_rooms s) r")
    case None
    with Add_Room assms show ?thesis by (auto simp: rooms_state_ok_def room_ids_def)
  next
    case (Some e)
    with Add_Room assms findRoom_Some [OF Some] show ?thesis
      by (auto simp: rooms_state_ok_def room_ids_def Let_def update_room_simps)
  qed
next
  case (Close_Room i)
  have d: "distinct (map rm_id (filter (\<lambda>r. rm_id r \<noteq> i) (rs_rooms s)))"
    using assms(1) by (simp add: rooms_state_ok_def distinct_map_filter)
  show ?thesis
  proof (cases "filter (\<lambda>r. rm_id r \<noteq> i) (rs_rooms s)")
    case Nil
    then have "\<forall>r \<in> set (rs_rooms s). rm_id r = i" by (simp add: filter_empty_conv)
    with Nil Close_Room assms show ?thesis
      by (cases "rs_active s") (auto simp: rooms_state_ok_def room_ids_def Let_def)
  next
    case (Cons r rs)
    have "rm_id ` set (filter (\<lambda>r. rm_id r \<noteq> i) (rs_rooms s)) = room_ids s - {i}"
      by (auto simp: room_ids_def)
    with Cons Close_Room assms d show ?thesis by (auto simp: rooms_state_ok_def room_ids_def Let_def)
  qed
next
  case (Activate i)
  with assms show ?thesis by (cases i) (auto simp: rooms_state_ok_def room_ids_def)
next
  case (Rename i l n)
  with assms show ?thesis
    by (auto simp: rooms_state_ok_def room_ids_def Let_def update_room_simps split: option.splits)
qed (use assms in \<open>auto simp: rooms_state_ok_def room_ids_def update_room_simps\<close>)

text \<open>The shell as an event machine: an action it never dispatches is a no-op.\<close>

definition rooms_step :: "rooms_state \<Rightarrow> rooms_action \<Rightarrow> rooms_state" where
  "rooms_step s a = (if action_ok s a then roomsReducer s a else s)"

interpretation rooms: event_machine rooms_step rooms_state_ok
  by unfold_locales (simp add: rooms_step_def roomsReducer_ok)

subsection \<open>Room ids\<close>

definition value36 :: "string \<Rightarrow> nat" where
  "value36 s = foldl (\<lambda>n c. 36 * n + (if is_digit c then of_char c - 48 else of_char c - 87)) 0 s"

lemma digit36_value: "d < 36 \<Longrightarrow> (if is_digit (digit36 d) then of_char (digit36 d) - 48 else of_char (digit36 d) - 87) = d"
  by (auto simp: digit36_def is_digit_def of_char_of)

lemma value36_show: "value36 (show_base36 n) = n"
proof (induction n rule: show_base36.induct)
  case (1 n)
  show ?case
  proof (cases "n < 36")
    case True
    then show ?thesis using digit36_value [OF True] by (subst show_base36.simps) (simp add: value36_def)
  next
    case False
    have "value36 (show_base36 (n div 36) @ [digit36 (n mod 36)]) = 36 * (n div 36) + n mod 36"
      using 1 [OF False] digit36_value [of "n mod 36"] by (simp add: value36_def)
    with False show ?thesis by (subst show_base36.simps) simp
  qed
qed

lemma show_base36_inj: "show_base36 m = show_base36 n \<Longrightarrow> m = n"
  by (metis value36_show)

lemma length_show_base36: "36 ^ k \<le> n \<Longrightarrow> n < 36 ^ Suc k \<Longrightarrow> length (show_base36 n) = Suc k"
proof (induction k arbitrary: n)
  case 0
  then show ?case by (subst show_base36.simps) simp
next
  case (Suc k)
  have "36 ^ k \<le> n div 36" using Suc.prems(1) by (simp add: less_eq_div_iff_mult_less_eq)
  moreover have "n div 36 < 36 ^ Suc k" using Suc.prems(2) by (simp add: less_mult_imp_div_less)
  ultimately have "length (show_base36 (n div 36)) = Suc k" by (rule Suc.IH)
  moreover have "(36 :: nat) * 1 \<le> 36 * 36 ^ k" by (rule mult_le_mono2) simp
  then have "\<not> n < 36" using Suc.prems(1) unfolding power_Suc by linarith
  ultimately show ?case by (subst show_base36.simps) simp
qed

subsection \<open>Storage\<close>

text \<open>The part of a room that is persisted.\<close>

definition persisted :: "room \<Rightarrow> room" where
  "persisted r = r\<lparr>rm_executionTarget := None, rm_deviceId := None, rm_relaySessionId := None\<rparr>"

lemma parse_slim_room: "parse_room (slim_room r) = [persisted r]"
proof -
  have "parse_kind (Some (JStr (kind_name k))) = k" for k
    by (cases k) (simp_all add: parse_kind_def kind_name_def)
  then show ?thesis
    by (cases "rm_label r")
       (simp_all add: parse_room_def slim_room_def persisted_def string_or_def)
qed

section \<open>Properties\<close>

text \<open>
  The shell never loses track of its rooms. Starting from any restored list without
  duplicate ids, after any sequence of the actions it dispatches the ids of the open rooms are
  distinct and the active room, if there is one, is open.
\<close>

theorem rooms_stay_consistent:
  fixes rooms as
  assumes "distinct (map rm_id rooms)"
  defines "s \<equiv> foldl rooms_step (initialRoomsState rooms) as"
  shows "distinct (map rm_id (rs_rooms s)) \<and> (\<forall>i. rs_active s = Some i \<longrightarrow> i \<in> rm_id ` set (rs_rooms s))"
proof -
  have "rooms_state_ok (initialRoomsState rooms)"
    using assms(1) by (auto simp: rooms_state_ok_def initialRoomsState_def room_ids_def split: list.splits)
  then have "rooms_state_ok s" unfolding s_def by (rule rooms.run_inv)
  then show ?thesis by (simp add: rooms_state_ok_def room_ids_def)
qed

definition sample_room :: "string \<Rightarrow> string \<Rightarrow> string \<Rightarrow> room" where
  "sample_room i name token =
     \<lparr>rm_id = i, rm_wsUrl = ''ws://relay'', rm_token = token, rm_room = ''room'', rm_name = name, rm_asHost = False,
      rm_label = None, rm_executionTarget = Some Target_Docker, rm_deviceId = None, rm_relaySessionId = None,
      rm_mode = Kind_Chat\<rparr>"

theorem rooms_stay_consistent_witness:
  "distinct (map rm_id (rs_rooms (foldl rooms_step (initialRoomsState [sample_room ''a'' ''bob'' ''t1''])
     [Add_Room (sample_room ''b'' ''eve'' ''t2''), Close_Room ''a''])))"
  using rooms_stay_consistent [of "[sample_room ''a'' ''bob'' ''t1'']" "[Add_Room (sample_room ''b'' ''eve'' ''t2''), Close_Room ''a'']"]
  by simp

text \<open>
  A re-join reuses the open room and its fresh credential. If a room with the same relay,
  room, name and role is open, joining again opens no second one: the set of ids is unchanged, the
  existing room becomes active, is no longer unread, and carries the new token, and every other room
  is untouched. Otherwise exactly the new room is appended and becomes active.
\<close>

theorem rejoin_adopts_fresh_token:
  fixes s r
  assumes "distinct (map rm_id (rs_rooms s))"
  defines "s' \<equiv> roomsReducer s (Add_Room r)"
  shows "case findRoom (rs_rooms s) r of
      Some e \<Rightarrow> map rm_id (rs_rooms s') = map rm_id (rs_rooms s) \<and> rs_active s' = Some (rm_id e) \<and>
        rm_id e \<notin> rs_unread s' \<and>
        (\<forall>x \<in> set (rs_rooms s'). if rm_id x = rm_id e then sameRoomIdentity x r \<and> rm_token x = rm_token r
                                  else x \<in> set (rs_rooms s))
    | None \<Rightarrow> rs_rooms s' = rs_rooms s @ [r] \<and> rs_active s' = Some (rm_id r) \<and> rm_id r \<notin> rs_unread s'"
proof (cases "findRoom (rs_rooms s) r")
  case None
  then show ?thesis by (simp add: s'_def withoutUnread_def)
next
  case (Some e)
  note e = findRoom_Some [OF Some]
  have uniq: "x = e" if "x \<in> set (rs_rooms s)" "rm_id x = rm_id e" for x
    using that e assms(1) by (auto simp: distinct_map dest: inj_onD)
  let ?label = "case rm_label r of Some l \<Rightarrow> Some l | None \<Rightarrow> rm_label e"
  let ?f = "\<lambda>x. x\<lparr>rm_token := rm_token r, rm_label := ?label\<rparr>"
  have s': "rs_rooms s' = (if rm_token e \<noteq> rm_token r \<or> ?label \<noteq> rm_label e
      then update_room (rm_id e) ?f (rs_rooms s) else rs_rooms s)"
    using Some by (simp add: s'_def Let_def)
  have ef: "sameRoomIdentity (?f e) r" using e by (simp add: sameRoomIdentity_def)
  have "if rm_id x = rm_id e then sameRoomIdentity x r \<and> rm_token x = rm_token r else x \<in> set (rs_rooms s)"
    if x: "x \<in> set (rs_rooms s')" for x
  proof (cases "rm_token e \<noteq> rm_token r \<or> ?label \<noteq> rm_label e")
    case True
    then obtain y where "y \<in> set (rs_rooms s)" "x = (if rm_id y = rm_id e then ?f y else y)"
      using x s' by (auto simp: update_room_def)
    with ef show ?thesis by (cases "rm_id y = rm_id e") (auto dest: uniq)
  next
    case False
    then have "x \<in> set (rs_rooms s)" "rm_token e = rm_token r" using x s' by simp_all
    with e show ?thesis by (auto dest: uniq)
  qed
  then have "\<forall>x \<in> set (rs_rooms s'). if rm_id x = rm_id e then sameRoomIdentity x r \<and> rm_token x = rm_token r
      else x \<in> set (rs_rooms s)" by blast
  moreover have "map rm_id (rs_rooms s') = map rm_id (rs_rooms s)" unfolding s' by (simp add: update_room_ids)
  moreover have "rs_active s' = Some (rm_id e)" "rm_id e \<notin> rs_unread s'"
    using Some by (simp_all add: s'_def Let_def withoutUnread_def)
  ultimately show ?thesis unfolding Some option.case by blast
qed

theorem rejoin_adopts_fresh_token_witness:
  "map rm_token (rs_rooms (roomsReducer (initialRoomsState [sample_room ''a'' ''bob'' ''old''])
     (Add_Room (sample_room ''b'' ''bob'' ''new'')))) = [''new'']"
  using rejoin_adopts_fresh_token [of "initialRoomsState [sample_room ''a'' ''bob'' ''old'']" "sample_room ''b'' ''bob'' ''new''"]
  by (simp add: initialRoomsState_def findRoom_def sameRoomIdentity_def sample_room_def update_room_def)

text \<open>
  A re-join after a rename opens a second connection. The name belongs to the identity that
  \<open>add\<close> compares, and \<open>rename\<close> changes it, so joining the same relay room again under the name it was
  joined with appends another room for the same relay and room.
\<close>

theorem rejoin_after_rename_duplicates_room:
  fixes s r n r'
  assumes "rs_rooms s = [r]" "n \<noteq> rm_name r" "rm_id r' \<noteq> rm_id r" "sameRoomIdentity r r'"
  defines "s' \<equiv> foldl roomsReducer s [Rename (Some (rm_id r)) None (Some n), Add_Room r']"
  shows "map (\<lambda>x. (rm_wsUrl x, rm_room x)) (rs_rooms s') =
    [(rm_wsUrl r, rm_room r), (rm_wsUrl r, rm_room r)]"
  using assms by (simp add: Let_def update_room_def findRoom_def sameRoomIdentity_def)

theorem rejoin_after_rename_duplicates_room_witness:
  "length (rs_rooms (foldl roomsReducer (initialRoomsState [sample_room ''a'' ''bob'' ''t''])
     [Rename (Some ''a'') None (Some ''bobby''), Add_Room (sample_room ''b'' ''bob'' ''t'')])) = 2"
proof -
  have "map (\<lambda>x. (rm_wsUrl x, rm_room x)) (rs_rooms (foldl roomsReducer (initialRoomsState [sample_room ''a'' ''bob'' ''t''])
     [Rename (Some (rm_id (sample_room ''a'' ''bob'' ''t''))) None (Some ''bobby''), Add_Room (sample_room ''b'' ''bob'' ''t'')]))
    = [(rm_wsUrl (sample_room ''a'' ''bob'' ''t''), rm_room (sample_room ''a'' ''bob'' ''t'')),
       (rm_wsUrl (sample_room ''a'' ''bob'' ''t''), rm_room (sample_room ''a'' ''bob'' ''t''))]"
    by (rule rejoin_after_rename_duplicates_room)
       (simp_all add: initialRoomsState_def sample_room_def sameRoomIdentity_def)
  from arg_cong [OF this, of length] show ?thesis by (simp add: sample_room_def del: foldl.simps)
qed

text \<open>
  No action but \<open>close\<close> lets the active room have an unread badge: every other action
  keeps the active room read. Closing the active room does not: the room it falls back to becomes
  active with the badge it had.
\<close>

theorem active_room_is_read_except_after_close:
  "((\<forall>i. rs_active s = Some i \<longrightarrow> i \<notin> rs_unread s) \<and> (\<forall>i. a \<noteq> Close_Room i) \<longrightarrow>
      (\<forall>i. rs_active (roomsReducer s a) = Some i \<longrightarrow> i \<notin> rs_unread (roomsReducer s a))) \<and>
   (rs_rooms s = [x, y] \<and> rm_id x \<noteq> rm_id y \<and> rs_active s = Some (rm_id x) \<and> rm_id y \<in> rs_unread s \<longrightarrow>
      rs_active (roomsReducer s (Close_Room (rm_id x))) = Some (rm_id y) \<and>
      rm_id y \<in> rs_unread (roomsReducer s (Close_Room (rm_id x))))"
proof
  show "(\<forall>i. rs_active s = Some i \<longrightarrow> i \<notin> rs_unread s) \<and> (\<forall>i. a \<noteq> Close_Room i) \<longrightarrow>
      (\<forall>i. rs_active (roomsReducer s a) = Some i \<longrightarrow> i \<notin> rs_unread (roomsReducer s a))"
  proof (cases a)
    case (Activate i)
    then show ?thesis by (cases i) (auto simp: withoutUnread_def)
  qed (auto simp: withoutUnread_def Let_def split: option.splits)
qed (auto simp: withoutUnread_def)

theorem active_room_is_read_except_after_close_witness:
  "''b'' \<in> rs_unread (roomsReducer
     \<lparr>rs_rooms = [sample_room ''a'' ''x'' ''t'', sample_room ''b'' ''y'' ''t''], rs_active = Some ''a'', rs_unread = {''b''}\<rparr>
     (Close_Room ''a''))"
  using active_room_is_read_except_after_close [of
      "\<lparr>rs_rooms = [sample_room ''a'' ''x'' ''t'', sample_room ''b'' ''y'' ''t''], rs_active = Some ''a'', rs_unread = {''b''}\<rparr>"
      "Activate None" "sample_room ''a'' ''x'' ''t''" "sample_room ''b'' ''y'' ''t''"]
  by (simp add: sample_room_def)

text \<open>
  Rooms survive a restart: what is loaded after a save is the list that was saved, in
  order and with every field but the runtime identity (execution target, device, relay session),
  which the saved form does not contain. It is assumed that parsing the text of the saved value gives
  that value back and that the text is not empty.
\<close>

theorem rooms_roundtrip_storage:
  assumes "json_parse (stringify (JArr (map slim_room rooms))) = Some (JArr (map slim_room rooms))"
    and "stringify (JArr (map slim_room rooms)) \<noteq> []"
  shows "loadRooms json_parse (saveRooms stringify False rooms ls) = map persisted rooms"
proof -
  have "concat (map parse_room (map slim_room rooms)) = map persisted rooms"
    by (induction rooms) (simp_all add: parse_slim_room)
  with assms show ?thesis
    by (simp add: loadRooms_def saveRooms_def string_or_else_def ROOMS_LS_KEY_def LEGACY_ROOMS_LS_KEY_def)
qed

theorem rooms_roundtrip_storage_witness:
  "loadRooms (\<lambda>_. Some (JArr [slim_room (sample_room ''a'' ''x'' ''t'')]))
     (saveRooms (\<lambda>_. ''text'') False [sample_room ''a'' ''x'' ''t''] (\<lambda>_. None)) =
   [(sample_room ''a'' ''x'' ''t'')\<lparr>rm_executionTarget := None\<rparr>]"
  using rooms_roundtrip_storage [of "\<lambda>_. Some (JArr [slim_room (sample_room ''a'' ''x'' ''t'')])" "\<lambda>_. ''text''"
      "[sample_room ''a'' ''x'' ''t'']" "\<lambda>_. None"]
  by (simp add: persisted_def sample_room_def)

text \<open>
  Ids that one installation mints are distinct: two calls with a different clock or a
  different counter give different ids while the clock has eight base-36 digits (until 2059).
\<close>

theorem room_ids_are_unique:
  assumes "36 ^ 7 \<le> t1" "t1 < 36 ^ 8" "36 ^ 7 \<le> t2" "t2 < 36 ^ 8" "(t1, c1) \<noteq> (t2, c2)"
  shows "fst (makeRoomId t1 c1) \<noteq> fst (makeRoomId t2 c2)"
proof
  assume "fst (makeRoomId t1 c1) = fst (makeRoomId t2 c2)"
  then have "show_base36 t1 @ show_base36 c1 = show_base36 t2 @ show_base36 c2" by (simp add: makeRoomId_def)
  moreover have "length (show_base36 t1) = length (show_base36 t2)"
    using assms(1-4) length_show_base36 [of 7] by simp
  ultimately show False using assms(5) show_base36_inj by auto
qed

theorem room_ids_are_unique_witness:
  "fst (makeRoomId 1700000000000 0) \<noteq> fst (makeRoomId 1700000000000 1)"
  by (rule room_ids_are_unique) simp_all

end
