(* ===== verification/Desktop_Link.thy ===== *)
theory Desktop_Link
  imports Relay_Prelude
begin

text \<open>
  The reconnecting participant socket of the desktop client (\<open>desktop/src/connection.ts\<close>). The class
  is a machine over its method calls, the callbacks of its sockets and its timers. A socket is known
  by a number; \<open>lk_socks\<close> holds the sockets whose handlers are attached, with the variable
  \<open>openedThisAttempt\<close> of their closure, and \<open>lk_pending\<close> the timers that have not fired. Randomness
  (\<open>Math.random()\<close>) and whether \<open>new WebSocket\<close> throws come with the event.
\<close>

section \<open>State\<close>

datatype conn_status = Connecting | Open | Reconnecting | Auth_Expired | Closed_Status

record relay_link =
  lk_ws :: "nat option"
  lk_timer :: "nat option"
  lk_attempt :: nat
  lk_stopped :: bool
  lk_preOpenFailures :: nat
  lk_socks :: "(nat \<times> bool) list"
  lk_pending :: "nat list"
  lk_fresh :: nat

definition link_new :: relay_link where
  "link_new = \<lparr>lk_ws = None, lk_timer = None, lk_attempt = 0, lk_stopped = False, lk_preOpenFailures = 0,
     lk_socks = [], lk_pending = [], lk_fresh = 0\<rparr>"

datatype link_effect =
    On_Status conn_status nat
  | On_Message string
  | New_Socket nat
  | Sock_Send nat json
  | Sock_Close nat
  | Set_Timer nat rat

definition BACKOFF_MIN_MS :: rat where "BACKOFF_MIN_MS = 1000"
definition BACKOFF_MAX_MS :: rat where "BACKOFF_MAX_MS = 30000"
definition AUTH_FAILURE_THRESHOLD :: nat where "AUTH_FAILURE_THRESHOLD = 3"

section \<open>Operations\<close>

definition backoffDelay :: "nat \<Rightarrow> rat \<Rightarrow> rat" where
  "backoffDelay attempt rnd =
     (let capped = min (BACKOFF_MIN_MS * 2 ^ attempt) BACKOFF_MAX_MS
      in capped / 2 + rnd * (capped / 2))"

definition currentStatus :: "relay_link \<Rightarrow> conn_status" where
  "currentStatus l =
     (if lk_preOpenFailures l \<ge> AUTH_FAILURE_THRESHOLD then Auth_Expired
      else if lk_attempt l = 0 then Connecting else Reconnecting)"

definition scheduleReconnect :: "rat \<Rightarrow> relay_link \<Rightarrow> relay_link \<times> link_effect list" where
  "scheduleReconnect rnd l =
     (if lk_stopped l then (l, [])
      else (let delay = backoffDelay (lk_attempt l) rnd;
                l1 = l\<lparr>lk_attempt := lk_attempt l + 1\<rparr>;
                t = lk_fresh l
            in (l1\<lparr>lk_timer := Some t, lk_pending := lk_pending l @ [t], lk_fresh := Suc t\<rparr>,
                [On_Status (currentStatus l1) (lk_attempt l1), Set_Timer t delay])))"

text \<open>\<open>open()\<close>; \<open>throws\<close> says whether the constructor of the socket throws.\<close>

definition link_open :: "bool \<Rightarrow> rat \<Rightarrow> relay_link \<Rightarrow> relay_link \<times> link_effect list" where
  "link_open throws rnd l =
     (if lk_stopped l then (l, [])
      else (let status = On_Status (currentStatus l) (lk_attempt l) in
            if throws
            then (let (l', effs) = scheduleReconnect rnd (l\<lparr>lk_preOpenFailures := lk_preOpenFailures l + 1\<rparr>)
                  in (l', status # effs))
            else (let i = lk_fresh l
                  in (l\<lparr>lk_ws := Some i, lk_socks := lk_socks l @ [(i, False)], lk_fresh := Suc i\<rparr>,
                      [status, New_Socket i]))))"

definition link_start :: "bool \<Rightarrow> rat \<Rightarrow> relay_link \<Rightarrow> relay_link \<times> link_effect list" where
  "link_start throws rnd l = link_open throws rnd (l\<lparr>lk_stopped := False\<rparr>)"

text \<open>\<open>readyState === OPEN\<close>: the current socket has opened and not closed.\<close>

definition isOpen :: "relay_link \<Rightarrow> bool" where
  "isOpen l \<longleftrightarrow> (case lk_ws l of Some i \<Rightarrow> map_of (lk_socks l) i = Some True | None \<Rightarrow> False)"

definition link_send :: "json \<Rightarrow> relay_link \<Rightarrow> bool \<times> link_effect list" where
  "link_send payload l =
     (case lk_ws l of
        Some i \<Rightarrow> (if isOpen l then (True, [Sock_Send i payload]) else (False, []))
      | None \<Rightarrow> (False, []))"

definition link_close :: "relay_link \<Rightarrow> relay_link \<times> link_effect list" where
  "link_close l =
     (let l1 = (case lk_timer l of
                  Some t \<Rightarrow> l\<lparr>lk_pending := removeAll t (lk_pending l), lk_timer := None\<rparr>
                | None \<Rightarrow> l)\<lparr>lk_stopped := True\<rparr>;
          (l2, effs) = (case lk_ws l1 of
                  Some i \<Rightarrow> (l1\<lparr>lk_socks := AList.delete i (lk_socks l1), lk_ws := None\<rparr>, [Sock_Close i])
                | None \<Rightarrow> (l1, []))
      in (l2, effs @ [On_Status Closed_Status (lk_attempt l2)]))"

definition join_frame :: "string \<Rightarrow> json" where
  "join_frame clientId =
     JObj [(''type'', JStr ''relay_join''), (''protocolVersion'', JStr ''2.0''), (''streamId'', JStr ''room''),
       (''clientId'', JStr clientId)]"

text \<open>The callbacks of a socket whose handlers are attached.\<close>

definition ws_onopen :: "string \<Rightarrow> nat \<Rightarrow> relay_link \<Rightarrow> relay_link \<times> link_effect list" where
  "ws_onopen clientId i l =
     (if map_of (lk_socks l) i = Some False
      then (l\<lparr>lk_socks := AList.update i True (lk_socks l), lk_attempt := 0, lk_preOpenFailures := 0\<rparr>,
            [Sock_Send i (join_frame clientId), On_Status Open 0])
      else (l, []))"

definition ws_onmessage :: "nat \<Rightarrow> string option \<Rightarrow> relay_link \<Rightarrow> relay_link \<times> link_effect list" where
  "ws_onmessage i data l =
     (l, case (map_of (lk_socks l) i, data) of (Some True, Some raw) \<Rightarrow> [On_Message raw] | _ \<Rightarrow> [])"

definition ws_onclose :: "nat \<Rightarrow> rat \<Rightarrow> relay_link \<Rightarrow> relay_link \<times> link_effect list" where
  "ws_onclose i rnd l =
     (case map_of (lk_socks l) i of
        None \<Rightarrow> (l, [])
      | Some opened \<Rightarrow>
          (let l1 = l\<lparr>lk_socks := AList.delete i (lk_socks l)\<rparr> in
           if lk_stopped l then (l1, [])
           else scheduleReconnect rnd
                  (l1\<lparr>lk_ws := None,
                      lk_preOpenFailures := (if opened then 0 else lk_preOpenFailures l + 1)\<rparr>)))"

datatype link_event =
    Start bool rat
  | Timer_Fired nat bool rat
  | Sock_Opened nat
  | Sock_Message nat "string option"
  | Sock_Closed nat rat
  | Send json
  | Close

fun link_step :: "string \<Rightarrow> relay_link \<Rightarrow> link_event \<Rightarrow> relay_link \<times> link_effect list" where
  "link_step clientId l (Start throws rnd) = link_start throws rnd l"
| "link_step clientId l (Timer_Fired t throws rnd) =
     (if t \<in> set (lk_pending l) then link_open throws rnd (l\<lparr>lk_pending := removeAll t (lk_pending l)\<rparr>) else (l, []))"
| "link_step clientId l (Sock_Opened i) = ws_onopen clientId i l"
| "link_step clientId l (Sock_Message i data) = ws_onmessage i data l"
| "link_step clientId l (Sock_Closed i rnd) = ws_onclose i rnd l"
| "link_step clientId l (Send payload) = (l, snd (link_send payload l))"
| "link_step clientId l Close = link_close l"

fun link_run :: "string \<Rightarrow> relay_link \<Rightarrow> link_event list \<Rightarrow> relay_link \<times> link_effect list" where
  "link_run clientId l [] = (l, [])"
| "link_run clientId l (e # es) =
     (let (l', effs) = link_step clientId l e; (l'', effs') = link_run clientId l' es in (l'', effs @ effs'))"

section \<open>Single flight\<close>

text \<open>
  A connection that is started once has one thing under way: a live socket, which is the current
  one, or one pending timer, which is the remembered one; after \<open>close\<close> it has nothing.
\<close>

definition link_ok :: "relay_link \<Rightarrow> bool" where
  "link_ok l \<longleftrightarrow>
     (if lk_stopped l then lk_socks l = [] \<and> lk_pending l = [] \<and> lk_ws l = None
      else (\<exists>i b. lk_socks l = [(i, b)] \<and> lk_ws l = Some i \<and> lk_pending l = []) \<or>
           (\<exists>t. lk_socks l = [] \<and> lk_ws l = None \<and> lk_pending l = [t] \<and> lk_timer l = Some t))"

fun is_start :: "link_event \<Rightarrow> bool" where
  "is_start (Start _ _) = True"
| "is_start _ = False"

lemmas link_defs = link_open_def scheduleReconnect_def link_start_def link_close_def ws_onopen_def
  ws_onmessage_def ws_onclose_def link_send_def

lemma link_start_ok: "link_ok (fst (link_start throws rnd link_new))"
  by (auto simp: link_ok_def link_defs link_new_def Let_def)

lemma link_step_ok:
  assumes "link_ok l" "\<not> is_start e"
  shows "link_ok (fst (link_step clientId l e))"
proof (cases "lk_stopped l")
  case True
  with assms have "lk_socks l = []" "lk_pending l = []" "lk_ws l = None" by (simp_all add: link_ok_def)
  with True assms(2) show ?thesis
    by (cases e) (auto simp: link_ok_def link_defs split: option.splits)
next
  case False
  with assms consider (sock) i b where "lk_socks l = [(i, b)]" "lk_ws l = Some i" "lk_pending l = []"
    | (timer) t where "lk_socks l = []" "lk_ws l = None" "lk_pending l = [t]" "lk_timer l = Some t"
    by (auto simp: link_ok_def)
  then show ?thesis
  proof cases
    case sock
    with False assms(2) show ?thesis
      by (cases e) (auto simp: link_ok_def link_defs Let_def split: option.splits)
  next
    case timer
    with False assms(2) show ?thesis
      by (cases e) (auto simp: link_ok_def link_defs Let_def split: option.splits)
  qed
qed

interpretation link: event_machine "\<lambda>l e. if is_start e then l else fst (link_step clientId l e)" link_ok for clientId
  by unfold_locales (simp add: link_step_ok)

lemma link_run_state:
  "list_all (\<lambda>e. \<not> is_start e) es \<Longrightarrow>
   fst (link_run clientId l es) = foldl (\<lambda>l e. if is_start e then l else fst (link_step clientId l e)) l es"
  by (induction es arbitrary: l) (auto simp: split_beta Let_def)

lemma stopped_silent:
  assumes "link_ok l" "lk_stopped l" "\<not> is_start e"
  shows "snd (link_step clientId l e) = (if e = Close then [On_Status Closed_Status (lk_attempt l)] else []) \<and>
    lk_stopped (fst (link_step clientId l e))"
  using assms by (cases e) (auto simp: link_ok_def link_defs Let_def split: option.splits)

lemma stopped_run_silent:
  assumes "link_ok l" "lk_stopped l" "list_all (\<lambda>e. \<not> is_start e) es" "Close \<notin> set es"
  shows "snd (link_run clientId l es) = []"
  using assms
proof (induction es arbitrary: l)
  case (Cons e es)
  have "link_ok (fst (link_step clientId l e))" "lk_stopped (fst (link_step clientId l e))"
    "snd (link_step clientId l e) = []"
    using Cons.prems stopped_silent [of l e clientId] link_step_ok [of l e clientId] by auto
  with Cons.IH [of "fst (link_step clientId l e)"] Cons.prems show ?case by (simp add: split_beta Let_def)
qed simp

section \<open>Failing attempts\<close>

text \<open>An attempt that fails before it opens: the timer fires and the new socket closes.\<close>

definition failing_round :: "relay_link \<Rightarrow> rat \<Rightarrow> link_event list" where
  "failing_round l rnd =
     (case lk_pending l of t # _ \<Rightarrow> [Timer_Fired t False rnd, Sock_Closed (lk_fresh l) rnd] | [] \<Rightarrow> [])"

definition waiting :: "nat \<Rightarrow> relay_link \<Rightarrow> bool" where
  "waiting n l \<longleftrightarrow> \<not> lk_stopped l \<and> lk_preOpenFailures l = n \<and> lk_attempt l = n \<and>
     lk_socks l = [] \<and> lk_ws l = None \<and> (\<exists>t. lk_pending l = [t] \<and> lk_timer l = Some t)"

lemma failing_round_step:
  assumes "waiting n l"
  shows "\<exists>l' st t. link_run clientId l (failing_round l rnd) =
      (l', [On_Status (currentStatus l) n, New_Socket (lk_fresh l), On_Status st (Suc n),
            Set_Timer t (backoffDelay n rnd)]) \<and> waiting (Suc n) l' \<and>
      st = (if Suc n \<ge> AUTH_FAILURE_THRESHOLD then Auth_Expired else Reconnecting)"
  using assms by (auto simp: waiting_def failing_round_def link_defs currentStatus_def Let_def)

fun failing_rounds :: "string \<Rightarrow> rat \<Rightarrow> nat \<Rightarrow> relay_link \<Rightarrow> relay_link \<times> link_effect list" where
  "failing_rounds clientId rnd 0 l = (l, [])"
| "failing_rounds clientId rnd (Suc k) l =
     (let (l', effs) = failing_rounds clientId rnd k l in link_run clientId l' (failing_round l' rnd))"

lemma failing_rounds_wait:
  "waiting m l \<Longrightarrow> \<exists>l' effs. failing_rounds clientId rnd k l = (l', effs) \<and> waiting (m + k) l'"
proof (induction k)
  case (Suc k)
  then obtain l' effs where l': "failing_rounds clientId rnd k l = (l', effs)" "waiting (m + k) l'" by blast
  with failing_round_step [OF l'(2), of clientId rnd] show ?case by auto
qed simp

section \<open>Properties\<close>

text \<open>
  The reconnect delay grows and stays bounded: for every attempt and every random value
  in [0, 1) it lies between half of and the whole capped step, so it is at least half a second, below
  thirty seconds, and from the fifth attempt on at least fifteen.
\<close>

theorem backoff_is_bounded:
  assumes "0 \<le> rnd" "rnd < 1"
  shows "500 \<le> backoffDelay n rnd \<and> backoffDelay n rnd < 30000 \<and>
    min (1000 * 2 ^ n) 30000 / 2 \<le> backoffDelay n rnd \<and> backoffDelay n rnd < min (1000 * 2 ^ n) 30000 \<and>
    (5 \<le> n \<longrightarrow> 15000 \<le> backoffDelay n rnd)"
proof -
  define c :: rat where "c = min (1000 * 2 ^ n) 30000"
  define x where "x = rnd * (c / 2)"
  have d: "backoffDelay n rnd = c / 2 + x"
    by (simp add: backoffDelay_def BACKOFF_MIN_MS_def BACKOFF_MAX_MS_def Let_def c_def x_def)
  have "(1 :: rat) \<le> 2 ^ n" by simp
  then have c: "1000 \<le> c" "c \<le> 30000" by (auto simp: c_def)
  have x: "0 \<le> x" "x < c / 2"
    using assms c(1) mult_strict_right_mono [of rnd 1 "c / 2"] by (auto simp: x_def)
  have "c = 30000" if "5 \<le> n"
  proof -
    have "(2 :: rat) ^ 5 \<le> 2 ^ n" using that by (intro power_increasing) auto
    then show ?thesis by (simp add: c_def min_def)
  qed
  then show ?thesis unfolding d c_def [symmetric] using c x by auto
qed

theorem backoff_is_bounded_witness: "500 \<le> backoffDelay 4 (1 / 3) \<and> backoffDelay 4 (1 / 3) < 16000"
  using backoff_is_bounded [of "1 / 3" 4] by simp

text \<open>
  A connection never opens sockets or timers in parallel and \<open>close\<close> is final. After
  \<open>start\<close> and any sequence of callbacks, sends and closes, at most one socket or timer is under way;
  once it is closed, whatever callbacks still arrive, it sends nothing, reports nothing, opens nothing
  and schedules nothing.
\<close>

theorem link_is_single_flight_and_close_is_final:
  fixes clientId throws rnd es es'
  assumes "list_all (\<lambda>e. \<not> is_start e) es" "list_all (\<lambda>e. \<not> is_start e) es'" "Close \<notin> set es'"
  defines "l \<equiv> fst (link_run clientId (fst (link_start throws rnd link_new)) es)"
  shows "length (lk_socks l) + length (lk_pending l) \<le> 1 \<and>
    snd (link_run clientId (fst (link_step clientId l Close)) es') = []"
proof -
  have ok: "link_ok l"
    unfolding l_def link_run_state [OF assms(1)] by (rule link.run_inv) (rule link_start_ok)
  then have "link_ok (fst (link_step clientId l Close))" by (simp add: link_step_ok del: link_step.simps)
  moreover have "lk_stopped (fst (link_step clientId l Close))"
    by (auto simp: link_close_def Let_def split: option.splits)
  ultimately have "snd (link_run clientId (fst (link_step clientId l Close)) es') = []"
    using assms(2,3) by (rule stopped_run_silent)
  moreover have "length (lk_socks l) + length (lk_pending l) \<le> 1"
    using ok by (auto simp: link_ok_def split: if_splits)
  ultimately show ?thesis by blast
qed

theorem link_is_single_flight_and_close_is_final_witness:
  "snd (link_run ''id'' (fst (link_step ''id''
     (fst (link_run ''id'' (fst (link_start False 0 link_new)) [Sock_Opened 0])) Close)) [Sock_Closed 0 0]) = []"
  using link_is_single_flight_and_close_is_final [of "[Sock_Opened 0]" "[Sock_Closed 0 0]" "''id''" False 0] by simp

text \<open>
  Repeated handshake failures are told apart and retrying never stops. Starting from a
  connection that waits after \<open>m\<close> failures, after \<open>k\<close> more attempts that close before they open it
  waits again with a timer set, and the status of the last one is \<open>auth-expired\<close> exactly when three
  or more attempts in a row have failed, \<open>reconnecting\<close> otherwise.
\<close>

theorem handshake_failures_are_classified:
  assumes "waiting m l"
  shows "\<exists>l' st t i d. failing_rounds clientId rnd (Suc k) l =
      (l', [st, New_Socket i, On_Status (if m + Suc k \<ge> 3 then Auth_Expired else Reconnecting) (m + Suc k),
            Set_Timer t d]) \<and> waiting (m + Suc k) l' \<and> d = backoffDelay (m + k) rnd"
proof -
  obtain l' effs where l': "failing_rounds clientId rnd k l = (l', effs)" "waiting (m + k) l'"
    using failing_rounds_wait [OF assms] by blast
  with failing_round_step [OF l'(2), of clientId rnd] show ?thesis
    by (auto simp: AUTH_FAILURE_THRESHOLD_def)
qed

theorem handshake_failures_are_classified_witness:
  "\<exists>l' st t i d. failing_rounds ''id'' 0 2 (fst (link_start True 0 link_new)) =
      (l', [st, New_Socket i, On_Status Auth_Expired 3, Set_Timer t d])"
proof -
  have "waiting 1 (fst (link_start True 0 link_new))"
    by (simp add: waiting_def link_defs link_new_def currentStatus_def Let_def)
  from handshake_failures_are_classified [OF this, of "''id''" 0 1] show ?thesis
    by (auto simp: numeral_2_eq_2)
qed

end
