(* ===== verification/Desktop_Relay.thy ===== *)
theory Desktop_Relay
  imports Desktop_Protocol
begin

text \<open>
  How the desktop client reaches a relay: the URL helpers and the HTTP calls of
  \<open>desktop/src/relay.ts\<close>, and the configuration of \<open>desktop/src/relay-config.ts\<close>. \<open>do_fetch\<close> is the
  platform's \<open>fetch\<close> (\<open>None\<close> when it rejects), and \<open>parse_url\<close> its \<open>URL\<close> constructor, which yields
  the protocol and the host or throws. The localized texts of the errors are constructors of
  \<open>relay_error\<close>; a thrown error is \<open>Inl\<close>.
\<close>

section \<open>URL helpers\<close>

definition has_scheme :: "string \<Rightarrow> bool" where
  "has_scheme u \<longleftrightarrow> iprefix ''ws://'' u \<or> iprefix ''wss://'' u \<or> iprefix ''http://'' u \<or> iprefix ''https://'' u"

definition with_scheme :: "string \<Rightarrow> string" where
  "with_scheme u = (if has_scheme u then u else ''ws://'' @ u)"

definition scheme_length :: "string \<Rightarrow> nat option" where
  "scheme_length u =
     (if iprefix ''wss://'' u then Some 6 else if iprefix ''ws://'' u then Some 5
      else if iprefix ''https://'' u then Some 8 else if iprefix ''http://'' u then Some 7 else None)"

text \<open>\<open>/^(wss?|https?):\/\/[^/]+/i\<close>.\<close>

definition origin_match :: "string \<Rightarrow> string option" where
  "origin_match u =
     (case scheme_length u of
        None \<Rightarrow> None
      | Some n \<Rightarrow>
          (let host = takeWhile (\<lambda>c. c \<noteq> CHR ''/'') (drop n u)
           in if host = [] then None else Some (take n u @ host)))"

definition httpBaseFromWs :: "string \<Rightarrow> string" where
  "httpBaseFromWs wsUrl =
     (let u = with_scheme (js_trim wsUrl);
          v = (case origin_match u of Some m \<Rightarrow> m | None \<Rightarrow> strip_trailing_slashes u)
      in if iprefix ''wss:'' v then ''https:'' @ drop 4 v
         else if iprefix ''ws:'' v then ''http:'' @ drop 3 v
         else v)"

definition wsBaseNormalized :: "string \<Rightarrow> string" where
  "wsBaseNormalized wsUrl =
     (let v = strip_trailing_slashes (with_scheme (js_trim wsUrl))
      in if iprefix ''https:'' v then ''wss:'' @ drop 6 v
         else if iprefix ''http:'' v then ''ws:'' @ drop 5 v
         else v)"

text \<open>\<open>norm.match(/^(wss?:\/\/[^/]+)/i)\<close>.\<close>

definition wsOriginFromRelay :: "string \<Rightarrow> string" where
  "wsOriginFromRelay relayUrl =
     (let norm = wsBaseNormalized relayUrl
      in if iprefix ''ws://'' norm \<or> iprefix ''wss://'' norm
         then (case origin_match norm of Some m \<Rightarrow> m | None \<Rightarrow> norm) else norm)"

definition participantWsEndpoint :: "string \<Rightarrow> string" where
  "participantWsEndpoint wsUrl = wsBaseNormalized wsUrl @ ''/ws/participant''"

definition participantTicketProtocol :: "string \<Rightarrow> string" where
  "participantTicketProtocol ticket = ''pie-relay.ticket.'' @ ticket"

text \<open>\<open>replace(/:\d+$/, "")\<close> and \<open>replace(/^\[|\]$/g, "")\<close>.\<close>

definition strip_port :: "string \<Rightarrow> string" where
  "strip_port h =
     (let r = rev h; ds = takeWhile is_digit r; rest = dropWhile is_digit r
      in if ds \<noteq> [] \<and> take 1 rest = '':'' then rev (tl rest) else h)"

definition strip_brackets :: "string \<Rightarrow> string" where
  "strip_brackets h =
     (let a = (if take 1 h = ''['' then tl h else h)
      in if a \<noteq> [] \<and> last a = CHR '']'' then butlast a else a)"

definition strip_ws_scheme :: "string \<Rightarrow> string" where
  "strip_ws_scheme u = (if iprefix ''ws://'' u then drop 5 u else if iprefix ''wss://'' u then drop 6 u else u)"

definition isLoopbackRelay :: "string \<Rightarrow> bool" where
  "isLoopbackRelay relayUrl \<longleftrightarrow>
     (let host = strip_port (strip_ws_scheme (wsOriginFromRelay relayUrl));
          bare = map ascii_lower (strip_brackets host)
      in bare = ''127.0.0.1'' \<or> bare = ''localhost'' \<or> bare = ''::1'')"

section \<open>Requests\<close>

datatype relay_error =
    Relay_Unreachable string \<comment> \<open>the base address\<close>
  | Invite_Refused
  | Http_Failed nat string \<comment> \<open>status, trimmed body\<close>
  | No_Code_In_Response
  | No_Token_In_Response
  | Device_And_Session_Together
  | Enroll_Key_Wrong
  | Enroll_Key_Needed
  | Enroll_Disabled
  | Invite_Code_Invalid
  | Unreadable_Response \<comment> \<open>\<open>resp.json()\<close> throws, or the value is \<open>null\<close>\<close>
  | Bad_Relay_Url string
  | Bad_Relay_Protocol

datatype invite_access = Access_V | Access_C

definition access_name :: "invite_access \<Rightarrow> string" where
  "access_name a = (case a of Access_V \<Rightarrow> ''view'' | Access_C \<Rightarrow> ''control'')"

record invite_result =
  ir_code :: json
  ir_expiresAt :: json
  ir_access :: invite_access

record enroll_options =
  eo_secret :: "string option"
  eo_room :: "string option"
  eo_name :: "string option"
  eo_deviceId :: "string option"
  eo_sessionId :: "string option"

record session_result =
  sr_token :: json
  sr_room :: json
  sr_expiresAt :: "json option" \<comment> \<open>only of an enrolment\<close>
  sr_deviceId :: "json option"
  sr_sessionId :: "json option"
  sr_executionTarget :: "json option"

definition body_text :: "fetch_response \<Rightarrow> string" where
  "body_text r = js_trim (case rsp_text r of Some t \<Rightarrow> t | None \<Rightarrow> [])"

text \<open>\<open>(await resp.json()).k\<close>: reading a property of \<open>null\<close> throws.\<close>

definition response_object :: "fetch_response \<Rightarrow> relay_error + json" where
  "response_object r =
     (case rsp_json r of None \<Rightarrow> Inl Unreadable_Response | Some JNull \<Rightarrow> Inl Unreadable_Response | Some j \<Rightarrow> Inr j)"

definition granted_access :: "json \<Rightarrow> invite_access option \<Rightarrow> invite_access" where
  "granted_access data access =
     (if jprop data ''access'' = Some (JStr ''view'') then Access_V
      else if jprop data ''access'' = Some (JStr ''control'') then Access_C
      else (case access of Some a \<Rightarrow> a | None \<Rightarrow> Access_C))"

definition invite_request :: "string \<Rightarrow> string \<Rightarrow> invite_access option \<Rightarrow> fetch_request" where
  "invite_request base ticket access =
     \<lparr>fr_url = base @ ''/rooms/invites'', fr_method = ''POST'',
      fr_headers = [(''Authorization'', ''Bearer '' @ ticket)] @
        (case access of Some _ \<Rightarrow> [(''Content-Type'', ''application/json'')] | None \<Rightarrow> []),
      fr_body = map_option (\<lambda>a. JObj [(''access'', JStr (access_name a))]) access\<rparr>"

definition createInvite ::
  "(fetch_request \<Rightarrow> fetch_response option) \<Rightarrow> string \<Rightarrow> string \<Rightarrow> invite_access option \<Rightarrow> relay_error + invite_result" where
  "createInvite do_fetch wsUrl ticket access =
     (let base = httpBaseFromWs wsUrl in
      case do_fetch (invite_request base ticket access) of
        None \<Rightarrow> Inl (Relay_Unreachable base)
      | Some resp \<Rightarrow>
          if rsp_status resp = 401 \<or> rsp_status resp = 403 then Inl Invite_Refused
          else if \<not> rsp_ok resp then Inl (Http_Failed (rsp_status resp) (body_text resp))
          else (case response_object resp of
                  Inl e \<Rightarrow> Inl e
                | Inr data \<Rightarrow>
                    (case jprop data ''code'' of
                       Some code \<Rightarrow>
                         (if truthy (Some code)
                          then Inr \<lparr>ir_code = code, ir_expiresAt = nullish_or (jprop data ''expiresAt'') (JNum (Fin 0)),
                                    ir_access = granted_access data access\<rparr>
                          else Inl No_Code_In_Response)
                     | None \<Rightarrow> Inl No_Code_In_Response)))"

text \<open>\<open>opts.k?.trim()\<close>, blank when absent.\<close>

definition trimmed :: "string option \<Rightarrow> string" where
  "trimmed v = (case v of Some s \<Rightarrow> js_trim s | None \<Rightarrow> [])"

definition enroll_body :: "enroll_options \<Rightarrow> (string \<times> json) list" where
  "enroll_body opts =
     (if trimmed (eo_secret opts) \<noteq> [] then [(''secret'', JStr (trimmed (eo_secret opts)))] else []) @
     (if trimmed (eo_room opts) \<noteq> [] then [(''room'', JStr (trimmed (eo_room opts)))] else []) @
     (if trimmed (eo_name opts) \<noteq> [] then [(''name'', JStr (trimmed (eo_name opts)))] else []) @
     (if trimmed (eo_deviceId opts) \<noteq> [] \<and> trimmed (eo_sessionId opts) \<noteq> []
      then [(''deviceId'', JStr (trimmed (eo_deviceId opts))), (''sessionId'', JStr (trimmed (eo_sessionId opts)))]
      else [])"

definition json_post :: "string \<Rightarrow> (string \<times> json) list \<Rightarrow> fetch_request" where
  "json_post url body =
     \<lparr>fr_url = url, fr_method = ''POST'', fr_headers = [(''Content-Type'', ''application/json'')],
      fr_body = Some (JObj body)\<rparr>"

definition session_of :: "bool \<Rightarrow> json \<Rightarrow> relay_error + session_result" where
  "session_of enrol data =
     (case jprop data ''token'' of
        Some token \<Rightarrow>
          (if truthy (Some token)
           then Inr \<lparr>sr_token = token, sr_room = nullish_or (jprop data ''room'') (JStr []),
                     sr_expiresAt = (if enrol then Some (nullish_or (jprop data ''expiresAt'') (JNum (Fin 0))) else None),
                     sr_deviceId = jprop data ''deviceId'', sr_sessionId = jprop data ''sessionId'',
                     sr_executionTarget = jprop data ''executionTarget''\<rparr>
           else Inl No_Token_In_Response)
      | None \<Rightarrow> Inl No_Token_In_Response)"

definition enrollHost ::
  "(fetch_request \<Rightarrow> fetch_response option) \<Rightarrow> string \<Rightarrow> enroll_options \<Rightarrow> relay_error + session_result" where
  "enrollHost do_fetch relayUrl opts =
     (let base = httpBaseFromWs relayUrl;
          deviceId = trimmed (eo_deviceId opts); sessionId = trimmed (eo_sessionId opts) in
      if (deviceId \<noteq> []) \<noteq> (sessionId \<noteq> []) then Inl Device_And_Session_Together
      else case do_fetch (json_post (base @ ''/host/enroll'') (enroll_body opts)) of
          None \<Rightarrow> Inl (Relay_Unreachable base)
        | Some resp \<Rightarrow>
            if rsp_status resp = 401 \<or> rsp_status resp = 403
            then Inl (if trimmed (eo_secret opts) \<noteq> [] then Enroll_Key_Wrong else Enroll_Key_Needed)
            else if rsp_status resp = 503 then Inl Enroll_Disabled
            else if \<not> rsp_ok resp then Inl (Http_Failed (rsp_status resp) (body_text resp))
            else (case response_object resp of Inl e \<Rightarrow> Inl e | Inr data \<Rightarrow> session_of True data))"

definition join_room ::
  "(fetch_request \<Rightarrow> fetch_response option) \<Rightarrow> string \<Rightarrow> string \<Rightarrow> string \<Rightarrow> relay_error + session_result" where
  "join_room do_fetch wsUrl code name =
     (let base = httpBaseFromWs wsUrl in
      case do_fetch (json_post (base @ ''/rooms/join'') [(''code'', JStr code), (''name'', JStr name)]) of
        None \<Rightarrow> Inl (Relay_Unreachable base)
      | Some resp \<Rightarrow>
          if \<not> rsp_ok resp
          then Inl (if rsp_status resp = 401 then Invite_Code_Invalid
                    else Http_Failed (rsp_status resp) (body_text resp))
          else (case response_object resp of Inl e \<Rightarrow> Inl e | Inr data \<Rightarrow> session_of False data))"

section \<open>Configuration\<close>

definition DEFAULT_RELAY_ORIGIN :: string where "DEFAULT_RELAY_ORIGIN = ''https://relay.cookai.dev''"

record desktop_relay_config =
  drc_httpOrigin :: string
  drc_wsOrigin :: string
  drc_agentUrl :: string
  drc_participantUrl :: string
  drc_storageKey :: string

definition nonEmpty :: "json option \<Rightarrow> string option" where
  "nonEmpty v = (case as_string v of Some s \<Rightarrow> (if js_trim s \<noteq> [] then Some (js_trim s) else None) | None \<Rightarrow> None)"

definition resolveRelayConfig ::
  "(string \<Rightarrow> (string \<times> string) option) \<Rightarrow> json option \<Rightarrow> relay_error + desktop_relay_config" where
  "resolveRelayConfig parse_url relayUrl =
     (let configured = (case nonEmpty relayUrl of Some s \<Rightarrow> s | None \<Rightarrow> DEFAULT_RELAY_ORIGIN) in
      case parse_url configured of
        None \<Rightarrow> Inl (Bad_Relay_Url configured)
      | Some (protocol, host) \<Rightarrow>
          if protocol \<notin> {''http:'', ''https:'', ''ws:'', ''wss:''} then Inl Bad_Relay_Protocol
          else (let secure = (protocol = ''https:'' \<or> protocol = ''wss:'');
                    httpOrigin = (if secure then ''https'' else ''http'') @ ''://'' @ host;
                    wsOrigin = (if secure then ''wss'' else ''ws'') @ ''://'' @ host
                in Inr \<lparr>drc_httpOrigin = httpOrigin, drc_wsOrigin = wsOrigin, drc_agentUrl = wsOrigin @ ''/ws/agent'',
                        drc_participantUrl = wsOrigin, drc_storageKey = httpOrigin\<rparr>))"

text \<open>
  \<open>loadRelayConfig\<close>: outside Tauri the build value is used; inside, the runtime value of the command
  (\<open>None\<close> when it fails) comes first. The resolution inside the \<open>try\<close> may throw too, and then the
  build value is used.
\<close>

definition loadRelayConfig_desktop ::
  "(string \<Rightarrow> (string \<times> string) option) \<Rightarrow> bool \<Rightarrow> json option \<Rightarrow> json option \<Rightarrow> relay_error + desktop_relay_config" where
  "loadRelayConfig_desktop parse_url tauri runtime buildUrl =
     (if \<not> tauri then resolveRelayConfig parse_url buildUrl
      else case runtime of
          None \<Rightarrow> resolveRelayConfig parse_url buildUrl
        | Some env \<Rightarrow>
            (case resolveRelayConfig parse_url
                (case nonEmpty (jprop env ''relayUrl'') of Some s \<Rightarrow> Some (JStr s) | None \<Rightarrow> buildUrl) of
               Inr cfg \<Rightarrow> Inr cfg
             | Inl _ \<Rightarrow> resolveRelayConfig parse_url buildUrl))"

section \<open>Lemmas\<close>

lemma iprefix_simps [simp]:
  "iprefix [] s" "\<not> iprefix (p # ps) []"
  "iprefix (p # ps) (c # cs) \<longleftrightarrow> ascii_lower c = p \<and> iprefix ps cs"
  by (auto simp: iprefix_def)

lemma ascii_lower_scheme [simp]:
  "ascii_lower CHR ''w'' = CHR ''w''" "ascii_lower CHR ''s'' = CHR ''s''" "ascii_lower CHR '':'' = CHR '':''"
  "ascii_lower CHR ''/'' = CHR ''/''" "ascii_lower CHR ''h'' = CHR ''h''" "ascii_lower CHR ''t'' = CHR ''t''"
  "ascii_lower CHR ''p'' = CHR ''p''"
  by (simp_all add: ascii_lower_def)

lemma scheme_length_simps [simp]:
  "scheme_length (''ws://'' @ r) = Some 5" "scheme_length (''wss://'' @ r) = Some 6"
  "scheme_length (''http://'' @ r) = Some 7" "scheme_length (''https://'' @ r) = Some 8"
  by (simp_all add: scheme_length_def)

text \<open>The four schemes and the HTTP scheme each becomes.\<close>

definition schemes :: "(string \<times> string) list" where
  "schemes = [(''ws://'', ''http://''), (''wss://'', ''https://''), (''http://'', ''http://''), (''https://'', ''https://'')]"

lemma httpBase_of_origin:
  assumes "(s, h) \<in> set schemes" "host \<noteq> []" "CHR ''/'' \<notin> set host" "js_trim (s @ host @ rest) = s @ host @ rest"
    and "rest = [] \<or> hd rest = CHR ''/''"
  shows "httpBaseFromWs (s @ host @ rest) = h @ host"
proof -
  have tw: "takeWhile (\<lambda>c. c \<noteq> CHR ''/'') (host @ rest) = host"
    using assms(3,5) by (cases rest) (auto simp: takeWhile_append)
  have scheme: "with_scheme (s @ r) = s @ r" "scheme_length (s @ r) = Some (length s)" for r
    using assms(1) by (auto simp: schemes_def with_scheme_def has_scheme_def scheme_length_def)
  have "origin_match (s @ host @ rest) = Some (s @ host)"
    using assms(2) tw by (simp add: origin_match_def scheme)
  then have "httpBaseFromWs (s @ host @ rest) =
      (if iprefix ''wss:'' (s @ host) then ''https:'' @ drop 4 (s @ host)
       else if iprefix ''ws:'' (s @ host) then ''http:'' @ drop 3 (s @ host) else s @ host)"
    unfolding httpBaseFromWs_def assms(4) scheme(1) Let_def by simp
  then show ?thesis using assms(1) by (auto simp: schemes_def)
qed

section \<open>Properties\<close>

text \<open>
  The HTTP base of a relay address is the same host and port over the corresponding scheme:
  whatever path follows, \<open>ws\<close> becomes \<open>http\<close>, \<open>wss\<close> becomes \<open>https\<close>, an HTTP address is kept, the path
  is dropped, and taking the base again changes nothing. A secure address never becomes an insecure one.
\<close>

theorem http_base_keeps_host_and_security:
  assumes "(s, h) \<in> set schemes" "host \<noteq> []" "CHR ''/'' \<notin> set host"
    and "rest = [] \<or> hd rest = CHR ''/''" "js_trim (s @ host @ rest) = s @ host @ rest" "js_trim (h @ host) = h @ host"
  shows "httpBaseFromWs (s @ host @ rest) = h @ host \<and> httpBaseFromWs (h @ host) = h @ host \<and>
    (s \<in> {''wss://'', ''https://''} \<longleftrightarrow> h = ''https://'')"
proof -
  have "(h, h) \<in> set schemes" using assms(1) by (auto simp: schemes_def)
  then have "httpBaseFromWs (h @ host @ []) = h @ host"
    using assms(2,3,6) by (intro httpBase_of_origin) simp_all
  moreover have "s \<in> {''wss://'', ''https://''} \<longleftrightarrow> h = ''https://''" using assms(1) by (auto simp: schemes_def)
  ultimately show ?thesis using httpBase_of_origin [OF assms(1,2,3,5,4)] by simp
qed

theorem http_base_keeps_host_and_security_witness:
  "httpBaseFromWs ''wss://relay:443/ws/agent'' = ''https://relay:443''"
proof -
  have "httpBaseFromWs (''wss://'' @ ''relay:443'' @ ''/ws/agent'') = ''https://'' @ ''relay:443''"
    using http_base_keeps_host_and_security [of "''wss://''" "''https://''" "''relay:443''" "''/ws/agent''"]
    by (simp add: schemes_def js_trim_def js_space_def)
  then show ?thesis by simp
qed

text \<open>
  Enrolment sends an identity completely or not at all. If exactly one of device id and
  session id is given, the call fails before any request is made, whatever the relay would answer;
  otherwise the body has both or neither, and the key is sent only when it is not blank.
\<close>

theorem enroll_sends_identity_in_pairs:
  "((trimmed (eo_deviceId opts) = []) \<noteq> (trimmed (eo_sessionId opts) = []) \<longrightarrow>
      enrollHost do_fetch relayUrl opts = Inl Device_And_Session_Together) \<and>
   (jprop (JObj (enroll_body opts)) ''deviceId'' = None \<longleftrightarrow> jprop (JObj (enroll_body opts)) ''sessionId'' = None) \<and>
   (jprop (JObj (enroll_body opts)) ''secret'' =
      (if trimmed (eo_secret opts) = [] then None else Some (JStr (trimmed (eo_secret opts)))))"
  by (auto simp: enrollHost_def enroll_body_def Let_def)

theorem enroll_sends_identity_in_pairs_witness:
  "enrollHost (\<lambda>_. None) ''ws://r''
     \<lparr>eo_secret = None, eo_room = None, eo_name = None, eo_deviceId = Some ''d'', eo_sessionId = Some '' ''\<rparr> =
   Inl Device_And_Session_Together"
  using enroll_sends_identity_in_pairs [of
      "\<lparr>eo_secret = None, eo_room = None, eo_name = None, eo_deviceId = Some ''d'', eo_sessionId = Some '' ''\<rparr>"
      "\<lambda>_. None" "''ws://r''"]
  by (simp add: trimmed_def js_trim_def js_space_def)

text \<open>
  The grade shown for an invite is the one the relay echoes. When the relay echoes none, as
  a legacy relay does, it is the requested one and control only if none was requested: an invite
  requested as \<open>view\<close> is shown as \<open>view\<close> although such a relay grants control.
\<close>

theorem invite_grade_shown:
  assumes "createInvite do_fetch wsUrl ticket access = Inr r"
  shows "\<exists>resp data. do_fetch (invite_request (httpBaseFromWs wsUrl) ticket access) = Some resp \<and>
    rsp_ok resp \<and> rsp_json resp = Some data \<and> jprop data ''code'' = Some (ir_code r) \<and>
    (ir_access r = Access_V \<longleftrightarrow>
      jprop data ''access'' = Some (JStr ''view'') \<or>
      jprop data ''access'' \<noteq> Some (JStr ''control'') \<and> access = Some Access_V)"
proof -
  obtain resp data where resp: "do_fetch (invite_request (httpBaseFromWs wsUrl) ticket access) = Some resp" "rsp_ok resp"
      and data: "response_object resp = Inr data" "jprop data ''code'' = Some (ir_code r)"
      and acc: "ir_access r = granted_access data access"
    using assms by (auto simp: createInvite_def Let_def split: option.splits if_splits sum.splits)
  have "rsp_json resp = Some data"
    using data(1) by (auto simp: response_object_def split: option.splits json.splits)
  with resp data(2) acc show ?thesis by (auto simp: granted_access_def split: option.splits)
qed

theorem invite_grade_shown_witness:
  "\<exists>r. createInvite (\<lambda>_. Some \<lparr>rsp_ok = True, rsp_status = 200, rsp_json = Some (JObj [(''code'', JStr ''c'')]), rsp_text = None\<rparr>)
     ''ws://r'' ''t'' (Some Access_V) = Inr r \<and> ir_access r = Access_V"
proof -
  let ?f = "\<lambda>_ :: fetch_request. Some \<lparr>rsp_ok = True, rsp_status = 200, rsp_json = Some (JObj [(''code'', JStr ''c'')]), rsp_text = None\<rparr>"
  obtain r where r: "createInvite ?f ''ws://r'' ''t'' (Some Access_V) = Inr r"
    by (simp add: createInvite_def response_object_def Let_def)
  from invite_grade_shown [OF this] have "ir_access r = Access_V" by auto
  with r show ?thesis by blast
qed

end
