(* ===== verification/E2ee_Framing.thy ===== *)
theory E2ee_Framing
  imports Base64
begin

text \<open>
  The frames of the end-to-end encrypted mobile channel (\<open>src/shared/mobile-e2ee-v2-framing.ts\<close>):
  the header and the nonce are fixed layouts of session id, direction, payload kind and counter, and
  the frame is the nonce followed by the authenticated box of header and payload. The package
  \<open>tweetnacl\<close> is an argument: its \<open>secretbox\<close>, \<open>secretbox.open\<close> and their lengths. What the code
  relies on of it is \<open>nacl_ok\<close>: opening a box with the nonce and the key it was made with gives the
  message back, and a box is longer than its message by the overhead. Counters are unbounded
  integers, as the \<open>bigint\<close>s of the code.
\<close>

unbundle bit_operations_syntax

section \<open>The package tweetnacl\<close>

record nacl_lib =
  nl_secretbox :: "bytes \<Rightarrow> bytes \<Rightarrow> bytes \<Rightarrow> bytes" \<comment> \<open>message, nonce, key\<close>
  nl_open :: "bytes \<Rightarrow> bytes \<Rightarrow> bytes \<Rightarrow> bytes option" \<comment> \<open>box, nonce, key\<close>
  nl_keyLength :: nat
  nl_overheadLength :: nat

definition nacl_ok :: "nacl_lib \<Rightarrow> bool" where
  "nacl_ok nacl \<longleftrightarrow>
     (\<forall>m n k. length n = 24 \<and> length k = nl_keyLength nacl \<longrightarrow>
        nl_open nacl (nl_secretbox nacl m n k) n k = Some m \<and>
        length (nl_secretbox nacl m n k) = length m + nl_overheadLength nacl)"

section \<open>Frames\<close>

datatype e2ee_direction = Mobile_To_Desktop | Desktop_To_Mobile
datatype payload_kind = Text_Payload | Binary_Payload

datatype e2ee_error =
    Invalid_Key_Length nat
  | Invalid_Session_Id_Length nat
  | Invalid_Counter int
  | Invalid_Length string nat nat \<comment> \<open>label, expected, actual\<close>
  | Ready_Not_Accepted
  | Invalid_Base64

definition NONCE_LENGTH :: nat where "NONCE_LENGTH = 24"
definition SESSION_ID_LENGTH :: nat where "SESSION_ID_LENGTH = 32"
definition HEADER_LENGTH :: nat where "HEADER_LENGTH = SESSION_ID_LENGTH + 1 + 1 + 8"
definition FRAME_VERSION :: byte where "FRAME_VERSION = 2"
definition MAX_COUNTER :: int where "MAX_COUNTER = 2 ^ 64 - 1"

record frame_args =
  fa_sessionId :: bytes
  fa_direction :: e2ee_direction
  fa_payloadKind :: payload_kind
  fa_counter :: int

definition directionByte :: "e2ee_direction \<Rightarrow> byte" where
  "directionByte d = (case d of Mobile_To_Desktop \<Rightarrow> 0 | Desktop_To_Mobile \<Rightarrow> 1)"

definition payloadKindByte :: "payload_kind \<Rightarrow> byte" where
  "payloadKindByte k = (case k of Text_Payload \<Rightarrow> 0 | Binary_Payload \<Rightarrow> 1)"

text \<open>
  \<open>writeUint64\<close>: the loop over the eight places from the last to the first; place \<open>i\<close> gets the low
  byte of what is left, and then the value is shifted.
\<close>

fun write_uint64_loop :: "nat \<Rightarrow> nat \<Rightarrow> nat \<Rightarrow> bytes \<Rightarrow> bytes" where
  "write_uint64_loop offset 0 remaining target = target"
| "write_uint64_loop offset (Suc i) remaining target =
     write_uint64_loop offset i (drop_bit 8 remaining) (target[offset + i := word_of_nat (remaining AND 255)])"

definition writeUint64 :: "bytes \<Rightarrow> nat \<Rightarrow> int \<Rightarrow> bytes" where
  "writeUint64 target offset v = write_uint64_loop offset 8 (nat v) target"

text \<open>\<open>target.set(source, offset)\<close>.\<close>

definition set_bytes :: "bytes \<Rightarrow> bytes \<Rightarrow> nat \<Rightarrow> bytes" where
  "set_bytes target source offset = take offset target @ source @ drop (offset + length source) target"

definition encodeHeader :: "frame_args \<Rightarrow> bytes" where
  "encodeHeader a =
     (let h0 = set_bytes (replicate HEADER_LENGTH 0) (fa_sessionId a) 0;
          h1 = h0[SESSION_ID_LENGTH := directionByte (fa_direction a)];
          h2 = h1[SESSION_ID_LENGTH + 1 := payloadKindByte (fa_payloadKind a)]
      in writeUint64 h2 (SESSION_ID_LENGTH + 2) (fa_counter a))"

definition encodeNonce :: "frame_args \<Rightarrow> bytes" where
  "encodeNonce a =
     (let n0 = set_bytes (replicate NONCE_LENGTH 0) (take 12 (fa_sessionId a)) 0;
          n1 = n0[12 := FRAME_VERSION];
          n2 = n1[13 := directionByte (fa_direction a)];
          n3 = n2[14 := payloadKindByte (fa_payloadKind a)];
          n4 = n3[15 := 0]
      in writeUint64 n4 16 (fa_counter a))"

definition validateFrameInputs :: "nacl_lib \<Rightarrow> bytes \<Rightarrow> bytes \<Rightarrow> int \<Rightarrow> e2ee_error option" where
  "validateFrameInputs nacl key sessionId counter =
     (if length key \<noteq> nl_keyLength nacl then Some (Invalid_Key_Length (length key))
      else if length sessionId \<noteq> SESSION_ID_LENGTH then Some (Invalid_Session_Id_Length (length sessionId))
      else if counter < 0 \<or> counter > MAX_COUNTER then Some (Invalid_Counter counter)
      else None)"

text \<open>The comparison without early exit.\<close>

definition equalBytes :: "bytes \<Rightarrow> bytes \<Rightarrow> bool" where
  "equalBytes left right \<longleftrightarrow>
     length left = length right \<and>
     foldl (\<lambda>difference (x, y). difference OR (x XOR y)) 0 (zip left right) = 0"

definition sealMobileE2EEV2Frame :: "nacl_lib \<Rightarrow> bytes \<Rightarrow> frame_args \<Rightarrow> bytes \<Rightarrow> e2ee_error + bytes" where
  "sealMobileE2EEV2Frame nacl key a payload =
     (case validateFrameInputs nacl key (fa_sessionId a) (fa_counter a) of
        Some e \<Rightarrow> Inl e
      | None \<Rightarrow>
          (let nonce = encodeNonce a
           in Inr (nonce @ nl_secretbox nacl (encodeHeader a @ payload) nonce key)))"

definition openMobileE2EEV2Frame :: "nacl_lib \<Rightarrow> bytes \<Rightarrow> frame_args \<Rightarrow> bytes \<Rightarrow> e2ee_error + bytes option" where
  "openMobileE2EEV2Frame nacl key a frame =
     (case validateFrameInputs nacl key (fa_sessionId a) (fa_counter a) of
        Some e \<Rightarrow> Inl e
      | None \<Rightarrow>
          Inr (if length frame < NONCE_LENGTH + nl_overheadLength nacl + HEADER_LENGTH then None
               else (let nonce = encodeNonce a in
                     if \<not> equalBytes (take NONCE_LENGTH frame) nonce then None
                     else (case nl_open nacl (drop NONCE_LENGTH frame) nonce key of
                             None \<Rightarrow> None
                           | Some plaintext \<Rightarrow>
                               (if \<not> equalBytes (take HEADER_LENGTH plaintext) (encodeHeader a) then None
                                else Some (drop HEADER_LENGTH plaintext))))))"

section \<open>Layouts\<close>

lemmas frame_lengths = NONCE_LENGTH_def SESSION_ID_LENGTH_def HEADER_LENGTH_def

lemma and_255: "r AND 255 = r mod 256" for r :: nat
proof -
  have "mask 8 = (255 :: nat)" by (simp add: mask_eq_exp_minus_1)
  then show ?thesis using take_bit_eq_mask [of 8 r] by (simp add: take_bit_eq_mod)
qed

lemma byte_at_low: "word_of_nat (r AND 255) = byte_at 0 r"
  by (rule word_unat_eq_iff [THEN iffD2]) (simp add: and_255 byte_at_def unat_of_nat)

lemma be_bytes_snoc: "be_bytes (Suc n) v = be_bytes n (v div 256) @ [byte_at 0 v]"
proof (induction n arbitrary: v)
  case (Suc n)
  have "byte_at (Suc n) v = byte_at n (v div 256)" by (simp add: byte_at_def div_mult2_eq)
  with Suc show ?case by simp
qed simp

lemma write_uint64_loop_layout:
  "offset + n \<le> length target \<Longrightarrow>
   write_uint64_loop offset n r target = take offset target @ be_bytes n r @ drop (offset + n) target"
proof (induction n arbitrary: r target)
  case (Suc n)
  let ?t = "target[offset + n := byte_at 0 r]"
  have lt: "offset + n < length target" using Suc.prems by simp
  have "drop (offset + n) ?t = byte_at 0 r # drop (offset + Suc n) target"
    using lt by (simp add: Cons_nth_drop_Suc [symmetric])
  moreover have "take offset ?t = take offset target" by simp
  moreover have "drop_bit 8 r = r div 256" by (simp add: drop_bit_eq_div)
  ultimately show ?case
    using Suc.IH [of ?t "r div 256"] Suc.prems
    by (simp add: byte_at_low be_bytes_snoc del: be_bytes.simps)
qed simp

lemma writeUint64_layout:
  "offset + 8 \<le> length target \<Longrightarrow>
   writeUint64 target offset v = take offset target @ be_bytes 8 (nat v) @ drop (offset + 8) target"
  by (simp add: writeUint64_def write_uint64_loop_layout)

lemma encodeHeader_layout:
  assumes "length (fa_sessionId a) = 32"
  shows "encodeHeader a = fa_sessionId a @ [directionByte (fa_direction a), payloadKindByte (fa_payloadKind a)] @
    be_bytes 8 (nat (fa_counter a))"
proof -
  have ten: "replicate 10 (0 :: byte) = 0 # 0 # replicate 8 0" by (simp add: eval_nat_numeral)
  have "set_bytes (replicate HEADER_LENGTH 0) (fa_sessionId a) 0 = fa_sessionId a @ 0 # 0 # replicate 8 0"
    using assms by (simp add: set_bytes_def frame_lengths flip: ten)
  with assms show ?thesis
    by (simp add: encodeHeader_def Let_def frame_lengths list_update_append writeUint64_layout nth_append)
qed

lemma encodeNonce_layout:
  assumes "length (fa_sessionId a) = 32"
  shows "encodeNonce a = take 12 (fa_sessionId a) @
    [FRAME_VERSION, directionByte (fa_direction a), payloadKindByte (fa_payloadKind a), 0] @
    be_bytes 8 (nat (fa_counter a))"
proof -
  have ten: "replicate 12 (0 :: byte) = 0 # 0 # 0 # 0 # replicate 8 0" by (simp add: eval_nat_numeral)
  have "set_bytes (replicate NONCE_LENGTH 0) (take 12 (fa_sessionId a)) 0 =
      take 12 (fa_sessionId a) @ 0 # 0 # 0 # 0 # replicate 8 0"
    using assms by (simp add: set_bytes_def frame_lengths flip: ten)
  with assms show ?thesis
    by (simp add: encodeNonce_def Let_def frame_lengths list_update_append writeUint64_layout nth_append)
qed

lemma length_encodeNonce: "length (fa_sessionId a) = 32 \<Longrightarrow> length (encodeNonce a) = 24"
  by (simp add: encodeNonce_layout)

lemma length_encodeHeader: "length (fa_sessionId a) = 32 \<Longrightarrow> length (encodeHeader a) = 42"
  by (simp add: encodeHeader_layout)

lemma equalBytes_fold: "foldl (\<lambda>d (x, y). d OR (x XOR y)) d ps = (0 :: byte) \<longleftrightarrow> d = 0 \<and> (\<forall>(x, y) \<in> set ps. x = y)"
proof (induction ps arbitrary: d)
  case (Cons p ps)
  obtain x y where p: "p = (x, y)" by fastforce
  have "x XOR y = 0 \<longleftrightarrow> x = y" by (auto simp: bit_eq_iff bit_simps)
  then have "d OR (x XOR y) = 0 \<longleftrightarrow> d = 0 \<and> x = y" by (simp add: or_eq_0_iff)
  with Cons p show ?case by auto
qed simp

lemma equalBytes_iff: "equalBytes l r \<longleftrightarrow> l = r"
proof
  assume "equalBytes l r"
  then have "length l = length r" "\<forall>(x, y) \<in> set (zip l r). x = y"
    using equalBytes_fold [of 0 "zip l r"] by (auto simp: equalBytes_def)
  then show "l = r" by (induction l r rule: list_induct2) auto
next
  assume "l = r"
  then show "equalBytes l r"
    using equalBytes_fold [of 0 "zip r r"] by (auto simp: equalBytes_def in_set_zip)
qed

section \<open>Sealing and opening\<close>

definition args_ok :: "frame_args \<Rightarrow> bool" where
  "args_ok a \<longleftrightarrow> length (fa_sessionId a) = 32 \<and> 0 \<le> fa_counter a \<and> fa_counter a \<le> MAX_COUNTER"

lemma validate_ok: "args_ok a \<Longrightarrow> length key = nl_keyLength nacl \<Longrightarrow>
    validateFrameInputs nacl key (fa_sessionId a) (fa_counter a) = None"
  by (simp add: args_ok_def validateFrameInputs_def frame_lengths)

lemma validate_SomeD: "validateFrameInputs nacl key (fa_sessionId a) (fa_counter a) = None \<Longrightarrow>
    args_ok a \<and> length key = nl_keyLength nacl"
  by (auto simp: args_ok_def validateFrameInputs_def frame_lengths split: if_splits)

lemma seal_frame: "args_ok a \<Longrightarrow> length key = nl_keyLength nacl \<Longrightarrow>
    sealMobileE2EEV2Frame nacl key a payload =
      Inr (encodeNonce a @ nl_secretbox nacl (encodeHeader a @ payload) (encodeNonce a) key)"
  by (simp add: sealMobileE2EEV2Frame_def validate_ok Let_def)

text \<open>The nonce determines direction, kind and counter; the header determines everything.\<close>

lemma encodeNonce_inj:
  assumes "args_ok a" "args_ok b" "encodeNonce a = encodeNonce b"
  shows "fa_direction a = fa_direction b \<and> fa_payloadKind a = fa_payloadKind b \<and> fa_counter a = fa_counter b \<and>
    take 12 (fa_sessionId a) = take 12 (fa_sessionId b)"
proof -
  have eq: "take 12 (fa_sessionId a) = take 12 (fa_sessionId b)"
    "directionByte (fa_direction a) = directionByte (fa_direction b)"
    "payloadKindByte (fa_payloadKind a) = payloadKindByte (fa_payloadKind b)"
    "be_bytes 8 (nat (fa_counter a)) = be_bytes 8 (nat (fa_counter b))"
    using assms by (simp_all add: args_ok_def encodeNonce_layout del: be_bytes.simps)
  have "nat (fa_counter a) < 256 ^ 8" "nat (fa_counter b) < 256 ^ 8"
    using assms(1,2) by (simp_all add: args_ok_def MAX_COUNTER_def nat_less_iff)
  then have "nat (fa_counter a) = nat (fa_counter b)" by (rule be_bytes_inj [OF eq(4)])
  with assms(1,2) have "fa_counter a = fa_counter b" by (simp add: args_ok_def eq_nat_nat_iff)
  moreover have "fa_direction a = fa_direction b" "fa_payloadKind a = fa_payloadKind b"
    using eq(2,3)
    by (auto simp: directionByte_def payloadKindByte_def split: e2ee_direction.splits payload_kind.splits)
  ultimately show ?thesis using eq(1) by simp
qed

lemma open_seal:
  assumes nacl: "nacl_ok nacl" and a: "args_ok a" and key: "length key = nl_keyLength nacl"
    and f: "sealMobileE2EEV2Frame nacl key a payload = Inr frame"
  shows "openMobileE2EEV2Frame nacl key a frame = Inr (Some payload)"
proof -
  have len: "length (fa_sessionId a) = 32" using a by (simp add: args_ok_def)
  let ?n = "encodeNonce a" and ?m = "encodeHeader a @ payload"
  have frame: "frame = ?n @ nl_secretbox nacl ?m ?n key" using f seal_frame [OF a key] by simp
  have box: "nl_open nacl (nl_secretbox nacl ?m ?n key) ?n key = Some ?m"
    "length (nl_secretbox nacl ?m ?n key) = length ?m + nl_overheadLength nacl"
    using nacl key length_encodeNonce [OF len] by (simp_all add: nacl_ok_def)
  show ?thesis
    using box length_encodeNonce [OF len] length_encodeHeader [OF len]
    by (simp add: openMobileE2EEV2Frame_def validate_ok [OF a key] frame frame_lengths equalBytes_iff Let_def)
qed

lemma guarded_option:
  assumes "(if c then None else if d then None else case b of None \<Rightarrow> None | Some x \<Rightarrow> (if P x then None else Some (g x))) = Some r"
  shows "\<exists>x. b = Some x \<and> \<not> d \<and> \<not> P x \<and> r = g x"
  using assms by (auto split: if_splits option.splits)

lemma open_requires_nonce:
  assumes "openMobileE2EEV2Frame nacl key a frame = Inr (Some payload)"
  shows "args_ok a \<and> length key = nl_keyLength nacl \<and> take 24 frame = encodeNonce a \<and>
    nl_open nacl (drop 24 frame) (encodeNonce a) key = Some (encodeHeader a @ payload)"
proof -
  have "validateFrameInputs nacl key (fa_sessionId a) (fa_counter a) = None"
    using assms by (auto simp: openMobileE2EEV2Frame_def split: option.splits)
  note v = this validate_SomeD [OF this]
  have body: "(if length frame < NONCE_LENGTH + nl_overheadLength nacl + HEADER_LENGTH then None
      else if \<not> equalBytes (take NONCE_LENGTH frame) (encodeNonce a) then None
      else case nl_open nacl (drop NONCE_LENGTH frame) (encodeNonce a) key of
             None \<Rightarrow> None
           | Some plaintext \<Rightarrow>
               (if \<not> equalBytes (take HEADER_LENGTH plaintext) (encodeHeader a) then None
                else Some (drop HEADER_LENGTH plaintext))) = Some payload"
    using assms unfolding openMobileE2EEV2Frame_def v(1) option.case Let_def by (simp only: sum.inject)
  have lens: "NONCE_LENGTH = 24" "HEADER_LENGTH = 42" by (simp_all add: frame_lengths)
  obtain p where p: "nl_open nacl (drop 24 frame) (encodeNonce a) key = Some p" "take 24 frame = encodeNonce a"
      "take 42 p = encodeHeader a" "payload = drop 42 p"
    using guarded_option [OF body] unfolding lens equalBytes_iff not_not by blast
  have "p = encodeHeader a @ payload" using append_take_drop_id [of 42 p] p(3,4) by (simp del: append_take_drop_id)
  with p(1,2) v(2) show ?thesis by simp
qed

section \<open>Interface: an ordered channel\<close>

text \<open>
  What the sessions rely on of the framing: a numbered frame opens at its own number, with its own
  kind, to its own payload, and at no other number or kind. The client of this interface is a receiver
  that expects the numbers in order (\<open>receive\<close>). Whatever an attacker on the wire does with genuine
  frames, it receives a prefix of what was sent; if nothing is lost or reordered, it receives
  everything.
\<close>

text \<open>The receiver: an accepted frame advances the counter, a refused one leaves it.\<close>

fun receive ::
  "(nat \<Rightarrow> payload_kind \<Rightarrow> bytes \<Rightarrow> bytes option) \<Rightarrow> nat \<Rightarrow> (payload_kind \<times> bytes) list \<Rightarrow>
   (payload_kind \<times> bytes) list \<times> nat" where
  "receive open_at c [] = ([], c)"
| "receive open_at c ((k, f) # fs) =
     (case open_at c k f of
        Some p \<Rightarrow> (let (ps, c') = receive open_at (Suc c) fs in ((k, p) # ps, c'))
      | None \<Rightarrow> receive open_at c fs)"

text \<open>The frames of a list of messages, numbered from \<open>c\<close>.\<close>

fun send_all ::
  "(nat \<Rightarrow> payload_kind \<Rightarrow> bytes \<Rightarrow> bytes) \<Rightarrow> nat \<Rightarrow> (payload_kind \<times> bytes) list \<Rightarrow> (payload_kind \<times> bytes) list" where
  "send_all seal_at c [] = []"
| "send_all seal_at c ((k, p) # ms) = (k, seal_at c k p) # send_all seal_at (Suc c) ms"

locale ordered_channel =
  fixes seal_at :: "nat \<Rightarrow> payload_kind \<Rightarrow> bytes \<Rightarrow> bytes"
    and open_at :: "nat \<Rightarrow> payload_kind \<Rightarrow> bytes \<Rightarrow> bytes option"
    and limit :: nat
  assumes open_seal_at: "i < limit \<Longrightarrow> open_at i k (seal_at i k p) = Some p"
    and open_only_at: "i < limit \<Longrightarrow> j < limit \<Longrightarrow> open_at j k' (seal_at i k p) = Some q \<Longrightarrow> i = j \<and> k = k'"
begin

lemma nth_send_all:
  "i < length ms \<Longrightarrow> send_all seal_at c ms ! i = (fst (ms ! i), seal_at (c + i) (fst (ms ! i)) (snd (ms ! i)))"
proof (induction ms arbitrary: c i)
  case (Cons m ms)
  then show ?case by (cases m; cases i) simp_all
qed simp

lemma length_send_all [simp]: "length (send_all seal_at c ms) = length ms"
  by (induction seal_at c ms rule: send_all.induct) simp_all

lemma receive_in_order:
  "c + length ms \<le> limit \<Longrightarrow> receive open_at c (send_all seal_at c ms) = (ms, c + length ms)"
proof (induction ms arbitrary: c)
  case (Cons m ms)
  then show ?case by (cases m) (simp add: open_seal_at)
qed simp

text \<open>A genuine frame that is accepted at the expected number is the message of that number.\<close>

lemma accepted_is_next:
  assumes "c \<le> n" "c + length ms \<le> limit" "f \<in> snd ` set (send_all seal_at c ms)" "open_at n k f = Some p" "n < limit"
  shows "n - c < length ms \<and> ms ! (n - c) = (k, p)"
proof -
  from assms(3) obtain i where i: "i < length ms" "f = seal_at (c + i) (fst (ms ! i)) (snd (ms ! i))"
    by (metis (no_types, lifting) imageE in_set_conv_nth length_send_all nth_send_all snd_conv)
  have lt: "c + i < limit" using i(1) assms(2) by simp
  have eq: "c + i = n" "fst (ms ! i) = k" using open_only_at [OF lt assms(5)] assms(4) i(2) by auto
  then have "snd (ms ! i) = p" using open_seal_at [OF lt] assms(4) i(2) by auto
  with eq i(1) show ?thesis by (metis add_diff_cancel_left' prod.collapse)
qed

lemma receive_prefix:
  assumes "c + length ms < limit" "c \<le> n" "n - c \<le> length ms"
    and "\<forall>f \<in> set fs. snd f \<in> snd ` set (send_all seal_at c ms)"
  shows "prefix (fst (receive open_at n fs)) (drop (n - c) ms)"
  using assms(2-4)
proof (induction fs arbitrary: n)
  case (Cons kf fs)
  obtain k f where kf: "kf = (k, f)" by fastforce
  show ?case
  proof (cases "open_at n k f")
    case None
    with Cons kf show ?thesis by simp
  next
    case (Some p)
    have "n < limit" using assms(1) Cons.prems(1,2) by simp
    then have nxt: "n - c < length ms \<and> ms ! (n - c) = (k, p)"
      using Cons.prems kf Some assms(1) by (intro accepted_is_next) auto
    then have "prefix (fst (receive open_at (Suc n) fs)) (drop (Suc n - c) ms)"
      using Cons.prems by (intro Cons.IH) auto
    with nxt show ?thesis
      using Cons.prems(1) kf Some
      by (simp add: split_beta Let_def Suc_diff_le Cons_nth_drop_Suc [symmetric])
  qed
qed simp

end

text \<open>The framing provides the interface, for a key and a session id of the right lengths.\<close>

definition channel_args :: "bytes \<Rightarrow> e2ee_direction \<Rightarrow> payload_kind \<Rightarrow> nat \<Rightarrow> frame_args" where
  "channel_args sid dir k i = \<lparr>fa_sessionId = sid, fa_direction = dir, fa_payloadKind = k, fa_counter = int i\<rparr>"

definition seal_at :: "nacl_lib \<Rightarrow> bytes \<Rightarrow> bytes \<Rightarrow> e2ee_direction \<Rightarrow> nat \<Rightarrow> payload_kind \<Rightarrow> bytes \<Rightarrow> bytes" where
  "seal_at nacl key sid dir i k p =
     (case sealMobileE2EEV2Frame nacl key (channel_args sid dir k i) p of Inr f \<Rightarrow> f | Inl _ \<Rightarrow> [])"

definition open_at :: "nacl_lib \<Rightarrow> bytes \<Rightarrow> bytes \<Rightarrow> e2ee_direction \<Rightarrow> nat \<Rightarrow> payload_kind \<Rightarrow> bytes \<Rightarrow> bytes option" where
  "open_at nacl key sid dir i k f =
     (case openMobileE2EEV2Frame nacl key (channel_args sid dir k i) f of Inr r \<Rightarrow> r | Inl _ \<Rightarrow> None)"

definition channel_limit :: "nacl_lib \<Rightarrow> bytes \<Rightarrow> bytes \<Rightarrow> nat" where
  "channel_limit nacl key sid =
     (if nacl_ok nacl \<and> length key = nl_keyLength nacl \<and> length sid = 32 then 2 ^ 64 else 0)"

lemma channel_limit_args:
  "i < channel_limit nacl key sid \<Longrightarrow>
     nacl_ok nacl \<and> length key = nl_keyLength nacl \<and> args_ok (channel_args sid dir k i)"
  by (auto simp: channel_limit_def channel_args_def args_ok_def MAX_COUNTER_def split: if_splits)

interpretation frames: ordered_channel "seal_at nacl key sid dir" "open_at nacl key sid dir" "channel_limit nacl key sid"
  for nacl key sid dir
proof unfold_locales
  fix i k p
  assume "i < channel_limit nacl key sid"
  note a = channel_limit_args [OF this, of dir k]
  with seal_frame have "sealMobileE2EEV2Frame nacl key (channel_args sid dir k i) p =
      Inr (seal_at nacl key sid dir i k p)" by (simp add: seal_at_def)
  from open_seal [OF _ _ _ this] a show "open_at nacl key sid dir i k (seal_at nacl key sid dir i k p) = Some p"
    by (simp add: open_at_def)
next
  fix i j k k' p q
  assume i: "i < channel_limit nacl key sid" and j: "j < channel_limit nacl key sid"
    and o: "open_at nacl key sid dir j k' (seal_at nacl key sid dir i k p) = Some q"
  let ?a = "channel_args sid dir k i" and ?b = "channel_args sid dir k' j"
  note a = channel_limit_args [OF i, of dir k]
  have f: "seal_at nacl key sid dir i k p =
      encodeNonce ?a @ nl_secretbox nacl (encodeHeader ?a @ p) (encodeNonce ?a) key"
    using a seal_frame [of ?a key nacl p] by (simp add: seal_at_def)
  have "openMobileE2EEV2Frame nacl key ?b (seal_at nacl key sid dir i k p) = Inr (Some q)"
    using o by (simp add: open_at_def split: sum.splits)
  note r = open_requires_nonce [OF this]
  have "length (encodeNonce ?a) = 24" using a by (simp add: args_ok_def length_encodeNonce)
  then have "encodeNonce ?b = encodeNonce ?a" using r f by simp
  with encodeNonce_inj [of ?b ?a] r a show "i = j \<and> k = k'" by (simp add: channel_args_def)
qed

section \<open>Properties\<close>

text \<open>
  Every sealed frame opens to its payload under the same key, session, direction, kind and
  counter, and under no other direction, kind or counter of that session: a frame that is reflected,
  replayed, reordered or sent as the other kind is refused, whatever the key.
\<close>

theorem frame_opens_only_where_sealed:
  assumes "nacl_ok nacl" "args_ok a" "length key = nl_keyLength nacl"
    and "sealMobileE2EEV2Frame nacl key a payload = Inr frame"
  shows "openMobileE2EEV2Frame nacl key a frame = Inr (Some payload) \<and>
    (\<forall>b key'. (fa_direction b, fa_payloadKind b, fa_counter b) \<noteq> (fa_direction a, fa_payloadKind a, fa_counter a) \<longrightarrow>
      (\<forall>p. openMobileE2EEV2Frame nacl key' b frame \<noteq> Inr (Some p)))"
proof -
  have len: "length (encodeNonce a) = 24" using assms(2) by (simp add: args_ok_def length_encodeNonce)
  have frame: "take 24 frame = encodeNonce a" using assms(4) seal_frame [OF assms(2,3)] len by auto
  have "(fa_direction b, fa_payloadKind b, fa_counter b) = (fa_direction a, fa_payloadKind a, fa_counter a)"
    if "openMobileE2EEV2Frame nacl key' b frame = Inr (Some p)" for b key' p
    using open_requires_nonce [OF that] encodeNonce_inj [OF _ assms(2), of b] frame by auto
  with open_seal [OF assms] show ?thesis by blast
qed

text \<open>A box that is the message with a fixed trailer; it has the lengths and the round trip of \<open>secretbox\<close>.\<close>

definition plain_nacl :: nacl_lib where
  "plain_nacl = \<lparr>nl_secretbox = (\<lambda>m n k. replicate 16 0 @ m), nl_open = (\<lambda>b n k. Some (drop 16 b)),
     nl_keyLength = 32, nl_overheadLength = 16\<rparr>"

lemma plain_nacl_ok: "nacl_ok plain_nacl"
  by (simp add: nacl_ok_def plain_nacl_def)

theorem frame_opens_only_where_sealed_witness:
  "\<exists>frame. sealMobileE2EEV2Frame plain_nacl (replicate 32 1)
      \<lparr>fa_sessionId = replicate 32 7, fa_direction = Mobile_To_Desktop, fa_payloadKind = Text_Payload, fa_counter = 5\<rparr> [1, 2] =
      Inr frame \<and>
    openMobileE2EEV2Frame plain_nacl (replicate 32 1)
      \<lparr>fa_sessionId = replicate 32 7, fa_direction = Mobile_To_Desktop, fa_payloadKind = Text_Payload, fa_counter = 5\<rparr> frame =
      Inr (Some [1, 2])"
proof -
  let ?a = "\<lparr>fa_sessionId = replicate 32 7, fa_direction = Mobile_To_Desktop, fa_payloadKind = Text_Payload, fa_counter = 5\<rparr>"
  have a: "args_ok ?a" by (simp add: args_ok_def MAX_COUNTER_def)
  have k: "length (replicate 32 (1 :: byte)) = nl_keyLength plain_nacl" by (simp add: plain_nacl_def)
  from frame_opens_only_where_sealed [OF plain_nacl_ok a k seal_frame [OF a k]] seal_frame [OF a k]
  show ?thesis by blast
qed

text \<open>
  Within a session no nonce is ever used twice for different frames: the nonce determines the
  direction, the payload kind and the 64-bit counter, for all counters the code accepts.
\<close>

theorem nonces_are_unique:
  assumes "length s = 32" "0 \<le> c1" "c1 \<le> MAX_COUNTER" "0 \<le> c2" "c2 \<le> MAX_COUNTER" "(d1, k1, c1) \<noteq> (d2, k2, c2)"
  shows "encodeNonce \<lparr>fa_sessionId = s, fa_direction = d1, fa_payloadKind = k1, fa_counter = c1\<rparr> \<noteq>
    encodeNonce \<lparr>fa_sessionId = s, fa_direction = d2, fa_payloadKind = k2, fa_counter = c2\<rparr>"
  using encodeNonce_inj [of "\<lparr>fa_sessionId = s, fa_direction = d1, fa_payloadKind = k1, fa_counter = c1\<rparr>"
      "\<lparr>fa_sessionId = s, fa_direction = d2, fa_payloadKind = k2, fa_counter = c2\<rparr>"] assms
  by (auto simp: args_ok_def)

theorem nonces_are_unique_witness:
  "encodeNonce \<lparr>fa_sessionId = replicate 32 0, fa_direction = Mobile_To_Desktop, fa_payloadKind = Text_Payload, fa_counter = 0\<rparr> \<noteq>
   encodeNonce \<lparr>fa_sessionId = replicate 32 0, fa_direction = Mobile_To_Desktop, fa_payloadKind = Text_Payload, fa_counter = 256\<rparr>"
  by (rule nonces_are_unique) (simp_all add: MAX_COUNTER_def)

end
