(* ===== verification/E2ee_Contract.thy ===== *)
theory E2ee_Contract
  imports E2ee_Framing "HOL-Library.Char_ord" "HOL-Library.List_Lexorder"
begin

text \<open>
  The handshake contract of the encrypted mobile channel (\<open>src/shared/mobile-e2ee-v2-contract.ts\<close>):
  validation of the hello and ready messages, which come off the wire as JSON, and the transcript
  that both sides hash into the session keys.
\<close>

section \<open>Records\<close>

definition MOBILE_E2EE_V2_PROTOCOL :: string where "MOBILE_E2EE_V2_PROTOCOL = ''orca-mobile-e2ee''"
definition MOBILE_E2EE_V2_TRANSCRIPT_DOMAIN :: string where
  "MOBILE_E2EE_V2_TRANSCRIPT_DOMAIN = ''orca-mobile-e2ee/v2/transcript''"

datatype e2ee_transport = Direct | Relay

record e2ee_context =
  ec_transport :: e2ee_transport
  ec_relayHostId :: "string option"

record e2ee_handshake =
  hs_helloContext :: e2ee_context
  hs_readyContext :: e2ee_context
  hs_clientPublicKey :: bytes
  hs_desktopPublicKey :: bytes
  hs_clientNonce :: bytes
  hs_desktopNonce :: bytes

text \<open>An object whose sorted keys are the sorted expected ones; \<open>null\<close> and arrays are no records.\<close>

fun isExactRecord :: "json \<Rightarrow> string list \<Rightarrow> bool" where
  "isExactRecord (JObj ps) keys \<longleftrightarrow> sort (map fst ps) = sort keys"
| "isExactRecord _ keys \<longleftrightarrow> False"

definition exact_field :: "json option \<Rightarrow> string list \<Rightarrow> bool" where
  "exact_field v keys \<longleftrightarrow> (case v of Some j \<Rightarrow> isExactRecord j keys | None \<Rightarrow> False)"

text \<open>\<open>/^[A-Za-z0-9_-]{16}$/\<close>.\<close>

definition is_b64url_char :: "char \<Rightarrow> bool" where
  "is_b64url_char c \<longleftrightarrow>
     is_digit c \<or> (65 \<le> (of_char c :: nat) \<and> (of_char c :: nat) \<le> 90) \<or>
     (97 \<le> (of_char c :: nat) \<and> (of_char c :: nat) \<le> 122) \<or> c = CHR ''_'' \<or> c = CHR ''-''"

definition BASE64URL_16_PATTERN :: "string \<Rightarrow> bool" where
  "BASE64URL_16_PATTERN s \<longleftrightarrow> length s = 16 \<and> list_all is_b64url_char s"

definition parseContext :: "json option \<Rightarrow> e2ee_context option" where
  "parseContext v =
     (case v of
        Some (JObj ps) \<Rightarrow>
          (let c = JObj ps; transport = jprop c ''transport'';
               keys = (if transport = Some (JStr ''relay'')
                       then [''protocol'', ''initiator'', ''responder'', ''transport'', ''relayHostId'']
                       else [''protocol'', ''initiator'', ''responder'', ''transport''])
           in if \<not> isExactRecord c keys then None
              else if jprop c ''protocol'' \<noteq> Some (JStr MOBILE_E2EE_V2_PROTOCOL) \<or>
                      jprop c ''initiator'' \<noteq> Some (JStr ''mobile'') \<or>
                      jprop c ''responder'' \<noteq> Some (JStr ''desktop'') then None
              else if transport = Some (JStr ''direct'')
              then Some \<lparr>ec_transport = Direct, ec_relayHostId = None\<rparr>
              else if transport = Some (JStr ''relay'')
              then (case as_string (jprop c ''relayHostId'') of
                      Some h \<Rightarrow> (if BASE64URL_16_PATTERN h
                                then Some \<lparr>ec_transport = Relay, ec_relayHostId = Some h\<rparr> else None)
                    | None \<Rightarrow> None)
              else None)
      | _ \<Rightarrow> None)"

definition PAYLOAD_KINDS :: json where "PAYLOAD_KINDS = JArr [JStr ''text'', JStr ''binary'']"

definition hasExactCapabilities :: "json option \<Rightarrow> bool" where
  "hasExactCapabilities v \<longleftrightarrow>
     exact_field v [''framing'', ''payloadKinds''] \<and>
     (case v of Some j \<Rightarrow> jprop j ''framing'' = Some (JArr [JNum (Fin 2)]) \<and> jprop j ''payloadKinds'' = Some PAYLOAD_KINDS
              | None \<Rightarrow> False)"

definition hasExactSelection :: "json option \<Rightarrow> bool" where
  "hasExactSelection v \<longleftrightarrow>
     exact_field v [''framing'', ''payloadKinds''] \<and>
     (case v of Some j \<Rightarrow> jprop j ''framing'' = Some (JNum (Fin 2)) \<and> jprop j ''payloadKinds'' = Some PAYLOAD_KINDS
              | None \<Rightarrow> False)"

text \<open>The protocol, the initiator and the responder of parsed contexts are fixed.\<close>

definition contextsEqual :: "e2ee_context \<Rightarrow> e2ee_context \<Rightarrow> bool" where
  "contextsEqual l r \<longleftrightarrow> ec_transport l = ec_transport r \<and> ec_relayHostId l = ec_relayHostId r"

definition decodeCanonicalBase64Bytes :: "json option \<Rightarrow> nat \<Rightarrow> bytes option" where
  "decodeCanonicalBase64Bytes v n =
     (case as_string v of
        None \<Rightarrow> None
      | Some s \<Rightarrow>
          (if \<not> b64_pattern s then None
           else (case atob s of
                   None \<Rightarrow> None
                 | Some bs \<Rightarrow> (if length bs = n \<and> btoa bs = s then Some bs else None))))"

definition validateMobileE2EEV2Handshake :: "json \<Rightarrow> json \<Rightarrow> e2ee_handshake option" where
  "validateMobileE2EEV2Handshake hello ready =
     (if \<not> isExactRecord hello
            [''type'', ''v'', ''clientPublicKeyB64'', ''clientNonceB64'', ''capabilities'', ''context''] then None
      else if \<not> isExactRecord ready
            [''type'', ''v'', ''desktopPublicKeyB64'', ''clientNonceB64'', ''desktopNonceB64'', ''selection'', ''context'']
      then None
      else if jprop hello ''type'' \<noteq> Some (JStr ''e2ee_hello'') \<or> jprop hello ''v'' \<noteq> Some (JNum (Fin 2)) then None
      else if jprop ready ''type'' \<noteq> Some (JStr ''e2ee_ready'') \<or> jprop ready ''v'' \<noteq> Some (JNum (Fin 2)) then None
      else if \<not> hasExactCapabilities (jprop hello ''capabilities'') \<or> \<not> hasExactSelection (jprop ready ''selection'')
      then None
      else (case (parseContext (jprop hello ''context''), parseContext (jprop ready ''context'')) of
              (Some hc, Some rc) \<Rightarrow>
                if \<not> contextsEqual hc rc then None
                else if jprop ready ''clientNonceB64'' \<noteq> jprop hello ''clientNonceB64'' then None
                else (case (decodeCanonicalBase64Bytes (jprop hello ''clientPublicKeyB64'') 32,
                            decodeCanonicalBase64Bytes (jprop ready ''desktopPublicKeyB64'') 32,
                            decodeCanonicalBase64Bytes (jprop hello ''clientNonceB64'') 32,
                            decodeCanonicalBase64Bytes (jprop ready ''desktopNonceB64'') 32) of
                        (Some cpk, Some dpk, Some cn, Some dn) \<Rightarrow>
                          Some \<lparr>hs_helloContext = hc, hs_readyContext = rc, hs_clientPublicKey = cpk,
                                hs_desktopPublicKey = dpk, hs_clientNonce = cn, hs_desktopNonce = dn\<rparr>
                      | _ \<Rightarrow> None)
            | _ \<Rightarrow> None))"

section \<open>Messages\<close>

text \<open>The messages as the two sides build them, \<open>MobileE2EEV2Hello\<close> and \<open>MobileE2EEV2Ready\<close>.\<close>

definition transport_name :: "e2ee_transport \<Rightarrow> string" where
  "transport_name t = (case t of Direct \<Rightarrow> ''direct'' | Relay \<Rightarrow> ''relay'')"

definition context_json :: "e2ee_context \<Rightarrow> json" where
  "context_json c =
     JObj ([(''protocol'', JStr MOBILE_E2EE_V2_PROTOCOL), (''initiator'', JStr ''mobile''), (''responder'', JStr ''desktop''),
       (''transport'', JStr (transport_name (ec_transport c)))] @
       (case ec_relayHostId c of Some h \<Rightarrow> [(''relayHostId'', JStr h)] | None \<Rightarrow> []))"

definition hello_json :: "string \<Rightarrow> string \<Rightarrow> json \<Rightarrow> json" where
  "hello_json clientPublicKeyB64 clientNonceB64 ctx =
     JObj [(''type'', JStr ''e2ee_hello''), (''v'', JNum (Fin 2)), (''clientPublicKeyB64'', JStr clientPublicKeyB64),
       (''clientNonceB64'', JStr clientNonceB64),
       (''capabilities'', JObj [(''framing'', JArr [JNum (Fin 2)]), (''payloadKinds'', PAYLOAD_KINDS)]),
       (''context'', ctx)]"

definition ready_json :: "string \<Rightarrow> json \<Rightarrow> string \<Rightarrow> json \<Rightarrow> json" where
  "ready_json desktopPublicKeyB64 clientNonceB64 desktopNonceB64 ctx =
     JObj [(''type'', JStr ''e2ee_ready''), (''v'', JNum (Fin 2)), (''desktopPublicKeyB64'', JStr desktopPublicKeyB64),
       (''clientNonceB64'', clientNonceB64), (''desktopNonceB64'', JStr desktopNonceB64),
       (''selection'', JObj [(''framing'', JNum (Fin 2)), (''payloadKinds'', PAYLOAD_KINDS)]),
       (''context'', ctx)]"

section \<open>Transcript\<close>

definition utf8 :: "string \<Rightarrow> bytes" where
  "utf8 s = concat (map (\<lambda>c. map word_of_nat (utf8_char c)) s)"

definition uint32 :: "nat \<Rightarrow> bytes" where
  "uint32 n = be_bytes 4 n"

definition encodeNumberList :: "nat list \<Rightarrow> bytes" where
  "encodeNumberList ns = uint32 (length ns) @ concat (map uint32 ns)"

definition encodeStringList :: "string list \<Rightarrow> bytes" where
  "encodeStringList ss = uint32 (length ss) @ concat (map (\<lambda>s. uint32 (length (utf8 s)) @ utf8 s) ss)"

definition encode_field :: "string \<times> bytes \<Rightarrow> bytes" where
  "encode_field f = uint32 (length (utf8 (fst f))) @ utf8 (fst f) @ uint32 (length (snd f)) @ snd f"

definition transcript_fields :: "e2ee_handshake \<Rightarrow> (string \<times> bytes) list" where
  "transcript_fields h =
     [(''domain'', utf8 MOBILE_E2EE_V2_TRANSCRIPT_DOMAIN),
      (''mobile-to-desktop.type'', utf8 ''e2ee_hello''),
      (''mobile-to-desktop.version'', uint32 2),
      (''mobile-to-desktop.client-public-key'', hs_clientPublicKey h),
      (''mobile-to-desktop.client-nonce'', hs_clientNonce h),
      (''mobile-to-desktop.capabilities.framing'', encodeNumberList [2]),
      (''mobile-to-desktop.capabilities.payload-kinds'', encodeStringList [''text'', ''binary'']),
      (''mobile-to-desktop.context.protocol'', utf8 MOBILE_E2EE_V2_PROTOCOL),
      (''mobile-to-desktop.context.initiator'', utf8 ''mobile''),
      (''mobile-to-desktop.context.responder'', utf8 ''desktop''),
      (''mobile-to-desktop.context.transport'', utf8 (transport_name (ec_transport (hs_helloContext h)))),
      (''mobile-to-desktop.context.relay-host-id'',
         utf8 (case ec_relayHostId (hs_helloContext h) of Some i \<Rightarrow> i | None \<Rightarrow> [])),
      (''desktop-to-mobile.type'', utf8 ''e2ee_ready''),
      (''desktop-to-mobile.version'', uint32 2),
      (''desktop-to-mobile.desktop-public-key'', hs_desktopPublicKey h),
      (''desktop-to-mobile.client-nonce-echo'', hs_clientNonce h),
      (''desktop-to-mobile.desktop-nonce'', hs_desktopNonce h),
      (''desktop-to-mobile.selection.framing'', uint32 2),
      (''desktop-to-mobile.selection.payload-kinds'', encodeStringList [''text'', ''binary'']),
      (''desktop-to-mobile.context.protocol'', utf8 MOBILE_E2EE_V2_PROTOCOL),
      (''desktop-to-mobile.context.initiator'', utf8 ''mobile''),
      (''desktop-to-mobile.context.responder'', utf8 ''desktop''),
      (''desktop-to-mobile.context.transport'', utf8 (transport_name (ec_transport (hs_readyContext h)))),
      (''desktop-to-mobile.context.relay-host-id'',
         utf8 (case ec_relayHostId (hs_readyContext h) of Some i \<Rightarrow> i | None \<Rightarrow> []))]"

definition encodeMobileE2EEV2Transcript :: "e2ee_handshake \<Rightarrow> bytes" where
  "encodeMobileE2EEV2Transcript h = concat (map encode_field (transcript_fields h))"

section \<open>Lemmas\<close>

lemma decodeCanonical_Some:
  "decodeCanonicalBase64Bytes v n = Some bs \<longleftrightarrow> v = Some (JStr (btoa bs)) \<and> length bs = n"
proof
  assume r: "v = Some (JStr (btoa bs)) \<and> length bs = n"
  then show "decodeCanonicalBase64Bytes v n = Some bs" by (simp add: decodeCanonicalBase64Bytes_def atob_btoa)
next
  assume l: "decodeCanonicalBase64Bytes v n = Some bs"
  then obtain s where s: "v = Some (JStr s)"
    by (cases v rule: as_string.cases) (auto simp: decodeCanonicalBase64Bytes_def)
  obtain bs' where "atob s = Some bs'" "btoa bs' = s" "length bs' = n" "bs' = bs"
    using l unfolding s decodeCanonicalBase64Bytes_def as_string.simps option.case
    by (cases "atob s") (simp_all split: if_split_asm)
  with s show "v = Some (JStr (btoa bs)) \<and> length bs = n" by simp
qed

text \<open>A context of a validated handshake.\<close>

definition context_ok :: "e2ee_context \<Rightarrow> bool" where
  "context_ok c \<longleftrightarrow>
     (case ec_transport c of
        Direct \<Rightarrow> ec_relayHostId c = None
      | Relay \<Rightarrow> (\<exists>h. ec_relayHostId c = Some h \<and> BASE64URL_16_PATTERN h))"

lemma parseContext_ok: "parseContext v = Some c \<Longrightarrow> context_ok c"
  by (auto simp: parseContext_def context_ok_def Let_def split: option.splits json.splits if_splits)

definition handshake_ok :: "e2ee_handshake \<Rightarrow> bool" where
  "handshake_ok h \<longleftrightarrow> context_ok (hs_helloContext h) \<and> hs_readyContext h = hs_helloContext h \<and>
     length (hs_clientPublicKey h) = 32 \<and> length (hs_desktopPublicKey h) = 32 \<and>
     length (hs_clientNonce h) = 32 \<and> length (hs_desktopNonce h) = 32"

lemma validate_handshake:
  assumes "validateMobileE2EEV2Handshake hello ready = Some h"
  shows "handshake_ok h \<and> parseContext (jprop hello ''context'') = Some (hs_helloContext h) \<and>
    parseContext (jprop ready ''context'') = Some (hs_readyContext h) \<and>
    jprop hello ''clientPublicKeyB64'' = Some (JStr (btoa (hs_clientPublicKey h))) \<and>
    jprop hello ''clientNonceB64'' = Some (JStr (btoa (hs_clientNonce h))) \<and>
    jprop ready ''clientNonceB64'' = Some (JStr (btoa (hs_clientNonce h))) \<and>
    jprop ready ''desktopPublicKeyB64'' = Some (JStr (btoa (hs_desktopPublicKey h))) \<and>
    jprop ready ''desktopNonceB64'' = Some (JStr (btoa (hs_desktopNonce h)))"
  using assms
  by (auto simp: validateMobileE2EEV2Handshake_def decodeCanonical_Some handshake_ok_def contextsEqual_def
      parseContext_ok split: if_split_asm option.split_asm)

subsection \<open>Length-prefixed fields\<close>

lemma uint32_inj: "uint32 m @ a = uint32 n @ b \<Longrightarrow> m < 2 ^ 32 \<Longrightarrow> n < 2 ^ 32 \<Longrightarrow> m = n \<and> a = b"
  using be_bytes_inj [of 4 m n] by (auto simp: uint32_def simp del: be_bytes.simps)

lemma encode_field_inj:
  assumes "encode_field (n, v) @ a = encode_field (n, w) @ b" "length v < 2 ^ 32" "length w < 2 ^ 32"
  shows "v = w \<and> a = b"
proof -
  have "uint32 (length v) @ v @ a = uint32 (length w) @ w @ b" using assms(1) by (simp add: encode_field_def)
  from uint32_inj [OF this assms(2,3)] show ?thesis by auto
qed

lemma encode_fields_inj:
  assumes "concat (map encode_field fs) = concat (map encode_field gs)" "map fst fs = map fst gs"
    and "\<forall>(n, v) \<in> set fs \<union> set gs. length v < 2 ^ 32"
  shows "fs = gs"
  using assms
proof (induction fs arbitrary: gs)
  case (Cons f fs)
  obtain n v where f: "f = (n, v)" by fastforce
  from Cons.prems(2) f obtain w gs' where gs: "gs = (n, w) # gs'" by (cases gs) auto
  have "v = w \<and> concat (map encode_field fs) = concat (map encode_field gs')"
    using Cons.prems f gs by (intro encode_field_inj [of n v _ w]) auto
  with Cons.IH [of gs'] Cons.prems f gs show ?case by auto
qed simp

subsection \<open>UTF-8\<close>

text \<open>The decoder on valid input: what \<open>TextDecoder.decode\<close> does to the output of the encoder.\<close>

fun utf8_decode :: "bytes \<Rightarrow> string" where
  "utf8_decode [] = []"
| "utf8_decode [b] = [char_of (unat b)]"
| "utf8_decode (b # b' # r) =
     (if unat b < 128 then char_of (unat b) # utf8_decode (b' # r) else char_of ((unat b - 192) * 64 + (unat b' - 128)) # utf8_decode r)"

lemma utf8_decode_utf8: "utf8_decode (utf8 s) = s"
proof (induction s)
  case (Cons ch s)
  show ?case
  proof (cases "(of_char ch :: nat) < 128")
    case True
    then have "utf8 (ch # s) = word_of_nat (of_char ch) # utf8 s" by (simp add: utf8_def utf8_char_def)
    moreover have "unat (word_of_nat (of_char ch) :: byte) = of_char ch" using True by (simp add: unat_of_nat)
    ultimately show ?thesis using Cons.IH True by (cases "utf8 s") simp_all
  next
    case False
    let ?n = "of_char ch :: nat"
    have lt: "?n < 256" by (metis of_char_mod_256 mod_less_divisor zero_less_numeral)
    have u: "utf8 (ch # s) = word_of_nat (192 + ?n div 64) # word_of_nat (128 + ?n mod 64) # utf8 s"
      using False by (simp add: utf8_def utf8_char_def Let_def)
    have "?n div 64 < 4" using lt by (intro div_less_iff_less_mult [THEN iffD2]) simp_all
    then have "unat (word_of_nat (192 + ?n div 64) :: byte) = 192 + ?n div 64" "unat (word_of_nat (128 + ?n mod 64) :: byte) = 128 + ?n mod 64"
      by (simp_all add: unat_of_nat del: of_nat_add)
    then show ?thesis unfolding u using Cons.IH by (simp del: of_nat_add)
  qed
qed (simp add: utf8_def)

lemma utf8_ascii:
  "list_all (\<lambda>c. (of_char c :: nat) < 128) s \<Longrightarrow> utf8 s = map (\<lambda>c. word_of_nat (of_char c)) s"
  by (induction s) (auto simp: utf8_def utf8_char_def Let_def)

lemma utf8_ascii_inj:
  assumes "list_all (\<lambda>c. (of_char c :: nat) < 128) s" "list_all (\<lambda>c. (of_char c :: nat) < 128) t" "utf8 s = utf8 t"
  shows "s = t"
proof -
  let ?f = "\<lambda>c :: char. word_of_nat (of_char c) :: byte"
  have "unat (?f c) = of_char c" if "(of_char c :: nat) < 128" for c
    using that by (simp add: unat_of_nat)
  then have "inj_on ?f (set s \<union> set t)"
    using assms(1,2) unfolding list_all_iff inj_on_def by (metis UnE of_char_eq_iff)
  moreover have "map ?f s = map ?f t" using assms by (simp add: utf8_ascii)
  ultimately show ?thesis by (rule inj_on_map_eq_map [THEN iffD1])
qed

lemma host_id_ascii: "BASE64URL_16_PATTERN h \<Longrightarrow> list_all (\<lambda>c. (of_char c :: nat) < 128) h"
  by (auto simp: BASE64URL_16_PATTERN_def is_b64url_char_def is_digit_def list_all_iff)

lemma host_id_utf8_inj: "BASE64URL_16_PATTERN h \<Longrightarrow> BASE64URL_16_PATTERN g \<Longrightarrow> utf8 h = utf8 g \<Longrightarrow> h = g"
  by (intro utf8_ascii_inj host_id_ascii)

subsection \<open>The messages that the two sides build\<close>

lemma parseContext_json: "context_ok c \<Longrightarrow> parseContext (Some (context_json c)) = Some c"
  by (cases "ec_transport c")
     (auto simp: context_ok_def parseContext_def context_json_def transport_name_def Let_def)

lemma validate_built:
  assumes "context_ok c" "length cpk = 32" "length dpk = 32" "length cn = 32" "length dn = 32"
  shows "validateMobileE2EEV2Handshake (hello_json (btoa cpk) (btoa cn) (context_json c))
      (ready_json (btoa dpk) (JStr (btoa cn)) (btoa dn) (context_json c)) =
    Some \<lparr>hs_helloContext = c, hs_readyContext = c, hs_clientPublicKey = cpk, hs_desktopPublicKey = dpk,
      hs_clientNonce = cn, hs_desktopNonce = dn\<rparr>"
proof -
  have dec: "decodeCanonicalBase64Bytes (Some (JStr (btoa bs))) 32 = Some bs" if "length bs = 32" for bs
    using that by (simp add: decodeCanonical_Some)
  show ?thesis
    by (simp add: validateMobileE2EEV2Handshake_def hello_json_def ready_json_def hasExactCapabilities_def
        hasExactSelection_def exact_field_def parseContext_json assms dec contextsEqual_def)
qed

subsection \<open>The transcript\<close>

lemma transcript_field_names: "map fst (transcript_fields h) = map fst (transcript_fields g)"
  by (simp add: transcript_fields_def)

lemma length_utf8: "length (utf8 s) \<le> 2 * length s"
  by (induction s) (auto simp: utf8_def utf8_char_def Let_def)

lemma utf8_small: "length s \<le> 100 \<Longrightarrow> length (utf8 s) < 4294967296"
  using length_utf8 [of s] by linarith

lemma host_id_small:
  "context_ok c \<Longrightarrow> length (utf8 (case ec_relayHostId c of Some i \<Rightarrow> i | None \<Rightarrow> [])) < 4294967296"
  by (rule utf8_small)
     (auto simp: context_ok_def BASE64URL_16_PATTERN_def split: e2ee_transport.splits option.splits)

lemma transcript_lengths:
  assumes "handshake_ok h"
  shows "\<forall>(n, v) \<in> set (transcript_fields h). length v < 2 ^ 32"
proof -
  have ctx: "context_ok (hs_helloContext h)" "hs_readyContext h = hs_helloContext h"
    and len: "length (hs_clientPublicKey h) = 32" "length (hs_desktopPublicKey h) = 32"
      "length (hs_clientNonce h) = 32" "length (hs_desktopNonce h) = 32"
    using assms by (simp_all add: handshake_ok_def)
  have t: "length (utf8 (transport_name t)) < 4294967296" for t
    by (rule utf8_small) (simp add: transport_name_def split: e2ee_transport.splits)
  show ?thesis
    using host_id_small [OF ctx(1)] t
    by (simp add: transcript_fields_def len ctx(2) utf8_small MOBILE_E2EE_V2_TRANSCRIPT_DOMAIN_def
        MOBILE_E2EE_V2_PROTOCOL_def uint32_def encodeNumberList_def encodeStringList_def utf8_ascii
        del: be_bytes.simps)
qed

lemma transport_name_inj: "utf8 (transport_name s) = utf8 (transport_name t) \<Longrightarrow> s = t"
  using utf8_ascii_inj [of "transport_name s" "transport_name t"]
  by (cases s; cases t) (auto simp: transport_name_def)

lemma context_determined:
  assumes "context_ok c" "context_ok d" "utf8 (transport_name (ec_transport c)) = utf8 (transport_name (ec_transport d))"
    and "utf8 (case ec_relayHostId c of Some i \<Rightarrow> i | None \<Rightarrow> []) = utf8 (case ec_relayHostId d of Some i \<Rightarrow> i | None \<Rightarrow> [])"
  shows "c = d"
proof -
  have t: "ec_transport c = ec_transport d" using assms(3) by (rule transport_name_inj)
  have "ec_relayHostId c = ec_relayHostId d"
    using assms(1,2,4) t by (cases "ec_transport d") (auto simp: context_ok_def dest: host_id_utf8_inj)
  with t show ?thesis by simp
qed

section \<open>Properties\<close>

text \<open>
  Property C29. The transcript binds the whole handshake: two validated handshakes with the same transcript
  bytes have the same keys, the same nonces and the same context (transport and relay host). No
  re-splitting of fields can make two different handshakes collide.
\<close>

theorem transcript_binds_handshake:
  assumes "validateMobileE2EEV2Handshake hello1 ready1 = Some h1"
    and "validateMobileE2EEV2Handshake hello2 ready2 = Some h2"
    and "encodeMobileE2EEV2Transcript h1 = encodeMobileE2EEV2Transcript h2"
  shows "h1 = h2"
proof -
  have ok: "handshake_ok h1" "handshake_ok h2" using validate_handshake assms(1,2) by blast+
  have "\<forall>(n, v) \<in> set (transcript_fields h1) \<union> set (transcript_fields h2). length v < 2 ^ 32"
    using transcript_lengths [OF ok(1)] transcript_lengths [OF ok(2)] by blast
  then have "transcript_fields h1 = transcript_fields h2"
    using assms(3) unfolding encodeMobileE2EEV2Transcript_def
    by (intro encode_fields_inj transcript_field_names)
  then have keys: "hs_clientPublicKey h1 = hs_clientPublicKey h2" "hs_clientNonce h1 = hs_clientNonce h2"
      "hs_desktopPublicKey h1 = hs_desktopPublicKey h2" "hs_desktopNonce h1 = hs_desktopNonce h2"
    and ctx: "utf8 (transport_name (ec_transport (hs_helloContext h1))) = utf8 (transport_name (ec_transport (hs_helloContext h2)))"
      "utf8 (case ec_relayHostId (hs_helloContext h1) of Some i \<Rightarrow> i | None \<Rightarrow> []) =
       utf8 (case ec_relayHostId (hs_helloContext h2) of Some i \<Rightarrow> i | None \<Rightarrow> [])"
    by (simp_all add: transcript_fields_def)
  have "hs_helloContext h1 = hs_helloContext h2"
    using ok by (intro context_determined ctx) (simp_all add: handshake_ok_def)
  with keys ok show ?thesis by (simp add: handshake_ok_def)
qed

theorem transcript_binds_handshake_witness:
  "\<exists>hello ready h. validateMobileE2EEV2Handshake hello ready = Some h \<and> hs_clientPublicKey h = replicate 32 1 \<and>
     (\<forall>hello2 ready2 h2. validateMobileE2EEV2Handshake hello2 ready2 = Some h2 \<and>
        encodeMobileE2EEV2Transcript h = encodeMobileE2EEV2Transcript h2 \<longrightarrow> h = h2)"
proof -
  let ?c = "\<lparr>ec_transport = Direct, ec_relayHostId = None\<rparr>"
  let ?hello = "hello_json (btoa (replicate 32 1)) (btoa (replicate 32 2)) (context_json ?c)"
  let ?ready = "ready_json (btoa (replicate 32 3)) (JStr (btoa (replicate 32 2))) (btoa (replicate 32 4)) (context_json ?c)"
  have "validateMobileE2EEV2Handshake ?hello ?ready = Some \<lparr>hs_helloContext = ?c, hs_readyContext = ?c,
      hs_clientPublicKey = replicate 32 1, hs_desktopPublicKey = replicate 32 3,
      hs_clientNonce = replicate 32 2, hs_desktopNonce = replicate 32 4\<rparr>"
    by (rule validate_built) (simp_all add: context_ok_def)
  with transcript_binds_handshake [OF this] show ?thesis by (intro exI [of _ ?hello] exI [of _ ?ready]) auto
qed

end
