(* ===== verification/E2ee_Session.thy ===== *)
theory E2ee_Session
  imports E2ee_Contract
begin

text \<open>
  The two ends of the encrypted mobile channel: the key schedule (\<open>mobile-e2ee-v2-key-schedule.ts\<close>,
  identical on both sides), the desktop session (\<open>mobile-e2ee-v2-desktop-session.ts\<close>) with its inbound
  dispatch and the check of the authentication message, and the mobile session
  (\<open>mobile-e2ee-v2-client-session.ts\<close>). The cryptographic packages are arguments, collected in
  \<open>crypto_lib\<close>; \<open>crypto_ok\<close> is what the sessions rely on: the law of the boxes, the lengths of keys
  and digests, and the symmetry of the key agreement. A throw is \<open>Inl\<close>. \<open>text_decode\<close> is
  \<open>TextDecoder.decode\<close>.
\<close>

section \<open>The cryptographic packages\<close>

record crypto_lib =
  cr_nacl :: nacl_lib
  cr_sha256 :: "bytes \<Rightarrow> bytes"
  cr_hkdf :: "bytes \<Rightarrow> bytes \<Rightarrow> bytes \<Rightarrow> nat \<Rightarrow> bytes" \<comment> \<open>secret, salt, info, length\<close>
  cr_before :: "bytes \<Rightarrow> bytes \<Rightarrow> bytes" \<comment> \<open>\<open>nacl.box.before\<close>: their public key, our secret key\<close>
  cr_public :: "bytes \<Rightarrow> bytes" \<comment> \<open>the public key of a secret key\<close>

definition crypto_ok :: "crypto_lib \<Rightarrow> bool" where
  "crypto_ok cr \<longleftrightarrow> nacl_ok (cr_nacl cr) \<and> nl_keyLength (cr_nacl cr) = 32 \<and>
     (\<forall>s salt info n. length (cr_hkdf cr s salt info n) = n) \<and>
     (\<forall>p s. length (cr_before cr p s) = 32) \<and> (\<forall>s. length (cr_public cr s) = 32) \<and>
     (\<forall>a b. cr_before cr (cr_public cr a) b = cr_before cr (cr_public cr b) a)"

section \<open>Key schedule\<close>

record key_schedule =
  ks_mobileToDesktopKey :: bytes
  ks_desktopToMobileKey :: bytes
  ks_sessionId :: bytes
  ks_transcriptHash :: bytes

definition SALT_LABEL :: bytes where "SALT_LABEL = utf8 (''orca-mobile-e2ee/v2/salt'' @ [CHR 0x00])"
definition INFO_LABEL :: bytes where "INFO_LABEL = utf8 (''orca-mobile-e2ee/v2/session'' @ [CHR 0x00])"

definition requireLength :: "bytes \<Rightarrow> nat \<Rightarrow> string \<Rightarrow> e2ee_error option" where
  "requireLength bs expected label =
     (if length bs \<noteq> expected then Some (Invalid_Length label expected (length bs)) else None)"

definition deriveMobileE2EEV2KeySchedule ::
  "crypto_lib \<Rightarrow> bytes \<Rightarrow> bytes \<Rightarrow> bytes \<Rightarrow> bytes \<Rightarrow> e2ee_error + key_schedule" where
  "deriveMobileE2EEV2KeySchedule cr sharedSecret transcript clientNonce desktopNonce =
     (case requireLength sharedSecret 32 ''shared secret'' of
        Some e \<Rightarrow> Inl e
      | None \<Rightarrow>
          (case requireLength clientNonce 32 ''client nonce'' of
             Some e \<Rightarrow> Inl e
           | None \<Rightarrow>
               (case requireLength desktopNonce 32 ''desktop nonce'' of
                  Some e \<Rightarrow> Inl e
                | None \<Rightarrow>
                    (let transcriptHash = cr_sha256 cr transcript;
                         salt = cr_sha256 cr (SALT_LABEL @ clientNonce @ desktopNonce);
                         info = INFO_LABEL @ transcriptHash;
                         expanded = cr_hkdf cr sharedSecret salt info 96
                     in Inr \<lparr>ks_mobileToDesktopKey = take 32 expanded,
                             ks_desktopToMobileKey = take 32 (drop 32 expanded),
                             ks_sessionId = take 32 (drop 64 expanded),
                             ks_transcriptHash = transcriptHash\<rparr>))))"

section \<open>The desktop session\<close>

record desktop_session =
  ds_ready :: json
  ds_transcriptHashB64 :: string
  ds_mobileToDesktopKey :: bytes
  ds_desktopToMobileKey :: bytes
  ds_sessionId :: bytes
  ds_inboundCounter :: nat
  ds_outboundCounter :: nat

definition hasExpectedContext :: "json \<Rightarrow> e2ee_context \<Rightarrow> bool" where
  "hasExpectedContext hello expected \<longleftrightarrow>
     (case jprop hello ''context'' of
        Some ctx \<Rightarrow> ctx \<noteq> JNull \<and> typeof_object ctx \<and>
          jprop ctx ''transport'' = Some (JStr (transport_name (ec_transport expected))) \<and>
          jprop ctx ''relayHostId'' = map_option JStr (ec_relayHostId expected)
      | None \<Rightarrow> False)"

definition desktop_ready :: "crypto_lib \<Rightarrow> bytes \<Rightarrow> bytes \<Rightarrow> json \<Rightarrow> json option" where
  "desktop_ready cr serverSecretKey random hello =
     (case (jprop hello ''clientNonceB64'', jprop hello ''context'') of
        (Some nonce, Some ctx) \<Rightarrow> Some (ready_json (btoa (cr_public cr serverSecretKey)) nonce (btoa random) ctx)
      | _ \<Rightarrow> None)"

text \<open>\<open>create\<close>; \<open>random\<close> is the value of \<open>randomBytes(32)\<close>.\<close>

definition desktop_create ::
  "crypto_lib \<Rightarrow> json \<Rightarrow> bytes \<Rightarrow> e2ee_context \<Rightarrow> bytes \<Rightarrow> e2ee_error + desktop_session option" where
  "desktop_create cr hello serverSecretKey expectedContext random =
     (if \<not> hasExpectedContext hello expectedContext then Inr None
      else case desktop_ready cr serverSecretKey random hello of
          None \<Rightarrow> Inr None
        | Some ready \<Rightarrow>
            (case validateMobileE2EEV2Handshake hello ready of
               None \<Rightarrow> Inr None
             | Some handshake \<Rightarrow>
                 (case deriveMobileE2EEV2KeySchedule cr (cr_before cr (hs_clientPublicKey handshake) serverSecretKey)
                     (encodeMobileE2EEV2Transcript handshake) (hs_clientNonce handshake) (hs_desktopNonce handshake) of
                    Inl e \<Rightarrow> Inl e
                  | Inr schedule \<Rightarrow>
                      Inr (Some \<lparr>ds_ready = ready, ds_transcriptHashB64 = btoa (ks_transcriptHash schedule),
                        ds_mobileToDesktopKey = ks_mobileToDesktopKey schedule,
                        ds_desktopToMobileKey = ks_desktopToMobileKey schedule,
                        ds_sessionId = ks_sessionId schedule, ds_inboundCounter = 0, ds_outboundCounter = 0\<rparr>))))"

definition desktop_open ::
  "crypto_lib \<Rightarrow> bytes \<Rightarrow> payload_kind \<Rightarrow> desktop_session \<Rightarrow> e2ee_error + bytes option \<times> desktop_session" where
  "desktop_open cr frame kind d =
     (case openMobileE2EEV2Frame (cr_nacl cr) (ds_mobileToDesktopKey d)
         (channel_args (ds_sessionId d) Mobile_To_Desktop kind (ds_inboundCounter d)) frame of
        Inl e \<Rightarrow> Inl e
      | Inr None \<Rightarrow> Inr (None, d)
      | Inr (Some plaintext) \<Rightarrow> Inr (Some plaintext, d\<lparr>ds_inboundCounter := ds_inboundCounter d + 1\<rparr>))"

definition desktop_seal ::
  "crypto_lib \<Rightarrow> bytes \<Rightarrow> payload_kind \<Rightarrow> desktop_session \<Rightarrow> e2ee_error + bytes \<times> desktop_session" where
  "desktop_seal cr plaintext kind d =
     (case sealMobileE2EEV2Frame (cr_nacl cr) (ds_desktopToMobileKey d)
         (channel_args (ds_sessionId d) Desktop_To_Mobile kind (ds_outboundCounter d)) plaintext of
        Inl e \<Rightarrow> Inl e
      | Inr frame \<Rightarrow> Inr (frame, d\<lparr>ds_outboundCounter := ds_outboundCounter d + 1\<rparr>))"

text \<open>\<open>decodeCanonicalBase64\<close> of the desktop, with the pattern, and of the mobile side, without it.\<close>

definition desktop_decodeCanonicalBase64 :: "string \<Rightarrow> bytes option" where
  "desktop_decodeCanonicalBase64 v =
     (if \<not> b64_pattern v then None
      else case atob v of None \<Rightarrow> None | Some bs \<Rightarrow> (if btoa bs = v then Some bs else None))"

definition client_decodeCanonicalBase64 :: "string \<Rightarrow> bytes option" where
  "client_decodeCanonicalBase64 v =
     (case atob v of None \<Rightarrow> None | Some bs \<Rightarrow> (if btoa bs = v then Some bs else None))"

definition desktop_openText ::
  "(bytes \<Rightarrow> string) \<Rightarrow> crypto_lib \<Rightarrow> string \<Rightarrow> desktop_session \<Rightarrow> e2ee_error + string option \<times> desktop_session" where
  "desktop_openText text_decode cr frameB64 d =
     (case desktop_decodeCanonicalBase64 frameB64 of
        None \<Rightarrow> Inr (None, d)
      | Some frame \<Rightarrow>
          (case desktop_open cr frame Text_Payload d of
             Inl e \<Rightarrow> Inl e
           | Inr (plaintext, d') \<Rightarrow> Inr (map_option text_decode plaintext, d')))"

definition desktop_sealText :: "crypto_lib \<Rightarrow> string \<Rightarrow> desktop_session \<Rightarrow> e2ee_error + string \<times> desktop_session" where
  "desktop_sealText cr plaintext d =
     (case desktop_seal cr (utf8 plaintext) Text_Payload d of
        Inl e \<Rightarrow> Inl e | Inr (frame, d') \<Rightarrow> Inr (btoa frame, d'))"

subsection \<open>Inbound dispatch\<close>

datatype raw_frame = Raw_Text string | Raw_Binary bytes

datatype inbound_event =
    Decrypt_Failure
  | Protocol_Error
  | Auth_Message string
  | Text_Message string
  | Binary_Message bytes

definition handleDesktopMobileE2EEV2Inbound ::
  "(bytes \<Rightarrow> string) \<Rightarrow> crypto_lib \<Rightarrow> raw_frame \<Rightarrow> bool \<Rightarrow> desktop_session \<Rightarrow>
   e2ee_error + inbound_event \<times> desktop_session" where
  "handleDesktopMobileE2EEV2Inbound text_decode cr raw awaitingAuth d =
     (case raw of
        Raw_Text t \<Rightarrow>
          (case desktop_openText text_decode cr t d of
             Inl e \<Rightarrow> Inl e
           | Inr (None, d') \<Rightarrow> Inr (Decrypt_Failure, d')
           | Inr (Some p, d') \<Rightarrow> Inr (if awaitingAuth then Auth_Message p else Text_Message p, d'))
      | Raw_Binary b \<Rightarrow>
          (case desktop_open cr b Binary_Payload d of
             Inl e \<Rightarrow> Inl e
           | Inr (None, d') \<Rightarrow> Inr (Decrypt_Failure, d')
           | Inr (Some p, d') \<Rightarrow> Inr (if awaitingAuth then Protocol_Error else Binary_Message p, d')))"

fun join_commas :: "string list \<Rightarrow> string" where
  "join_commas [] = []"
| "join_commas [s] = s"
| "join_commas (s # r) = s @ '','' @ join_commas r"

definition object_keys :: "json \<Rightarrow> string list" where
  "object_keys j = (case j of JObj ps \<Rightarrow> map fst ps | _ \<Rightarrow> [])"

definition isValidMobileE2EEAuthVersion :: "json \<Rightarrow> desktop_session option \<Rightarrow> bool" where
  "isValidMobileE2EEAuthVersion auth v2Session =
     (case v2Session of
        None \<Rightarrow> jprop auth ''v'' = None \<and> jprop auth ''transcriptHashB64'' = None
      | Some d \<Rightarrow>
          join_commas (sort (object_keys auth)) = ''deviceToken,transcriptHashB64,type,v'' \<and>
          jprop auth ''v'' = Some (JNum (Fin 2)) \<and>
          jprop auth ''transcriptHashB64'' = Some (JStr (ds_transcriptHashB64 d)))"

section \<open>The mobile session\<close>

record client_session =
  cl_hello :: json
  cl_secretKey :: bytes
  cl_pinnedDesktopPublicKey :: bytes
  cl_inboundCounter :: nat
  cl_outboundCounter :: nat
  cl_schedule :: "key_schedule option"
  cl_transcriptHashB64 :: "string option"

definition publicKeyFromBase64 :: "string \<Rightarrow> e2ee_error + bytes" where
  "publicKeyFromBase64 b64 =
     (case atob b64 of
        None \<Rightarrow> Inl Invalid_Base64
      | Some key \<Rightarrow> (if length key \<noteq> 32 then Inl (Invalid_Length ''public key'' 32 (length key)) else Inr key))"

text \<open>\<open>create\<close>, with the key pair given by its secret key; an empty relay host id counts as absent.\<close>

definition client_create ::
  "crypto_lib \<Rightarrow> string \<Rightarrow> e2ee_transport \<Rightarrow> string option \<Rightarrow> bytes \<Rightarrow> bytes \<Rightarrow> e2ee_error + client_session" where
  "client_create cr desktopPublicKeyB64 transport relayHostId clientNonce secretKey =
     (if length clientNonce \<noteq> 32 then Inl (Invalid_Length ''client nonce'' 32 (length clientNonce))
      else case publicKeyFromBase64 desktopPublicKeyB64 of
          Inl e \<Rightarrow> Inl e
        | Inr pinned \<Rightarrow>
            (let ctx = \<lparr>ec_transport = transport,
                  ec_relayHostId = (case relayHostId of Some h \<Rightarrow> (if h \<noteq> [] then Some h else None) | None \<Rightarrow> None)\<rparr>
             in Inr \<lparr>cl_hello = hello_json (btoa (cr_public cr secretKey)) (btoa clientNonce) (context_json ctx),
                     cl_secretKey = secretKey, cl_pinnedDesktopPublicKey = pinned, cl_inboundCounter = 0,
                     cl_outboundCounter = 0, cl_schedule = None, cl_transcriptHashB64 = None\<rparr>))"

definition client_acceptReady :: "crypto_lib \<Rightarrow> json \<Rightarrow> client_session \<Rightarrow> e2ee_error + bool \<times> client_session" where
  "client_acceptReady cr ready c =
     (case validateMobileE2EEV2Handshake (cl_hello c) ready of
        None \<Rightarrow> Inr (False, c)
      | Some handshake \<Rightarrow>
          (if \<not> equalBytes (hs_desktopPublicKey handshake) (cl_pinnedDesktopPublicKey c) then Inr (False, c)
           else (case deriveMobileE2EEV2KeySchedule cr (cr_before cr (cl_pinnedDesktopPublicKey c) (cl_secretKey c))
                    (encodeMobileE2EEV2Transcript handshake) (hs_clientNonce handshake) (hs_desktopNonce handshake) of
                   Inl e \<Rightarrow> Inl e
                 | Inr schedule \<Rightarrow>
                     Inr (True, c\<lparr>cl_schedule := Some schedule,
                                  cl_transcriptHashB64 := Some (btoa (ks_transcriptHash schedule))\<rparr>))))"

definition client_open ::
  "crypto_lib \<Rightarrow> bytes \<Rightarrow> payload_kind \<Rightarrow> client_session \<Rightarrow> e2ee_error + bytes option \<times> client_session" where
  "client_open cr frame kind c =
     (case cl_schedule c of
        None \<Rightarrow> Inr (None, c)
      | Some ks \<Rightarrow>
          (case openMobileE2EEV2Frame (cr_nacl cr) (ks_desktopToMobileKey ks)
              (channel_args (ks_sessionId ks) Desktop_To_Mobile kind (cl_inboundCounter c)) frame of
             Inl e \<Rightarrow> Inl e
           | Inr None \<Rightarrow> Inr (None, c)
           | Inr (Some plaintext) \<Rightarrow> Inr (Some plaintext, c\<lparr>cl_inboundCounter := cl_inboundCounter c + 1\<rparr>)))"

definition client_seal ::
  "crypto_lib \<Rightarrow> bytes \<Rightarrow> payload_kind \<Rightarrow> client_session \<Rightarrow> e2ee_error + bytes \<times> client_session" where
  "client_seal cr plaintext kind c =
     (case cl_schedule c of
        None \<Rightarrow> Inl Ready_Not_Accepted
      | Some ks \<Rightarrow>
          (case sealMobileE2EEV2Frame (cr_nacl cr) (ks_mobileToDesktopKey ks)
              (channel_args (ks_sessionId ks) Mobile_To_Desktop kind (cl_outboundCounter c)) plaintext of
             Inl e \<Rightarrow> Inl e
           | Inr frame \<Rightarrow> Inr (frame, c\<lparr>cl_outboundCounter := cl_outboundCounter c + 1\<rparr>)))"

definition client_openText ::
  "(bytes \<Rightarrow> string) \<Rightarrow> crypto_lib \<Rightarrow> string \<Rightarrow> client_session \<Rightarrow> e2ee_error + string option \<times> client_session" where
  "client_openText text_decode cr frameB64 c =
     (case client_decodeCanonicalBase64 frameB64 of
        None \<Rightarrow> Inr (None, c)
      | Some frame \<Rightarrow>
          (case client_open cr frame Text_Payload c of
             Inl e \<Rightarrow> Inl e
           | Inr (plaintext, c') \<Rightarrow> Inr (map_option text_decode plaintext, c')))"

definition client_sealText :: "crypto_lib \<Rightarrow> string \<Rightarrow> client_session \<Rightarrow> e2ee_error + string \<times> client_session" where
  "client_sealText cr plaintext c =
     (case client_seal cr (utf8 plaintext) Text_Payload c of
        Inl e \<Rightarrow> Inl e | Inr (frame, c') \<Rightarrow> Inr (btoa frame, c'))"

section \<open>Streams\<close>

text \<open>
  A side that seals a list of messages, and a side that is handed a list of frames. An error ends
  either.
\<close>

fun client_seal_all ::
  "crypto_lib \<Rightarrow> client_session \<Rightarrow> (payload_kind \<times> bytes) list \<Rightarrow> e2ee_error + (payload_kind \<times> bytes) list \<times> client_session" where
  "client_seal_all cr c [] = Inr ([], c)"
| "client_seal_all cr c ((k, p) # ms) =
     (case client_seal cr p k c of
        Inl e \<Rightarrow> Inl e
      | Inr (f, c') \<Rightarrow>
          (case client_seal_all cr c' ms of Inl e \<Rightarrow> Inl e | Inr (fs, c'') \<Rightarrow> Inr ((k, f) # fs, c'')))"

fun desktop_open_all ::
  "crypto_lib \<Rightarrow> desktop_session \<Rightarrow> (payload_kind \<times> bytes) list \<Rightarrow> e2ee_error + (payload_kind \<times> bytes) list \<times> desktop_session" where
  "desktop_open_all cr d [] = Inr ([], d)"
| "desktop_open_all cr d ((k, f) # fs) =
     (case desktop_open cr f k d of
        Inl e \<Rightarrow> Inl e
      | Inr (None, d') \<Rightarrow> desktop_open_all cr d' fs
      | Inr (Some p, d') \<Rightarrow>
          (case desktop_open_all cr d' fs of Inl e \<Rightarrow> Inl e | Inr (ps, d'') \<Rightarrow> Inr ((k, p) # ps, d'')))"

fun desktop_seal_all ::
  "crypto_lib \<Rightarrow> desktop_session \<Rightarrow> (payload_kind \<times> bytes) list \<Rightarrow> e2ee_error + (payload_kind \<times> bytes) list \<times> desktop_session" where
  "desktop_seal_all cr d [] = Inr ([], d)"
| "desktop_seal_all cr d ((k, p) # ms) =
     (case desktop_seal cr p k d of
        Inl e \<Rightarrow> Inl e
      | Inr (f, d') \<Rightarrow>
          (case desktop_seal_all cr d' ms of Inl e \<Rightarrow> Inl e | Inr (fs, d'') \<Rightarrow> Inr ((k, f) # fs, d'')))"

fun client_open_all ::
  "crypto_lib \<Rightarrow> client_session \<Rightarrow> (payload_kind \<times> bytes) list \<Rightarrow> e2ee_error + (payload_kind \<times> bytes) list \<times> client_session" where
  "client_open_all cr c [] = Inr ([], c)"
| "client_open_all cr c ((k, f) # fs) =
     (case client_open cr f k c of
        Inl e \<Rightarrow> Inl e
      | Inr (None, c') \<Rightarrow> client_open_all cr c' fs
      | Inr (Some p, c') \<Rightarrow>
          (case client_open_all cr c' fs of Inl e \<Rightarrow> Inl e | Inr (ps, c'') \<Rightarrow> Inr ((k, p) # ps, c'')))"

section \<open>Refinement of the ordered channel\<close>

definition keyed :: "crypto_lib \<Rightarrow> bytes \<Rightarrow> bytes \<Rightarrow> bool" where
  "keyed cr key sid \<longleftrightarrow> nacl_ok (cr_nacl cr) \<and> length key = nl_keyLength (cr_nacl cr) \<and> length sid = 32"

lemma keyed_limit: "keyed cr key sid \<Longrightarrow> channel_limit (cr_nacl cr) key sid = 2 ^ 64"
  by (simp add: keyed_def channel_limit_def)

lemma keyed_open:
  assumes "keyed cr key sid" "n < 2 ^ 64"
  shows "openMobileE2EEV2Frame (cr_nacl cr) key (channel_args sid dir k n) f = Inr (open_at (cr_nacl cr) key sid dir n k f)"
proof -
  have "args_ok (channel_args sid dir k n)" "length key = nl_keyLength (cr_nacl cr)"
    using channel_limit_args [of n "cr_nacl cr" key sid dir k] assms keyed_limit [OF assms(1)] by simp_all
  then show ?thesis by (simp add: open_at_def openMobileE2EEV2Frame_def validate_ok)
qed

lemma keyed_seal:
  assumes "keyed cr key sid" "n < 2 ^ 64"
  shows "sealMobileE2EEV2Frame (cr_nacl cr) key (channel_args sid dir k n) p = Inr (seal_at (cr_nacl cr) key sid dir n k p)"
proof -
  have "args_ok (channel_args sid dir k n)" "length key = nl_keyLength (cr_nacl cr)"
    using channel_limit_args [of n "cr_nacl cr" key sid dir k] assms keyed_limit [OF assms(1)] by simp_all
  then show ?thesis by (simp add: seal_at_def seal_frame)
qed

lemma desktop_open_all_receive:
  assumes "keyed cr (ds_mobileToDesktopKey d) (ds_sessionId d)" "ds_inboundCounter d + length fs < 2 ^ 64"
  shows "desktop_open_all cr d fs =
    (let (ps, n) = receive (open_at (cr_nacl cr) (ds_mobileToDesktopKey d) (ds_sessionId d) Mobile_To_Desktop)
        (ds_inboundCounter d) fs in Inr (ps, d\<lparr>ds_inboundCounter := n\<rparr>))"
  using assms
proof (induction fs arbitrary: d)
  case (Cons kf fs)
  obtain k f where kf: "kf = (k, f)" by fastforce
  have lt: "ds_inboundCounter d < 2 ^ 64" using Cons.prems(2) by simp
  show ?case
    using Cons.IH [of d] Cons.IH [of "d\<lparr>ds_inboundCounter := Suc (ds_inboundCounter d)\<rparr>"] Cons.prems
    by (auto simp: kf desktop_open_def keyed_open [OF Cons.prems(1) lt] Let_def split: option.splits prod.splits)
qed simp

lemma client_open_all_receive:
  assumes "cl_schedule c = Some ks" "keyed cr (ks_desktopToMobileKey ks) (ks_sessionId ks)"
    and "cl_inboundCounter c + length fs < 2 ^ 64"
  shows "client_open_all cr c fs =
    (let (ps, n) = receive (open_at (cr_nacl cr) (ks_desktopToMobileKey ks) (ks_sessionId ks) Desktop_To_Mobile)
        (cl_inboundCounter c) fs in Inr (ps, c\<lparr>cl_inboundCounter := n\<rparr>))"
  using assms
proof (induction fs arbitrary: c)
  case (Cons kf fs)
  obtain k f where kf: "kf = (k, f)" by fastforce
  have lt: "cl_inboundCounter c < 2 ^ 64" using Cons.prems(3) by simp
  show ?case
    using Cons.IH [of c] Cons.IH [of "c\<lparr>cl_inboundCounter := Suc (cl_inboundCounter c)\<rparr>"] Cons.prems
    by (auto simp: kf client_open_def keyed_open [OF Cons.prems(2) lt] Let_def split: option.splits prod.splits)
qed simp

lemma client_seal_all_send:
  assumes "cl_schedule c = Some ks" "keyed cr (ks_mobileToDesktopKey ks) (ks_sessionId ks)"
    and "cl_outboundCounter c + length ms \<le> 2 ^ 64"
  shows "client_seal_all cr c ms =
    Inr (send_all (seal_at (cr_nacl cr) (ks_mobileToDesktopKey ks) (ks_sessionId ks) Mobile_To_Desktop) (cl_outboundCounter c) ms,
      c\<lparr>cl_outboundCounter := cl_outboundCounter c + length ms\<rparr>)"
  using assms
proof (induction ms arbitrary: c)
  case (Cons m ms)
  obtain k p where m: "m = (k, p)" by fastforce
  have lt: "cl_outboundCounter c < 2 ^ 64" using Cons.prems(3) by simp
  show ?case
    using Cons.IH [of "c\<lparr>cl_outboundCounter := Suc (cl_outboundCounter c)\<rparr>"] Cons.prems
    by (simp add: m client_seal_def keyed_seal [OF Cons.prems(2) lt])
qed simp

lemma desktop_seal_all_send:
  assumes "keyed cr (ds_desktopToMobileKey d) (ds_sessionId d)" "ds_outboundCounter d + length ms \<le> 2 ^ 64"
  shows "desktop_seal_all cr d ms =
    Inr (send_all (seal_at (cr_nacl cr) (ds_desktopToMobileKey d) (ds_sessionId d) Desktop_To_Mobile) (ds_outboundCounter d) ms,
      d\<lparr>ds_outboundCounter := ds_outboundCounter d + length ms\<rparr>)"
  using assms
proof (induction ms arbitrary: d)
  case (Cons m ms)
  obtain k p where m: "m = (k, p)" by fastforce
  have lt: "ds_outboundCounter d < 2 ^ 64" using Cons.prems(2) by simp
  show ?case
    using Cons.IH [of "d\<lparr>ds_outboundCounter := Suc (ds_outboundCounter d)\<rparr>"] Cons.prems
    by (simp add: m desktop_seal_def keyed_seal [OF Cons.prems(1) lt])
qed simp

section \<open>Agreement\<close>

text \<open>Two ends that hold the same keys and have sent and received equally much.\<close>

definition paired :: "crypto_lib \<Rightarrow> client_session \<Rightarrow> desktop_session \<Rightarrow> bool" where
  "paired cr c d \<longleftrightarrow>
     (\<exists>ks. cl_schedule c = Some ks \<and> ds_mobileToDesktopKey d = ks_mobileToDesktopKey ks \<and>
        ds_desktopToMobileKey d = ks_desktopToMobileKey ks \<and> ds_sessionId d = ks_sessionId ks \<and>
        cl_transcriptHashB64 c = Some (ds_transcriptHashB64 d) \<and>
        keyed cr (ks_mobileToDesktopKey ks) (ks_sessionId ks) \<and> keyed cr (ks_desktopToMobileKey ks) (ks_sessionId ks)) \<and>
     cl_outboundCounter c = ds_inboundCounter d \<and> ds_outboundCounter d = cl_inboundCounter c"

lemma derive_schedule:
  assumes "crypto_ok cr" "length secret = 32" "length cn = 32" "length dn = 32"
  shows "\<exists>ks. deriveMobileE2EEV2KeySchedule cr secret tr cn dn = Inr ks \<and>
    keyed cr (ks_mobileToDesktopKey ks) (ks_sessionId ks) \<and> keyed cr (ks_desktopToMobileKey ks) (ks_sessionId ks)"
  using assms by (auto simp: deriveMobileE2EEV2KeySchedule_def requireLength_def crypto_ok_def keyed_def Let_def)

lemma expected_context_built: "hasExpectedContext (hello_json k n (context_json ctx)) ctx"
  by (cases "ec_relayHostId ctx")
     (simp_all add: hasExpectedContext_def hello_json_def context_json_def)

lemma client_create_Inr:
  assumes "client_create cr pkB64 transport host cn sk = Inr c"
  shows "\<exists>ctx. cl_hello c = hello_json (btoa (cr_public cr sk)) (btoa cn) (context_json ctx) \<and>
    ctx = \<lparr>ec_transport = transport,
           ec_relayHostId = (case host of Some h \<Rightarrow> (if h \<noteq> [] then Some h else None) | None \<Rightarrow> None)\<rparr> \<and>
    cl_secretKey c = sk \<and> cl_inboundCounter c = 0 \<and> cl_outboundCounter c = 0 \<and> length cn = 32 \<and>
    atob pkB64 = Some (cl_pinnedDesktopPublicKey c)"
  using assms
  by (auto simp: client_create_def publicKeyFromBase64_def Let_def split: if_splits sum.splits option.splits)

lemma handshake_pairs:
  assumes cr: "crypto_ok cr" and c: "client_create cr (btoa (cr_public cr dsk)) transport host cn csk = Inr c"
    and ctx: "ctx = \<lparr>ec_transport = transport,
      ec_relayHostId = (case host of Some h \<Rightarrow> (if h \<noteq> [] then Some h else None) | None \<Rightarrow> None)\<rparr>" "context_ok ctx"
    and rnd: "length random = 32"
  shows "\<exists>d c'. desktop_create cr (cl_hello c) dsk ctx random = Inr (Some d) \<and>
    client_acceptReady cr (ds_ready d) c = Inr (True, c') \<and> paired cr c' d"
proof -
  have hello: "cl_hello c = hello_json (btoa (cr_public cr csk)) (btoa cn) (context_json ctx)" "length cn = 32"
    "cl_secretKey c = csk" "cl_inboundCounter c = 0" "cl_outboundCounter c = 0"
    "cl_pinnedDesktopPublicKey c = cr_public cr dsk"
    using client_create_Inr [OF c] ctx(1) by (auto simp: atob_btoa)
  have len: "length (cr_public cr s) = 32" for s using cr by (simp add: crypto_ok_def)
  let ?ready = "ready_json (btoa (cr_public cr dsk)) (JStr (btoa cn)) (btoa random) (context_json ctx)"
  let ?h = "\<lparr>hs_helloContext = ctx, hs_readyContext = ctx, hs_clientPublicKey = cr_public cr csk,
    hs_desktopPublicKey = cr_public cr dsk, hs_clientNonce = cn, hs_desktopNonce = random\<rparr>"
  have v: "validateMobileE2EEV2Handshake (cl_hello c) ?ready = Some ?h"
    unfolding hello(1) by (rule validate_built) (simp_all add: ctx(2) len hello(2) rnd)
  have ready: "desktop_ready cr dsk random (cl_hello c) = Some ?ready"
    by (simp add: desktop_ready_def hello(1) hello_json_def)
  let ?secret = "cr_before cr (cr_public cr csk) dsk" and ?tr = "encodeMobileE2EEV2Transcript ?h"
  have dh: "cr_before cr (cr_public cr dsk) csk = ?secret" using cr by (simp add: crypto_ok_def)
  have "length ?secret = 32" using cr by (simp add: crypto_ok_def)
  then obtain ks where ks: "deriveMobileE2EEV2KeySchedule cr ?secret ?tr cn random = Inr ks"
      "keyed cr (ks_mobileToDesktopKey ks) (ks_sessionId ks)" "keyed cr (ks_desktopToMobileKey ks) (ks_sessionId ks)"
    using derive_schedule [OF cr _ hello(2) rnd] by blast
  let ?d = "\<lparr>ds_ready = ?ready, ds_transcriptHashB64 = btoa (ks_transcriptHash ks),
     ds_mobileToDesktopKey = ks_mobileToDesktopKey ks, ds_desktopToMobileKey = ks_desktopToMobileKey ks,
     ds_sessionId = ks_sessionId ks, ds_inboundCounter = 0, ds_outboundCounter = 0\<rparr>"
  let ?c = "c\<lparr>cl_schedule := Some ks, cl_transcriptHashB64 := Some (btoa (ks_transcriptHash ks))\<rparr>"
  have "desktop_create cr (cl_hello c) dsk ctx random = Inr (Some ?d)"
    using ks(1) by (simp add: desktop_create_def ready v) (simp add: hello(1) expected_context_built)
  moreover have "client_acceptReady cr ?ready c = Inr (True, ?c)"
    using ks(1) by (simp add: client_acceptReady_def v equalBytes_iff hello(3,6) dh)
  moreover have "paired cr ?c ?d" using ks(2,3) by (simp add: paired_def hello(4,5))
  ultimately show ?thesis by (intro exI [of _ ?d] exI [of _ ?c]) simp
qed

section \<open>Properties\<close>

text \<open>
  An undisturbed handshake succeeds and both ends agree. When the mobile side has pinned the
  desktop's public key, the desktop accepts its hello in the expected context, the mobile side accepts
  the desktop's reply, and then both hold the same two traffic keys, the same session id and the same
  transcript hash, with all counters equal.
\<close>

theorem handshake_agreement:
  assumes "crypto_ok cr" "client_create cr (btoa (cr_public cr dsk)) transport host cn csk = Inr c"
    and "ctx = \<lparr>ec_transport = transport,
      ec_relayHostId = (case host of Some h \<Rightarrow> (if h \<noteq> [] then Some h else None) | None \<Rightarrow> None)\<rparr>" "context_ok ctx"
    and "length random = 32"
  shows "\<exists>d c' ks. desktop_create cr (cl_hello c) dsk ctx random = Inr (Some d) \<and>
    client_acceptReady cr (ds_ready d) c = Inr (True, c') \<and>
    cl_schedule c' = Some ks \<and> ds_mobileToDesktopKey d = ks_mobileToDesktopKey ks \<and>
    ds_desktopToMobileKey d = ks_desktopToMobileKey ks \<and> ds_sessionId d = ks_sessionId ks \<and>
    cl_transcriptHashB64 c' = Some (ds_transcriptHashB64 d) \<and>
    cl_outboundCounter c' = ds_inboundCounter d \<and> ds_outboundCounter d = cl_inboundCounter c'"
  using handshake_pairs [OF assms] unfolding paired_def by blast

text \<open>Concrete functions with the laws of the packages: a sum as key agreement, constant digests.\<close>

definition plain_crypto :: crypto_lib where
  "plain_crypto = \<lparr>cr_nacl = plain_nacl, cr_sha256 = (\<lambda>bs. replicate 32 0),
     cr_hkdf = (\<lambda>s salt info n. take n (s @ replicate n 1)),
     cr_before = (\<lambda>p s. replicate 32 (last (0 # p) + last (0 # s))), cr_public = (\<lambda>s. replicate 32 (last (0 # s)))\<rparr>"

lemma plain_crypto_ok: "crypto_ok plain_crypto"
proof -
  have last_rep: "last (0 # replicate 32 x) = x" for x :: byte by (simp add: eval_nat_numeral)
  have len: "n - length s + min (length s) n = n" for s :: bytes and n by (simp add: min_def)
  from plain_nacl_ok last_rep show ?thesis
    by (simp add: crypto_ok_def plain_crypto_def plain_nacl_def add.commute len)
qed

lemma sample_client:
  "\<exists>c. client_create plain_crypto (btoa (cr_public plain_crypto (replicate 32 5))) Direct None (replicate 32 7) (replicate 32 9) = Inr c"
  using plain_crypto_ok by (auto simp: client_create_def publicKeyFromBase64_def atob_btoa crypto_ok_def Let_def)

lemma sample_pairing:
  "\<exists>c c' d. client_acceptReady plain_crypto (ds_ready (d :: desktop_session)) c = Inr (True, c') \<and> paired plain_crypto c' d \<and>
     ds_inboundCounter d = 0 \<and> ds_outboundCounter d = 0"
proof -
  let ?ctx = "\<lparr>ec_transport = Direct, ec_relayHostId = None\<rparr>"
  obtain c where c: "client_create plain_crypto (btoa (cr_public plain_crypto (replicate 32 5))) Direct None (replicate 32 7) (replicate 32 9) = Inr c"
    using sample_client by blast
  have "\<exists>d c'. desktop_create plain_crypto (cl_hello c) (replicate 32 5) ?ctx (replicate 32 3) = Inr (Some d) \<and>
      client_acceptReady plain_crypto (ds_ready d) c = Inr (True, c') \<and> paired plain_crypto c' d"
    by (rule handshake_pairs [OF plain_crypto_ok c]) (simp_all add: context_ok_def)
  then obtain d c' where d: "desktop_create plain_crypto (cl_hello c) (replicate 32 5) ?ctx (replicate 32 3) = Inr (Some d)"
      "client_acceptReady plain_crypto (ds_ready d) c = Inr (True, c')" "paired plain_crypto c' d" by blast
  have "ds_inboundCounter d = 0 \<and> ds_outboundCounter d = 0"
    using d(1) by (auto simp: desktop_create_def split: option.splits if_splits sum.splits)
  with d show ?thesis by blast
qed

theorem handshake_agreement_witness:
  "\<exists>c d c'. client_create plain_crypto (btoa (cr_public plain_crypto (replicate 32 5))) Direct None (replicate 32 7) (replicate 32 9) = Inr c \<and>
     desktop_create plain_crypto (cl_hello c) (replicate 32 5) \<lparr>ec_transport = Direct, ec_relayHostId = None\<rparr> (replicate 32 3) = Inr (Some d) \<and>
     client_acceptReady plain_crypto (ds_ready d) c = Inr (True, c') \<and> cl_transcriptHashB64 c' = Some (ds_transcriptHashB64 d)"
proof -
  let ?ctx = "\<lparr>ec_transport = Direct, ec_relayHostId = None\<rparr>"
  obtain c where c: "client_create plain_crypto (btoa (cr_public plain_crypto (replicate 32 5))) Direct None (replicate 32 7) (replicate 32 9) = Inr c"
    using sample_client by blast
  from handshake_agreement [OF plain_crypto_ok c, of ?ctx "replicate 32 3"] c show ?thesis
    by (auto simp: context_ok_def)
qed

text \<open>
  Property C28. The mobile side accepts no reply but one from the desktop it has pinned, for its own nonce,
  in its own context: whatever an attacker sends as \<open>ready\<close>, if it is accepted then it carries the pinned
  public key and echoes the nonce of this hello.
\<close>

theorem client_accepts_only_pinned_desktop:
  assumes "client_acceptReady cr ready c = Inr (True, c')"
  shows "jprop ready ''desktopPublicKeyB64'' = Some (JStr (btoa (cl_pinnedDesktopPublicKey c))) \<and>
    jprop ready ''clientNonceB64'' = jprop (cl_hello c) ''clientNonceB64'' \<and>
    parseContext (jprop ready ''context'') = parseContext (jprop (cl_hello c) ''context'')"
proof -
  obtain h where h: "validateMobileE2EEV2Handshake (cl_hello c) ready = Some h"
      "hs_desktopPublicKey h = cl_pinnedDesktopPublicKey c"
    using assms by (auto simp: client_acceptReady_def equalBytes_iff split: option.splits if_splits sum.splits)
  from validate_handshake [OF h(1)] h(2) show ?thesis by (auto simp: handshake_ok_def)
qed

theorem client_accepts_only_pinned_desktop_witness:
  "\<exists>c ready c'. client_acceptReady plain_crypto ready c = Inr (True, c') \<and>
     jprop ready ''desktopPublicKeyB64'' = Some (JStr (btoa (cl_pinnedDesktopPublicKey c)))"
proof -
  obtain c c' d where acc: "client_acceptReady plain_crypto (ds_ready (d :: desktop_session)) c = Inr (True, c')"
    using sample_pairing by blast
  from client_accepts_only_pinned_desktop [OF acc] acc show ?thesis by blast
qed

lemma mobile_stream_opens:
  assumes "paired cr c d" "ds_inboundCounter d + length ms < 2 ^ 64" "ds_inboundCounter d + length fs < 2 ^ 64"
  shows "\<exists>sealed c'. client_seal_all cr c ms = Inr (sealed, c') \<and>
    (\<exists>d'. desktop_open_all cr d sealed = Inr (ms, d') \<and> paired cr c' d') \<and>
    (set (map snd fs) \<subseteq> set (map snd sealed) \<longrightarrow>
      (\<exists>received d'. desktop_open_all cr d fs = Inr (received, d') \<and> prefix received ms))"
proof -
  obtain ks where ks: "cl_schedule c = Some ks" "ds_mobileToDesktopKey d = ks_mobileToDesktopKey ks"
      "ds_sessionId d = ks_sessionId ks" "keyed cr (ks_mobileToDesktopKey ks) (ks_sessionId ks)"
    and n: "cl_outboundCounter c = ds_inboundCounter d"
    using assms(1) by (auto simp: paired_def)
  let ?s = "seal_at (cr_nacl cr) (ks_mobileToDesktopKey ks) (ks_sessionId ks) Mobile_To_Desktop"
  let ?o = "open_at (cr_nacl cr) (ks_mobileToDesktopKey ks) (ks_sessionId ks) Mobile_To_Desktop"
  let ?n = "ds_inboundCounter d"
  let ?sent = "send_all ?s ?n ms"
  note lim = keyed_limit [OF ks(4)]
  have seal: "client_seal_all cr c ms = Inr (?sent, c\<lparr>cl_outboundCounter := ?n + length ms\<rparr>)"
    using client_seal_all_send [OF ks(1,4), of ms] assms(2) n by simp
  have recv: "desktop_open_all cr d gs = (let (ps, m) = receive ?o ?n gs in Inr (ps, d\<lparr>ds_inboundCounter := m\<rparr>))"
    if "?n + length gs < 2 ^ 64" for gs
    using desktop_open_all_receive [of cr d gs] ks that by simp
  have "receive ?o ?n ?sent = (ms, ?n + length ms)"
    using assms(2) lim by (intro frames.receive_in_order) simp
  then have "desktop_open_all cr d ?sent = Inr (ms, d\<lparr>ds_inboundCounter := ?n + length ms\<rparr>)"
    using recv [of ?sent] assms(2) by simp
  moreover have "paired cr (c\<lparr>cl_outboundCounter := ?n + length ms\<rparr>) (d\<lparr>ds_inboundCounter := ?n + length ms\<rparr>)"
    using assms(1) by (simp add: paired_def)
  moreover have "prefix (fst (receive ?o ?n fs)) ms" if "set (map snd fs) \<subseteq> set (map snd ?sent)"
  proof -
    have "prefix (fst (receive ?o ?n fs)) (drop (?n - ?n) ms)"
      using that assms(2) lim by (intro frames.receive_prefix) auto
    then show ?thesis by simp
  qed
  moreover have "\<exists>d'. desktop_open_all cr d fs = Inr (fst (receive ?o ?n fs), d')"
    using recv [OF assms(3)] by (auto simp: split_beta Let_def)
  ultimately show ?thesis using seal by blast
qed

text \<open>
  Property C5. The encrypted stream from the mobile side to the desktop is a reliable sequence. For paired
  ends, every list of messages can be sealed; delivered in order it opens to exactly those messages;
  and whatever selection of these frames reaches the desktop (dropped, repeated, reordered, presented
  as the other kind), what it accepts is a prefix of what was sent.
\<close>

theorem mobile_to_desktop_stream:
  assumes "paired cr c d" "ds_inboundCounter d + length ms < 2 ^ 64" "ds_inboundCounter d + length fs < 2 ^ 64"
  shows "\<exists>sealed c'. client_seal_all cr c ms = Inr (sealed, c') \<and>
    (\<exists>d'. desktop_open_all cr d sealed = Inr (ms, d') \<and> paired cr c' d') \<and>
    (set (map snd fs) \<subseteq> set (map snd sealed) \<longrightarrow>
      (\<exists>received d'. desktop_open_all cr d fs = Inr (received, d') \<and> prefix received ms))"
  by (rule mobile_stream_opens [OF assms])

theorem mobile_to_desktop_stream_witness:
  "\<exists>c d sealed c' d'. client_seal_all plain_crypto c [(Text_Payload, [1]), (Binary_Payload, [2])] = Inr (sealed, c') \<and>
     desktop_open_all plain_crypto d sealed = Inr ([(Text_Payload, [1]), (Binary_Payload, [2])], d')"
proof -
  obtain c d where "paired plain_crypto c d" "ds_inboundCounter d = 0" using sample_pairing by blast
  then show ?thesis
    using mobile_to_desktop_stream [of plain_crypto c d "[(Text_Payload, [1]), (Binary_Payload, [2])]" "[]"] by auto
qed

lemma desktop_stream_opens:
  assumes "paired cr c d" "ds_outboundCounter d + length ms < 2 ^ 64" "ds_outboundCounter d + length fs < 2 ^ 64"
  shows "\<exists>sealed d'. desktop_seal_all cr d ms = Inr (sealed, d') \<and>
    (\<exists>c'. client_open_all cr c sealed = Inr (ms, c') \<and> paired cr c' d') \<and>
    (set (map snd fs) \<subseteq> set (map snd sealed) \<longrightarrow>
      (\<exists>received c'. client_open_all cr c fs = Inr (received, c') \<and> prefix received ms))"
proof -
  obtain ks where ks: "cl_schedule c = Some ks" "ds_desktopToMobileKey d = ks_desktopToMobileKey ks"
      "ds_sessionId d = ks_sessionId ks" "keyed cr (ks_desktopToMobileKey ks) (ks_sessionId ks)"
    and n: "ds_outboundCounter d = cl_inboundCounter c"
    using assms(1) by (auto simp: paired_def)
  let ?s = "seal_at (cr_nacl cr) (ks_desktopToMobileKey ks) (ks_sessionId ks) Desktop_To_Mobile"
  let ?o = "open_at (cr_nacl cr) (ks_desktopToMobileKey ks) (ks_sessionId ks) Desktop_To_Mobile"
  let ?n = "ds_outboundCounter d"
  let ?sent = "send_all ?s ?n ms"
  note lim = keyed_limit [OF ks(4)]
  have seal: "desktop_seal_all cr d ms = Inr (?sent, d\<lparr>ds_outboundCounter := ?n + length ms\<rparr>)"
    using desktop_seal_all_send [of cr d ms] ks assms(2) by simp
  have recv: "client_open_all cr c gs = (let (ps, m) = receive ?o ?n gs in Inr (ps, c\<lparr>cl_inboundCounter := m\<rparr>))"
    if "?n + length gs < 2 ^ 64" for gs
    using client_open_all_receive [OF ks(1,4), of gs] n that by simp
  have "receive ?o ?n ?sent = (ms, ?n + length ms)"
    using assms(2) lim by (intro frames.receive_in_order) simp
  then have "client_open_all cr c ?sent = Inr (ms, c\<lparr>cl_inboundCounter := ?n + length ms\<rparr>)"
    using recv [of ?sent] assms(2) by simp
  moreover have "paired cr (c\<lparr>cl_inboundCounter := ?n + length ms\<rparr>) (d\<lparr>ds_outboundCounter := ?n + length ms\<rparr>)"
    using assms(1) by (simp add: paired_def)
  moreover have "prefix (fst (receive ?o ?n fs)) ms" if "set (map snd fs) \<subseteq> set (map snd ?sent)"
  proof -
    have "prefix (fst (receive ?o ?n fs)) (drop (?n - ?n) ms)"
      using that assms(2) lim by (intro frames.receive_prefix) auto
    then show ?thesis by simp
  qed
  moreover have "\<exists>c'. client_open_all cr c fs = Inr (fst (receive ?o ?n fs), c')"
    using recv [OF assms(3)] by (auto simp: split_beta Let_def)
  ultimately show ?thesis using seal by blast
qed

text \<open>
  The same for the stream from the desktop to the mobile side: every list of messages can be
  sealed, delivered in order it opens to exactly those messages, and any selection of the frames opens
  to a prefix of what was sent.
\<close>

theorem desktop_to_mobile_stream:
  assumes "paired cr c d" "ds_outboundCounter d + length ms < 2 ^ 64" "ds_outboundCounter d + length fs < 2 ^ 64"
  shows "\<exists>sealed d'. desktop_seal_all cr d ms = Inr (sealed, d') \<and>
    (\<exists>c'. client_open_all cr c sealed = Inr (ms, c') \<and> paired cr c' d') \<and>
    (set (map snd fs) \<subseteq> set (map snd sealed) \<longrightarrow>
      (\<exists>received c'. client_open_all cr c fs = Inr (received, c') \<and> prefix received ms))"
  by (rule desktop_stream_opens [OF assms])

theorem desktop_to_mobile_stream_witness:
  "\<exists>c d sealed c' d'. desktop_seal_all plain_crypto d [(Text_Payload, [1]), (Binary_Payload, [2])] = Inr (sealed, d') \<and>
     client_open_all plain_crypto c sealed = Inr ([(Text_Payload, [1]), (Binary_Payload, [2])], c')"
proof -
  obtain c d where "paired plain_crypto c d" "ds_outboundCounter d = 0" using sample_pairing by blast
  then show ?thesis
    using desktop_to_mobile_stream [of plain_crypto c d "[(Text_Payload, [1]), (Binary_Payload, [2])]" "[]"] by auto
qed

end
