(* ===== verification/Ws_Outbound.thy ===== *)
theory Ws_Outbound
  imports Relay_Prelude "HOL-Library.Sublist"
begin

text \<open>
  The outbound backpressure queue of \<open>src/pie-mobile/upstream/src/shared/ws-outbound-backpressure-queue.ts\<close>,
  which the encrypted channels of both ends put before their socket. The queue is an array with a head
  index, as in the code; \<open>backlog\<close> is the list it stands for.

  The socket is the environment of a call: \<open>writable\<close> is the answer of \<open>isWritable\<close> and \<open>ba i\<close> the
  \<open>i\<close>-th reading of \<open>getBufferedAmount\<close>. What \<open>send\<close> does is a function on a sink state, with
  \<open>None\<close> for an exception, so that the same queue serves plain and sealing senders. Timers are
  numbered; \<open>wq_armed\<close> holds the ones that are set and have neither fired nor been cleared.
\<close>

section \<open>State\<close>

record wsq_options =
  wo_softCapBytes :: rat
  wo_maxQueuedBytes :: int

definition DEFAULT_WSQ_OPTIONS :: wsq_options where
  "DEFAULT_WSQ_OPTIONS = \<lparr>wo_softCapBytes = 8 * 1024 * 1024, wo_maxQueuedBytes = 64 * 1024 * 1024\<rparr>"

record 'f ws_queue =
  wq_queue :: "('f \<times> nat) list"
  wq_queueHead :: nat
  wq_queued :: int
  wq_timer :: "nat option"
  wq_overflowed :: bool
  wq_disposed :: bool
  wq_armed :: "nat list"
  wq_fresh :: nat

definition createWsOutboundBackpressureQueue :: "'f ws_queue" where
  "createWsOutboundBackpressureQueue =
     \<lparr>wq_queue = [], wq_queueHead = 0, wq_queued = 0, wq_timer = None, wq_overflowed = False,
      wq_disposed = False, wq_armed = [], wq_fresh = 0\<rparr>"

text \<open>How a call ends: normally, with the overflow callback, or with the exception of \<open>send\<close>.\<close>

datatype wsq_end = Returned | Overflow_Called | Send_Threw

section \<open>Operations\<close>

definition bufferedAmount :: "jsnum \<Rightarrow> rat" where
  "bufferedAmount value = (case value of Fin r \<Rightarrow> r | _ \<Rightarrow> 0)"

definition stopTimer :: "'f ws_queue \<Rightarrow> 'f ws_queue" where
  "stopTimer q =
     (case wq_timer q of
        None \<Rightarrow> q
      | Some t \<Rightarrow> q\<lparr>wq_armed := removeAll t (wq_armed q), wq_timer := None\<rparr>)"

definition setTimer :: "'f ws_queue \<Rightarrow> 'f ws_queue" where
  "setTimer q =
     q\<lparr>wq_timer := Some (wq_fresh q), wq_armed := wq_armed q @ [wq_fresh q], wq_fresh := Suc (wq_fresh q)\<rparr>"

definition dropBacklog :: "'f ws_queue \<Rightarrow> 'f ws_queue" where
  "dropBacklog q = stopTimer (q\<lparr>wq_queue := [], wq_queueHead := 0, wq_queued := 0\<rparr>)"

text \<open>The loop of \<open>drain\<close> over the entries from the head on: how it ends, the sink, the entries taken and their bytes.\<close>

fun drain_loop ::
  "('s \<Rightarrow> 'f \<Rightarrow> 's option) \<Rightarrow> (nat \<Rightarrow> jsnum) \<Rightarrow> rat \<Rightarrow> nat \<Rightarrow> 's \<Rightarrow> ('f \<times> nat) list \<Rightarrow> wsq_end \<times> 's \<times> nat \<times> nat" where
  "drain_loop snd_frame ba cap i s [] = (Returned, s, 0, 0)"
| "drain_loop snd_frame ba cap i s ((f, n) # es) =
     (if bufferedAmount (ba i) \<le> cap
      then (case snd_frame s f of
              None \<Rightarrow> (Send_Threw, s, 1, n)
            | Some s' \<Rightarrow>
                (let (r, s'', k, b) = drain_loop snd_frame ba cap (Suc i) s' es in (r, s'', Suc k, n + b)))
      else (Returned, s, 0, 0))"

definition drain ::
  "('s \<Rightarrow> 'f \<Rightarrow> 's option) \<Rightarrow> wsq_options \<Rightarrow> bool \<Rightarrow> (nat \<Rightarrow> jsnum) \<Rightarrow> 'f ws_queue \<Rightarrow> 's \<Rightarrow> wsq_end \<times> 'f ws_queue \<times> 's" where
  "drain snd_frame opts writable ba q s =
     (if wq_disposed q \<or> wq_overflowed q then (Returned, q, s)
      else if \<not> writable then (Returned, dropBacklog q, s)
      else (let (r, s', k, b) = drain_loop snd_frame ba (wo_softCapBytes opts) 0 s (drop (wq_queueHead q) (wq_queue q));
                q' = q\<lparr>wq_queueHead := wq_queueHead q + k, wq_queued := wq_queued q - int b\<rparr>
            in if r = Send_Threw then (Send_Threw, q', s')
               else if wq_queueHead q' < length (wq_queue q') then (Returned, setTimer q', s')
               else (Returned, stopTimer (q'\<lparr>wq_queue := [], wq_queueHead := 0\<rparr>), s')))"

text \<open>The callback of a timer; one that was cleared does not run.\<close>

definition timer_fired ::
  "('s \<Rightarrow> 'f \<Rightarrow> 's option) \<Rightarrow> wsq_options \<Rightarrow> nat \<Rightarrow> bool \<Rightarrow> (nat \<Rightarrow> jsnum) \<Rightarrow> 'f ws_queue \<Rightarrow> 's \<Rightarrow>
   wsq_end \<times> 'f ws_queue \<times> 's" where
  "timer_fired snd_frame opts t writable ba q s =
     (if t \<in> set (wq_armed q)
      then drain snd_frame opts writable ba (q\<lparr>wq_armed := removeAll t (wq_armed q)\<rparr>) s
      else (Returned, q, s))"

definition wsq_enqueue ::
  "('s \<Rightarrow> 'f \<Rightarrow> 's option) \<Rightarrow> ('f \<Rightarrow> nat) \<Rightarrow> wsq_options \<Rightarrow> bool \<Rightarrow> (nat \<Rightarrow> jsnum) \<Rightarrow> 'f \<Rightarrow> 'f ws_queue \<Rightarrow> 's \<Rightarrow>
   wsq_end \<times> 'f ws_queue \<times> 's" where
  "wsq_enqueue snd_frame byteLengthOf opts writable ba f q s =
     (if wq_disposed q \<or> wq_overflowed q then (Returned, q, s)
      else if wq_queueHead q = length (wq_queue q) \<and> writable \<and> bufferedAmount (ba 0) \<le> wo_softCapBytes opts
      then (case snd_frame s f of None \<Rightarrow> (Send_Threw, q, s) | Some s' \<Rightarrow> (Returned, q, s'))
      else (let n = byteLengthOf f;
                q1 = q\<lparr>wq_queue := wq_queue q @ [(f, n)], wq_queued := wq_queued q + int n\<rparr>
            in if wq_queued q1 > wo_maxQueuedBytes opts
               then (Overflow_Called, dropBacklog (q1\<lparr>wq_overflowed := True\<rparr>), s)
               else (Returned, if wq_timer q1 = None then setTimer q1 else q1, s)))"

definition wsq_dispose :: "'f ws_queue \<Rightarrow> 'f ws_queue" where
  "wsq_dispose q = dropBacklog (q\<lparr>wq_disposed := True\<rparr>)"

section \<open>Runs\<close>

text \<open>What can happen to a queue.\<close>

datatype 'f wsq_event =
    WE_Enqueue bool "nat \<Rightarrow> jsnum" 'f
  | WE_Timer nat bool "nat \<Rightarrow> jsnum"
  | WE_Dispose

text \<open>A queue with its sink and the record of what was offered to it while it took frames and of how its calls ended.\<close>

record ('f, 's) wsq_world =
  ww_queue :: "'f ws_queue"
  ww_sink :: 's
  ww_offered :: "'f list"
  ww_lost :: bool
  ww_threw :: bool

definition backlog :: "'f ws_queue \<Rightarrow> 'f list" where
  "backlog q = map fst (drop (wq_queueHead q) (wq_queue q))"

definition live :: "'f ws_queue \<Rightarrow> bool" where
  "live q \<longleftrightarrow> \<not> wq_disposed q \<and> \<not> wq_overflowed q"

definition wsq_next ::
  "('s \<Rightarrow> 'f \<Rightarrow> 's option) \<Rightarrow> ('f \<Rightarrow> nat) \<Rightarrow> wsq_options \<Rightarrow> 'f ws_queue \<Rightarrow> 's \<Rightarrow> 'f wsq_event \<Rightarrow> wsq_end \<times> 'f ws_queue \<times> 's" where
  "wsq_next snd_frame len opts q s e =
     (case e of
        WE_Enqueue writable ba f \<Rightarrow> wsq_enqueue snd_frame len opts writable ba f q s
      | WE_Timer t writable ba \<Rightarrow> timer_fired snd_frame opts t writable ba q s
      | WE_Dispose \<Rightarrow> (Returned, wsq_dispose q, s))"

text \<open>An event discards frames when it closes the queue or finds the socket gone while frames wait.\<close>

definition discards :: "wsq_end \<Rightarrow> 'f ws_queue \<Rightarrow> 'f wsq_event \<Rightarrow> bool" where
  "discards r q e \<longleftrightarrow>
     (case e of
        WE_Enqueue _ _ _ \<Rightarrow> r = Overflow_Called \<or> \<not> live q
      | WE_Timer t writable _ \<Rightarrow> t \<in> set (wq_armed q) \<and> live q \<and> \<not> writable
      | WE_Dispose \<Rightarrow> True)"

definition wsq_step ::
  "('s \<Rightarrow> 'f \<Rightarrow> 's option) \<Rightarrow> ('f \<Rightarrow> nat) \<Rightarrow> wsq_options \<Rightarrow> ('f, 's) wsq_world \<Rightarrow> 'f wsq_event \<Rightarrow> ('f, 's) wsq_world" where
  "wsq_step snd_frame len opts w e =
     (let (r, q, s) = wsq_next snd_frame len opts (ww_queue w) (ww_sink w) e
      in w\<lparr>ww_queue := q, ww_sink := s,
           ww_offered := ww_offered w @ (case e of WE_Enqueue _ _ f \<Rightarrow> [f] | _ \<Rightarrow> []),
           ww_lost := (ww_lost w \<or> discards r (ww_queue w) e),
           ww_threw := (ww_threw w \<or> r = Send_Threw)\<rparr>)"

definition wsq_start :: "'s \<Rightarrow> ('f, 's) wsq_world" where
  "wsq_start s = \<lparr>ww_queue = createWsOutboundBackpressureQueue, ww_sink = s, ww_offered = [], ww_lost = False, ww_threw = False\<rparr>"

section \<open>Invariant\<close>

text \<open>The sink after a list of frames was sent, \<open>None\<close> if one of them cannot be.\<close>

fun feed :: "('s \<Rightarrow> 'f \<Rightarrow> 's option) \<Rightarrow> 's \<Rightarrow> 'f list \<Rightarrow> 's option" where
  "feed snd_frame s [] = Some s"
| "feed snd_frame s (f # fs) = (case snd_frame s f of None \<Rightarrow> None | Some s' \<Rightarrow> feed snd_frame s' fs)"

definition wsq_ok :: "('f \<Rightarrow> nat) \<Rightarrow> wsq_options \<Rightarrow> 'f ws_queue \<Rightarrow> bool" where
  "wsq_ok len opts q \<longleftrightarrow>
     wq_queueHead q \<le> length (wq_queue q) \<and>
     (\<forall>(f, n) \<in> set (wq_queue q). n = len f) \<and>
     wq_queued q = int (sum_list (map len (backlog q))) \<and> wq_queued q \<le> wo_maxQueuedBytes opts \<and>
     (\<not> live q \<longrightarrow> backlog q = [] \<and> wq_timer q = None) \<and>
     set (wq_armed q) \<subseteq> set_option (wq_timer q)"

text \<open>As long as \<open>send\<close> never threw, a timer is armed exactly when \<open>timer\<close> is set, and it is when frames wait.\<close>

definition timers_ok :: "'f ws_queue \<Rightarrow> bool" where
  "timers_ok q \<longleftrightarrow>
     (wq_queueHead q < length (wq_queue q) \<longrightarrow> wq_timer q \<noteq> None) \<and> set (wq_armed q) = set_option (wq_timer q)"

definition wsq_inv ::
  "('s \<Rightarrow> 'f \<Rightarrow> 's option) \<Rightarrow> ('f \<Rightarrow> nat) \<Rightarrow> wsq_options \<Rightarrow> 's \<Rightarrow> ('f, 's) wsq_world \<Rightarrow> bool" where
  "wsq_inv snd_frame len opts s0 w \<longleftrightarrow>
     wsq_ok len opts (ww_queue w) \<and> (\<not> ww_threw w \<longrightarrow> timers_ok (ww_queue w)) \<and>
     (\<exists>sent. feed snd_frame s0 sent = Some (ww_sink w) \<and>
        subseq (sent @ backlog (ww_queue w)) (ww_offered w) \<and>
        (\<not> ww_lost w \<and> \<not> ww_threw w \<longrightarrow> sent @ backlog (ww_queue w) = ww_offered w))"

lemma subseq_left: "subseq (xs @ ys) zs \<Longrightarrow> subseq xs zs"
  using subseq_order.trans [OF list_emb_prefix [OF subseq_order.refl [of xs], of ys]] by blast

lemma feed_append: "feed snd_frame s (xs @ ys) = (case feed snd_frame s xs of None \<Rightarrow> None | Some s' \<Rightarrow> feed snd_frame s' ys)"
  by (induction xs arbitrary: s) (auto split: option.splits)

lemma drain_loop_feed:
  assumes "drain_loop snd_frame ba cap i s es = (r, s', k, b)"
  shows "k \<le> length es \<and> b = sum_list (map snd (take k es)) \<and> r \<noteq> Overflow_Called \<and>
    (\<exists>sent. feed snd_frame s sent = Some s' \<and>
       (if r = Returned then sent = map fst (take k es) else subseq sent (map fst (take k es))))"
  using assms
proof (induction snd_frame ba cap i s es arbitrary: r s' k b rule: drain_loop.induct)
  case (2 snd_frame ba cap i s f n es)
  show ?case
  proof (cases "bufferedAmount (ba i) \<le> cap \<and> snd_frame s f \<noteq> None")
    case True
    then obtain t where t: "snd_frame s f = Some t" by blast
    obtain r' u k' b' where rec: "drain_loop snd_frame ba cap (Suc i) t es = (r', u, k', b')" by (metis prod_cases4)
    from "2.IH" [OF _ t rec] True
    obtain sent where ih: "k' \<le> length es" "b' = sum_list (map snd (take k' es))" "r' \<noteq> Overflow_Called"
      "feed snd_frame t sent = Some u" "if r' = Returned then sent = map fst (take k' es) else subseq sent (map fst (take k' es))"
      by auto
    have "r = r'" "s' = u" "k = Suc k'" "b = n + b'" using "2.prems" True t rec by auto
    with ih t show ?thesis by (intro conjI exI [of _ "f # sent"]) (auto split: if_splits)
  next
    case False
    with "2.prems" show ?thesis by (auto split: if_splits option.splits intro: exI [of _ "[]"])
  qed
qed simp

lemma backlog_simps [simp]:
  "backlog (q\<lparr>wq_armed := a\<rparr>) = backlog q" "backlog (q\<lparr>wq_timer := t\<rparr>) = backlog q"
  "backlog (stopTimer q) = backlog q" "backlog (setTimer q) = backlog q" "backlog (dropBacklog q) = []"
  "backlog (q\<lparr>wq_overflowed := b\<rparr>) = backlog q" "backlog (q\<lparr>wq_disposed := b\<rparr>) = backlog q"
  by (simp_all add: backlog_def stopTimer_def setTimer_def dropBacklog_def split: option.splits)

lemma live_simps [simp]:
  "live (q\<lparr>wq_armed := a\<rparr>) = live q" "live (stopTimer q) = live q" "live (setTimer q) = live q"
  "live (dropBacklog q) = live q" "live (q\<lparr>wq_queue := x\<rparr>) = live q" "live (q\<lparr>wq_queueHead := h\<rparr>) = live q"
  "live (q\<lparr>wq_queued := n\<rparr>) = live q" "live (q\<lparr>wq_overflowed := True\<rparr>) = False" "live (q\<lparr>wq_disposed := True\<rparr>) = False"
  by (simp_all add: live_def stopTimer_def setTimer_def dropBacklog_def split: option.splits)

lemma dropBacklog_ok:
  "0 \<le> wo_maxQueuedBytes opts \<Longrightarrow> set (wq_armed q) \<subseteq> set_option (wq_timer q) \<Longrightarrow>
     wsq_ok len opts (dropBacklog q) \<and> timers_ok (dropBacklog q)"
  by (cases "wq_timer q") (auto simp: wsq_ok_def timers_ok_def dropBacklog_def stopTimer_def backlog_def live_def)

lemma wsq_ok_bytes:
  assumes "wsq_ok len opts q"
  shows "map snd (take k (drop (wq_queueHead q) (wq_queue q))) = map len (take k (backlog q))"
  using assms by (auto simp: wsq_ok_def backlog_def take_map dest!: in_set_takeD in_set_dropD)

text \<open>Draining a live queue on a writable socket: what is sent and what still waits is what waited before.\<close>

lemma drain_writable:
  assumes ok: "wsq_ok len opts q" and live: "live q" and armed: "wq_armed q = []"
    and d: "drain snd_frame opts True ba q s = (r, q', s')"
  shows "wsq_ok len opts q' \<and> live q' \<and> r \<noteq> Overflow_Called \<and> (r = Returned \<longrightarrow> timers_ok q') \<and>
    (\<exists>sent. feed snd_frame s sent = Some s' \<and>
       (if r = Returned then sent @ backlog q' = backlog q else subseq (sent @ backlog q') (backlog q)))"
proof -
  let ?es = "drop (wq_queueHead q) (wq_queue q)"
  obtain r1 s1 k b where lp: "drain_loop snd_frame ba (wo_softCapBytes opts) 0 s ?es = (r1, s1, k, b)" by (metis prod_cases4)
  obtain sent where k: "k \<le> length ?es" "b = sum_list (map len (take k (backlog q)))" "r1 \<noteq> Overflow_Called"
    and sent: "feed snd_frame s sent = Some s1"
      "if r1 = Returned then sent = take k (backlog q) else subseq sent (take k (backlog q))"
    using drain_loop_feed [OF lp] wsq_ok_bytes [OF ok, of k] by (auto simp: backlog_def take_map)
  let ?q = "q\<lparr>wq_queueHead := wq_queueHead q + k, wq_queued := wq_queued q - int b\<rparr>"
  have bklog: "backlog ?q = drop k (backlog q)" by (simp add: backlog_def drop_map add.commute)
  have sums: "sum_list (map len (backlog q)) = b + sum_list (map len (drop k (backlog q)))"
    using k(2) by (metis append_take_drop_id map_append sum_list_append)
  have q1: "wsq_ok len opts ?q"
    using ok k(1) sums bklog live armed by (auto simp: wsq_ok_def live_def)
  have lv: "live ?q" using live by simp
  from d lp live have res: "(r, q', s') =
      (if r1 = Send_Threw then (Send_Threw, ?q, s1)
       else if wq_queueHead ?q < length (wq_queue ?q) then (Returned, setTimer ?q, s1)
       else (Returned, stopTimer (?q\<lparr>wq_queue := [], wq_queueHead := 0\<rparr>), s1))"
    by (simp add: drain_def live_def Let_def)
  consider (threw) "r1 = Send_Threw" | (more) "r1 = Returned" "wq_queueHead ?q < length (wq_queue ?q)"
    | (all) "r1 = Returned" "\<not> wq_queueHead ?q < length (wq_queue ?q)"
    using k(3) by (cases r1) auto
  then show ?thesis
  proof cases
    case threw
    then have "r = Send_Threw" "q' = ?q" "s' = s1" using res by auto
    moreover have "subseq (sent @ drop k (backlog q)) (backlog q)"
      using sent(2) threw list_emb_append_mono [of "(=)" sent "take k (backlog q)" "drop k (backlog q)" "drop k (backlog q)"] by simp
    ultimately show ?thesis using q1 lv sent(1) bklog by auto
  next
    case more
    then have "r = Returned" "q' = setTimer ?q" "s' = s1" using res by auto
    moreover have "wsq_ok len opts (setTimer ?q)" "timers_ok (setTimer ?q)"
      using q1 armed lv by (auto simp: wsq_ok_def timers_ok_def setTimer_def backlog_def live_def)
    ultimately show ?thesis using sent more bklog lv by auto
  next
    case all
    then have eq: "r = Returned" "q' = stopTimer (?q\<lparr>wq_queue := [], wq_queueHead := 0\<rparr>)" "s' = s1" using res by auto
    have nil: "drop k (backlog q) = []" using all(2) by (simp add: backlog_def)
    have "wsq_ok len opts q'" "timers_ok q'"
      using q1 armed lv nil bklog eq(2)
      by (auto simp: wsq_ok_def timers_ok_def stopTimer_def backlog_def live_def split: option.splits)
    moreover have "backlog q' = []" using eq(2) by (simp add: backlog_def stopTimer_def split: option.splits)
    moreover have "take k (backlog q) = backlog q" using nil by simp
    ultimately show ?thesis using sent all eq lv by auto
  qed
qed

lemma wsq_ok_clear_armed: "wsq_ok len opts q \<Longrightarrow> wsq_ok len opts (q\<lparr>wq_armed := []\<rparr>)"
  by (simp add: wsq_ok_def)

lemma timer_inv:
  assumes w: "wsq_inv snd_frame len opts s0 w" and opts: "0 \<le> wo_maxQueuedBytes opts"
  shows "wsq_inv snd_frame len opts s0 (wsq_step snd_frame len opts w (WE_Timer t writable ba))"
proof (cases "t \<in> set (wq_armed (ww_queue w))")
  case False
  then have "wsq_step snd_frame len opts w (WE_Timer t writable ba) = w"
    by (simp add: wsq_step_def wsq_next_def timer_fired_def discards_def)
  with w show ?thesis by simp
next
  case True
  let ?q = "ww_queue w"
  have ok: "wsq_ok len opts ?q" using w by (simp add: wsq_inv_def)
  have tm: "wq_timer ?q = Some t" "set (wq_armed ?q) = {t}" and lv: "live ?q"
    using ok True by (cases "wq_timer ?q"; auto simp: wsq_ok_def)+
  have rm: "removeAll t (wq_armed ?q) = []" using tm(2) by (auto simp: filter_empty_conv removeAll_filter_not_eq)
  obtain sent where sent: "feed snd_frame s0 sent = Some (ww_sink w)" "subseq (sent @ backlog ?q) (ww_offered w)"
      "\<not> ww_lost w \<and> \<not> ww_threw w \<longrightarrow> sent @ backlog ?q = ww_offered w"
    using w by (auto simp: wsq_inv_def)
  show ?thesis
  proof (cases writable)
    case False
    have "drain snd_frame opts writable ba (?q\<lparr>wq_armed := []\<rparr>) (ww_sink w) = (Returned, dropBacklog (?q\<lparr>wq_armed := []\<rparr>), ww_sink w)"
      using False lv by (simp add: drain_def live_def)
    then have st: "wsq_step snd_frame len opts w (WE_Timer t writable ba) =
        w\<lparr>ww_queue := dropBacklog (?q\<lparr>wq_armed := []\<rparr>), ww_lost := True\<rparr>"
      using True False lv by (simp add: wsq_step_def wsq_next_def timer_fired_def discards_def rm)
    have "subseq sent (ww_offered w)" by (rule subseq_left [OF sent(2)])
    with dropBacklog_ok [OF opts, of "?q\<lparr>wq_armed := []\<rparr>" len] sent(1) st show ?thesis
      by (auto simp: wsq_inv_def)
  next
    case wr: True
    obtain r q' s' where d: "drain snd_frame opts True ba (?q\<lparr>wq_armed := []\<rparr>) (ww_sink w) = (r, q', s')" by (metis prod_cases3)
    from drain_writable [OF wsq_ok_clear_armed [OF ok] _ _ d, unfolded backlog_simps live_simps] lv
    obtain now where dr: "wsq_ok len opts q'" "r \<noteq> Overflow_Called" "r = Returned \<longrightarrow> timers_ok q'"
      "feed snd_frame (ww_sink w) now = Some s'"
      "if r = Returned then now @ backlog q' = backlog ?q else subseq (now @ backlog q') (backlog ?q)" by auto
    have st: "wsq_step snd_frame len opts w (WE_Timer t writable ba) =
        w\<lparr>ww_queue := q', ww_sink := s', ww_threw := (ww_threw w \<or> r = Send_Threw)\<rparr>"
      using True wr d by (simp add: wsq_step_def wsq_next_def timer_fired_def discards_def rm)
    have "subseq (sent @ now @ backlog q') (sent @ backlog ?q)"
      using dr(5) list_emb_append_mono [OF subseq_order.refl [of sent]] by (auto split: if_splits)
    then have "subseq ((sent @ now) @ backlog q') (ww_offered w)" using sent(2) by (metis append_assoc subseq_order.trans)
    moreover have "feed snd_frame s0 (sent @ now) = Some s'" using sent(1) dr(4) by (simp add: feed_append)
    moreover have "r = Returned \<or> r = Send_Threw" using dr(2) by (cases r) auto
    ultimately show ?thesis using dr(1,3,5) sent(3) st by (auto simp: wsq_inv_def split: if_splits)
  qed
qed

lemma enqueue_inv:
  assumes w: "wsq_inv snd_frame len opts s0 w" and opts: "0 \<le> wo_maxQueuedBytes opts"
  shows "wsq_inv snd_frame len opts s0 (wsq_step snd_frame len opts w (WE_Enqueue writable ba f))"
proof -
  let ?q = "ww_queue w"
  have ok: "wsq_ok len opts ?q" using w by (simp add: wsq_inv_def)
  obtain sent where sent: "feed snd_frame s0 sent = Some (ww_sink w)" "subseq (sent @ backlog ?q) (ww_offered w)"
      "\<not> ww_lost w \<and> \<not> ww_threw w \<longrightarrow> sent @ backlog ?q = ww_offered w"
    using w by (auto simp: wsq_inv_def)
  have sub: "subseq (sent @ backlog ?q) (ww_offered w @ [f])" by (rule list_emb_prefix [OF sent(2)])
  let ?direct = "wq_queueHead ?q = length (wq_queue ?q) \<and> writable \<and> bufferedAmount (ba 0) \<le> wo_softCapBytes opts"
  let ?q1 = "?q\<lparr>wq_queue := wq_queue ?q @ [(f, len f)], wq_queued := wq_queued ?q + int (len f)\<rparr>"
  have bl: "backlog ?q1 = backlog ?q @ [f]" using ok by (simp add: backlog_def wsq_ok_def)
  consider (closed) "\<not> live ?q" | (threw) "live ?q" "?direct" "snd_frame (ww_sink w) f = None"
    | (direct) s' where "live ?q" "?direct" "snd_frame (ww_sink w) f = Some s'"
    | (overflow) "live ?q" "\<not> ?direct" "wq_queued ?q1 > wo_maxQueuedBytes opts"
    | (parked) "live ?q" "\<not> ?direct" "\<not> wq_queued ?q1 > wo_maxQueuedBytes opts"
    by fastforce
  then show ?thesis
  proof cases
    case closed
    then have "wsq_step snd_frame len opts w (WE_Enqueue writable ba f) = w\<lparr>ww_offered := ww_offered w @ [f], ww_lost := True\<rparr>"
      by (simp add: wsq_step_def wsq_next_def wsq_enqueue_def discards_def live_def)
    with w sent sub show ?thesis by (auto simp: wsq_inv_def)
  next
    case threw
    then have "wsq_step snd_frame len opts w (WE_Enqueue writable ba f) = w\<lparr>ww_offered := ww_offered w @ [f], ww_threw := True\<rparr>"
      by (simp add: wsq_step_def wsq_next_def wsq_enqueue_def discards_def live_def)
    with w sent sub show ?thesis by (auto simp: wsq_inv_def)
  next
    case direct
    then have st: "wsq_step snd_frame len opts w (WE_Enqueue writable ba f) = w\<lparr>ww_sink := s', ww_offered := ww_offered w @ [f]\<rparr>"
      by (simp add: wsq_step_def wsq_next_def wsq_enqueue_def discards_def live_def)
    have nil: "backlog ?q = []" using direct by (simp add: backlog_def)
    have "feed snd_frame s0 (sent @ [f]) = Some s'" using sent(1) direct by (simp add: feed_append)
    moreover have "subseq (sent @ [f]) (ww_offered w @ [f])" using sent(2) nil by simp
    ultimately show ?thesis using w sent(3) nil st unfolding wsq_inv_def by (intro conjI exI [of _ "sent @ [f]"]) auto
  next
    case overflow
    let ?q2 = "?q1\<lparr>wq_overflowed := True\<rparr>"
    have st: "wsq_step snd_frame len opts w (WE_Enqueue writable ba f) =
        w\<lparr>ww_queue := dropBacklog ?q2, ww_offered := ww_offered w @ [f], ww_lost := True\<rparr>"
      using overflow by (auto simp: wsq_step_def wsq_next_def wsq_enqueue_def discards_def live_def Let_def)
    have "subseq sent (ww_offered w @ [f])" by (rule subseq_left [OF sub])
    moreover have "set (wq_armed ?q2) \<subseteq> set_option (wq_timer ?q2)" using ok by (simp add: wsq_ok_def)
    ultimately show ?thesis using dropBacklog_ok [OF opts, of ?q2 len] sent(1) st by (auto simp: wsq_inv_def)
  next
    case parked
    let ?q2 = "if wq_timer ?q = None then setTimer ?q1 else ?q1"
    have st: "wsq_step snd_frame len opts w (WE_Enqueue writable ba f) =
        w\<lparr>ww_queue := ?q2, ww_offered := ww_offered w @ [f]\<rparr>"
      using parked by (auto simp: wsq_step_def wsq_next_def wsq_enqueue_def discards_def live_def Let_def)
    have "wsq_ok len opts ?q1" using ok parked bl by (auto simp: wsq_ok_def)
    then have q2: "wsq_ok len opts ?q2" using parked by (auto simp: wsq_ok_def setTimer_def backlog_def live_def)
    have tm: "timers_ok ?q2" if "timers_ok ?q" using that by (auto simp: timers_ok_def setTimer_def)
    have bl2: "backlog ?q2 = backlog ?q @ [f]" using bl by simp
    have "subseq (sent @ backlog ?q @ [f]) (ww_offered w @ [f])"
      using sent(2) list_emb_append_mono [of "(=)" "sent @ backlog ?q" "ww_offered w" "[f]" "[f]"] by simp
    then show ?thesis using w q2 tm bl2 sent st by (auto simp: wsq_inv_def)
  qed
qed

lemma dispose_inv:
  assumes w: "wsq_inv snd_frame len opts s0 w" and opts: "0 \<le> wo_maxQueuedBytes opts"
  shows "wsq_inv snd_frame len opts s0 (wsq_step snd_frame len opts w WE_Dispose)"
proof -
  let ?q = "(ww_queue w)\<lparr>wq_disposed := True\<rparr>"
  have st: "wsq_step snd_frame len opts w WE_Dispose = w\<lparr>ww_queue := dropBacklog ?q, ww_lost := True\<rparr>"
    by (simp add: wsq_step_def wsq_next_def discards_def wsq_dispose_def)
  have "set (wq_armed ?q) \<subseteq> set_option (wq_timer ?q)" using w by (simp add: wsq_inv_def wsq_ok_def)
  note d = dropBacklog_ok [OF opts this, of len]
  obtain sent where sent: "feed snd_frame s0 sent = Some (ww_sink w)" "subseq (sent @ backlog (ww_queue w)) (ww_offered w)"
    using w by (auto simp: wsq_inv_def)
  have "subseq sent (ww_offered w)" by (rule subseq_left [OF sent(2)])
  with d sent(1) st show ?thesis by (auto simp: wsq_inv_def)
qed

lemma wsq_ok_cap: "wsq_inv snd_frame len opts s0 w \<Longrightarrow> 0 \<le> wo_maxQueuedBytes opts"
  by (auto simp: wsq_inv_def wsq_ok_def)

interpretation outbound: event_machine "wsq_step snd_frame len opts" "wsq_inv snd_frame len opts s0"
  for snd_frame :: "'s \<Rightarrow> 'f \<Rightarrow> 's option" and len opts s0
proof unfold_locales
  fix w and e :: "'f wsq_event"
  assume w: "wsq_inv snd_frame len opts s0 w"
  note cap = wsq_ok_cap [OF w]
  show "wsq_inv snd_frame len opts s0 (wsq_step snd_frame len opts w e)"
    by (cases e) (simp_all add: timer_inv [OF w cap] enqueue_inv [OF w cap] dispose_inv [OF w cap])
qed

lemma wsq_start_inv: "0 \<le> wo_maxQueuedBytes opts \<Longrightarrow> wsq_inv snd_frame len opts s (wsq_start s)"
  by (auto simp: wsq_inv_def wsq_start_def wsq_ok_def timers_ok_def createWsOutboundBackpressureQueue_def backlog_def
      intro: exI [of _ "[]"])

section \<open>Properties\<close>

text \<open>
  Property C9. The outbound queue neither drops nor reorders. Whatever is offered to it and however the
  socket behaves, what reached the sink is a subsequence of what was offered, followed in order by what
  still waits; the bytes it holds are the bytes of the waiting frames and within the bound; and unless it
  overflowed, was disposed, found the socket gone or the sender threw, sent and waiting frames together
  are exactly the offered ones.
\<close>

theorem outbound_queue_is_lossless:
  fixes snd_frame :: "'s \<Rightarrow> 'f \<Rightarrow> 's option" and len opts s es
  assumes "0 \<le> wo_maxQueuedBytes opts"
  defines "w \<equiv> foldl (wsq_step snd_frame len opts) (wsq_start s) es"
  shows "\<exists>sent. feed snd_frame s sent = Some (ww_sink w) \<and>
    subseq (sent @ backlog (ww_queue w)) (ww_offered w) \<and>
    (\<not> ww_lost w \<and> \<not> ww_threw w \<longrightarrow> sent @ backlog (ww_queue w) = ww_offered w) \<and>
    wq_queued (ww_queue w) = int (sum_list (map len (backlog (ww_queue w)))) \<and>
    wq_queued (ww_queue w) \<le> wo_maxQueuedBytes opts"
  using outbound.run_inv [OF wsq_start_inv [OF assms(1)], of snd_frame len s es] unfolding w_def wsq_inv_def wsq_ok_def by blast

text \<open>A sink that is the list of what was sent.\<close>

definition log_send :: "'f list \<Rightarrow> 'f \<Rightarrow> 'f list option" where
  "log_send l f = Some (l @ [f])"

definition sample_run :: "nat wsq_event list" where
  "sample_run = [WE_Enqueue True (\<lambda>_. Fin 0) 1, WE_Enqueue True (\<lambda>_. Fin 9) 2, WE_Enqueue True (\<lambda>_. Fin 0) 3,
     WE_Timer 0 True (\<lambda>i. Fin (of_nat i * 9))]"

lemma sample_run_world:
  "foldl (wsq_step log_send (\<lambda>_. 1) \<lparr>wo_softCapBytes = 8, wo_maxQueuedBytes = 2\<rparr>) (wsq_start []) sample_run =
     \<lparr>ww_queue = \<lparr>wq_queue = [(2, 1), (3, 1)], wq_queueHead = 1, wq_queued = 1, wq_timer = Some 1, wq_overflowed = False,
        wq_disposed = False, wq_armed = [1], wq_fresh = 2\<rparr>, ww_sink = [1, 2], ww_offered = [1, 2, 3], ww_lost = False, ww_threw = False\<rparr>"
  by (simp add: sample_run_def wsq_start_def createWsOutboundBackpressureQueue_def wsq_step_def wsq_next_def wsq_enqueue_def
      timer_fired_def drain_def log_send_def bufferedAmount_def discards_def live_def setTimer_def Let_def)

theorem outbound_queue_is_lossless_witness:
  "let w = foldl (wsq_step log_send (\<lambda>_. 1) \<lparr>wo_softCapBytes = 8, wo_maxQueuedBytes = 2\<rparr>) (wsq_start []) sample_run
   in ww_sink w = [1, 2] \<and> backlog (ww_queue w) = [3] \<and>
     (\<exists>sent. feed log_send [] sent = Some (ww_sink w) \<and> sent @ backlog (ww_queue w) = ww_offered w)"
  using outbound_queue_is_lossless [where opts = "\<lparr>wo_softCapBytes = 8, wo_maxQueuedBytes = 2\<rparr>" and snd_frame = log_send and len = "\<lambda>_. 1" and s = "[]" and es = sample_run]
  unfolding sample_run_world by (auto simp: backlog_def Let_def)

lemma drain_loop_all:
  "(\<And>j. bufferedAmount (ba j) \<le> cap) \<Longrightarrow> feed snd_frame s (map fst es) = Some s' \<Longrightarrow>
     drain_loop snd_frame ba cap i s es = (Returned, s', length es, sum_list (map snd es))"
  by (induction snd_frame ba cap i s es arbitrary: s' rule: drain_loop.induct) (auto split: option.splits)

text \<open>
  Property C31. Waiting frames are never stranded while the sender does not throw: whenever frames wait, exactly
  one drain timer is armed, and when it fires on a writable socket with room, all of them go out in
  order and the timer is gone.
\<close>

theorem outbound_queue_progress:
  fixes snd_frame :: "'s \<Rightarrow> 'f \<Rightarrow> 's option" and len opts s es
  assumes "0 \<le> wo_maxQueuedBytes opts"
  defines "w \<equiv> foldl (wsq_step snd_frame len opts) (wsq_start s) es"
  assumes "\<not> ww_threw w" "backlog (ww_queue w) \<noteq> []"
    and "\<And>j. bufferedAmount (ba j) \<le> wo_softCapBytes opts" "feed snd_frame (ww_sink w) (backlog (ww_queue w)) = Some s'"
  shows "\<exists>t. set (wq_armed (ww_queue w)) = {t} \<and>
    (\<exists>q'. timer_fired snd_frame opts t True ba (ww_queue w) (ww_sink w) = (Returned, q', s') \<and>
       backlog q' = [] \<and> wq_armed q' = [] \<and> wq_timer q' = None)"
proof -
  let ?q = "ww_queue w"
  have inv: "wsq_ok len opts ?q" "timers_ok ?q"
    using outbound.run_inv [OF wsq_start_inv [OF assms(1)], of snd_frame len s es] assms(3) by (auto simp: w_def wsq_inv_def)
  have lv: "live ?q" using inv(1) assms(4) by (auto simp: wsq_ok_def)
  obtain t where t: "wq_timer ?q = Some t" "set (wq_armed ?q) = {t}"
    using inv(2) assms(4) by (auto simp: timers_ok_def backlog_def)
  have rm: "removeAll t (wq_armed ?q) = []" using t(2) by (auto simp: filter_empty_conv removeAll_filter_not_eq)
  let ?es = "drop (wq_queueHead ?q) (wq_queue ?q)"
  have "drain_loop snd_frame ba (wo_softCapBytes opts) 0 (ww_sink w) ?es = (Returned, s', length ?es, sum_list (map snd ?es))"
    using assms(5,6) by (intro drain_loop_all) (simp_all add: backlog_def)
  then show ?thesis
    using t lv rm inv(1) by (auto simp: timer_fired_def drain_def live_def Let_def stopTimer_def backlog_def wsq_ok_def)
qed

theorem outbound_queue_progress_witness:
  "let w = foldl (wsq_step log_send (\<lambda>_. 1) \<lparr>wo_softCapBytes = 8, wo_maxQueuedBytes = 2\<rparr>) (wsq_start []) sample_run
   in \<exists>t q'. timer_fired log_send \<lparr>wo_softCapBytes = 8, wo_maxQueuedBytes = 2\<rparr> t True (\<lambda>_. Fin 0) (ww_queue w) (ww_sink w) =
        (Returned, q', [1, 2, 3]) \<and> backlog q' = []"
proof -
  let ?w = "foldl (wsq_step log_send (\<lambda>_. 1) \<lparr>wo_softCapBytes = 8, wo_maxQueuedBytes = 2\<rparr>) (wsq_start []) sample_run"
  have h: "\<not> ww_threw ?w" "backlog (ww_queue ?w) \<noteq> []" "feed log_send (ww_sink ?w) (backlog (ww_queue ?w)) = Some [1, 2, 3]"
    unfolding sample_run_world by (simp_all add: backlog_def log_send_def)
  show ?thesis
    using outbound_queue_progress [OF _ h(1,2) _ h(3), of "\<lambda>_. Fin 0"] by (auto simp: bufferedAmount_def Let_def)
qed

lemma stranded_stays:
  "wq_queueHead q < length (wq_queue q) \<Longrightarrow> wq_timer q \<noteq> None \<Longrightarrow> wq_armed q = [] \<Longrightarrow>
     wsq_next snd_frame len opts q s e = (r, q', s') \<Longrightarrow>
     s' = s \<and> (live q' \<longrightarrow> wq_queueHead q' < length (wq_queue q') \<and> wq_timer q' \<noteq> None) \<and> wq_armed q' = []"
  by (cases e) (auto simp: wsq_next_def wsq_enqueue_def timer_fired_def wsq_dispose_def dropBacklog_def stopTimer_def live_def Let_def
      split: if_splits option.splits)

lemma dead_stays:
  "\<not> live q \<Longrightarrow> wq_armed q = [] \<Longrightarrow> wsq_next snd_frame len opts q s e = (r, q', s') \<Longrightarrow>
     s' = s \<and> \<not> live q' \<and> wq_armed q' = []"
  by (cases e) (auto simp: wsq_next_def wsq_enqueue_def timer_fired_def wsq_dispose_def dropBacklog_def stopTimer_def live_def
      split: if_splits option.splits)

definition stranded :: "'f ws_queue \<Rightarrow> bool" where
  "stranded q \<longleftrightarrow> wq_armed q = [] \<and> (live q \<longrightarrow> wq_queueHead q < length (wq_queue q) \<and> wq_timer q \<noteq> None)"

text \<open>
  An exception from \<open>send\<close> during a drain strands what waits behind it. The loop is left with
  the handle of the fired timer still set, so no timer is armed and none is ever armed again: whatever is
  enqueued later, nothing more reaches the socket until the queue overflows or is disposed.
\<close>

theorem throwing_send_strands_backlog:
  fixes w :: "('f, 's) wsq_world"
  assumes "wq_timer (ww_queue w) = Some t" "wq_armed (ww_queue w) = [t]" "live (ww_queue w)"
    and "backlog (ww_queue w) = f # g # fs" "snd_frame (ww_sink w) f = None" "bufferedAmount (ba 0) \<le> wo_softCapBytes opts"
  shows "ww_sink (foldl (wsq_step snd_frame len opts) w (WE_Timer t True ba # es)) = ww_sink w"
proof -
  let ?q = "ww_queue w"
  obtain n es' where es': "drop (wq_queueHead ?q) (wq_queue ?q) = (f, n) # es'" "es' \<noteq> []"
    using assms(4) by (auto simp: backlog_def map_eq_Cons_conv)
  have len: "wq_queueHead ?q + 1 < length (wq_queue ?q)"
    using es' by (metis One_nat_def Suc_less_eq add.commute length_Cons length_drop length_greater_0_conv less_diff_conv plus_1_eq_Suc)
  let ?w = "wsq_step snd_frame len opts w (WE_Timer t True ba)"
  have first: "ww_sink ?w = ww_sink w" "stranded (ww_queue ?w)"
    using assms es' len
    by (simp_all add: wsq_step_def wsq_next_def timer_fired_def drain_def live_def stranded_def Let_def)
  have "ww_sink (foldl (wsq_step snd_frame len opts) v es) = ww_sink v" if "stranded (ww_queue v)" for v
    using that
  proof (induction es arbitrary: v)
    case (Cons e es)
    obtain r q' s' where n: "wsq_next snd_frame len opts (ww_queue v) (ww_sink v) e = (r, q', s')" by (metis prod_cases3)
    have "s' = ww_sink v \<and> stranded q'"
      using Cons.prems stranded_stays [OF _ _ _ n] dead_stays [OF _ _ n] by (auto simp: stranded_def)
    then show ?case using Cons.IH [of "wsq_step snd_frame len opts v e"] n by (simp add: wsq_step_def)
  qed simp
  with first show ?thesis by simp
qed

theorem throwing_send_strands_backlog_witness:
  "ww_sink (foldl (wsq_step (\<lambda>l f. if f = 2 then None else Some (l @ [f])) (\<lambda>_. 1) \<lparr>wo_softCapBytes = 8, wo_maxQueuedBytes = 9\<rparr>)
      \<lparr>ww_queue = \<lparr>wq_queue = [(2, 1), (3, 1)], wq_queueHead = 0, wq_queued = 2, wq_timer = Some 0, wq_overflowed = False,
         wq_disposed = False, wq_armed = [0], wq_fresh = 1\<rparr>, ww_sink = [1], ww_offered = [1, 2, 3 :: nat], ww_lost = False, ww_threw = False\<rparr>
      [WE_Timer 0 True (\<lambda>_. Fin 0), WE_Enqueue True (\<lambda>_. Fin 0) 4]) = [1]"
  by (subst throwing_send_strands_backlog [where f = 2 and g = 3 and fs = "[]"])
    (simp_all add: backlog_def live_def bufferedAmount_def)

end
