(* ===== verification/Device_Registry.thy ===== *)
theory Device_Registry
  imports Relay_Prelude
begin

text \<open>
  The registry of paired devices (\<open>src/pie-mobile/upstream/src/main/runtime/device-registry.ts\<close>): one
  revocable token per device. The identifiers and tokens that the code draws at random, and the clock,
  are arguments. The list is the state; writing it to its file, and reading a file back at start-up, are
  I/O and not modelled, except the check that a stored relay binding goes through.
\<close>

section \<open>State\<close>

datatype device_scope = Scope_Mobile | Scope_Runtime

datatype pairing_mode = Mode_Automatic | Mode_Local_Only

record relay_binding =
  rb_relayHostId :: string
  rb_relayDeviceId :: string
  rb_ownerIdentityKey :: string
  rb_inviteExpiresAt :: "jsnum option"

record device_entry =
  de_deviceId :: string
  de_name :: string
  de_token :: string
  de_scope :: device_scope
  de_pairedAt :: nat
  de_lastSeenAt :: nat
  de_relayBinding :: "relay_binding option"
  de_mobilePairingConnectionMode :: "pairing_mode option"

type_synonym registry = "device_entry list"

definition validRelayBinding :: "json option \<Rightarrow> string \<Rightarrow> relay_binding option" where
  "validRelayBinding value deviceId =
     (case value of
        None \<Rightarrow> None
      | Some b \<Rightarrow>
          (if \<not> truthy value \<or> \<not> typeof_object b then None
           else if jprop b ''relayDeviceId'' \<noteq> Some (JStr deviceId) then None
           else (case (as_string (jprop b ''relayHostId''), as_string (jprop b ''ownerIdentityKey'')) of
                   (Some host, Some owner) \<Rightarrow>
                     Some \<lparr>rb_relayHostId = host, rb_relayDeviceId = deviceId, rb_ownerIdentityKey = owner,
                           rb_inviteExpiresAt = (case as_number (jprop b ''inviteExpiresAt'') of
                              Some n \<Rightarrow> (if num_is_finite n then Some n else None) | None \<Rightarrow> None)\<rparr>
                 | _ \<Rightarrow> None)))"

section \<open>Operations\<close>

text \<open>What a new entry draws: a random id, a random token and the time.\<close>

record fresh_device =
  fd_uuid :: string
  fd_token :: string
  fd_now :: nat

definition addDevice :: "fresh_device \<Rightarrow> string \<Rightarrow> device_scope \<Rightarrow> registry \<Rightarrow> device_entry \<times> registry" where
  "addDevice fresh name scope ds =
     (let entry = \<lparr>de_deviceId = fd_uuid fresh, de_name = name, de_token = fd_token fresh, de_scope = scope,
                   de_pairedAt = fd_now fresh, de_lastSeenAt = 0, de_relayBinding = None,
                   de_mobilePairingConnectionMode = None\<rparr>
      in (entry, ds @ [entry]))"

definition pending :: "device_scope \<Rightarrow> device_entry \<Rightarrow> bool" where
  "pending scope d \<longleftrightarrow> de_lastSeenAt d = 0 \<and> de_scope d = scope"

definition getOrCreatePendingDevice :: "fresh_device \<Rightarrow> string \<Rightarrow> device_scope \<Rightarrow> registry \<Rightarrow> device_entry \<times> registry" where
  "getOrCreatePendingDevice fresh name scope ds =
     (case find (pending scope) ds of
        Some existing \<Rightarrow> (existing, ds)
      | None \<Rightarrow> addDevice fresh name scope ds)"

definition rotatePendingDevice :: "fresh_device \<Rightarrow> string \<Rightarrow> device_scope \<Rightarrow> registry \<Rightarrow> device_entry \<times> registry" where
  "rotatePendingDevice fresh name scope ds =
     addDevice fresh name scope (filter (\<lambda>d. de_lastSeenAt d \<noteq> 0 \<or> de_scope d \<noteq> scope) ds)"

definition removeDevice :: "string \<Rightarrow> registry \<Rightarrow> bool \<times> registry" where
  "removeDevice deviceId ds =
     (let ds' = filter (\<lambda>d. de_deviceId d \<noteq> deviceId) ds in (length ds' < length ds, ds'))"

definition getDevice :: "string \<Rightarrow> registry \<Rightarrow> device_entry option" where
  "getDevice deviceId ds = find (\<lambda>d. de_deviceId d = deviceId) ds"

definition getPendingDevice :: "device_scope \<Rightarrow> registry \<Rightarrow> device_entry option" where
  "getPendingDevice scope ds = find (pending scope) ds"

text \<open>An assignment to a field of the first entry with an id.\<close>

fun update_first :: "('a \<Rightarrow> bool) \<Rightarrow> ('a \<Rightarrow> 'a) \<Rightarrow> 'a list \<Rightarrow> 'a list" where
  "update_first P f [] = []"
| "update_first P f (x # xs) = (if P x then f x # xs else x # update_first P f xs)"

definition setRelayBinding :: "string \<Rightarrow> relay_binding \<Rightarrow> registry \<Rightarrow> bool \<times> registry" where
  "setRelayBinding deviceId binding ds =
     (if getDevice deviceId ds = None \<or> rb_relayDeviceId binding \<noteq> deviceId then (False, ds)
      else (True, update_first (\<lambda>d. de_deviceId d = deviceId) (\<lambda>d. d\<lparr>de_relayBinding := Some binding\<rparr>) ds))"

definition setMobilePairingConnectionMode :: "string \<Rightarrow> pairing_mode \<Rightarrow> registry \<Rightarrow> bool \<times> registry" where
  "setMobilePairingConnectionMode deviceId mode ds =
     (case getDevice deviceId ds of
        None \<Rightarrow> (False, ds)
      | Some d \<Rightarrow>
          (if de_scope d \<noteq> Scope_Mobile then (False, ds)
           else (True, update_first (\<lambda>d. de_deviceId d = deviceId) (\<lambda>d. d\<lparr>de_mobilePairingConnectionMode := Some mode\<rparr>) ds)))"

definition getMobilePairingConnectionMode :: "string \<Rightarrow> registry \<Rightarrow> pairing_mode option" where
  "getMobilePairingConnectionMode deviceId ds =
     (case getDevice deviceId ds of
        None \<Rightarrow> None
      | Some d \<Rightarrow>
          (if de_scope d \<noteq> Scope_Mobile then None
           else Some (if de_mobilePairingConnectionMode d = Some Mode_Local_Only then Mode_Local_Only else Mode_Automatic)))"

definition validateToken :: "string \<Rightarrow> registry \<Rightarrow> device_entry option" where
  "validateToken token ds = find (\<lambda>d. de_token d = token) ds"

definition updateLastSeen :: "nat \<Rightarrow> string \<Rightarrow> registry \<Rightarrow> registry" where
  "updateLastSeen now deviceId ds = update_first (\<lambda>d. de_deviceId d = deviceId) (\<lambda>d. d\<lparr>de_lastSeenAt := now\<rparr>) ds"

section \<open>Runs\<close>

datatype registry_event =
    RE_Add fresh_device string device_scope
  | RE_Get_Or_Create fresh_device string device_scope
  | RE_Rotate fresh_device string device_scope
  | RE_Remove string
  | RE_Bind string relay_binding
  | RE_Set_Mode string pairing_mode
  | RE_Seen nat string

fun drawn :: "registry_event \<Rightarrow> fresh_device option" where
  "drawn (RE_Add f _ _) = Some f"
| "drawn (RE_Get_Or_Create f _ _) = Some f"
| "drawn (RE_Rotate f _ _) = Some f"
| "drawn _ = None"

fun registry_apply :: "registry \<Rightarrow> registry_event \<Rightarrow> registry" where
  "registry_apply ds (RE_Add f n s) = snd (addDevice f n s ds)"
| "registry_apply ds (RE_Get_Or_Create f n s) = snd (getOrCreatePendingDevice f n s ds)"
| "registry_apply ds (RE_Rotate f n s) = snd (rotatePendingDevice f n s ds)"
| "registry_apply ds (RE_Remove i) = snd (removeDevice i ds)"
| "registry_apply ds (RE_Bind i b) = snd (setRelayBinding i b ds)"
| "registry_apply ds (RE_Set_Mode i m) = snd (setMobilePairingConnectionMode i m ds)"
| "registry_apply ds (RE_Seen t i) = updateLastSeen t i ds"

text \<open>The random draws are fresh: an event whose id or token is already in use does not occur.\<close>

definition draws_fresh :: "registry \<Rightarrow> registry_event \<Rightarrow> bool" where
  "draws_fresh ds e \<longleftrightarrow>
     (case drawn e of
        None \<Rightarrow> True
      | Some f \<Rightarrow> fd_uuid f \<notin> de_deviceId ` set ds \<and> fd_token f \<notin> de_token ` set ds)"

definition registry_step :: "registry \<Rightarrow> registry_event \<Rightarrow> registry" where
  "registry_step ds e = (if draws_fresh ds e then registry_apply ds e else ds)"

definition registry_wf :: "registry \<Rightarrow> bool" where
  "registry_wf ds \<longleftrightarrow> distinct (map de_deviceId ds) \<and> distinct (map de_token ds) \<and>
     (\<forall>d b. d \<in> set ds \<and> de_relayBinding d = Some b \<longrightarrow> rb_relayDeviceId b = de_deviceId d)"

section \<open>Lemmas\<close>

lemma map_update_first: "(\<And>x. P x \<Longrightarrow> g (f x) = g x) \<Longrightarrow> map g (update_first P f xs) = map g xs"
  by (induction xs) auto

lemma set_update_first: "y \<in> set (update_first P f xs) \<Longrightarrow> y \<in> set xs \<or> (\<exists>x \<in> set xs. P x \<and> y = f x)"
  by (induction xs) (auto split: if_splits)

lemma validateToken_SomeD: "validateToken t ds = Some d \<Longrightarrow> d \<in> set ds \<and> de_token d = t"
  by (auto simp: validateToken_def find_Some_iff)

lemma validateToken_None: "validateToken t ds = None \<longleftrightarrow> t \<notin> de_token ` set ds"
  by (auto simp: validateToken_def find_None_iff)

lemma validateToken_unique:
  assumes "registry_wf ds" "d \<in> set ds"
  shows "validateToken (de_token d) ds = Some d"
proof -
  have "de_token d \<in> de_token ` set ds" using assms(2) by (rule imageI)
  then obtain x where x: "validateToken (de_token d) ds = Some x" using validateToken_None [of "de_token d" ds] by blast
  have "inj_on de_token (set ds)" using assms(1) by (simp add: registry_wf_def distinct_map)
  with validateToken_SomeD [OF x] assms(2) have "x = d" by (simp add: inj_on_def)
  with x show ?thesis by simp
qed

lemma addDevice_wf:
  "registry_wf ds \<Longrightarrow> fd_uuid f \<notin> de_deviceId ` set ds \<Longrightarrow> fd_token f \<notin> de_token ` set ds \<Longrightarrow>
     registry_wf (snd (addDevice f n s ds))"
  by (auto simp: registry_wf_def addDevice_def Let_def)

lemma filter_wf: "registry_wf ds \<Longrightarrow> registry_wf (filter P ds)"
  by (auto simp: registry_wf_def distinct_map_filter)

lemma update_first_wf:
  assumes "registry_wf ds" "\<And>d. de_deviceId (f d) = de_deviceId d \<and> de_token (f d) = de_token d"
    and "\<And>d b. P d \<Longrightarrow> de_relayBinding (f d) = Some b \<Longrightarrow> de_relayBinding d = Some b \<or> rb_relayDeviceId b = de_deviceId d"
  shows "registry_wf (update_first P f ds)"
proof -
  have "map de_deviceId (update_first P f ds) = map de_deviceId ds" "map de_token (update_first P f ds) = map de_token ds"
    using assms(2) by (simp_all add: map_update_first)
  moreover have "rb_relayDeviceId b = de_deviceId d" if "d \<in> set (update_first P f ds)" "de_relayBinding d = Some b" for d b
  proof -
    have old: "rb_relayDeviceId b = de_deviceId x" if "x \<in> set ds" "de_relayBinding x = Some b" for x
      using assms(1) that by (auto simp: registry_wf_def)
    show ?thesis using set_update_first [OF that(1)] that(2) old assms(2,3) by fastforce
  qed
  ultimately show ?thesis using assms(1) by (simp add: registry_wf_def)
qed

lemma registry_apply_wf:
  assumes wf: "registry_wf ds" and fresh: "draws_fresh ds e"
  shows "registry_wf (registry_apply ds e)"
proof (cases e)
  case (RE_Add f n s)
  then show ?thesis using fresh wf by (simp add: draws_fresh_def addDevice_wf)
next
  case (RE_Get_Or_Create f n s)
  then show ?thesis using fresh wf
    by (simp add: draws_fresh_def getOrCreatePendingDevice_def addDevice_wf split: option.split)
next
  case (RE_Rotate f n s)
  then show ?thesis using fresh wf by (auto simp: draws_fresh_def rotatePendingDevice_def intro!: addDevice_wf filter_wf)
next
  case (RE_Remove i)
  then show ?thesis using wf by (simp add: removeDevice_def Let_def filter_wf)
next
  case (RE_Bind i b)
  then show ?thesis using wf by (auto simp: setRelayBinding_def intro!: update_first_wf)
next
  case (RE_Set_Mode i m)
  then show ?thesis using wf by (auto simp: setMobilePairingConnectionMode_def intro!: update_first_wf split: option.split)
next
  case (RE_Seen t i)
  then show ?thesis using wf by (auto simp: updateLastSeen_def intro!: update_first_wf)
qed

interpretation registry: event_machine registry_step registry_wf
  by unfold_locales (simp add: registry_step_def registry_apply_wf)

section \<open>Properties\<close>

text \<open>
  Tokens identify devices. After any sequence of registrations, rotations, removals and updates with
  fresh random draws, ids and tokens are pairwise distinct, every device is the one its own token
  resolves to, and a relay binding always names the device it is stored with.
\<close>

theorem tokens_identify_devices:
  fixes es
  defines "ds \<equiv> foldl registry_step [] es"
  shows "distinct (map de_deviceId ds) \<and> distinct (map de_token ds) \<and>
    (\<forall>d. d \<in> set ds \<longrightarrow> validateToken (de_token d) ds = Some d \<and>
      (\<forall>b. de_relayBinding d = Some b \<longrightarrow> rb_relayDeviceId b = de_deviceId d))"
proof -
  have "registry_wf ds" unfolding ds_def by (rule registry.run_inv) (simp add: registry_wf_def)
  then show ?thesis using validateToken_unique by (auto simp: registry_wf_def)
qed

definition sample_draw :: "string \<Rightarrow> fresh_device" where
  "sample_draw s = \<lparr>fd_uuid = s, fd_token = ''t'' @ s, fd_now = 1\<rparr>"

theorem tokens_identify_devices_witness:
  "validateToken ''t1'' (foldl registry_step [] [RE_Add (sample_draw ''1'') ''phone'' Scope_Mobile]) \<noteq> None \<and>
   distinct (map de_token (foldl registry_step [] [RE_Add (sample_draw ''1'') ''phone'' Scope_Mobile]))"
proof -
  let ?ds = "foldl registry_step [] [RE_Add (sample_draw ''1'') ''phone'' Scope_Mobile]"
  have "de_token (hd ?ds) = ''t1'' \<and> hd ?ds \<in> set ?ds"
    by (simp add: registry_step_def draws_fresh_def addDevice_def sample_draw_def Let_def)
  then show ?thesis using tokens_identify_devices [of "[RE_Add (sample_draw ''1'') ''phone'' Scope_Mobile]"] by fastforce
qed

text \<open>
  Revocation takes effect at once and hits only its target. Rotating the pending device of a scope
  invalidates every token of that scope that was never used and installs exactly one new pending token;
  removing a device invalidates its token; all other tokens keep resolving to the same device.
\<close>

theorem revocation_is_exact:
  assumes "registry_wf ds" "fd_token fresh \<notin> de_token ` set ds" "d \<in> set ds"
  shows "validateToken (de_token d) (snd (rotatePendingDevice fresh name scope ds)) = (if pending scope d then None else Some d) \<and>
    validateToken (fd_token fresh) (snd (rotatePendingDevice fresh name scope ds)) = Some (fst (rotatePendingDevice fresh name scope ds)) \<and>
    validateToken (de_token d) (snd (removeDevice i ds)) = (if de_deviceId d = i then None else Some d)"
proof -
  have uniq: "x = d" if "x \<in> set ds" "de_token x = de_token d" for x
    using assms(1,3) that by (auto simp: registry_wf_def distinct_map inj_on_def)
  have kept: "validateToken (de_token d) (filter P ds) = (if P d then Some d else None)" for P
  proof (cases "P d")
    case True
    then have "d \<in> set (filter P ds)" using assms(3) by simp
    with validateToken_unique [OF filter_wf [OF assms(1)]] True show ?thesis by simp
  qed (use uniq in \<open>auto simp: validateToken_None\<close>)
  have ne: "de_token d \<noteq> fd_token fresh" using assms(2,3) by (metis imageI)
  let ?P = "\<lambda>d. de_lastSeenAt d \<noteq> 0 \<or> de_scope d \<noteq> scope"
  have app: "validateToken t (xs @ ys) = (case validateToken t xs of Some x \<Rightarrow> Some x | None \<Rightarrow> validateToken t ys)" for t xs ys
    by (induction xs) (auto simp: validateToken_def)
  have "validateToken (fd_token fresh) (filter ?P ds) = None" using assms(2) by (auto simp: validateToken_None)
  moreover have "?P d \<longleftrightarrow> \<not> pending scope d" by (auto simp: pending_def)
  ultimately show ?thesis
    using kept [of ?P] kept [of "\<lambda>d. de_deviceId d \<noteq> i"] ne
    by (auto simp: rotatePendingDevice_def addDevice_def removeDevice_def Let_def app validateToken_def [of _ "[_]"])
qed

definition sample_entry :: device_entry where
  "sample_entry = \<lparr>de_deviceId = ''1'', de_name = ''phone'', de_token = ''t1'', de_scope = Scope_Mobile, de_pairedAt = 1,
     de_lastSeenAt = 0, de_relayBinding = None, de_mobilePairingConnectionMode = None\<rparr>"

theorem revocation_is_exact_witness:
  "validateToken ''t1'' (snd (rotatePendingDevice (sample_draw ''2'') ''phone'' Scope_Mobile [sample_entry])) = None \<and>
   validateToken ''t1'' (snd (removeDevice ''1'' [sample_entry])) = None"
proof -
  have d: "de_token sample_entry = ''t1''" "de_deviceId sample_entry = ''1''" "pending Scope_Mobile sample_entry"
    "registry_wf [sample_entry]" "fd_token (sample_draw ''2'') \<notin> de_token ` set [sample_entry]"
    by (simp_all add: sample_entry_def pending_def registry_wf_def sample_draw_def)
  show ?thesis
    using revocation_is_exact [OF d(4,5), of sample_entry "''phone''" Scope_Mobile "''1''"] d(1-3) by simp
qed

end
