(* ===== verification/E2ee_Channel.thy ===== *)
theory E2ee_Channel
  imports E2ee_Session Ws_Outbound Device_Registry
begin

text \<open>
  The desktop end of an encrypted socket, under \<open>src/pie-mobile/upstream/src/main/runtime/rpc/\<close>:
  the channel that owns the handshake and the session (\<open>e2ee-channel.ts\<close>), its outbound queue
  (\<open>mobile-e2ee-v2-desktop-outbound.ts\<close>), and the older box format it still speaks on direct
  connections (\<open>src/shared/e2ee-crypto.ts\<close>).

  What a handler does to the outside is a list of effects: frames written to the socket, the
  callbacks \<open>onError\<close> and \<open>onReady\<close>, the messages passed to the RPC handlers, and \<open>Fx_Threw\<close> for
  an exception that leaves the handler. No callback re-enters the channel. Arguments of the model
  are the packages (\<open>crypto_lib\<close> and the two box functions of the older format), \<open>JSON.parse\<close> and
  \<open>JSON.stringify\<close>, the text decoder, Node's \<open>Buffer.from(_, 'base64')\<close>, and the device registry.
\<close>

section \<open>Parameters and state\<close>

record e2ee_device =
  dv_deviceId :: string
  dv_deviceToken :: string
  dv_scope :: device_scope

record channel_env =
  ce_crypto :: crypto_lib
  ce_box_after :: "bytes \<Rightarrow> bytes \<Rightarrow> bytes \<Rightarrow> bytes" \<comment> \<open>message, nonce, shared key\<close>
  ce_box_open_after :: "bytes \<Rightarrow> bytes \<Rightarrow> bytes \<Rightarrow> bytes option"
  ce_buffer_base64 :: "string \<Rightarrow> bytes"
  ce_text_decode :: "bytes \<Rightarrow> string"
  ce_parse :: "string \<Rightarrow> json option"
  ce_stringify :: "json \<Rightarrow> string"
  ce_serverSecretKey :: bytes
  ce_resolve :: "json \<Rightarrow> e2ee_device option"
  ce_transportContext :: e2ee_context
  ce_requireV2 :: bool

text \<open>The socket during one handler: whether it is open, its readings of \<open>bufferedAmount\<close>, the random bytes drawn.\<close>

record socket_now =
  sn_open :: bool
  sn_bufferedAmount :: "nat \<Rightarrow> jsnum"
  sn_random :: bytes

datatype channel_state = Awaiting_Hello | Awaiting_Auth | Channel_Ready

datatype v2_item = V2_Text string | V2_Binary bytes

record e2ee_channel =
  ch_state :: channel_state
  ch_sharedKey :: "bytes option"
  ch_consecutiveFailures :: nat
  ch_handshakeTimer :: bool
  ch_timerArmed :: bool
  ch_v2Session :: "desktop_session option"
  ch_v2OutboundQueue :: "v2_item ws_queue option"
  ch_textReplyQueue :: "string ws_queue option"
  ch_handlers :: bool
  ch_deviceToken :: "string option"
  ch_authenticatedDevice :: "e2ee_device option"

datatype channel_effect =
    Fx_Send raw_frame
  | Fx_Error nat string
  | Fx_Ready e2ee_device
  | Fx_Text string
  | Fx_Binary bytes
  | Fx_Threw

definition MAX_CONSECUTIVE_DECRYPT_FAILURES :: nat where "MAX_CONSECUTIVE_DECRYPT_FAILURES = 5"
definition MAX_BINARY_BUFFERED_AMOUNT :: rat where "MAX_BINARY_BUFFERED_AMOUNT = 8 * 1024 * 1024"

text \<open>The constructor; the owner registers both message handlers right after it.\<close>

definition channel_new :: e2ee_channel where
  "channel_new =
     \<lparr>ch_state = Awaiting_Hello, ch_sharedKey = None, ch_consecutiveFailures = 0, ch_handshakeTimer = True,
      ch_timerArmed = True, ch_v2Session = None, ch_v2OutboundQueue = None, ch_textReplyQueue = None,
      ch_handlers = True, ch_deviceToken = None, ch_authenticatedDevice = None\<rparr>"

section \<open>The older box format\<close>

definition encryptBytes :: "channel_env \<Rightarrow> bytes \<Rightarrow> bytes \<Rightarrow> bytes \<Rightarrow> bytes" where
  "encryptBytes env nonce plaintext sharedKey = nonce @ ce_box_after env plaintext nonce sharedKey"

definition decryptBytes :: "channel_env \<Rightarrow> bytes \<Rightarrow> bytes \<Rightarrow> bytes option" where
  "decryptBytes env bundle sharedKey =
     (if length bundle < 24 + 16 then None
      else ce_box_open_after env (drop 24 bundle) (take 24 bundle) sharedKey)"

definition encrypt :: "channel_env \<Rightarrow> bytes \<Rightarrow> string \<Rightarrow> bytes \<Rightarrow> string" where
  "encrypt env nonce plaintext sharedKey = btoa (encryptBytes env nonce (utf8 plaintext) sharedKey)"

definition decrypt :: "channel_env \<Rightarrow> string \<Rightarrow> bytes \<Rightarrow> string option" where
  "decrypt env encrypted sharedKey =
     map_option (ce_text_decode env) (decryptBytes env (ce_buffer_base64 env encrypted) sharedKey)"

section \<open>Outbound queues\<close>

text \<open>The sink of the v2 queue is the session, whose counter each sealing advances, and the frames written.\<close>

definition v2_send :: "crypto_lib \<Rightarrow> desktop_session \<times> raw_frame list \<Rightarrow> v2_item \<Rightarrow> (desktop_session \<times> raw_frame list) option" where
  "v2_send cr s item =
     (case item of
        V2_Text p \<Rightarrow>
          (case desktop_sealText cr p (fst s) of Inl _ \<Rightarrow> None | Inr (t, d) \<Rightarrow> Some (d, snd s @ [Raw_Text t]))
      | V2_Binary p \<Rightarrow>
          (case desktop_seal cr p Binary_Payload (fst s) of Inl _ \<Rightarrow> None | Inr (f, d) \<Rightarrow> Some (d, snd s @ [Raw_Binary f])))"

definition v2_byteLengthOf :: "v2_item \<Rightarrow> nat" where
  "v2_byteLengthOf item = (case item of V2_Text p \<Rightarrow> length (utf8 p) | V2_Binary p \<Rightarrow> length p) + 82"

definition text_send :: "raw_frame list \<Rightarrow> string \<Rightarrow> raw_frame list option" where
  "text_send sent f = Some (sent @ [Raw_Text f])"

definition end_effects :: "wsq_end \<Rightarrow> channel_effect list" where
  "end_effects r =
     (case r of
        Returned \<Rightarrow> []
      | Overflow_Called \<Rightarrow> [Fx_Error 1013 ''Outbound reply buffer overflow'']
      | Send_Threw \<Rightarrow> [Fx_Threw])"

definition enqueueV2 :: "channel_env \<Rightarrow> socket_now \<Rightarrow> v2_item \<Rightarrow> e2ee_channel \<Rightarrow> e2ee_channel \<times> channel_effect list" where
  "enqueueV2 env now item ch =
     (case ch_v2Session ch of
        None \<Rightarrow> (ch, [])
      | Some d \<Rightarrow>
          (if \<not> sn_open now then (ch, [])
           else (let q = (case ch_v2OutboundQueue ch of Some q \<Rightarrow> q | None \<Rightarrow> createWsOutboundBackpressureQueue);
                     (r, q', d', sent) = wsq_enqueue (v2_send (ce_crypto env)) v2_byteLengthOf DEFAULT_WSQ_OPTIONS (sn_open now)
                       (sn_bufferedAmount now) item q (d, [])
                 in (ch\<lparr>ch_v2Session := Some d', ch_v2OutboundQueue := Some q'\<rparr>, map Fx_Send sent @ end_effects r))))"

definition v2_queue_timer :: "channel_env \<Rightarrow> socket_now \<Rightarrow> nat \<Rightarrow> e2ee_channel \<Rightarrow> e2ee_channel \<times> channel_effect list" where
  "v2_queue_timer env now t ch =
     (case (ch_v2OutboundQueue ch, ch_v2Session ch) of
        (Some q, Some d) \<Rightarrow>
          (let (r, q', d', sent) = timer_fired (v2_send (ce_crypto env)) DEFAULT_WSQ_OPTIONS t (sn_open now) (sn_bufferedAmount now) q (d, [])
           in (ch\<lparr>ch_v2Session := Some d', ch_v2OutboundQueue := Some q'\<rparr>, map Fx_Send sent @ end_effects r))
      | _ \<Rightarrow> (ch, []))"

definition text_reply :: "channel_env \<Rightarrow> socket_now \<Rightarrow> string \<Rightarrow> e2ee_channel \<Rightarrow> e2ee_channel \<times> channel_effect list" where
  "text_reply env now response ch =
     (case ch_sharedKey ch of
        None \<Rightarrow> (ch, [])
      | Some key \<Rightarrow>
          (if \<not> sn_open now then (ch, [])
           else (let q = (case ch_textReplyQueue ch of Some q \<Rightarrow> q | None \<Rightarrow> createWsOutboundBackpressureQueue);
                     (r, q', sent) = wsq_enqueue text_send length DEFAULT_WSQ_OPTIONS (sn_open now) (sn_bufferedAmount now)
                       (encrypt env (sn_random now) response key) q []
                 in (ch\<lparr>ch_textReplyQueue := Some q'\<rparr>, map Fx_Send sent @ end_effects r))))"

definition text_queue_timer :: "socket_now \<Rightarrow> nat \<Rightarrow> e2ee_channel \<Rightarrow> e2ee_channel \<times> channel_effect list" where
  "text_queue_timer now t ch =
     (case ch_textReplyQueue ch of
        Some q \<Rightarrow>
          (let (r, q', sent) = timer_fired text_send DEFAULT_WSQ_OPTIONS t (ch_sharedKey ch \<noteq> None \<and> sn_open now) (sn_bufferedAmount now) q []
           in (ch\<lparr>ch_textReplyQueue := Some q'\<rparr>, map Fx_Send sent @ end_effects r))
      | None \<Rightarrow> (ch, []))"

definition binary_reply :: "channel_env \<Rightarrow> socket_now \<Rightarrow> bytes \<Rightarrow> e2ee_channel \<Rightarrow> e2ee_channel \<times> channel_effect list" where
  "binary_reply env now response ch =
     (case ch_sharedKey ch of
        None \<Rightarrow> (ch, [])
      | Some key \<Rightarrow>
          (if \<not> sn_open now then (ch, [])
           else if num_gt (sn_bufferedAmount now 0) MAX_BINARY_BUFFERED_AMOUNT then (ch, [])
           else (ch, [Fx_Send (Raw_Binary (encryptBytes env (sn_random now) response key))])))"

section \<open>The handshake\<close>

definition sendEncryptedControl :: "channel_env \<Rightarrow> socket_now \<Rightarrow> json \<Rightarrow> e2ee_channel \<Rightarrow> e2ee_channel \<times> channel_effect list" where
  "sendEncryptedControl env now msg ch =
     (case ch_v2Session ch of
        Some _ \<Rightarrow> enqueueV2 env now (V2_Text (ce_stringify env msg)) ch
      | None \<Rightarrow>
          (case ch_sharedKey ch of
             Some key \<Rightarrow>
               (ch, if sn_open now then [Fx_Send (Raw_Text (encrypt env (sn_random now) (ce_stringify env msg) key))] else [])
           | None \<Rightarrow> (ch, [])))"

definition trackDecryptFailure :: "e2ee_channel \<Rightarrow> e2ee_channel \<times> channel_effect list" where
  "trackDecryptFailure ch =
     (let n = Suc (ch_consecutiveFailures ch) in
      (ch\<lparr>ch_consecutiveFailures := n\<rparr>,
       if n \<ge> MAX_CONSECUTIVE_DECRYPT_FAILURES then [Fx_Error 4003 ''Too many decryption failures''] else []))"

text \<open>The part of \<open>handleHello\<close> after parsing, for a value whose properties can be read.\<close>

definition acceptHello :: "channel_env \<Rightarrow> socket_now \<Rightarrow> json \<Rightarrow> e2ee_channel \<Rightarrow> e2ee_channel \<times> channel_effect list" where
  "acceptHello env now hello ch =
     (if jprop hello ''type'' = Some (JStr ''e2ee_hello'') \<and> jprop hello ''v'' = Some (JNum (Fin 2))
      then (case desktop_create (ce_crypto env) hello (ce_serverSecretKey env) (ce_transportContext env) (sn_random now) of
              Inl _ \<Rightarrow> (ch, [Fx_Threw])
            | Inr None \<Rightarrow> (ch, [Fx_Error 4001 ''Invalid e2ee_hello v2''])
            | Inr (Some session) \<Rightarrow>
                (ch\<lparr>ch_v2Session := Some session, ch_state := Awaiting_Auth\<rparr>,
                 if sn_open now then [Fx_Send (Raw_Text (ce_stringify env (ds_ready session)))] else []))
      else if ce_requireV2 env then (ch, [Fx_Error 4001 ''E2EE v2 required''])
      else if jprop hello ''type'' \<noteq> Some (JStr ''e2ee_hello'') then (ch, [Fx_Error 4001 ''Invalid e2ee_hello''])
      else (case as_string (jprop hello ''publicKeyB64'') of
              None \<Rightarrow> (ch, [Fx_Error 4001 ''Invalid e2ee_hello''])
            | Some key \<Rightarrow>
                (let clientPublicKey = ce_buffer_base64 env key in
                 if length clientPublicKey \<noteq> 32 then (ch, [Fx_Error 4001 ''Invalid public key''])
                 else (ch\<lparr>ch_sharedKey := Some (cr_before (ce_crypto env) clientPublicKey (ce_serverSecretKey env)),
                          ch_state := Awaiting_Auth\<rparr>,
                       if sn_open now then [Fx_Send (Raw_Text (ce_stringify env (JObj [(''type'', JStr ''e2ee_ready'')])))] else []))))"

definition handleHello :: "channel_env \<Rightarrow> socket_now \<Rightarrow> string \<Rightarrow> e2ee_channel \<Rightarrow> e2ee_channel \<times> channel_effect list" where
  "handleHello env now raw ch =
     (case ce_parse env raw of
        None \<Rightarrow> (ch, [Fx_Error 4001 ''Invalid handshake message''])
      | Some hello \<Rightarrow> (if hello = JNull then (ch, [Fx_Threw]) else acceptHello env now hello ch))"

definition error_message :: "string \<Rightarrow> json" where
  "error_message code = JObj [(''type'', JStr ''e2ee_error''), (''error'', JObj [(''code'', JStr code)])]"

definition refuse :: "channel_env \<Rightarrow> socket_now \<Rightarrow> string \<Rightarrow> string \<Rightarrow> e2ee_channel \<Rightarrow> e2ee_channel \<times> channel_effect list" where
  "refuse env now code reason ch =
     (let (ch', effs) = sendEncryptedControl env now (error_message code) ch in (ch', effs @ [Fx_Error 4001 reason]))"

definition authenticated_message :: "e2ee_channel \<Rightarrow> json" where
  "authenticated_message ch =
     (case ch_v2Session ch of
        Some d \<Rightarrow> JObj [(''type'', JStr ''e2ee_authenticated''), (''v'', JNum (Fin 2)),
                         (''transcriptHashB64'', JStr (ds_transcriptHashB64 d))]
      | None \<Rightarrow> JObj [(''type'', JStr ''e2ee_authenticated'')])"

definition handleAuth :: "channel_env \<Rightarrow> socket_now \<Rightarrow> string \<Rightarrow> e2ee_channel \<Rightarrow> e2ee_channel \<times> channel_effect list" where
  "handleAuth env now plaintext ch =
     (case ce_parse env plaintext of
        None \<Rightarrow> refuse env now ''bad_auth'' ''Invalid e2ee_auth'' ch
      | Some JNull \<Rightarrow> (ch, [Fx_Threw])
      | Some auth \<Rightarrow>
          (if jprop auth ''type'' \<noteq> Some (JStr ''e2ee_auth'') \<or> \<not> truthy (jprop auth ''deviceToken'') \<or>
              \<not> isValidMobileE2EEAuthVersion auth (ch_v2Session ch)
           then refuse env now ''bad_auth'' ''Invalid e2ee_auth'' ch
           else (let token = the (jprop auth ''deviceToken'') in
                 case ce_resolve env token of
                   None \<Rightarrow> refuse env now ''unauthorized'' ''Unauthorized'' ch
                 | Some device \<Rightarrow>
                     (if JStr (dv_deviceToken device) \<noteq> token then refuse env now ''unauthorized'' ''Unauthorized'' ch
                      else (let ch1 = ch\<lparr>ch_deviceToken := Some (dv_deviceToken device), ch_authenticatedDevice := Some device,
                                         ch_state := Channel_Ready, ch_handshakeTimer := False,
                                         ch_timerArmed := (if ch_handshakeTimer ch then False else ch_timerArmed ch)\<rparr>;
                                (ch2, effs) = sendEncryptedControl env now (authenticated_message ch1) ch1
                            in (ch2, Fx_Ready device # effs))))))"

section \<open>Inbound messages\<close>

definition handleV2RawMessage ::
  "channel_env \<Rightarrow> socket_now \<Rightarrow> raw_frame \<Rightarrow> desktop_session \<Rightarrow> e2ee_channel \<Rightarrow> e2ee_channel \<times> channel_effect list" where
  "handleV2RawMessage env now raw d ch =
     (case handleDesktopMobileE2EEV2Inbound (ce_text_decode env) (ce_crypto env) raw (ch_state ch = Awaiting_Auth) d of
        Inl _ \<Rightarrow> (ch, [Fx_Threw])
      | Inr (ev, d') \<Rightarrow>
          (let ch1 = ch\<lparr>ch_v2Session := Some d'\<rparr>; ch2 = ch1\<lparr>ch_consecutiveFailures := 0\<rparr> in
           case ev of
             Decrypt_Failure \<Rightarrow> trackDecryptFailure ch1
           | Protocol_Error \<Rightarrow> (ch2, [Fx_Error 4001 ''Invalid binary message before authentication''])
           | Auth_Message p \<Rightarrow> handleAuth env now p ch2
           | Text_Message p \<Rightarrow> (ch2, if ch_handlers ch then [Fx_Text p] else [])
           | Binary_Message p \<Rightarrow> (ch2, if ch_handlers ch then [Fx_Binary p] else [])))"

definition handleRawMessage ::
  "channel_env \<Rightarrow> socket_now \<Rightarrow> raw_frame \<Rightarrow> e2ee_channel \<Rightarrow> e2ee_channel \<times> channel_effect list" where
  "handleRawMessage env now raw ch =
     (if ch_state ch = Awaiting_Hello
      then (case raw of
              Raw_Binary _ \<Rightarrow> (ch, [Fx_Error 4001 ''Invalid handshake message''])
            | Raw_Text t \<Rightarrow> handleHello env now t ch)
      else case ch_v2Session ch of
          Some d \<Rightarrow> handleV2RawMessage env now raw d ch
        | None \<Rightarrow>
            (case ch_sharedKey ch of
               None \<Rightarrow> (ch, [])
             | Some key \<Rightarrow>
                 (case raw of
                    Raw_Binary b \<Rightarrow>
                      (case decryptBytes env b key of
                         None \<Rightarrow> trackDecryptFailure ch
                       | Some p \<Rightarrow>
                           (let ch1 = ch\<lparr>ch_consecutiveFailures := 0\<rparr> in
                            if ch_state ch \<noteq> Channel_Ready
                            then (ch1, [Fx_Error 4001 ''Invalid binary message before authentication''])
                            else (ch1, if ch_handlers ch then [Fx_Binary p] else [])))
                  | Raw_Text t \<Rightarrow>
                      (case decrypt env t key of
                         None \<Rightarrow> trackDecryptFailure ch
                       | Some p \<Rightarrow>
                           (let ch1 = ch\<lparr>ch_consecutiveFailures := 0\<rparr> in
                            if ch_state ch = Awaiting_Auth then handleAuth env now p ch1
                            else (ch1, if ch_handlers ch then [Fx_Text p] else []))))))"

definition destroy :: "e2ee_channel \<Rightarrow> e2ee_channel" where
  "destroy ch =
     ch\<lparr>ch_timerArmed := (if ch_handshakeTimer ch then False else ch_timerArmed ch), ch_handshakeTimer := False,
        ch_sharedKey := None, ch_authenticatedDevice := None, ch_v2Session := None, ch_handlers := False,
        ch_textReplyQueue := None, ch_v2OutboundQueue := None\<rparr>"

section \<open>Runs\<close>

text \<open>
  What can happen to a channel. The replies are the closures that the RPC handler was given, which it
  may call at any later time.
\<close>

datatype channel_event =
    CE_Raw raw_frame socket_now
  | CE_Handshake_Timeout
  | CE_V2_Reply v2_item socket_now
  | CE_V2_Timer nat socket_now
  | CE_Text_Reply string socket_now
  | CE_Text_Timer nat socket_now
  | CE_Binary_Reply bytes socket_now
  | CE_Destroy

fun channel_step :: "channel_env \<Rightarrow> e2ee_channel \<Rightarrow> channel_event \<Rightarrow> e2ee_channel \<times> channel_effect list" where
  "channel_step env ch (CE_Raw raw now) = handleRawMessage env now raw ch"
| "channel_step env ch CE_Handshake_Timeout =
     (if ch_timerArmed ch then (ch\<lparr>ch_timerArmed := False\<rparr>, [Fx_Error 4002 ''E2EE handshake timeout'']) else (ch, []))"
| "channel_step env ch (CE_V2_Reply item now) = enqueueV2 env now item ch"
| "channel_step env ch (CE_V2_Timer t now) = v2_queue_timer env now t ch"
| "channel_step env ch (CE_Text_Reply s now) = text_reply env now s ch"
| "channel_step env ch (CE_Text_Timer t now) = text_queue_timer now t ch"
| "channel_step env ch (CE_Binary_Reply b now) = binary_reply env now b ch"
| "channel_step env ch CE_Destroy = (destroy ch, [])"

definition channel_trace_step ::
  "channel_env \<Rightarrow> e2ee_channel \<times> channel_effect list \<Rightarrow> channel_event \<Rightarrow> e2ee_channel \<times> channel_effect list" where
  "channel_trace_step env w e = (let (ch, effs) = channel_step env (fst w) e in (ch, snd w @ effs))"

definition channel_run :: "channel_env \<Rightarrow> e2ee_channel \<Rightarrow> channel_event list \<Rightarrow> e2ee_channel \<times> channel_effect list" where
  "channel_run env ch es = foldl (channel_trace_step env) (ch, []) es"

section \<open>What each handler may do\<close>

fun is_delivery :: "channel_effect \<Rightarrow> bool" where
  "is_delivery (Fx_Text _) = True"
| "is_delivery (Fx_Binary _) = True"
| "is_delivery _ = False"

fun is_quiet :: "channel_effect \<Rightarrow> bool" where
  "is_quiet (Fx_Send _) = True"
| "is_quiet (Fx_Error _ _) = True"
| "is_quiet Fx_Threw = True"
| "is_quiet _ = False"

text \<open>The fields that only the handshake changes.\<close>

definition same_phase :: "e2ee_channel \<Rightarrow> e2ee_channel \<Rightarrow> bool" where
  "same_phase ch ch' \<longleftrightarrow>
     ch_state ch' = ch_state ch \<and> ch_sharedKey ch' = ch_sharedKey ch \<and> ch_timerArmed ch' = ch_timerArmed ch \<and>
     ch_handshakeTimer ch' = ch_handshakeTimer ch \<and> (ch_v2Session ch' = None) = (ch_v2Session ch = None)"

definition outbound_only :: "e2ee_channel \<Rightarrow> e2ee_channel \<times> channel_effect list \<Rightarrow> bool" where
  "outbound_only ch r \<longleftrightarrow> same_phase ch (fst r) \<and> list_all is_quiet (snd r)"

lemma quiet_effects [simp]: "list_all is_quiet (map Fx_Send sent)" "list_all is_quiet (end_effects r)"
  by (induction sent; cases r; simp add: end_effects_def)+

lemma outbound_only_simps [simp]:
  "outbound_only ch (enqueueV2 env now item ch)" "outbound_only ch (v2_queue_timer env now t ch)"
  "outbound_only ch (text_reply env now s ch)" "outbound_only ch (text_queue_timer now t ch)"
  "outbound_only ch (binary_reply env now b ch)"
  by (auto simp: outbound_only_def same_phase_def enqueueV2_def v2_queue_timer_def text_reply_def text_queue_timer_def
      binary_reply_def Let_def split: option.splits prod.splits)

lemma outbound_only_control [simp]: "outbound_only ch (sendEncryptedControl env now msg ch)"
  by (cases "ch_v2Session ch")
    (auto simp: sendEncryptedControl_def outbound_only_def [of ch "(ch, _)"] same_phase_def split: option.splits)

lemma outbound_only_append:
  "outbound_only ch (ch', effs) \<Longrightarrow> list_all is_quiet fx \<Longrightarrow> outbound_only ch (ch', effs @ fx)"
  by (simp add: outbound_only_def)

lemma outbound_only_refuse [simp]: "outbound_only ch (refuse env now code reason ch)"
  using outbound_only_control [of ch env now "error_message code"]
  by (auto simp: refuse_def split_beta Let_def intro!: outbound_only_append)

lemma outbound_only_failure [simp]: "outbound_only ch (trackDecryptFailure ch)"
  by (simp add: trackDecryptFailure_def outbound_only_def same_phase_def Let_def)

text \<open>Authentication: either the channel is only written to, or a resolved device is announced.\<close>

lemma handleAuth_cases:
  "outbound_only ch (handleAuth env now p ch) \<or>
   (\<exists>dev ch' effs. handleAuth env now p ch = (ch', Fx_Ready dev # effs) \<and> list_all is_quiet effs \<and>
      ce_resolve env (JStr (dv_deviceToken dev)) = Some dev \<and> ch_state ch' = Channel_Ready \<and>
      ch_sharedKey ch' = ch_sharedKey ch \<and> (ch_v2Session ch' = None) = (ch_v2Session ch = None) \<and>
      (ch_timerArmed ch' \<longrightarrow> ch_timerArmed ch \<and> \<not> ch_handshakeTimer ch) \<and> \<not> ch_handshakeTimer ch')"
proof -
  have thr: "outbound_only ch (ch, [Fx_Threw])" by (simp add: outbound_only_def same_phase_def)
  show ?thesis
  proof (cases "\<exists>auth. ce_parse env p = Some auth \<and> auth \<noteq> JNull \<and>
      jprop auth ''type'' = Some (JStr ''e2ee_auth'') \<and> truthy (jprop auth ''deviceToken'') \<and>
      isValidMobileE2EEAuthVersion auth (ch_v2Session ch) \<and>
      (\<exists>dev. ce_resolve env (the (jprop auth ''deviceToken'')) = Some dev \<and> JStr (dv_deviceToken dev) = the (jprop auth ''deviceToken''))")
    case False
    then have "outbound_only ch (handleAuth env now p ch)"
      using thr by (auto simp: handleAuth_def Let_def split: option.splits json.splits)
    then show ?thesis ..
  next
    case True
    then obtain auth dev where a: "ce_parse env p = Some auth" "auth \<noteq> JNull" "jprop auth ''type'' = Some (JStr ''e2ee_auth'')"
        "truthy (jprop auth ''deviceToken'')" "isValidMobileE2EEAuthVersion auth (ch_v2Session ch)"
        "ce_resolve env (the (jprop auth ''deviceToken'')) = Some dev" "JStr (dv_deviceToken dev) = the (jprop auth ''deviceToken'')"
      by blast
    let ?ch1 = "ch\<lparr>ch_deviceToken := Some (dv_deviceToken dev), ch_authenticatedDevice := Some dev,
       ch_state := Channel_Ready, ch_handshakeTimer := False,
       ch_timerArmed := (if ch_handshakeTimer ch then False else ch_timerArmed ch)\<rparr>"
    obtain ch2 effs where s: "sendEncryptedControl env now (authenticated_message ?ch1) ?ch1 = (ch2, effs)" by fastforce
    have "handleAuth env now p ch = (ch2, Fx_Ready dev # effs)"
      using a s by (cases auth) (simp_all add: handleAuth_def Let_def)
    moreover have "outbound_only ?ch1 (ch2, effs)" using outbound_only_control s by metis
    ultimately show ?thesis using a(6,7) by (auto simp: outbound_only_def same_phase_def)
  qed
qed

text \<open>What one event can do: deliver, but only when ready; become ready, but only with a resolved device.\<close>

definition step_ok :: "channel_env \<Rightarrow> e2ee_channel \<Rightarrow> e2ee_channel \<times> channel_effect list \<Rightarrow> bool" where
  "step_ok env ch r \<longleftrightarrow>
     (list_ex is_delivery (snd r) \<longrightarrow> ch_state ch = Channel_Ready) \<and>
     (\<forall>dev. Fx_Ready dev \<in> set (snd r) \<longrightarrow> ce_resolve env (JStr (dv_deviceToken dev)) = Some dev) \<and>
     (ch_state (fst r) = Channel_Ready \<longrightarrow> ch_state ch = Channel_Ready \<or> (\<exists>dev. Fx_Ready dev \<in> set (snd r))) \<and>
     (ce_requireV2 env \<and> ch_sharedKey ch = None \<longrightarrow> ch_sharedKey (fst r) = None) \<and>
     (ch_timerArmed (fst r) \<longrightarrow> ch_timerArmed ch) \<and>
     ((ch_timerArmed ch \<longrightarrow> ch_handshakeTimer ch) \<longrightarrow> (ch_timerArmed (fst r) \<longrightarrow> ch_handshakeTimer (fst r)))"

lemma outbound_only_step_ok: "outbound_only ch r \<Longrightarrow> step_ok env ch r"
  unfolding outbound_only_def step_ok_def same_phase_def list_all_iff list_ex_iff
  by (metis is_delivery.elims(2) is_quiet.simps(4) is_quiet.simps(5) is_quiet.simps(6))

lemma step_ok_same:
  "ch_state ch1 = ch_state ch \<Longrightarrow> ch_sharedKey ch1 = ch_sharedKey ch \<Longrightarrow> ch_timerArmed ch1 = ch_timerArmed ch \<Longrightarrow>
     ch_handshakeTimer ch1 = ch_handshakeTimer ch \<Longrightarrow> step_ok env ch1 r \<Longrightarrow> step_ok env ch r"
  by (simp add: step_ok_def)

lemma handleAuth_step_ok: "step_ok env ch (handleAuth env now p ch)"
proof -
  consider "outbound_only ch (handleAuth env now p ch)"
    | dev ch' effs where "handleAuth env now p ch = (ch', Fx_Ready dev # effs)" "list_all is_quiet effs"
      "ce_resolve env (JStr (dv_deviceToken dev)) = Some dev" "ch_sharedKey ch' = ch_sharedKey ch"
      "ch_timerArmed ch' \<longrightarrow> ch_timerArmed ch \<and> \<not> ch_handshakeTimer ch"
    using handleAuth_cases [of ch env now p] by blast
  then show ?thesis
  proof cases
    case 1
    then show ?thesis by (rule outbound_only_step_ok)
  next
    case 2
    have "\<not> list_ex is_delivery effs" "\<forall>d. Fx_Ready d \<notin> set effs"
      using 2(2) unfolding list_all_iff list_ex_iff by (metis is_delivery.elims(2) is_quiet.simps(4-6))+
    with 2 show ?thesis by (auto simp: step_ok_def)
  qed
qed

lemma handleHello_step_ok: "ch_state ch = Awaiting_Hello \<Longrightarrow> step_ok env ch (handleHello env now raw ch)"
  by (auto simp: handleHello_def acceptHello_def step_ok_def Let_def split: option.split sum.split)

lemma handleV2_step_ok:
  assumes "ch_state ch \<noteq> Awaiting_Hello"
  shows "step_ok env ch (handleV2RawMessage env now raw d ch)"
proof -
  let ?i = "handleDesktopMobileE2EEV2Inbound (ce_text_decode env) (ce_crypto env) raw (ch_state ch = Awaiting_Auth) d"
  show ?thesis
  proof (cases ?i)
    case (Inl e)
    then show ?thesis by (simp add: handleV2RawMessage_def step_ok_def)
  next
    case (Inr r)
    obtain ev d' where r: "r = (ev, d')" by fastforce
    have st: "ch_state ch = Channel_Ready" if "ch_state ch \<noteq> Awaiting_Auth" using assms that by (cases "ch_state ch") auto
    have dl: "ch_state ch \<noteq> Awaiting_Auth" if "ev = Text_Message p \<or> ev = Binary_Message p'" for p p'
      using that Inr r by (auto simp: handleDesktopMobileE2EEV2Inbound_def split: raw_frame.splits sum.splits prod.splits option.splits if_splits)
    show ?thesis
    proof (cases ev)
      case (Auth_Message p)
      let ?ch2 = "ch\<lparr>ch_v2Session := Some d', ch_consecutiveFailures := 0\<rparr>"
      have "step_ok env ch (handleAuth env now p ?ch2)" by (rule step_ok_same [OF _ _ _ _ handleAuth_step_ok]) simp_all
      with Inr r Auth_Message show ?thesis by (simp add: handleV2RawMessage_def Let_def)
    next
      case Decrypt_Failure
      let ?ch1 = "ch\<lparr>ch_v2Session := Some d'\<rparr>"
      have "step_ok env ch (trackDecryptFailure ?ch1)"
        by (rule step_ok_same [OF _ _ _ _ outbound_only_step_ok [OF outbound_only_failure]]) simp_all
      with Inr r Decrypt_Failure show ?thesis by (simp add: handleV2RawMessage_def Let_def)
    qed (use Inr r dl st in \<open>auto simp: handleV2RawMessage_def step_ok_def Let_def\<close>)
  qed
qed

lemma handleRaw_step_ok: "step_ok env ch (handleRawMessage env now raw ch)"
proof (cases "ch_state ch = Awaiting_Hello")
  case True
  then show ?thesis
    using handleHello_step_ok by (auto simp: handleRawMessage_def step_ok_def split: raw_frame.splits)
next
  case st: False
  show ?thesis
  proof (cases "ch_v2Session ch")
    case (Some d)
    then show ?thesis using st handleV2_step_ok [OF st] by (simp add: handleRawMessage_def)
  next
    case None
    let ?ch1 = "ch\<lparr>ch_consecutiveFailures := 0\<rparr>"
    have auth: "step_ok env ch (handleAuth env now p ?ch1)" for p
      by (rule step_ok_same [OF _ _ _ _ handleAuth_step_ok]) simp_all
    have fail: "step_ok env ch (trackDecryptFailure ch)" by (rule outbound_only_step_ok [OF outbound_only_failure])
    have rest: "step_ok env ch (ch, [])" "step_ok env ch (?ch1, [Fx_Error n s])" "step_ok env ch (?ch1, [])"
      "ch_state ch = Channel_Ready \<Longrightarrow> step_ok env ch (?ch1, [Fx_Binary b])"
      "ch_state ch = Channel_Ready \<Longrightarrow> step_ok env ch (?ch1, [Fx_Text t])" for n s b t
      by (simp_all add: step_ok_def)
    have rdy: "ch_state ch = Channel_Ready" if "ch_state ch \<noteq> Awaiting_Auth" using st that by (cases "ch_state ch") auto
    show ?thesis
      using None st auth fail rest rdy
      by (auto simp: handleRawMessage_def Let_def split: option.splits raw_frame.splits)
  qed
qed

lemma channel_step_ok: "step_ok env ch (channel_step env ch e)"
proof -
  have "step_ok env ch (channel_step env ch CE_Handshake_Timeout)" "step_ok env ch (channel_step env ch CE_Destroy)"
    by (simp_all add: step_ok_def destroy_def)
  then show ?thesis by (cases e) (simp_all add: handleRaw_step_ok outbound_only_step_ok del: channel_step.simps(2,8))
qed

section \<open>Invariant\<close>

definition ready_first :: "channel_effect list \<Rightarrow> bool" where
  "ready_first tr \<longleftrightarrow> (\<forall>i < length tr. is_delivery (tr ! i) \<longrightarrow> (\<exists>j < i. \<exists>dev. tr ! j = Fx_Ready dev))"

lemma ready_first_append:
  assumes "ready_first tr" "list_ex is_delivery effs \<Longrightarrow> \<exists>dev. Fx_Ready dev \<in> set tr"
  shows "ready_first (tr @ effs)"
  unfolding ready_first_def
proof (intro allI impI)
  fix i
  assume i: "i < length (tr @ effs)" "is_delivery ((tr @ effs) ! i)"
  show "\<exists>j < i. \<exists>dev. (tr @ effs) ! j = Fx_Ready dev"
  proof (cases "i < length tr")
    case True
    then obtain j dev where j: "j < i" "tr ! j = Fx_Ready dev" using assms(1) i by (auto simp: ready_first_def nth_append)
    with True have "(tr @ effs) ! j = Fx_Ready dev" by (simp add: nth_append)
    with j(1) show ?thesis by blast
  next
    case False
    with i have "i - length tr < length effs" "is_delivery (effs ! (i - length tr))" by (simp_all add: nth_append)
    then have "list_ex is_delivery effs" unfolding list_ex_iff by (meson nth_mem)
    with assms(2) obtain dev where "Fx_Ready dev \<in> set tr" by blast
    then obtain j where j: "j < length tr" "tr ! j = Fx_Ready dev" by (meson in_set_conv_nth)
    then have "j < i" "(tr @ effs) ! j = Fx_Ready dev" using False by (simp_all add: nth_append)
    then show ?thesis by blast
  qed
qed

definition channel_inv :: "channel_env \<Rightarrow> e2ee_channel \<times> channel_effect list \<Rightarrow> bool" where
  "channel_inv env w \<longleftrightarrow>
     (ch_state (fst w) = Channel_Ready \<longrightarrow> (\<exists>dev. Fx_Ready dev \<in> set (snd w))) \<and>
     (\<forall>dev. Fx_Ready dev \<in> set (snd w) \<longrightarrow> ce_resolve env (JStr (dv_deviceToken dev)) = Some dev) \<and>
     ready_first (snd w) \<and> (ce_requireV2 env \<longrightarrow> ch_sharedKey (fst w) = None) \<and>
     (ch_timerArmed (fst w) \<longrightarrow> ch_handshakeTimer (fst w))"

interpretation channel: event_machine "channel_trace_step env" "channel_inv env" for env
proof unfold_locales
  fix w e
  assume w: "channel_inv env w"
  obtain ch' effs where s: "channel_step env (fst w) e = (ch', effs)" by fastforce
  have ok: "step_ok env (fst w) (ch', effs)" using channel_step_ok [of env "fst w" e] s by simp
  have "ready_first (snd w @ effs)"
    using w ok by (intro ready_first_append) (auto simp: channel_inv_def step_ok_def)
  moreover have "(ce_requireV2 env \<longrightarrow> ch_sharedKey ch' = None) \<and> (ch_timerArmed ch' \<longrightarrow> ch_handshakeTimer ch')"
    using w ok by (simp add: channel_inv_def step_ok_def)
  moreover have "ch_state ch' = Channel_Ready \<longrightarrow> (\<exists>dev. Fx_Ready dev \<in> set (snd w @ effs))"
    using w ok by (auto simp: channel_inv_def step_ok_def)
  moreover have "\<forall>dev. Fx_Ready dev \<in> set (snd w @ effs) \<longrightarrow> ce_resolve env (JStr (dv_deviceToken dev)) = Some dev"
    using w ok by (auto simp: channel_inv_def step_ok_def)
  ultimately show "channel_inv env (channel_trace_step env w e)"
    using s by (simp add: channel_trace_step_def channel_inv_def)
qed

lemma channel_new_inv: "channel_inv env (channel_new, [])"
  by (simp add: channel_inv_def channel_new_def ready_first_def)

lemmas channel_run_inv = channel.run_inv [OF channel_new_inv, folded channel_run_def]

text \<open>A channel after \<open>destroy\<close>: no key, no session, no queue, no timer.\<close>

definition spent :: "e2ee_channel \<Rightarrow> bool" where
  "spent ch \<longleftrightarrow> ch_state ch \<noteq> Awaiting_Hello \<and> ch_sharedKey ch = None \<and> ch_v2Session ch = None \<and>
     ch_v2OutboundQueue ch = None \<and> ch_textReplyQueue ch = None \<and> \<not> ch_timerArmed ch"

lemma spent_step: "spent ch \<Longrightarrow> \<exists>ch'. channel_step env ch e = (ch', []) \<and> spent ch'"
  by (cases e) (auto simp: spent_def destroy_def handleRawMessage_def enqueueV2_def v2_queue_timer_def text_reply_def
      text_queue_timer_def binary_reply_def)

lemma spent_run: "spent ch \<Longrightarrow> snd (foldl (channel_trace_step env) (ch, tr) es) = tr"
proof (induction es arbitrary: ch)
  case (Cons e es)
  obtain ch' where s: "channel_step env ch e = (ch', [])" "spent ch'" using spent_step [OF Cons.prems] by blast
  then show ?case using Cons.IH [of ch'] by (simp add: channel_trace_step_def)
qed simp

text \<open>A frame that the key or the session of the channel does not open.\<close>

definition undecipherable :: "channel_env \<Rightarrow> e2ee_channel \<Rightarrow> raw_frame \<Rightarrow> bool" where
  "undecipherable env ch raw \<longleftrightarrow>
     (case ch_v2Session ch of
        Some d \<Rightarrow> (\<exists>d'. handleDesktopMobileE2EEV2Inbound (ce_text_decode env) (ce_crypto env) raw (ch_state ch = Awaiting_Auth) d =
                    Inr (Decrypt_Failure, d'))
      | None \<Rightarrow>
          (case ch_sharedKey ch of
             None \<Rightarrow> False
           | Some key \<Rightarrow> (case raw of Raw_Text t \<Rightarrow> decrypt env t key = None | Raw_Binary b \<Rightarrow> decryptBytes env b key = None)))"

lemma failure_keeps_session:
  "handleDesktopMobileE2EEV2Inbound text_decode cr raw b d = Inr (Decrypt_Failure, d') \<Longrightarrow> d' = d"
  by (auto simp: handleDesktopMobileE2EEV2Inbound_def desktop_openText_def desktop_open_def
      split: raw_frame.splits sum.splits option.splits if_splits)

lemma forged_step:
  assumes "ch_state ch \<noteq> Awaiting_Hello" "undecipherable env ch raw"
  shows "channel_step env ch (CE_Raw raw now) = trackDecryptFailure ch"
proof (cases "ch_v2Session ch")
  case (Some d)
  then obtain d' where i: "handleDesktopMobileE2EEV2Inbound (ce_text_decode env) (ce_crypto env) raw (ch_state ch = Awaiting_Auth) d =
      Inr (Decrypt_Failure, d')" using assms(2) by (auto simp: undecipherable_def)
  have "ch\<lparr>ch_v2Session := Some d'\<rparr> = ch" using failure_keeps_session [OF i] Some by simp
  with i Some assms(1) show ?thesis by (simp add: handleRawMessage_def handleV2RawMessage_def)
next
  case None
  with assms show ?thesis by (auto simp: undecipherable_def handleRawMessage_def split: option.splits raw_frame.splits)
qed

lemma forged_run:
  assumes "ch_state ch \<noteq> Awaiting_Hello" "list_all (\<lambda>r. undecipherable env ch r) raws"
  shows "foldl (channel_trace_step env) (ch\<lparr>ch_consecutiveFailures := k\<rparr>, tr) (map (\<lambda>r. CE_Raw r now) raws) =
    (ch\<lparr>ch_consecutiveFailures := k + length raws\<rparr>,
     tr @ replicate ((k + length raws - 4) - (k - 4)) (Fx_Error 4003 ''Too many decryption failures''))"
  using assms(2)
proof (induction raws arbitrary: k tr)
  case (Cons r raws)
  let ?ch = "ch\<lparr>ch_consecutiveFailures := k\<rparr>"
  have "undecipherable env ?ch r" using Cons.prems by (simp add: undecipherable_def split: option.splits)
  then have step: "channel_trace_step env (?ch, tr) (CE_Raw r now) =
      (ch\<lparr>ch_consecutiveFailures := Suc k\<rparr>, tr @ (if 4 \<le> k then [Fx_Error 4003 ''Too many decryption failures''] else []))"
    using forged_step [of ?ch env r now] assms(1)
    by (simp add: channel_trace_step_def trackDecryptFailure_def MAX_CONSECUTIVE_DECRYPT_FAILURES_def Let_def)
  have "(if 4 \<le> k then [e] else []) @ replicate ((Suc k + length raws - 4) - (Suc k - 4)) e =
      replicate ((k + length (r # raws) - 4) - (k - 4)) e" for e :: channel_effect
  proof (cases "4 \<le> k")
    case True
    then have "(k + length (r # raws) - 4) - (k - 4) = Suc (length raws)" "(Suc k + length raws - 4) - (Suc k - 4) = length raws" by auto
    with True show ?thesis by simp
  qed simp
  with Cons.IH [of "Suc k"] Cons.prems step show ?case by simp
qed simp

section \<open>Properties\<close>

text \<open>A concrete environment: fixed parses, boxes that carry the message behind forty bytes.\<close>

definition ch_device :: e2ee_device where
  "ch_device = \<lparr>dv_deviceId = ''d'', dv_deviceToken = ''tok'', dv_scope = Scope_Mobile\<rparr>"

definition plain_env :: "bool \<Rightarrow> channel_env" where
  "plain_env v2 =
     \<lparr>ce_crypto = plain_crypto, ce_box_after = (\<lambda>m n k. replicate 16 0 @ m),
      ce_box_open_after = (\<lambda>c n k. if c = [] then None else Some (drop 16 c)),
      ce_buffer_base64 = (\<lambda>s. if s = ''key'' then replicate 32 0 else if s = ''bad'' then [] else replicate 40 0 @ utf8 s),
      ce_text_decode = map (\<lambda>b. char_of (unat b)),
      ce_parse = (\<lambda>s. if s = ''hello'' then Some (JObj [(''type'', JStr ''e2ee_hello''), (''publicKeyB64'', JStr ''key'')])
         else if s = ''auth'' then Some (JObj [(''type'', JStr ''e2ee_auth''), (''deviceToken'', JStr ''tok'')])
         else if s = ''null'' then Some JNull else None),
      ce_stringify = (\<lambda>_. ''reply''), ce_serverSecretKey = replicate 32 5,
      ce_resolve = (\<lambda>t. if t = JStr ''tok'' then Some ch_device else None),
      ce_transportContext = \<lparr>ec_transport = Direct, ec_relayHostId = None\<rparr>, ce_requireV2 = v2\<rparr>"

definition closed_now :: socket_now where
  "closed_now = \<lparr>sn_open = False, sn_bufferedAmount = (\<lambda>_. Fin 0), sn_random = []\<rparr>"

definition sample_session :: "channel_event list" where
  "sample_session = [CE_Raw (Raw_Text ''hello'') closed_now, CE_Raw (Raw_Text ''auth'') closed_now, CE_Raw (Raw_Text ''hi'') closed_now]"

lemma plain_decrypt:
  "decrypt (plain_env v2) ''auth'' k = Some ''auth''" "decrypt (plain_env v2) ''hi'' k = Some ''hi''" "decrypt (plain_env v2) ''bad'' k = None"
  by (simp_all add: decrypt_def decryptBytes_def plain_env_def utf8_def utf8_char_def char_of_def bit_0)

lemma sample_session_run:
  "channel_run (plain_env False) channel_new sample_session =
     (channel_new\<lparr>ch_state := Channel_Ready, ch_sharedKey := Some (replicate 32 5), ch_handshakeTimer := False, ch_timerArmed := False,
        ch_deviceToken := Some ''tok'', ch_authenticatedDevice := Some ch_device\<rparr>, [Fx_Ready ch_device, Fx_Text ''hi''])"
proof -
  have before: "cr_before plain_crypto (replicate 32 0) (replicate 32 5) = replicate 32 5"
    by (simp add: plain_crypto_def eval_nat_numeral)
  have env: "ce_crypto (plain_env v2) = plain_crypto" "ce_serverSecretKey (plain_env v2) = replicate 32 5" "ce_requireV2 (plain_env v2) = v2"
    "ce_buffer_base64 (plain_env v2) ''key'' = replicate 32 0"
    "ce_parse (plain_env v2) ''hello'' = Some (JObj [(''type'', JStr ''e2ee_hello''), (''publicKeyB64'', JStr ''key'')])"
    "ce_parse (plain_env v2) ''auth'' = Some (JObj [(''type'', JStr ''e2ee_auth''), (''deviceToken'', JStr ''tok'')])"
    "ce_resolve (plain_env v2) (JStr ''tok'') = Some ch_device" for v2
    by (simp_all add: plain_env_def)
  show ?thesis
    by (simp add: sample_session_def channel_run_def channel_trace_step_def channel_new_def handleRawMessage_def handleHello_def
        acceptHello_def env before closed_now_def plain_decrypt handleAuth_def isValidMobileE2EEAuthVersion_def ch_device_def
        sendEncryptedControl_def Let_def)
qed

text \<open>
  Property C2. Nothing reaches the RPC handlers before authentication. On every channel, after any sequence of
  raw messages, timeouts, replies and a destroy, each text or binary message that was passed on was
  preceded by \<open>onReady\<close> with a device, and that device is the one the registry resolves for its own token.
\<close>

theorem delivery_requires_authentication:
  assumes "i < length tr" "tr ! i = Fx_Text p \<or> tr ! i = Fx_Binary b" "snd (channel_run env channel_new es) = tr"
  shows "\<exists>j < i. \<exists>dev. tr ! j = Fx_Ready dev \<and> ce_resolve env (JStr (dv_deviceToken dev)) = Some dev"
proof -
  have inv: "ready_first tr" "\<forall>dev. Fx_Ready dev \<in> set tr \<longrightarrow> ce_resolve env (JStr (dv_deviceToken dev)) = Some dev"
    using channel_run_inv [of env es] assms(3) by (auto simp: channel_inv_def)
  have "is_delivery (tr ! i)" using assms(2) by auto
  then obtain j dev where j: "j < i" "tr ! j = Fx_Ready dev" using inv(1) assms(1) by (auto simp: ready_first_def)
  then have "Fx_Ready dev \<in> set tr" using assms(1) by (metis less_trans nth_mem)
  with inv(2) j show ?thesis by blast
qed

theorem delivery_requires_authentication_witness:
  "\<exists>j < 1. \<exists>dev. snd (channel_run (plain_env False) channel_new sample_session) ! j = Fx_Ready dev \<and>
     ce_resolve (plain_env False) (JStr (dv_deviceToken dev)) = Some dev"
  by (rule delivery_requires_authentication [where p = "''hi''" and b = "[]", OF _ _ refl]) (simp_all add: sample_session_run)

lemma text_delivery_source:
  assumes "ch_sharedKey ch = None" "Fx_Text p \<in> set (snd (channel_step env ch e))"
  shows "\<exists>raw now d d'. e = CE_Raw (Raw_Text raw) now \<and> ch_v2Session ch = Some d \<and>
    desktop_openText (ce_text_decode env) (ce_crypto env) raw d = Inr (Some p, d')"
proof -
  have quiet: "Fx_Text p \<notin> set (snd r)" if "outbound_only ch' r" for ch' r
    using that unfolding outbound_only_def list_all_iff by (metis is_quiet.simps(5))
  have auth: "Fx_Text p \<notin> set (snd (handleAuth env now q ch'))" for now q ch'
  proof -
    have "Fx_Text p \<notin> set effs" if "list_all is_quiet effs" for effs
      using that unfolding list_all_iff by (metis is_quiet.simps(5))
    moreover have "Fx_Text p \<notin> set (snd (handleAuth env now q ch'))" if "outbound_only ch' (handleAuth env now q ch')"
      by (rule quiet [OF that])
    ultimately show ?thesis using handleAuth_cases [of ch' env now q] by fastforce
  qed
  have hello: "Fx_Text p \<notin> set (snd (handleHello env now t ch))" for now t
    by (auto simp: handleHello_def acceptHello_def Let_def split: option.split sum.split)
  show ?thesis
  proof (cases e)
    case (CE_Raw raw now)
    then have r: "Fx_Text p \<in> set (snd (handleRawMessage env now raw ch))" using assms(2) by simp
    then have st: "ch_state ch \<noteq> Awaiting_Hello" using hello by (auto simp: handleRawMessage_def split: raw_frame.splits)
    with r assms(1) obtain d where d: "ch_v2Session ch = Some d" "Fx_Text p \<in> set (snd (handleV2RawMessage env now raw d ch))"
      by (auto simp: handleRawMessage_def split: option.splits)
    let ?i = "handleDesktopMobileE2EEV2Inbound (ce_text_decode env) (ce_crypto env) raw (ch_state ch = Awaiting_Auth) d"
    obtain d' where "?i = Inr (Text_Message p, d')"
      using d(2) auth quiet [OF outbound_only_failure]
      by (auto simp: handleV2RawMessage_def Let_def split: sum.splits inbound_event.splits if_splits)
    then show ?thesis using CE_Raw d(1)
      by (auto simp: handleDesktopMobileE2EEV2Inbound_def split: raw_frame.splits sum.splits option.splits if_splits)
  qed (use assms(2) quiet [OF outbound_only_simps(1)] quiet [OF outbound_only_simps(2)] quiet [OF outbound_only_simps(3)]
      quiet [OF outbound_only_simps(4)] quiet [OF outbound_only_simps(5)] in \<open>auto split: if_splits\<close>)
qed

text \<open>
  A channel that requires version 2 is never downgraded. Over any run it holds no shared key of
  the older format, and a text it passes on is what its version-2 session opened from a frame that
  carries the next number of the stream.
\<close>

theorem relay_channel_is_v2_only:
  assumes "ce_requireV2 env" "ch = fst (channel_run env channel_new es)"
  shows "ch_sharedKey ch = None \<and>
    (\<forall>e p. Fx_Text p \<in> set (snd (channel_step env ch e)) \<longrightarrow>
      (\<exists>raw now d d'. e = CE_Raw (Raw_Text raw) now \<and> ch_v2Session ch = Some d \<and>
         desktop_openText (ce_text_decode env) (ce_crypto env) raw d = Inr (Some p, d')))"
proof -
  have "ch_sharedKey ch = None" using channel_run_inv [of env es] assms by (simp add: channel_inv_def)
  with text_delivery_source show ?thesis by blast
qed

theorem relay_channel_is_v2_only_witness:
  "ch_sharedKey (fst (channel_run (plain_env True) channel_new sample_session)) = None"
  using relay_channel_is_v2_only [of "plain_env True" _ sample_session] by (simp add: plain_env_def)

text \<open>
  Destroying a channel is final. From any state that a channel past its hello can reach, whatever
  arrives after \<open>destroy\<close> (frames, replies of RPC handlers that are still running, timers of the queues
  or of the handshake), nothing is sent, reported or passed on any more.
\<close>

theorem destroyed_channel_is_silent:
  assumes "ch = fst (channel_run env channel_new es)" "ch_state ch \<noteq> Awaiting_Hello"
  shows "snd (channel_run env (destroy ch) es') = []"
proof -
  have "ch_timerArmed ch \<longrightarrow> ch_handshakeTimer ch" using channel_run_inv [of env es] assms(1) by (simp add: channel_inv_def)
  then have "spent (destroy ch)" using assms(2) by (auto simp: spent_def destroy_def)
  then show ?thesis unfolding channel_run_def by (simp add: spent_run)
qed

theorem destroyed_channel_is_silent_witness:
  "snd (channel_run (plain_env False) (destroy (fst (channel_run (plain_env False) channel_new sample_session)))
     [CE_Raw (Raw_Text ''hi'') closed_now, CE_Text_Reply ''x'' closed_now, CE_Handshake_Timeout]) = []"
  by (rule destroyed_channel_is_silent [OF refl]) (simp add: sample_session_run)

text \<open>
  Forged frames are bounded. On a channel past its hello, of any number of frames that do not
  decrypt, sent one after the other, the first four have no effect and each further one raises the error
  that closes the connection; none changes the keys, the session or the state of the channel.
\<close>

theorem fifth_forged_frame_is_fatal:
  assumes "ch_state ch \<noteq> Awaiting_Hello" "ch_consecutiveFailures ch = 0" "list_all (\<lambda>r. undecipherable env ch r) raws"
  shows "channel_run env ch (map (\<lambda>r. CE_Raw r now) raws) =
    (ch\<lparr>ch_consecutiveFailures := length raws\<rparr>,
     replicate (length raws - 4) (Fx_Error 4003 ''Too many decryption failures''))"
proof -
  have "ch\<lparr>ch_consecutiveFailures := 0\<rparr> = ch" using assms(2) by simp
  with forged_run [OF assms(1,3), of 0 "[]" now] show ?thesis by (simp add: channel_run_def)
qed

theorem fifth_forged_frame_is_fatal_witness:
  "snd (channel_run (plain_env False) (channel_new\<lparr>ch_state := Awaiting_Auth, ch_sharedKey := Some []\<rparr>)
     (map (\<lambda>r. CE_Raw r closed_now) (replicate 5 (Raw_Text ''bad'')))) = [Fx_Error 4003 ''Too many decryption failures'']"
  by (subst fifth_forged_frame_is_fatal)
    (simp_all add: channel_new_def undecipherable_def plain_decrypt list_all_iff numeral_eq_Suc)

text \<open>
  The text \<open>Null\<close> is not rejected but thrown on. A peer that has not authenticated can send it as
  its first message, and any peer as its authentication message: parsing succeeds, and reading a property
  of the result raises an exception that leaves the message handler.
\<close>

theorem null_message_throws:
  assumes "ce_parse env raw = Some JNull"
  shows "channel_step env channel_new (CE_Raw (Raw_Text raw) now) = (channel_new, [Fx_Threw]) \<and>
    handleAuth env now raw ch = (ch, [Fx_Threw])"
  using assms by (simp add: channel_new_def handleRawMessage_def handleHello_def handleAuth_def)

theorem null_message_throws_witness:
  "channel_step (plain_env True) channel_new (CE_Raw (Raw_Text ''null'') closed_now) = (channel_new, [Fx_Threw])"
  using null_message_throws [of "plain_env True" "''null''" closed_now channel_new] by (simp add: plain_env_def)

section \<open>The sealed reply stream\<close>

text \<open>The payload of an item, a frame as it is written, and a frame as the mobile side takes it off the wire.\<close>

fun v2_payload :: "v2_item \<Rightarrow> payload_kind \<times> bytes" where
  "v2_payload (V2_Text p) = (Text_Payload, utf8 p)"
| "v2_payload (V2_Binary p) = (Binary_Payload, p)"

fun on_wire :: "payload_kind \<times> bytes \<Rightarrow> raw_frame" where
  "on_wire (Text_Payload, f) = Raw_Text (btoa f)"
| "on_wire (Binary_Payload, f) = Raw_Binary f"

fun off_wire :: "raw_frame \<Rightarrow> (payload_kind \<times> bytes) option" where
  "off_wire (Raw_Text t) = map_option (Pair Text_Payload) (client_decodeCanonicalBase64 t)"
| "off_wire (Raw_Binary f) = Some (Binary_Payload, f)"

lemma off_wire_on_wire: "off_wire (on_wire kf) = Some kf"
  by (cases kf rule: on_wire.cases) (simp_all add: client_decodeCanonicalBase64_def atob_btoa)

lemma v2_send_seals:
  "v2_send cr (d, wire) item = Some s \<Longrightarrow>
     \<exists>f d'. desktop_seal cr (snd (v2_payload item)) (fst (v2_payload item)) d = Inr (f, d') \<and>
       s = (d', wire @ [on_wire (fst (v2_payload item), f)])"
  by (cases item) (auto simp: v2_send_def desktop_sealText_def split: sum.splits prod.splits)

lemma feed_seals:
  "feed (v2_send cr) (d, wire) items = Some s \<Longrightarrow>
     \<exists>frames. desktop_seal_all cr d (map v2_payload items) = Inr (frames, fst s) \<and> snd s = wire @ map on_wire frames"
proof (induction items arbitrary: d wire)
  case (Cons item items)
  then obtain s1 where s1: "v2_send cr (d, wire) item = Some s1" "feed (v2_send cr) s1 items = Some s"
    by (auto split: option.splits)
  obtain f d' where f: "desktop_seal cr (snd (v2_payload item)) (fst (v2_payload item)) d = Inr (f, d')"
      "s1 = (d', wire @ [on_wire (fst (v2_payload item), f)])" using v2_send_seals [OF s1(1)] by blast
  obtain frames where fr: "desktop_seal_all cr d' (map v2_payload items) = Inr (frames, fst s)"
      "snd s = (wire @ [on_wire (fst (v2_payload item), f)]) @ map on_wire frames"
    using Cons.IH [of d'] s1(2) f(2) by blast
  obtain k p where kp: "v2_payload item = (k, p)" by fastforce
  have "desktop_seal_all cr d (map v2_payload (item # items)) = Inr ((k, f) # frames, fst s)" using f(1) fr(1) kp by simp
  with fr(2) kp show ?case by simp
qed auto

lemma offered_length: "length (ww_offered (foldl (wsq_step snd_frame len opts) w es)) \<le> length (ww_offered w) + length es"
proof (induction es arbitrary: w)
  case (Cons e es)
  have "length (ww_offered (wsq_step snd_frame len opts w e)) \<le> Suc (length (ww_offered w))"
    by (simp add: wsq_step_def split_beta Let_def split: wsq_event.split)
  with Cons.IH [of "wsq_step snd_frame len opts w e"] show ?case by simp
qed simp

text \<open>
  Property C11. Replies arrive whole, in order and readable, whatever the backpressure. For paired ends and any
  sequence of replies, timer callbacks and a dispose on the outbound queue, the mobile side opens every
  frame that reached the socket; what it reads is the items that left the queue, in the order they were
  offered, and together with the waiting ones they are all items, unless the queue discarded some or
  the sender threw. No rejected item has used up a number of the stream.
\<close>

theorem v2_replies_open_in_order:
  fixes cr opts es d
  assumes "paired cr c d" "0 \<le> wo_maxQueuedBytes opts" "ds_outboundCounter d + length es < 2 ^ 64"
  defines "w \<equiv> foldl (wsq_step (v2_send cr) v2_byteLengthOf opts) (wsq_start (d, [])) es"
  shows "\<exists>sent frames c'. map off_wire (snd (ww_sink w)) = map Some frames \<and>
    client_open_all cr c frames = Inr (map v2_payload sent, c') \<and>
    subseq (sent @ backlog (ww_queue w)) (ww_offered w) \<and>
    (\<not> ww_lost w \<and> \<not> ww_threw w \<longrightarrow> sent @ backlog (ww_queue w) = ww_offered w)"
proof -
  obtain sent where s: "feed (v2_send cr) (d, []) sent = Some (ww_sink w)"
      "subseq (sent @ backlog (ww_queue w)) (ww_offered w)"
      "\<not> ww_lost w \<and> \<not> ww_threw w \<longrightarrow> sent @ backlog (ww_queue w) = ww_offered w"
    using outbound.run_inv [OF wsq_start_inv [OF assms(2)], of "v2_send cr" v2_byteLengthOf "(d, [])" es]
    unfolding w_def wsq_inv_def by blast
  obtain frames where fr: "desktop_seal_all cr d (map v2_payload sent) = Inr (frames, fst (ww_sink w))"
      "snd (ww_sink w) = map on_wire frames" using feed_seals [OF s(1)] by auto
  have "length sent \<le> length (ww_offered w)" using list_emb_length [OF subseq_left [OF s(2)]] .
  also have "\<dots> \<le> length es" using offered_length [of "v2_send cr" v2_byteLengthOf opts "wsq_start (d, [])" es]
    by (simp add: w_def wsq_start_def)
  finally have len: "ds_outboundCounter d + length (map v2_payload sent) < 2 ^ 64" using assms(3) by simp
  obtain c' where "client_open_all cr c frames = Inr (map v2_payload sent, c')"
    using desktop_stream_opens [OF assms(1) len, of "[]"] fr(1) len by auto
  moreover have "map off_wire (snd (ww_sink w)) = map Some frames" using fr(2) by (simp add: off_wire_on_wire)
  ultimately show ?thesis using s(2,3) by blast
qed

theorem v2_replies_open_in_order_witness:
  "\<exists>c d sent frames c'.
     (let w = foldl (wsq_step (v2_send plain_crypto) v2_byteLengthOf DEFAULT_WSQ_OPTIONS) (wsq_start (d, []))
                [WE_Enqueue True (\<lambda>_. Fin 0) (V2_Text ''hi''), WE_Enqueue True (\<lambda>_. PosInf) (V2_Binary [1, 2])]
      in map off_wire (snd (ww_sink w)) = map Some frames \<and>
         client_open_all plain_crypto c frames = Inr (map v2_payload sent, c') \<and> subseq (sent @ backlog (ww_queue w)) (ww_offered w))"
proof -
  obtain c d where p: "paired plain_crypto c d" "ds_outboundCounter d = 0" using sample_pairing by blast
  then show ?thesis
    using v2_replies_open_in_order [OF p(1), of DEFAULT_WSQ_OPTIONS
        "[WE_Enqueue True (\<lambda>_. Fin 0) (V2_Text ''hi''), WE_Enqueue True (\<lambda>_. PosInf) (V2_Binary [1, 2])]"]
    unfolding Let_def by (fastforce simp: DEFAULT_WSQ_OPTIONS_def)
qed

end
