(* ===== verification/Mobile_Wiring.thy ===== *)
theory Mobile_Wiring
  imports E2ee_Channel
begin

text \<open>
  The sockets of mobile clients (\<open>src/pie-mobile/upstream/src/main/runtime/rpc/mobile-socket-wiring.ts\<close>):
  every socket gets an encrypted channel with its first message, the channel resolves tokens in the
  device registry, and messages are passed on for sockets that have authenticated. Sockets are numbers;
  the random connection id of a new channel and the clock are arguments.

  The effects of a channel step are carried out in order, which is the order in which the code makes the
  calls. \<open>onError\<close> destroys and forgets the channel, as in the code; the socket itself is only asked to
  close, and until it has closed further messages may arrive on it.
\<close>

section \<open>State\<close>

datatype credential_kind = Invite_Credential | Resume_Credential

datatype transport_metadata =
    Direct_Transport
  | Relay_Transport (tm_relayHostId: string) (tm_relayDeviceId: string) (tm_basisConnId: string) (tm_credentialKind: credential_kind)

record auth_socket =
  as_ws :: nat
  as_connectionId :: string
  as_device :: e2ee_device
  as_transport :: transport_metadata

text \<open>A channel with what its callbacks close over.\<close>

record wired_channel =
  wc_channel :: e2ee_channel
  wc_connectionId :: string
  wc_metadata :: transport_metadata

record wiring =
  wi_registry :: registry
  wi_channels :: "(nat \<times> wired_channel) list"
  wi_connectionIds :: "(nat \<times> string) list"
  wi_authenticatedSockets :: "(nat \<times> auth_socket) list"

datatype wiring_output =
    Wire_Send nat raw_frame
  | Wire_Close nat nat string
  | Wire_Ready auth_socket
  | Wire_Text auth_socket string
  | Wire_Binary auth_socket bytes
  | Wire_Closed "auth_socket option" bool
  | Wire_Threw

definition toAuthenticatedDevice :: "device_entry \<Rightarrow> e2ee_device" where
  "toAuthenticatedDevice d = \<lparr>dv_deviceId = de_deviceId d, dv_deviceToken = de_token d, dv_scope = de_scope d\<rparr>"

definition is_relay :: "transport_metadata \<Rightarrow> bool" where
  "is_relay m \<longleftrightarrow> m \<noteq> Direct_Transport"

section \<open>Operations\<close>

text \<open>\<open>resolveAuthenticatedDevice\<close>: over the relay the device must be the one that the relay connection was opened for.\<close>

definition resolveAuthenticatedDevice :: "registry \<Rightarrow> transport_metadata \<Rightarrow> json \<Rightarrow> e2ee_device option" where
  "resolveAuthenticatedDevice ds m token =
     (case as_string (Some token) of
        None \<Rightarrow> None
      | Some t \<Rightarrow>
          (case validateToken t ds of
             None \<Rightarrow> None
           | Some device \<Rightarrow>
               (if is_relay m \<and> tm_relayDeviceId m \<noteq> de_deviceId device then None
                else Some (toAuthenticatedDevice device))))"

text \<open>The options of a channel, from the metadata of its socket and the registry as it is when they are used.\<close>

definition channel_options :: "channel_env \<Rightarrow> registry \<Rightarrow> transport_metadata \<Rightarrow> channel_env" where
  "channel_options env ds m =
     env\<lparr>ce_resolve := resolveAuthenticatedDevice ds m, ce_requireV2 := is_relay m,
         ce_transportContext := (case m of
            Direct_Transport \<Rightarrow> \<lparr>ec_transport = Direct, ec_relayHostId = None\<rparr>
          | Relay_Transport host _ _ _ \<Rightarrow> \<lparr>ec_transport = Relay, ec_relayHostId = Some host\<rparr>)\<rparr>"

definition wiring_onReady :: "nat \<Rightarrow> nat \<Rightarrow> wired_channel \<Rightarrow> e2ee_device \<Rightarrow> wiring \<Rightarrow> wiring \<times> wiring_output list" where
  "wiring_onReady now ws c device w =
     (let socket = \<lparr>as_ws = ws, as_connectionId = wc_connectionId c, as_device = device, as_transport = wc_metadata c\<rparr>
      in (w\<lparr>wi_authenticatedSockets := AList.update ws socket (wi_authenticatedSockets w),
            wi_registry := updateLastSeen now (dv_deviceId device) (wi_registry w)\<rparr>, [Wire_Ready socket]))"

definition wiring_onError :: "nat \<Rightarrow> nat \<Rightarrow> string \<Rightarrow> wiring \<Rightarrow> wiring \<times> wiring_output list" where
  "wiring_onError ws code reason w = (w\<lparr>wi_channels := AList.delete ws (wi_channels w)\<rparr>, [Wire_Close ws code reason])"

fun wiring_effect :: "nat \<Rightarrow> nat \<Rightarrow> wired_channel \<Rightarrow> wiring \<Rightarrow> channel_effect \<Rightarrow> wiring \<times> wiring_output list" where
  "wiring_effect now ws c w (Fx_Send f) = (w, [Wire_Send ws f])"
| "wiring_effect now ws c w (Fx_Error code reason) = wiring_onError ws code reason w"
| "wiring_effect now ws c w (Fx_Ready device) = wiring_onReady now ws c device w"
| "wiring_effect now ws c w (Fx_Text p) =
     (w, case map_of (wi_authenticatedSockets w) ws of Some s \<Rightarrow> [Wire_Text s p] | None \<Rightarrow> [])"
| "wiring_effect now ws c w (Fx_Binary b) =
     (w, case map_of (wi_authenticatedSockets w) ws of Some s \<Rightarrow> [Wire_Binary s b] | None \<Rightarrow> [])"
| "wiring_effect now ws c w Fx_Threw = (w, [Wire_Threw])"

fun wiring_effects :: "nat \<Rightarrow> nat \<Rightarrow> wired_channel \<Rightarrow> wiring \<Rightarrow> channel_effect list \<Rightarrow> wiring \<times> wiring_output list" where
  "wiring_effects now ws c w [] = (w, [])"
| "wiring_effects now ws c w (e # es) =
     (let (w1, o1) = wiring_effect now ws c w e; (w2, o2) = wiring_effects now ws c w1 es in (w2, o1 @ o2))"

text \<open>An event of the channel of a socket: the channel takes its step, then its effects are carried out.\<close>

definition channel_does ::
  "channel_env \<Rightarrow> nat \<Rightarrow> nat \<Rightarrow> wired_channel \<Rightarrow> channel_event \<Rightarrow> wiring \<Rightarrow> wiring \<times> wiring_output list" where
  "channel_does env now ws c e w =
     (let (ch, effs) = channel_step (channel_options env (wi_registry w) (wc_metadata c)) (wc_channel c) e
      in wiring_effects now ws c (w\<lparr>wi_channels := AList.update ws (c\<lparr>wc_channel := ch\<rparr>) (wi_channels w)\<rparr>) effs)"

definition wiring_handleRawMessage ::
  "channel_env \<Rightarrow> nat \<Rightarrow> string \<Rightarrow> socket_now \<Rightarrow> nat \<Rightarrow> raw_frame \<Rightarrow> transport_metadata \<Rightarrow> wiring \<Rightarrow> wiring \<times> wiring_output list" where
  "wiring_handleRawMessage env now connectionId sn ws msg metadata w =
     (case map_of (wi_channels w) ws of
        Some c \<Rightarrow> channel_does env now ws c (CE_Raw msg sn) w
      | None \<Rightarrow>
          (let c = \<lparr>wc_channel = channel_new, wc_connectionId = connectionId, wc_metadata = metadata\<rparr>
           in channel_does env now ws c (CE_Raw msg sn)
                (w\<lparr>wi_connectionIds := AList.update ws connectionId (wi_connectionIds w),
                   wi_channels := AList.update ws c (wi_channels w)\<rparr>)))"

definition handleClose :: "nat \<Rightarrow> wiring \<Rightarrow> wiring \<times> wiring_output list" where
  "handleClose ws w =
     (let socket = map_of (wi_authenticatedSockets w) ws;
          rest = AList.delete ws (wi_authenticatedSockets w);
          hasOther = (case socket of
             None \<Rightarrow> False
           | Some s \<Rightarrow> list_ex (\<lambda>p. dv_deviceToken (as_device (snd p)) = dv_deviceToken (as_device s)) rest)
      in (w\<lparr>wi_authenticatedSockets := rest, wi_channels := AList.delete ws (wi_channels w),
            wi_connectionIds := AList.delete ws (wi_connectionIds w)\<rparr>, [Wire_Closed socket hasOther]))"

section \<open>Runs\<close>

text \<open>
  What can happen to the wiring. A reply or a timer belongs to the channel it was made by: it is named with
  the connection id of that channel and has no effect when the socket has another channel or none, since
  a channel that was replaced or forgotten has been destroyed.
\<close>

datatype wiring_event =
    WI_Message nat raw_frame transport_metadata string socket_now nat
  | WI_Channel nat string channel_event nat
  | WI_Close nat
  | WI_Registry registry_event

fun internal_event :: "channel_event \<Rightarrow> bool" where
  "internal_event (CE_Raw _ _) = False"
| "internal_event CE_Destroy = False"
| "internal_event _ = True"

fun wiring_next :: "channel_env \<Rightarrow> wiring \<Rightarrow> wiring_event \<Rightarrow> wiring \<times> wiring_output list" where
  "wiring_next env w (WI_Message ws msg m connectionId sn now) = wiring_handleRawMessage env now connectionId sn ws msg m w"
| "wiring_next env w (WI_Channel ws connectionId e now) =
     (case map_of (wi_channels w) ws of
        Some c \<Rightarrow> (if wc_connectionId c = connectionId \<and> internal_event e then channel_does env now ws c e w else (w, []))
      | None \<Rightarrow> (w, []))"
| "wiring_next env w (WI_Close ws) = handleClose ws w"
| "wiring_next env w (WI_Registry e) = (w\<lparr>wi_registry := registry_step (wi_registry w) e\<rparr>, [])"

definition wiring_step :: "channel_env \<Rightarrow> wiring \<Rightarrow> wiring_event \<Rightarrow> wiring" where
  "wiring_step env w e = fst (wiring_next env w e)"

definition wiring_new :: "registry \<Rightarrow> wiring" where
  "wiring_new ds = \<lparr>wi_registry = ds, wi_channels = [], wi_connectionIds = [], wi_authenticatedSockets = []\<rparr>"

section \<open>Invariant\<close>

text \<open>
  A socket that counts as authenticated carries the device of its relay connection; a channel that is ready
  belongs to such a socket, with the same connection; and a relay channel holds no key of the older format.
\<close>

definition socket_ok :: "auth_socket \<Rightarrow> bool" where
  "socket_ok s \<longleftrightarrow> (is_relay (as_transport s) \<longrightarrow> dv_deviceId (as_device s) = tm_relayDeviceId (as_transport s))"

definition wired_ok :: "(nat \<times> auth_socket) list \<Rightarrow> nat \<Rightarrow> wired_channel \<Rightarrow> bool" where
  "wired_ok socks ws c \<longleftrightarrow>
     (is_relay (wc_metadata c) \<longrightarrow> ch_sharedKey (wc_channel c) = None) \<and>
     (ch_state (wc_channel c) = Channel_Ready \<longrightarrow>
        (\<exists>s. map_of socks ws = Some s \<and> as_connectionId s = wc_connectionId c \<and> as_transport s = wc_metadata c))"

definition wiring_inv :: "wiring \<Rightarrow> bool" where
  "wiring_inv w \<longleftrightarrow>
     (\<forall>ws s. map_of (wi_authenticatedSockets w) ws = Some s \<longrightarrow> as_ws s = ws \<and> socket_ok s) \<and>
     (\<forall>ws c. map_of (wi_channels w) ws = Some c \<longrightarrow> wired_ok (wi_authenticatedSockets w) ws c)"

section \<open>Lemmas\<close>

definition sockets_ok :: "(nat \<times> auth_socket) list \<Rightarrow> bool" where
  "sockets_ok socks \<longleftrightarrow> (\<forall>ws s. map_of socks ws = Some s \<longrightarrow> as_ws s = ws \<and> socket_ok s)"

definition matches :: "wired_channel \<Rightarrow> auth_socket \<Rightarrow> bool" where
  "matches c s \<longleftrightarrow> as_connectionId s = wc_connectionId c \<and> as_transport s = wc_metadata c"

definition device_ok :: "transport_metadata \<Rightarrow> e2ee_device \<Rightarrow> bool" where
  "device_ok m dev \<longleftrightarrow> (is_relay m \<longrightarrow> dv_deviceId dev = tm_relayDeviceId m)"

lemmas wiring_inv_alt = wiring_inv_def [folded sockets_ok_def]

lemma resolve_device_ok: "resolveAuthenticatedDevice ds m token = Some dev \<Longrightarrow> device_ok m dev"
  by (auto simp: resolveAuthenticatedDevice_def device_ok_def toAuthenticatedDevice_def split: option.splits if_splits)

text \<open>One effect: which entries it can change, and to what.\<close>

lemma effect_facts:
  assumes "wiring_effect now ws c w e = (w', out)" "sockets_ok (wi_authenticatedSockets w)"
    and "\<And>dev. e = Fx_Ready dev \<Longrightarrow> device_ok (wc_metadata c) dev"
  shows "sockets_ok (wi_authenticatedSockets w') \<and>
    (\<forall>v. v \<noteq> ws \<longrightarrow> map_of (wi_authenticatedSockets w') v = map_of (wi_authenticatedSockets w) v \<and>
                     map_of (wi_channels w') v = map_of (wi_channels w) v) \<and>
    (map_of (wi_channels w') ws = None \<or> map_of (wi_channels w') ws = map_of (wi_channels w) ws) \<and>
    (if \<exists>dev. e = Fx_Ready dev then \<exists>s. map_of (wi_authenticatedSockets w') ws = Some s \<and> matches c s
     else wi_authenticatedSockets w' = wi_authenticatedSockets w) \<and>
    (\<forall>s p. Wire_Text s p \<in> set out \<longrightarrow> e = Fx_Text p \<and> map_of (wi_authenticatedSockets w) ws = Some s)"
proof (cases e)
  case (Fx_Ready dev)
  then have w': "w' = fst (wiring_onReady now ws c dev w)" "out = snd (wiring_onReady now ws c dev w)" using assms(1) by simp_all
  let ?s = "\<lparr>as_ws = ws, as_connectionId = wc_connectionId c, as_device = dev, as_transport = wc_metadata c\<rparr>"
  have "socket_ok ?s" using assms(3) [OF Fx_Ready] by (simp add: socket_ok_def device_ok_def)
  then show ?thesis
    using assms(2) Fx_Ready w' by (auto simp: wiring_onReady_def Let_def sockets_ok_def matches_def update_conv')
qed (use assms in \<open>auto simp: wiring_onError_def delete_conv' split: option.splits\<close>)

lemma effects_facts:
  assumes "wiring_effects now ws c w es = (w', out)" "sockets_ok (wi_authenticatedSockets w)"
    and "\<And>dev. Fx_Ready dev \<in> set es \<Longrightarrow> device_ok (wc_metadata c) dev"
  shows "sockets_ok (wi_authenticatedSockets w') \<and>
    (\<forall>v. v \<noteq> ws \<longrightarrow> map_of (wi_authenticatedSockets w') v = map_of (wi_authenticatedSockets w) v \<and>
                     map_of (wi_channels w') v = map_of (wi_channels w) v) \<and>
    (map_of (wi_channels w') ws = None \<or> map_of (wi_channels w') ws = map_of (wi_channels w) ws) \<and>
    (if \<exists>dev. Fx_Ready dev \<in> set es then \<exists>s. map_of (wi_authenticatedSockets w') ws = Some s \<and> matches c s
     else wi_authenticatedSockets w' = wi_authenticatedSockets w) \<and>
    (\<forall>s p. Wire_Text s p \<in> set out \<longrightarrow> Fx_Text p \<in> set es \<and> as_ws s = ws \<and> socket_ok s \<and>
       (matches c s \<or> map_of (wi_authenticatedSockets w) ws = Some s))"
  using assms
proof (induction es arbitrary: w out)
  case (Cons e es)
  obtain w1 o1 where e: "wiring_effect now ws c w e = (w1, o1)" by fastforce
  obtain o2 where es: "wiring_effects now ws c w1 es = (w', o2)" and out: "out = o1 @ o2"
    using Cons.prems(1) e by (auto simp: Let_def split: prod.splits)
  note f = effect_facts [OF e Cons.prems(2)]
  have f1: "sockets_ok (wi_authenticatedSockets w1)"
    "\<And>v. v \<noteq> ws \<Longrightarrow> map_of (wi_authenticatedSockets w1) v = map_of (wi_authenticatedSockets w) v"
    "\<And>v. v \<noteq> ws \<Longrightarrow> map_of (wi_channels w1) v = map_of (wi_channels w) v"
    "map_of (wi_channels w1) ws = None \<or> map_of (wi_channels w1) ws = map_of (wi_channels w) ws"
    "if \<exists>dev. e = Fx_Ready dev then \<exists>s. map_of (wi_authenticatedSockets w1) ws = Some s \<and> matches c s
     else wi_authenticatedSockets w1 = wi_authenticatedSockets w"
    "\<And>s p. Wire_Text s p \<in> set o1 \<Longrightarrow> e = Fx_Text p \<and> map_of (wi_authenticatedSockets w) ws = Some s"
    using f Cons.prems(3) by auto
  have ih: "sockets_ok (wi_authenticatedSockets w')"
    "\<And>v. v \<noteq> ws \<Longrightarrow> map_of (wi_authenticatedSockets w') v = map_of (wi_authenticatedSockets w1) v"
    "\<And>v. v \<noteq> ws \<Longrightarrow> map_of (wi_channels w') v = map_of (wi_channels w1) v"
    "map_of (wi_channels w') ws = None \<or> map_of (wi_channels w') ws = map_of (wi_channels w1) ws"
    "if \<exists>dev. Fx_Ready dev \<in> set es then \<exists>s. map_of (wi_authenticatedSockets w') ws = Some s \<and> matches c s
     else wi_authenticatedSockets w' = wi_authenticatedSockets w1"
    "\<And>s p. Wire_Text s p \<in> set o2 \<Longrightarrow> Fx_Text p \<in> set es \<and> as_ws s = ws \<and> socket_ok s \<and>
       (matches c s \<or> map_of (wi_authenticatedSockets w1) ws = Some s)"
    using Cons.IH [OF es f1(1)] Cons.prems(3) by auto
  have 1: "map_of (wi_authenticatedSockets w') v = map_of (wi_authenticatedSockets w) v \<and> map_of (wi_channels w') v = map_of (wi_channels w) v"
    if "v \<noteq> ws" for v using that f1(2,3) ih(2,3) by simp
  have 2: "map_of (wi_channels w') ws = None \<or> map_of (wi_channels w') ws = map_of (wi_channels w) ws" using f1(4) ih(4) by auto
  have 3: "if \<exists>dev. Fx_Ready dev \<in> set (e # es) then \<exists>s. map_of (wi_authenticatedSockets w') ws = Some s \<and> matches c s
     else wi_authenticatedSockets w' = wi_authenticatedSockets w"
    using f1(5) ih(5) by (cases "\<exists>dev. Fx_Ready dev \<in> set es"; cases "\<exists>dev. e = Fx_Ready dev") auto
  have 4: "Fx_Text p \<in> set (e # es) \<and> as_ws s = ws \<and> socket_ok s \<and> (matches c s \<or> map_of (wi_authenticatedSockets w) ws = Some s)"
    if "Wire_Text s p \<in> set out" for s p
  proof (cases "Wire_Text s p \<in> set o1")
    case True
    then show ?thesis using f1(6) [OF True] Cons.prems(2) by (auto simp: sockets_ok_def)
  next
    case False
    then have "Wire_Text s p \<in> set o2" using that out by simp
    from ih(6) [OF this] f1(5) show ?thesis by (auto split: if_splits)
  qed
  from ih(1) 1 2 3 4 show ?case by blast
qed simp

lemma channel_does_facts:
  assumes d: "channel_does env now ws c e w = (w', out)"
    and socks: "sockets_ok (wi_authenticatedSockets w)" and c: "wired_ok (wi_authenticatedSockets w) ws c"
    and others: "\<And>v c'. v \<noteq> ws \<Longrightarrow> map_of (wi_channels w) v = Some c' \<Longrightarrow> wired_ok (wi_authenticatedSockets w) v c'"
  shows "wiring_inv w' \<and> (\<forall>s p. Wire_Text s p \<in> set out \<longrightarrow> as_ws s = ws \<and> socket_ok s \<and> matches c s)"
proof -
  let ?env = "channel_options env (wi_registry w) (wc_metadata c)"
  obtain ch effs where st: "channel_step ?env (wc_channel c) e = (ch, effs)" by fastforce
  let ?c = "c\<lparr>wc_channel := ch\<rparr>"
  let ?w = "w\<lparr>wi_channels := AList.update ws ?c (wi_channels w)\<rparr>"
  have eff: "wiring_effects now ws c ?w effs = (w', out)" using d st by (simp add: channel_does_def)
  have ok: "step_ok ?env (wc_channel c) (ch, effs)" using channel_step_ok [of ?env "wc_channel c" e] st by simp
  have req: "ce_requireV2 ?env = is_relay (wc_metadata c)" and res: "ce_resolve ?env = resolveAuthenticatedDevice (wi_registry w) (wc_metadata c)"
    by (simp_all add: channel_options_def)
  have dev: "device_ok (wc_metadata c) dv" if "Fx_Ready dv \<in> set effs" for dv
    using ok that res by (auto simp: step_ok_def intro: resolve_device_ok)
  have "sockets_ok (wi_authenticatedSockets ?w)" using socks by simp
  note f = effects_facts [OF eff this dev]
  have key: "is_relay (wc_metadata c) \<longrightarrow> ch_sharedKey ch = None" using ok c req by (simp add: step_ok_def wired_ok_def)
  have mine: "wired_ok (wi_authenticatedSockets w') ws ?c"
  proof (cases "\<exists>dv. Fx_Ready dv \<in> set effs")
    case True
    then show ?thesis using f key by (auto simp: wired_ok_def matches_def)
  next
    case False
    then have "wi_authenticatedSockets w' = wi_authenticatedSockets w" using f by simp
    moreover have "ch_state ch = Channel_Ready \<longrightarrow> ch_state (wc_channel c) = Channel_Ready" using ok False by (auto simp: step_ok_def)
    ultimately show ?thesis using c key by (auto simp: wired_ok_def)
  qed
  have "wired_ok (wi_authenticatedSockets w') v c'" if "map_of (wi_channels w') v = Some c'" for v c'
  proof (cases "v = ws")
    case True
    then have "c' = ?c" using f that by (auto simp: update_conv')
    with mine True show ?thesis by simp
  next
    case False
    then have "map_of (wi_channels w) v = Some c'" "map_of (wi_authenticatedSockets w') v = map_of (wi_authenticatedSockets w) v"
      using f that by (auto simp: update_conv')
    with others [OF False] show ?thesis by (simp add: wired_ok_def)
  qed
  then have inv: "wiring_inv w'" using f by (auto simp: wiring_inv_alt)
  have "as_ws s = ws \<and> socket_ok s \<and> matches c s" if t: "Wire_Text s p \<in> set out" for s p
  proof -
    have fx: "Fx_Text p \<in> set effs" and s: "as_ws s = ws" "socket_ok s" "matches c s \<or> map_of (wi_authenticatedSockets w) ws = Some s"
      using f t by auto
    have "list_ex is_delivery effs" using fx unfolding list_ex_iff by (metis is_delivery.simps(1))
    then have "ch_state (wc_channel c) = Channel_Ready" using ok by (simp add: step_ok_def)
    then have "matches c s" using c s(3) by (auto simp: wired_ok_def matches_def)
    with s show ?thesis by simp
  qed
  with inv show ?thesis by blast
qed

lemma wiring_next_facts:
  assumes w: "wiring_inv w" and n: "wiring_next env w e = (w', out)"
  shows "wiring_inv w' \<and>
    (\<forall>s p. Wire_Text s p \<in> set out \<longrightarrow> socket_ok s \<and>
      (\<exists>msg m i sn now. e = WI_Message (as_ws s) msg m i sn now \<or> (\<exists>k ev. e = WI_Channel (as_ws s) k ev now)))"
proof -
  have socks: "sockets_ok (wi_authenticatedSockets w)" using w by (simp add: wiring_inv_alt)
  have chans: "wired_ok (wi_authenticatedSockets w) v c" if "map_of (wi_channels w) v = Some c" for v c
    using w that by (simp add: wiring_inv_alt)
  show ?thesis
  proof (cases e)
    case (WI_Message ws msg m i sn now)
    let ?c = "\<lparr>wc_channel = channel_new, wc_connectionId = i, wc_metadata = m\<rparr>"
    let ?w = "w\<lparr>wi_connectionIds := AList.update ws i (wi_connectionIds w), wi_channels := AList.update ws ?c (wi_channels w)\<rparr>"
    have new: "wired_ok (wi_authenticatedSockets ?w) ws ?c" by (simp add: wired_ok_def channel_new_def)
    show ?thesis
    proof (cases "map_of (wi_channels w) ws")
      case None
      have "channel_does env now ws ?c (CE_Raw msg sn) ?w = (w', out)" using n WI_Message None by (simp add: wiring_handleRawMessage_def Let_def)
      from channel_does_facts [OF this _ new] socks chans WI_Message show ?thesis by (auto simp: update_conv')
    next
      case (Some c)
      have "channel_does env now ws c (CE_Raw msg sn) w = (w', out)" using n WI_Message Some by (simp add: wiring_handleRawMessage_def)
      from channel_does_facts [OF this socks chans [OF Some] chans] WI_Message show ?thesis by auto
    qed
  next
    case (WI_Channel ws k ev now)
    show ?thesis
    proof (cases "\<exists>c. map_of (wi_channels w) ws = Some c \<and> wc_connectionId c = k \<and> internal_event ev")
      case True
      then obtain c where c: "map_of (wi_channels w) ws = Some c" "channel_does env now ws c ev w = (w', out)"
        using n WI_Channel by auto
      from channel_does_facts [OF c(2) socks chans [OF c(1)] chans] WI_Channel show ?thesis by auto
    next
      case False
      then have "w' = w \<and> out = []" using n WI_Channel by (auto split: option.splits if_splits)
      with w show ?thesis by simp
    qed
  next
    case (WI_Close ws)
    then have "w' = fst (handleClose ws w)" "out = snd (handleClose ws w)" using n by simp_all
    then show ?thesis
      using socks chans by (auto simp: wiring_inv_alt handleClose_def Let_def sockets_ok_def delete_conv' wired_ok_def)
  next
    case (WI_Registry r)
    then show ?thesis using n w by (auto simp: wiring_inv_def)
  qed
qed

interpretation wirings: event_machine "wiring_step env" wiring_inv for env
  by unfold_locales (metis wiring_next_facts wiring_step_def prod.collapse)

lemma wiring_new_inv: "wiring_inv (wiring_new ds)"
  by (simp add: wiring_inv_def wiring_new_def)

section \<open>Properties\<close>


definition wired_phone :: device_entry where
  "wired_phone = \<lparr>de_deviceId = ''d'', de_name = ''phone'', de_token = ''tok'', de_scope = Scope_Mobile, de_pairedAt = 1,
     de_lastSeenAt = 0, de_relayBinding = None, de_mobilePairingConnectionMode = None\<rparr>"

definition phone_says :: "string \<Rightarrow> wiring_event" where
  "phone_says t = WI_Message 0 (Raw_Text t) Direct_Transport ''c1'' closed_now 7"

lemma channel_options_simps [simp]:
  "decrypt (channel_options env ds m) = decrypt env" "ce_parse (channel_options env ds m) = ce_parse env"
  "ce_buffer_base64 (channel_options env ds m) = ce_buffer_base64 env" "ce_crypto (channel_options env ds m) = ce_crypto env"
  "ce_serverSecretKey (channel_options env ds m) = ce_serverSecretKey env"
  "ce_requireV2 (channel_options env ds m) = is_relay m" "ce_resolve (channel_options env ds m) = resolveAuthenticatedDevice ds m"
  by (auto simp: channel_options_def decrypt_def decryptBytes_def fun_eq_iff)

lemma sample_wiring:
  "\<exists>w s. Wire_Ready s \<in> set (snd (wiring_next (plain_env False) w (phone_says ''auth'')))"
  "\<exists>w. foldl (wiring_step (plain_env False)) (wiring_new [wired_phone]) [phone_says ''hello'', phone_says ''auth''] = w \<and>
     (\<exists>s. Wire_Text s ''hi'' \<in> set (snd (wiring_next (plain_env False) w (phone_says ''hi''))))"
proof -
  have before: "cr_before plain_crypto (replicate 32 0) (replicate 32 5) = replicate 32 5"
    by (simp add: plain_crypto_def eval_nat_numeral)
  have env: "ce_crypto (plain_env v2) = plain_crypto" "ce_serverSecretKey (plain_env v2) = replicate 32 5"
    "ce_buffer_base64 (plain_env v2) ''key'' = replicate 32 0"
    "ce_parse (plain_env v2) ''hello'' = Some (JObj [(''type'', JStr ''e2ee_hello''), (''publicKeyB64'', JStr ''key'')])"
    "ce_parse (plain_env v2) ''auth'' = Some (JObj [(''type'', JStr ''e2ee_auth''), (''deviceToken'', JStr ''tok'')])" for v2
    by (simp_all add: plain_env_def)
  have reg: "resolveAuthenticatedDevice [wired_phone] Direct_Transport (JStr ''tok'') = Some (toAuthenticatedDevice wired_phone)"
    by (simp add: resolveAuthenticatedDevice_def validateToken_def wired_phone_def is_relay_def)
  have tok: "dv_deviceToken (toAuthenticatedDevice wired_phone) = ''tok''" by (simp add: toAuthenticatedDevice_def wired_phone_def)
  let ?w = "wiring_step (plain_env False) (wiring_new [wired_phone]) (phone_says ''hello'')"
  have "\<exists>s. Wire_Ready s \<in> set (snd (wiring_next (plain_env False) ?w (phone_says ''auth'')))"
    by (simp add: phone_says_def wiring_step_def wiring_new_def wiring_handleRawMessage_def channel_does_def channel_new_def
        handleRawMessage_def handleHello_def acceptHello_def env before closed_now_def plain_decrypt handleAuth_def
        isValidMobileE2EEAuthVersion_def sendEncryptedControl_def wiring_onReady_def reg tok is_relay_def Let_def)
  then show "\<exists>w s. Wire_Ready s \<in> set (snd (wiring_next (plain_env False) w (phone_says ''auth'')))" by blast
  show "\<exists>w. foldl (wiring_step (plain_env False)) (wiring_new [wired_phone]) [phone_says ''hello'', phone_says ''auth''] = w \<and>
     (\<exists>s. Wire_Text s ''hi'' \<in> set (snd (wiring_next (plain_env False) w (phone_says ''hi''))))"
    by (simp add: phone_says_def wiring_step_def wiring_new_def wiring_handleRawMessage_def channel_does_def channel_new_def
        handleRawMessage_def handleHello_def acceptHello_def env before closed_now_def plain_decrypt handleAuth_def
        isValidMobileE2EEAuthVersion_def sendEncryptedControl_def wiring_onReady_def reg tok is_relay_def Let_def)
qed


lemma effects_ready:
  "Wire_Ready s \<in> set (snd (wiring_effects now ws c w es)) \<Longrightarrow> Fx_Ready (as_device s) \<in> set es"
proof (induction es arbitrary: w)
  case (Cons e es)
  have "e = Fx_Ready (as_device s)" if "Wire_Ready s \<in> set (snd (wiring_effect now ws c w e))"
    using that by (cases e) (auto simp: wiring_onReady_def wiring_onError_def Let_def split: option.splits)
  moreover obtain w1 o1 where "wiring_effect now ws c w e = (w1, o1)" by fastforce
  ultimately show ?case using Cons.prems Cons.IH [of w1] by (auto simp: Let_def split: prod.splits)
qed simp

lemma channel_does_ready:
  assumes "Wire_Ready s \<in> set (snd (channel_does env now ws c e w))"
  shows "resolveAuthenticatedDevice (wi_registry w) (wc_metadata c) (JStr (dv_deviceToken (as_device s))) = Some (as_device s)"
proof -
  let ?env = "channel_options env (wi_registry w) (wc_metadata c)"
  obtain ch effs where st: "channel_step ?env (wc_channel c) e = (ch, effs)" by fastforce
  then have "Fx_Ready (as_device s) \<in> set effs" using assms effects_ready by (fastforce simp: channel_does_def)
  then show ?thesis using channel_step_ok [of ?env "wc_channel c" e] st by (simp add: step_ok_def)
qed

text \<open>
  Only registered devices become ready. Whenever a socket is announced as authenticated, the token
  it presented is at that moment the token of an entry of the registry, and the identity it gets is that
  entry's id, token and scope; a device that was revoked or rotated away cannot authenticate.
\<close>

theorem ready_only_for_registered_device:
  assumes "Wire_Ready s \<in> set (snd (wiring_next env w e))"
  shows "\<exists>d. validateToken (dv_deviceToken (as_device s)) (wi_registry w) = Some d \<and> as_device s = toAuthenticatedDevice d"
proof -
  obtain now ws c ev w1 where "Wire_Ready s \<in> set (snd (channel_does env now ws c ev w1))" "wi_registry w1 = wi_registry w"
    using assms by (cases e) (auto simp: wiring_handleRawMessage_def handleClose_def Let_def split: option.splits if_splits)
  then have "\<exists>m. resolveAuthenticatedDevice (wi_registry w) m (JStr (dv_deviceToken (as_device s))) = Some (as_device s)"
    using channel_does_ready by metis
  then show ?thesis by (auto simp: resolveAuthenticatedDevice_def split: option.splits if_splits)
qed

theorem ready_only_for_registered_device_witness:
  "\<exists>w s. Wire_Ready s \<in> set (snd (wiring_next (plain_env False) w (phone_says ''auth''))) \<and>
     validateToken (dv_deviceToken (as_device s)) (wi_registry w) \<noteq> None"
proof -
  obtain w s where "Wire_Ready s \<in> set (snd (wiring_next (plain_env False) w (phone_says ''auth'')))" using sample_wiring(1) by blast
  with ready_only_for_registered_device [OF this] show ?thesis by auto
qed

end
