(* ===== verification/Gateway_Terminal.thy ===== *)
theory Gateway_Terminal
  imports Relay_Prelude "HOL-Library.Sublist"
begin

text \<open>
  The terminal of the host gateway (\<open>src/pie-mobile/adapter/host-gateway/src/terminal-session.ts\<close>): a
  pseudo terminal with a bounded scrollback, a size and listeners. The package \<open>node-pty\<close> is outside:
  what is asked of it are effects, and whether its \<open>resize\<close> or \<open>kill\<close> throws, and what, is an argument.
  Choosing a shell and making the package's helper executable are file-system work and not modelled.
\<close>

section \<open>State\<close>

definition DEFAULT_COLS :: int where "DEFAULT_COLS = 120"
definition DEFAULT_ROWS :: int where "DEFAULT_ROWS = 34"
definition MAX_SCROLLBACK_BYTES :: nat where "MAX_SCROLLBACK_BYTES = 256 * 1024"

record terminal_session =
  tn_scrollback :: string
  tn_cols :: int
  tn_rows :: int
  tn_alive :: bool
  tn_listeners :: "nat list"

definition terminal_handle :: string where "terminal_handle = ''pie-relay-terminal-1''"
definition terminal_title :: string where "terminal_title = ''Pie Relay''"

definition terminal_new :: terminal_session where
  "terminal_new = \<lparr>tn_scrollback = [], tn_cols = DEFAULT_COLS, tn_rows = DEFAULT_ROWS, tn_alive = True, tn_listeners = []\<rparr>"

datatype pty_effect =
    Pty_Write string
  | Pty_Resize int int
  | Pty_Kill
  | Pty_Threw

text \<open>An error of the package: the \<open>code\<close> property as a string, and the message.\<close>

record pty_error =
  pe_code :: string
  pe_message :: string

section \<open>Closed terminals\<close>

fun occurs :: "string \<Rightarrow> string \<Rightarrow> bool" where
  "occurs p [] \<longleftrightarrow> p = []"
| "occurs p (c # s) \<longleftrightarrow> prefix p (c # s) \<or> occurs p s"

text \<open>\<open>/p.*q/\<close>: the part up to the end of the line after some occurrence of \<open>p\<close> contains \<open>q\<close>.\<close>

definition rest_of_line :: "string \<Rightarrow> string" where
  "rest_of_line s = takeWhile (\<lambda>c. c \<noteq> CHR 0x0A \<and> c \<noteq> CHR 0x0D) s"

fun occurs_then :: "string \<Rightarrow> string \<Rightarrow> string \<Rightarrow> bool" where
  "occurs_then p q [] \<longleftrightarrow> False"
| "occurs_then p q (c # s) \<longleftrightarrow>
     prefix p (c # s) \<and> occurs q (rest_of_line (drop (length p) (c # s))) \<or> occurs_then p q s"

definition isClosedTerminalError :: "pty_error \<Rightarrow> bool" where
  "isClosedTerminalError e \<longleftrightarrow>
     pe_code e \<in> {''EBADF'', ''EIO'', ''ENOTTY''} \<or>
     (let m = map ascii_lower (pe_message e) in
      occurs ''ebadf'' m \<or> occurs ''eio'' m \<or> occurs ''enotty'' m \<or>
      occurs_then ''process'' ''closed'' m \<or> occurs_then ''process'' ''exited'' m \<or> occurs_then ''pty'' ''closed'' m)"

section \<open>Operations\<close>

definition byteLength :: "string \<Rightarrow> nat" where
  "byteLength s = sum_list (map (\<lambda>c. length (utf8_char c)) s)"

text \<open>The loop of \<open>appendScrollback\<close>: drop an eighth from the front until the rest fits.\<close>

function trim_scrollback :: "string \<Rightarrow> string" where
  "trim_scrollback s =
     (if byteLength s > MAX_SCROLLBACK_BYTES then trim_scrollback (drop (max 1 (length s div 8)) s) else s)"
  by pat_completeness auto
termination
proof (relation "measure length")
  fix s :: string
  assume "byteLength s > MAX_SCROLLBACK_BYTES"
  then have "s \<noteq> []" by (auto simp: byteLength_def MAX_SCROLLBACK_BYTES_def)
  then show "(drop (max 1 (length s div 8)) s, s) \<in> measure length" by (simp add: max_def)
qed simp

declare trim_scrollback.simps [simp del]

definition appendScrollback :: "string \<Rightarrow> terminal_session \<Rightarrow> terminal_session" where
  "appendScrollback chunk t = t\<lparr>tn_scrollback := trim_scrollback (tn_scrollback t @ chunk)\<rparr>"

text \<open>The callback of \<open>onData\<close>: the listeners that are called, in the order they were added.\<close>

definition pty_data :: "string \<Rightarrow> terminal_session \<Rightarrow> terminal_session \<times> nat list" where
  "pty_data chunk t = (appendScrollback chunk t, tn_listeners t)"

definition pty_exit :: "terminal_session \<Rightarrow> terminal_session" where
  "pty_exit t = t\<lparr>tn_alive := False\<rparr>"

definition terminal_write :: "string \<Rightarrow> terminal_session \<Rightarrow> terminal_session \<times> pty_effect list" where
  "terminal_write text t = (t, [Pty_Write text])"

definition terminal_resize :: "pty_error option \<Rightarrow> rat \<Rightarrow> rat \<Rightarrow> terminal_session \<Rightarrow> terminal_session \<times> pty_effect list" where
  "terminal_resize err cols rows t =
     (let nextCols = max 20 (min 240 (floor cols)); nextRows = max 8 (min 120 (floor rows)) in
      if nextCols = tn_cols t \<and> nextRows = tn_rows t then (t, [])
      else if \<not> tn_alive t then (t, [])
      else case err of
          Some e \<Rightarrow>
            (if isClosedTerminalError e then (t\<lparr>tn_alive := False\<rparr>, [Pty_Resize nextCols nextRows])
             else (t, [Pty_Resize nextCols nextRows, Pty_Threw]))
        | None \<Rightarrow> (t\<lparr>tn_cols := nextCols, tn_rows := nextRows\<rparr>, [Pty_Resize nextCols nextRows]))"

definition terminal_onData :: "nat \<Rightarrow> terminal_session \<Rightarrow> terminal_session" where
  "terminal_onData listener t = t\<lparr>tn_listeners := List.insert listener (tn_listeners t)\<rparr>"

definition terminal_offData :: "nat \<Rightarrow> terminal_session \<Rightarrow> terminal_session" where
  "terminal_offData listener t = t\<lparr>tn_listeners := removeAll listener (tn_listeners t)\<rparr>"

definition terminal_clear :: "terminal_session \<Rightarrow> terminal_session" where
  "terminal_clear t = t\<lparr>tn_scrollback := []\<rparr>"

definition terminal_close :: "pty_error option \<Rightarrow> terminal_session \<Rightarrow> terminal_session \<times> pty_effect list" where
  "terminal_close err t =
     (let t1 = t\<lparr>tn_listeners := []\<rparr> in
      if \<not> tn_alive t1 then (t1, [])
      else (t1\<lparr>tn_alive := False\<rparr>,
            Pty_Kill # (case err of Some e \<Rightarrow> (if isClosedTerminalError e then [] else [Pty_Threw]) | None \<Rightarrow> [])))"

section \<open>Runs\<close>

datatype terminal_input =
    TI_Data string
  | TI_Exit
  | TI_Write string
  | TI_Resize "pty_error option" rat rat
  | TI_Listen nat
  | TI_Unlisten nat
  | TI_Clear
  | TI_Close "pty_error option"

fun terminal_next :: "terminal_session \<Rightarrow> terminal_input \<Rightarrow> terminal_session \<times> pty_effect list" where
  "terminal_next t (TI_Data c) = (fst (pty_data c t), [])"
| "terminal_next t TI_Exit = (pty_exit t, [])"
| "terminal_next t (TI_Write s) = terminal_write s t"
| "terminal_next t (TI_Resize e c r) = terminal_resize e c r t"
| "terminal_next t (TI_Listen l) = (terminal_onData l t, [])"
| "terminal_next t (TI_Unlisten l) = (terminal_offData l t, [])"
| "terminal_next t TI_Clear = (terminal_clear t, [])"
| "terminal_next t (TI_Close e) = terminal_close e t"

definition terminal_step :: "terminal_session \<Rightarrow> terminal_input \<Rightarrow> terminal_session" where
  "terminal_step t i = fst (terminal_next t i)"

definition terminal_ok :: "terminal_session \<Rightarrow> bool" where
  "terminal_ok t \<longleftrightarrow> byteLength (tn_scrollback t) \<le> MAX_SCROLLBACK_BYTES \<and> 20 \<le> tn_cols t \<and> tn_cols t \<le> 240 \<and>
     8 \<le> tn_rows t \<and> tn_rows t \<le> 120 \<and> distinct (tn_listeners t)"

section \<open>Lemmas\<close>

lemma byteLength_simps [simp]: "byteLength [] = 0" "byteLength (xs @ ys) = byteLength xs + byteLength ys"
  by (simp_all add: byteLength_def)

lemma trim_scrollback_facts:
  "byteLength (trim_scrollback s) \<le> MAX_SCROLLBACK_BYTES \<and> suffix (trim_scrollback s) s \<and>
   (byteLength s \<le> MAX_SCROLLBACK_BYTES \<longrightarrow> trim_scrollback s = s)"
proof (induction s rule: trim_scrollback.induct)
  case (1 s)
  show ?case
  proof (cases "byteLength s > MAX_SCROLLBACK_BYTES")
    case True
    then have "trim_scrollback s = trim_scrollback (drop (max 1 (length s div 8)) s)" by (subst trim_scrollback.simps) simp
    with "1.IH" [OF True] True show ?thesis using suffix_order.trans [OF _ suffix_drop] by fastforce
  qed (simp add: trim_scrollback.simps)
qed

interpretation terminals: event_machine terminal_step terminal_ok
proof unfold_locales
  fix t i
  assume ok: "terminal_ok t"
  show "terminal_ok (terminal_step t i)"
  proof (cases i)
    case (TI_Data c)
    then show ?thesis using ok trim_scrollback_facts
      by (simp add: terminal_step_def pty_data_def appendScrollback_def terminal_ok_def)
  next
    case (TI_Resize e c r)
    then show ?thesis using ok by (auto simp: terminal_step_def terminal_resize_def terminal_ok_def Let_def split: option.split)
  qed (use ok in \<open>auto simp: terminal_step_def terminal_ok_def pty_exit_def terminal_write_def terminal_onData_def
        terminal_offData_def terminal_clear_def terminal_close_def distinct_removeAll Let_def\<close>)
qed

section \<open>Properties\<close>

text \<open>
  The terminal stays within its limits. After any sequence of output, input, resizes (to any size,
  also when the pseudo terminal fails), clears and closes, the scrollback is at most 256 KiB of UTF-8 and
  the recorded size is between 20 by 8 and 240 by 120; appending output keeps the newest part of the text,
  all of it when it fits.
\<close>

theorem terminal_stays_within_limits:
  fixes ins chunk
  defines "t \<equiv> foldl terminal_step terminal_new ins"
  shows "byteLength (tn_scrollback t) \<le> 262144 \<and> tn_cols t \<in> {20..240} \<and> tn_rows t \<in> {8..120} \<and>
    suffix (tn_scrollback (fst (pty_data chunk t))) (tn_scrollback t @ chunk) \<and>
    (byteLength (tn_scrollback t @ chunk) \<le> 262144 \<longrightarrow> tn_scrollback (fst (pty_data chunk t)) = tn_scrollback t @ chunk)"
proof -
  have "terminal_ok t" unfolding t_def
    by (rule terminals.run_inv) (simp add: terminal_ok_def terminal_new_def DEFAULT_COLS_def DEFAULT_ROWS_def)
  with trim_scrollback_facts [of "tn_scrollback t @ chunk"] show ?thesis
    by (simp add: terminal_ok_def MAX_SCROLLBACK_BYTES_def pty_data_def appendScrollback_def)
qed

theorem terminal_stays_within_limits_witness:
  "let t = foldl terminal_step terminal_new [TI_Resize None 7.5 999, TI_Data ''ls'']
   in tn_cols t = 20 \<and> tn_rows t = 120 \<and> byteLength (tn_scrollback t) \<le> 262144"
  using terminal_stays_within_limits [of "[TI_Resize None 7.5 999, TI_Data ''ls'']" "[]"]
  by (simp add: terminal_step_def terminal_resize_def terminal_new_def pty_data_def appendScrollback_def DEFAULT_COLS_def DEFAULT_ROWS_def Let_def)

text \<open>
  A closed or exited terminal is never touched again by a resize or a second close, and no failure of the
  pseudo terminal that says it is closed leaves the session: it only marks it as not alive.
\<close>

theorem dead_terminal_is_left_alone:
  assumes "\<not> tn_alive t"
  shows "snd (terminal_resize err cols rows t) = [] \<and> snd (terminal_close err t) = [] \<and> fst (terminal_resize err cols rows t) = t \<and>
    (isClosedTerminalError e \<longrightarrow>
      Pty_Threw \<notin> set (snd (terminal_resize (Some e) cols rows t')) \<and> Pty_Threw \<notin> set (snd (terminal_close (Some e) t')))"
  using assms by (auto simp: terminal_resize_def terminal_close_def Let_def)

theorem dead_terminal_is_left_alone_witness:
  "snd (terminal_close None (pty_exit terminal_new)) = [] \<and>
   Pty_Threw \<notin> set (snd (terminal_resize (Some \<lparr>pe_code = [], pe_message = ''ioctl(2) failed, EBADF''\<rparr>) 80 24 terminal_new))"
  using dead_terminal_is_left_alone [of "pty_exit terminal_new" None 80 24 "\<lparr>pe_code = [], pe_message = ''ioctl(2) failed, EBADF''\<rparr>" terminal_new]
  by (simp add: pty_exit_def isClosedTerminalError_def ascii_lower_def char_of_def bit_0)

end
