(* ===== verification/Gateway_Rpc.thy ===== *)
theory Gateway_Rpc
  imports Mobile_Wiring Gateway_Terminal Relay_Wire
begin

text \<open>
  The RPC handler of the host gateway (\<open>src/pie-mobile/adapter/host-gateway/src/rpc-handler.ts\<close> and
  \<open>rpc-response.ts\<close>): it validates requests, answers them, and streams the output of the one terminal to
  its subscribers. A reply closure is named by the socket and the connection it belongs to. Responses are
  the JSON values that the code passes to \<open>JSON.stringify\<close>; \<open>JSON.parse\<close> is an argument. The calls to
  the relay gateway are outputs, and their results come back as an event. The clock and the outcome of a
  resize are part of the moment a request is handled in.
\<close>

section \<open>Requests and responses\<close>

type_synonym reply_ref = "nat \<times> string"

record rpc_request =
  rq_id :: string
  rq_deviceToken :: string
  rq_method :: string
  rq_params :: "(string \<times> json) list"

definition jnat :: "nat \<Rightarrow> json" where "jnat n = JNum (Fin (of_nat n))"
definition jint :: "int \<Rightarrow> json" where "jint n = JNum (Fin (of_int n))"

definition success :: "string \<Rightarrow> string \<Rightarrow> json \<Rightarrow> bool \<Rightarrow> json" where
  "success runtimeId i result streaming =
     JObj ([(''id'', JStr i), (''ok'', JBool True), (''result'', result)] @
       (if streaming then [(''streaming'', JBool True)] else []) @ [(''_meta'', JObj [(''runtimeId'', JStr runtimeId)])])"

definition failure :: "string \<Rightarrow> string \<Rightarrow> string \<Rightarrow> string \<Rightarrow> json" where
  "failure runtimeId i code msg =
     JObj [(''id'', JStr i), (''ok'', JBool False), (''error'', JObj [(''code'', JStr code), (''message'', JStr msg)]),
       (''_meta'', JObj [(''runtimeId'', JStr runtimeId)])]"

text \<open>The request schema; the outer \<open>None\<close> of the parameters is a value that is not a record.\<close>

definition z_record :: "json option \<Rightarrow> (string \<times> json) list option" where
  "z_record v = (case v of None \<Rightarrow> Some [] | Some (JObj ps) \<Rightarrow> Some ps | _ \<Rightarrow> None)"

definition RequestSchema :: "json \<Rightarrow> rpc_request option" where
  "RequestSchema j =
     (if \<not> z_strict [''id'', ''deviceToken'', ''method'', ''params''] j then None
      else case (z_string 1 128 (jprop j ''id''), z_string 1 512 (jprop j ''deviceToken''), z_string 1 128 (jprop j ''method''),
                 z_record (jprop j ''params'')) of
          (Some i, Some t, Some m, Some ps) \<Rightarrow> Some \<lparr>rq_id = i, rq_deviceToken = t, rq_method = m, rq_params = ps\<rparr>
        | _ \<Rightarrow> None)"

section \<open>State\<close>

record subscription =
  sb_connectionId :: string
  sb_requestId :: string
  sb_reply :: reply_ref

record rpc_handler =
  rh_runtimeId :: string
  rh_cwd :: string
  rh_relay :: bool
  rh_startedAt :: nat
  rh_subscriptions :: "(string \<times> subscription) list"
  rh_lastOutputAt :: nat
  rh_terminalSeq :: nat
  rh_terminal :: terminal_session

record rpc_now =
  rn_now :: nat
  rn_resizeError :: "pty_error option"

datatype rpc_output =
    Rpc_Reply reply_ref json
  | Rpc_Pty pty_effect
  | Rpc_Get_Endpoints reply_ref string auth_socket "string option" "string option"
  | Rpc_Provision reply_ref string auth_socket string string "string option"

definition repoId :: string where "repoId = ''pie-relay-repo''"

text \<open>The constructor; the handler is the first listener of the terminal.\<close>

definition rpc_new :: "string \<Rightarrow> string \<Rightarrow> bool \<Rightarrow> nat \<Rightarrow> terminal_session \<Rightarrow> rpc_handler" where
  "rpc_new runtimeId cwd relay now t =
     \<lparr>rh_runtimeId = runtimeId, rh_cwd = cwd, rh_relay = relay, rh_startedAt = now, rh_subscriptions = [],
      rh_lastOutputAt = now, rh_terminalSeq = 1, rh_terminal = terminal_onData 0 t\<rparr>"

definition worktreeId :: "rpc_handler \<Rightarrow> string" where
  "worktreeId h = repoId @ ''::'' @ rh_cwd h"

text \<open>\<open>basename\<close> of a POSIX path.\<close>

definition basename :: "string \<Rightarrow> string" where
  "basename p = rev (takeWhile (\<lambda>c. c \<noteq> CHR ''/'') (dropWhile (\<lambda>c. c = CHR ''/'') (rev p)))"

definition display_name :: "rpc_handler \<Rightarrow> string" where
  "display_name h = (let b = basename (rh_cwd h) in if b \<noteq> [] then b else ''pie-relay'')"

section \<open>Fixed answers\<close>

definition repoSummary :: "rpc_handler \<Rightarrow> json" where
  "repoSummary h =
     JObj [(''id'', JStr repoId), (''displayName'', JStr (display_name h)), (''path'', JStr (rh_cwd h)),
       (''badgeColor'', JStr ''#2563eb''), (''connectionId'', JNull)]"

definition worktreeSummary :: "rpc_handler \<Rightarrow> json" where
  "worktreeSummary h =
     JObj [(''worktreeId'', JStr (worktreeId h)), (''repoId'', JStr repoId), (''repo'', JStr (display_name h)), (''path'', JStr (rh_cwd h)),
       (''branch'', JStr ''local''), (''isArchived'', JBool False), (''isMainWorktree'', JBool True), (''hasHostSidebarActivity'', JBool True),
       (''parentWorktreeId'', JNull), (''childWorktreeIds'', JArr []), (''displayName'', JStr ''Pie Relay terminal''),
       (''workspaceStatus'', JStr ''in-progress''), (''sortOrder'', jnat (rh_startedAt h)), (''linkedIssue'', JNull), (''linkedPR'', JNull),
       (''linkedLinearIssue'', JNull), (''linkedGitLabMR'', JNull), (''linkedGitLabIssue'', JNull), (''comment'', JStr []),
       (''isPinned'', JBool True), (''isActive'', JBool True), (''unread'', JBool False), (''liveTerminalCount'', jnat 1),
       (''hasAttachedPty'', JBool True), (''lastOutputAt'', jnat (rh_lastOutputAt h)), (''preview'', JStr ''Pie Relay mobile terminal''),
       (''status'', JStr ''active''), (''agents'', JArr [])]"

definition terminalSummary :: "rpc_handler \<Rightarrow> json" where
  "terminalSummary h =
     JObj [(''handle'', JStr terminal_handle), (''worktreeId'', JStr (worktreeId h)), (''title'', JStr terminal_title),
       (''isActive'', JBool True), (''hasRunningProcess'', JBool True)]"

definition sessionTabs :: "rpc_handler \<Rightarrow> (string \<times> json) list" where
  "sessionTabs h =
     [(''worktree'', JStr (worktreeId h)), (''snapshotVersion'', jnat 1),
      (''tabs'', JArr [JObj [(''type'', JStr ''terminal''), (''id'', JStr ''pie-relay-tab-1''), (''title'', JStr terminal_title),
         (''status'', JStr ''ready''), (''terminal'', JStr terminal_handle), (''isActive'', JBool True)]]),
      (''activeTabId'', JStr ''pie-relay-tab-1''), (''activeTabType'', JStr ''terminal'')]"

definition scope_name :: "device_scope \<Rightarrow> string" where
  "scope_name s = (case s of Scope_Mobile \<Rightarrow> ''mobile'' | Scope_Runtime \<Rightarrow> ''runtime'')"

text \<open>The methods whose answer only reads the state: the result and whether it opens a stream.\<close>

definition fixed_result :: "rpc_handler \<Rightarrow> auth_socket \<Rightarrow> string \<Rightarrow> (json \<times> bool) option" where
  "fixed_result h socket method =
     (if method = ''status.get'' then
        Some (JObj [(''runtimeId'', JStr (rh_runtimeId h)), (''protocolVersion'', jnat 3), (''minCompatibleMobileVersion'', jnat 2),
          (''graphStatus'', JStr ''ready''), (''windowCount'', jnat 1), (''tabCount'', jnat 1), (''terminalCount'', jnat 1),
          (''capabilities'', JArr [JStr ''runtime.status.compat.v1'']), (''clientScope'', JStr (scope_name (dv_scope (as_device socket))))], False)
      else if method = ''repo.list'' then Some (JObj [(''repos'', JArr [repoSummary h])], False)
      else if method = ''worktree.ps'' then
        Some (JObj [(''worktrees'', JArr [worktreeSummary h]), (''totalCount'', jnat 1), (''truncated'', JBool False)], False)
      else if method = ''worktree.show'' then Some (JObj [(''worktree'', worktreeSummary h)], False)
      else if method = ''worktree.activate'' then Some (JObj [(''ok'', JBool True)], False)
      else if method = ''settings.get'' then
        Some (JObj [(''settings'', JObj [(''defaultTuiAgent'', JStr ''codex''), (''disabledTuiAgents'', JArr []), (''agentCmdOverrides'', JObj [])])], False)
      else if method = ''ui.get'' then
        Some (JObj [(''ui'', JObj [(''groupBy'', JStr ''repo''), (''sortBy'', JStr ''recent''), (''hideSleepingWorkspaces'', JBool False),
          (''hideDefaultBranchWorkspace'', JBool False), (''filterRepoIds'', JArr []), (''collapsedGroups'', JArr []), (''trustedOrcaHooks'', JObj [])])], False)
      else if method \<in> {''ui.set'', ''session.tabs.activate'', ''terminal.setDisplayMode''} then Some (JObj [(''ok'', JBool True)], False)
      else if method \<in> {''preflight.detectAgents'', ''preflight.detectRemoteAgents''} then Some (JArr [JStr ''codex''], False)
      else if method = ''accounts.list'' then Some (JObj [(''accounts'', JArr [])], False)
      else if method = ''stats.summary'' then Some (JObj [(''totals'', JObj [])], False)
      else if method = ''linear.status'' then Some (JObj [(''configured'', JBool False)], False)
      else if method = ''session.tabs.list'' then Some (JObj (sessionTabs h), False)
      else if method = ''session.tabs.subscribe'' then Some (JObj ((''type'', JStr ''snapshot'') # sessionTabs h), True)
      else if method = ''session.tabs.unsubscribe'' then Some (JObj [(''unsubscribed'', JBool True)], False)
      else if method = ''terminal.list'' then
        Some (JObj [(''terminals'', JArr [terminalSummary h]), (''totalCount'', jnat 1), (''truncated'', JBool False)], False)
      else if method = ''terminal.resolveActive'' then Some (JObj [(''handle'', JStr terminal_handle)], False)
      else if method = ''terminal.show'' then Some (JObj [(''terminal'', terminalSummary h)], False)
      else if method = ''terminal.read'' then
        Some (JObj [(''terminal'', JObj [(''handle'', JStr terminal_handle), (''tail'', JStr (tn_scrollback (rh_terminal h))), (''truncated'', JBool False)])], False)
      else if method = ''terminal.rename'' then Some (JObj [(''rename'', JObj [(''ok'', JBool True)])], False)
      else None)"

section \<open>Operations\<close>

text \<open>\<open>applyViewport\<close>; an exception of the resize ends the request, as \<open>Pty_Threw\<close> shows.\<close>

definition applyViewport :: "rpc_now \<Rightarrow> (string \<times> json) list \<Rightarrow> rpc_handler \<Rightarrow> rpc_handler \<times> pty_effect list" where
  "applyViewport now params h =
     (case map_of params ''viewport'' of
        None \<Rightarrow> (h, [])
      | Some viewport \<Rightarrow>
          (if \<not> truthy (Some viewport) \<or> \<not> typeof_object viewport then (h, [])
           else (case (as_number (jprop viewport ''cols''), as_number (jprop viewport ''rows'')) of
                   (Some (Fin cols), Some (Fin rows)) \<Rightarrow>
                     (let (t, effs) = terminal_resize (rn_resizeError now) cols rows (rh_terminal h) in (h\<lparr>rh_terminal := t\<rparr>, effs))
                 | _ \<Rightarrow> (h, []))))"

definition subscription_key :: "string \<Rightarrow> string \<Rightarrow> string" where
  "subscription_key connectionId requestId = connectionId @ '':'' @ requestId"

definition handleTerminalSubscribe ::
  "rpc_now \<Rightarrow> auth_socket \<Rightarrow> rpc_request \<Rightarrow> reply_ref \<Rightarrow> rpc_handler \<Rightarrow> rpc_handler \<times> rpc_output list" where
  "handleTerminalSubscribe now socket rq reply h =
     (let (h1, effs) = applyViewport now (rq_params rq) h; pre = map Rpc_Pty effs in
      if Pty_Threw \<in> set effs then (h1, pre)
      else (let h2 = h1\<lparr>rh_subscriptions := AList.update (subscription_key (as_connectionId socket) (rq_id rq))
                        \<lparr>sb_connectionId = as_connectionId socket, sb_requestId = rq_id rq, sb_reply = reply\<rparr> (rh_subscriptions h1),
                      rh_terminalSeq := Suc (rh_terminalSeq h1)\<rparr>
            in (h2, pre @ [Rpc_Reply reply (success (rh_runtimeId h) (rq_id rq)
                   (JObj [(''type'', JStr ''scrollback''), (''lines'', JStr (tn_scrollback (rh_terminal h1))), (''truncated'', JBool False),
                     (''cols'', jint (tn_cols (rh_terminal h1))), (''rows'', jint (tn_rows (rh_terminal h1))),
                     (''seq'', jnat (rh_terminalSeq h1))]) True)])))"

definition closeConnection :: "string \<Rightarrow> rpc_handler \<Rightarrow> rpc_handler" where
  "closeConnection connectionId h =
     h\<lparr>rh_subscriptions := filter (\<lambda>p. sb_connectionId (snd p) \<noteq> connectionId) (rh_subscriptions h)\<rparr>"

definition handleTerminalUnsubscribe ::
  "auth_socket \<Rightarrow> rpc_request \<Rightarrow> reply_ref \<Rightarrow> rpc_handler \<Rightarrow> rpc_handler \<times> rpc_output list" where
  "handleTerminalUnsubscribe socket rq reply h =
     ((case as_string (map_of (rq_params rq) ''subscriptionId'') of
         Some i \<Rightarrow> h\<lparr>rh_subscriptions := AList.delete (subscription_key (as_connectionId socket) i) (rh_subscriptions h)\<rparr>
       | None \<Rightarrow> h\<lparr>rh_subscriptions := filter (\<lambda>p. sb_connectionId (snd p) \<noteq> as_connectionId socket) (rh_subscriptions h)\<rparr>),
      [Rpc_Reply reply (success (rh_runtimeId h) (rq_id rq) (JObj [(''unsubscribed'', JBool True)]) False)])"

definition input_text :: "(string \<times> json) list \<Rightarrow> string" where
  "input_text params =
     (case as_string (map_of params ''text'') of Some t \<Rightarrow> t | None \<Rightarrow> []) @
     (if map_of params ''interrupt'' = Some (JBool True) then [CHR 0x03] else []) @
     (if map_of params ''enter'' = Some (JBool True) then [CHR 0x0D] else [])"

definition handleTerminalSend :: "rpc_now \<Rightarrow> rpc_request \<Rightarrow> reply_ref \<Rightarrow> rpc_handler \<Rightarrow> rpc_handler \<times> rpc_output list" where
  "handleTerminalSend now rq reply h =
     (let (h1, effs) = applyViewport now (rq_params rq) h; pre = map Rpc_Pty effs; text = input_text (rq_params rq) in
      if Pty_Threw \<in> set effs then (h1, pre)
      else if byteLength text > 64 * 1024
      then (h1, pre @ [Rpc_Reply reply (failure (rh_runtimeId h) (rq_id rq) ''invalid_argument'' ''Input too large'')])
      else (h1, pre @ (if text \<noteq> [] then map Rpc_Pty (snd (terminal_write text (rh_terminal h1))) else []) @
              [Rpc_Reply reply (success (rh_runtimeId h) (rq_id rq)
                 (JObj [(''send'', JObj [(''handle'', JStr terminal_handle), (''accepted'', JBool True),
                    (''bytesWritten'', jnat (byteLength text))])]) False)]))"

text \<open>The methods that act, besides the ones with a fixed answer.\<close>

datatype acting_method =
    M_Subscribe | M_Unsubscribe | M_Send | M_Update_Viewport | M_Clear_Buffer | M_Get_Endpoints | M_Provision_Relay

definition acting_methods :: "(string \<times> acting_method) list" where
  "acting_methods =
     [(''terminal.subscribe'', M_Subscribe), (''terminal.unsubscribe'', M_Unsubscribe), (''terminal.send'', M_Send),
      (''terminal.updateViewport'', M_Update_Viewport), (''terminal.clearBuffer'', M_Clear_Buffer),
      (''pairing.getEndpoints'', M_Get_Endpoints), (''pairing.provisionRelay'', M_Provision_Relay)]"

definition handleUpdateViewport :: "rpc_now \<Rightarrow> rpc_request \<Rightarrow> reply_ref \<Rightarrow> rpc_handler \<Rightarrow> rpc_handler \<times> rpc_output list" where
  "handleUpdateViewport now rq reply h =
     (let (h1, effs) = applyViewport now (rq_params rq) h in
      (h1, map Rpc_Pty effs @ (if Pty_Threw \<in> set effs then []
         else [Rpc_Reply reply (success (rh_runtimeId h) (rq_id rq) (JObj [(''updated'', JBool True)]) False)])))"

definition handleGetEndpoints :: "auth_socket \<Rightarrow> rpc_request \<Rightarrow> reply_ref \<Rightarrow> rpc_handler \<Rightarrow> rpc_output" where
  "handleGetEndpoints socket rq reply h =
     (if \<not> rh_relay h then Rpc_Reply reply (success (rh_runtimeId h) (rq_id rq) (JObj [(''v'', jnat 1), (''relay'', JNull)]) False)
      else Rpc_Get_Endpoints reply (rq_id rq) socket (as_string (map_of (rq_params rq) ''installReqId''))
             (as_string (map_of (rq_params rq) ''resumeConfirmReqId'')))"

definition handleProvisionRelay :: "auth_socket \<Rightarrow> rpc_request \<Rightarrow> reply_ref \<Rightarrow> rpc_handler \<Rightarrow> rpc_output" where
  "handleProvisionRelay socket rq reply h =
     (case (as_string (map_of (rq_params rq) ''reqId''), as_string (map_of (rq_params rq) ''newResumeTokenHash''), rh_relay h) of
        (Some reqId, Some hash, True) \<Rightarrow>
          Rpc_Provision reply (rq_id rq) socket reqId hash (as_string (map_of (rq_params rq) ''expectedCurrentHash''))
      | _ \<Rightarrow> Rpc_Reply reply (failure (rh_runtimeId h) (rq_id rq) ''relay_unavailable'' ''Pie Relay is not configured''))"

definition dispatch ::
  "rpc_now \<Rightarrow> auth_socket \<Rightarrow> rpc_request \<Rightarrow> reply_ref \<Rightarrow> rpc_handler \<Rightarrow> rpc_handler \<times> rpc_output list" where
  "dispatch now socket rq reply h =
     (case fixed_result h socket (rq_method rq) of
        Some (result, streaming) \<Rightarrow> (h, [Rpc_Reply reply (success (rh_runtimeId h) (rq_id rq) result streaming)])
      | None \<Rightarrow>
          (case map_of acting_methods (rq_method rq) of
             Some M_Subscribe \<Rightarrow> handleTerminalSubscribe now socket rq reply h
           | Some M_Unsubscribe \<Rightarrow> handleTerminalUnsubscribe socket rq reply h
           | Some M_Send \<Rightarrow> handleTerminalSend now rq reply h
           | Some M_Update_Viewport \<Rightarrow> handleUpdateViewport now rq reply h
           | Some M_Clear_Buffer \<Rightarrow>
               (h\<lparr>rh_terminal := terminal_clear (rh_terminal h)\<rparr>,
                [Rpc_Reply reply (success (rh_runtimeId h) (rq_id rq) (JObj [(''clear'', JObj [(''ok'', JBool True)])]) False)])
           | Some M_Get_Endpoints \<Rightarrow> (h, [handleGetEndpoints socket rq reply h])
           | Some M_Provision_Relay \<Rightarrow> (h, [handleProvisionRelay socket rq reply h])
           | None \<Rightarrow>
               (h, [Rpc_Reply reply (failure (rh_runtimeId h) (rq_id rq) ''method_not_found'' (''Unknown method: '' @ rq_method rq))])))"

definition handle ::
  "(string \<Rightarrow> json option) \<Rightarrow> rpc_now \<Rightarrow> auth_socket \<Rightarrow> string \<Rightarrow> reply_ref \<Rightarrow> rpc_handler \<Rightarrow> rpc_handler \<times> rpc_output list" where
  "handle json_parse now socket plaintext reply h =
     (case json_parse plaintext of
        None \<Rightarrow> (h, [Rpc_Reply reply (failure (rh_runtimeId h) ''unknown'' ''bad_request'' ''Invalid JSON'')])
      | Some raw \<Rightarrow>
          (case RequestSchema raw of
             None \<Rightarrow>
               (h, [Rpc_Reply reply (failure (rh_runtimeId h)
                  (case as_string (jprop raw ''id'') of Some i \<Rightarrow> i | None \<Rightarrow> ''unknown'') ''bad_request'' ''Invalid RPC request'')])
           | Some rq \<Rightarrow>
               (if rq_deviceToken rq \<noteq> dv_deviceToken (as_device socket)
                then (h, [Rpc_Reply reply (failure (rh_runtimeId h) (rq_id rq) ''unauthorized'' ''Device token mismatch'')])
                else dispatch now socket rq reply h)))"

text \<open>The result of a relay call, the error as its message.\<close>

definition relay_settled :: "reply_ref \<Rightarrow> string \<Rightarrow> string + json \<Rightarrow> rpc_handler \<Rightarrow> rpc_output list" where
  "relay_settled reply i result h =
     [Rpc_Reply reply (case result of
        Inr r \<Rightarrow> success (rh_runtimeId h) i r False
      | Inl msg \<Rightarrow> failure (rh_runtimeId h) i ''relay_error'' msg)]"

text \<open>\<open>publishTerminalData\<close>: each subscriber in turn gets the chunk with the next number.\<close>

fun publish_loop :: "string \<Rightarrow> string \<Rightarrow> nat \<Rightarrow> (string \<times> subscription) list \<Rightarrow> rpc_output list" where
  "publish_loop runtimeId chunk sq [] = []"
| "publish_loop runtimeId chunk sq ((k, s) # ss) =
     Rpc_Reply (sb_reply s) (success runtimeId (sb_requestId s)
       (JObj [(''type'', JStr ''data''), (''chunk'', JStr chunk), (''seq'', jnat sq)]) True) #
     publish_loop runtimeId chunk (Suc sq) ss"

definition publishTerminalData :: "nat \<Rightarrow> string \<Rightarrow> rpc_handler \<Rightarrow> rpc_handler \<times> rpc_output list" where
  "publishTerminalData now chunk h =
     (h\<lparr>rh_lastOutputAt := now, rh_terminalSeq := rh_terminalSeq h + length (rh_subscriptions h)\<rparr>,
      publish_loop (rh_runtimeId h) chunk (rh_terminalSeq h) (rh_subscriptions h))"

text \<open>Output of the terminal: the scrollback first, then the listeners; the handler is listener 0.\<close>

definition rpc_terminal_data :: "nat \<Rightarrow> string \<Rightarrow> rpc_handler \<Rightarrow> rpc_handler \<times> rpc_output list" where
  "rpc_terminal_data now chunk h =
     (let (t, called) = pty_data chunk (rh_terminal h); h1 = h\<lparr>rh_terminal := t\<rparr>
      in if 0 \<in> set called then publishTerminalData now chunk h1 else (h1, []))"

section \<open>Runs\<close>

datatype rpc_event =
    RP_Request auth_socket string reply_ref rpc_now
  | RP_Relay reply_ref string "string + json"
  | RP_Data nat string
  | RP_Close_Connection string

fun rpc_next :: "(string \<Rightarrow> json option) \<Rightarrow> rpc_handler \<Rightarrow> rpc_event \<Rightarrow> rpc_handler \<times> rpc_output list" where
  "rpc_next json_parse h (RP_Request socket text reply now) = handle json_parse now socket text reply h"
| "rpc_next json_parse h (RP_Relay reply i r) = (h, relay_settled reply i r h)"
| "rpc_next json_parse h (RP_Data now chunk) = rpc_terminal_data now chunk h"
| "rpc_next json_parse h (RP_Close_Connection c) = (closeConnection c h, [])"

definition rpc_trace_step ::
  "(string \<Rightarrow> json option) \<Rightarrow> rpc_handler \<times> rpc_output list \<Rightarrow> rpc_event \<Rightarrow> rpc_handler \<times> rpc_output list" where
  "rpc_trace_step json_parse w e = (let (h, out) = rpc_next json_parse (fst w) e in (h, snd w @ out))"

section \<open>Lemmas\<close>

fun is_answer :: "reply_ref \<Rightarrow> rpc_output \<Rightarrow> bool" where
  "is_answer r (Rpc_Reply r' _) \<longleftrightarrow> r = r'"
| "is_answer r (Rpc_Get_Endpoints r' _ _ _ _) \<longleftrightarrow> r = r'"
| "is_answer r (Rpc_Provision r' _ _ _ _ _) \<longleftrightarrow> r = r'"
| "is_answer r (Rpc_Pty _) \<longleftrightarrow> False"

fun is_pty :: "rpc_output \<Rightarrow> bool" where
  "is_pty (Rpc_Pty _) \<longleftrightarrow> True"
| "is_pty _ \<longleftrightarrow> False"

text \<open>Some accesses to the pseudo terminal, then one answer.\<close>

definition answered :: "reply_ref \<Rightarrow> rpc_output list \<Rightarrow> bool" where
  "answered r out \<longleftrightarrow> out \<noteq> [] \<and> list_all is_pty (butlast out) \<and> is_answer r (last out)"

lemma all_pty [simp]: "list_all is_pty (map Rpc_Pty effs)"
  by (induction effs) simp_all

lemma answered_append: "list_all is_pty xs \<Longrightarrow> is_answer r a \<Longrightarrow> answered r (xs @ [a])"
  by (simp add: answered_def)

lemma answered_single [simp]: "answered r [a] \<longleftrightarrow> is_answer r a"
  by (simp add: answered_def)

definition resize_ok :: "rpc_now \<Rightarrow> bool" where
  "resize_ok now \<longleftrightarrow> (case rn_resizeError now of None \<Rightarrow> True | Some e \<Rightarrow> isClosedTerminalError e)"

lemma applyViewport_no_throw: "resize_ok now \<Longrightarrow> Pty_Threw \<notin> set (snd (applyViewport now ps h))"
  by (auto simp: applyViewport_def resize_ok_def terminal_resize_def Let_def split: option.splits jsnum.splits)

lemma applyViewport_keeps:
  "applyViewport now ps h = (h', effs) \<Longrightarrow>
     rh_runtimeId h' = rh_runtimeId h \<and> rh_subscriptions h' = rh_subscriptions h \<and> rh_terminalSeq h' = rh_terminalSeq h \<and>
     (\<forall>e \<in> set effs. (\<exists>c r. e = Pty_Resize c r) \<or> e = Pty_Threw)"
  by (auto simp: applyViewport_def terminal_resize_def Let_def split: option.splits if_splits jsnum.splits)

text \<open>A property of results that every way to answer has, dispatching has.\<close>

lemma dispatch_cases:
  assumes "\<And>res b. fixed_result h socket (rq_method rq) = Some (res, b) \<Longrightarrow> P (h, [Rpc_Reply reply (success (rh_runtimeId h) (rq_id rq) res b)])"
    and "P (handleTerminalSubscribe now socket rq reply h)" "P (handleTerminalUnsubscribe socket rq reply h)"
    and "rq_method rq = ''terminal.send'' \<Longrightarrow> P (handleTerminalSend now rq reply h)" "P (handleUpdateViewport now rq reply h)"
    and "\<And>j. P (h\<lparr>rh_terminal := terminal_clear (rh_terminal h)\<rparr>, [Rpc_Reply reply (success (rh_runtimeId h) (rq_id rq) j False)])"
    and "P (h, [handleGetEndpoints socket rq reply h])" "P (h, [handleProvisionRelay socket rq reply h])"
    and "\<And>c m. P (h, [Rpc_Reply reply (failure (rh_runtimeId h) (rq_id rq) c m)])"
  shows "P (dispatch now socket rq reply h)"
proof (cases "fixed_result h socket (rq_method rq)")
  case None
  have send: "rq_method rq = ''terminal.send''" if "map_of acting_methods (rq_method rq) = Some M_Send"
    using that by (auto simp: acting_methods_def split: if_splits)
  show ?thesis
  proof (cases "map_of acting_methods (rq_method rq)")
    case (Some m)
    then show ?thesis using None assms send by (cases m) (simp_all add: dispatch_def)
  qed (simp add: dispatch_def None assms(9))
next
  case (Some rb)
  then show ?thesis using assms(1) by (cases rb) (simp add: dispatch_def)
qed

lemma endpoint_answers [simp]:
  "is_answer reply (handleGetEndpoints socket rq reply h)" "is_answer reply (handleProvisionRelay socket rq reply h)"
  by (simp_all add: handleGetEndpoints_def handleProvisionRelay_def split: option.split bool.split)

lemma dispatch_answers:
  assumes "resize_ok now"
  shows "answered reply (snd (dispatch now socket rq reply h))"
proof -
  obtain h1 effs where v: "applyViewport now (rq_params rq) h = (h1, effs)" by fastforce
  with applyViewport_no_throw [OF assms, of "rq_params rq" h] have nt: "Pty_Threw \<notin> set effs" by simp
  have a: "answered reply (map Rpc_Pty effs @ xs @ [Rpc_Reply reply j])" if "list_all is_pty xs" for xs j
    using answered_append [of "map Rpc_Pty effs @ xs" reply "Rpc_Reply reply j"] that by simp
  show ?thesis
  proof (rule dispatch_cases [where P = "\<lambda>r. answered reply (snd r)"])
    show "answered reply (snd (handleTerminalSend now rq reply h))"
      using v nt a [of "[]"] a [of "[Rpc_Pty (Pty_Write (input_text (rq_params rq)))]"]
      by (simp add: handleTerminalSend_def terminal_write_def Let_def)
  qed (use v nt a [of "[]"] in \<open>simp_all add: handleTerminalSubscribe_def handleTerminalUnsubscribe_def handleUpdateViewport_def Let_def\<close>)
qed

section \<open>Properties\<close>

text \<open>
  Property C30. Every request is answered exactly once and on its own connection. Whatever text arrives, the
  handler produces, after any access to the pseudo terminal, one answer through the reply it was given
  (a response, or one call to the relay gateway that will be answered), unless the pseudo terminal fails
  to resize with an error that does not say it is closed.
\<close>

theorem request_is_answered_once:
  assumes "resize_ok now"
  shows "answered reply (snd (handle json_parse now socket text reply h))"
  using dispatch_answers [OF assms] by (simp add: handle_def split: option.split)

theorem request_is_answered_once_witness:
  "answered (0, ''c'') (snd (handle (\<lambda>_. None) \<lparr>rn_now = 0, rn_resizeError = None\<rparr>
     \<lparr>as_ws = 0, as_connectionId = ''c'', as_device = ch_device, as_transport = Direct_Transport\<rparr> ''{'' (0, ''c'')
     (rpc_new ''r'' ''/w'' False 0 terminal_new)))"
  by (rule request_is_answered_once) (simp add: resize_ok_def)

definition no_write :: "rpc_output list \<Rightarrow> bool" where
  "no_write out \<longleftrightarrow> (\<forall>s. Rpc_Pty (Pty_Write s) \<notin> set out)"

lemma no_write_simps [simp]:
  "no_write []" "no_write (Rpc_Reply r j # out) = no_write out" "no_write (Rpc_Get_Endpoints r i k x y # out) = no_write out"
  "no_write (Rpc_Provision r i k a b z # out) = no_write out" "no_write (xs @ ys) = (no_write xs \<and> no_write ys)"
  by (auto simp: no_write_def)

lemma no_write_viewport: "applyViewport now ps h = (h', effs) \<Longrightarrow> no_write (map Rpc_Pty effs)"
  by (auto dest!: applyViewport_keeps simp: no_write_def)

lemma no_write_dispatch:
  assumes "rq_method rq \<noteq> ''terminal.send''"
  shows "no_write (snd (dispatch now socket rq reply h))"
proof -
  obtain h1 effs where v: "applyViewport now (rq_params rq) h = (h1, effs)" by fastforce
  note w = no_write_viewport [OF v]
  have "no_write [handleGetEndpoints socket rq reply h]" "no_write [handleProvisionRelay socket rq reply h]"
    by (simp_all add: handleGetEndpoints_def handleProvisionRelay_def split: option.split bool.split)
  then show ?thesis
    by (intro dispatch_cases [where P = "\<lambda>r. no_write (snd r)"])
      (use assms v w in \<open>simp_all add: handleTerminalSubscribe_def handleTerminalUnsubscribe_def handleUpdateViewport_def Let_def\<close>)
qed

lemma send_writes:
  assumes "Rpc_Pty (Pty_Write s) \<in> set (snd (handleTerminalSend now rq reply h))"
  shows "s = input_text (rq_params rq) \<and> byteLength s \<le> 65536"
proof -
  obtain h1 effs where v: "applyViewport now (rq_params rq) h = (h1, effs)" by fastforce
  have "Pty_Write s \<notin> set effs" using no_write_viewport [OF v] by (auto simp: no_write_def)
  with v assms show ?thesis by (auto simp: handleTerminalSend_def terminal_write_def Let_def split: if_splits)
qed

lemma dispatch_write:
  assumes "Rpc_Pty (Pty_Write s) \<in> set (snd (dispatch now socket rq reply h))"
  shows "rq_method rq = ''terminal.send'' \<and> byteLength s \<le> 65536"
proof -
  have m: "rq_method rq = ''terminal.send''" using no_write_dispatch [of rq now socket reply h] assms by (auto simp: no_write_def)
  then have "dispatch now socket rq reply h = handleTerminalSend now rq reply h" by (simp add: dispatch_def fixed_result_def acting_methods_def)
  with assms send_writes m show ?thesis by simp
qed

text \<open>
  Property C4. Nothing reaches the shell without the token of the authenticated device. If handling a text touches
  the pseudo terminal at all, the text is a well-formed request whose token is that of the device the
  socket authenticated as; input is written only by the method for it and is at most 64 KiB, and a request
  that is malformed or carries another token changes nothing.
\<close>

theorem shell_requires_device_token:
  assumes "handle json_parse now socket text reply h = (h', out)" "h' \<noteq> h \<or> Rpc_Pty e \<in> set out"
  shows "\<exists>raw rq. json_parse text = Some raw \<and> RequestSchema raw = Some rq \<and>
    rq_deviceToken rq = dv_deviceToken (as_device socket) \<and>
    (\<forall>s. Rpc_Pty (Pty_Write s) \<in> set out \<longrightarrow> rq_method rq = ''terminal.send'' \<and> byteLength s \<le> 65536)"
proof -
  obtain raw rq where r: "json_parse text = Some raw" "RequestSchema raw = Some rq" "rq_deviceToken rq = dv_deviceToken (as_device socket)"
      "dispatch now socket rq reply h = (h', out)"
    using assms by (auto simp: handle_def split: option.splits if_splits)
  then show ?thesis using dispatch_write [of _ now socket rq reply h] by auto
qed

definition sample_socket :: auth_socket where
  "sample_socket = \<lparr>as_ws = 0, as_connectionId = ''c'', as_device = ch_device, as_transport = Direct_Transport\<rparr>"

definition request_json :: "string \<Rightarrow> (string \<times> json) list \<Rightarrow> json" where
  "request_json method params =
     JObj [(''id'', JStr ''7''), (''deviceToken'', JStr ''tok''), (''method'', JStr method), (''params'', JObj params)]"

definition quiet_now :: rpc_now where "quiet_now = \<lparr>rn_now = 0, rn_resizeError = None\<rparr>"

theorem shell_requires_device_token_witness:
  "\<exists>h' out. handle (\<lambda>_. Some (request_json ''terminal.send'' [(''text'', JStr ''ls'')])) quiet_now sample_socket ''x'' (0, ''c'')
      (rpc_new ''r'' ''/w'' False 0 terminal_new) = (h', out) \<and> Rpc_Pty (Pty_Write ''ls'') \<in> set out \<and>
     (\<exists>rq. RequestSchema (request_json ''terminal.send'' [(''text'', JStr ''ls'')]) = Some rq \<and> rq_deviceToken rq = dv_deviceToken ch_device)"
proof -
  let ?h = "rpc_new ''r'' ''/w'' False 0 terminal_new" and ?p = "\<lambda>_. Some (request_json ''terminal.send'' [(''text'', JStr ''ls'')])"
  obtain h' out where r: "handle ?p quiet_now sample_socket ''x'' (0, ''c'') ?h = (h', out)" by fastforce
  then have w: "Rpc_Pty (Pty_Write ''ls'') \<in> set out"
    by (simp add: handle_def request_json_def RequestSchema_def z_string_def z_record_def sample_socket_def ch_device_def dispatch_def
        fixed_result_def acting_methods_def handleTerminalSend_def applyViewport_def input_text_def terminal_write_def byteLength_def utf8_char_def Let_def, auto)
  from shell_requires_device_token [OF r, of "Pty_Write ''ls''"] r w show ?thesis by (auto simp: sample_socket_def)
qed

text \<open>The number that a message of the terminal stream carries.\<close>

definition stream_seq :: "rpc_output \<Rightarrow> json list" where
  "stream_seq out =
     (case out of
        Rpc_Reply r j \<Rightarrow>
          (if jprop j ''streaming'' = Some (JBool True)
           then (case jprop j ''result'' of Some res \<Rightarrow> (case jprop res ''seq'' of Some n \<Rightarrow> [n] | None \<Rightarrow> []) | None \<Rightarrow> [])
           else [])
      | _ \<Rightarrow> [])"

definition stream_seqs :: "rpc_output list \<Rightarrow> json list" where
  "stream_seqs out = concat (map stream_seq out)"

lemma stream_seqs_simps [simp]:
  "stream_seqs [] = []" "stream_seqs (Rpc_Reply r (failure a b c d) # out) = stream_seqs out"
  "stream_seqs (Rpc_Reply r (success a b j False) # out) = stream_seqs out"
  "stream_seqs (Rpc_Reply r (success a b (JObj ps) True) # out) = (case map_of ps ''seq'' of Some n \<Rightarrow> [n] | None \<Rightarrow> []) @ stream_seqs out"
  "stream_seqs (Rpc_Get_Endpoints r i k x y # out) = stream_seqs out" "stream_seqs (Rpc_Provision r i k a b z # out) = stream_seqs out"
  "stream_seqs (xs @ ys) = stream_seqs xs @ stream_seqs ys" "stream_seqs (map Rpc_Pty effs) = []" "stream_seqs (Rpc_Pty e # out) = stream_seqs out"
  by (simp_all add: stream_seqs_def stream_seq_def success_def failure_def)

lemma fixed_result_seq: "fixed_result h socket m = Some (res, True) \<Longrightarrow> \<exists>ps. res = JObj ps \<and> map_of ps ''seq'' = None"
  by (auto simp: fixed_result_def sessionTabs_def split: if_splits)

lemma publish_seqs: "stream_seqs (publish_loop i chunk sq ss) = map jnat [sq..<sq + length ss]"
  by (induction i chunk sq ss rule: publish_loop.induct) (simp_all add: upt_conv_Cons del: upt_Suc)

text \<open>Each event numbers its stream messages from the counter on, and advances it past them.\<close>

definition numbers :: "rpc_handler \<Rightarrow> rpc_handler \<times> rpc_output list \<Rightarrow> bool" where
  "numbers h r \<longleftrightarrow> rh_terminalSeq h \<le> rh_terminalSeq (fst r) \<and> stream_seqs (snd r) = map jnat [rh_terminalSeq h..<rh_terminalSeq (fst r)]"

lemma dispatch_numbers: "numbers h (dispatch now socket rq reply h)"
proof -
  obtain h1 effs where v: "applyViewport now (rq_params rq) h = (h1, effs)" by fastforce
  note k = applyViewport_keeps [OF v]
  show ?thesis
  proof (rule dispatch_cases [where P = "numbers h"])
    fix res b
    assume f: "fixed_result h socket (rq_method rq) = Some (res, b)"
    show "numbers h (h, [Rpc_Reply reply (success (rh_runtimeId h) (rq_id rq) res b)])"
    proof (cases b)
      case True
      then obtain ps where "res = JObj ps" "map_of ps ''seq'' = None" using fixed_result_seq [of h socket "rq_method rq" res] f by auto
      with True show ?thesis by (simp add: numbers_def)
    qed (simp add: numbers_def)
  next
    show "numbers h (h, [handleGetEndpoints socket rq reply h])" by (simp add: handleGetEndpoints_def numbers_def)
    show "numbers h (h, [handleProvisionRelay socket rq reply h])"
      by (simp add: handleProvisionRelay_def numbers_def split: option.split bool.split)
    show "numbers h (handleTerminalUnsubscribe socket rq reply h)"
      by (simp add: handleTerminalUnsubscribe_def numbers_def split: option.split)
  qed (use v k in \<open>simp_all add: handleTerminalSubscribe_def handleTerminalSend_def handleUpdateViewport_def numbers_def terminal_write_def Let_def\<close>)
qed

lemma rpc_next_numbers: "numbers h (rpc_next json_parse h e)"
proof (cases e)
  case (RP_Request socket msg reply now)
  then show ?thesis using dispatch_numbers by (simp add: handle_def split: option.split) (simp add: numbers_def)
next
  case (RP_Relay reply i r)
  then show ?thesis by (simp add: relay_settled_def numbers_def split: sum.split)
next
  case (RP_Data now chunk)
  then show ?thesis by (simp add: rpc_terminal_data_def publishTerminalData_def pty_data_def numbers_def publish_seqs Let_def)
next
  case (RP_Close_Connection c)
  then show ?thesis by (simp add: closeConnection_def numbers_def)
qed

definition rpc_inv :: "nat \<Rightarrow> rpc_handler \<times> rpc_output list \<Rightarrow> bool" where
  "rpc_inv k w \<longleftrightarrow> k \<le> rh_terminalSeq (fst w) \<and> stream_seqs (snd w) = map jnat [k..<rh_terminalSeq (fst w)]"

interpretation rpc: event_machine "rpc_trace_step json_parse" "rpc_inv k" for json_parse k
proof unfold_locales
  fix w e
  assume w: "rpc_inv k w"
  obtain h out where n: "rpc_next json_parse (fst w) e = (h, out)" by fastforce
  have nums: "numbers (fst w) (h, out)" using rpc_next_numbers [of "fst w" json_parse e] n by simp
  then have "[k..<rh_terminalSeq h] = [k..<rh_terminalSeq (fst w)] @ [rh_terminalSeq (fst w)..<rh_terminalSeq h]"
    using w by (metis fst_conv le_add_diff_inverse numbers_def rpc_inv_def upt_add_eq_append)
  with nums w n show "rpc_inv k (rpc_trace_step json_parse w e)"
    by (simp add: rpc_inv_def rpc_trace_step_def numbers_def)
qed

text \<open>
  The terminal stream is numbered without gaps. Over any run of requests, terminal output, relay
  results and closing connections, the numbers of all stream messages (the scrollback of a subscription and
  each chunk for each subscriber), in the order they are sent, are 1, 2, 3 and so on, and the handler's
  counter is the next one.
\<close>

theorem stream_is_numbered_without_gaps:
  fixes json_parse es i cwd relay t0 t
  defines "w \<equiv> foldl (rpc_trace_step json_parse) (rpc_new i cwd relay t0 t, []) es"
  shows "stream_seqs (snd w) = map jnat [1..<rh_terminalSeq (fst w)]"
proof -
  have "rpc_inv 1 w" unfolding w_def by (rule rpc.run_inv) (simp add: rpc_inv_def rpc_new_def)
  then show ?thesis by (simp add: rpc_inv_def)
qed

end
