(* ===== verification/Terminal_Stream.thy ===== *)
theory Terminal_Stream
  imports Relay_Prelude
begin

text \<open>
  The binary terminal stream between a desktop and a phone: the frame codec of
  \<open>src/pie-mobile/upstream/src/shared/terminal-stream-protocol.ts\<close>, the phone's copy of it
  (\<open>mobile/src/transport/terminal-stream-protocol.ts\<close>, with fewer opcodes) and the phone's frame handler
  \<open>rpc-client-terminal-binary-frame.ts\<close>, which puts snapshots together out of chunks.

  \<open>DataView\<close> accesses are byte layouts, \<open>setUint32\<close> and \<open>>>>\<close> convert with \<open>to_uint32\<close>. The text decoder
  and \<open>JSON.parse\<close> are arguments. The product \<open>high * 0x100000000 + low\<close> is exact in the model; the doubles of
  the source round it from \<open>2 ^ 53\<close> on, so the round trip is stated for safe integers.
\<close>

section \<open>Numbers\<close>

text \<open>\<open>ToUint32\<close>: truncation towards zero, modulo \<open>2 ^ 32\<close>; the non-finite numbers give 0.\<close>

definition trunc_int :: "rat \<Rightarrow> int" where
  "trunc_int r = (if r < 0 then \<lceil>r\<rceil> else \<lfloor>r\<rfloor>)"

fun to_uint32 :: "jsnum \<Rightarrow> nat" where
  "to_uint32 (Fin r) = nat (trunc_int r mod 2 ^ 32)"
| "to_uint32 _ = 0"

fun math_floor :: "jsnum \<Rightarrow> jsnum" where
  "math_floor (Fin r) = Fin (of_int \<lfloor>r\<rfloor>)"
| "math_floor n = n"

text \<open>\<open>Math.max(0, n)\<close>.\<close>

fun max_zero :: "jsnum \<Rightarrow> jsnum" where
  "max_zero (Fin r) = Fin (max 0 r)"
| "max_zero NegInf = Fin 0"
| "max_zero n = n"

fun num_divide :: "jsnum \<Rightarrow> rat \<Rightarrow> jsnum" where
  "num_divide (Fin r) d = Fin (r / d)"
| "num_divide n d = n"

lemma to_uint32_nat [simp]: "to_uint32 (Fin (of_nat n)) = n mod 2 ^ 32"
proof -
  have "to_uint32 (Fin (of_nat n)) = nat (int n mod int (2 ^ 32))" by (simp add: trunc_int_def)
  then show ?thesis by (simp only: zmod_int [symmetric] nat_int)
qed

lemma to_uint32_zero [simp]: "to_uint32 (Fin 0) = 0"
  by (simp add: trunc_int_def)

declare to_uint32.simps(1) [simp del]

lemma to_uint32_bound: "to_uint32 n < 2 ^ 32"
  by (cases n) (auto simp: to_uint32.simps nat_less_iff)

section \<open>Frames\<close>

datatype opcode =
    Op_Output | Op_SnapshotStart | Op_SnapshotChunk | Op_SnapshotEnd | Op_Resized | Op_Error | Op_Input
  | Op_Resize | Op_Subscribe | Op_Unsubscribe | Op_SnapshotRequest | Op_Metadata | Op_Ack | Op_ClaimViewport

fun opcode_value :: "opcode \<Rightarrow> nat" where
  "opcode_value Op_Output = 1"
| "opcode_value Op_SnapshotStart = 2"
| "opcode_value Op_SnapshotChunk = 3"
| "opcode_value Op_SnapshotEnd = 4"
| "opcode_value Op_Resized = 5"
| "opcode_value Op_Error = 6"
| "opcode_value Op_Input = 7"
| "opcode_value Op_Resize = 8"
| "opcode_value Op_Subscribe = 9"
| "opcode_value Op_Unsubscribe = 10"
| "opcode_value Op_SnapshotRequest = 11"
| "opcode_value Op_Metadata = 12"
| "opcode_value Op_Ack = 13"
| "opcode_value Op_ClaimViewport = 14"

definition all_opcodes :: "opcode list" where
  "all_opcodes =
     [Op_Output, Op_SnapshotStart, Op_SnapshotChunk, Op_SnapshotEnd, Op_Resized, Op_Error, Op_Input, Op_Resize,
      Op_Subscribe, Op_Unsubscribe, Op_SnapshotRequest, Op_Metadata, Op_Ack, Op_ClaimViewport]"

text \<open>\<open>isTerminalStreamOpcode\<close>, returning the opcode it recognises; the phone's copy knows seven of them.\<close>

definition isTerminalStreamOpcode :: "nat \<Rightarrow> opcode option" where
  "isTerminalStreamOpcode v = find (\<lambda>oc. opcode_value oc = v) all_opcodes"

definition mobile_opcodes :: "opcode list" where
  "mobile_opcodes = [Op_Output, Op_SnapshotStart, Op_SnapshotChunk, Op_SnapshotEnd, Op_Resized, Op_Error, Op_Metadata]"

definition mobile_isTerminalStreamOpcode :: "nat \<Rightarrow> opcode option" where
  "mobile_isTerminalStreamOpcode v = find (\<lambda>oc. opcode_value oc = v) mobile_opcodes"

record stream_frame =
  sf_opcode :: opcode
  sf_streamId :: jsnum
  sf_seq :: jsnum
  sf_payload :: bytes

definition HEADER_BYTES :: nat where "HEADER_BYTES = 16"

definition encodeTerminalStreamFrame :: "stream_frame \<Rightarrow> bytes" where
  "encodeTerminalStreamFrame f =
     (let sq = max_zero (math_floor (sf_seq f))
      in [0x74, 1, word_of_nat (opcode_value (sf_opcode f)), 0] @ le_bytes 4 (to_uint32 (sf_streamId f)) @
         le_bytes 4 (to_uint32 (math_floor (num_divide sq 0x100000000))) @ le_bytes 4 (to_uint32 sq) @ sf_payload f)"

definition getUint32 :: "nat \<Rightarrow> bytes \<Rightarrow> nat" where
  "getUint32 i bs = le_value (take 4 (drop i bs))"

text \<open>The body that both copies of \<open>decodeTerminalStreamFrame\<close> share, over their opcode test.\<close>

definition decode_frame :: "(nat \<Rightarrow> opcode option) \<Rightarrow> bytes \<Rightarrow> stream_frame option" where
  "decode_frame is_opcode bs =
     (if length bs < HEADER_BYTES \<or> bs ! 0 \<noteq> 0x74 \<or> bs ! 1 \<noteq> 1 then None
      else (case is_opcode (unat (bs ! 2)) of
              None \<Rightarrow> None
            | Some oc \<Rightarrow>
                Some \<lparr>sf_opcode = oc, sf_streamId = Fin (of_nat (getUint32 4 bs)),
                      sf_seq = Fin (of_nat (getUint32 8 bs * 0x100000000 + getUint32 12 bs)),
                      sf_payload = drop HEADER_BYTES bs\<rparr>))"

definition decodeTerminalStreamFrame :: "bytes \<Rightarrow> stream_frame option" where
  "decodeTerminalStreamFrame = decode_frame isTerminalStreamOpcode"

definition mobile_decodeTerminalStreamFrame :: "bytes \<Rightarrow> stream_frame option" where
  "mobile_decodeTerminalStreamFrame = decode_frame mobile_isTerminalStreamOpcode"

section \<open>The phone's frame handler\<close>

record snapshot_state =
  ts_streamId :: jsnum
  ts_meta :: json
  ts_chunks :: "string list"

type_synonym snapshots = "(jsnum \<times> snapshot_state) list"

datatype stream_output =
    Traffic
  | Listener jsnum "(string \<times> json) list"

definition decodeTerminalStreamJson :: "(bytes \<Rightarrow> string) \<Rightarrow> (string \<Rightarrow> json option) \<Rightarrow> bytes \<Rightarrow> json option" where
  "decodeTerminalStreamJson text_decode json_parse payload = json_parse (text_decode payload)"

text \<open>The own properties that object spread copies: those of an object, the indices of an array or string.\<close>

fun spread :: "json \<Rightarrow> (string \<times> json) list" where
  "spread (JObj ps) = ps"
| "spread (JArr js) = zip (map show_nat [0..<length js]) js"
| "spread (JStr s) = zip (map show_nat [0..<length s]) (map (\<lambda>c. JStr [c]) s)"
| "spread _ = []"

definition with_stream :: "jsnum \<Rightarrow> string \<Rightarrow> (string \<times> json) list \<Rightarrow> (string \<times> json) list" where
  "with_stream streamId kind ps = AList.update ''streamId'' (JNum streamId) (AList.update ''type'' (JStr kind) ps)"

definition handleTerminalBinaryFrame ::
  "(bytes \<Rightarrow> string) \<Rightarrow> (string \<Rightarrow> json option) \<Rightarrow> (jsnum \<Rightarrow> bool) \<Rightarrow> bytes \<Rightarrow> snapshots \<Rightarrow> snapshots \<times> stream_output list" where
  "handleTerminalBinaryFrame text_decode json_parse has_listener bs snaps =
     (case mobile_decodeTerminalStreamFrame bs of
        None \<Rightarrow> (snaps, [])
      | Some f \<Rightarrow>
          (let i = sf_streamId f in
           if \<not> has_listener i then (snaps, [Traffic])
           else (case sf_opcode f of
                   Op_Output \<Rightarrow>
                     (snaps, [Traffic, Listener i [(''type'', JStr ''data''), (''streamId'', JNum i), (''chunk'', JStr (text_decode (sf_payload f)))]])
                 | Op_SnapshotStart \<Rightarrow>
                     (case decodeTerminalStreamJson text_decode json_parse (sf_payload f) of
                        Some meta \<Rightarrow>
                          (if truthy (Some meta)
                           then (AList.update i \<lparr>ts_streamId = i, ts_meta = meta, ts_chunks = []\<rparr> snaps, [Traffic])
                           else (snaps, []))
                      | None \<Rightarrow> (snaps, []))
                 | Op_SnapshotChunk \<Rightarrow>
                     (case map_of snaps i of
                        None \<Rightarrow> (snaps, [Traffic])
                      | Some sn \<Rightarrow>
                          (AList.update i (sn\<lparr>ts_chunks := ts_chunks sn @ [text_decode (sf_payload f)]\<rparr>) snaps, [Traffic]))
                 | Op_SnapshotEnd \<Rightarrow>
                     (case map_of snaps i of
                        None \<Rightarrow> (snaps, [Traffic])
                      | Some sn \<Rightarrow>
                          (AList.delete i snaps,
                           [Traffic, Listener i (AList.update ''serialized'' (JStr (concat (ts_chunks sn)))
                              (with_stream i (if jprop (ts_meta sn) ''kind'' = Some (JStr ''resized'') then ''resized'' else ''scrollback'')
                                 (spread (ts_meta sn))))]))
                 | Op_Resized \<Rightarrow>
                     (case decodeTerminalStreamJson text_decode json_parse (sf_payload f) of
                        Some meta \<Rightarrow>
                          (snaps, if truthy (Some meta) then [Traffic, Listener i (with_stream i ''resized'' (spread meta))] else [])
                      | None \<Rightarrow> (snaps, []))
                 | Op_Metadata \<Rightarrow>
                     (case decodeTerminalStreamJson text_decode json_parse (sf_payload f) of
                        Some meta \<Rightarrow>
                          (snaps, if truthy (Some meta) then [Traffic, Listener i (with_stream i ''metadata'' (spread meta))] else [])
                      | None \<Rightarrow> (snaps, []))
                 | Op_Error \<Rightarrow>
                     (snaps, [Traffic, Listener i [(''type'', JStr ''error''), (''streamId'', JNum i), (''message'', JStr (text_decode (sf_payload f)))]])
                 | _ \<Rightarrow> (snaps, []))))"

fun handle_frames ::
  "(bytes \<Rightarrow> string) \<Rightarrow> (string \<Rightarrow> json option) \<Rightarrow> (jsnum \<Rightarrow> bool) \<Rightarrow> bytes list \<Rightarrow> snapshots \<Rightarrow> snapshots \<times> stream_output list" where
  "handle_frames text_decode json_parse has_listener [] snaps = (snaps, [])"
| "handle_frames text_decode json_parse has_listener (bs # bss) snaps =
     (let (s1, o1) = handleTerminalBinaryFrame text_decode json_parse has_listener bs snaps;
          (s2, o2) = handle_frames text_decode json_parse has_listener bss s1
      in (s2, o1 @ o2))"

section \<open>The codec\<close>

text \<open>The number that a frame's \<open>seq\<close> is sent as: its floor, not below zero, modulo \<open>2 ^ 64\<close>.\<close>

fun wire_seq :: "jsnum \<Rightarrow> nat" where
  "wire_seq (Fin r) = nat \<lfloor>r\<rfloor> mod 2 ^ 64"
| "wire_seq _ = 0"

definition wire_form :: "stream_frame \<Rightarrow> stream_frame" where
  "wire_form f = f\<lparr>sf_streamId := Fin (of_nat (to_uint32 (sf_streamId f))), sf_seq := Fin (of_nat (wire_seq (sf_seq f)))\<rparr>"

text \<open>The frames the program sends: a 32-bit stream id and a safe, non-negative integer as number.\<close>

definition frame_ok :: "stream_frame \<Rightarrow> bool" where
  "frame_ok f \<longleftrightarrow> (\<exists>i < 2 ^ 32. sf_streamId f = Fin (of_nat i)) \<and> (\<exists>n < 2 ^ 53. sf_seq f = Fin (of_nat n))"

lemma split_seq:
  defines "sq \<equiv> \<lambda>n. max_zero (math_floor n)"
  shows "to_uint32 (math_floor (num_divide (sq n) 0x100000000)) * 0x100000000 + to_uint32 (sq n) = wire_seq n"
proof (cases n)
  case (Fin r)
  define m where "m = nat \<lfloor>r\<rfloor>"
  have s: "sq n = Fin (of_nat m)" by (simp add: sq_def Fin m_def max_def)
  have "math_floor (num_divide (sq n) 0x100000000) = Fin (of_nat (m div 2 ^ 32))"
    using floor_divide_of_nat_eq [of m "2 ^ 32", where 'a = rat] by (simp add: s)
  then have "to_uint32 (math_floor (num_divide (sq n) 0x100000000)) * 0x100000000 + to_uint32 (sq n)
      = (m div 2 ^ 32 mod 2 ^ 32) * 2 ^ 32 + m mod 2 ^ 32"
    by (simp only: s to_uint32_nat) simp
  also have "\<dots> = m mod (2 ^ 32 * 2 ^ 32)" by (simp only: mod_mult2_eq) (simp add: algebra_simps)
  finally show ?thesis by (simp add: Fin m_def)
qed (simp_all add: sq_def)

lemma getUint32_layout:
  assumes "length h = 4" "x < 2 ^ 32" "y < 2 ^ 32" "z < 2 ^ 32"
  shows "getUint32 4 (h @ le_bytes 4 x @ le_bytes 4 y @ le_bytes 4 z @ p) = x"
    and "getUint32 8 (h @ le_bytes 4 x @ le_bytes 4 y @ le_bytes 4 z @ p) = y"
    and "getUint32 12 (h @ le_bytes 4 x @ le_bytes 4 y @ le_bytes 4 z @ p) = z"
  using assms by (simp_all add: getUint32_def le_value_le_bytes)

lemma is_opcode_value [simp]:
  "isTerminalStreamOpcode (unat (word_of_nat (opcode_value oc) :: byte)) = Some oc"
  "mobile_isTerminalStreamOpcode (unat (word_of_nat (opcode_value oc) :: byte)) = (if oc \<in> set mobile_opcodes then Some oc else None)"
  by (cases oc; simp add: isTerminalStreamOpcode_def all_opcodes_def mobile_isTerminalStreamOpcode_def mobile_opcodes_def)+

lemma decode_frame_encode:
  "decode_frame is_opcode (encodeTerminalStreamFrame f) =
     map_option (\<lambda>oc. (wire_form f)\<lparr>sf_opcode := oc\<rparr>) (is_opcode (unat (word_of_nat (opcode_value (sf_opcode f)) :: byte)))"
proof -
  define sq where "sq = max_zero (math_floor (sf_seq f))"
  let ?h = "[0x74, 1, word_of_nat (opcode_value (sf_opcode f)), 0] :: bytes"
  let ?bs = "encodeTerminalStreamFrame f"
  have bs: "?bs = ?h @ le_bytes 4 (to_uint32 (sf_streamId f)) @ le_bytes 4 (to_uint32 (math_floor (num_divide sq 0x100000000))) @
      le_bytes 4 (to_uint32 sq) @ sf_payload f"
    by (simp add: encodeTerminalStreamFrame_def sq_def Let_def)
  have len: "length ?h = 4" by simp
  have g: "getUint32 4 ?bs = to_uint32 (sf_streamId f)"
      "getUint32 8 ?bs * 0x100000000 + getUint32 12 ?bs = wire_seq (sf_seq f)"
    unfolding bs getUint32_layout [OF len to_uint32_bound to_uint32_bound to_uint32_bound] by (simp_all add: split_seq sq_def)
  have "\<not> length ?bs < HEADER_BYTES" "?bs ! 0 = 0x74" "?bs ! 1 = 1" "?bs ! 2 = word_of_nat (opcode_value (sf_opcode f))"
      "drop HEADER_BYTES ?bs = sf_payload f"
    unfolding bs by (simp_all add: HEADER_BYTES_def)
  with g show ?thesis
    by (simp add: decode_frame_def wire_form_def split: option.split)
qed

lemma wire_form_ok: "frame_ok f \<Longrightarrow> wire_form f = f"
  by (cases f) (auto simp: frame_ok_def wire_form_def)

lemma decode_encode_frame [simp]: "decodeTerminalStreamFrame (encodeTerminalStreamFrame f) = Some (wire_form f)"
  by (cases f) (simp add: decodeTerminalStreamFrame_def decode_frame_encode wire_form_def)

lemma mobile_decode_encode_frame [simp]:
  "mobile_decodeTerminalStreamFrame (encodeTerminalStreamFrame f) = (if sf_opcode f \<in> set mobile_opcodes then Some (wire_form f) else None)"
  by (cases f) (simp add: mobile_decodeTerminalStreamFrame_def decode_frame_encode wire_form_def)

interpretation terminal_frames: codec encodeTerminalStreamFrame decodeTerminalStreamFrame frame_ok
  by unfold_locales (simp add: wire_form_ok)

interpretation mobile_frames: codec encodeTerminalStreamFrame mobile_decodeTerminalStreamFrame "\<lambda>f. frame_ok f \<and> sf_opcode f \<in> set mobile_opcodes"
  by unfold_locales (simp add: wire_form_ok)


text \<open>
  Property C33. The frame codec round-trips and the two copies agree. Decoding an encoded frame gives back its
  opcode and payload, its stream id as the 32-bit number it was written as and its number as the floor
  modulo \<open>2 ^ 64\<close>; for a 32-bit stream id and a safe non-negative integer that is the frame itself. The phone's
  copy decodes the same frame exactly when it knows the opcode and otherwise drops it.
\<close>

theorem terminal_frames_roundtrip:
  "decodeTerminalStreamFrame (encodeTerminalStreamFrame f) = Some (wire_form f) \<and>
   (frame_ok f \<longrightarrow> decodeTerminalStreamFrame (encodeTerminalStreamFrame f) = Some f) \<and>
   mobile_decodeTerminalStreamFrame (encodeTerminalStreamFrame f) =
     (if sf_opcode f \<in> set mobile_opcodes then decodeTerminalStreamFrame (encodeTerminalStreamFrame f) else None)"
  using terminal_frames.decode_encode [of f] by simp

definition sample_frame :: stream_frame where
  "sample_frame = \<lparr>sf_opcode = Op_Ack, sf_streamId = Fin 3, sf_seq = Fin 4294967297, sf_payload = [1, 2]\<rparr>"

theorem terminal_frames_roundtrip_witness:
  "decodeTerminalStreamFrame (encodeTerminalStreamFrame sample_frame) = Some sample_frame \<and>
   mobile_decodeTerminalStreamFrame (encodeTerminalStreamFrame sample_frame) = None"
proof -
  have "sf_streamId sample_frame = Fin (of_nat 3)" "sf_seq sample_frame = Fin (of_nat 4294967297)" by (simp_all add: sample_frame_def)
  then have "frame_ok sample_frame"
    unfolding frame_ok_def by (intro conjI exI [of _ 3] exI [of _ 4294967297]) simp_all
  with terminal_frames_roundtrip [of sample_frame] show ?thesis by (simp add: sample_frame_def mobile_opcodes_def)
qed

section \<open>Snapshots\<close>

text \<open>What the listener of a stream is called with, and the frames of a stream.\<close>

definition calls :: "jsnum \<Rightarrow> stream_output list \<Rightarrow> (string \<times> json) list list" where
  "calls i out = concat (map (\<lambda>e. case e of Listener j v \<Rightarrow> (if j = i then [v] else []) | Traffic \<Rightarrow> []) out)"

definition for_stream :: "jsnum \<Rightarrow> bytes \<Rightarrow> bool" where
  "for_stream i bs \<longleftrightarrow> (case mobile_decodeTerminalStreamFrame bs of Some f \<Rightarrow> sf_streamId f = i | None \<Rightarrow> False)"

lemma calls_simps [simp]: "calls i [] = []" "calls i (Traffic # out) = calls i out"
  "calls i (Listener j v # out) = (if j = i then [v] else []) @ calls i out" "calls i (xs @ ys) = calls i xs @ calls i ys"
  by (simp_all add: calls_def)

text \<open>A frame of another stream neither reaches the listener nor touches the snapshot of this one.\<close>

lemma other_stream:
  assumes "\<not> for_stream i bs" "handleTerminalBinaryFrame td jp hl bs snaps = (snaps', out)"
  shows "map_of snaps' i = map_of snaps i" "calls i out = []"
proof -
  have "map_of snaps' i = map_of snaps i \<and> calls i out = []"
  proof (cases "mobile_decodeTerminalStreamFrame bs")
    case (Some f)
    with assms(1) have "sf_streamId f \<noteq> i" by (simp add: for_stream_def)
    with assms(2) Some show ?thesis
      by (cases "sf_opcode f") (auto simp: handleTerminalBinaryFrame_def Let_def split: if_splits option.splits)
  qed (use assms(2) in \<open>simp add: handleTerminalBinaryFrame_def\<close>)
  then show "map_of snaps' i = map_of snaps i" "calls i out = []" by simp_all
qed

text \<open>What a frame does to its own stream depends on the snapshot map only at that stream.\<close>

lemma own_stream:
  assumes "for_stream i bs" "map_of s i = map_of t i"
    and "handleTerminalBinaryFrame td jp hl bs s = (s', out)" "handleTerminalBinaryFrame td jp hl bs t = (t', out')"
  shows "map_of s' i = map_of t' i \<and> out = out'"
proof -
  from assms(1) obtain f where f: "mobile_decodeTerminalStreamFrame bs = Some f" "sf_streamId f = i"
    by (auto simp: for_stream_def split: option.splits)
  with assms(2-4) show ?thesis
    by (cases "sf_opcode f") (auto simp: handleTerminalBinaryFrame_def Let_def split: if_splits option.splits)
qed

lemma streams_are_independent:
  "map_of s i = map_of t i \<Longrightarrow>
   map_of (fst (handle_frames td jp hl bss s)) i = map_of (fst (handle_frames td jp hl (filter (for_stream i) bss) t)) i \<and>
   calls i (snd (handle_frames td jp hl bss s)) = calls i (snd (handle_frames td jp hl (filter (for_stream i) bss) t))"
proof (induction bss arbitrary: s t)
  case (Cons b bss)
  obtain s' o1 where s: "handleTerminalBinaryFrame td jp hl b s = (s', o1)" by fastforce
  obtain t' o2 where t: "handleTerminalBinaryFrame td jp hl b t = (t', o2)" by fastforce
  show ?case
  proof (cases "for_stream i b")
    case True
    from own_stream [OF this Cons.prems s t] Cons.IH [of s' t'] s t True show ?thesis by (simp add: split_beta)
  next
    case False
    from other_stream [OF this s] Cons.prems Cons.IH [of s' t] s False show ?thesis by (simp add: split_beta)
  qed
qed simp

text \<open>The frames of one snapshot: its description, its chunks and its end, all numbered by the sender.\<close>

definition snapshot_frame :: "nat \<Rightarrow> jsnum \<Rightarrow> opcode \<Rightarrow> bytes \<Rightarrow> bytes" where
  "snapshot_frame n sq oc p = encodeTerminalStreamFrame \<lparr>sf_opcode = oc, sf_streamId = Fin (of_nat n), sf_seq = sq, sf_payload = p\<rparr>"

definition snapshot_frames :: "nat \<Rightarrow> jsnum \<Rightarrow> bytes \<Rightarrow> (jsnum \<times> bytes) list \<Rightarrow> bytes list" where
  "snapshot_frames n sq p chunks =
     snapshot_frame n sq Op_SnapshotStart p # map (\<lambda>(k, q). snapshot_frame n k Op_SnapshotChunk q) chunks @
     [snapshot_frame n sq Op_SnapshotEnd []]"

lemma start_frame:
  assumes "n < 2 ^ 32" "hl (Fin (of_nat n))" "jp (td p) = Some meta" "truthy (Some meta)"
  shows "handleTerminalBinaryFrame td jp hl (snapshot_frame n sq Op_SnapshotStart p) snaps =
    (AList.update (Fin (of_nat n)) \<lparr>ts_streamId = Fin (of_nat n), ts_meta = meta, ts_chunks = []\<rparr> snaps, [Traffic])"
  using assms by (simp add: handleTerminalBinaryFrame_def snapshot_frame_def wire_form_def mobile_opcodes_def decodeTerminalStreamJson_def Let_def)

lemma chunk_frame:
  assumes "n < 2 ^ 32" "hl (Fin (of_nat n))" "map_of snaps (Fin (of_nat n)) = Some sn"
  shows "handleTerminalBinaryFrame td jp hl (snapshot_frame n k Op_SnapshotChunk q) snaps =
    (AList.update (Fin (of_nat n)) (sn\<lparr>ts_chunks := ts_chunks sn @ [td q]\<rparr>) snaps, [Traffic])"
  using assms by (simp add: handleTerminalBinaryFrame_def snapshot_frame_def wire_form_def mobile_opcodes_def)

definition snapshot_call :: "jsnum \<Rightarrow> json \<Rightarrow> string \<Rightarrow> (string \<times> json) list" where
  "snapshot_call i meta content =
     AList.update ''serialized'' (JStr content)
       (with_stream i (if jprop meta ''kind'' = Some (JStr ''resized'') then ''resized'' else ''scrollback'') (spread meta))"

lemma end_frame:
  assumes "n < 2 ^ 32" "hl (Fin (of_nat n))" "map_of snaps (Fin (of_nat n)) = Some sn"
  shows "handleTerminalBinaryFrame td jp hl (snapshot_frame n k Op_SnapshotEnd q) snaps =
    (AList.delete (Fin (of_nat n)) snaps, [Traffic, Listener (Fin (of_nat n)) (snapshot_call (Fin (of_nat n)) (ts_meta sn) (concat (ts_chunks sn)))])"
  using assms by (simp add: handleTerminalBinaryFrame_def snapshot_frame_def wire_form_def mobile_opcodes_def snapshot_call_def Let_def)

lemma chunks_then_end:
  assumes "n < 2 ^ 32" "hl (Fin (of_nat n))"
  shows "map_of snaps (Fin (of_nat n)) = Some sn \<Longrightarrow>
    calls (Fin (of_nat n)) (snd (handle_frames td jp hl
      (map (\<lambda>(k, q). snapshot_frame n k Op_SnapshotChunk q) chunks @ [snapshot_frame n sq Op_SnapshotEnd []]) snaps)) =
    [snapshot_call (Fin (of_nat n)) (ts_meta sn) (concat (ts_chunks sn @ map (td \<circ> snd) chunks))]"
proof (induction chunks arbitrary: snaps sn)
  case Nil
  then show ?case by (simp add: end_frame [where hl = hl, OF assms])
next
  case (Cons c chunks)
  show ?case
    using Cons.IH [of "AList.update (Fin (of_nat n)) (sn\<lparr>ts_chunks := ts_chunks sn @ [td (snd c)]\<rparr>) snaps"
        "sn\<lparr>ts_chunks := ts_chunks sn @ [td (snd c)]\<rparr>"]
    by (cases c) (simp add: chunk_frame [where hl = hl, OF assms Cons.prems] split_beta)
qed

text \<open>
  Snapshots are reassembled whatever else arrives. When the frames of a stream among those that
  arrive are a description, any number of chunks and an end, its listener is called exactly once, with the
  fields of the description and the texts of the chunks joined in order, however many frames of other
  streams, malformed frames and unknown opcodes come between, and whatever snapshots were open before.
\<close>

theorem snapshot_is_reassembled:
  assumes "n < 2 ^ 32" "hl (Fin (of_nat n))" "jp (td p) = Some meta" "truthy (Some meta)"
    and "filter (for_stream (Fin (of_nat n))) bss = snapshot_frames n sq p chunks"
  shows "calls (Fin (of_nat n)) (snd (handle_frames td jp hl bss snaps)) =
    [snapshot_call (Fin (of_nat n)) meta (concat (map (td \<circ> snd) chunks))]"
proof -
  let ?i = "Fin (of_nat n)" and ?sn = "\<lparr>ts_streamId = Fin (of_nat n), ts_meta = meta, ts_chunks = []\<rparr>"
  have "calls ?i (snd (handle_frames td jp hl bss snaps)) = calls ?i (snd (handle_frames td jp hl (snapshot_frames n sq p chunks) snaps))"
    using streams_are_independent [of snaps ?i snaps td jp hl bss] assms(5) by simp
  also have "\<dots> = [snapshot_call ?i meta (concat (map (td \<circ> snd) chunks))]"
    using chunks_then_end [where hl = hl, OF assms(1,2), where snaps = "AList.update ?i ?sn snaps" and sn = ?sn]
    by (simp add: snapshot_frames_def start_frame [where hl = hl and jp = jp and td = td, OF assms(1-4)] split_beta)
  finally show ?thesis .
qed

definition ascii_decode :: "bytes \<Rightarrow> string" where
  "ascii_decode = map (\<lambda>b. char_of (unat b))"

definition mixed_frames :: "bytes list" where
  "mixed_frames =
     [snapshot_frame 2 (Fin 0) Op_SnapshotStart [97], [0], snapshot_frame 5 (Fin 0) Op_Output [98],
      snapshot_frame 2 (Fin 1) Op_SnapshotChunk [99], snapshot_frame 2 (Fin 9) Op_Ack [], snapshot_frame 2 (Fin 0) Op_SnapshotEnd []]"

lemma for_stream_snapshot:
  "n < 2 ^ 32 \<Longrightarrow> for_stream (Fin (of_nat m)) (snapshot_frame n sq oc p) \<longleftrightarrow> oc \<in> set mobile_opcodes \<and> n = m"
  by (simp add: for_stream_def snapshot_frame_def wire_form_def)

theorem snapshot_is_reassembled_witness:
  "calls (Fin (of_nat 2)) (snd (handle_frames ascii_decode (\<lambda>_. Some (JObj [(''cols'', JNum (Fin 80))])) (\<lambda>_. True) mixed_frames [])) =
     [[(''cols'', JNum (Fin 80)), (''type'', JStr ''scrollback''), (''streamId'', JNum (Fin 2)), (''serialized'', JStr ''c'')]]"
proof -
  have "\<not> for_stream (Fin (of_nat 2)) [0]"
    by (simp add: for_stream_def mobile_decodeTerminalStreamFrame_def decode_frame_def HEADER_BYTES_def)
  then have "filter (for_stream (Fin (of_nat 2))) mixed_frames = snapshot_frames 2 (Fin 0) [97] [(Fin 1, [99])]"
    using for_stream_snapshot [of _ 2] by (simp add: mixed_frames_def snapshot_frames_def mobile_opcodes_def)
  from snapshot_is_reassembled [OF _ _ _ _ this, of "\<lambda>_. True" "\<lambda>_. Some (JObj [(''cols'', JNum (Fin 80))])" ascii_decode "JObj [(''cols'', JNum (Fin 80))]" "[]"]
  show ?thesis by (simp add: snapshot_call_def with_stream_def ascii_decode_def char_of_def bit_iff_odd)
qed

end
