(* ===== verification/Relay_Auth.thy ===== *)
theory Relay_Auth
  imports Relay_Prelude
begin

text \<open>
  The coordinator of the desktop's relay session,
  \<open>src/pie-mobile/upstream/src/main/runtime/relay/relay-auth-coordinator.ts\<close>: it follows the signed-in identity
  and the demand for the relay, and owns at most one broker (an open relay session) at a time, although
  reading the identity and opening a broker are asynchronous and may be overtaken.

  \<open>BrokerOwnership\<close> objects are shared between the coordinator, the pending openings and the callbacks of a
  broker, so they live in a store and are named by their index. A suspended \<open>async\<close> function is a task; the
  step relation \<open>coord_step\<close> has one rule for each method that is called and for each suspended call that
  resumes, and every interleaving is a run of it. The demand callback is evaluated when the code calls it, so
  its answer is part of the step. The callbacks \<open>onStatus\<close> and \<open>closeNow\<close> are recorded in the state; they do not
  call back into the coordinator.
\<close>

section \<open>State\<close>

record auth_identity =
  ai_userId :: string
  ai_profileId :: string
  ai_organizationId :: string

record auth_context =
  ac_identity :: auth_identity
  ac_accessToken :: string
  ac_relayEntitled :: bool

record ownership =
  ow_identityKey :: string
  ow_broker :: "nat option"
  ow_valid :: bool

datatype broker_status = Offline | Standby | Connecting | Registered

text \<open>The suspended calls: of \<open>reconcileEpoch\<close> at its two awaits, and of \<open>refreshAccessToken\<close>.\<close>

datatype coord_task =
    Reading_Context nat
  | Opening_Broker nat nat
  | Refreshing nat nat

record coordinator =
  co_authEpoch :: nat
  co_store :: "ownership list"
  co_ownership :: "nat option"
  co_pendingOwnerships :: "nat list"
  co_lingerTimer :: "(auth_context \<times> nat) option"
  co_stopped :: bool
  co_tasks :: "coord_task list"
  co_statuses :: "broker_status list"
  co_opened :: "(nat \<times> string) list"
  co_closed :: "nat list"
  co_granted :: "(nat \<times> auth_context) list"

definition coordinator_new :: coordinator where
  "coordinator_new = \<lparr>co_authEpoch = 0, co_store = [], co_ownership = None, co_pendingOwnerships = [], co_lingerTimer = None,
     co_stopped = False, co_tasks = [], co_statuses = [], co_opened = [], co_closed = [], co_granted = []\<rparr>"

definition identityKey :: "auth_identity \<Rightarrow> string" where
  "identityKey i = ai_userId i @ [CHR 0x00] @ ai_profileId i @ [CHR 0x00] @ ai_organizationId i"

section \<open>Operations\<close>

definition onStatus :: "broker_status \<Rightarrow> coordinator \<Rightarrow> coordinator" where
  "onStatus st s = s\<lparr>co_statuses := co_statuses s @ [st]\<rparr>"

definition closeNow :: "nat option \<Rightarrow> coordinator \<Rightarrow> coordinator" where
  "closeNow b s = (case b of Some b \<Rightarrow> s\<lparr>co_closed := b # co_closed s\<rparr> | None \<Rightarrow> s)"

definition invalidate :: "nat \<Rightarrow> coordinator \<Rightarrow> coordinator" where
  "invalidate r s = s\<lparr>co_store := (co_store s)[r := (co_store s ! r)\<lparr>ow_valid := False\<rparr>]\<rparr>"

definition invalidateOwnership :: "coordinator \<Rightarrow> coordinator" where
  "invalidateOwnership s =
     (case co_ownership s of
        None \<Rightarrow> s
      | Some r \<Rightarrow> closeNow (ow_broker (co_store s ! r)) (invalidate r (s\<lparr>co_ownership := None\<rparr>)))"

definition invalidatePendingOwnerships :: "coordinator \<Rightarrow> coordinator" where
  "invalidatePendingOwnerships s = (fold invalidate (co_pendingOwnerships s) s)\<lparr>co_pendingOwnerships := []\<rparr>"

definition isEpochCurrent :: "nat \<Rightarrow> coordinator \<Rightarrow> bool" where
  "isEpochCurrent epoch s \<longleftrightarrow> \<not> co_stopped s \<and> co_authEpoch s = epoch"

definition cancelLinger :: "coordinator \<Rightarrow> coordinator" where
  "cancelLinger s = s\<lparr>co_lingerTimer := None\<rparr>"

definition scheduleLinger :: "auth_context \<Rightarrow> nat \<Rightarrow> coordinator \<Rightarrow> coordinator" where
  "scheduleLinger ctx r s = (if co_lingerTimer s \<noteq> None then s else s\<lparr>co_lingerTimer := Some (ctx, r)\<rparr>)"

text \<open>The ownership that the coordinator holds, when it is still valid.\<close>

definition valid_ownership :: "coordinator \<Rightarrow> nat option" where
  "valid_ownership s =
     (case co_ownership s of Some r \<Rightarrow> (if ow_valid (co_store s ! r) then Some r else None) | None \<Rightarrow> None)"

definition getActiveBroker :: "coordinator \<Rightarrow> nat option" where
  "getActiveBroker s = (case valid_ownership s of Some r \<Rightarrow> ow_broker (co_store s ! r) | None \<Rightarrow> None)"

text \<open>\<open>reconcile\<close> starts \<open>reconcileEpoch\<close>, which runs up to its first await.\<close>

definition reconcile :: "coordinator \<Rightarrow> coordinator" where
  "reconcile s =
     (if co_stopped s then s
      else (let s1 = invalidatePendingOwnerships (s\<lparr>co_authEpoch := Suc (co_authEpoch s)\<rparr>)
            in s1\<lparr>co_tasks := co_tasks s1 @ [Reading_Context (co_authEpoch s1)]\<rparr>))"

definition fenceAndCloseNow :: "coordinator \<Rightarrow> coordinator" where
  "fenceAndCloseNow s =
     onStatus Offline (invalidateOwnership (invalidatePendingOwnerships (cancelLinger (s\<lparr>co_authEpoch := Suc (co_authEpoch s)\<rparr>))))"

definition coord_stop :: "coordinator \<Rightarrow> coordinator" where
  "coord_stop s = fenceAndCloseNow (s\<lparr>co_stopped := True\<rparr>)"

text \<open>\<open>reconcileEpoch\<close> after \<open>readContext\<close>: \<open>None\<close> for a rejected promise, \<open>Some None\<close> for no context.\<close>

definition no_demand :: "auth_context \<Rightarrow> coordinator \<Rightarrow> coordinator" where
  "no_demand ctx s =
     onStatus Standby
       (case valid_ownership s of
          None \<Rightarrow> s
        | Some r \<Rightarrow>
            (if ow_identityKey (co_store s ! r) \<noteq> identityKey (ac_identity ctx) then invalidateOwnership (cancelLinger s)
             else scheduleLinger ctx r s))"

definition open_new :: "nat \<Rightarrow> string \<Rightarrow> coordinator \<Rightarrow> coordinator" where
  "open_new epoch key s =
     (let s1 = onStatus Connecting (invalidateOwnership s); r = length (co_store s1)
      in s1\<lparr>co_store := co_store s1 @ [\<lparr>ow_identityKey = key, ow_broker = None, ow_valid = True\<rparr>],
            co_pendingOwnerships := co_pendingOwnerships s1 @ [r],
            co_tasks := co_tasks s1 @ [Opening_Broker epoch r]\<rparr>)"

definition context_read :: "nat \<Rightarrow> auth_context option option \<Rightarrow> bool \<Rightarrow> coordinator \<Rightarrow> coordinator" where
  "context_read epoch result demand s0 =
     (let s = s0\<lparr>co_tasks := remove1 (Reading_Context epoch) (co_tasks s0)\<rparr>
      in if \<not> isEpochCurrent epoch s then s
         else (case result of
                 None \<Rightarrow> onStatus Offline s
               | Some None \<Rightarrow> onStatus Offline (invalidateOwnership (cancelLinger s))
               | Some (Some ctx) \<Rightarrow>
                   (if \<not> ac_relayEntitled ctx then onStatus Offline (invalidateOwnership (cancelLinger s))
                    else if \<not> demand then no_demand ctx s
                    else (let s1 = cancelLinger s; key = identityKey (ac_identity ctx)
                          in case valid_ownership s1 of
                               Some r \<Rightarrow>
                                 (if ow_identityKey (co_store s1 ! r) = key then onStatus Registered s1 else open_new epoch key s1)
                             | None \<Rightarrow> open_new epoch key s1))))"

text \<open>\<open>reconcileEpoch\<close> after \<open>openBroker\<close>: a broker, or \<open>None\<close> for a rejected promise.\<close>

definition broker_opened :: "nat \<Rightarrow> nat \<Rightarrow> nat option \<Rightarrow> coordinator \<Rightarrow> coordinator" where
  "broker_opened epoch r result s0 =
     (let s = s0\<lparr>co_tasks := remove1 (Opening_Broker epoch r) (co_tasks s0),
                 co_pendingOwnerships := removeAll r (co_pendingOwnerships s0)\<rparr>
      in case result of
           None \<Rightarrow> (if isEpochCurrent epoch s then onStatus Offline s else s)
         | Some b \<Rightarrow>
             (let s1 = s\<lparr>co_store := (co_store s)[r := (co_store s ! r)\<lparr>ow_broker := Some b\<rparr>],
                         co_opened := (b, ow_identityKey (co_store s ! r)) # co_opened s\<rparr>
              in if \<not> isEpochCurrent epoch s1 \<or> \<not> ow_valid (co_store s1 ! r) then closeNow (Some b) s1
                 else onStatus Registered (s1\<lparr>co_ownership := Some r\<rparr>)))"

text \<open>The linger timer's callback; the timer exists while \<open>co_lingerTimer\<close> is set.\<close>

definition linger_fired :: "nat \<Rightarrow> bool \<Rightarrow> coordinator \<Rightarrow> coordinator" where
  "linger_fired r demand s0 =
     (let s = s0\<lparr>co_lingerTimer := None\<rparr>
      in if co_ownership s = Some r \<and> ow_valid (co_store s ! r) \<and> \<not> demand
         then onStatus Standby (invalidateOwnership s) else s)"

definition refreshAccessToken :: "nat \<Rightarrow> coordinator \<Rightarrow> coordinator" where
  "refreshAccessToken r s =
     (if \<not> ow_valid (co_store s ! r) \<or> co_stopped s then s
      else s\<lparr>co_tasks := co_tasks s @ [Refreshing r (co_authEpoch s)]\<rparr>)"

definition token_read :: "nat \<Rightarrow> nat \<Rightarrow> auth_context option \<Rightarrow> coordinator \<Rightarrow> coordinator" where
  "token_read r epoch result s0 =
     (let s = s0\<lparr>co_tasks := remove1 (Refreshing r epoch) (co_tasks s0)\<rparr>
      in case result of
           None \<Rightarrow> s
         | Some ctx \<Rightarrow>
             (if \<not> ow_valid (co_store s ! r) \<or> \<not> isEpochCurrent epoch s \<or> \<not> ac_relayEntitled ctx \<or>
                 identityKey (ac_identity ctx) \<noteq> ow_identityKey (co_store s ! r)
              then s else s\<lparr>co_granted := (r, ctx) # co_granted s\<rparr>))"

text \<open>The \<open>isCurrent\<close> callback that the broker of an ownership is given.\<close>

definition isCurrent :: "nat \<Rightarrow> nat \<Rightarrow> coordinator \<Rightarrow> bool" where
  "isCurrent epoch r s \<longleftrightarrow>
     ow_valid (co_store s ! r) \<and> \<not> co_stopped s \<and>
     (if ow_broker (co_store s ! r) \<noteq> None then co_ownership s = Some r else isEpochCurrent epoch s)"

section \<open>Steps and runs\<close>

inductive coord_step :: "coordinator \<Rightarrow> coordinator \<Rightarrow> bool" where
  Reconcile: "coord_step s (reconcile s)"
| Fence: "coord_step s (fenceAndCloseNow s)"
| Stop: "coord_step s (coord_stop s)"
| Context: "Reading_Context epoch \<in> set (co_tasks s) \<Longrightarrow> coord_step s (context_read epoch result demand s)"
| Opened: "Opening_Broker epoch r \<in> set (co_tasks s) \<Longrightarrow> b \<notin> fst ` set (co_opened s) \<Longrightarrow> coord_step s (broker_opened epoch r (Some b) s)"
| Open_Failed: "Opening_Broker epoch r \<in> set (co_tasks s) \<Longrightarrow> coord_step s (broker_opened epoch r None s)"
| Linger: "co_lingerTimer s = Some (ctx, r) \<Longrightarrow> coord_step s (linger_fired r demand s)"
| Refresh: "r < length (co_store s) \<Longrightarrow> coord_step s (refreshAccessToken r s)"
| Token: "Refreshing r epoch \<in> set (co_tasks s) \<Longrightarrow> coord_step s (token_read r epoch result s)"

inductive coord_reachable :: "coordinator \<Rightarrow> bool" where
  Start: "coord_reachable coordinator_new"
| Step: "coord_reachable s \<Longrightarrow> coord_step s t \<Longrightarrow> coord_reachable t"

section \<open>Invariant\<close>

fun rec_epoch :: "coord_task \<Rightarrow> nat option" where
  "rec_epoch (Reading_Context e) = Some e"
| "rec_epoch (Opening_Broker e r) = Some e"
| "rec_epoch (Refreshing r e) = None"

definition rec_epochs :: "coordinator \<Rightarrow> nat list" where
  "rec_epochs s = List.map_filter rec_epoch (co_tasks s)"

text \<open>The owned broker is open, known under the ownership's identity and not closed.\<close>

definition own_ok :: "coordinator \<Rightarrow> bool" where
  "own_ok s \<longleftrightarrow> (\<forall>r. co_ownership s = Some r \<longrightarrow> r < length (co_store s) \<and> ow_valid (co_store s ! r) \<and>
     (\<exists>b. ow_broker (co_store s ! r) = Some b \<and> (b, ow_identityKey (co_store s ! r)) \<in> set (co_opened s) \<and> b \<notin> set (co_closed s)))"

definition opened_ok :: "coordinator \<Rightarrow> bool" where
  "opened_ok s \<longleftrightarrow> set (co_closed s) \<subseteq> fst ` set (co_opened s) \<and> distinct (map fst (co_opened s)) \<and>
     (\<forall>b k. (b, k) \<in> set (co_opened s) \<and> b \<notin> set (co_closed s) \<longrightarrow>
       (\<exists>r. co_ownership s = Some r \<and> ow_broker (co_store s ! r) = Some b))"

definition tasks_ok :: "coordinator \<Rightarrow> bool" where
  "tasks_ok s \<longleftrightarrow> distinct (rec_epochs s) \<and> (\<forall>e \<in> set (rec_epochs s). e \<le> co_authEpoch s) \<and>
     (\<forall>e r. Opening_Broker e r \<in> set (co_tasks s) \<longrightarrow> r < length (co_store s) \<and> ow_broker (co_store s ! r) = None \<and>
       (e = co_authEpoch s \<and> \<not> co_stopped s \<longrightarrow> co_ownership s = None)) \<and>
     (\<forall>e e' r. Opening_Broker e r \<in> set (co_tasks s) \<and> Opening_Broker e' r \<in> set (co_tasks s) \<longrightarrow> e = e')"

definition pending_ok :: "coordinator \<Rightarrow> bool" where
  "pending_ok s \<longleftrightarrow> (\<forall>r \<in> set (co_pendingOwnerships s). \<exists>e. Opening_Broker e r \<in> set (co_tasks s))"

definition linger_ok :: "coordinator \<Rightarrow> bool" where
  "linger_ok s \<longleftrightarrow> (\<forall>ctx r. co_lingerTimer s = Some (ctx, r) \<longrightarrow> co_ownership s = Some r)"

definition granted_ok :: "coordinator \<Rightarrow> bool" where
  "granted_ok s \<longleftrightarrow> (\<forall>(r, ctx) \<in> set (co_granted s). r < length (co_store s) \<and> ac_relayEntitled ctx \<and>
     identityKey (ac_identity ctx) = ow_identityKey (co_store s ! r))"

definition coord_inv :: "coordinator \<Rightarrow> bool" where
  "coord_inv s \<longleftrightarrow> own_ok s \<and> opened_ok s \<and> tasks_ok s \<and> pending_ok s \<and> linger_ok s \<and> granted_ok s \<and>
     (\<forall>r e. Refreshing r e \<in> set (co_tasks s) \<longrightarrow> r < length (co_store s))"

lemmas coord_parts = own_ok_def opened_ok_def tasks_ok_def pending_ok_def linger_ok_def granted_ok_def rec_epochs_def

lemma in_map_filter: "t \<in> set ts \<Longrightarrow> f t = Some e \<Longrightarrow> e \<in> set (List.map_filter f ts)"
  by (force simp: map_filter_def)

lemma in_rec_epochs: "t \<in> set (co_tasks s) \<Longrightarrow> rec_epoch t = Some e \<Longrightarrow> e \<in> set (rec_epochs s)"
  by (simp add: rec_epochs_def in_map_filter)

lemma map_filter_remove1:
  assumes "distinct (List.map_filter f ts)"
  shows "distinct (List.map_filter f (remove1 t ts))"
    and "t \<in> set ts \<Longrightarrow> f t = Some e \<Longrightarrow> e \<notin> set (List.map_filter f (remove1 t ts))"
    and "set (List.map_filter f (remove1 t ts)) \<subseteq> set (List.map_filter f ts)"
proof -
  show sub: "set (List.map_filter f (remove1 t ts)) \<subseteq> set (List.map_filter f ts)" for ts
    using set_remove1_subset [of t ts] by (force simp: map_filter_def)
  show "distinct (List.map_filter f (remove1 t ts))"
    using assms by (induction ts) (use sub in \<open>fastforce simp: map_filter_simps split: option.splits if_splits\<close>)+
  show "t \<in> set ts \<Longrightarrow> f t = Some e \<Longrightarrow> e \<notin> set (List.map_filter f (remove1 t ts))"
    using assms by (induction ts) (auto simp: map_filter_simps dest: in_map_filter split: option.splits if_splits)
qed

lemma map_filter_append [simp]: "List.map_filter f (xs @ ys) = List.map_filter f xs @ List.map_filter f ys"
  by (simp add: map_filter_def)

lemma coord_inv_add_reading:
  assumes "coord_inv s" "e \<le> co_authEpoch s" "e \<notin> set (rec_epochs s)"
  shows "coord_inv (s\<lparr>co_tasks := co_tasks s @ [Reading_Context e]\<rparr>)"
  using assms by (auto simp: coord_inv_def coord_parts map_filter_simps)

lemma coord_inv_onStatus [simp]: "coord_inv (onStatus st s) = coord_inv s"
  by (simp add: coord_inv_def coord_parts onStatus_def)

lemma coord_inv_cancelLinger [intro]: "coord_inv s \<Longrightarrow> coord_inv (cancelLinger s)"
  by (simp add: coord_inv_def coord_parts cancelLinger_def)

lemma coord_inv_epoch: "coord_inv s \<Longrightarrow> coord_inv (s\<lparr>co_authEpoch := Suc (co_authEpoch s)\<rparr>)"
  using in_rec_epochs [of "Opening_Broker _ _" s] by (fastforce simp: coord_inv_def coord_parts)

lemma invalidateOwnership_None: "co_ownership (invalidateOwnership s) = None"
  by (simp add: invalidateOwnership_def closeNow_def invalidate_def split: option.split)

lemma coord_inv_invalidateOwnership:
  assumes "coord_inv s" "co_lingerTimer s = None"
  shows "coord_inv (invalidateOwnership s)"
proof (cases "co_ownership s")
  case (Some r)
  then obtain b where b: "ow_broker (co_store s ! r) = Some b" "(b, ow_identityKey (co_store s ! r)) \<in> set (co_opened s)" "r < length (co_store s)"
    using assms(1) by (auto simp: coord_inv_def own_ok_def)
  have e: "invalidateOwnership s = s\<lparr>co_ownership := None, co_store := (co_store s)[r := (co_store s ! r)\<lparr>ow_valid := False\<rparr>],
      co_closed := b # co_closed s\<rparr>"
    by (simp add: invalidateOwnership_def Some closeNow_def invalidate_def b)
  have "b \<in> fst ` set (co_opened s)" using b(2) by force
  with assms Some b show ?thesis
    unfolding e by (auto simp: coord_inv_def coord_parts nth_list_update)
qed (simp add: assms invalidateOwnership_def)

text \<open>Invalidating pending ownerships only clears validity flags of ownerships without a broker.\<close>

definition same_but_valid :: "nat set \<Rightarrow> ownership list \<Rightarrow> ownership list \<Rightarrow> bool" where
  "same_but_valid rs os os' \<longleftrightarrow> length os' = length os \<and> (\<forall>r < length os.
     ow_broker (os' ! r) = ow_broker (os ! r) \<and> ow_identityKey (os' ! r) = ow_identityKey (os ! r) \<and>
     (r \<notin> rs \<longrightarrow> ow_valid (os' ! r) = ow_valid (os ! r)))"

lemma fold_invalidate: "\<exists>os'. fold invalidate rs s = s\<lparr>co_store := os'\<rparr> \<and> same_but_valid (set rs) (co_store s) os'"
proof (induction rs arbitrary: s)
  case Nil
  have "s = s\<lparr>co_store := co_store s\<rparr>" by simp
  then show ?case by (force simp: same_but_valid_def)
next
  case (Cons r rs)
  from Cons.IH [of "invalidate r s"] obtain os' where e: "fold invalidate rs (invalidate r s) = (invalidate r s)\<lparr>co_store := os'\<rparr>"
    and sbv: "same_but_valid (set rs) (co_store (invalidate r s)) os'" by blast
  have "fold invalidate (r # rs) s = s\<lparr>co_store := os'\<rparr>" by (simp add: e) (simp add: invalidate_def)
  moreover have "same_but_valid (set (r # rs)) (co_store s) os'"
    using sbv unfolding same_but_valid_def invalidate_def 
    by (cases "r < length (co_store s)") (auto simp: nth_list_update list_update_beyond)
  ultimately show ?case by blast
qed

lemma coord_inv_invalidatePending:
  assumes "coord_inv s"
  shows "coord_inv (invalidatePendingOwnerships s)"
proof -
  obtain os' where e: "fold invalidate (co_pendingOwnerships s) s = s\<lparr>co_store := os'\<rparr>"
    and sbv: "same_but_valid (set (co_pendingOwnerships s)) (co_store s) os'" using fold_invalidate by blast
  have p: "r \<notin> set (co_pendingOwnerships s)" if "co_ownership s = Some r" for r
    using assms that by (fastforce simp: coord_inv_def own_ok_def pending_ok_def tasks_ok_def)
  have "own_ok s" using assms by (simp add: coord_inv_def)
  then have own: "own_ok (s\<lparr>co_store := os', co_pendingOwnerships := []\<rparr>)"
    using p sbv by (auto simp: own_ok_def same_but_valid_def)
  have "opened_ok (s\<lparr>co_store := os', co_pendingOwnerships := []\<rparr>)"
  proof -
    have o: "opened_ok s" using assms by (simp add: coord_inv_def)
    have "ow_broker (os' ! r) = ow_broker (co_store s ! r)" if "co_ownership s = Some r" for r
      using \<open>own_ok s\<close> sbv that by (simp add: own_ok_def same_but_valid_def)
    with o show ?thesis unfolding opened_ok_def by (simp, metis)
  qed
  moreover have "tasks_ok (s\<lparr>co_store := os', co_pendingOwnerships := []\<rparr>)"
    using assms sbv by (auto simp: coord_inv_def tasks_ok_def rec_epochs_def same_but_valid_def)
  moreover have "granted_ok (s\<lparr>co_store := os', co_pendingOwnerships := []\<rparr>)"
    using assms sbv by (auto simp: coord_inv_def granted_ok_def same_but_valid_def)
  ultimately show ?thesis
    using own assms sbv unfolding invalidatePendingOwnerships_def e
    by (simp add: coord_inv_def pending_ok_def linger_ok_def same_but_valid_def)
qed

lemma pending_frame [simp]:
  "co_authEpoch (invalidatePendingOwnerships s) = co_authEpoch s" "co_tasks (invalidatePendingOwnerships s) = co_tasks s"
  "co_lingerTimer (invalidatePendingOwnerships s) = co_lingerTimer s" "co_stopped (invalidatePendingOwnerships s) = co_stopped s"
  "co_pendingOwnerships (invalidatePendingOwnerships s) = []" "co_ownership (invalidatePendingOwnerships s) = co_ownership s"
  using fold_invalidate [of "co_pendingOwnerships s" s] by (auto simp: invalidatePendingOwnerships_def)

lemma ownership_frame [simp]:
  "co_authEpoch (invalidateOwnership s) = co_authEpoch s" "co_tasks (invalidateOwnership s) = co_tasks s"
  "co_lingerTimer (invalidateOwnership s) = co_lingerTimer s" "co_stopped (invalidateOwnership s) = co_stopped s"
  "co_pendingOwnerships (invalidateOwnership s) = co_pendingOwnerships s" "length (co_store (invalidateOwnership s)) = length (co_store s)"
  by (simp_all add: invalidateOwnership_def closeNow_def invalidate_def split: option.split)

lemma status_frame [simp]:
  "co_ownership (onStatus st s) = co_ownership s" "co_stopped (onStatus st s) = co_stopped s" "co_tasks (onStatus st s) = co_tasks s"
  "co_authEpoch (onStatus st s) = co_authEpoch s" "co_lingerTimer (onStatus st s) = co_lingerTimer s" "co_store (onStatus st s) = co_store s"
  "co_lingerTimer (cancelLinger s) = None" "co_ownership (cancelLinger s) = co_ownership s" "co_stopped (cancelLinger s) = co_stopped s"
  "co_authEpoch (cancelLinger s) = co_authEpoch s" "co_tasks (cancelLinger s) = co_tasks s" "co_store (cancelLinger s) = co_store s"
  by (simp_all add: onStatus_def cancelLinger_def)

section \<open>Every step keeps the invariant\<close>

lemma coord_inv_reconcile:
  assumes "coord_inv s"
  shows "coord_inv (reconcile s)"
proof (cases "co_stopped s")
  case False
  let ?s1 = "invalidatePendingOwnerships (s\<lparr>co_authEpoch := Suc (co_authEpoch s)\<rparr>)"
  have inv: "coord_inv ?s1" using assms by (intro coord_inv_invalidatePending coord_inv_epoch)
  have "\<forall>e \<in> set (rec_epochs s). e \<le> co_authEpoch s" using assms by (simp add: coord_inv_def tasks_ok_def)
  then have "Suc (co_authEpoch s) \<notin> set (rec_epochs ?s1)" by (auto simp: rec_epochs_def)
  then have "coord_inv (?s1\<lparr>co_tasks := co_tasks ?s1 @ [Reading_Context (Suc (co_authEpoch s))]\<rparr>)"
    by (intro coord_inv_add_reading [OF inv]) simp_all
  with False show ?thesis by (simp add: reconcile_def Let_def)
qed (simp add: reconcile_def assms)

lemma coord_inv_fence: "coord_inv s \<Longrightarrow> coord_inv (fenceAndCloseNow s)"
  unfolding fenceAndCloseNow_def coord_inv_onStatus
  by (intro coord_inv_invalidateOwnership coord_inv_invalidatePending coord_inv_cancelLinger coord_inv_epoch) simp_all

lemma fence_None [simp]: "co_ownership (fenceAndCloseNow s) = None" "co_stopped (fenceAndCloseNow s) = co_stopped s"
  by (simp_all add: fenceAndCloseNow_def invalidateOwnership_None)

lemma coord_inv_remove_task:
  assumes "coord_inv s" "\<And>e r. t \<noteq> Opening_Broker e r"
  shows "coord_inv (s\<lparr>co_tasks := remove1 t (co_tasks s)\<rparr>)"
proof -
  have op: "Opening_Broker e r \<in> set (remove1 t (co_tasks s)) \<longleftrightarrow> Opening_Broker e r \<in> set (co_tasks s)" for e r
    using assms(2) by (metis in_set_remove1)
  have rf: "u \<in> set (co_tasks s)" if "u \<in> set (remove1 t (co_tasks s))" for u
    using that set_remove1_subset [of t "co_tasks s"] by blast
  have "distinct (rec_epochs s)" using assms(1) by (simp add: coord_inv_def tasks_ok_def)
  note m = map_filter_remove1 [OF this [unfolded rec_epochs_def], of t]
  show ?thesis using assms(1) m(1,3) by (auto simp: coord_inv_def coord_parts op) (blast dest: rf)
qed

lemma coord_inv_open_new:
  assumes "coord_inv s" "co_lingerTimer s = None" "epoch = co_authEpoch s" "epoch \<notin> set (rec_epochs s)"
  shows "coord_inv (open_new epoch key s)"
proof -
  define s1 where "s1 = onStatus Connecting (invalidateOwnership s)"
  have inv: "coord_inv s1" using coord_inv_invalidateOwnership [OF assms(1,2)] by (simp add: s1_def)
  have own: "co_ownership s1 = None" by (simp add: s1_def invalidateOwnership_None)
  have ep: "co_authEpoch s1 = epoch" "epoch \<notin> set (rec_epochs s1)" using assms(3,4) by (simp_all add: s1_def rec_epochs_def)
  have lt: "r < length (co_store s1)" if "Opening_Broker e r \<in> set (co_tasks s1)" for e r
    using inv that by (auto simp: coord_inv_def tasks_ok_def)
  have "Opening_Broker e (length (co_store s1)) \<notin> set (co_tasks s1)" for e using lt by blast
  with inv own ep show ?thesis
    unfolding open_new_def s1_def [symmetric] Let_def
    by (auto simp: coord_inv_def coord_parts nth_append map_filter_simps less_SucI dest: lt) blast
qed

lemma valid_ownership_Some: "valid_ownership s = Some r \<Longrightarrow> co_ownership s = Some r"
  by (simp add: valid_ownership_def split: option.splits if_splits)

lemma coord_inv_scheduleLinger: "coord_inv s \<Longrightarrow> co_ownership s = Some r \<Longrightarrow> coord_inv (scheduleLinger ctx r s)"
  by (auto simp: scheduleLinger_def coord_inv_def coord_parts)

lemma coord_inv_context_read:
  assumes "coord_inv s0" "Reading_Context epoch \<in> set (co_tasks s0)"
  shows "coord_inv (context_read epoch result demand s0)"
proof -
  define s where "s = s0\<lparr>co_tasks := remove1 (Reading_Context epoch) (co_tasks s0)\<rparr>"
  have inv: "coord_inv s" using coord_inv_remove_task [OF assms(1)] by (simp add: s_def)
  have cl: "coord_inv (invalidateOwnership (cancelLinger s))"
    by (rule coord_inv_invalidateOwnership) (simp_all add: inv coord_inv_cancelLinger)
  have "distinct (rec_epochs s0)" using assms(1) by (simp add: coord_inv_def tasks_ok_def)
  from map_filter_remove1(2) [OF this [unfolded rec_epochs_def] assms(2), of epoch]
  have "epoch \<notin> set (rec_epochs s)" by (simp add: s_def rec_epochs_def)
  then have op: "coord_inv (open_new epoch key (cancelLinger s))" if "isEpochCurrent epoch s" for key
    using that by (intro coord_inv_open_new coord_inv_cancelLinger inv) (simp_all add: isEpochCurrent_def rec_epochs_def)
  have nd: "coord_inv (no_demand ctx s)" for ctx
    using inv cl by (auto simp: no_demand_def coord_inv_scheduleLinger valid_ownership_Some split: option.split)
  show ?thesis
    unfolding context_read_def s_def [symmetric] Let_def
    using inv cl op nd coord_inv_cancelLinger [OF inv] by (auto split: option.split)
qed

lemma opening_removed:
  assumes "coord_inv s0" "Opening_Broker epoch r \<in> set (co_tasks s0)"
  defines "ts \<equiv> remove1 (Opening_Broker epoch r) (co_tasks s0)"
  shows "Opening_Broker e r \<notin> set ts" "epoch \<notin> set (List.map_filter rec_epoch ts)" "distinct (List.map_filter rec_epoch ts)"
    and "set (List.map_filter rec_epoch ts) \<subseteq> set (rec_epochs s0)"
    and "r' \<noteq> r \<Longrightarrow> Opening_Broker e r' \<in> set ts \<longleftrightarrow> Opening_Broker e r' \<in> set (co_tasks s0)"
    and "Opening_Broker epoch r' \<notin> set ts" "Refreshing r' e \<in> set ts \<longleftrightarrow> Refreshing r' e \<in> set (co_tasks s0)"
proof -
  have "distinct (rec_epochs s0)" using assms(1) by (simp add: coord_inv_def tasks_ok_def)
  note m = map_filter_remove1 [OF this [unfolded rec_epochs_def], of "Opening_Broker epoch r", folded ts_def]
  show ne: "epoch \<notin> set (List.map_filter rec_epoch ts)" using m(2) assms(2) by simp
  then show no: "Opening_Broker epoch r' \<notin> set ts" for r' using in_map_filter [of "Opening_Broker epoch r'" ts rec_epoch epoch] by auto
  show "Opening_Broker e r \<notin> set ts"
  proof
    assume o: "Opening_Broker e r \<in> set ts"
    then have "Opening_Broker e r \<in> set (co_tasks s0)" using set_remove1_subset by (fastforce simp: ts_def)
    then have "e = epoch" using assms(1,2) unfolding coord_inv_def tasks_ok_def by blast
    with o no show False by blast
  qed
  show "distinct (List.map_filter rec_epoch ts)" "set (List.map_filter rec_epoch ts) \<subseteq> set (rec_epochs s0)"
    using m(1,3) by (simp_all add: rec_epochs_def)
  show "r' \<noteq> r \<Longrightarrow> Opening_Broker e r' \<in> set ts \<longleftrightarrow> Opening_Broker e r' \<in> set (co_tasks s0)"
    "Refreshing r' e \<in> set ts \<longleftrightarrow> Refreshing r' e \<in> set (co_tasks s0)"
    by (simp_all add: ts_def in_set_remove1)
qed

lemma coord_inv_broker_opened:
  assumes inv: "coord_inv s0" and task: "Opening_Broker epoch r \<in> set (co_tasks s0)" and fresh: "\<And>b. result = Some b \<Longrightarrow> b \<notin> fst ` set (co_opened s0)"
  shows "coord_inv (broker_opened epoch r result s0)"
proof -
  define s where "s = s0\<lparr>co_tasks := remove1 (Opening_Broker epoch r) (co_tasks s0), co_pendingOwnerships := removeAll r (co_pendingOwnerships s0)\<rparr>"
  note rem = opening_removed [OF inv task]
  have same: "co_store s = co_store s0" "co_ownership s = co_ownership s0" "co_opened s = co_opened s0" "co_closed s = co_closed s0"
    "co_lingerTimer s = co_lingerTimer s0" "co_stopped s = co_stopped s0" "co_authEpoch s = co_authEpoch s0" by (simp_all add: s_def)
  have r: "r < length (co_store s)" "ow_broker (co_store s ! r) = None" using inv task by (auto simp: coord_inv_def tasks_ok_def same)
  have sinv: "coord_inv s"
  proof -
    have "tasks_ok s" 
    proof -
      have t0: "tasks_ok s0" using inv by (simp add: coord_inv_def)
      have op: "r' \<noteq> r \<and> Opening_Broker e r' \<in> set (co_tasks s0)" if "Opening_Broker e r' \<in> set (co_tasks s)" for e r'
        using that rem by (cases "r' = r") (simp_all add: s_def)
      have "rec_epochs s = List.map_filter rec_epoch (remove1 (Opening_Broker epoch r) (co_tasks s0))" by (simp add: rec_epochs_def s_def)
      with t0 rem(3,4) have "distinct (rec_epochs s) \<and> (\<forall>e \<in> set (rec_epochs s). e \<le> co_authEpoch s)"
        by (auto simp: tasks_ok_def same)
      with t0 op show ?thesis unfolding tasks_ok_def same by blast
    qed
    moreover have "pending_ok s" using inv rem by (auto simp: coord_inv_def pending_ok_def s_def)
    moreover have "own_ok s" "opened_ok s" "linger_ok s" "granted_ok s" using inv by (simp_all add: coord_inv_def coord_parts s_def)
    ultimately show ?thesis using inv rem by (simp add: coord_inv_def s_def)
  qed
  have not_own: "co_ownership s \<noteq> Some r" using sinv r by (auto simp: coord_inv_def own_ok_def)
  have gone: "Opening_Broker e r \<notin> set (co_tasks s)" for e using rem by (simp add: s_def)
  show ?thesis
  proof (cases result)
    case None
    then show ?thesis using sinv unfolding broker_opened_def s_def [symmetric] by simp
  next
    case (Some b)
    note f = fresh [OF this, folded same]
    define s1 where "s1 = s\<lparr>co_store := (co_store s)[r := (co_store s ! r)\<lparr>ow_broker := Some b\<rparr>],
                         co_opened := (b, ow_identityKey (co_store s ! r)) # co_opened s\<rparr>"
    have f': "(b, k) \<notin> set (co_opened s)" for k using f by force
    have closed: "coord_inv (closeNow (Some b) s1)"
    proof -
      have "own_ok (closeNow (Some b) s1)" using sinv r not_own f' unfolding s1_def
        by (auto simp: closeNow_def coord_inv_def own_ok_def nth_list_update)
      moreover have "opened_ok (closeNow (Some b) s1)" using sinv r not_own f unfolding s1_def coord_inv_def opened_ok_def
        by (simp add: closeNow_def) (metis insertCI nth_list_update_neq subset_insertI2)
      moreover have "tasks_ok (closeNow (Some b) s1)" using sinv r gone unfolding s1_def
        by (auto simp: closeNow_def coord_inv_def tasks_ok_def rec_epochs_def nth_list_update)
      ultimately show ?thesis using sinv r unfolding s1_def
        by (auto simp: closeNow_def coord_inv_def pending_ok_def linger_ok_def granted_ok_def nth_list_update)
    qed
    have "coord_inv (s1\<lparr>co_ownership := Some r\<rparr>)" if c: "isEpochCurrent epoch s1" "ow_valid (co_store s1 ! r)"
    proof -
      have "co_ownership s0 = None" using inv task c by (auto simp: coord_inv_def tasks_ok_def s1_def isEpochCurrent_def same)
      then have none: "co_ownership s = None" by (simp add: same)
      have "epoch \<notin> set (rec_epochs s)" using rem by (simp add: s_def rec_epochs_def)
      then have "Opening_Broker e r' \<notin> set (co_tasks s)" if "e = epoch" for e r' using that in_rec_epochs by fastforce
      with sinv r none gone f c show ?thesis
        unfolding s1_def by (auto simp: coord_inv_def coord_parts nth_list_update image_iff isEpochCurrent_def)
    qed
    with closed Some show ?thesis unfolding broker_opened_def s_def [symmetric] s1_def [symmetric] Let_def by (simp add: s1_def [symmetric])
  qed
qed

lemma coord_inv_linger_fired:
  assumes "coord_inv s"
  shows "coord_inv (linger_fired r demand s)"
proof -
  let ?s = "s\<lparr>co_lingerTimer := None\<rparr>"
  have inv: "coord_inv ?s" using assms by (simp add: coord_inv_def coord_parts)
  then have "coord_inv (invalidateOwnership ?s)" by (rule coord_inv_invalidateOwnership) simp
  with inv show ?thesis by (simp add: linger_fired_def Let_def)
qed

lemma coord_inv_refresh: "coord_inv s \<Longrightarrow> r < length (co_store s) \<Longrightarrow> coord_inv (refreshAccessToken r s)"
proof -
  assume inv: "coord_inv s" and r: "r < length (co_store s)"
  let ?s = "s\<lparr>co_tasks := co_tasks s @ [Refreshing r (co_authEpoch s)]\<rparr>"
  have "tasks_ok ?s" using inv by (simp add: coord_inv_def tasks_ok_def rec_epochs_def map_filter_simps)
  moreover have "own_ok ?s" "opened_ok ?s" "pending_ok ?s" "linger_ok ?s" "granted_ok ?s"
    using inv by (simp_all add: coord_inv_def coord_parts)
  moreover have "\<forall>r e. Refreshing r e \<in> set (co_tasks ?s) \<longrightarrow> r < length (co_store ?s)"
    using inv r by (auto simp: coord_inv_def)
  ultimately have "coord_inv ?s" unfolding coord_inv_def by blast
  with inv show "coord_inv (refreshAccessToken r s)" by (simp add: refreshAccessToken_def)
qed

lemma coord_inv_token_read:
  assumes "coord_inv s0" "Refreshing r epoch \<in> set (co_tasks s0)"
  shows "coord_inv (token_read r epoch result s0)"
proof -
  let ?s = "s0\<lparr>co_tasks := remove1 (Refreshing r epoch) (co_tasks s0)\<rparr>"
  have inv: "coord_inv ?s" using coord_inv_remove_task [OF assms(1)] by simp
  have "r < length (co_store s0)" using assms by (auto simp: coord_inv_def)
  then have "coord_inv (?s\<lparr>co_granted := (r, ctx) # co_granted ?s\<rparr>)"
    if "ac_relayEntitled ctx" "identityKey (ac_identity ctx) = ow_identityKey (co_store s0 ! r)" for ctx
    using inv that by (simp add: coord_inv_def coord_parts)
  with inv show ?thesis by (simp add: token_read_def Let_def split: option.split)
qed

lemma coord_step_inv: "coord_step s t \<Longrightarrow> coord_inv s \<Longrightarrow> coord_inv t"
proof (induction rule: coord_step.induct)
  case (Stop s)
  then have "coord_inv (s\<lparr>co_stopped := True\<rparr>)" by (simp add: coord_inv_def coord_parts)
  then show ?case by (simp add: coord_stop_def coord_inv_fence)
next
  case (Opened epoch r s b)
  then show ?case by (intro coord_inv_broker_opened) simp_all
next
  case (Open_Failed epoch r s)
  then show ?case by (intro coord_inv_broker_opened) simp_all
qed (simp_all add: coord_inv_reconcile coord_inv_fence coord_inv_context_read coord_inv_linger_fired coord_inv_refresh coord_inv_token_read)

lemma coord_reachable_inv: "coord_reachable s \<Longrightarrow> coord_inv s"
proof (induction rule: coord_reachable.induct)
  case Start
  show ?case by (simp add: coordinator_new_def coord_inv_def coord_parts map_filter_simps)
qed (rule coord_step_inv)

lemma active_iff_owned: "coord_inv s \<Longrightarrow> getActiveBroker s = Some b \<longleftrightarrow> (\<exists>r. co_ownership s = Some r \<and> ow_broker (co_store s ! r) = Some b)"
  by (auto simp: getActiveBroker_def valid_ownership_def coord_inv_def own_ok_def split: option.splits)

lemma stopped_ownerless_step:
  assumes "coord_step s t" "co_stopped s \<longrightarrow> co_ownership s = None"
  shows "(co_stopped s \<longrightarrow> co_stopped t) \<and> (co_stopped t \<longrightarrow> co_ownership t = None)"
  using assms
proof (induction rule: coord_step.induct)
  case (Context epoch s result demand)
  have "co_stopped (context_read epoch result demand s) = co_stopped s"
    by (simp add: context_read_def no_demand_def open_new_def scheduleLinger_def Let_def split: option.split)
  then show ?case using Context by (simp add: context_read_def isEpochCurrent_def Let_def)
qed (auto simp: reconcile_def coord_stop_def broker_opened_def isEpochCurrent_def linger_fired_def refreshAccessToken_def token_read_def
    closeNow_def Let_def invalidateOwnership_None split: option.split)

lemma coord_reachable_stopped: "coord_reachable s \<Longrightarrow> co_stopped s \<Longrightarrow> co_ownership s = None"
proof (induction rule: coord_reachable.induct)
  case (Step s t)
  then show ?case using stopped_ownerless_step [OF Step.hyps(2)] by blast
qed (simp add: coordinator_new_def)

lemma map_filter_unique:
  "distinct (List.map_filter f ts) \<Longrightarrow> t \<in> set ts \<Longrightarrow> u \<in> set ts \<Longrightarrow> f t = Some e \<Longrightarrow> f u = Some e \<Longrightarrow> t = u"
  by (induction ts) (auto simp: map_filter_simps dest: in_map_filter split: option.splits)

section \<open>Properties\<close>

text \<open>
  Property C25. There is one live relay session at most, and it is the active one. However reading the identity, opening
  brokers, fences, sign-outs, linger timers and stops interleave, every broker that was ever opened has been
  closed unless it is the one \<open>getActiveBroker\<close> returns; the active broker is open, was opened for the identity
  that its ownership names, and the coordinator that returns it is not stopped.
\<close>

theorem only_the_active_broker_lives:
  assumes "coord_reachable s"
  shows "(\<forall>b k. (b, k) \<in> set (co_opened s) \<and> b \<notin> set (co_closed s) \<longrightarrow> getActiveBroker s = Some b) \<and>
    (\<forall>b. getActiveBroker s = Some b \<longrightarrow> \<not> co_stopped s \<and> b \<notin> set (co_closed s) \<and>
      (\<exists>r. co_ownership s = Some r \<and> (b, ow_identityKey (co_store s ! r)) \<in> set (co_opened s)))"
proof -
  have inv: "coord_inv s" using assms by (rule coord_reachable_inv)
  then have own: "own_ok s" and op: "opened_ok s" by (simp_all add: coord_inv_def)
  have "\<forall>b k. (b, k) \<in> set (co_opened s) \<and> b \<notin> set (co_closed s) \<longrightarrow> getActiveBroker s = Some b"
    using op by (simp add: active_iff_owned [OF inv] opened_ok_def)
  moreover have "\<not> co_stopped s \<and> b \<notin> set (co_closed s) \<and> (\<exists>r. co_ownership s = Some r \<and> (b, ow_identityKey (co_store s ! r)) \<in> set (co_opened s))"
    if b: "getActiveBroker s = Some b" for b
  proof -
    from b obtain r where "co_ownership s = Some r" "ow_broker (co_store s ! r) = Some b" by (auto simp: active_iff_owned [OF inv])
    with own coord_reachable_stopped [OF assms] show ?thesis by (auto simp: own_ok_def)
  qed
  ultimately show ?thesis by blast
qed

text \<open>A run: an identity signs in and a broker opens, then another identity signs in.\<close>

definition sample_context :: "string \<Rightarrow> auth_context" where
  "sample_context u = \<lparr>ac_identity = \<lparr>ai_userId = u, ai_profileId = ''p'', ai_organizationId = ''o''\<rparr>, ac_accessToken = ''t'', ac_relayEntitled = True\<rparr>"

definition signed_in :: coordinator where
  "signed_in = broker_opened 1 0 (Some 7) (context_read 1 (Some (Some (sample_context ''u''))) True (reconcile coordinator_new))"

definition switched :: coordinator where
  "switched = context_read 2 (Some (Some (sample_context ''v''))) True (reconcile signed_in)"

lemmas coord_eval = broker_opened_def context_read_def reconcile_def coordinator_new_def invalidatePendingOwnerships_def isEpochCurrent_def
  cancelLinger_def valid_ownership_def open_new_def invalidateOwnership_def onStatus_def closeNow_def sample_context_def Let_def
  invalidate_def getActiveBroker_def identityKey_def

lemma signed_in_eval:
  "co_tasks signed_in = []" "co_opened signed_in = [(7, identityKey (ac_identity (sample_context ''u'')))]" "co_closed signed_in = []"
  "co_ownership signed_in = Some 0" "co_authEpoch signed_in = 1" "co_stopped signed_in = False" "getActiveBroker signed_in = Some 7"
  by (simp_all add: signed_in_def coord_eval)

lemma signed_in_reachable: "coord_reachable signed_in"
proof -
  let ?s1 = "reconcile coordinator_new" and ?ctx = "Some (Some (sample_context ''u''))"
  have 1: "coord_reachable ?s1" by (rule coord_reachable.Step [OF coord_reachable.Start coord_step.Reconcile])
  have "coord_step ?s1 (context_read 1 ?ctx True ?s1)" by (rule coord_step.Context) (simp add: coord_eval)
  with 1 have 2: "coord_reachable (context_read 1 ?ctx True ?s1)" by (rule coord_reachable.Step)
  have "coord_step (context_read 1 ?ctx True ?s1) signed_in"
    unfolding signed_in_def by (rule coord_step.Opened) (simp_all add: coord_eval)
  with 2 show ?thesis by (rule coord_reachable.Step)
qed

lemma switched_reachable: "coord_reachable switched"
proof -
  have 1: "coord_reachable (reconcile signed_in)" by (rule coord_reachable.Step [OF signed_in_reachable coord_step.Reconcile])
  have "coord_step (reconcile signed_in) switched"
    unfolding switched_def by (rule coord_step.Context) (simp add: signed_in_def coord_eval)
  with 1 show ?thesis by (rule coord_reachable.Step)
qed

theorem only_the_active_broker_lives_witness:
  "getActiveBroker signed_in = Some 7 \<and> getActiveBroker switched = None \<and> 7 \<in> set (co_closed switched)"
proof -
  have "getActiveBroker switched = None" "(7, identityKey (ac_identity (sample_context ''u''))) \<in> set (co_opened switched)"
    by (simp_all add: switched_def signed_in_def coord_eval)
  with only_the_active_broker_lives [OF switched_reachable] only_the_active_broker_lives [OF signed_in_reachable] show ?thesis
    by (auto simp: signed_in_eval)
qed

text \<open>The sessions that may ask \<open>isCurrent\<close>: one that is being opened in an epoch, and one that has its broker.\<close>

definition live_session :: "nat \<Rightarrow> nat \<Rightarrow> coordinator \<Rightarrow> bool" where
  "live_session epoch r s \<longleftrightarrow>
     Opening_Broker epoch r \<in> set (co_tasks s) \<or> (r < length (co_store s) \<and> ow_broker (co_store s ! r) \<noteq> None)"

text \<open>
  Two sessions never both believe they are current. Of all the relay sessions that are open or being
  opened, at most one gets the answer true from the \<open>isCurrent\<close> callback it was given, in every state that
  any interleaving reaches.
\<close>

theorem current_session_is_unique:
  assumes "coord_reachable s" "live_session e r s" "isCurrent e r s" "live_session e' r' s" "isCurrent e' r' s"
  shows "r = r'"
proof -
  have tasks: "tasks_ok s" using coord_reachable_inv [OF assms(1)] by (simp add: coord_inv_def)
  have unopened: "Opening_Broker d q \<in> set (co_tasks s) \<and> d = co_authEpoch s \<and> co_ownership s = None"
    if "live_session d q s" "isCurrent d q s" "ow_broker (co_store s ! q) = None" for d q
    using that tasks by (auto simp: live_session_def isCurrent_def isEpochCurrent_def tasks_ok_def)
  have owned: "co_ownership s = Some q" if "isCurrent d q s" "ow_broker (co_store s ! q) \<noteq> None" for d q
    using that by (simp add: isCurrent_def)
  show ?thesis
  proof (cases "ow_broker (co_store s ! r) = None \<and> ow_broker (co_store s ! r') = None")
    case True
    then have "Opening_Broker (co_authEpoch s) r \<in> set (co_tasks s)" "Opening_Broker (co_authEpoch s) r' \<in> set (co_tasks s)"
      using unopened assms by metis+
    note both = this
    have "distinct (List.map_filter rec_epoch (co_tasks s))" using tasks by (simp add: tasks_ok_def rec_epochs_def)
    from map_filter_unique [OF this both, of "co_authEpoch s"] show ?thesis by simp
  next
    case False
    then show ?thesis using unopened owned assms by (metis option.inject option.distinct(1))
  qed
qed

theorem current_session_is_unique_witness:
  "isCurrent 2 1 switched \<and> live_session 2 1 switched \<and> \<not> (live_session 1 0 switched \<and> isCurrent 1 0 switched)"
proof -
  have "isCurrent 2 1 switched" "live_session 2 1 switched"
    by (simp_all add: isCurrent_def live_session_def switched_def signed_in_def coord_eval)
  with current_session_is_unique [OF switched_reachable, of 1 0 2 1] show ?thesis by auto
qed

text \<open>
  Stopping is final. After \<open>stop\<close>, in every state that any further steps reach (openings that were under
  way included) the coordinator is stopped, has no active broker, and every broker ever opened is closed.
\<close>

theorem stopped_coordinator_keeps_no_broker:
  assumes "coord_reachable s" "coord_step\<^sup>*\<^sup>* (coord_stop s) t"
  shows "co_stopped t \<and> getActiveBroker t = None \<and> fst ` set (co_opened t) \<subseteq> set (co_closed t)"
proof -
  have "coord_reachable t \<and> co_stopped t"
    using assms(2)
  proof (induction rule: rtranclp_induct)
    case base
    show ?case using coord_reachable.Step [OF assms(1) coord_step.Stop] by (simp add: coord_stop_def)
  next
    case (step u v)
    then show ?case using stopped_ownerless_step [OF step.hyps(2)] coord_reachable_stopped coord_reachable.Step by blast
  qed
  then have t: "coord_reachable t" "co_stopped t" by simp_all
  have "co_ownership t = None" using coord_reachable_stopped t by simp
  then have n: "getActiveBroker t = None" by (simp add: getActiveBroker_def valid_ownership_def)
  have "opened_ok t" using coord_reachable_inv [OF t(1)] by (simp add: coord_inv_def)
  with n \<open>co_ownership t = None\<close> t(2) show ?thesis by (auto simp: opened_ok_def)
qed

theorem stopped_coordinator_keeps_no_broker_witness:
  "fst ` set (co_opened (broker_opened 2 1 (Some 9) (coord_stop switched))) \<subseteq> set (co_closed (broker_opened 2 1 (Some 9) (coord_stop switched))) \<and>
   9 \<in> fst ` set (co_opened (broker_opened 2 1 (Some 9) (coord_stop switched)))"
proof -
  have "coord_step (coord_stop switched) (broker_opened 2 1 (Some 9) (coord_stop switched))"
    by (rule coord_step.Opened) (simp_all add: switched_def signed_in_def coord_stop_def fenceAndCloseNow_def coord_eval)
  then have "coord_step\<^sup>*\<^sup>* (coord_stop switched) (broker_opened 2 1 (Some 9) (coord_stop switched))" by blast
  from stopped_coordinator_keeps_no_broker [OF switched_reachable this] show ?thesis
    by (simp add: broker_opened_def Let_def closeNow_def onStatus_def)
qed

text \<open>A refreshed access token belongs to the identity its session was opened for, and that identity is entitled.\<close>

theorem refreshed_tokens_keep_identity:
  assumes "coord_reachable s" "(r, ctx) \<in> set (co_granted s)"
  shows "ac_relayEntitled ctx \<and> identityKey (ac_identity ctx) = ow_identityKey (co_store s ! r)"
  using coord_reachable_inv [OF assms(1)] assms(2) by (auto simp: coord_inv_def granted_ok_def)

end
