(* ===== verification/Relay_Control.thy ===== *)
theory Relay_Control
  imports E2ee_Contract Relay_Wire "HOL-Library.Multiset"
begin

text \<open>
  The control connection from a desktop to its relay cell
  (\<open>src/pie-mobile/upstream/src/main/runtime/relay\<close>): the message schemas of \<open>relay-control-protocol.ts\<close> with the
  credential schemas they extend (\<open>src/shared/mobile-relay-credential-contract.ts\<close>), the table of pending
  requests \<open>relay-control-requests.ts\<close> and the client state machine \<open>relay-control-client.ts\<close>.

  A promise that a method returns is named by a call number; settling it is an output. The 10 second timer of
  a request exists exactly while the request is pending, so it fires as an event of that request. The answer to
  the cell's cryptographic challenge is a function of the options, \<open>JSON.parse\<close> an argument.
\<close>

section \<open>Schemas\<close>

definition OpaqueIdSchema :: "json option \<Rightarrow> bool" where
  "OpaqueIdSchema v \<longleftrightarrow> z_string 1 128 v \<noteq> None"

definition z_chars :: "nat \<Rightarrow> (char \<Rightarrow> bool) \<Rightarrow> json option \<Rightarrow> bool" where
  "z_chars n P v \<longleftrightarrow> (case as_string v of Some s \<Rightarrow> length s = n \<and> list_all P s | None \<Rightarrow> False)"

definition Base64Url32ByteSchema :: "json option \<Rightarrow> bool" where
  "Base64Url32ByteSchema = z_chars 43 is_b64url_char"

definition Base6432ByteSchema :: "json option \<Rightarrow> bool" where
  "Base6432ByteSchema v \<longleftrightarrow>
     (case as_string v of Some s \<Rightarrow> length s = 44 \<and> list_all is_b64_char (take 43 s) \<and> s ! 43 = CHR ''='' | None \<Rightarrow> False)"

definition Base64Raw24ByteSchema :: "json option \<Rightarrow> bool" where
  "Base64Raw24ByteSchema = z_chars 32 is_b64_char"

definition EpochMsSchema :: "json option \<Rightarrow> bool" where
  "EpochMsSchema v \<longleftrightarrow> z_nonneg_int v \<noteq> None"

definition GenerationSchema :: "json option \<Rightarrow> bool" where
  "GenerationSchema v \<longleftrightarrow> z_nonneg_int v \<noteq> None"

text \<open>\<open>z.number().int()\<close> between bounds, \<open>optional()\<close>, \<open>z.array\<close>, \<open>z.enum\<close> and \<open>z.literal(1)\<close>.\<close>

definition z_int_between :: "int \<Rightarrow> int \<Rightarrow> json option \<Rightarrow> bool" where
  "z_int_between lo hi v \<longleftrightarrow> (case z_nonneg_int v of Some n \<Rightarrow> lo \<le> n \<and> n \<le> hi | None \<Rightarrow> False)"

definition z_positive :: "json option \<Rightarrow> bool" where
  "z_positive v \<longleftrightarrow> (case z_nonneg_int v of Some n \<Rightarrow> 0 < n | None \<Rightarrow> False)"

definition z_optional :: "(json option \<Rightarrow> bool) \<Rightarrow> json option \<Rightarrow> bool" where
  "z_optional P v \<longleftrightarrow> v = None \<or> P v"

definition z_array :: "nat \<Rightarrow> (json option \<Rightarrow> bool) \<Rightarrow> json option \<Rightarrow> bool" where
  "z_array hi P v \<longleftrightarrow> (case v of Some (JArr js) \<Rightarrow> length js \<le> hi \<and> list_all (\<lambda>j. P (Some j)) js | _ \<Rightarrow> False)"

definition z_enum :: "string list \<Rightarrow> json option \<Rightarrow> bool" where
  "z_enum ss v \<longleftrightarrow> (case as_string v of Some s \<Rightarrow> s \<in> set ss | None \<Rightarrow> False)"

definition z_one :: "json option \<Rightarrow> bool" where
  "z_one v \<longleftrightarrow> v = Some (JNum (Fin 1))"

definition RelayHostChallengeMessageSchema :: "json \<Rightarrow> bool" where
  "RelayHostChallengeMessageSchema j \<longleftrightarrow>
     z_strict [''type'', ''challengeId'', ''relayEphemeralPublicKeyB64'', ''nonceB64'', ''ciphertextB64'', ''expiresAt''] j \<and>
     z_literal ''host-challenge'' (jprop j ''type'') \<and> OpaqueIdSchema (jprop j ''challengeId'') \<and>
     Base6432ByteSchema (jprop j ''relayEphemeralPublicKeyB64'') \<and> Base64Raw24ByteSchema (jprop j ''nonceB64'') \<and>
     z_string 1 (16 * 1024) (jprop j ''ciphertextB64'') \<noteq> None \<and> EpochMsSchema (jprop j ''expiresAt'')"

definition PendingConnectionSchema :: "json option \<Rightarrow> bool" where
  "PendingConnectionSchema v \<longleftrightarrow>
     (case v of
        Some j \<Rightarrow> z_strict [''connId'', ''connTicket''] j \<and> OpaqueIdSchema (jprop j ''connId'') \<and> Base64Url32ByteSchema (jprop j ''connTicket'')
      | None \<Rightarrow> False)"

definition RelayHostHelloAckMessageSchema :: "json \<Rightarrow> bool" where
  "RelayHostHelloAckMessageSchema j \<longleftrightarrow>
     z_strict [''type'', ''v'', ''generation'', ''controlResumeSecret'', ''leaseExpiresAt'', ''activeConnIds'', ''pendingConns''] j \<and>
     z_literal ''host-hello-ack'' (jprop j ''type'') \<and> z_one (jprop j ''v'') \<and> GenerationSchema (jprop j ''generation'') \<and>
     Base64Url32ByteSchema (jprop j ''controlResumeSecret'') \<and> EpochMsSchema (jprop j ''leaseExpiresAt'') \<and>
     z_array 8 OpaqueIdSchema (jprop j ''activeConnIds'') \<and> z_array 8 PendingConnectionSchema (jprop j ''pendingConns'')"

definition RelayConnectionOpenMessageSchema :: "json \<Rightarrow> bool" where
  "RelayConnectionOpenMessageSchema j \<longleftrightarrow>
     z_strict [''type'', ''connId'', ''connTicket'', ''kind'', ''relayDeviceId'', ''attachDeadlineMs''] j \<and>
     z_literal ''conn-open'' (jprop j ''type'') \<and> OpaqueIdSchema (jprop j ''connId'') \<and> Base64Url32ByteSchema (jprop j ''connTicket'') \<and>
     z_enum [''invite'', ''resume''] (jprop j ''kind'') \<and> OpaqueIdSchema (jprop j ''relayDeviceId'') \<and>
     z_int_between 1 60000 (jprop j ''attachDeadlineMs'')"

definition RelayDrainMessageSchema :: "json \<Rightarrow> bool" where
  "RelayDrainMessageSchema j \<longleftrightarrow>
     z_strict [''type'', ''graceMs'', ''recovery''] j \<and> z_literal ''drain'' (jprop j ''type'') \<and>
     z_int_between 0 (60 * 60 * 1000) (jprop j ''graceMs'') \<and> z_literal ''resolve-director'' (jprop j ''recovery'')"

definition RelayPingMessageSchema :: "json \<Rightarrow> bool" where
  "RelayPingMessageSchema j \<longleftrightarrow> z_strict [''type'', ''t''] j \<and> z_literal ''ping'' (jprop j ''type'') \<and> EpochMsSchema (jprop j ''t'')"

definition RelayInviteCreatedMessageSchema :: "json \<Rightarrow> bool" where
  "RelayInviteCreatedMessageSchema j \<longleftrightarrow>
     z_strict [''type'', ''reqId'', ''inviteToken'', ''expiresAt'', ''maxAttempts''] j \<and> z_literal ''invite-created'' (jprop j ''type'') \<and>
     OpaqueIdSchema (jprop j ''reqId'') \<and> Base64Url32ByteSchema (jprop j ''inviteToken'') \<and> EpochMsSchema (jprop j ''expiresAt'') \<and>
     z_int_between 1 16 (jprop j ''maxAttempts'')"

definition RelayDeviceRevokedMessageSchema :: "json \<Rightarrow> bool" where
  "RelayDeviceRevokedMessageSchema j \<longleftrightarrow>
     z_strict [''type'', ''reqId''] j \<and> z_literal ''device-revoked'' (jprop j ''type'') \<and> OpaqueIdSchema (jprop j ''reqId'')"

text \<open>The fields of \<open>DeviceCredentialInstalledSchema\<close>, with the keys a schema that extends it allows besides.\<close>

definition DeviceCredentialInstalledSchema :: "string list \<Rightarrow> json \<Rightarrow> bool" where
  "DeviceCredentialInstalledSchema extra j \<longleftrightarrow>
     z_strict (extra @ [''v'', ''reqId'', ''authorizationMode'', ''currentVersion'', ''resumeExpiresAt'', ''graceExpiresAt'']) j \<and>
     z_one (jprop j ''v'') \<and> OpaqueIdSchema (jprop j ''reqId'') \<and>
     z_enum [''relay-basis'', ''authenticated-direct''] (jprop j ''authorizationMode'') \<and> z_positive (jprop j ''currentVersion'') \<and>
     EpochMsSchema (jprop j ''resumeExpiresAt'') \<and> z_optional EpochMsSchema (jprop j ''graceExpiresAt'')"

definition RelayDeviceCredentialInstalledMessageSchema :: "json \<Rightarrow> bool" where
  "RelayDeviceCredentialInstalledMessageSchema j \<longleftrightarrow>
     DeviceCredentialInstalledSchema [''type''] j \<and> z_literal ''device-credential-installed'' (jprop j ''type'')"

definition RelayDeviceCredentialInstallStatusResultMessageSchema :: "json \<Rightarrow> bool" where
  "RelayDeviceCredentialInstallStatusResultMessageSchema j \<longleftrightarrow>
     z_literal ''device-credential-install-status-result'' (jprop j ''type'') \<and> z_one (jprop j ''v'') \<and> OpaqueIdSchema (jprop j ''reqId'') \<and>
     (z_strict [''type'', ''v'', ''reqId'', ''state''] j \<and> z_literal ''not-found'' (jprop j ''state'') \<or>
      z_strict [''type'', ''v'', ''reqId'', ''state'', ''result''] j \<and> z_literal ''committed'' (jprop j ''state'') \<and>
      (case jprop j ''result'' of Some r \<Rightarrow> DeviceCredentialInstalledSchema [] r | None \<Rightarrow> False))"

definition DeviceResumeConfirmedSchema :: "string list \<Rightarrow> json \<Rightarrow> bool" where
  "DeviceResumeConfirmedSchema extra j \<longleftrightarrow>
     z_strict (extra @ [''v'', ''reqId'', ''currentVersion'', ''acceptedAs'', ''renewed'', ''resumeExpiresAt'', ''graceExpiresAt'']) j \<and>
     z_one (jprop j ''v'') \<and> OpaqueIdSchema (jprop j ''reqId'') \<and> z_positive (jprop j ''currentVersion'') \<and>
     z_enum [''current'', ''grace''] (jprop j ''acceptedAs'') \<and> (\<exists>b \<in> {True, False}. jprop j ''renewed'' = Some (JBool b)) \<and>
     EpochMsSchema (jprop j ''resumeExpiresAt'') \<and> z_optional EpochMsSchema (jprop j ''graceExpiresAt'')"

definition RelayDeviceResumeConfirmedMessageSchema :: "json \<Rightarrow> bool" where
  "RelayDeviceResumeConfirmedMessageSchema j \<longleftrightarrow>
     DeviceResumeConfirmedSchema [''type''] j \<and> z_literal ''device-resume-confirmed'' (jprop j ''type'')"

definition RelayControlErrorMessageSchema :: "json \<Rightarrow> bool" where
  "RelayControlErrorMessageSchema j \<longleftrightarrow>
     z_strict [''type'', ''reqId'', ''code''] j \<and> z_literal ''control-error'' (jprop j ''type'') \<and>
     z_optional OpaqueIdSchema (jprop j ''reqId'') \<and> z_string 1 128 (jprop j ''code'') \<noteq> None"

definition parseRelayControlMessage :: "(string \<Rightarrow> json option) \<Rightarrow> string \<Rightarrow> json option" where
  "parseRelayControlMessage json_parse raw = (case json_parse raw of Some (JObj ps) \<Rightarrow> Some (JObj ps) | _ \<Rightarrow> None)"

section \<open>Pending requests\<close>

datatype request_kind = Kind_Invite | Kind_Revoke | Kind_Install | Kind_Install_Status | Kind_Confirm

datatype control_effect =
    Ctl_Send json
  | Ctl_Close nat string
  | Ctl_Terminate
  | Connect_Resolved json
  | Connect_Rejected string
  | Connect_Refused
  | Call_Resolved nat "json option"
  | Call_Rejected nat string
  | On_Connection_Open json
  | On_Drain json
  | On_Control_Close nat
  | Ctl_Threw string

datatype control_state = Idle | Opening | Proving | Active | Draining | Closed

record control_client =
  cc_state :: control_state
  cc_socket :: bool
  cc_connect :: bool
  cc_pending :: "(string \<times> request_kind \<times> nat) list"
  cc_calls :: nat

definition control_new :: control_client where
  "control_new = \<lparr>cc_state = Idle, cc_socket = False, cc_connect = False, cc_pending = [], cc_calls = 0\<rparr>"

text \<open>\<open>finish\<close> clears the timer and deletes the entry.\<close>

definition finish :: "string \<Rightarrow> control_client \<Rightarrow> control_client" where
  "finish reqId c = c\<lparr>cc_pending := AList.delete reqId (cc_pending c)\<rparr>"

definition sendActive :: "json \<Rightarrow> control_client \<Rightarrow> string + control_effect list" where
  "sendActive payload c =
     (if \<not> cc_socket c \<or> cc_state c \<noteq> Active \<and> cc_state c \<noteq> Draining then Inl ''relay_control_not_active'' else Inr [Ctl_Send payload])"

definition request :: "string \<Rightarrow> request_kind \<Rightarrow> json \<Rightarrow> control_client \<Rightarrow> control_client \<times> control_effect list" where
  "request reqId kind payload c0 =
     (let n = cc_calls c0; c = c0\<lparr>cc_calls := Suc n\<rparr>
      in if map_of (cc_pending c) reqId \<noteq> None then (c, [Call_Rejected n ''duplicate_relay_request_id''])
         else (let c1 = c\<lparr>cc_pending := AList.update reqId (kind, n) (cc_pending c)\<rparr>
               in case sendActive payload c1 of
                    Inr effs \<Rightarrow> (c1, effs)
                  | Inl e \<Rightarrow> (finish reqId c1, [Call_Rejected n e])))"

text \<open>The five requests of the client, with the payloads they send.\<close>

datatype control_request =
    Create_Invite string
  | Revoke_Device string
  | Install_Credential "(string \<times> json) list"
  | Install_Status string
  | Confirm_Resume string

fun request_payload :: "string \<Rightarrow> control_request \<Rightarrow> request_kind \<times> json" where
  "request_payload reqId (Create_Invite relayDeviceId) =
     (Kind_Invite, JObj [(''type'', JStr ''invite-create''), (''reqId'', JStr reqId), (''relayDeviceId'', JStr relayDeviceId)])"
| "request_payload reqId (Revoke_Device relayDeviceId) =
     (Kind_Revoke, JObj [(''type'', JStr ''device-revoke''), (''reqId'', JStr reqId), (''relayDeviceId'', JStr relayDeviceId)])"
| "request_payload reqId (Install_Credential input) =
     (Kind_Install, JObj ([(''type'', JStr ''device-credential-install''), (''v'', JNum (Fin 1)), (''reqId'', JStr reqId)] @ input))"
| "request_payload reqId (Install_Status relayDeviceId) =
     (Kind_Install_Status, JObj [(''type'', JStr ''device-credential-install-status''), (''v'', JNum (Fin 1)), (''reqId'', JStr reqId),
        (''relayDeviceId'', JStr relayDeviceId)])"
| "request_payload reqId (Confirm_Resume basisConnId) =
     (Kind_Confirm, JObj [(''type'', JStr ''device-resume-confirm''), (''v'', JNum (Fin 1)), (''reqId'', JStr reqId),
        (''basisConnId'', JStr basisConnId)])"

definition control_request :: "string \<Rightarrow> control_request \<Rightarrow> control_client \<Rightarrow> control_client \<times> control_effect list" where
  "control_request reqId r c = (let (kind, payload) = request_payload reqId r in request reqId kind payload c)"

fun reply_schema :: "request_kind \<Rightarrow> json \<Rightarrow> bool" where
  "reply_schema Kind_Invite = RelayInviteCreatedMessageSchema"
| "reply_schema Kind_Revoke = RelayDeviceRevokedMessageSchema"
| "reply_schema Kind_Install = RelayDeviceCredentialInstalledMessageSchema"
| "reply_schema Kind_Install_Status = RelayDeviceCredentialInstallStatusResultMessageSchema"
| "reply_schema Kind_Confirm = RelayDeviceResumeConfirmedMessageSchema"

text \<open>\<open>resolveMessage\<close>: whether the message belonged to a pending request; \<open>reqId\<close> must be a non-empty string.\<close>

definition resolveMessage :: "json \<Rightarrow> control_client \<Rightarrow> bool \<times> control_client \<times> control_effect list" where
  "resolveMessage message c =
     (case as_string (jprop message ''reqId'') of
        None \<Rightarrow> (False, c, [])
      | Some reqId \<Rightarrow>
          (case (if reqId = [] then None else map_of (cc_pending c) reqId) of
             None \<Rightarrow> (False, c, [])
           | Some (kind, n) \<Rightarrow>
               (if RelayControlErrorMessageSchema message
                then (True, finish reqId c, [Call_Rejected n (the (as_string (jprop message ''code'')))])
                else if reply_schema kind message
                then (True, finish reqId c, [Call_Resolved n (if kind = Kind_Revoke then None else Some message)])
                else (False, c, []))))"

definition rejectAll :: "string \<Rightarrow> control_client \<Rightarrow> control_client \<times> control_effect list" where
  "rejectAll e c = (c\<lparr>cc_pending := []\<rparr>, map (\<lambda>(reqId, kind, n). Call_Rejected n e) (cc_pending c))"

text \<open>The timer of a pending request.\<close>

definition request_timeout :: "string \<Rightarrow> control_client \<Rightarrow> control_client \<times> control_effect list" where
  "request_timeout reqId c =
     (case map_of (cc_pending c) reqId of
        None \<Rightarrow> (c, [])
      | Some (kind, n) \<Rightarrow> (finish reqId c, [Call_Rejected n ''relay_control_request_timeout'']))"

section \<open>The client\<close>

record control_options =
  op_relayHostId :: string
  op_assignmentEpoch :: nat
  op_hostPublicKeyB64 :: string
  op_appVersion :: string
  op_previousGeneration :: "nat option"
  op_controlResumeSecret :: "string option"
  op_answer :: "json \<Rightarrow> string option"

definition host_hello :: "control_options \<Rightarrow> json" where
  "host_hello opts =
     JObj ([(''type'', JStr ''host-hello''), (''v'', JNum (Fin 1)), (''relayHostId'', JStr (op_relayHostId opts)),
        (''assignmentEpoch'', JNum (Fin (of_nat (op_assignmentEpoch opts)))), (''hostPublicKeyB64'', JStr (op_hostPublicKeyB64 opts)),
        (''appVersion'', JStr (op_appVersion opts))] @
       (case op_previousGeneration opts of Some g \<Rightarrow> [(''previousGeneration'', JNum (Fin (of_nat g)))] | None \<Rightarrow> []) @
       (case op_controlResumeSecret opts of Some s \<Rightarrow> (if s = [] then [] else [(''controlResumeSecret'', JStr s)]) | None \<Rightarrow> []))"

definition cc_connect_start :: "control_client \<Rightarrow> control_client \<times> control_effect list" where
  "cc_connect_start c =
     (if cc_state c \<noteq> Idle then (c, [Connect_Refused])
      else (c\<lparr>cc_state := Opening, cc_socket := True, cc_connect := True\<rparr>, []))"

definition sendHostHello :: "control_options \<Rightarrow> control_client \<Rightarrow> control_client \<times> control_effect list" where
  "sendHostHello opts c =
     (if \<not> cc_socket c \<or> cc_state c \<noteq> Opening then (c, []) else (c\<lparr>cc_state := Proving\<rparr>, [Ctl_Send (host_hello opts)]))"

text \<open>\<open>connectResolve?.()\<close> or \<open>connectReject?.()\<close> followed by \<open>clearConnectPromise\<close>.\<close>

definition settle_connect :: "control_effect \<Rightarrow> control_client \<Rightarrow> control_client \<times> control_effect list" where
  "settle_connect eff c = (c\<lparr>cc_connect := False\<rparr>, if cc_connect c then [eff] else [])"

definition BAD_OUTER_CREDENTIAL :: nat where "BAD_OUTER_CREDENTIAL = 4401"

definition failProtocol :: "string \<Rightarrow> control_client \<Rightarrow> control_client \<times> control_effect list" where
  "failProtocol reason c =
     (let (c1, effs) = settle_connect (Connect_Rejected reason) c
      in (c1, effs @ (if cc_socket c then [Ctl_Close BAD_OUTER_CREDENTIAL reason] else [])))"

definition socket_send :: "json \<Rightarrow> control_client \<Rightarrow> control_effect list" where
  "socket_send j c = (if cc_socket c then [Ctl_Send j] else [])"

definition is_number :: "json option \<Rightarrow> bool" where
  "is_number v \<longleftrightarrow> as_number v \<noteq> None"

definition handleProofMessage :: "control_options \<Rightarrow> json \<Rightarrow> control_client \<Rightarrow> control_client \<times> control_effect list" where
  "handleProofMessage opts message c =
     (if RelayHostHelloAckMessageSchema message then settle_connect (Connect_Resolved message) (c\<lparr>cc_state := Active\<rparr>)
      else if jprop message ''type'' = Some (JStr ''host-hello-ack'') \<and> is_number (jprop message ''generation'')
      then settle_connect (Connect_Resolved message) (c\<lparr>cc_state := Active\<rparr>)
      else if RelayHostChallengeMessageSchema message
      then (case op_answer opts message of
              None \<Rightarrow> failProtocol ''invalid host challenge'' c
            | Some proofB64 \<Rightarrow>
                (c, socket_send (JObj [(''type'', JStr ''host-challenge-ack''), (''challengeId'', the (jprop message ''challengeId'')),
                   (''proofB64'', JStr proofB64)]) c))
      else if \<not> RelayHostHelloAckMessageSchema message then failProtocol ''invalid host proof message'' c
      else settle_connect (Connect_Resolved message) (c\<lparr>cc_state := Active\<rparr>))"

definition handleControlMessage :: "control_options \<Rightarrow> (string \<Rightarrow> json option) \<Rightarrow> string \<Rightarrow> control_client \<Rightarrow> control_client \<times> control_effect list" where
  "handleControlMessage opts json_parse raw c =
     (case parseRelayControlMessage json_parse raw of
        None \<Rightarrow> failProtocol ''invalid control JSON'' c
      | Some message \<Rightarrow>
          (if cc_state c = Proving then handleProofMessage opts message c
           else if cc_state c \<noteq> Active \<and> cc_state c \<noteq> Draining then failProtocol ''control message before activation'' c
           else if RelayPingMessageSchema message
           then (c, socket_send (JObj [(''type'', JStr ''pong''), (''t'', the (jprop message ''t''))]) c)
           else if RelayConnectionOpenMessageSchema message \<and> cc_state c = Active then (c, [On_Connection_Open message])
           else if RelayDrainMessageSchema message then (c\<lparr>cc_state := Draining\<rparr>, [On_Drain message])
           else (case resolveMessage message c of
                   (True, c1, effs) \<Rightarrow> (c1, effs)
                 | (False, c1, effs) \<Rightarrow> failProtocol ''unknown control message'' c)))"

definition control_socket_error :: "string \<Rightarrow> control_client \<Rightarrow> control_client \<times> control_effect list" where
  "control_socket_error e c =
     (if cc_state c = Opening \<or> cc_state c = Proving then settle_connect (Connect_Rejected e) c else (c, []))"

definition handleControlClose :: "nat \<Rightarrow> control_client \<Rightarrow> control_client \<times> control_effect list" where
  "handleControlClose code c =
     (let reason = ''relay_control_closed_'' @ show_nat code;
          (c1, e1) = (if cc_state c = Opening \<or> cc_state c = Proving
                      then settle_connect (Connect_Rejected reason) (c\<lparr>cc_state := Closed\<rparr>) else (c\<lparr>cc_state := Closed\<rparr>, []));
          (c2, e2) = rejectAll reason c1
      in (c2, e1 @ e2 @ [On_Control_Close code]))"

definition control_closeNow :: "control_client \<Rightarrow> control_client \<times> control_effect list" where
  "control_closeNow c =
     (let (c1, effs) = rejectAll ''relay_control_closed'' (c\<lparr>cc_state := Closed\<rparr>)
      in (c1\<lparr>cc_socket := False\<rparr>, effs @ (if cc_socket c then [Ctl_Terminate] else [])))"

definition refreshAuthorization :: "string \<Rightarrow> control_client \<Rightarrow> control_client \<times> control_effect list" where
  "refreshAuthorization relayJwt c =
     (case sendActive (JObj [(''type'', JStr ''auth-refresh''), (''relayJwt'', JStr relayJwt)]) c of
        Inr effs \<Rightarrow> (c, effs)
      | Inl e \<Rightarrow> (c, [Ctl_Threw e]))"

text \<open>What the event loop and the callers can do to a client.\<close>

datatype control_event =
    CC_Connect
  | CC_Socket_Open
  | CC_Message string
  | CC_Binary_Message
  | CC_Socket_Error string
  | CC_Socket_Close nat
  | CC_Request string control_request
  | CC_Request_Timeout string
  | CC_Refresh string
  | CC_Close_Now

fun control_next :: "control_options \<Rightarrow> (string \<Rightarrow> json option) \<Rightarrow> control_client \<Rightarrow> control_event \<Rightarrow> control_client \<times> control_effect list" where
  "control_next opts json_parse c CC_Connect = cc_connect_start c"
| "control_next opts json_parse c CC_Socket_Open = sendHostHello opts c"
| "control_next opts json_parse c (CC_Message raw) = handleControlMessage opts json_parse raw c"
| "control_next opts json_parse c CC_Binary_Message = failProtocol ''binary control message'' c"
| "control_next opts json_parse c (CC_Socket_Error e) = control_socket_error e c"
| "control_next opts json_parse c (CC_Socket_Close code) = handleControlClose code c"
| "control_next opts json_parse c (CC_Request reqId r) = control_request reqId r c"
| "control_next opts json_parse c (CC_Request_Timeout reqId) = request_timeout reqId c"
| "control_next opts json_parse c (CC_Refresh relayJwt) = refreshAuthorization relayJwt c"
| "control_next opts json_parse c CC_Close_Now = control_closeNow c"

definition control_step ::
  "control_options \<Rightarrow> (string \<Rightarrow> json option) \<Rightarrow> control_client \<times> control_effect list \<Rightarrow> control_event \<Rightarrow> control_client \<times> control_effect list" where
  "control_step opts json_parse w e = (let (c, effs) = control_next opts json_parse (fst w) e in (c, snd w @ effs))"

section \<open>Every call is settled once\<close>

definition settled :: "control_effect list \<Rightarrow> nat list" where
  "settled effs = concat (map (\<lambda>e. case e of Call_Resolved n _ \<Rightarrow> [n] | Call_Rejected n _ \<Rightarrow> [n] | _ \<Rightarrow> []) effs)"

definition pending_calls :: "control_client \<Rightarrow> nat list" where
  "pending_calls c = map (snd \<circ> snd) (cc_pending c)"

lemma settled_simps [simp]:
  "settled [] = []" "settled (xs @ ys) = settled xs @ settled ys" "settled (Call_Resolved n v # effs) = n # settled effs"
  "settled (Call_Rejected n r # effs) = n # settled effs" "settled (Ctl_Send j # effs) = settled effs" "settled (Ctl_Close k r # effs) = settled effs"
  "settled (Ctl_Terminate # effs) = settled effs" "settled (Connect_Resolved j # effs) = settled effs" "settled (Connect_Rejected r # effs) = settled effs"
  "settled (Connect_Refused # effs) = settled effs" "settled (On_Connection_Open j # effs) = settled effs" "settled (On_Drain j # effs) = settled effs"
  "settled (On_Control_Close k # effs) = settled effs" "settled (Ctl_Threw r # effs) = settled effs"
  by (simp_all add: settled_def)

lemma settled_rejections: "settled (map (\<lambda>(reqId, kind, n). Call_Rejected n e) ps) = map (snd \<circ> snd) ps"
  by (induction ps) auto

lemma update_new_key: "map_of m k = None \<Longrightarrow> AList.update k v m = m @ [(k, v)]"
  by (induction m) (auto split: if_splits)

lemma mset_delete_key:
  "jsmap_ok m \<Longrightarrow> map_of m k = Some v \<Longrightarrow> mset (map g m) = add_mset (g (k, v)) (mset (map g (AList.delete k m)))"
proof (induction m)
  case (Cons p m)
  then show ?case
  proof (cases "fst p = k")
    case True
    then have "k \<notin> fst ` set m" using Cons.prems(1) by (auto simp: jsmap_ok_def)
    then have "AList.delete k m = m" by (metis delete_id)
    then show ?thesis using True Cons.prems(2) by (cases p) (simp add: AList.delete_eq)
  next
    case False
    then show ?thesis using Cons by (cases p) (simp add: jsmap_ok_def AList.delete_eq add_mset_commute)
  qed
qed simp

text \<open>An operation accounts for its calls: what was pending or is newly called is settled by it or pending after it.\<close>

definition accounts :: "control_client \<Rightarrow> control_client \<times> control_effect list \<Rightarrow> bool" where
  "accounts c r \<longleftrightarrow> (jsmap_ok (cc_pending c) \<longrightarrow> jsmap_ok (cc_pending (fst r)) \<and> cc_calls c \<le> cc_calls (fst r) \<and>
     mset (settled (snd r)) + mset (pending_calls (fst r)) = mset (pending_calls c) + mset [cc_calls c..<cc_calls (fst r)])"

lemma accounts_finish:
  assumes "map_of (cc_pending c) reqId = Some (kind, n)"
  shows "accounts c (finish reqId c, [Call_Resolved n j])" "accounts c (finish reqId c, [Call_Rejected n e])"
  using mset_delete_key [OF _ assms, of "snd \<circ> snd"] by (auto simp: accounts_def finish_def pending_calls_def)

lemma delete_update_new: "map_of m k = None \<Longrightarrow> AList.delete k (AList.update k v m) = m"
  by (induction m) (auto simp: AList.delete_eq split: if_splits)

lemma accounts_request: "accounts c (request reqId kind payload c)"
proof (cases "map_of (cc_pending c) reqId")
  case None
  let ?c1 = "c\<lparr>cc_calls := Suc (cc_calls c), cc_pending := AList.update reqId (kind, cc_calls c) (cc_pending c)\<rparr>"
  have "accounts c (?c1, [Ctl_Send payload])"
    using None by (auto simp: accounts_def pending_calls_def jsmap_ok_update) (simp add: update_new_key)
  moreover have "accounts c (finish reqId ?c1, [Call_Rejected (cc_calls c) e])" for e
    using None by (simp add: accounts_def pending_calls_def finish_def delete_update_new)
  ultimately show ?thesis using None by (simp add: request_def Let_def sendActive_def)
qed (simp add: request_def accounts_def pending_calls_def Let_def)

lemma accounts_quiet:
  assumes "cc_pending c' = cc_pending c" "cc_calls c' = cc_calls c" "settled effs = []"
  shows "accounts c (c', effs)"
  using assms by (simp add: accounts_def pending_calls_def)

lemma accounts_failProtocol: "accounts c (failProtocol reason c)"
  by (simp add: failProtocol_def settle_connect_def accounts_quiet)

lemma accounts_message: "accounts c (handleControlMessage opts json_parse raw c)"
proof -
  have p: "accounts c (handleProofMessage opts message c)" for message
    by (simp add: handleProofMessage_def settle_connect_def accounts_quiet accounts_failProtocol socket_send_def split: option.split)
  have r: "accounts c (c1, effs)" if "resolveMessage message c = (True, c1, effs)" for message c1 effs
    using that by (auto simp: resolveMessage_def accounts_finish split: option.splits if_splits)
  show ?thesis
    using r by (simp add: handleControlMessage_def p accounts_failProtocol accounts_quiet socket_send_def split: option.split bool.split prod.split)
qed

lemma control_next_accounts: "accounts c (control_next opts json_parse c e)"
proof (cases e)
  case (CC_Socket_Close code)
  then show ?thesis
    by (simp add: handleControlClose_def settle_connect_def rejectAll_def settled_rejections accounts_def pending_calls_def Let_def)
next
  case CC_Close_Now
  then show ?thesis by (simp add: control_closeNow_def rejectAll_def settled_rejections accounts_def pending_calls_def Let_def)
next
  case (CC_Request_Timeout reqId)
  then show ?thesis by (auto simp: request_timeout_def accounts_finish accounts_quiet split: option.split)
next
  case (CC_Request reqId r)
  then show ?thesis by (simp add: control_request_def accounts_request split: prod.split)
qed (simp_all add: cc_connect_start_def sendHostHello_def accounts_message accounts_failProtocol control_socket_error_def settle_connect_def
    refreshAuthorization_def sendActive_def accounts_quiet)

lemma failProtocol_frame [simp]:
  "cc_state (fst (failProtocol reason c)) = cc_state c" "cc_pending (fst (failProtocol reason c)) = cc_pending c"
  by (simp_all add: failProtocol_def settle_connect_def)

lemma resolveMessage_state: "resolveMessage message c = (b, c1, effs) \<Longrightarrow> cc_state c1 = cc_state c"
  by (auto simp: resolveMessage_def finish_def split: option.splits if_splits)

lemma message_when_closed: "cc_state c = Closed \<Longrightarrow> \<exists>reason. handleControlMessage opts json_parse raw c = failProtocol reason c"
  by (auto simp: handleControlMessage_def split: option.split)

lemma proof_message_state: "cc_state c = Proving \<Longrightarrow> cc_state (fst (handleProofMessage opts message c)) \<noteq> Closed"
  by (simp add: handleProofMessage_def settle_connect_def split: option.split)

lemma message_not_closing: "cc_state c \<noteq> Closed \<Longrightarrow> cc_state (fst (handleControlMessage opts json_parse raw c)) \<noteq> Closed"
  by (auto simp: handleControlMessage_def proof_message_state dest!: resolveMessage_state split: option.split prod.split bool.split)

text \<open>A closed client stays closed and keeps no request pending; closing empties the table.\<close>

lemma closed_step:
  assumes "cc_state c = Closed \<longrightarrow> cc_pending c = []" "cc_state (fst (control_next opts json_parse c e)) = Closed"
  shows "cc_pending (fst (control_next opts json_parse c e)) = []"
proof (cases e)
  case (CC_Message raw)
  with assms(2) have "cc_state c = Closed" using message_not_closing by force
  with assms(1) message_when_closed [of c opts json_parse raw] CC_Message show ?thesis by auto
next
  case (CC_Request reqId r)
  with assms show ?thesis
    by (auto simp: control_request_def request_def sendActive_def finish_def Let_def AList.delete_eq split: prod.splits if_splits)
qed (use assms in \<open>auto simp: cc_connect_start_def sendHostHello_def control_socket_error_def settle_connect_def handleControlClose_def
    control_closeNow_def rejectAll_def request_timeout_def refreshAuthorization_def sendActive_def finish_def Let_def split: option.splits if_splits\<close>)

lemma closed_is_final: "cc_state c = Closed \<Longrightarrow> cc_state (fst (control_next opts json_parse c e)) = Closed"
  by (cases e) (simp_all add: cc_connect_start_def sendHostHello_def handleControlMessage_def control_socket_error_def settle_connect_def
    handleControlClose_def control_closeNow_def rejectAll_def request_timeout_def refreshAuthorization_def sendActive_def finish_def
    control_request_def request_def Let_def split: option.split prod.split)

definition control_inv :: "control_client \<times> control_effect list \<Rightarrow> bool" where
  "control_inv w \<longleftrightarrow> jsmap_ok (cc_pending (fst w)) \<and>
     mset (settled (snd w)) + mset (pending_calls (fst w)) = mset [0..<cc_calls (fst w)] \<and>
     (cc_state (fst w) = Closed \<longrightarrow> cc_pending (fst w) = [])"

interpretation control: event_machine "control_step opts json_parse" control_inv for opts json_parse
proof unfold_locales
  fix w e
  assume w: "control_inv w"
  obtain c effs where n: "control_next opts json_parse (fst w) e = (c, effs)" by fastforce
  have acc: "accounts (fst w) (c, effs)" using control_next_accounts [of "fst w" opts json_parse e] n by simp
  then have le: "cc_calls (fst w) \<le> cc_calls c" and ok: "jsmap_ok (cc_pending c)"
    and m: "mset (settled effs) + mset (pending_calls c) = mset (pending_calls (fst w)) + mset [cc_calls (fst w)..<cc_calls c]"
    using w by (simp_all add: accounts_def control_inv_def)
  have "mset (settled (snd w @ effs)) + mset (pending_calls c) = mset (settled (snd w)) + (mset (settled effs) + mset (pending_calls c))"
    by simp
  also have "\<dots> = mset [0..<cc_calls (fst w)] + mset [cc_calls (fst w)..<cc_calls c]" using m w by (simp add: control_inv_def add_ac)
  also have "\<dots> = mset [0..<cc_calls c]" using upt_add_eq_append [of 0 "cc_calls (fst w)" "cc_calls c - cc_calls (fst w)"] le by simp
  finally show "control_inv (control_step opts json_parse w e)"
    using ok w closed_step [of "fst w" opts json_parse e] n by (simp add: control_inv_def control_step_def)
qed

lemma control_new_inv: "control_inv (control_new, [])"
  by (simp add: control_inv_def control_new_def pending_calls_def)

lemma control_inv_calls:
  assumes "control_inv w"
  shows "distinct (settled (snd w) @ pending_calls (fst w))" "set (settled (snd w)) \<union> set (pending_calls (fst w)) = {..<cc_calls (fst w)}"
proof -
  have m: "mset (settled (snd w) @ pending_calls (fst w)) = mset [0..<cc_calls (fst w)]" using assms by (simp add: control_inv_def)
  then show "distinct (settled (snd w) @ pending_calls (fst w))" using mset_eq_imp_distinct_iff [OF m] by simp
  show "set (settled (snd w)) \<union> set (pending_calls (fst w)) = {..<cc_calls (fst w)}"
    using mset_eq_setD [OF m] by (auto simp: atLeast0LessThan)
qed

section \<open>Properties\<close>

text \<open>
  Property C26. Every control request is settled exactly once. Over any run of connection events, messages, requests,
  timeouts and closings, the calls made so far are those whose promise has been settled and those still pending,
  none twice; once the connection is closed every call has been settled.
\<close>

theorem control_calls_settle_once:
  fixes opts json_parse es
  defines "w \<equiv> foldl (control_step opts json_parse) (control_new, []) es"
  shows "distinct (settled (snd w) @ pending_calls (fst w)) \<and>
    set (settled (snd w)) \<union> set (pending_calls (fst w)) = {..<cc_calls (fst w)} \<and>
    (cc_state (fst w) = Closed \<longrightarrow> set (settled (snd w)) = {..<cc_calls (fst w)})"
proof -
  have inv: "control_inv w" unfolding w_def by (rule control.run_inv) (rule control_new_inv)
  have "pending_calls (fst w) = []" if "cc_state (fst w) = Closed" using inv that by (simp add: control_inv_def pending_calls_def)
  with control_inv_calls [OF inv] show ?thesis by auto
qed

definition plain_options :: control_options where
  "plain_options = \<lparr>op_relayHostId = ''h'', op_assignmentEpoch = 1, op_hostPublicKeyB64 = ''k'', op_appVersion = ''1'',
     op_previousGeneration = None, op_controlResumeSecret = None, op_answer = (\<lambda>_. None)\<rparr>"

definition bare_ack :: json where
  "bare_ack = JObj [(''type'', JStr ''host-hello-ack''), (''generation'', JNum (Fin 1))]"

definition sample_events :: "control_event list" where
  "sample_events = [CC_Connect, CC_Socket_Open, CC_Message ''ack'', CC_Request ''a'' (Revoke_Device ''d''), CC_Request ''a'' (Create_Invite ''d''),
     CC_Socket_Close 1006]"

lemma bare_ack_facts:
  "\<not> RelayHostHelloAckMessageSchema bare_ack" "jprop bare_ack ''type'' = Some (JStr ''host-hello-ack'')"
  "jprop bare_ack ''generation'' = Some (JNum (Fin 1))" "parseRelayControlMessage (\<lambda>_. Some bare_ack) raw = Some bare_ack"
  by (simp_all add: bare_ack_def RelayHostHelloAckMessageSchema_def z_one_def parseRelayControlMessage_def)

theorem control_calls_settle_once_witness:
  "let w = foldl (control_step plain_options (\<lambda>_. Some bare_ack)) (control_new, []) sample_events
   in cc_state (fst w) = Closed \<and> cc_calls (fst w) = 2 \<and> set (settled (snd w)) = {0, 1}"
proof -
  let ?w = "foldl (control_step plain_options (\<lambda>_. Some bare_ack)) (control_new, []) sample_events"
  have "cc_state (fst ?w) = Closed \<and> cc_calls (fst ?w) = 2"
    by (simp add: sample_events_def control_step_def control_new_def cc_connect_start_def sendHostHello_def handleControlMessage_def
        handleProofMessage_def bare_ack_facts settle_connect_def control_request_def request_def sendActive_def
        handleControlClose_def rejectAll_def Let_def is_number_def)
  moreover have "{..<2::nat} = {0, 1}" by auto
  ultimately show ?thesis using control_calls_settle_once [of plain_options "\<lambda>_. Some bare_ack" sample_events] by (simp add: Let_def)
qed

text \<open>
  The control client accepts a malformed acknowledgement. While it proves itself, any object whose
  \<open>type\<close> is \<open>host-hello-ack\<close> and whose \<open>generation\<close> is a number makes it active and resolves \<open>connect\<close> with that
  object, although the strict schema rejects it: no version, resume secret, lease or connection list is required,
  and no challenge has to be answered.
\<close>

theorem malformed_ack_activates:
  assumes "cc_state c = Proving" "parseRelayControlMessage json_parse raw = Some message"
    and "jprop message ''type'' = Some (JStr ''host-hello-ack'')" "jprop message ''generation'' = Some (JNum n)"
  shows "handleControlMessage opts json_parse raw c = settle_connect (Connect_Resolved message) (c\<lparr>cc_state := Active\<rparr>)"
  using assms by (simp add: handleControlMessage_def handleProofMessage_def is_number_def)

theorem malformed_ack_activates_witness:
  "\<not> RelayHostHelloAckMessageSchema bare_ack \<and>
   handleControlMessage plain_options (\<lambda>_. Some bare_ack) ''ack'' (control_new\<lparr>cc_state := Proving, cc_socket := True, cc_connect := True\<rparr>) =
     (control_new\<lparr>cc_state := Active, cc_socket := True\<rparr>, [Connect_Resolved bare_ack])"
  using malformed_ack_activates [of "control_new\<lparr>cc_state := Proving, cc_socket := True, cc_connect := True\<rparr>" "\<lambda>_. Some bare_ack" "''ack''" bare_ack]
    bare_ack_facts by (simp add: settle_connect_def control_new_def)

text \<open>Events that a terminated socket and the callers can still cause: no message arrives any more.\<close>

fun after_terminate :: "control_event \<Rightarrow> bool" where
  "after_terminate (CC_Message raw) = False"
| "after_terminate CC_Binary_Message = False"
| "after_terminate e = True"

fun settles_connect :: "control_effect \<Rightarrow> bool" where
  "settles_connect (Connect_Resolved j) = True"
| "settles_connect (Connect_Rejected e) = True"
| "settles_connect eff = False"

lemma closed_step_keeps_promise:
  assumes "cc_state c = Closed" "after_terminate e"
  shows "cc_connect (fst (control_next opts json_parse c e)) = cc_connect c \<and> list_all (\<lambda>x. \<not> settles_connect x) (snd (control_next opts json_parse c e))"
  using assms by (cases e) (auto simp: cc_connect_start_def sendHostHello_def control_socket_error_def handleControlClose_def control_closeNow_def rejectAll_def
    request_timeout_def refreshAuthorization_def sendActive_def finish_def control_request_def request_def Let_def list_all_iff
    split: option.split prod.split)

text \<open>
  Closing the client while it connects leaves its caller waiting for ever. After \<open>closeNow\<close> during the
  opening or proving phase, the promise that \<open>connect\<close> returned is still pending, and no socket opening, error or
  closing, no request, timeout, refresh or further \<open>closeNow\<close>, in any number and order, settles it.
\<close>

theorem close_while_connecting_strands_caller:
  fixes opts json_parse c es
  assumes "cc_state c = Opening \<or> cc_state c = Proving" "cc_connect c" "list_all after_terminate es"
  defines "w \<equiv> foldl (control_step opts json_parse) (control_closeNow c) es"
  shows "cc_connect (fst w) \<and> list_all (\<lambda>x. \<not> settles_connect x) (snd w)"
proof -
  have "cc_state (fst w) = Closed \<and> cc_connect (fst w) \<and> list_all (\<lambda>x. \<not> settles_connect x) (snd w)"
    unfolding w_def using assms(3)
  proof (induction es rule: rev_induct)
    case Nil
    have "list_all (\<lambda>x. \<not> settles_connect x) (snd (control_closeNow c))" by (auto simp: control_closeNow_def rejectAll_def list_all_iff)
    then show ?case using assms(2) by (simp add: control_closeNow_def rejectAll_def)
  next
    case (snoc e es)
    define v where "v = foldl (control_step opts json_parse) (control_closeNow c) es"
    have v: "cc_state (fst v) = Closed" "cc_connect (fst v)" "list_all (\<lambda>x. \<not> settles_connect x) (snd v)" "after_terminate e"
      using snoc by (simp_all add: v_def)
    show ?case
      using closed_step_keeps_promise [OF v(1,4), of opts json_parse] closed_is_final [OF v(1), of opts json_parse e] v(2,3)
      by (simp add: v_def [symmetric]) (simp add: control_step_def split_beta)
  qed
  then show ?thesis by simp
qed

theorem close_while_connecting_strands_caller_witness:
  "cc_connect (fst (foldl (control_step plain_options (\<lambda>_. None)) (control_closeNow (fst (cc_connect_start control_new)))
     [CC_Socket_Error ''aborted'', CC_Socket_Close 1006]))"
  using close_while_connecting_strands_caller [of "fst (cc_connect_start control_new)" "[CC_Socket_Error ''aborted'', CC_Socket_Close 1006]"]
  by (simp add: cc_connect_start_def control_new_def)

section \<open>Connections open only while the client is active\<close>

fun ends_service :: "control_effect \<Rightarrow> bool" where
  "ends_service (On_Drain j) = True"
| "ends_service (On_Control_Close code) = True"
| "ends_service eff = False"

definition over :: "control_client \<Rightarrow> bool" where
  "over c \<longleftrightarrow> cc_state c = Draining \<or> cc_state c = Closed"

definition is_open :: "control_effect \<Rightarrow> bool" where
  "is_open x \<longleftrightarrow> (\<exists>m. x = On_Connection_Open m)"

text \<open>A step opens a connection only in the active state and alone, and after its last service notice the client is over.\<close>

definition serves :: "control_client \<Rightarrow> control_client \<times> control_effect list \<Rightarrow> bool" where
  "serves c r \<longleftrightarrow>
     ((\<exists>x \<in> set (snd r). is_open x) \<longrightarrow> (\<exists>m. cc_state c = Active \<and> RelayConnectionOpenMessageSchema m \<and> snd r = [On_Connection_Open m])) \<and>
     ((\<exists>x \<in> set (snd r). ends_service x) \<longrightarrow> over (fst r)) \<and> (over c \<longrightarrow> over (fst r))"

definition quiet :: "control_effect list \<Rightarrow> bool" where
  "quiet effs \<longleftrightarrow> list_all (\<lambda>x. \<not> is_open x \<and> \<not> ends_service x) effs"

lemma quiet_simps [simp]:
  "quiet []" "quiet (xs @ ys) = (quiet xs \<and> quiet ys)" "quiet (Ctl_Send j # effs) = quiet effs" "quiet (Ctl_Close k r # effs) = quiet effs"
  "quiet (Ctl_Terminate # effs) = quiet effs" "quiet (Connect_Resolved j # effs) = quiet effs" "quiet (Connect_Rejected r # effs) = quiet effs"
  "quiet (Connect_Refused # effs) = quiet effs" "quiet (Call_Resolved n v # effs) = quiet effs" "quiet (Call_Rejected n r # effs) = quiet effs"
  "quiet (Ctl_Threw r # effs) = quiet effs" "quiet (map (\<lambda>(reqId, kind, n). Call_Rejected n e) ps)"
  by (auto simp: quiet_def is_open_def list_all_iff)

lemma serves_quiet: "quiet effs \<Longrightarrow> (over c \<longrightarrow> over c') \<Longrightarrow> serves c (c', effs)"
  by (auto simp: serves_def quiet_def list_all_iff)

lemma serves_failProtocol: "serves c (failProtocol reason c)"
  by (simp add: failProtocol_def settle_connect_def serves_quiet over_def)

lemma serves_message: "serves c (handleControlMessage opts json_parse raw c)"
proof -
  have p: "serves c (handleProofMessage opts message c)" if "cc_state c = Proving" for message
    using that by (simp add: handleProofMessage_def settle_connect_def socket_send_def serves_quiet serves_failProtocol over_def split: option.split)
  have r: "serves c (c1, effs)" if "resolveMessage message c = (True, c1, effs)" for message c1 effs
    using that by (auto simp: resolveMessage_def finish_def over_def intro!: serves_quiet split: option.splits if_splits)
  have "serves c (c, [On_Connection_Open m])" if "cc_state c = Active" "RelayConnectionOpenMessageSchema m" for m
    using that by (simp add: serves_def over_def)
  moreover have "serves c (c\<lparr>cc_state := Draining\<rparr>, [On_Drain m])" for m by (simp add: serves_def over_def is_open_def)
  ultimately show ?thesis
    using r by (simp add: handleControlMessage_def p serves_failProtocol serves_quiet socket_send_def split: option.split bool.split prod.split)
qed

lemma control_next_serves: "serves c (control_next opts json_parse c e)"
proof (cases e)
  case (CC_Socket_Close code)
  then show ?thesis
    by (auto simp: handleControlClose_def settle_connect_def rejectAll_def Let_def serves_def over_def is_open_def)
next
  case CC_Close_Now
  then show ?thesis by (simp add: control_closeNow_def rejectAll_def serves_quiet over_def Let_def)
next
  case (CC_Request reqId r)
  then show ?thesis by (simp add: control_request_def request_def sendActive_def finish_def serves_quiet over_def Let_def split: prod.split)
next
  case (CC_Request_Timeout reqId)
  then show ?thesis by (simp add: request_timeout_def finish_def serves_quiet over_def split: option.split)
qed (simp_all add: cc_connect_start_def sendHostHello_def serves_message serves_failProtocol control_socket_error_def settle_connect_def
    refreshAuthorization_def sendActive_def serves_quiet over_def)

lemma control_effects:
  assumes "control_next opts json_parse c e = (c', effs)"
  shows "(On_Connection_Open m \<in> set effs \<longrightarrow> cc_state c = Active \<and> RelayConnectionOpenMessageSchema m \<and> effs = [On_Connection_Open m]) \<and>
    ((\<exists>x \<in> set effs. ends_service x) \<longrightarrow> over c') \<and> (over c \<longrightarrow> over c')"
  using control_next_serves [of c opts json_parse e] unfolding assms by (auto simp: serves_def is_open_def)

definition opens_ok :: "control_client \<times> control_effect list \<Rightarrow> bool" where
  "opens_ok w \<longleftrightarrow>
     (\<forall>xs m ys. snd w = xs @ On_Connection_Open m # ys \<longrightarrow> RelayConnectionOpenMessageSchema m \<and> list_all (\<lambda>x. \<not> ends_service x) xs) \<and>
     (list_all (\<lambda>x. \<not> ends_service x) (snd w) \<or> over (fst w))"

lemma opens_ok_step: "opens_ok w \<Longrightarrow> opens_ok (control_step opts json_parse w e)"
proof -
  assume w: "opens_ok w"
  obtain c effs where n: "control_next opts json_parse (fst w) e = (c, effs)" by fastforce
  note ce = control_effects [OF n]
  have "RelayConnectionOpenMessageSchema m \<and> list_all (\<lambda>x. \<not> ends_service x) xs" if eq: "snd w @ effs = xs @ On_Connection_Open m # ys" for xs m ys
  proof (cases "length xs < length (snd w)")
    case True
    then obtain zs where "snd w = xs @ On_Connection_Open m # zs"
      using eq by (auto simp: append_eq_append_conv2 Cons_eq_append_conv append_eq_Cons_conv)
    then show ?thesis using w by (auto simp: opens_ok_def)
  next
    case False
    then have "On_Connection_Open m \<in> set effs"
      using eq by (auto simp: append_eq_append_conv2)
    with ce have a: "cc_state (fst w) = Active" "RelayConnectionOpenMessageSchema m" "effs = [On_Connection_Open m]" by auto
    then have "list_all (\<lambda>x. \<not> ends_service x) (snd w)" using w by (auto simp: opens_ok_def over_def)
    moreover have "xs = snd w" using eq a(3) False by (cases ys rule: rev_cases) (auto simp: append_eq_append_conv2 append_eq_Cons_conv)
    ultimately show ?thesis using a by simp
  qed
  with w ce show ?thesis by (auto simp: opens_ok_def control_step_def n list_all_iff)
qed

interpretation opens: event_machine "control_step opts json_parse" opens_ok for opts json_parse
  by unfold_locales (rule opens_ok_step)

text \<open>
  No phone connection is opened out of turn. Over any run, each connection that the client hands on was
  announced by a message that satisfies the strict schema, and no drain notice and no closing of the control
  connection came before it.
\<close>

theorem no_connection_opens_after_drain:
  assumes "snd (foldl (control_step opts json_parse) (control_new, []) es) = xs @ On_Connection_Open m # ys"
  shows "RelayConnectionOpenMessageSchema m \<and> (\<forall>d. On_Drain d \<notin> set xs) \<and> (\<forall>code. On_Control_Close code \<notin> set xs)"
proof -
  have "opens_ok (foldl (control_step opts json_parse) (control_new, []) es)" by (rule opens.run_inv) (simp add: opens_ok_def)
  with assms have "RelayConnectionOpenMessageSchema m \<and> list_all (\<lambda>x. \<not> ends_service x) xs" by (auto simp: opens_ok_def)
  then show ?thesis by (force simp: list_all_iff)
qed

definition open_message :: json where
  "open_message = JObj [(''type'', JStr ''conn-open''), (''connId'', JStr ''c''), (''connTicket'', JStr (replicate 43 CHR ''A'')),
     (''kind'', JStr ''resume''), (''relayDeviceId'', JStr ''d''), (''attachDeadlineMs'', JNum (Fin 5000))]"

definition opening_parse :: "string \<Rightarrow> json option" where
  "opening_parse raw = Some (if raw = ''ack'' then bare_ack else open_message)"

lemma open_message_valid: "RelayConnectionOpenMessageSchema open_message" "\<not> RelayPingMessageSchema open_message"
  "parseRelayControlMessage opening_parse ''open'' = Some open_message" "parseRelayControlMessage opening_parse ''ack'' = Some bare_ack"
  by (simp_all add: open_message_def opening_parse_def parseRelayControlMessage_def bare_ack_def RelayConnectionOpenMessageSchema_def RelayPingMessageSchema_def
      z_literal_def OpaqueIdSchema_def z_string_def Base64Url32ByteSchema_def z_chars_def is_b64url_char_def list_all_iff z_enum_def z_int_between_def
      z_nonneg_int_def rat_is_int_def MAX_SAFE_INTEGER_def)

theorem no_connection_opens_after_drain_witness:
  "RelayConnectionOpenMessageSchema open_message \<and> (\<forall>d. On_Drain d \<notin> set [Ctl_Send (host_hello plain_options), Connect_Resolved bare_ack])"
proof -
  have "snd (foldl (control_step plain_options opening_parse) (control_new, []) [CC_Connect, CC_Socket_Open, CC_Message ''ack'', CC_Message ''open''])
      = [Ctl_Send (host_hello plain_options), Connect_Resolved bare_ack] @ On_Connection_Open open_message # []"
    by (simp add: control_step_def control_new_def cc_connect_start_def sendHostHello_def handleControlMessage_def
        handleProofMessage_def bare_ack_facts open_message_valid settle_connect_def is_number_def)
  from no_connection_opens_after_drain [OF this] show ?thesis by blast
qed

end
