(* ===== verification/Host_Proof.thy ===== *)
theory Host_Proof
  imports E2ee_Contract
begin

text \<open>
  The proof by which a desktop host shows a relay cell that it holds the key of its host id,
  \<open>src/pie-mobile/upstream/src/main/runtime/relay/relay-host-proof.ts\<close>: the cell sends a boxed transcript and a
  secret, the host checks every field of the transcript against what it knows and answers with a keyed digest.

  Arguments of the model are \<open>nacl.box.open\<close>, the HMAC of \<open>node:crypto\<close>, \<open>Buffer.from(_, 'base64')\<close>, the text
  decoder and the clock. \<open>timingSafeEqual\<close> on arrays of one length is equality. The two epochs are integers, which the
  schemas of the messages that carry them require.
\<close>

section \<open>Model\<close>

definition HOST_PROOF_TRANSCRIPT_DOMAIN :: string where "HOST_PROOF_TRANSCRIPT_DOMAIN = ''orca-relay-host-proof/v1''"
definition HOST_CHALLENGE_PLAINTEXT_DOMAIN :: string where "HOST_CHALLENGE_PLAINTEXT_DOMAIN = ''orca-relay-host-challenge/v1''"

record proof_env =
  pe_buffer_base64 :: "string \<Rightarrow> bytes"
  pe_box_open :: "bytes \<Rightarrow> bytes \<Rightarrow> bytes \<Rightarrow> bytes \<Rightarrow> bytes option" \<comment> \<open>box, nonce, their public key, our secret key\<close>
  pe_hmac :: "bytes \<Rightarrow> bytes \<Rightarrow> bytes" \<comment> \<open>key, message\<close>
  pe_text_decode :: "bytes \<Rightarrow> string"
  pe_now :: rat

record host_challenge =
  hc_challengeId :: string
  hc_relayEphemeralPublicKeyB64 :: string
  hc_nonceB64 :: string
  hc_ciphertextB64 :: string
  hc_expiresAt :: rat

record host_proof_context =
  hp_relayOrigin :: string
  hp_userId :: string
  hp_profileId :: string
  hp_organizationId :: string
  hp_relayHostId :: string
  hp_hostPublicKey :: bytes
  hp_hostSecretKey :: bytes
  hp_assignmentEpoch :: int
  hp_previousGeneration :: "int option"
  hp_resumeRequested :: bool

definition proof_decodeCanonicalBase64 :: "proof_env \<Rightarrow> string \<Rightarrow> nat \<Rightarrow> bytes option" where
  "proof_decodeCanonicalBase64 env value expectedBytes =
     (if \<not> b64_pattern value then None
      else (let decoded = pe_buffer_base64 env value
            in if length decoded = expectedBytes \<and> btoa decoded = value then Some decoded else None))"

definition uint64 :: "int \<Rightarrow> bytes" where
  "uint64 value = be_bytes 8 (nat (value mod 2 ^ 64))"

definition equal_field :: "bytes option \<Rightarrow> bytes \<Rightarrow> bool" where
  "equal_field left right \<longleftrightarrow> (case left of None \<Rightarrow> False | Some l \<Rightarrow> length l = length right \<and> l = right)"

text \<open>The loop of \<open>parseTranscript\<close> from an offset on: the bytes from there and the fields so far. A read past the end throws.\<close>

function parse_fields :: "(bytes \<Rightarrow> string) \<Rightarrow> bytes \<Rightarrow> (string \<times> bytes) list \<Rightarrow> (string \<times> bytes) list option" where
  "parse_fields decode rest fs =
     (if rest = [] then Some fs
      else if length rest < 4 then None
      else (let nameLength = be_value (take 4 rest);
                name = decode (take nameLength (drop 4 rest));
                rest1 = drop nameLength (drop 4 rest)
            in if length rest1 < 4 then None
               else (let valueLength = be_value (take 4 rest1);
                         rest2 = drop 4 rest1
                     in if name \<in> fst ` set fs \<or> valueLength > length rest2 then None
                        else parse_fields decode (drop valueLength rest2) (fs @ [(name, take valueLength rest2)]))))"
  by auto

termination
  by (relation "measure (\<lambda>(decode, rest, fs). length rest)") (auto simp: min_def split: if_splits)

declare parse_fields.simps [simp del]

definition parseTranscript :: "(bytes \<Rightarrow> string) \<Rightarrow> bytes \<Rightarrow> (string \<times> bytes) list option" where
  "parseTranscript decode transcript = parse_fields decode transcript []"

definition readUint64 :: "bytes option \<Rightarrow> nat option" where
  "readUint64 value =
     (case value of
        None \<Rightarrow> None
      | Some bs \<Rightarrow> (if length bs \<noteq> 8 then None else if be_value bs \<le> 2 ^ 53 - 1 then Some (be_value bs) else None))"

definition validateTranscript ::
  "proof_env \<Rightarrow> bytes \<Rightarrow> host_challenge \<Rightarrow> host_proof_context \<Rightarrow> bytes \<Rightarrow> bytes \<Rightarrow> bool" where
  "validateTranscript env transcript challenge ctx relayKey nonce \<longleftrightarrow>
     (case parseTranscript (pe_text_decode env) transcript of
        None \<Rightarrow> False
      | Some fs \<Rightarrow>
          length fs = 16 \<and>
          (case readUint64 (map_of fs ''issuedAt'') of
             None \<Rightarrow> False
           | Some issuedAt \<Rightarrow>
               of_nat issuedAt \<le> pe_now env \<and> pe_now env \<le> hc_expiresAt challenge \<and>
               hc_expiresAt challenge - of_nat issuedAt \<le> 10000) \<and>
          map_option of_nat (readUint64 (map_of fs ''expiresAt'')) = Some (hc_expiresAt challenge) \<and>
          equal_field (map_of fs ''protocol'') (utf8 HOST_PROOF_TRANSCRIPT_DOMAIN) \<and>
          equal_field (map_of fs ''version'') [1] \<and>
          equal_field (map_of fs ''relayOrigin'') (utf8 (hp_relayOrigin ctx)) \<and>
          equal_field (map_of fs ''relayEphemeralPublicKey'') relayKey \<and>
          equal_field (map_of fs ''challengeNonce'') nonce \<and>
          equal_field (map_of fs ''challengeId'') (utf8 (hc_challengeId challenge)) \<and>
          equal_field (map_of fs ''userId'') (utf8 (hp_userId ctx)) \<and>
          equal_field (map_of fs ''profileId'') (utf8 (hp_profileId ctx)) \<and>
          equal_field (map_of fs ''organizationId'') (utf8 (hp_organizationId ctx)) \<and>
          equal_field (map_of fs ''relayHostId'') (utf8 (hp_relayHostId ctx)) \<and>
          equal_field (map_of fs ''hostPublicKey'') (hp_hostPublicKey ctx) \<and>
          equal_field (map_of fs ''assignmentEpoch'') (uint64 (hp_assignmentEpoch ctx)) \<and>
          equal_field (map_of fs ''previousGeneration'')
            (case hp_previousGeneration ctx of None \<Rightarrow> [] | Some g \<Rightarrow> uint64 g) \<and>
          equal_field (map_of fs ''resumeRequested'') [if hp_resumeRequested ctx then 1 else 0])"

definition challenge_domain :: bytes where
  "challenge_domain = utf8 (HOST_CHALLENGE_PLAINTEXT_DOMAIN @ [CHR 0x00])"

definition ack_domain :: bytes where
  "ack_domain = utf8 (HOST_PROOF_TRANSCRIPT_DOMAIN @ [CHR 0x00] @ ''ack'' @ [CHR 0x00])"

definition answerRelayHostChallenge :: "proof_env \<Rightarrow> host_challenge \<Rightarrow> host_proof_context \<Rightarrow> string option" where
  "answerRelayHostChallenge env challenge ctx =
     (case (proof_decodeCanonicalBase64 env (hc_relayEphemeralPublicKeyB64 challenge) 32,
            proof_decodeCanonicalBase64 env (hc_nonceB64 challenge) 24) of
        (Some relayKey, Some nonce) \<Rightarrow>
          (let ciphertext = pe_buffer_base64 env (hc_ciphertextB64 challenge) in
           if btoa ciphertext \<noteq> hc_ciphertextB64 challenge then None
           else (case pe_box_open env ciphertext nonce relayKey (hp_hostSecretKey ctx) of
                   None \<Rightarrow> None
                 | Some plaintext \<Rightarrow>
                     (if \<not> equal_field (Some (take (length challenge_domain) plaintext)) challenge_domain \<or>
                         length plaintext < length challenge_domain + 36
                      then None
                      else (let transcriptLength = be_value (take 4 (drop (length challenge_domain) plaintext));
                                transcriptStart = length challenge_domain + 4;
                                secretStart = transcriptStart + transcriptLength
                            in if secretStart + 32 \<noteq> length plaintext then None
                               else (let transcript = take transcriptLength (drop transcriptStart plaintext)
                                     in if \<not> validateTranscript env transcript challenge ctx relayKey nonce then None
                                        else Some (btoa (pe_hmac env (drop secretStart plaintext) (ack_domain @ transcript))))))))
      | _ \<Rightarrow> None)"

section \<open>The transcript format\<close>

lemma be_value_less: "be_value bs < 256 ^ length bs"
proof (induction bs)
  case (Cons b bs)
  have "unat b \<le> 255" using unat_byte_less [of b] by linarith
  then have "unat b * 256 ^ length bs \<le> 255 * 256 ^ length bs" by (rule mult_right_mono) simp
  then have "be_value (b # bs) < 256 * 256 ^ length bs" using Cons unfolding be_value.simps by linarith
  then show ?case by simp
qed simp

lemma be_bytes_mod: "n \<le> k \<Longrightarrow> be_bytes n (v mod 256 ^ k) = be_bytes n v"
proof (induction n)
  case (Suc n)
  then have k: "256 ^ k = 256 ^ n * (256 * 256 ^ (k - Suc n) :: nat)"
    by (simp flip: power_Suc power_add)
  have "v mod 256 ^ k div 256 ^ n mod 256 = v div 256 ^ n mod 256"
    unfolding k by (simp add: mod_mult2_eq [of v "256 ^ n"] mod_mult2_eq [of "v div 256 ^ n" 256])
  then have "unat (byte_at n (v mod 256 ^ k)) = unat (byte_at n v)" by (simp add: unat_byte_at)
  then have "byte_at n (v mod 256 ^ k) = byte_at n v" by (simp add: word_unat_eq_iff)
  with Suc show ?case by simp
qed simp

lemma be_bytes_be_value: "be_bytes (length bs) (be_value bs) = bs"
proof (induction bs)
  case (Cons b bs)
  let ?n = "length bs"
  have "be_value (b # bs) div 256 ^ ?n = unat b" using be_value_less [of bs] by simp
  then have "byte_at ?n (be_value (b # bs)) = b" by (simp add: byte_at_def)
  moreover have "be_value (b # bs) mod 256 ^ ?n = be_value bs" using be_value_less [of bs] by simp
  then have "be_bytes ?n (be_value (b # bs)) = be_bytes ?n (be_value bs)" using be_bytes_mod [of ?n ?n "be_value (b # bs)"] by simp
  ultimately show ?case using Cons by simp
qed simp

definition encode_transcript :: "(string \<times> bytes) list \<Rightarrow> bytes" where
  "encode_transcript fs = concat (map encode_field fs)"

lemma uint32_value: "n < 2 ^ 32 \<Longrightarrow> be_value (uint32 n) = n" "length (uint32 n) = 4"
  by (simp_all add: uint32_def be_value_be_bytes del: be_bytes.simps)

lemma uint32_nonempty: "uint32 n \<noteq> []"
  using uint32_value(2) [of n] by auto

lemma parse_encoded:
  assumes "\<And>s. decode (utf8 s) = s" "distinct (map fst (acc @ fs))"
    and "list_all (\<lambda>f. length (utf8 (fst f)) < 2 ^ 32 \<and> length (snd f) < 2 ^ 32) fs"
  shows "parse_fields decode (encode_transcript fs) acc = Some (acc @ fs)"
  using assms(2,3)
proof (induction fs arbitrary: acc)
  case Nil
  then show ?case by (simp add: encode_transcript_def parse_fields.simps)
next
  case (Cons f fs)
  obtain n v where f: "f = (n, v)" by fastforce
  let ?r = "encode_transcript fs"
  have len: "length (utf8 n) < 2 ^ 32" "length v < 2 ^ 32" using Cons.prems(2) f by simp_all
  have e: "encode_transcript (f # fs) = uint32 (length (utf8 n)) @ utf8 n @ uint32 (length v) @ v @ ?r"
    by (simp add: encode_transcript_def encode_field_def f)
  have "n \<notin> fst ` set acc" using Cons.prems(1) f by auto
  moreover have "parse_fields decode ?r (acc @ [(n, v)]) = Some ((acc @ [(n, v)]) @ fs)"
    using Cons.prems f by (intro Cons.IH) auto
  ultimately show ?case
    unfolding e using len by (subst parse_fields.simps) (simp add: uint32_value uint32_nonempty assms(1) f)
qed

definition transcript_ok :: "(string \<times> bytes) list \<Rightarrow> bool" where
  "transcript_ok fs \<longleftrightarrow> distinct (map fst fs) \<and> list_all (\<lambda>f. length (utf8 (fst f)) < 2 ^ 32 \<and> length (snd f) < 2 ^ 32) fs"

interpretation transcripts: codec encode_transcript "parseTranscript utf8_decode" transcript_ok
  by unfold_locales (simp add: parseTranscript_def transcript_ok_def parse_encoded utf8_decode_utf8)

lemma parse_fields_distinct:
  "parse_fields decode rest acc = Some fs \<Longrightarrow> distinct (map fst acc) \<Longrightarrow> distinct (map fst fs)"
proof (induction decode rest acc rule: parse_fields.induct)
  case (1 decode rest acc)
  then show ?case
    by (subst (asm) (2) parse_fields.simps) (auto simp: Let_def split: if_splits)
qed

section \<open>What a proof attests\<close>

text \<open>The sixteen fields that the host expects, for a challenge issued and expiring at the given times.\<close>

definition expected_fields :: "host_challenge \<Rightarrow> host_proof_context \<Rightarrow> bytes \<Rightarrow> bytes \<Rightarrow> nat \<Rightarrow> nat \<Rightarrow> (string \<times> bytes) list" where
  "expected_fields challenge ctx relayKey nonce issuedAt expiresAt =
     [(''protocol'', utf8 HOST_PROOF_TRANSCRIPT_DOMAIN), (''version'', [1]), (''relayOrigin'', utf8 (hp_relayOrigin ctx)),
      (''relayEphemeralPublicKey'', relayKey), (''challengeNonce'', nonce), (''challengeId'', utf8 (hc_challengeId challenge)),
      (''issuedAt'', be_bytes 8 issuedAt), (''expiresAt'', be_bytes 8 expiresAt), (''userId'', utf8 (hp_userId ctx)),
      (''profileId'', utf8 (hp_profileId ctx)), (''organizationId'', utf8 (hp_organizationId ctx)),
      (''relayHostId'', utf8 (hp_relayHostId ctx)), (''hostPublicKey'', hp_hostPublicKey ctx),
      (''assignmentEpoch'', uint64 (hp_assignmentEpoch ctx)),
      (''previousGeneration'', case hp_previousGeneration ctx of None \<Rightarrow> [] | Some g \<Rightarrow> uint64 g),
      (''resumeRequested'', [if hp_resumeRequested ctx then 1 else 0])]"

definition fresh_challenge :: "proof_env \<Rightarrow> host_challenge \<Rightarrow> nat \<Rightarrow> nat \<Rightarrow> bool" where
  "fresh_challenge env challenge issuedAt expiresAt \<longleftrightarrow>
     of_nat issuedAt \<le> pe_now env \<and> pe_now env \<le> hc_expiresAt challenge \<and> hc_expiresAt challenge = of_nat expiresAt \<and>
     of_nat expiresAt - (of_nat issuedAt :: rat) \<le> 10000 \<and> issuedAt \<le> 2 ^ 53 - 1 \<and> expiresAt \<le> 2 ^ 53 - 1"

lemma equal_field_iff: "equal_field l r \<longleftrightarrow> l = Some r"
  by (auto simp: equal_field_def split: option.splits)

lemma readUint64_iff: "readUint64 v = Some n \<longleftrightarrow> v = Some (be_bytes 8 n) \<and> n \<le> 2 ^ 53 - 1"
proof
  assume a: "readUint64 v = Some n"
  then obtain bs where bs: "v = Some bs" "length bs = 8" "be_value bs = n" "n \<le> 2 ^ 53 - 1"
    by (auto simp: readUint64_def split: option.splits if_splits)
  then show "v = Some (be_bytes 8 n) \<and> n \<le> 2 ^ 53 - 1" using be_bytes_be_value [of bs] by simp
qed (auto simp: readUint64_def be_value_be_bytes simp del: be_bytes.simps)

lemma map_of_eqI:
  assumes "distinct (map fst fs)" "distinct (map fst es)" "length fs = length es" "\<And>n v. (n, v) \<in> set es \<Longrightarrow> map_of fs n = Some v"
  shows "map_of fs = map_of es"
proof
  fix n
  have "fst ` set es \<subseteq> fst ` set fs" using assms(4) by (force dest: map_of_SomeD)
  moreover have "card (fst ` set es) = card (fst ` set fs)"
    using assms(1-3) by (metis distinct_card length_map set_map)
  ultimately have same: "fst ` set es = fst ` set fs" by (simp add: card_subset_eq)
  show "map_of fs n = map_of es n"
  proof (cases "map_of es n")
    case None
    then have "n \<notin> fst ` set fs" using same by (simp add: map_of_eq_None_iff)
    then have "map_of fs n = None" by (simp add: map_of_eq_None_iff)
    with None show ?thesis by simp
  qed (simp add: assms(4) map_of_SomeD)
qed

lemma expected_names: "distinct (map fst (expected_fields challenge ctx k n i e))" "length (expected_fields challenge ctx k n i e) = 16"
  by (simp_all add: expected_fields_def)

lemma validate_iff:
  "validateTranscript env transcript challenge ctx k nonce \<longleftrightarrow>
     (\<exists>fs i e. parseTranscript (pe_text_decode env) transcript = Some fs \<and> map_of fs = map_of (expected_fields challenge ctx k nonce i e) \<and>
        length fs = 16 \<and> fresh_challenge env challenge i e)"
proof
  assume v: "validateTranscript env transcript challenge ctx k nonce"
  obtain fs where fs: "parseTranscript (pe_text_decode env) transcript = Some fs" "length fs = 16"
    using v by (auto simp: validateTranscript_def split: option.splits)
  obtain i e where ie: "readUint64 (map_of fs ''issuedAt'') = Some i" "readUint64 (map_of fs ''expiresAt'') = Some e"
      "of_nat e = hc_expiresAt challenge"
    using v fs(1) by (auto simp: validateTranscript_def split: option.splits)
  have d: "distinct (map fst fs)" using fs(1) parse_fields_distinct [of _ transcript "[]" fs] by (simp add: parseTranscript_def)
  have "map_of fs = map_of (expected_fields challenge ctx k nonce i e)"
    by (rule map_of_eqI [OF d]) (use v fs ie in \<open>auto simp: expected_names expected_fields_def validateTranscript_def equal_field_iff readUint64_iff\<close>)
  moreover have "fresh_challenge env challenge i e"
    using v fs ie by (auto simp: fresh_challenge_def validateTranscript_def readUint64_iff)
  ultimately show "\<exists>fs i e. parseTranscript (pe_text_decode env) transcript = Some fs \<and>
      map_of fs = map_of (expected_fields challenge ctx k nonce i e) \<and> length fs = 16 \<and> fresh_challenge env challenge i e"
    using fs by blast
next
  assume "\<exists>fs i e. parseTranscript (pe_text_decode env) transcript = Some fs \<and>
      map_of fs = map_of (expected_fields challenge ctx k nonce i e) \<and> length fs = 16 \<and> fresh_challenge env challenge i e"
  then obtain fs i e where fs: "parseTranscript (pe_text_decode env) transcript = Some fs"
      "map_of fs = map_of (expected_fields challenge ctx k nonce i e)" "length fs = 16" "fresh_challenge env challenge i e" by blast
  then have r: "readUint64 (map_of fs ''issuedAt'') = Some i" "readUint64 (map_of fs ''expiresAt'') = Some e"
    by (simp_all add: readUint64_iff expected_fields_def fresh_challenge_def del: be_bytes.simps)
  then show "validateTranscript env transcript challenge ctx k nonce"
    unfolding validateTranscript_def fs(1) option.case r using fs(3,4)
    by (simp add: fs(2) equal_field_iff fresh_challenge_def) (simp add: expected_fields_def)
qed

section \<open>Properties\<close>

lemma split_in_four: "xs = take d xs @ take k (drop d xs) @ take n (drop (d + k) xs) @ drop (d + k + n) xs"
proof -
  have "take n (drop (d + k) xs) @ drop (d + k + n) xs = drop (d + k) xs"
    using append_take_drop_id [of n "drop (d + k) xs"] by (simp add: add.commute add.left_commute)
  moreover have "take k (drop d xs) @ drop (d + k) xs = drop d xs" using append_take_drop_id [of k "drop d xs"] by (simp add: add.commute)
  ultimately show ?thesis by simp
qed

lemma answer_iff:
  "answerRelayHostChallenge env challenge ctx = Some p \<longleftrightarrow>
     (\<exists>relayKey nonce box transcript secret.
        proof_decodeCanonicalBase64 env (hc_relayEphemeralPublicKeyB64 challenge) 32 = Some relayKey \<and>
        proof_decodeCanonicalBase64 env (hc_nonceB64 challenge) 24 = Some nonce \<and>
        box = pe_buffer_base64 env (hc_ciphertextB64 challenge) \<and> btoa box = hc_ciphertextB64 challenge \<and>
        pe_box_open env box nonce relayKey (hp_hostSecretKey ctx) = Some (challenge_domain @ uint32 (length transcript) @ transcript @ secret) \<and>
        length secret = 32 \<and> length transcript < 2 ^ 32 \<and> validateTranscript env transcript challenge ctx relayKey nonce \<and>
        p = btoa (pe_hmac env secret (ack_domain @ transcript)))" (is "?l \<longleftrightarrow> ?r")
proof
  let ?d = "length challenge_domain"
  assume ?l
  then obtain k n plain where o: "proof_decodeCanonicalBase64 env (hc_relayEphemeralPublicKeyB64 challenge) 32 = Some k"
      "proof_decodeCanonicalBase64 env (hc_nonceB64 challenge) 24 = Some n"
      "btoa (pe_buffer_base64 env (hc_ciphertextB64 challenge)) = hc_ciphertextB64 challenge"
      "pe_box_open env (pe_buffer_base64 env (hc_ciphertextB64 challenge)) n k (hp_hostSecretKey ctx) = Some plain"
      "take ?d plain = challenge_domain" "?d + 36 \<le> length plain"
    and l: "?d + 4 + be_value (take 4 (drop ?d plain)) + 32 = length plain"
      "validateTranscript env (take (be_value (take 4 (drop ?d plain))) (drop (?d + 4) plain)) challenge ctx k n"
      "p = btoa (pe_hmac env (drop (?d + 4 + be_value (take 4 (drop ?d plain))) plain)
        (ack_domain @ take (be_value (take 4 (drop ?d plain))) (drop (?d + 4) plain)))"
    by (auto simp: answerRelayHostChallenge_def Let_def equal_field_iff not_less split: option.splits if_splits)
  let ?n = "be_value (take 4 (drop ?d plain))"
  let ?t = "take ?n (drop (?d + 4) plain)"
  let ?s = "drop (?d + 4 + ?n) plain"
  have len: "length ?t = ?n" "length ?s = 32" using l(1) by simp_all
  have "length (take 4 (drop ?d plain)) = 4" using o(6) by simp
  then have u: "uint32 ?n = take 4 (drop ?d plain)" "?n < 2 ^ 32"
    using be_bytes_be_value [of "take 4 (drop ?d plain)"] be_value_less [of "take 4 (drop ?d plain)"] by (simp_all add: uint32_def del: be_bytes.simps)
  have "challenge_domain @ uint32 (length ?t) @ ?t @ ?s = take ?d plain @ take 4 (drop ?d plain) @ ?t @ ?s"
    unfolding len(1) u(1) o(5) ..
  also have "\<dots> = plain" by (rule split_in_four [symmetric])
  finally have plain: "plain = challenge_domain @ uint32 (length ?t) @ ?t @ ?s" by (rule sym)
  show ?r
    by (rule exI [of _ k], rule exI [of _ n], rule exI [of _ "pe_buffer_base64 env (hc_ciphertextB64 challenge)"],
        rule exI [of _ ?t], rule exI [of _ ?s]) (intro conjI o(1,2,3) refl l(2,3) len(2)
        o(4) [THEN trans] arg_cong [OF plain], use len(1) u(2) in simp)
next
  assume ?r
  then show ?l
    by (auto simp: answerRelayHostChallenge_def Let_def equal_field_iff uint32_value)
qed

lemma fields_small:
  "length (encode_transcript fs) < 2 ^ 32 \<Longrightarrow> list_all (\<lambda>f. length (utf8 (fst f)) < 2 ^ 32 \<and> length (snd f) < 2 ^ 32) fs"
  by (induction fs) (auto simp: encode_transcript_def encode_field_def uint32_value)

lemma honest_answer:
  assumes "hc_relayEphemeralPublicKeyB64 challenge = btoa relayKey" "hc_nonceB64 challenge = btoa nonce" "hc_ciphertextB64 challenge = btoa box"
    and "length relayKey = 32" "length nonce = 24" "length secret = 32"
    and "\<And>bs. pe_buffer_base64 env (btoa bs) = bs" "\<And>s. pe_text_decode env (utf8 s) = s"
    and "set fs = set (expected_fields challenge ctx relayKey nonce i e)" "length fs = 16"
    and "fresh_challenge env challenge i e" "length (encode_transcript fs) < 2 ^ 32"
    and "pe_box_open env box nonce relayKey (hp_hostSecretKey ctx) =
      Some (challenge_domain @ uint32 (length (encode_transcript fs)) @ encode_transcript fs @ secret)"
  shows "answerRelayHostChallenge env challenge ctx = Some (btoa (pe_hmac env secret (ack_domain @ encode_transcript fs)))"
proof -
  have names: "fst ` set fs = fst ` set (expected_fields challenge ctx relayKey nonce i e)" using assms(9) by simp
  have d: "distinct (map fst fs)"
    using expected_names [of challenge ctx relayKey nonce i e] names assms(10)
    by (metis card_distinct distinct_card length_map set_map)
  have small: "list_all (\<lambda>f. length (utf8 (fst f)) < 2 ^ 32 \<and> length (snd f) < 2 ^ 32) fs"
    using assms(12) by (rule fields_small)
  have "parseTranscript (pe_text_decode env) (encode_transcript fs) = Some fs"
    using parse_encoded [of "pe_text_decode env" "[]" fs] assms(8) d small by (simp add: parseTranscript_def)
  moreover have "map_of fs = map_of (expected_fields challenge ctx relayKey nonce i e)"
    using map_of_inject_set [OF d expected_names(1)] assms(9) by blast
  ultimately have v: "validateTranscript env (encode_transcript fs) challenge ctx relayKey nonce"
    unfolding validate_iff using assms(10,11) by blast
  have dec: "proof_decodeCanonicalBase64 env (btoa bs) (length bs) = Some bs" for bs
    by (simp add: proof_decodeCanonicalBase64_def assms(7))
  from v dec [of relayKey] dec [of nonce] show ?thesis
    unfolding answer_iff using assms by (intro exI [of _ relayKey] exI [of _ nonce] exI [of _ box] exI [of _ "encode_transcript fs"] exI [of _ secret]) simp
qed

text \<open>A concrete host and cell: a box that is its own content, a decoder of base64, and a digest that returns its key.\<close>

definition sample_proof_env :: proof_env where
  "sample_proof_env = \<lparr>pe_buffer_base64 = (\<lambda>s. the (atob s)), pe_box_open = (\<lambda>box nonce k s. Some box), pe_hmac = (\<lambda>k m. k),
     pe_text_decode = utf8_decode, pe_now = 3000\<rparr>"

definition sample_host :: host_proof_context where
  "sample_host = \<lparr>hp_relayOrigin = ''https://cell'', hp_userId = ''u'', hp_profileId = ''p'', hp_organizationId = ''o'', hp_relayHostId = ''h'',
     hp_hostPublicKey = replicate 32 4, hp_hostSecretKey = replicate 32 5, hp_assignmentEpoch = 7, hp_previousGeneration = None, hp_resumeRequested = False\<rparr>"

definition sample_transcript :: bytes where
  "sample_transcript = encode_transcript (expected_fields
     \<lparr>hc_challengeId = ''c'', hc_relayEphemeralPublicKeyB64 = [], hc_nonceB64 = [], hc_ciphertextB64 = [], hc_expiresAt = 6000\<rparr>
     sample_host (replicate 32 1) (replicate 24 2) 1000 6000)"

definition sample_challenge :: host_challenge where
  "sample_challenge = \<lparr>hc_challengeId = ''c'', hc_relayEphemeralPublicKeyB64 = btoa (replicate 32 1), hc_nonceB64 = btoa (replicate 24 2),
     hc_ciphertextB64 = btoa (challenge_domain @ uint32 (length sample_transcript) @ sample_transcript @ replicate 32 3), hc_expiresAt = 6000\<rparr>"

lemma sample_answer:
  shows "hc_relayEphemeralPublicKeyB64 sample_challenge = btoa (replicate 32 1)" "hc_nonceB64 sample_challenge = btoa (replicate 24 2)"
    "hc_ciphertextB64 sample_challenge = btoa (challenge_domain @ uint32 (length sample_transcript) @ sample_transcript @ replicate 32 3)"
    "encode_transcript (expected_fields sample_challenge sample_host (replicate 32 1) (replicate 24 2) 1000 6000) = sample_transcript"
    "fresh_challenge sample_proof_env sample_challenge 1000 6000" "length sample_transcript < 2 ^ 32"
proof -
  show "length sample_transcript < 2 ^ 32"
    by (simp add: sample_transcript_def encode_transcript_def expected_fields_def encode_field_def uint32_value sample_host_def uint64_def
        HOST_PROOF_TRANSCRIPT_DOMAIN_def utf8_def utf8_char_def del: be_bytes.simps)
qed (simp_all add: sample_challenge_def sample_transcript_def expected_fields_def fresh_challenge_def sample_proof_env_def)

lemma sample_answered: "answerRelayHostChallenge sample_proof_env sample_challenge sample_host = Some (btoa (replicate 32 3))"
  using honest_answer [OF sample_answer(1-3), of _ sample_proof_env "expected_fields sample_challenge sample_host (replicate 32 1) (replicate 24 2) 1000 6000"
    sample_host 1000 6000] sample_answer(4-6)
  by (simp add: expected_names sample_proof_env_def atob_btoa utf8_decode_utf8)

text \<open>
  Property C24. A host proof attests exactly what the host believes. Whatever a cell, or someone in its place, sends as
  challenge, if the host answers it then the box held a transcript whose fields are exactly the sixteen the host
  expects, with its own identity, host id, public key, assignment and generation and the cell's origin and key, the
  challenge was issued at most ten seconds before it expires and has not expired, and the answer is the keyed digest of
  that transcript under the secret of the box.
\<close>

theorem host_proof_attests_own_identity:
  assumes "answerRelayHostChallenge env challenge ctx = Some p"
  shows "\<exists>relayKey nonce transcript secret fs i e.
    hc_relayEphemeralPublicKeyB64 challenge = btoa relayKey \<and> hc_nonceB64 challenge = btoa nonce \<and>
    pe_box_open env (pe_buffer_base64 env (hc_ciphertextB64 challenge)) nonce relayKey (hp_hostSecretKey ctx) =
      Some (challenge_domain @ uint32 (length transcript) @ transcript @ secret) \<and>
    parseTranscript (pe_text_decode env) transcript = Some fs \<and> length fs = 16 \<and>
    map_of fs = map_of (expected_fields challenge ctx relayKey nonce i e) \<and> fresh_challenge env challenge i e \<and>
    length secret = 32 \<and> p = btoa (pe_hmac env secret (ack_domain @ transcript))"
proof -
  have decoded: "v = btoa bs" if "proof_decodeCanonicalBase64 env v n = Some bs" for v n bs
    using that by (auto simp: proof_decodeCanonicalBase64_def Let_def split: if_splits)
  from assms obtain relayKey nonce transcript secret where a:
      "proof_decodeCanonicalBase64 env (hc_relayEphemeralPublicKeyB64 challenge) 32 = Some relayKey"
      "proof_decodeCanonicalBase64 env (hc_nonceB64 challenge) 24 = Some nonce"
      "pe_box_open env (pe_buffer_base64 env (hc_ciphertextB64 challenge)) nonce relayKey (hp_hostSecretKey ctx) =
         Some (challenge_domain @ uint32 (length transcript) @ transcript @ secret)"
      "length secret = 32" "validateTranscript env transcript challenge ctx relayKey nonce"
      "p = btoa (pe_hmac env secret (ack_domain @ transcript))"
    unfolding answer_iff by blast
  from a(5) obtain fs i e where "parseTranscript (pe_text_decode env) transcript = Some fs" "length fs = 16"
      "map_of fs = map_of (expected_fields challenge ctx relayKey nonce i e)" "fresh_challenge env challenge i e"
    unfolding validate_iff by blast
  with a decoded show ?thesis by blast
qed

theorem host_proof_attests_own_identity_witness:
  "\<exists>transcript fs. answerRelayHostChallenge sample_proof_env sample_challenge sample_host = Some (btoa (replicate 32 3)) \<and>
     parseTranscript utf8_decode transcript = Some fs \<and> map_of fs ''relayHostId'' = Some (utf8 ''h'')"
proof -
  obtain transcript fs k n i e where t: "parseTranscript (pe_text_decode sample_proof_env) transcript = Some fs"
      "map_of fs = map_of (expected_fields sample_challenge sample_host k n i e)"
    using host_proof_attests_own_identity [OF sample_answered] by blast
  have "map_of fs ''relayHostId'' = Some (utf8 ''h'')"
    unfolding t(2) by (simp add: expected_fields_def sample_host_def)
  moreover have "parseTranscript utf8_decode transcript = Some fs" using t(1) by (simp add: sample_proof_env_def)
  ultimately show ?thesis using sample_answered by blast
qed

text \<open>
  An honest challenge is answered. When the cell boxes the fields the host expects, in any order, with a
  secret of thirty-two bytes, and the challenge is fresh, the host answers with the digest that the cell can compute
  itself from the transcript and the secret.
\<close>

theorem honest_challenge_is_answered:
  assumes "hc_relayEphemeralPublicKeyB64 challenge = btoa relayKey" "hc_nonceB64 challenge = btoa nonce" "hc_ciphertextB64 challenge = btoa box"
    and "length relayKey = 32" "length nonce = 24" "length secret = 32"
    and "\<And>bs. pe_buffer_base64 env (btoa bs) = bs" "\<And>s. pe_text_decode env (utf8 s) = s"
    and "set fs = set (expected_fields challenge ctx relayKey nonce i e)" "length fs = 16"
    and "fresh_challenge env challenge i e" "length (encode_transcript fs) < 2 ^ 32"
    and "pe_box_open env box nonce relayKey (hp_hostSecretKey ctx) =
      Some (challenge_domain @ uint32 (length (encode_transcript fs)) @ encode_transcript fs @ secret)"
  shows "answerRelayHostChallenge env challenge ctx = Some (btoa (pe_hmac env secret (ack_domain @ encode_transcript fs)))"
  by (rule honest_answer [OF assms])

theorem honest_challenge_is_answered_witness:
  "answerRelayHostChallenge sample_proof_env sample_challenge sample_host = Some (btoa (pe_hmac sample_proof_env (replicate 32 3) (ack_domain @ sample_transcript)))"
  using honest_challenge_is_answered [OF sample_answer(1-3), of _ sample_proof_env "expected_fields sample_challenge sample_host (replicate 32 1) (replicate 24 2) 1000 6000"
    sample_host 1000 6000] sample_answer(4-6)
  by (simp add: expected_names sample_proof_env_def atob_btoa utf8_decode_utf8)

end
