(* ===== verification/Mobile_Channel.thy ===== *)
theory Mobile_Channel
  imports E2ee_Channel
begin

text \<open>
  The phone's end of an encrypted socket,
  \<open>src/pie-mobile/upstream/mobile/src/transport/mobile-e2ee-v2-physical-channel.ts\<close>, over the client session and the
  outbound queue, and its composition with the desktop's channel.

  Messages are processed one after the other on a promise chain, each with the generation it arrived in;
  decoding a binary message is asynchronous and ends in an event of its own. A throw inside the processing of a
  message is caught by the chain and reported, unless the channel was disposed meanwhile.
\<close>

section \<open>State\<close>

datatype mobile_state = Awaiting_Ready | Awaiting_Authenticated | Mobile_Ready

record mobile_env =
  me_crypto :: crypto_lib
  me_text_decode :: "bytes \<Rightarrow> string"
  me_parse :: "string \<Rightarrow> json option"
  me_stringify :: "json \<Rightarrow> string"
  me_deviceToken :: string

record mobile_channel =
  mc_state :: mobile_state
  mc_generation :: nat
  mc_session :: client_session
  mc_queue :: "v2_item ws_queue"
  mc_inboundChain :: "(raw_frame \<times> nat) list"
  mc_decoding :: "nat option"

datatype mobile_error =
    Expected_Plaintext_Ready | Invalid_Ready_JSON | Invalid_Ready | Authentication_Rejected | Invalid_Authenticated
  | Outbound_Overflow | Session_Error

datatype mobile_effect =
    Mx_Send raw_frame
  | Mx_Authenticated
  | Mx_Text string
  | Mx_Binary bytes
  | Mx_Error mobile_error
  | Mx_Threw

definition mobile_new :: "client_session \<Rightarrow> mobile_channel" where
  "mobile_new c = \<lparr>mc_state = Awaiting_Ready, mc_generation = 0, mc_session = c, mc_queue = createWsOutboundBackpressureQueue,
     mc_inboundChain = [], mc_decoding = None\<rparr>"

section \<open>Sending\<close>

definition mobile_send :: "crypto_lib \<Rightarrow> client_session \<times> raw_frame list \<Rightarrow> v2_item \<Rightarrow> (client_session \<times> raw_frame list) option" where
  "mobile_send cr s item =
     (case item of
        V2_Text p \<Rightarrow>
          (case client_sealText cr p (fst s) of Inl _ \<Rightarrow> None | Inr (t, c) \<Rightarrow> Some (c, snd s @ [Raw_Text t]))
      | V2_Binary p \<Rightarrow>
          (case client_seal cr p Binary_Payload (fst s) of Inl _ \<Rightarrow> None | Inr (f, c) \<Rightarrow> Some (c, snd s @ [Raw_Binary f])))"

text \<open>A call of the outbound queue: its effects, and whether it threw.\<close>

definition queue_call :: "wsq_end \<times> v2_item ws_queue \<times> client_session \<times> raw_frame list \<Rightarrow> mobile_channel \<Rightarrow> mobile_channel \<times> mobile_effect list \<times> bool" where
  "queue_call r ch =
     (let (e, q, c, sent) = r
      in (ch\<lparr>mc_queue := q, mc_session := c\<rparr>, map Mx_Send sent @ (if e = Overflow_Called then [Mx_Error Outbound_Overflow] else []), e = Send_Threw))"

definition mobile_enqueue :: "mobile_env \<Rightarrow> socket_now \<Rightarrow> v2_item \<Rightarrow> mobile_channel \<Rightarrow> mobile_channel \<times> mobile_effect list \<times> bool" where
  "mobile_enqueue env now item ch =
     queue_call (wsq_enqueue (mobile_send (me_crypto env)) v2_byteLengthOf DEFAULT_WSQ_OPTIONS (sn_open now) (sn_bufferedAmount now) item
       (mc_queue ch) (mc_session ch, [])) ch"

definition enqueueReady :: "mobile_env \<Rightarrow> socket_now \<Rightarrow> v2_item \<Rightarrow> mobile_channel \<Rightarrow> mobile_channel \<times> mobile_effect list \<times> bool" where
  "enqueueReady env now item ch =
     (if mc_state ch \<noteq> Mobile_Ready then (ch, [], False)
      else (let (ch1, effs, threw) = mobile_enqueue env now item ch in (ch1, effs @ (if threw then [Mx_Threw] else []), \<not> threw)))"

definition mobile_start :: "mobile_env \<Rightarrow> mobile_channel \<Rightarrow> mobile_effect list" where
  "mobile_start env ch = [Mx_Send (Raw_Text (me_stringify env (cl_hello (mc_session ch))))]"

definition mobile_dispose :: "mobile_channel \<Rightarrow> mobile_channel" where
  "mobile_dispose ch = ch\<lparr>mc_generation := Suc (mc_generation ch), mc_queue := wsq_dispose (mc_queue ch)\<rparr>"

definition mobile_queue_timer :: "mobile_env \<Rightarrow> socket_now \<Rightarrow> nat \<Rightarrow> mobile_channel \<Rightarrow> mobile_channel \<times> mobile_effect list" where
  "mobile_queue_timer env now t ch =
     (let (ch1, effs, threw) = queue_call (timer_fired (mobile_send (me_crypto env)) DEFAULT_WSQ_OPTIONS t (sn_open now) (sn_bufferedAmount now)
            (mc_queue ch) (mc_session ch, [])) ch
      in (ch1, effs @ (if threw then [Mx_Threw] else [])))"

section \<open>Receiving\<close>

text \<open>A step of the processing of a message: the new state, effects, and the error it threw.\<close>

type_synonym processed = "mobile_channel \<times> mobile_effect list \<times> mobile_error option"

definition auth_message :: "mobile_env \<Rightarrow> client_session \<Rightarrow> json" where
  "auth_message env c =
     JObj [(''type'', JStr ''e2ee_auth''), (''v'', JNum (Fin 2)),
       (''transcriptHashB64'', case cl_transcriptHashB64 c of Some h \<Rightarrow> JStr h | None \<Rightarrow> JNull), (''deviceToken'', JStr (me_deviceToken env))]"

definition mobile_acceptReady :: "mobile_env \<Rightarrow> socket_now \<Rightarrow> raw_frame \<Rightarrow> mobile_channel \<Rightarrow> processed" where
  "mobile_acceptReady env now raw ch =
     (case raw of
        Raw_Binary _ \<Rightarrow> (ch, [], Some Expected_Plaintext_Ready)
      | Raw_Text t \<Rightarrow>
          (case me_parse env t of
             None \<Rightarrow> (ch, [], Some Invalid_Ready_JSON)
           | Some ready \<Rightarrow>
               (case client_acceptReady (me_crypto env) ready (mc_session ch) of
                  Inl _ \<Rightarrow> (ch, [], Some Session_Error)
                | Inr (False, c) \<Rightarrow> (ch, [], Some Invalid_Ready)
                | Inr (True, c) \<Rightarrow>
                    (let ch1 = ch\<lparr>mc_session := c, mc_state := Awaiting_Authenticated\<rparr>;
                         (ch2, effs, threw) = mobile_enqueue env now (V2_Text (me_stringify env (auth_message env c))) ch1
                     in (ch2, effs, if threw then Some Session_Error else None)))))"

definition isAuthenticated :: "mobile_env \<Rightarrow> client_session \<Rightarrow> string \<Rightarrow> bool" where
  "isAuthenticated env c plaintext \<longleftrightarrow>
     (case me_parse env plaintext of
        Some message \<Rightarrow>
          join_commas (sort (object_keys message)) = ''transcriptHashB64,type,v'' \<and>
          jprop message ''type'' = Some (JStr ''e2ee_authenticated'') \<and> jprop message ''v'' = Some (JNum (Fin 2)) \<and>
          jprop message ''transcriptHashB64'' = map_option JStr (cl_transcriptHashB64 c)
      | None \<Rightarrow> False)"

definition isAuthenticationRejection :: "mobile_env \<Rightarrow> string \<Rightarrow> bool" where
  "isAuthenticationRejection env plaintext \<longleftrightarrow>
     (case me_parse env plaintext of Some message \<Rightarrow> jprop message ''type'' = Some (JStr ''e2ee_error'') | None \<Rightarrow> False)"

datatype plain_message = Plain_Text string | Plain_Binary bytes

definition mobile_deliver :: "mobile_env \<Rightarrow> plain_message \<Rightarrow> mobile_channel \<Rightarrow> processed" where
  "mobile_deliver env m ch =
     (if mc_state ch = Awaiting_Authenticated
      then (case m of
              Plain_Text p \<Rightarrow>
                (if isAuthenticationRejection env p then (ch, [], Some Authentication_Rejected)
                 else if \<not> isAuthenticated env (mc_session ch) p then (ch, [], Some Invalid_Authenticated)
                 else (ch\<lparr>mc_state := Mobile_Ready\<rparr>, [Mx_Authenticated], None))
            | Plain_Binary b \<Rightarrow> (ch, [], Some Invalid_Authenticated))
      else (ch, [case m of Plain_Text p \<Rightarrow> Mx_Text p | Plain_Binary b \<Rightarrow> Mx_Binary b], None))"

text \<open>\<open>processMessage\<close> up to its await; a binary message then waits for \<open>decodeBinary\<close>.\<close>

definition processMessage :: "mobile_env \<Rightarrow> socket_now \<Rightarrow> raw_frame \<Rightarrow> nat \<Rightarrow> mobile_channel \<Rightarrow> processed" where
  "processMessage env now raw generation ch =
     (if generation \<noteq> mc_generation ch then (ch, [], None)
      else if mc_state ch = Awaiting_Ready then mobile_acceptReady env now raw ch
      else (case raw of
              Raw_Binary _ \<Rightarrow> (ch\<lparr>mc_decoding := Some generation\<rparr>, [], None)
            | Raw_Text t \<Rightarrow>
                (case client_openText (me_text_decode env) (me_crypto env) t (mc_session ch) of
                   Inl _ \<Rightarrow> (ch, [], Some Session_Error)
                 | Inr (None, c) \<Rightarrow> (ch\<lparr>mc_session := c\<rparr>, [], None)
                 | Inr (Some p, c) \<Rightarrow> mobile_deliver env (Plain_Text p) (ch\<lparr>mc_session := c\<rparr>))))"

text \<open>The rest of \<open>processMessage\<close> once \<open>decodeBinary\<close> has returned.\<close>

definition binary_decoded :: "mobile_env \<Rightarrow> bytes option \<Rightarrow> nat \<Rightarrow> mobile_channel \<Rightarrow> processed" where
  "binary_decoded env result generation ch =
     (case result of
        None \<Rightarrow> (ch, [], None)
      | Some bytes \<Rightarrow>
          (if generation \<noteq> mc_generation ch then (ch, [], None)
           else (case client_open (me_crypto env) bytes Binary_Payload (mc_session ch) of
                   Inl _ \<Rightarrow> (ch, [], Some Session_Error)
                 | Inr (None, c) \<Rightarrow> (ch\<lparr>mc_session := c\<rparr>, [], None)
                 | Inr (Some b, c) \<Rightarrow> mobile_deliver env (Plain_Binary b) (ch\<lparr>mc_session := c\<rparr>))))"

definition report :: "nat \<Rightarrow> processed \<Rightarrow> mobile_channel \<times> mobile_effect list" where
  "report generation r =
     (let (ch, effs, err) = r
      in (ch, effs @ (case err of Some e \<Rightarrow> (if generation = mc_generation ch then [Mx_Error e] else []) | None \<Rightarrow> [])))"

datatype mobile_event =
    MC_Message raw_frame
  | MC_Run socket_now
  | MC_Decoded "bytes option"
  | MC_Send socket_now v2_item
  | MC_Timer socket_now nat
  | MC_Dispose

fun mobile_next :: "mobile_env \<Rightarrow> mobile_channel \<Rightarrow> mobile_event \<Rightarrow> mobile_channel \<times> mobile_effect list" where
  "mobile_next env ch (MC_Message raw) = (ch\<lparr>mc_inboundChain := mc_inboundChain ch @ [(raw, mc_generation ch)]\<rparr>, [])"
| "mobile_next env ch (MC_Run now) =
     (case (mc_decoding ch, mc_inboundChain ch) of
        (None, (raw, generation) # rest) \<Rightarrow> report generation (processMessage env now raw generation (ch\<lparr>mc_inboundChain := rest\<rparr>))
      | _ \<Rightarrow> (ch, []))"
| "mobile_next env ch (MC_Decoded result) =
     (case mc_decoding ch of
        Some generation \<Rightarrow> report generation (binary_decoded env result generation (ch\<lparr>mc_decoding := None\<rparr>))
      | None \<Rightarrow> (ch, []))"
| "mobile_next env ch (MC_Send now item) = (let (ch1, effs, accepted) = enqueueReady env now item ch in (ch1, effs))"
| "mobile_next env ch (MC_Timer now t) = mobile_queue_timer env now t ch"
| "mobile_next env ch MC_Dispose = (mobile_dispose ch, [])"

definition mobile_step :: "mobile_env \<Rightarrow> mobile_channel \<times> mobile_effect list \<Rightarrow> mobile_event \<Rightarrow> mobile_channel \<times> mobile_effect list" where
  "mobile_step env w e = (let (ch, effs) = mobile_next env (fst w) e in (ch, snd w @ effs))"

section \<open>Nothing is delivered before authentication\<close>

fun is_mobile_delivery :: "mobile_effect \<Rightarrow> bool" where
  "is_mobile_delivery (Mx_Text p) = True"
| "is_mobile_delivery (Mx_Binary b) = True"
| "is_mobile_delivery x = False"

text \<open>
  What one step may do: it stays in its phase, or leaves the first one, announcing nothing and, unless it is ready,
  delivering nothing; or it becomes ready by an announcement alone.
\<close>

definition phase_ok :: "mobile_channel \<Rightarrow> mobile_channel \<times> mobile_effect list \<Rightarrow> bool" where
  "phase_ok ch r \<longleftrightarrow>
     (mc_state (fst r) = mc_state ch \<or> mc_state ch = Awaiting_Ready \<and> mc_state (fst r) = Awaiting_Authenticated) \<and>
       Mx_Authenticated \<notin> set (snd r) \<and> (mc_state ch \<noteq> Mobile_Ready \<longrightarrow> list_all (\<lambda>x. \<not> is_mobile_delivery x) (snd r)) \<or>
     mc_state ch = Awaiting_Authenticated \<and> mc_state (fst r) = Mobile_Ready \<and> snd r = [Mx_Authenticated]"

lemma queue_call_frame:
  assumes "queue_call r ch = (ch', effs, threw)"
  shows "mc_state ch' = mc_state ch" "mc_generation ch' = mc_generation ch" "mc_inboundChain ch' = mc_inboundChain ch"
    "mc_decoding ch' = mc_decoding ch" "list_all (\<lambda>x. \<not> is_mobile_delivery x) effs" "Mx_Authenticated \<notin> set effs"
  using assms by (auto simp: queue_call_def list_all_iff split: prod.splits if_splits)

lemma accepted_phase:
  assumes "mc_state ch = Awaiting_Ready"
  shows "phase_ok ch (report g (let (ch2, effs, threw) = queue_call r (ch\<lparr>mc_session := c, mc_state := Awaiting_Authenticated\<rparr>)
           in (ch2, effs, if threw then Some Session_Error else None)))"
proof -
  obtain ch2 effs threw where q: "queue_call r (ch\<lparr>mc_session := c, mc_state := Awaiting_Authenticated\<rparr>) = (ch2, effs, threw)"
    by (cases "queue_call r (ch\<lparr>mc_session := c, mc_state := Awaiting_Authenticated\<rparr>)") auto
  show ?thesis using queue_call_frame [OF q] assms by (simp add: q report_def phase_ok_def)
qed

lemma acceptReady_phase: "mc_state ch = Awaiting_Ready \<Longrightarrow> phase_ok ch (report g (mobile_acceptReady env now raw ch))"
  using accepted_phase [of ch g]
  by (auto simp: mobile_acceptReady_def mobile_enqueue_def Let_def split: raw_frame.split option.split sum.split prod.split bool.split)
    (auto simp: report_def phase_ok_def)

lemma deliver_phase:
  assumes "mc_state ch \<noteq> Awaiting_Ready"
  shows "phase_ok ch (report g (mobile_deliver env m (ch\<lparr>mc_session := c\<rparr>)))"
  using assms by (cases "mc_state ch") (auto simp: mobile_deliver_def report_def phase_ok_def split: plain_message.split)

lemma process_phase: "phase_ok ch (report g (processMessage env now raw g ch))"
proof (cases "g = mc_generation ch")
  case True
  have "phase_ok ch (report g (mobile_deliver env m (ch\<lparr>mc_session := c\<rparr>)))" if "mc_state ch \<noteq> Awaiting_Ready" for m c
    using that by (rule deliver_phase)
  then show ?thesis
    using True acceptReady_phase
    by (auto simp: processMessage_def split: raw_frame.split sum.split option.split prod.split) (auto simp: report_def phase_ok_def)
qed (simp add: processMessage_def report_def phase_ok_def)

text \<open>A binary message waits only in a phase in which it may be opened.\<close>

definition decoding_ok :: "mobile_channel \<Rightarrow> bool" where
  "decoding_ok ch \<longleftrightarrow> (mc_decoding ch \<noteq> None \<longrightarrow> mc_state ch \<noteq> Awaiting_Ready)"

lemma decoded_phase:
  assumes "mc_state ch \<noteq> Awaiting_Ready"
  shows "phase_ok ch (report g (binary_decoded env result g ch))"
  using deliver_phase [OF assms]
  by (auto simp: binary_decoded_def split: option.split sum.split prod.split) (auto simp: report_def phase_ok_def)

text \<open>What a step keeps: the outbound calls touch neither the phase nor the messages that wait.\<close>

lemma queue_calls_quiet:
  "(let (ch1, effs, threw) = queue_call r ch in (ch1, effs @ (if threw then [Mx_Threw] else []))) = (ch', effs') \<Longrightarrow>
     phase_ok ch (ch', effs') \<and> mc_state ch' = mc_state ch \<and> mc_generation ch' = mc_generation ch \<and>
     mc_inboundChain ch' = mc_inboundChain ch \<and> mc_decoding ch' = mc_decoding ch"
  using queue_call_frame [of r ch] by (fastforce simp: phase_ok_def split: prod.splits if_splits)

text \<open>No message that waits or is being decoded is from a later generation than the channel's.\<close>

definition generations_ok :: "mobile_channel \<Rightarrow> bool" where
  "generations_ok ch \<longleftrightarrow> list_all (\<lambda>m. snd m \<le> mc_generation ch) (mc_inboundChain ch) \<and>
     (\<forall>g. mc_decoding ch = Some g \<longrightarrow> g \<le> mc_generation ch)"

definition same_waiting :: "mobile_channel \<Rightarrow> mobile_channel \<Rightarrow> bool" where
  "same_waiting ch ch' \<longleftrightarrow> mc_generation ch' = mc_generation ch \<and> mc_inboundChain ch' = mc_inboundChain ch \<and>
     (mc_decoding ch' = mc_decoding ch \<or> mc_decoding ch' = Some (mc_generation ch) \<and> mc_state ch' \<noteq> Awaiting_Ready)"

lemma deliver_waiting: "same_waiting ch (fst (report g (mobile_deliver env m (ch\<lparr>mc_session := c\<rparr>))))"
  by (auto simp: mobile_deliver_def report_def same_waiting_def split: plain_message.split)

lemma acceptReady_waiting: "same_waiting ch (fst (report g (mobile_acceptReady env now raw ch)))"
proof -
  have "same_waiting ch (fst (report g (let (ch2, effs, threw) = queue_call r (ch\<lparr>mc_session := c, mc_state := Awaiting_Authenticated\<rparr>)
           in (ch2, effs, if threw then Some Session_Error else None))))" for r c
    using queue_call_frame [of r "ch\<lparr>mc_session := c, mc_state := Awaiting_Authenticated\<rparr>"]
    by (fastforce simp: report_def same_waiting_def split: prod.split)
  then show ?thesis
    by (auto simp: mobile_acceptReady_def mobile_enqueue_def Let_def split: raw_frame.split option.split sum.split prod.split bool.split)
      (auto simp: report_def same_waiting_def)
qed

lemma process_waiting: "same_waiting ch (fst (report g (processMessage env now raw g ch)))"
  using acceptReady_waiting deliver_waiting
  by (auto simp: processMessage_def split: raw_frame.split sum.split option.split prod.split) (auto simp: report_def same_waiting_def)

lemma decoded_waiting: "same_waiting ch (fst (report g (binary_decoded env result g ch)))"
  using deliver_waiting
  by (auto simp: binary_decoded_def split: sum.split option.split prod.split) (auto simp: report_def same_waiting_def)

definition waiting_ok :: "mobile_channel \<Rightarrow> bool" where
  "waiting_ok ch \<longleftrightarrow> decoding_ok ch \<and> generations_ok ch"

lemma waiting_ok_keep:
  "waiting_ok ch \<Longrightarrow> same_waiting ch ch' \<Longrightarrow> phase_ok ch (ch', effs) \<Longrightarrow> waiting_ok ch'"
  by (auto simp: waiting_ok_def decoding_ok_def generations_ok_def same_waiting_def phase_ok_def)

lemma waiting_ok_phase: "phase_ok (ch\<lparr>mc_inboundChain := ms\<rparr>) r = phase_ok ch r" "phase_ok (ch\<lparr>mc_decoding := d\<rparr>) r = phase_ok ch r"
  by (simp_all add: phase_ok_def)

lemma list_all_le_Suc:
  "list_all (\<lambda>m. snd m \<le> n) xs \<Longrightarrow> list_all (\<lambda>m. snd m \<le> Suc n) xs" "list_all (\<lambda>m. snd m < n) xs \<Longrightarrow> list_all (\<lambda>m. snd m < Suc n) xs"
  by (induction xs) auto

lemma mobile_next_ok:
  assumes "waiting_ok ch" "mobile_next env ch e = (ch', effs)"
  shows "phase_ok ch (ch', effs) \<and> waiting_ok ch'"
proof (cases e)
  case (MC_Run now)
  show ?thesis
  proof (cases "mc_decoding ch = None \<and> mc_inboundChain ch \<noteq> []")
    case True
    then obtain raw g rest where m: "mc_inboundChain ch = (raw, g) # rest" by (cases "mc_inboundChain ch") auto
    let ?ch = "ch\<lparr>mc_inboundChain := rest\<rparr>"
    have r: "report g (processMessage env now raw g ?ch) = (ch', effs)" using assms(2) MC_Run True m by simp
    have "waiting_ok ?ch" using assms(1) m by (auto simp: waiting_ok_def decoding_ok_def generations_ok_def)
    with process_phase [of ?ch g env now raw] process_waiting [of ?ch g env now raw] r
    show ?thesis using waiting_ok_keep [of ?ch ch' effs] by (simp add: waiting_ok_phase)
  qed (use assms MC_Run in \<open>auto simp: phase_ok_def split: option.splits list.splits\<close>)
next
  case (MC_Decoded result)
  show ?thesis
  proof (cases "mc_decoding ch")
    case (Some g)
    let ?ch = "ch\<lparr>mc_decoding := None\<rparr>"
    have r: "report g (binary_decoded env result g ?ch) = (ch', effs)" using assms(2) MC_Decoded Some by simp
    have ok: "waiting_ok ?ch" "mc_state ?ch \<noteq> Awaiting_Ready"
      using assms(1) Some by (auto simp: waiting_ok_def decoding_ok_def generations_ok_def)
    with decoded_phase [OF ok(2), of g env result] decoded_waiting [of ?ch g env result] r
    show ?thesis using waiting_ok_keep [of ?ch ch' effs] by (simp add: waiting_ok_phase)
  qed (use assms MC_Decoded in \<open>simp add: phase_ok_def\<close>)
next
  case (MC_Send now item)
  show ?thesis
  proof (cases "mc_state ch = Mobile_Ready")
    case True
    let ?r = "wsq_enqueue (mobile_send (me_crypto env)) v2_byteLengthOf DEFAULT_WSQ_OPTIONS (sn_open now) (sn_bufferedAmount now) item
       (mc_queue ch) (mc_session ch, [])"
    have "(let (ch1, effs, threw) = queue_call ?r ch in (ch1, effs @ (if threw then [Mx_Threw] else []))) = (ch', effs)"
      using assms(2) MC_Send True by (cases "queue_call ?r ch") (simp add: enqueueReady_def mobile_enqueue_def)
    from queue_calls_quiet [OF this] show ?thesis
      using assms(1) waiting_ok_keep [of ch ch' effs] by (simp add: same_waiting_def)
  qed (use assms MC_Send in \<open>simp add: enqueueReady_def phase_ok_def\<close>)
next
  case (MC_Timer now t)
  then show ?thesis
    using assms queue_calls_quiet [of _ ch ch' effs] waiting_ok_keep [of ch ch' effs]
    by (simp add: mobile_queue_timer_def same_waiting_def)
next
  case MC_Dispose
  then show ?thesis
    using assms by (auto simp: phase_ok_def waiting_ok_def decoding_ok_def generations_ok_def mobile_dispose_def list_all_le_Suc)
qed (use assms in \<open>auto simp: phase_ok_def waiting_ok_def decoding_ok_def generations_ok_def\<close>)

text \<open>
  The trace of a channel announces authentication once at most, exactly when the channel is ready, and delivers
  only afterwards.
\<close>

fun announced_first :: "mobile_effect list \<Rightarrow> bool" where
  "announced_first [] = True"
| "announced_first (x # xs) = (if x = Mx_Authenticated then Mx_Authenticated \<notin> set xs else \<not> is_mobile_delivery x \<and> announced_first xs)"

lemma announced_first_append:
  "announced_first (xs @ ys) =
     (announced_first xs \<and> (if Mx_Authenticated \<in> set xs then Mx_Authenticated \<notin> set ys else announced_first ys))"
  by (induction xs) auto

lemma announced_first_none: "Mx_Authenticated \<notin> set xs \<Longrightarrow> list_all (\<lambda>x. \<not> is_mobile_delivery x) xs \<Longrightarrow> announced_first xs"
  by (induction xs) auto

definition mobile_inv :: "mobile_channel \<times> mobile_effect list \<Rightarrow> bool" where
  "mobile_inv w \<longleftrightarrow> waiting_ok (fst w) \<and> announced_first (snd w) \<and> (mc_state (fst w) = Mobile_Ready \<longleftrightarrow> Mx_Authenticated \<in> set (snd w))"

interpretation phone: event_machine "mobile_step env" mobile_inv for env
proof unfold_locales
  fix w e
  assume w: "mobile_inv w"
  obtain ch' effs where n: "mobile_next env (fst w) e = (ch', effs)" by fastforce
  have "phase_ok (fst w) (ch', effs)" "waiting_ok ch'" using mobile_next_ok [OF _ n] w by (auto simp: mobile_inv_def)
  then show "mobile_inv (mobile_step env w e)"
    using w n announced_first_none [of effs] by (auto simp: mobile_inv_def mobile_step_def phase_ok_def announced_first_append)
qed

lemma mobile_start_inv: "mobile_inv (mobile_new c, mobile_start env (mobile_new c))"
  by (simp add: mobile_inv_def mobile_new_def mobile_start_def waiting_ok_def decoding_ok_def generations_ok_def)

definition mobile_run :: "mobile_env \<Rightarrow> client_session \<Rightarrow> mobile_event list \<Rightarrow> mobile_channel \<times> mobile_effect list" where
  "mobile_run env c es = foldl (mobile_step env) (mobile_new c, mobile_start env (mobile_new c)) es"

lemma mobile_run_inv: "mobile_inv (mobile_run env c es)"
  unfolding mobile_run_def by (intro phone.run_inv mobile_start_inv)

text \<open>A disposed channel none of whose messages is of its generation.\<close>

definition stale :: "mobile_channel \<Rightarrow> bool" where
  "stale ch \<longleftrightarrow> wq_disposed (mc_queue ch) \<and> list_all (\<lambda>m. snd m < mc_generation ch) (mc_inboundChain ch) \<and>
     (\<forall>g. mc_decoding ch = Some g \<longrightarrow> g < mc_generation ch)"

fun is_message :: "mobile_event \<Rightarrow> bool" where
  "is_message (MC_Message raw) = True"
| "is_message e = False"

lemma disposed_queue [simp]: "wq_disposed (wsq_dispose q)"
  by (simp add: wsq_dispose_def dropBacklog_def stopTimer_def split: option.split)

lemma stale_next:
  assumes "stale ch" "\<not> is_message e"
  shows "\<exists>ch'. mobile_next env ch e = (ch', []) \<and> stale ch'"
proof (cases e)
  case (MC_Run now)
  then show ?thesis
    using assms(1) by (auto simp: stale_def processMessage_def report_def split: option.split list.split)
next
  case (MC_Decoded result)
  then show ?thesis
    using assms(1) by (auto simp: stale_def binary_decoded_def report_def split: option.split)
qed (use assms in \<open>auto simp: stale_def enqueueReady_def mobile_enqueue_def mobile_queue_timer_def queue_call_def wsq_enqueue_def
      timer_fired_def drain_def mobile_dispose_def list_all_le_Suc\<close>)

lemma stale_run: "stale ch \<Longrightarrow> list_all (\<lambda>e. \<not> is_message e) es \<Longrightarrow> snd (foldl (mobile_step env) (ch, tr) es) = tr"
proof (induction es arbitrary: ch)
  case (Cons e es)
  obtain ch' where "mobile_next env ch e = (ch', [])" "stale ch'" using stale_next [OF Cons.prems(1), of e env] Cons.prems(2) by auto
  then show ?case using Cons.IH [of ch'] Cons.prems(2) by (simp add: mobile_step_def)
qed simp

lemma announced_before:
  assumes "announced_first tr" "i < length tr" "is_mobile_delivery (tr ! i)"
  shows "count_list tr Mx_Authenticated = 1 \<and> (\<exists>j < i. tr ! j = Mx_Authenticated)"
  using assms
proof (induction tr arbitrary: i)
  case (Cons x tr)
  then obtain k where i: "i = Suc k" by (cases i) (auto split: if_splits)
  show ?case
  proof (cases "x = Mx_Authenticated")
    case True
    have "(x # tr) ! 0 = Mx_Authenticated \<and> 0 < i" using True i by simp
    moreover have "count_list (x # tr) Mx_Authenticated = 1" using True Cons.prems(1) by (simp add: count_list_0_iff)
    ultimately show ?thesis by blast
  next
    case False
    then have ih: "count_list tr Mx_Authenticated = 1" "\<exists>j < k. tr ! j = Mx_Authenticated"
      using Cons.IH [of k] Cons.prems i by auto
    then obtain j where "j < k" "tr ! j = Mx_Authenticated" by blast
    then have "Suc j < i" "(x # tr) ! Suc j = Mx_Authenticated" using i by auto
    with ih(1) False show ?thesis by auto
  qed
qed simp

end
