(* ===== verification/Mobile_Handshake.thy ===== *)
theory Mobile_Handshake
  imports Mobile_Channel "HOL-Library.Countable"
begin

text \<open>
  The phone's channel against the desktop's: the frames of the two models are exchanged over an undisturbed
  socket. What both ends need of \<open>JSON\<close> and of the text coding are the hypotheses of \<open>ends_match\<close>: a
  message one side prints is what the other side parses, and decoding inverts encoding.
\<close>

section \<open>Messages\<close>

text \<open>Values that survive \<open>JSON.stringify\<close> and \<open>JSON.parse\<close>: safe integers, no repeated key.\<close>

fun plain_json :: "json \<Rightarrow> bool" where
  "plain_json (JNum n) = (case n of Fin r \<Rightarrow> r = of_int \<lfloor>r\<rfloor> \<and> \<bar>r\<bar> < 2 ^ 53 | _ \<Rightarrow> False)"
| "plain_json (JArr xs) = list_all plain_json xs"
| "plain_json (JObj ps) = (distinct (map fst ps) \<and> list_all (\<lambda>(k, v). plain_json v) ps)"
| "plain_json _ = True"

definition ends_match :: "mobile_env \<Rightarrow> channel_env \<Rightarrow> e2ee_device \<Rightarrow> bool" where
  "ends_match env denv dev \<longleftrightarrow>
     me_crypto env = ce_crypto denv \<and> crypto_ok (ce_crypto denv) \<and>
     (\<forall>j. plain_json j \<longrightarrow> me_parse env (ce_stringify denv j) = Some j \<and> ce_parse denv (me_stringify env j) = Some j) \<and>
     (\<forall>p. me_text_decode env (utf8 p) = p \<and> ce_text_decode denv (utf8 p) = p) \<and>
     ce_resolve denv (JStr (me_deviceToken env)) = Some dev \<and> dv_deviceToken dev = me_deviceToken env \<and> me_deviceToken env \<noteq> []"

definition writable_now :: "socket_now \<Rightarrow> bool" where
  "writable_now now \<longleftrightarrow> sn_open now \<and> bufferedAmount (sn_bufferedAmount now 0) \<le> wo_softCapBytes DEFAULT_WSQ_OPTIONS \<and> length (sn_random now) = 32"

lemma key_lists [simp]:
  "join_commas (sort [''type'', ''v'', ''transcriptHashB64'', ''deviceToken'']) = ''deviceToken,transcriptHashB64,type,v''"
  "join_commas (sort [''type'', ''v'', ''transcriptHashB64'']) = ''transcriptHashB64,type,v''"
  by code_simp+

lemma plain_messages:
  "plain_json (hello_json a b (context_json ctx))" "plain_json (ready_json a (JStr b) e (context_json ctx))"
  by (simp_all add: hello_json_def ready_json_def context_json_def PAYLOAD_KINDS_def split: option.split)

section \<open>One text in each direction\<close>

lemma client_text_opens:
  assumes "paired cr c d" "ds_inboundCounter d < 2 ^ 64"
  shows "\<exists>t c' d'. client_sealText cr p c = Inr (t, c') \<and> desktop_openText dec cr t d = Inr (Some (dec (utf8 p)), d') \<and> paired cr c' d' \<and>
    d' = d\<lparr>ds_inboundCounter := Suc (ds_inboundCounter d)\<rparr> \<and> cl_transcriptHashB64 c' = cl_transcriptHashB64 c"
proof -
  obtain ks where ks: "cl_schedule c = Some ks" "ds_mobileToDesktopKey d = ks_mobileToDesktopKey ks"
      "ds_sessionId d = ks_sessionId ks" "keyed cr (ks_mobileToDesktopKey ks) (ks_sessionId ks)"
    and n: "cl_outboundCounter c = ds_inboundCounter d"
    using assms(1) by (auto simp: paired_def)
  let ?n = "ds_inboundCounter d"
  let ?f = "seal_at (cr_nacl cr) (ks_mobileToDesktopKey ks) (ks_sessionId ks) Mobile_To_Desktop ?n Text_Payload (utf8 p)"
  have "open_at (cr_nacl cr) (ks_mobileToDesktopKey ks) (ks_sessionId ks) Mobile_To_Desktop ?n Text_Payload ?f = Some (utf8 p)"
    using assms(2) keyed_limit [OF ks(4)] by (intro frames.open_seal_at) simp
  then have "desktop_openText dec cr (btoa ?f) d = Inr (Some (dec (utf8 p)), d\<lparr>ds_inboundCounter := Suc ?n\<rparr>)"
    by (simp add: desktop_openText_def desktop_decodeCanonicalBase64_def atob_btoa desktop_open_def ks keyed_open [OF ks(4) assms(2)])
  moreover have "client_sealText cr p c = Inr (btoa ?f, c\<lparr>cl_outboundCounter := Suc ?n\<rparr>)"
    by (simp add: client_sealText_def client_seal_def ks(1) n keyed_seal [OF ks(4) assms(2)])
  moreover have "paired cr (c\<lparr>cl_outboundCounter := Suc ?n\<rparr>) (d\<lparr>ds_inboundCounter := Suc ?n\<rparr>)"
    using assms(1) by (simp add: paired_def)
  ultimately show ?thesis by auto
qed

lemma desktop_text_opens:
  assumes "paired cr c d" "ds_outboundCounter d < 2 ^ 64"
  shows "\<exists>t c' d'. desktop_sealText cr p d = Inr (t, d') \<and> client_openText dec cr t c = Inr (Some (dec (utf8 p)), c') \<and> paired cr c' d' \<and>
    d' = d\<lparr>ds_outboundCounter := Suc (ds_outboundCounter d)\<rparr> \<and> cl_transcriptHashB64 c' = cl_transcriptHashB64 c"
proof -
  obtain ks where ks: "cl_schedule c = Some ks" "ds_desktopToMobileKey d = ks_desktopToMobileKey ks"
      "ds_sessionId d = ks_sessionId ks" "keyed cr (ks_desktopToMobileKey ks) (ks_sessionId ks)"
    and n: "cl_inboundCounter c = ds_outboundCounter d"
    using assms(1) by (auto simp: paired_def)
  let ?n = "ds_outboundCounter d"
  let ?f = "seal_at (cr_nacl cr) (ks_desktopToMobileKey ks) (ks_sessionId ks) Desktop_To_Mobile ?n Text_Payload (utf8 p)"
  have "open_at (cr_nacl cr) (ks_desktopToMobileKey ks) (ks_sessionId ks) Desktop_To_Mobile ?n Text_Payload ?f = Some (utf8 p)"
    using assms(2) keyed_limit [OF ks(4)] by (intro frames.open_seal_at) simp
  then have "client_openText dec cr (btoa ?f) c = Inr (Some (dec (utf8 p)), c\<lparr>cl_inboundCounter := Suc ?n\<rparr>)"
    by (simp add: client_openText_def client_decodeCanonicalBase64_def atob_btoa client_open_def ks n keyed_open [OF ks(4) assms(2)])
  moreover have "desktop_sealText cr p d = Inr (btoa ?f, d\<lparr>ds_outboundCounter := Suc ?n\<rparr>)"
    by (simp add: desktop_sealText_def desktop_seal_def ks keyed_seal [OF ks(4) assms(2)])
  moreover have "paired cr (c\<lparr>cl_inboundCounter := Suc ?n\<rparr>) (d\<lparr>ds_outboundCounter := Suc ?n\<rparr>)"
    using assms(1) by (simp add: paired_def)
  ultimately show ?thesis by auto
qed

section \<open>The steps of the handshake\<close>

text \<open>The desktop answers the phone's hello with its ready message.\<close>

lemma desktop_answers_hello:
  assumes "ends_match env denv dev" "writable_now now" "plain_json hello" "hello \<noteq> JNull"
    and "jprop hello ''type'' = Some (JStr ''e2ee_hello'')" "jprop hello ''v'' = Some (JNum (Fin 2))"
    and "desktop_create (ce_crypto denv) hello (ce_serverSecretKey denv) (ce_transportContext denv) (sn_random now) = Inr (Some d)"
  shows "handleRawMessage denv now (Raw_Text (me_stringify env hello)) channel_new =
    (channel_new\<lparr>ch_v2Session := Some d, ch_state := Awaiting_Auth\<rparr>, [Fx_Send (Raw_Text (ce_stringify denv (ds_ready d)))])"
  using assms by (simp add: handleRawMessage_def handleHello_def acceptHello_def channel_new_def ends_match_def writable_now_def)

text \<open>The phone answers the ready message with its sealed token.\<close>

lemma phone_answers_ready:
  assumes "ends_match env denv dev" "writable_now now" "plain_json ready" "mc_state ch = Awaiting_Ready"
    and "mc_queue ch = createWsOutboundBackpressureQueue" "mc_inboundChain ch = []" "mc_decoding ch = None"
    and "client_acceptReady (ce_crypto denv) ready (mc_session ch) = Inr (True, c)"
    and "client_sealText (ce_crypto denv) (me_stringify env (auth_message env c)) c = Inr (t, c')"
  shows "foldl (mobile_step env) (ch, tr) [MC_Message (Raw_Text (ce_stringify denv ready)), MC_Run now] =
    (ch\<lparr>mc_state := Awaiting_Authenticated, mc_session := c'\<rparr>, tr @ [Mx_Send (Raw_Text t)])"
  using assms
  by (simp add: mobile_step_def processMessage_def report_def mobile_acceptReady_def mobile_enqueue_def queue_call_def wsq_enqueue_def
      createWsOutboundBackpressureQueue_def mobile_send_def ends_match_def writable_now_def)

text \<open>The desktop answers the token it knows by the sealed confirmation.\<close>

lemma desktop_answers_auth:
  assumes "ends_match env denv dev" "writable_now now" "ch_state ch = Awaiting_Auth" "ch_v2Session ch = Some d" "ch_v2OutboundQueue ch = None"
    and "plain_json (auth_message env c)" "cl_transcriptHashB64 c = Some (ds_transcriptHashB64 d)" "ds_transcriptHashB64 d' = ds_transcriptHashB64 d"
    and "desktop_openText (ce_text_decode denv) (ce_crypto denv) t d = Inr (Some (me_stringify env (auth_message env c)), d')"
    and "desktop_sealText (ce_crypto denv) (ce_stringify denv (authenticated_message (ch\<lparr>ch_v2Session := Some d\<rparr>))) d' = Inr (t', d'')"
  shows "\<exists>ch'. handleRawMessage denv now (Raw_Text t) ch = (ch', [Fx_Ready dev, Fx_Send (Raw_Text t')]) \<and>
    ch_state ch' = Channel_Ready \<and> ch_v2Session ch' = Some d''"
proof -
  have "ce_parse denv (me_stringify env (auth_message env c)) = Some (auth_message env c)" using assms(1,6) by (simp add: ends_match_def)
  then show ?thesis using assms
    by (simp add: handleRawMessage_def handleV2RawMessage_def handleDesktopMobileE2EEV2Inbound_def handleAuth_def auth_message_def
        isValidMobileE2EEAuthVersion_def object_keys_def ends_match_def sendEncryptedControl_def enqueueV2_def wsq_enqueue_def
        createWsOutboundBackpressureQueue_def v2_send_def writable_now_def authenticated_message_def end_effects_def)
qed

text \<open>The phone announces authentication on the confirmation.\<close>

lemma phone_accepts_confirmation:
  assumes "ends_match env denv dev" "mc_state ch = Awaiting_Authenticated" "mc_inboundChain ch = []" "mc_decoding ch = None"
    and "ch_v2Session dch = Some d" "cl_transcriptHashB64 c' = Some (ds_transcriptHashB64 d)"
    and "client_openText (me_text_decode env) (ce_crypto denv) t (mc_session ch) = Inr (Some (ce_stringify denv (authenticated_message dch)), c')"
  shows "foldl (mobile_step env) (ch, tr) [MC_Message (Raw_Text t), MC_Run now] =
    (ch\<lparr>mc_session := c', mc_state := Mobile_Ready\<rparr>, tr @ [Mx_Authenticated])"
proof -
  have "plain_json (authenticated_message dch)" using assms(5) by (simp add: authenticated_message_def)
  then have "me_parse env (ce_stringify denv (authenticated_message dch)) = Some (authenticated_message dch)"
    using assms(1) by (simp add: ends_match_def)
  then show ?thesis using assms
    by (simp add: mobile_step_def processMessage_def report_def mobile_deliver_def isAuthenticationRejection_def isAuthenticated_def
        object_keys_def authenticated_message_def ends_match_def)
qed

lemma created_ready:
  assumes "client_create cr key transport host cn csk = Inr c" "desktop_create cr (cl_hello c) dsk ctx random = Inr (Some d)"
  shows "plain_json (cl_hello c)" "plain_json (ds_ready d)" "ds_inboundCounter d = 0" "ds_outboundCounter d = 0"
    "jprop (cl_hello c) ''type'' = Some (JStr ''e2ee_hello'')" "jprop (cl_hello c) ''v'' = Some (JNum (Fin 2))" "cl_hello c \<noteq> JNull"
proof -
  obtain k n ctx' where h: "cl_hello c = hello_json k n (context_json ctx')"
    using assms(1) by (auto simp: client_create_def Let_def split: if_splits sum.splits)
  then show "plain_json (cl_hello c)" by (simp add: plain_messages)
  show "jprop (cl_hello c) ''type'' = Some (JStr ''e2ee_hello'')" "jprop (cl_hello c) ''v'' = Some (JNum (Fin 2))" "cl_hello c \<noteq> JNull"
    by (simp_all add: h hello_json_def)
  have "jprop (cl_hello c) ''clientNonceB64'' = Some (JStr n)" "jprop (cl_hello c) ''context'' = Some (context_json ctx')"
    by (simp_all add: h hello_json_def)
  then show "plain_json (ds_ready d)"
    using assms(2) by (auto simp: desktop_create_def desktop_ready_def plain_messages split: if_splits option.splits sum.splits)
  show "ds_inboundCounter d = 0" "ds_outboundCounter d = 0"
    using assms(2) by (auto simp: desktop_create_def split: if_splits option.splits sum.splits)
qed

lemma handshake_completes:
  assumes env: "ends_match env denv dev" "writable_now now" "cr = ce_crypto denv" "dsk = ce_serverSecretKey denv" "ctx = ce_transportContext denv"
    and c: "client_create cr (btoa (cr_public cr dsk)) transport host cn csk = Inr c"
    and ctx: "ctx = \<lparr>ec_transport = transport,
      ec_relayHostId = (case host of Some h \<Rightarrow> (if h \<noteq> [] then Some h else None) | None \<Rightarrow> None)\<rparr>" "context_ok ctx"
  shows "\<exists>ready auth confirmed d1 d2 d ch.
    handleRawMessage denv now (Raw_Text (me_stringify env (cl_hello c))) channel_new = (d1, [Fx_Send ready]) \<and>
    snd (mobile_run env c [MC_Message ready, MC_Run now]) = [Mx_Send (Raw_Text (me_stringify env (cl_hello c))), Mx_Send auth] \<and>
    handleRawMessage denv now auth d1 = (d2, [Fx_Ready dev, Fx_Send confirmed]) \<and>
    mobile_run env c [MC_Message ready, MC_Run now, MC_Message confirmed, MC_Run now] =
      (ch, [Mx_Send (Raw_Text (me_stringify env (cl_hello c))), Mx_Send auth, Mx_Authenticated]) \<and>
    ch_state d2 = Channel_Ready \<and> mc_state ch = Mobile_Ready \<and> ch_v2Session d2 = Some d \<and> paired cr (mc_session ch) d \<and>
    ds_inboundCounter d = 1 \<and> ds_outboundCounter d = 1 \<and> mc_inboundChain ch = [] \<and> mc_decoding ch = None"
proof -
  have ok: "crypto_ok cr" "length (sn_random now) = 32" using env by (simp_all add: ends_match_def writable_now_def)
  obtain d c1 where d: "desktop_create cr (cl_hello c) dsk ctx (sn_random now) = Inr (Some d)"
      "client_acceptReady cr (ds_ready d) c = Inr (True, c1)" "paired cr c1 d"
    using handshake_pairs [OF ok(1) c ctx ok(2)] by blast
  note r = created_ready [OF c d(1)]
  let ?d1 = "channel_new\<lparr>ch_v2Session := Some d, ch_state := Awaiting_Auth\<rparr>"
  let ?ready = "Raw_Text (ce_stringify denv (ds_ready d))"
  let ?hello = "Raw_Text (me_stringify env (cl_hello c))"
  have s1: "handleRawMessage denv now ?hello channel_new = (?d1, [Fx_Send ?ready])"
    using desktop_answers_hello [OF env(1,2) r(1,7,5,6)] d(1) env(3-5) by simp
  have hash: "cl_transcriptHashB64 c1 = Some (ds_transcriptHashB64 d)" using d(3) by (auto simp: paired_def)
  obtain t c2 d' where t: "client_sealText cr (me_stringify env (auth_message env c1)) c1 = Inr (t, c2)"
      "desktop_openText (ce_text_decode denv) cr t d = Inr (Some (me_stringify env (auth_message env c1)), d')" "paired cr c2 d'"
      "d' = d\<lparr>ds_inboundCounter := 1\<rparr>" "cl_transcriptHashB64 c2 = cl_transcriptHashB64 c1"
    using client_text_opens [OF d(3), of "me_stringify env (auth_message env c1)" "ce_text_decode denv"] r(3) env(1)
    by (auto simp: ends_match_def)
  let ?ch1 = "(mobile_new c)\<lparr>mc_state := Awaiting_Authenticated, mc_session := c2\<rparr>"
  have s2: "mobile_run env c [MC_Message ?ready, MC_Run now] = (?ch1, [Mx_Send ?hello, Mx_Send (Raw_Text t)])"
    using phone_answers_ready [OF env(1,2) r(2), of "mobile_new c" c1 t c2 "mobile_start env (mobile_new c)"] d(2) t(1) env(3)
    by (simp add: mobile_run_def mobile_new_def mobile_start_def del: foldl_Cons)
  obtain t' c3 d'' where t': "desktop_sealText cr (ce_stringify denv (authenticated_message (?d1\<lparr>ch_v2Session := Some d\<rparr>))) d' = Inr (t', d'')"
      "client_openText (me_text_decode env) cr t' c2 = Inr (Some (ce_stringify denv (authenticated_message (?d1\<lparr>ch_v2Session := Some d\<rparr>))), c3)"
      "paired cr c3 d''" "d'' = d'\<lparr>ds_outboundCounter := 1\<rparr>" "cl_transcriptHashB64 c3 = cl_transcriptHashB64 c2"
    using desktop_text_opens [OF t(3), of "ce_stringify denv (authenticated_message (?d1\<lparr>ch_v2Session := Some d\<rparr>))" "me_text_decode env"]
      r(4) t(4) env(1) by (auto simp: ends_match_def)
  have "plain_json (auth_message env c1)" by (simp add: auth_message_def hash)
  then obtain d2 where s3: "handleRawMessage denv now (Raw_Text t) ?d1 = (d2, [Fx_Ready dev, Fx_Send (Raw_Text t')])"
      "ch_state d2 = Channel_Ready" "ch_v2Session d2 = Some d''"
    using desktop_answers_auth [OF env(1,2), of ?d1 d c1 d' t t' d''] hash t(2,4) t'(1) env(3) by (auto simp: channel_new_def)
  let ?ch2 = "?ch1\<lparr>mc_session := c3, mc_state := Mobile_Ready\<rparr>"
  have "foldl (mobile_step env) (?ch1, [Mx_Send ?hello, Mx_Send (Raw_Text t)]) [MC_Message (Raw_Text t'), MC_Run now] =
      (?ch2, [Mx_Send ?hello, Mx_Send (Raw_Text t)] @ [Mx_Authenticated])"
    using t'(2,5) t(5) hash env(3)
    by (intro phone_accepts_confirmation [OF env(1), where d = d and dch = "?d1\<lparr>ch_v2Session := Some d\<rparr>"]) (simp_all add: mobile_new_def)
  then have s4: "mobile_run env c [MC_Message ?ready, MC_Run now, MC_Message (Raw_Text t'), MC_Run now] =
      (?ch2, [Mx_Send ?hello, Mx_Send (Raw_Text t), Mx_Authenticated])"
    using s2 by (simp add: mobile_run_def)
  show ?thesis
    using s1 s2 s3 s4 t'(3,4) t(4)
    by (intro exI [of _ ?ready] exI [of _ "Raw_Text t"] exI [of _ "Raw_Text t'"] exI [of _ ?d1] exI [of _ d2] exI [of _ d''] exI [of _ ?ch2])
      (simp add: mobile_new_def)
qed

section \<open>Properties\<close>

text \<open>
  Property C12. A phone and the desktop it was paired with connect. When the phone has pinned the desktop's public key, both
  expect the same transport context, the token is registered and the socket carries the frames, the two channels
  exchange exactly hello, ready, the sealed token and the sealed confirmation; then the desktop has announced the device of
  that token, the phone has announced authentication, both are ready with nothing left to process, each direction has
  used one number, and the sessions are paired: equal keys, session id and counters, on which the streams rest.
\<close>

theorem handshake_reaches_ready:
  assumes "ends_match env denv dev" "writable_now now" "cr = ce_crypto denv" "dsk = ce_serverSecretKey denv" "ctx = ce_transportContext denv"
    and "client_create cr (btoa (cr_public cr dsk)) transport host cn csk = Inr c"
    and "ctx = \<lparr>ec_transport = transport,
      ec_relayHostId = (case host of Some h \<Rightarrow> (if h \<noteq> [] then Some h else None) | None \<Rightarrow> None)\<rparr>" "context_ok ctx"
  shows "\<exists>ready auth confirmed d1 d2 d ch.
    handleRawMessage denv now (Raw_Text (me_stringify env (cl_hello c))) channel_new = (d1, [Fx_Send ready]) \<and>
    snd (mobile_run env c [MC_Message ready, MC_Run now]) = [Mx_Send (Raw_Text (me_stringify env (cl_hello c))), Mx_Send auth] \<and>
    handleRawMessage denv now auth d1 = (d2, [Fx_Ready dev, Fx_Send confirmed]) \<and>
    mobile_run env c [MC_Message ready, MC_Run now, MC_Message confirmed, MC_Run now] =
      (ch, [Mx_Send (Raw_Text (me_stringify env (cl_hello c))), Mx_Send auth, Mx_Authenticated]) \<and>
    ch_state d2 = Channel_Ready \<and> mc_state ch = Mobile_Ready \<and> ch_v2Session d2 = Some d \<and> paired cr (mc_session ch) d \<and>
    ds_inboundCounter d = 1 \<and> ds_outboundCounter d = 1 \<and> mc_inboundChain ch = [] \<and> mc_decoding ch = None"
  by (rule handshake_completes [OF assms])

text \<open>Concrete ends: an injective numbering as the JSON text, and the decoder of UTF-8.\<close>

instance jsnum :: countable
  by countable_datatype

instance json :: countable
  by countable_datatype

definition sample_phone :: mobile_env where
  "sample_phone = \<lparr>me_crypto = plain_crypto, me_text_decode = utf8_decode, me_parse = (\<lambda>s. Some (from_nat (length s))),
     me_stringify = (\<lambda>j. replicate (to_nat j) CHR ''x''), me_deviceToken = ''tok''\<rparr>"

definition sample_desktop :: channel_env where
  "sample_desktop = (plain_env True)\<lparr>ce_text_decode := utf8_decode, ce_parse := (\<lambda>s. Some (from_nat (length s))),
     ce_stringify := (\<lambda>j. replicate (to_nat j) CHR ''x'')\<rparr>"

definition open_now :: socket_now where
  "open_now = \<lparr>sn_open = True, sn_bufferedAmount = (\<lambda>_. Fin 0), sn_random = replicate 32 3\<rparr>"

lemma sample_ends: "ends_match sample_phone sample_desktop ch_device" "writable_now open_now"
  "ce_crypto sample_desktop = plain_crypto" "ce_serverSecretKey sample_desktop = replicate 32 5"
  "ce_transportContext sample_desktop = \<lparr>ec_transport = Direct, ec_relayHostId = None\<rparr>"
  using plain_crypto_ok
  by (simp_all add: ends_match_def sample_phone_def sample_desktop_def plain_env_def utf8_decode_utf8 ch_device_def
      writable_now_def open_now_def bufferedAmount_def DEFAULT_WSQ_OPTIONS_def)

lemma sample_context:
  "\<lparr>ec_transport = Direct, ec_relayHostId = None\<rparr> =
     \<lparr>ec_transport = Direct, ec_relayHostId = (case None of Some h \<Rightarrow> (if h \<noteq> [] then Some h else None) | None \<Rightarrow> None)\<rparr>"
  "context_ok \<lparr>ec_transport = Direct, ec_relayHostId = None\<rparr>"
  by (simp_all add: context_ok_def)

theorem handshake_reaches_ready_witness:
  "\<exists>c confirmed d1 auth d2 ready ch.
     client_create plain_crypto (btoa (cr_public plain_crypto (replicate 32 5))) Direct None (replicate 32 7) (replicate 32 9) = Inr c \<and>
     handleRawMessage sample_desktop open_now auth d1 = (d2, [Fx_Ready ch_device, Fx_Send confirmed]) \<and> ch_state d2 = Channel_Ready \<and>
     fst (mobile_run sample_phone c [MC_Message ready, MC_Run open_now, MC_Message confirmed, MC_Run open_now]) = ch \<and> mc_state ch = Mobile_Ready"
proof -
  obtain c where c: "client_create plain_crypto (btoa (cr_public plain_crypto (replicate 32 5))) Direct None (replicate 32 7) (replicate 32 9) = Inr c"
    using sample_client by blast
  obtain ready auth confirmed d1 d2 ch where r:
      "handleRawMessage sample_desktop open_now auth d1 = (d2, [Fx_Ready ch_device, Fx_Send confirmed])" "ch_state d2 = Channel_Ready"
      "fst (mobile_run sample_phone c [MC_Message ready, MC_Run open_now, MC_Message confirmed, MC_Run open_now]) = ch" "mc_state ch = Mobile_Ready"
    using handshake_reaches_ready [OF sample_ends(1,2) sample_ends(3-5) [symmetric] c sample_context] by (metis fst_conv)
  with c show ?thesis by blast
qed

text \<open>
  The phone passes nothing on before the desktop has confirmed its token. Over any run of a channel
  (frames arriving, being processed and decoded in any interleaving with sends, timers and disposals) a text or a
  binary message is handed to the client only after \<open>onAuthenticated\<close>, and authentication is announced once at most.
\<close>

theorem phone_delivers_after_authentication:
  assumes "snd (mobile_run env c es) = tr" "i < length tr" "tr ! i = Mx_Text p \<or> tr ! i = Mx_Binary b"
  shows "count_list tr Mx_Authenticated = 1 \<and> (\<exists>j < i. tr ! j = Mx_Authenticated)"
proof -
  have "announced_first tr" using mobile_run_inv [of env c es] assms(1) by (simp add: mobile_inv_def)
  moreover have "is_mobile_delivery (tr ! i)" using assms(3) by auto
  ultimately show ?thesis using assms(2) announced_before by blast
qed

lemma sample_delivery:
  "\<exists>c es hello auth. snd (mobile_run sample_phone c es) = [Mx_Send hello, Mx_Send auth, Mx_Authenticated, Mx_Text ''hi'']"
proof -
  let ?key = "replicate 32 5 :: bytes"
  obtain c where c: "client_create plain_crypto (btoa (cr_public plain_crypto ?key)) Direct None (replicate 32 7) (replicate 32 9) = Inr c"
    using sample_client by blast
  obtain ready auth confirmed hello d ch where
    run: "mobile_run sample_phone c [MC_Message ready, MC_Run open_now, MC_Message confirmed, MC_Run open_now] =
      (ch, [Mx_Send hello, Mx_Send auth, Mx_Authenticated])" "mc_state ch = Mobile_Ready" "paired plain_crypto (mc_session ch) d"
      "ds_outboundCounter d = 1" "mc_inboundChain ch = []" "mc_decoding ch = None"
    using handshake_completes [OF sample_ends(1,2) sample_ends(3-5) [symmetric] c] sample_context by fastforce
  obtain t c' where t: "client_openText utf8_decode plain_crypto t (mc_session ch) = Inr (Some ''hi'', c')"
    using desktop_text_opens [OF run(3), of "''hi''" utf8_decode] run(4) by (auto simp: utf8_decode_utf8)
  have "foldl (mobile_step sample_phone) (ch, [Mx_Send hello, Mx_Send auth, Mx_Authenticated]) [MC_Message (Raw_Text t), MC_Run open_now] =
      (ch\<lparr>mc_session := c'\<rparr>, [Mx_Send hello, Mx_Send auth, Mx_Authenticated, Mx_Text ''hi''])"
    using run t by (simp add: mobile_step_def processMessage_def report_def mobile_deliver_def sample_phone_def)
  then have "snd (mobile_run sample_phone c ([MC_Message ready, MC_Run open_now, MC_Message confirmed, MC_Run open_now] @ [MC_Message (Raw_Text t), MC_Run open_now])) =
      [Mx_Send hello, Mx_Send auth, Mx_Authenticated, Mx_Text ''hi'']"
    using run(1) by (simp add: mobile_run_def)
  then show ?thesis by blast
qed

theorem phone_delivers_after_authentication_witness:
  "\<exists>c es. count_list (snd (mobile_run sample_phone c es)) Mx_Authenticated = 1"
proof -
  obtain c es hello auth where r: "snd (mobile_run sample_phone c es) = [Mx_Send hello, Mx_Send auth, Mx_Authenticated, Mx_Text ''hi'']"
    using sample_delivery by blast
  then have "count_list (snd (mobile_run sample_phone c es)) Mx_Authenticated = 1"
    using phone_delivers_after_authentication [OF r, of 3 "''hi''" "[]"] by simp
  then show ?thesis by blast
qed

text \<open>
  Disposing of the phone's channel is final for what had arrived. Whatever state a channel has reached, after
  \<open>dispose\<close> the messages still waiting on the chain, the one being decoded, sends and timers of the
  outbound queue have no effect any more; only a frame handed in afterwards could have one.
\<close>

theorem disposed_phone_is_silent:
  assumes "list_all (\<lambda>e. \<not> is_message e) es'"
  shows "snd (foldl (mobile_step env) (mobile_dispose (fst (mobile_run env c es)), []) es') = []"
proof -
  have "generations_ok (fst (mobile_run env c es))" using mobile_run_inv [of env c es] by (simp add: mobile_inv_def waiting_ok_def)
  then have "stale (mobile_dispose (fst (mobile_run env c es)))"
    by (auto simp: stale_def generations_ok_def mobile_dispose_def less_Suc_eq_le)
  with assms show ?thesis by (simp add: stale_run)
qed

theorem disposed_phone_is_silent_witness:
  "\<exists>c. client_create plain_crypto (btoa (cr_public plain_crypto (replicate 32 5))) Direct None (replicate 32 7) (replicate 32 9) = Inr c \<and>
     snd (foldl (mobile_step sample_phone) (mobile_dispose (fst (mobile_run sample_phone c [MC_Message (Raw_Text ''ready'')])), [])
       [MC_Run open_now, MC_Decoded None, MC_Send open_now (V2_Text ''hi'')]) = []"
proof -
  let ?es = "[MC_Run open_now, MC_Decoded None, MC_Send open_now (V2_Text ''hi'')]"
  have "list_all (\<lambda>e. \<not> is_message e) ?es" by simp
  from disposed_phone_is_silent [OF this] sample_client show ?thesis by blast
qed

end
