(* ===== verification/Data_Transport.thy ===== *)
theory Data_Transport
  imports Mobile_Wiring
begin

text \<open>
  The data sockets that a desktop opens to its relay cell, one for every phone that the cell announces,
  \<open>src/pie-mobile/upstream/src/main/runtime/rpc/relay-transport.ts\<close>. Sockets are numbered in the order of their
  creation; \<open>dt_sockets\<close> holds for each of them the variables that the closures of \<open>openConnection\<close> share. What a
  call does to the outside is a list of effects: sockets created or terminated, the authentication message, the handlers
  called, and how the promises of \<open>openConnection\<close> and \<open>stop\<close> settle. The parsing of the cell's URL is not modelled;
  its result is the option \<open>do_cellWebSocketOrigin\<close>.
\<close>

section \<open>State\<close>

record connection_open =
  co_connId :: string
  co_connTicket :: string
  co_kind :: credential_kind
  co_relayDeviceId :: string

record data_socket =
  sk_connection :: connection_open
  sk_opened :: bool
  sk_attached :: bool
  sk_finalized :: bool
  sk_errored :: bool
  sk_deadline :: bool \<comment> \<open>the timer is armed\<close>

record transport_options =
  do_cellWebSocketOrigin :: string
  do_relayHostId :: string

record data_transport =
  dt_generation :: rat
  dt_socketsByConnectionId :: "(string \<times> nat) list"
  dt_metadataBySocket :: "(nat \<times> transport_metadata) list"
  dt_clientIds :: "(nat \<times> string) list"
  dt_messageHandler :: bool
  dt_closeHandler :: bool
  dt_stopped :: bool
  dt_sockets :: "data_socket list"
  dt_stops :: "nat list list" \<comment> \<open>the sockets that each pending \<open>stop\<close> still waits for\<close>

datatype transport_effect =
    Dt_Create nat string
  | Dt_Terminate nat
  | Dt_Send nat json
  | Dt_Message nat raw_frame
  | Dt_Connection_Closed string
  | Dt_Close_Handler "string option" nat bool
  | Dt_Opened nat
  | Dt_Open_Failed nat
  | Dt_Open_Refused
  | Dt_Already_Open
  | Dt_Stop_Done
  | Dt_Threw

definition transport_new :: "rat \<Rightarrow> data_transport" where
  "transport_new generation = \<lparr>dt_generation = generation, dt_socketsByConnectionId = [], dt_metadataBySocket = [], dt_clientIds = [],
     dt_messageHandler = False, dt_closeHandler = False, dt_stopped = False, dt_sockets = [], dt_stops = []\<rparr>"

section \<open>Operations\<close>

definition metadataFor :: "nat \<Rightarrow> data_transport \<Rightarrow> transport_metadata option" where
  "metadataFor ws t = map_of (dt_metadataBySocket t) ws"

definition transport_setClientId :: "nat \<Rightarrow> string \<Rightarrow> data_transport \<Rightarrow> data_transport" where
  "transport_setClientId ws clientId t =
     (if ws \<in> fst ` set (dt_metadataBySocket t) then t\<lparr>dt_clientIds := AList.update ws clientId (dt_clientIds t)\<rparr> else t)"

definition is_safe_integer :: "rat \<Rightarrow> bool" where
  "is_safe_integer r \<longleftrightarrow> r = of_int \<lfloor>r\<rfloor> \<and> \<bar>r\<bar> \<le> 2 ^ 53 - 1"

definition transport_setGeneration :: "rat \<Rightarrow> data_transport \<Rightarrow> data_transport \<times> transport_effect list" where
  "transport_setGeneration generation t =
     (if generation = dt_generation t then (t, [])
      else if dt_socketsByConnectionId t \<noteq> [] \<or> \<not> is_safe_integer generation \<or> generation \<le> 0 then (t, [Dt_Threw])
      else (t\<lparr>dt_generation := generation\<rparr>, []))"

definition terminateClientConnections :: "string \<Rightarrow> data_transport \<Rightarrow> transport_effect list" where
  "terminateClientConnections clientId t = map (\<lambda>(ws, _). Dt_Terminate ws) (filter (\<lambda>(_, candidate). candidate = clientId) (dt_clientIds t))"

definition transport_start :: "data_transport \<Rightarrow> data_transport" where
  "transport_start t = t\<lparr>dt_stopped := False\<rparr>"

definition transport_stop :: "data_transport \<Rightarrow> data_transport \<times> transport_effect list" where
  "transport_stop t =
     (let sockets = map fst (dt_metadataBySocket t)
      in (t\<lparr>dt_stopped := True, dt_stops := (if sockets = [] then dt_stops t else dt_stops t @ [sockets])\<rparr>,
          map Dt_Terminate sockets @ (if sockets = [] then [Dt_Stop_Done] else [])))"

definition connection_metadata :: "transport_options \<Rightarrow> connection_open \<Rightarrow> transport_metadata" where
  "connection_metadata opts c = Relay_Transport (do_relayHostId opts) (co_relayDeviceId c) (co_connId c) (co_kind c)"

definition openConnection :: "transport_options \<Rightarrow> connection_open \<Rightarrow> data_transport \<Rightarrow> data_transport \<times> transport_effect list" where
  "openConnection opts c t =
     (if dt_stopped t then (t, [Dt_Open_Refused])
      else if co_connId c \<in> fst ` set (dt_socketsByConnectionId t) then (t, [Dt_Already_Open])
      else (let ws = length (dt_sockets t);
                url = do_cellWebSocketOrigin opts @ ''/v1/host/data/'' @ encodeURIComponent (co_connId c)
            in (t\<lparr>dt_socketsByConnectionId := AList.update (co_connId c) ws (dt_socketsByConnectionId t),
                  dt_metadataBySocket := AList.update ws (connection_metadata opts c) (dt_metadataBySocket t),
                  dt_sockets := dt_sockets t @ [\<lparr>sk_connection = c, sk_opened = False, sk_attached = False, sk_finalized = False,
                    sk_errored = False, sk_deadline = True\<rparr>]\<rparr>,
                [Dt_Create ws url])))"

abbreviation set_socket :: "nat \<Rightarrow> data_socket \<Rightarrow> data_transport \<Rightarrow> data_transport" where
  "set_socket ws sk t \<equiv> t\<lparr>dt_sockets := (dt_sockets t)[ws := sk]\<rparr>"

definition deadline_fired :: "nat \<Rightarrow> data_transport \<Rightarrow> data_transport \<times> transport_effect list" where
  "deadline_fired ws t =
     (let sk = dt_sockets t ! ws in
      if \<not> sk_deadline sk then (t, [])
      else (set_socket ws (sk\<lparr>sk_deadline := False\<rparr>) t, Dt_Terminate ws # (if sk_opened sk then [] else [Dt_Open_Failed ws])))"

definition finalize :: "nat \<Rightarrow> data_transport \<Rightarrow> data_transport \<times> transport_effect list" where
  "finalize ws t =
     (let sk = dt_sockets t ! ws; connId = co_connId (sk_connection sk) in
      if sk_finalized sk then (t, [])
      else (let clientId = map_of (dt_clientIds t) ws;
                t1 = t\<lparr>dt_sockets := (dt_sockets t)[ws := sk\<lparr>sk_finalized := True, sk_deadline := False\<rparr>],
                      dt_socketsByConnectionId := AList.delete connId (dt_socketsByConnectionId t),
                      dt_metadataBySocket := AList.delete ws (dt_metadataBySocket t),
                      dt_clientIds := AList.delete ws (dt_clientIds t)\<rparr>;
                hasOtherConnections = (case clientId of None \<Rightarrow> False | Some i \<Rightarrow> i \<in> snd ` set (dt_clientIds t1))
            in (t1, Dt_Connection_Closed connId # (if dt_closeHandler t1 then [Dt_Close_Handler clientId ws hasOtherConnections] else []))))"

definition socket_message :: "nat \<Rightarrow> raw_frame \<Rightarrow> data_transport \<Rightarrow> data_transport \<times> transport_effect list" where
  "socket_message ws raw t =
     (let sk = dt_sockets t ! ws
      in (if sk_attached sk then t else set_socket ws (sk\<lparr>sk_attached := True, sk_deadline := False\<rparr>) t,
          if dt_messageHandler t then [Dt_Message ws raw] else []))"

definition socket_open :: "nat \<Rightarrow> data_transport \<Rightarrow> data_transport \<times> transport_effect list" where
  "socket_open ws t =
     (let sk = dt_sockets t ! ws in
      if sk_opened sk then (t, [])
      else (set_socket ws (sk\<lparr>sk_opened := True\<rparr>) t,
            [Dt_Send ws (JObj [(''type'', JStr ''host-data-auth''), (''v'', JNum (Fin 1)),
               (''connTicket'', JStr (co_connTicket (sk_connection sk))), (''generation'', JNum (Fin (dt_generation t)))]),
             Dt_Opened ws]))"

definition socket_error :: "nat \<Rightarrow> data_transport \<Rightarrow> data_transport \<times> transport_effect list" where
  "socket_error ws t =
     (let sk = dt_sockets t ! ws in
      if sk_errored sk then (t, [])
      else (let t1 = set_socket ws (sk\<lparr>sk_errored := True\<rparr>) t in
            if sk_opened sk then (t1, [])
            else (let (t2, effs) = finalize ws t1 in (t2, effs @ [Dt_Open_Failed ws]))))"

text \<open>The close event runs \<open>finalize\<close>, then the handlers of the pending stops.\<close>

definition closed_for_stops :: "nat \<Rightarrow> nat list list \<Rightarrow> nat list list \<times> transport_effect list" where
  "closed_for_stops ws stops =
     (let after = map (removeAll ws) stops
      in (filter (\<lambda>s. s \<noteq> []) after, map (\<lambda>_. Dt_Stop_Done) (filter (\<lambda>s. s = []) after)))"

definition socket_close :: "nat \<Rightarrow> data_transport \<Rightarrow> data_transport \<times> transport_effect list" where
  "socket_close ws t =
     (let (t1, effs) = finalize ws t; (stops, done) = closed_for_stops ws (dt_stops t1)
      in (t1\<lparr>dt_stops := stops\<rparr>, effs @ done))"

datatype transport_event =
    DE_Handlers
  | DE_Open connection_open
  | DE_Socket_Open nat
  | DE_Message nat raw_frame
  | DE_Error nat
  | DE_Close nat
  | DE_Deadline nat
  | DE_SetClientId nat string
  | DE_SetGeneration rat
  | DE_Terminate string
  | DE_Start
  | DE_Stop

definition on_socket ::
  "nat \<Rightarrow> (data_transport \<Rightarrow> data_transport \<times> transport_effect list) \<Rightarrow> data_transport \<Rightarrow> data_transport \<times> transport_effect list" where
  "on_socket ws f t = (if ws < length (dt_sockets t) then f t else (t, []))"

fun transport_next :: "transport_options \<Rightarrow> data_transport \<Rightarrow> transport_event \<Rightarrow> data_transport \<times> transport_effect list" where
  "transport_next opts t DE_Handlers = (t\<lparr>dt_messageHandler := True, dt_closeHandler := True\<rparr>, [])"
| "transport_next opts t (DE_Open c) = openConnection opts c t"
| "transport_next opts t (DE_Socket_Open ws) = on_socket ws (socket_open ws) t"
| "transport_next opts t (DE_Message ws raw) = on_socket ws (socket_message ws raw) t"
| "transport_next opts t (DE_Error ws) = on_socket ws (socket_error ws) t"
| "transport_next opts t (DE_Close ws) = on_socket ws (socket_close ws) t"
| "transport_next opts t (DE_Deadline ws) = on_socket ws (deadline_fired ws) t"
| "transport_next opts t (DE_SetClientId ws clientId) = (transport_setClientId ws clientId t, [])"
| "transport_next opts t (DE_SetGeneration g) = transport_setGeneration g t"
| "transport_next opts t (DE_Terminate clientId) = (t, terminateClientConnections clientId t)"
| "transport_next opts t DE_Start = (transport_start t, [])"
| "transport_next opts t DE_Stop = transport_stop t"

definition transport_step ::
  "transport_options \<Rightarrow> data_transport \<times> transport_effect list \<Rightarrow> transport_event \<Rightarrow> data_transport \<times> transport_effect list" where
  "transport_step opts w e = (let (t, effs) = transport_next opts (fst w) e in (t, snd w @ effs))"

definition transport_run :: "transport_options \<Rightarrow> rat \<Rightarrow> transport_event list \<Rightarrow> data_transport \<times> transport_effect list" where
  "transport_run opts generation es = foldl (transport_step opts) (transport_new generation, []) es"

section \<open>Invariant\<close>

text \<open>What the tables depend on: of every socket its connection and whether it was finalized.\<close>

definition sockets_of :: "data_transport \<Rightarrow> (connection_open \<times> bool) list" where
  "sockets_of t = map (\<lambda>sk. (sk_connection sk, sk_finalized sk)) (dt_sockets t)"

definition live_socket :: "data_transport \<Rightarrow> nat \<Rightarrow> connection_open \<Rightarrow> bool" where
  "live_socket t ws c \<longleftrightarrow> ws < length (sockets_of t) \<and> sockets_of t ! ws = (c, False)"

definition tables_ok :: "transport_options \<Rightarrow> data_transport \<Rightarrow> bool" where
  "tables_ok opts t \<longleftrightarrow>
     distinct (map fst (dt_socketsByConnectionId t)) \<and> distinct (map fst (dt_metadataBySocket t)) \<and> distinct (map fst (dt_clientIds t)) \<and>
     (\<forall>k ws. map_of (dt_socketsByConnectionId t) k = Some ws \<longleftrightarrow> (\<exists>c. live_socket t ws c \<and> co_connId c = k)) \<and>
     (\<forall>ws m. map_of (dt_metadataBySocket t) ws = Some m \<longleftrightarrow> (\<exists>c. live_socket t ws c \<and> m = connection_metadata opts c)) \<and>
     (\<forall>ws i. map_of (dt_clientIds t) ws = Some i \<longrightarrow> (\<exists>c. live_socket t ws c))"

lemma tables_ok_cong:
  assumes "tables_ok opts t" "sockets_of t' = sockets_of t" "dt_socketsByConnectionId t' = dt_socketsByConnectionId t"
    and "dt_metadataBySocket t' = dt_metadataBySocket t" "dt_clientIds t' = dt_clientIds t"
  shows "tables_ok opts t'"
  using assms by (simp add: tables_ok_def live_socket_def)

lemma sockets_of_simps [simp]:
  "sockets_of (t\<lparr>dt_stopped := b\<rparr>) = sockets_of t" "sockets_of (t\<lparr>dt_stops := s\<rparr>) = sockets_of t"
  "sockets_of (t\<lparr>dt_messageHandler := b\<rparr>) = sockets_of t" "sockets_of (t\<lparr>dt_closeHandler := b\<rparr>) = sockets_of t"
  "sockets_of (t\<lparr>dt_generation := g\<rparr>) = sockets_of t" "sockets_of (t\<lparr>dt_clientIds := cs\<rparr>) = sockets_of t"
  "sockets_of (t\<lparr>dt_metadataBySocket := ms\<rparr>) = sockets_of t" "sockets_of (t\<lparr>dt_socketsByConnectionId := ss\<rparr>) = sockets_of t"
  "length (sockets_of t) = length (dt_sockets t)"
  by (simp_all add: sockets_of_def)

lemma sockets_of_flag:
  assumes "ws < length (dt_sockets t)" "sk_connection sk = sk_connection (dt_sockets t ! ws)" "sk_finalized sk = sk_finalized (dt_sockets t ! ws)"
  shows "sockets_of (t\<lparr>dt_sockets := (dt_sockets t)[ws := sk]\<rparr>) = sockets_of t"
  using assms by (intro nth_equalityI) (auto simp: sockets_of_def nth_list_update)

text \<open>The calls that leave the tables alone.\<close>

definition same_tables :: "data_transport \<Rightarrow> data_transport \<Rightarrow> bool" where
  "same_tables t t' \<longleftrightarrow> sockets_of t' = sockets_of t \<and> dt_socketsByConnectionId t' = dt_socketsByConnectionId t \<and>
     dt_metadataBySocket t' = dt_metadataBySocket t \<and> dt_clientIds t' = dt_clientIds t"

lemma flag_calls:
  assumes "ws < length (dt_sockets t)"
  shows "same_tables t (fst (deadline_fired ws t))" "same_tables t (fst (socket_message ws raw t))" "same_tables t (fst (socket_open ws t))"
  using assms by (simp_all add: same_tables_def deadline_fired_def socket_message_def socket_open_def Let_def sockets_of_flag)

lemma live_socket_iff: "ws < length (dt_sockets t) \<Longrightarrow>
    live_socket t ws c \<longleftrightarrow> sk_connection (dt_sockets t ! ws) = c \<and> \<not> sk_finalized (dt_sockets t ! ws)"
  by (auto simp: live_socket_def sockets_of_def)

lemma live_socket_dest: "live_socket t ws c \<Longrightarrow> ws < length (dt_sockets t)"
  by (simp add: live_socket_def)

lemma open_tables:
  assumes "tables_ok opts t"
  shows "tables_ok opts (fst (openConnection opts c t))"
proof (cases "dt_stopped t \<or> co_connId c \<in> fst ` set (dt_socketsByConnectionId t)")
  case True
  with assms show ?thesis by (auto simp: openConnection_def)
next
  case False
  let ?ws = "length (dt_sockets t)"
  let ?t = "fst (openConnection opts c t)"
  have t: "dt_socketsByConnectionId ?t = AList.update (co_connId c) ?ws (dt_socketsByConnectionId t)"
    "dt_metadataBySocket ?t = AList.update ?ws (connection_metadata opts c) (dt_metadataBySocket t)" "dt_clientIds ?t = dt_clientIds t"
    "sockets_of ?t = sockets_of t @ [(c, False)]"
    using False by (simp_all add: openConnection_def Let_def sockets_of_def)
  have live: "live_socket ?t ws d \<longleftrightarrow> live_socket t ws d \<or> ws = ?ws \<and> d = c" for ws d
    by (auto simp: live_socket_def t(4) nth_append less_Suc_eq)
  have fresh: "\<not> live_socket t ?ws d" for d by (auto dest: live_socket_dest)
  have "map_of (dt_socketsByConnectionId t) (co_connId c) = None" using False by (simp add: map_of_eq_None_iff)
  then have unused: "live_socket t ws d \<Longrightarrow> co_connId d \<noteq> co_connId c" for ws d
    using assms unfolding tables_ok_def by (metis option.distinct(1))
  show ?thesis
    using assms fresh unused unfolding tables_ok_def t live
    by (auto simp: distinct_update update_conv split: if_splits) blast
qed

lemma finalize_tables:
  assumes "tables_ok opts t" "ws < length (dt_sockets t)"
  shows "tables_ok opts (fst (finalize ws t))"
proof (cases "sk_finalized (dt_sockets t ! ws)")
  case True
  with assms show ?thesis by (simp add: finalize_def)
next
  case False
  let ?t = "fst (finalize ws t)"
  let ?c = "sk_connection (dt_sockets t ! ws)"
  have t: "dt_socketsByConnectionId ?t = AList.delete (co_connId ?c) (dt_socketsByConnectionId t)"
    "dt_metadataBySocket ?t = AList.delete ws (dt_metadataBySocket t)" "dt_clientIds ?t = AList.delete ws (dt_clientIds t)"
    "sockets_of ?t = (sockets_of t)[ws := (?c, True)]"
    using False by (simp_all add: finalize_def Let_def sockets_of_def map_update)
  have c: "live_socket t ws ?c" using False assms(2) by (simp add: live_socket_iff)
  have live: "live_socket ?t v d \<longleftrightarrow> live_socket t v d \<and> v \<noteq> ws" for v d
    using assms(2) by (auto simp: live_socket_def t(4) nth_list_update)
  have uniq: "v = ws" if "live_socket t v d" "co_connId d = co_connId ?c" for v d
    using assms(1) that c unfolding tables_ok_def by (metis option.inject)
  have uniq2: "co_connId d \<noteq> co_connId ?c" if "live_socket t v d" "v \<noteq> ws" for v d
    using uniq that by blast
  have same: "live_socket t ws d \<Longrightarrow> d = ?c" for d using c by (simp add: live_socket_def)
  have conns: "map_of (dt_socketsByConnectionId ?t) k = Some v \<longleftrightarrow> (\<exists>d. live_socket ?t v d \<and> co_connId d = k)" for k v
  proof (cases "k = co_connId ?c")
    case True
    then show ?thesis using uniq2 unfolding t live by (auto simp: delete_conv')
  next
    case False
    then have "map_of (dt_socketsByConnectionId ?t) k = Some v \<longleftrightarrow> (\<exists>d. live_socket t v d \<and> co_connId d = k)"
      using assms(1) unfolding t tables_ok_def by (simp add: delete_conv')
    then show ?thesis unfolding live using False same by metis
  qed
  have rest: "map_of (dt_metadataBySocket ?t) v = Some m \<longleftrightarrow> (\<exists>d. live_socket ?t v d \<and> m = connection_metadata opts d)"
    "map_of (dt_clientIds ?t) v = Some i \<Longrightarrow> \<exists>d. live_socket ?t v d" for v m i
    using assms(1) unfolding t tables_ok_def live by (auto simp: delete_conv' split: if_splits)
  show ?thesis
    using assms(1) conns rest unfolding tables_ok_def by (simp add: t distinct_delete)
qed

lemma same_tables_ok: "tables_ok opts t \<Longrightarrow> same_tables t t' \<Longrightarrow> tables_ok opts t'"
  by (rule tables_ok_cong) (simp_all add: same_tables_def)

text \<open>The account of connections: each one opened is live or was reported closed once.\<close>

definition opened_ids :: "data_transport \<Rightarrow> string list" where
  "opened_ids t = map (\<lambda>s. co_connId (fst s)) (sockets_of t)"

definition balanced :: "data_transport \<times> transport_effect list \<Rightarrow> bool" where
  "balanced w \<longleftrightarrow> (\<forall>k. count_list (opened_ids (fst w)) k =
     count_list (snd w) (Dt_Connection_Closed k) + (if map_of (dt_socketsByConnectionId (fst w)) k = None then 0 else 1))"

definition no_close :: "transport_effect list \<Rightarrow> bool" where
  "no_close effs \<longleftrightarrow> (\<forall>k. Dt_Connection_Closed k \<notin> set effs)"

lemma balanced_quiet:
  assumes "balanced (t, tr)" "same_tables t t'" "no_close effs"
  shows "balanced (t', tr @ effs)"
proof -
  have "count_list effs (Dt_Connection_Closed k) = 0" for k using assms(3) by (simp add: count_list_0_iff no_close_def)
  then show ?thesis using assms(1,2) by (simp add: balanced_def same_tables_def opened_ids_def count_list_append)
qed

lemma balanced_open:
  assumes "balanced (t, tr)" "openConnection opts c t = (t', effs)"
  shows "balanced (t', tr @ effs)"
proof (cases "dt_stopped t \<or> co_connId c \<in> fst ` set (dt_socketsByConnectionId t)")
  case True
  with assms(2) have "t' = t" "no_close effs" by (auto simp: openConnection_def no_close_def split: if_splits)
  then show ?thesis using balanced_quiet [OF assms(1), of t effs] by (simp add: same_tables_def)
next
  case False
  then have n: "map_of (dt_socketsByConnectionId t) (co_connId c) = None" by (simp add: map_of_eq_None_iff)
  have e: "opened_ids t' = opened_ids t @ [co_connId c]" "map_of (dt_socketsByConnectionId t') = (map_of (dt_socketsByConnectionId t))(co_connId c \<mapsto> length (dt_sockets t))"
    "count_list effs (Dt_Connection_Closed k) = 0" for k
    using assms(2) False by (auto simp: openConnection_def Let_def opened_ids_def sockets_of_def update_conv' count_list_0_iff)
  show ?thesis using assms(1) n unfolding balanced_def fst_conv snd_conv e(1,2) by (simp add: count_list_append e(3))
qed

lemma balanced_finalize:
  assumes "balanced (t, tr)" "tables_ok opts t" "ws < length (dt_sockets t)" "finalize ws t = (t', effs)"
  shows "balanced (t', tr @ effs)"
proof (cases "sk_finalized (dt_sockets t ! ws)")
  case True
  with assms(1,4) show ?thesis by (simp add: finalize_def)
next
  case False
  let ?c = "sk_connection (dt_sockets t ! ws)"
  have "live_socket t ws ?c" using False assms(3) by (simp add: live_socket_iff)
  then have l: "map_of (dt_socketsByConnectionId t) (co_connId ?c) = Some ws" using assms(2) unfolding tables_ok_def by metis
  have e: "opened_ids t' = opened_ids t" "map_of (dt_socketsByConnectionId t') = (map_of (dt_socketsByConnectionId t))(co_connId ?c := None)"
    "count_list effs (Dt_Connection_Closed k) = (if k = co_connId ?c then 1 else 0)" for k
    using assms(3,4) False
    by (auto simp: finalize_def Let_def opened_ids_def sockets_of_def delete_conv' map_update count_list_0_iff intro!: nth_equalityI simp: nth_list_update)
  show ?thesis using assms(1) l unfolding balanced_def fst_conv snd_conv e(1,2) by (simp add: count_list_append e(3))
qed

definition transport_inv :: "transport_options \<Rightarrow> data_transport \<times> transport_effect list \<Rightarrow> bool" where
  "transport_inv opts w \<longleftrightarrow> tables_ok opts (fst w) \<and> balanced w"

lemma inv_quiet: "transport_inv opts (t, tr) \<Longrightarrow> same_tables t t' \<Longrightarrow> no_close effs \<Longrightarrow> transport_inv opts (t', tr @ effs)"
  by (auto simp: transport_inv_def intro: same_tables_ok balanced_quiet)

lemma inv_same: "transport_inv opts (t, tr) \<Longrightarrow> same_tables t t' \<Longrightarrow> transport_inv opts (t', tr)"
  using inv_quiet [of opts t tr t' "[]"] by (simp add: no_close_def)

lemma inv_finalize:
  assumes "transport_inv opts (t, tr)" "ws < length (dt_sockets t)" "finalize ws t = (t', effs)"
  shows "transport_inv opts (t', tr @ effs)"
  using assms finalize_tables [of opts t ws] balanced_finalize [of t tr opts ws t' effs] by (simp add: transport_inv_def)

lemma inv_error:
  assumes "transport_inv opts (t, tr)" "ws < length (dt_sockets t)" "socket_error ws t = (t', effs)"
  shows "transport_inv opts (t', tr @ effs)"
proof (cases "sk_errored (dt_sockets t ! ws)")
  case True
  with assms show ?thesis by (simp add: socket_error_def)
next
  case False
  let ?t1 = "set_socket ws ((dt_sockets t ! ws)\<lparr>sk_errored := True\<rparr>) t"
  have 1: "transport_inv opts (?t1, tr @ [])"
    by (rule inv_quiet [OF assms(1)]) (use assms(2) in \<open>simp_all add: same_tables_def sockets_of_flag no_close_def\<close>)
  obtain t2 effs2 where f: "finalize ws ?t1 = (t2, effs2)" by fastforce
  have 2: "transport_inv opts (t2, tr @ effs2)" using inv_finalize [OF 1 _ f] assms(2) by simp
  have "transport_inv opts (t2, (tr @ effs2) @ [Dt_Open_Failed ws])"
    by (rule inv_quiet [OF 2]) (simp_all add: same_tables_def no_close_def)
  with 1 f assms(3) False show ?thesis by (auto simp: socket_error_def Let_def split: if_splits)
qed

lemma inv_close:
  assumes "transport_inv opts (t, tr)" "ws < length (dt_sockets t)" "socket_close ws t = (t', effs)"
  shows "transport_inv opts (t', tr @ effs)"
proof -
  obtain t1 effs1 where f: "finalize ws t = (t1, effs1)" by fastforce
  obtain stops dn where d: "closed_for_stops ws (dt_stops t1) = (stops, dn)" by fastforce
  have "no_close dn" using d by (auto simp: closed_for_stops_def Let_def no_close_def)
  then have "transport_inv opts (t1\<lparr>dt_stops := stops\<rparr>, (tr @ effs1) @ dn)"
    by (intro inv_quiet [OF inv_finalize [OF assms(1,2) f]]) (simp_all add: same_tables_def)
  with assms(3) f d show ?thesis by (auto simp: socket_close_def)
qed

lemma live_socket_clientIds [simp]: "live_socket (t\<lparr>dt_clientIds := cs\<rparr>) = live_socket t"
  by (intro ext) (simp add: live_socket_def)

lemma inv_setClientId:
  assumes "transport_inv opts (t, tr)"
  shows "transport_inv opts (transport_setClientId ws i t, tr)"
proof (cases "ws \<in> fst ` set (dt_metadataBySocket t)")
  case True
  then obtain m where "map_of (dt_metadataBySocket t) ws = Some m" by (metis map_of_eq_None_iff option.exhaust)
  then obtain c where "live_socket t ws c" using assms unfolding transport_inv_def tables_ok_def fst_conv by metis
  moreover have t: "transport_setClientId ws i t = t\<lparr>dt_clientIds := AList.update ws i (dt_clientIds t)\<rparr>"
    using True by (simp add: transport_setClientId_def)
  ultimately have "tables_ok opts (transport_setClientId ws i t)"
    using assms unfolding transport_inv_def fst_conv tables_ok_def t
    by (auto simp: distinct_update update_conv' simp del: map_of_eq_Some_iff)
  then show ?thesis using assms unfolding transport_inv_def t by (simp add: balanced_def opened_ids_def)
qed (use assms in \<open>simp add: transport_setClientId_def\<close>)

lemma transport_next_inv:
  assumes "transport_inv opts (t, tr)" "transport_next opts t e = (t', effs)"
  shows "transport_inv opts (t', tr @ effs)"
proof -
  have idle: "transport_inv opts (t, tr @ [])" using assms(1) by simp
  have quiet: ?thesis if "same_tables t t'" "no_close effs" using inv_quiet [OF assms(1) that] .
  show ?thesis
  proof (cases e)
    case (DE_Open c)
    then show ?thesis
      using assms open_tables [of opts t c] balanced_open [of t tr opts c t' effs] by (simp add: transport_inv_def)
  next
    case (DE_Socket_Open ws)
    then show ?thesis using assms(2) idle flag_calls(3) [of ws t]
      by (cases "ws < length (dt_sockets t)") (auto simp: on_socket_def socket_open_def Let_def no_close_def split: if_splits intro!: inv_quiet [OF assms(1)] inv_same [OF assms(1)])
  next
    case (DE_Message ws raw)
    then show ?thesis using assms(2) idle flag_calls(2) [of ws t raw]
      by (cases "ws < length (dt_sockets t)") (auto simp: on_socket_def socket_message_def Let_def no_close_def split: if_splits intro!: inv_quiet [OF assms(1)] inv_same [OF assms(1)])
  next
    case (DE_Deadline ws)
    then show ?thesis using assms(2) idle flag_calls(1) [of ws t]
      by (cases "ws < length (dt_sockets t)") (auto simp: on_socket_def deadline_fired_def Let_def no_close_def split: if_splits intro!: inv_quiet [OF assms(1)] inv_same [OF assms(1)])
  next
    case (DE_Error ws)
    then show ?thesis using assms idle inv_error [of opts t tr ws t' effs] by (auto simp: on_socket_def split: if_splits)
  next
    case (DE_Close ws)
    then show ?thesis using assms idle inv_close [of opts t tr ws t' effs] by (auto simp: on_socket_def split: if_splits)
  next
    case (DE_SetClientId ws i)
    then show ?thesis using assms inv_setClientId by auto
  next
    case DE_Stop
    then show ?thesis using assms(2) by (intro quiet) (auto simp: transport_stop_def Let_def same_tables_def no_close_def split: if_splits)
  qed (use assms(2) in \<open>auto intro!: inv_quiet [OF assms(1)] inv_same [OF assms(1)] simp: same_tables_def no_close_def transport_setGeneration_def terminateClientConnections_def
      transport_start_def split: if_splits\<close>)
qed

interpretation transport: event_machine "transport_step opts" "transport_inv opts" for opts
proof unfold_locales
  fix w e
  assume "transport_inv opts w"
  then show "transport_inv opts (transport_step opts w e)"
    using transport_next_inv [of opts "fst w" "snd w" e] by (auto simp: transport_step_def split: prod.split)
qed

lemma transport_run_inv: "transport_inv opts (transport_run opts generation es)"
  unfolding transport_run_def
  by (intro transport.run_inv)
    (simp add: transport_inv_def tables_ok_def balanced_def transport_new_def live_socket_def sockets_of_def opened_ids_def)

section \<open>Properties\<close>

text \<open>
  The transport loses no connection and reports none twice. Over any run (connections announced, sockets
  opening, failing, closing, missing their deadline, the transport stopping and starting) the table of connections and the
  table of metadata list exactly the same sockets, a client id belongs to one of them, and every connection that was opened
  is either in the table or has been reported closed, once for each time it was opened.
\<close>

theorem connections_are_accounted_for:
  "let (t, tr) = transport_run opts generation es in
     (\<forall>k. count_list (opened_ids t) k = count_list tr (Dt_Connection_Closed k) + (if k \<in> fst ` set (dt_socketsByConnectionId t) then 1 else 0)) \<and>
     (\<forall>ws. metadataFor ws t \<noteq> None \<longleftrightarrow> ws \<in> snd ` set (dt_socketsByConnectionId t)) \<and>
     fst ` set (dt_clientIds t) \<subseteq> snd ` set (dt_socketsByConnectionId t) \<and> distinct (map fst (dt_socketsByConnectionId t))"
proof -
  obtain t tr where r: "transport_run opts generation es = (t, tr)" by fastforce
  have inv: "tables_ok opts t" "balanced (t, tr)" using transport_run_inv [of opts generation es] by (simp_all add: transport_inv_def r)
  have d: "distinct (map fst (dt_socketsByConnectionId t))" using inv(1) by (simp add: tables_ok_def)
  have live: "ws \<in> snd ` set (dt_socketsByConnectionId t) \<longleftrightarrow> (\<exists>c. live_socket t ws c)" for ws
  proof -
    have "ws \<in> snd ` set (dt_socketsByConnectionId t) \<longleftrightarrow> (\<exists>k. map_of (dt_socketsByConnectionId t) k = Some ws)"
      using d by force
    also have "\<dots> \<longleftrightarrow> (\<exists>c. live_socket t ws c)" using inv(1) unfolding tables_ok_def by metis
    finally show ?thesis .
  qed
  have "metadataFor ws t \<noteq> None \<longleftrightarrow> (\<exists>c. live_socket t ws c)" for ws
    using inv(1) unfolding tables_ok_def metadataFor_def by (metis not_None_eq)
  moreover have "fst ` set (dt_clientIds t) \<subseteq> snd ` set (dt_socketsByConnectionId t)"
  proof
    fix ws
    assume "ws \<in> fst ` set (dt_clientIds t)"
    then have "\<exists>c. live_socket t ws c" using inv(1) unfolding tables_ok_def by (metis map_of_eq_None_iff not_None_eq)
    then show "ws \<in> snd ` set (dt_socketsByConnectionId t)" by (simp add: live)
  qed
  moreover have "map_of (dt_socketsByConnectionId t) k = None \<longleftrightarrow> k \<notin> fst ` set (dt_socketsByConnectionId t)" for k
    by (simp add: map_of_eq_None_iff)
  ultimately show ?thesis using inv(2) d unfolding r by (simp add: balanced_def live)
qed

lemma sockets_step:
  assumes "transport_next opts t e = (t', effs)"
  shows "fst ` set (sockets_of t') \<subseteq> fst ` set (sockets_of t) \<union> {c. e = DE_Open c}"
proof -
  have fin: "fst ` set (sockets_of (fst (finalize ws t))) \<subseteq> fst ` set (sockets_of t)" if "ws < length (dt_sockets t)" for ws t
  proof -
    have "set ((sockets_of t)[ws := (sk_connection (dt_sockets t ! ws), True)]) \<subseteq> insert (sk_connection (dt_sockets t ! ws), True) (set (sockets_of t))"
      by (rule set_update_subset_insert)
    moreover have "sk_connection (dt_sockets t ! ws) \<in> fst ` set (sockets_of t)" using that by (force simp: sockets_of_def)
    moreover have "sockets_of (fst (finalize ws t)) = (if sk_finalized (dt_sockets t ! ws) then sockets_of t else (sockets_of t)[ws := (sk_connection (dt_sockets t ! ws), True)])"
      by (simp add: finalize_def Let_def sockets_of_def map_update)
    ultimately show ?thesis by (auto split: if_splits dest!: subsetD) force
  qed
  have flags: "ws < length (dt_sockets t) \<Longrightarrow> sockets_of (fst (deadline_fired ws t)) = sockets_of t"
    "ws < length (dt_sockets t) \<Longrightarrow> sockets_of (fst (socket_message ws raw t)) = sockets_of t"
    "ws < length (dt_sockets t) \<Longrightarrow> sockets_of (fst (socket_open ws t)) = sockets_of t" for ws raw
    using flag_calls [of ws t] by (simp_all add: same_tables_def)
  have err: "fst ` set (sockets_of (fst (socket_error ws t))) \<subseteq> fst ` set (sockets_of t)" if "ws < length (dt_sockets t)" for ws
    using that fin [of ws "set_socket ws ((dt_sockets t ! ws)\<lparr>sk_errored := True\<rparr>) t"]
    by (simp add: socket_error_def Let_def sockets_of_flag split_beta)
  have cls: "fst ` set (sockets_of (fst (socket_close ws t))) \<subseteq> fst ` set (sockets_of t)" if "ws < length (dt_sockets t)" for ws
    using fin [OF that] by (simp add: socket_close_def split_beta)
  have t': "t' = fst (transport_next opts t e)" using assms by simp
  show ?thesis
  proof (cases e)
    case (DE_Open c)
    then show ?thesis unfolding t' by (auto simp: openConnection_def Let_def sockets_of_def)
  qed (use flags err cls in \<open>simp_all add: t' on_socket_def transport_setClientId_def transport_setGeneration_def
        transport_start_def transport_stop_def Let_def\<close>)
qed

lemma sockets_from_events: "fst ` set (sockets_of (fst (transport_run opts generation es))) \<subseteq> {c. DE_Open c \<in> set es}"
proof (induction es rule: rev_induct)
  case Nil
  then show ?case by (simp add: transport_run_def transport_new_def sockets_of_def)
next
  case (snoc e es)
  let ?w = "transport_run opts generation es"
  obtain t' effs where n: "transport_next opts (fst ?w) e = (t', effs)" by fastforce
  have "fst (transport_run opts generation (es @ [e])) = t'" using n by (simp add: transport_run_def transport_step_def)
  with sockets_step [OF n] snoc show ?case by auto
qed

text \<open>
  A relayed socket acts for the device that the cell announced. When the wiring of mobile sockets
  authenticates a device on a data socket of the transport, the cell had announced a connection for exactly that device, the
  socket is the one opened for that connection, and its metadata name it.
\<close>

theorem relayed_socket_acts_for_announced_device:
  assumes "metadataFor ws (fst (transport_run opts generation es)) = Some m" "resolveAuthenticatedDevice ds m token = Some device"
  shows "\<exists>c. DE_Open c \<in> set es \<and> dv_deviceId device = co_relayDeviceId c \<and> tm_basisConnId m = co_connId c \<and>
    map_of (dt_socketsByConnectionId (fst (transport_run opts generation es))) (co_connId c) = Some ws"
proof -
  let ?t = "fst (transport_run opts generation es)"
  have ok: "tables_ok opts ?t" using transport_run_inv [of opts generation es] by (simp add: transport_inv_def)
  then obtain c where c: "live_socket ?t ws c" "m = connection_metadata opts c"
    using assms(1) unfolding tables_ok_def metadataFor_def by metis
  have "(c, False) \<in> set (sockets_of ?t)" using c(1) by (auto simp: live_socket_def in_set_conv_nth)
  then have "DE_Open c \<in> set es" using sockets_from_events [of opts generation es] by force
  moreover have "dv_deviceId device = co_relayDeviceId c"
    using assms(2) c(2)
    by (auto simp: resolveAuthenticatedDevice_def connection_metadata_def is_relay_def toAuthenticatedDevice_def split: option.splits if_splits)
  moreover have "map_of (dt_socketsByConnectionId ?t) (co_connId c) = Some ws" using ok c(1) unfolding tables_ok_def by blast
  ultimately show ?thesis using c(2) by (auto simp: connection_metadata_def)
qed

definition sample_conn :: connection_open where
  "sample_conn = \<lparr>co_connId = ''c1'', co_connTicket = ''ticket'', co_kind = Invite_Credential, co_relayDeviceId = ''d1''\<rparr>"

definition sample_transport_options :: transport_options where
  "sample_transport_options = \<lparr>do_cellWebSocketOrigin = ''wss://cell'', do_relayHostId = ''host''\<rparr>"

theorem relayed_socket_acts_for_announced_device_witness:
  "\<exists>c. DE_Open c \<in> set [DE_Start, DE_Open sample_conn] \<and> ''d1'' = co_relayDeviceId c"
proof -
  let ?run = "transport_run sample_transport_options 0 [DE_Start, DE_Open sample_conn]"
  let ?m = "connection_metadata sample_transport_options sample_conn"
  let ?ds = "[\<lparr>de_deviceId = ''d1'', de_name = ''phone'', de_token = ''tok'', de_scope = Scope_Mobile, de_pairedAt = 0, de_lastSeenAt = 0,
    de_relayBinding = None, de_mobilePairingConnectionMode = None\<rparr>]"
  have "metadataFor 0 (fst ?run) = Some ?m"
    by (simp add: transport_run_def transport_step_def transport_new_def transport_start_def openConnection_def metadataFor_def Let_def)
  moreover have "resolveAuthenticatedDevice ?ds ?m (JStr ''tok'') = Some \<lparr>dv_deviceId = ''d1'', dv_deviceToken = ''tok'', dv_scope = Scope_Mobile\<rparr>"
    by (simp add: resolveAuthenticatedDevice_def validateToken_def toAuthenticatedDevice_def connection_metadata_def sample_conn_def)
  ultimately show ?thesis using relayed_socket_acts_for_announced_device by fastforce
qed

end
