(* ===== verification/Gateway_Relay.thy ===== *)
theory Gateway_Relay
  imports Data_Transport
begin

text \<open>
  How the host gateway stays reachable through a relay, \<open>src/pie-mobile/adapter/host-gateway/src/relay-gateway.ts\<close>: it
  asks the director for a cell, opens a control connection to it, reconnects when that is lost, and hands the data
  connections that the cell announces to a transport.

  A run of \<open>establishControl\<close> is an attempt, numbered by \<open>connectionAttempt\<close>; the same number names its promise and the
  control client it creates. Its awaits (the director's two answers, the acknowledgement of the cell, the stop of a
  transport) are phases, and their ends are events. \<open>rg_open\<close> holds the control clients that are connected and have
  neither been closed nor lost their socket. Transports are the ones of \<open>Data_Transport\<close>, by their number.
\<close>

section \<open>The verified identity\<close>

record identity_response =
  ir_status :: nat
  ir_ok :: bool
  ir_json :: "json option" \<comment> \<open>\<open>None\<close> when \<open>response.json()\<close> rejects\<close>

definition fetchRelayIdentity :: "string \<Rightarrow> identity_response \<Rightarrow> (json \<times> json \<times> json) option" where
  "fetchRelayIdentity fallbackUserId response =
     (if ir_status response = 404 then Some (JStr fallbackUserId, JStr ''pie-relay'', JStr ''standalone'')
      else if \<not> ir_ok response then None
      else (case ir_json response of
              None \<Rightarrow> None
            | Some JNull \<Rightarrow> None
            | Some v \<Rightarrow>
                (if \<not> truthy (jprop v ''userId'') \<or> \<not> truthy (jprop v ''profileId'') \<or> \<not> truthy (jprop v ''organizationId'') then None
                 else Some (the (jprop v ''userId''), the (jprop v ''profileId''), the (jprop v ''organizationId'')))))"

section \<open>State\<close>

datatype gateway_status = Disabled | Connecting | Registered | Offline

datatype caller = Start_Call | Reconnect_Call

datatype phase =
    Awaiting_Assignment
  | Awaiting_Ack nat bool "nat option" string rat \<comment> \<open>transport, reused, previous transport, cell, epoch\<close>
  | Cleaning bool \<comment> \<open>stopping its own transport; whether the attempt failed\<close>
  | Retiring \<comment> \<open>stopping the previous transport\<close>

record attempt =
  ga_id :: nat
  ga_caller :: caller
  ga_phase :: phase

record relay_gateway =
  rg_control :: "nat option"
  rg_transport :: "nat option"
  rg_transportCellUrl :: "string option"
  rg_endpoint :: "(string \<times> rat) option"
  rg_stopped :: bool
  rg_connectionAttempt :: nat
  rg_reconnectAttempt :: nat
  rg_reconnectTimer :: bool
  rg_connectPromise :: "nat option"
  rg_previousGeneration :: "rat option"
  rg_controlResumeSecret :: "string option"
  rg_attempts :: "attempt list"
  rg_stops :: nat \<comment> \<open>calls of \<open>stop\<close> that still wait for their transport\<close>
  rg_open :: "nat list"
  rg_transports :: "data_transport list"

datatype gateway_effect =
    GE_Status gateway_status
  | GE_Connect nat string rat "rat option" "string option"
  | GE_Close_Control nat
  | GE_Attach nat
  | GE_Detach nat
  | GE_Transport nat transport_effect
  | GE_Timer nat
  | GE_Started bool

definition RECONNECT_BASE_DELAY_MS :: nat where "RECONNECT_BASE_DELAY_MS = 500"
definition RECONNECT_MAX_DELAY_MS :: nat where "RECONNECT_MAX_DELAY_MS = 15000"

definition gateway_new :: relay_gateway where
  "gateway_new = \<lparr>rg_control = None, rg_transport = None, rg_transportCellUrl = None, rg_endpoint = None, rg_stopped = True,
     rg_connectionAttempt = 0, rg_reconnectAttempt = 0, rg_reconnectTimer = False, rg_connectPromise = None, rg_previousGeneration = None,
     rg_controlResumeSecret = None, rg_attempts = [], rg_stops = 0, rg_open = [], rg_transports = []\<rparr>"

section \<open>Operations\<close>

text \<open>The call of an operation of a transport, with its effects.\<close>

definition transport_call ::
  "nat \<Rightarrow> (data_transport \<Rightarrow> data_transport \<times> transport_effect list) \<Rightarrow> relay_gateway \<Rightarrow> relay_gateway \<times> gateway_effect list" where
  "transport_call i f g =
     (if i < length (rg_transports g)
      then (let (t, effs) = f (rg_transports g ! i) in (g\<lparr>rg_transports := (rg_transports g)[i := t]\<rparr>, map (GE_Transport i) effs))
      else (g, []))"

definition reconnect_delay :: "nat \<Rightarrow> nat" where
  "reconnect_delay n = min RECONNECT_MAX_DELAY_MS (RECONNECT_BASE_DELAY_MS * 2 ^ min n 5)"

definition scheduleReconnect :: "relay_gateway \<Rightarrow> relay_gateway \<times> gateway_effect list" where
  "scheduleReconnect g =
     (if rg_stopped g \<or> rg_reconnectTimer g \<or> rg_connectPromise g \<noteq> None \<or> rg_control g \<noteq> None then (g, [])
      else (g\<lparr>rg_reconnectAttempt := Suc (rg_reconnectAttempt g), rg_reconnectTimer := True\<rparr>,
            [GE_Status Offline, GE_Timer (reconnect_delay (rg_reconnectAttempt g))]))"

text \<open>The synchronous part of \<open>establishControl\<close>, up to the director's answers, and its promise.\<close>

definition establishControl :: "caller \<Rightarrow> relay_gateway \<Rightarrow> relay_gateway \<times> gateway_effect list" where
  "establishControl caller g =
     (let n = Suc (rg_connectionAttempt g)
      in (g\<lparr>rg_connectionAttempt := n, rg_connectPromise := Some n,
            rg_attempts := rg_attempts g @ [\<lparr>ga_id = n, ga_caller = caller, ga_phase = Awaiting_Assignment\<rparr>]\<rparr>,
          [GE_Status Connecting]))"

definition gateway_start :: "relay_gateway \<Rightarrow> relay_gateway \<times> gateway_effect list" where
  "gateway_start g =
     (if \<not> rg_stopped g \<and> (rg_control g \<noteq> None \<or> rg_connectPromise g \<noteq> None) then (g, [])
      else establishControl Start_Call (g\<lparr>rg_stopped := False\<rparr>))"

definition timer_fires :: "relay_gateway \<Rightarrow> relay_gateway \<times> gateway_effect list" where
  "timer_fires g =
     (if \<not> rg_reconnectTimer g then (g, [])
      else (let g1 = g\<lparr>rg_reconnectTimer := False\<rparr>
            in if rg_stopped g1 \<or> rg_control g1 \<noteq> None then (g1, []) else establishControl Reconnect_Call g1))"

text \<open>The end of an attempt: what \<open>start\<close> or the reconnect timer does when its promise settles.\<close>

definition settle :: "attempt \<Rightarrow> bool \<Rightarrow> relay_gateway \<Rightarrow> relay_gateway \<times> gateway_effect list" where
  "settle a failed g =
     (let g1 = g\<lparr>rg_attempts := filter (\<lambda>b. ga_id b \<noteq> ga_id a) (rg_attempts g)\<rparr>;
          released = (if rg_connectPromise g1 = Some (ga_id a) then None else rg_connectPromise g1)
      in case ga_caller a of
           Start_Call \<Rightarrow>
             (g1\<lparr>rg_stopped := (failed \<or> rg_stopped g1), rg_connectPromise := released\<rparr>, [GE_Started (\<not> failed)])
         | Reconnect_Call \<Rightarrow>
             (let g2 = g1\<lparr>rg_connectPromise := released\<rparr>;
                  (g3, effs) = (if \<not> rg_stopped g2 \<and> rg_control g2 = None then scheduleReconnect g2 else (g2, []))
              in (g3, (if failed then [GE_Status Offline] else []) @ effs)))"

definition set_phase :: "nat \<Rightarrow> phase \<Rightarrow> relay_gateway \<Rightarrow> relay_gateway" where
  "set_phase n p g = g\<lparr>rg_attempts := map (\<lambda>a. if ga_id a = n then a\<lparr>ga_phase := p\<rparr> else a) (rg_attempts g)\<rparr>"

text \<open>The director has answered both requests, or one of them failed.\<close>

definition assignment_received ::
  "attempt \<Rightarrow> (string \<times> rat) option \<Rightarrow> (json \<times> json \<times> json) option \<Rightarrow> relay_gateway \<Rightarrow> relay_gateway \<times> gateway_effect list" where
  "assignment_received a assignment identity g =
     (case (assignment, identity) of
        (Some (cellUrl, epoch), Some _) \<Rightarrow>
          (let previous = rg_transport g;
               reusing = (previous \<noteq> None \<and> rg_transportCellUrl g = Some cellUrl);
               i = (if reusing then the previous else length (rg_transports g));
               g1 = (if reusing then g else g\<lparr>rg_transports := rg_transports g @ [transport_new 0]\<rparr>);
               (g2, e2) = (if reusing then (g1, []) else transport_call i (\<lambda>t. (t\<lparr>dt_messageHandler := True, dt_closeHandler := True\<rparr>, [])) g1);
               (g3, e3) = transport_call i (\<lambda>t. (transport_start t, [])) g2
           in (set_phase (ga_id a) (Awaiting_Ack i reusing previous cellUrl epoch) g3,
               (if reusing then [] else [GE_Attach i]) @ e2 @ e3 @
               [GE_Connect (ga_id a) cellUrl epoch (rg_previousGeneration g) (rg_controlResumeSecret g)]))
      | _ \<Rightarrow> settle a True g)"

text \<open>The end of a failed attempt: its control is closed, and its transport unless it is shared.\<close>

definition attempt_fails :: "attempt \<Rightarrow> nat \<Rightarrow> bool \<Rightarrow> relay_gateway \<Rightarrow> relay_gateway \<times> gateway_effect list" where
  "attempt_fails a i reusing g =
     (let g1 = g\<lparr>rg_open := removeAll (ga_id a) (rg_open g)\<rparr> in
      if reusing
      then (let (g2, effs) = settle a True g1 in (g2, [GE_Close_Control (ga_id a), GE_Status Offline] @ effs))
      else (let (g2, effs) = transport_call i transport_stop g1
            in (set_phase (ga_id a) (Cleaning True) g2, [GE_Close_Control (ga_id a), GE_Detach i] @ effs)))"

definition attempt_registered :: "attempt \<Rightarrow> relay_gateway \<Rightarrow> relay_gateway \<times> gateway_effect list" where
  "attempt_registered a g = (let (g1, effs) = settle a False (g\<lparr>rg_reconnectAttempt := 0\<rparr>) in (g1, GE_Status Registered # effs))"

definition activate :: "nat \<Rightarrow> nat \<Rightarrow> string \<Rightarrow> rat \<Rightarrow> rat \<times> string \<Rightarrow> relay_gateway \<Rightarrow> relay_gateway" where
  "activate n i cellUrl epoch ack g =
     g\<lparr>rg_previousGeneration := Some (fst ack), rg_controlResumeSecret := Some (snd ack), rg_control := Some n, rg_transport := Some i,
       rg_transportCellUrl := Some cellUrl, rg_endpoint := Some (cellUrl, epoch)\<rparr>"

definition ack_received ::
  "attempt \<Rightarrow> nat \<Rightarrow> bool \<Rightarrow> nat option \<Rightarrow> string \<Rightarrow> rat \<Rightarrow> rat \<times> string \<Rightarrow> relay_gateway \<Rightarrow> relay_gateway \<times> gateway_effect list" where
  "ack_received a i reusing previous cellUrl epoch ack g =
     (let g0 = g\<lparr>rg_open := rg_open g @ [ga_id a]\<rparr> in
      if rg_stopped g0 \<or> ga_id a \<noteq> rg_connectionAttempt g0
      then (let g1 = g0\<lparr>rg_open := removeAll (ga_id a) (rg_open g0)\<rparr> in
            if reusing then (let (g2, effs) = settle a False g1 in (g2, GE_Close_Control (ga_id a) # effs))
            else (let (g2, effs) = transport_call i transport_stop g1
                  in (set_phase (ga_id a) (Cleaning False) g2, [GE_Close_Control (ga_id a), GE_Detach i] @ effs)))
      else (let (g1, effs) = transport_call i (transport_setGeneration (fst ack)) g0 in
            if GE_Transport i Dt_Threw \<in> set effs then attempt_fails a i reusing g1
            else (let g2 = activate (ga_id a) i cellUrl epoch ack g1
                  in case previous of
                       Some p \<Rightarrow>
                         (if p \<noteq> i
                          then (let (g3, effs') = transport_call p transport_stop g2 in (set_phase (ga_id a) Retiring g3, effs @ [GE_Detach p] @ effs'))
                          else (let (g3, effs') = attempt_registered a g2 in (g3, effs @ effs')))
                     | None \<Rightarrow> (let (g3, effs') = attempt_registered a g2 in (g3, effs @ effs')))))"

text \<open>The stop of a transport that an attempt was waiting for has resolved.\<close>

definition attempt_continues :: "attempt \<Rightarrow> relay_gateway \<Rightarrow> relay_gateway \<times> gateway_effect list" where
  "attempt_continues a g =
     (case ga_phase a of
        Cleaning True \<Rightarrow> (let (g1, effs) = settle a True g in (g1, GE_Status Offline # effs))
      | Cleaning False \<Rightarrow> settle a False g
      | Retiring \<Rightarrow> attempt_registered a g
      | _ \<Rightarrow> (g, []))"

definition gateway_stop :: "relay_gateway \<Rightarrow> relay_gateway \<times> gateway_effect list" where
  "gateway_stop g =
     (let g1 = g\<lparr>rg_stopped := True, rg_connectionAttempt := Suc (rg_connectionAttempt g), rg_reconnectTimer := False, rg_control := None,
                 rg_transport := None, rg_transportCellUrl := None, rg_endpoint := None, rg_previousGeneration := None,
                 rg_controlResumeSecret := None,
                 rg_open := (case rg_control g of Some c \<Rightarrow> removeAll c (rg_open g) | None \<Rightarrow> rg_open g)\<rparr>;
          closed = (case rg_control g of Some c \<Rightarrow> [GE_Close_Control c] | None \<Rightarrow> [])
      in case rg_transport g of
           Some i \<Rightarrow> (let (g2, effs) = transport_call i transport_stop g1 in (g2\<lparr>rg_stops := Suc (rg_stops g2)\<rparr>, closed @ [GE_Detach i] @ effs))
         | None \<Rightarrow> (g1, closed @ [GE_Status Disabled]))"

definition stop_continues :: "relay_gateway \<Rightarrow> relay_gateway \<times> gateway_effect list" where
  "stop_continues g = (if rg_stops g = 0 then (g, []) else (g\<lparr>rg_stops := rg_stops g - 1\<rparr>, [GE_Status Disabled]))"

text \<open>The callbacks of the control client of an attempt.\<close>

definition control_drains :: "nat \<Rightarrow> relay_gateway \<Rightarrow> relay_gateway \<times> gateway_effect list" where
  "control_drains n g =
     (if rg_control g \<noteq> Some n \<or> rg_stopped g then (g, [])
      else (g\<lparr>rg_open := removeAll n (rg_open g)\<rparr>, [GE_Status Offline, GE_Close_Control n]))"

definition control_closes :: "nat \<Rightarrow> relay_gateway \<Rightarrow> relay_gateway \<times> gateway_effect list" where
  "control_closes n g =
     (let g1 = g\<lparr>rg_open := removeAll n (rg_open g)\<rparr> in
      if rg_control g1 \<noteq> Some n \<or> rg_stopped g1 then (g1, []) else scheduleReconnect (g1\<lparr>rg_control := None\<rparr>))"

text \<open>An event of a transport; a data connection that cannot be opened is reported.\<close>

definition open_failures :: "gateway_effect list \<Rightarrow> gateway_effect list" where
  "open_failures effs =
     concat (map (\<lambda>e. case e of GE_Transport i x \<Rightarrow> (case x of Dt_Open_Failed ws \<Rightarrow> [GE_Status Offline] | Dt_Open_Refused \<Rightarrow> [GE_Status Offline] | _ \<Rightarrow> [])
       | _ \<Rightarrow> []) effs)"

definition transport_does :: "transport_options \<Rightarrow> nat \<Rightarrow> transport_event \<Rightarrow> relay_gateway \<Rightarrow> relay_gateway \<times> gateway_effect list" where
  "transport_does opts i e g = (let (g1, effs) = transport_call i (\<lambda>t. transport_next opts t e) g in (g1, effs @ open_failures effs))"

definition provision_authorization :: "auth_socket \<Rightarrow> (string \<times> string) option" where
  "provision_authorization socket =
     (case as_transport socket of
        Direct_Transport \<Rightarrow> Some (''authenticated-direct'', as_connectionId socket)
      | Relay_Transport _ _ basis kind \<Rightarrow> (if kind = Invite_Credential then Some (''relay-basis'', basis) else None))"

section \<open>Runs\<close>

datatype gateway_event =
    GW_Start
  | GW_Stop
  | GW_Assigned nat "(string \<times> rat) option" "(json \<times> json \<times> json) option"
  | GW_Acked nat "(rat \<times> string) option"
  | GW_Continue nat
  | GW_Stop_Continue
  | GW_Timer
  | GW_Control_Drain nat
  | GW_Control_Close nat
  | GW_Transport transport_options nat transport_event

definition on_attempt ::
  "nat \<Rightarrow> (attempt \<Rightarrow> relay_gateway \<Rightarrow> relay_gateway \<times> gateway_effect list) \<Rightarrow> relay_gateway \<Rightarrow> relay_gateway \<times> gateway_effect list" where
  "on_attempt n f g = (case find (\<lambda>a. ga_id a = n) (rg_attempts g) of Some a \<Rightarrow> f a g | None \<Rightarrow> (g, []))"

definition acked :: "(rat \<times> string) option \<Rightarrow> attempt \<Rightarrow> relay_gateway \<Rightarrow> relay_gateway \<times> gateway_effect list" where
  "acked result a g =
     (case ga_phase a of
        Awaiting_Ack i reusing previous cellUrl epoch \<Rightarrow>
          (case result of
             Some ack \<Rightarrow> ack_received a i reusing previous cellUrl epoch ack g
           | None \<Rightarrow> attempt_fails a i reusing g)
      | _ \<Rightarrow> (g, []))"

fun gateway_next :: "relay_gateway \<Rightarrow> gateway_event \<Rightarrow> relay_gateway \<times> gateway_effect list" where
  "gateway_next g GW_Start = gateway_start g"
| "gateway_next g GW_Stop = gateway_stop g"
| "gateway_next g (GW_Assigned n assignment identity) =
     on_attempt n (\<lambda>a. if ga_phase a = Awaiting_Assignment then assignment_received a assignment identity else (\<lambda>g. (g, []))) g"
| "gateway_next g (GW_Acked n result) = on_attempt n (acked result) g"
| "gateway_next g (GW_Continue n) = on_attempt n attempt_continues g"
| "gateway_next g GW_Stop_Continue = stop_continues g"
| "gateway_next g GW_Timer = timer_fires g"
| "gateway_next g (GW_Control_Drain n) = control_drains n g"
| "gateway_next g (GW_Control_Close n) = control_closes n g"
| "gateway_next g (GW_Transport opts i e) = transport_does opts i e g"

definition gateway_step :: "relay_gateway \<times> gateway_effect list \<Rightarrow> gateway_event \<Rightarrow> relay_gateway \<times> gateway_effect list" where
  "gateway_step w e = (let (g, effs) = gateway_next (fst w) e in (g, snd w @ effs))"

definition gateway_run :: "gateway_event list \<Rightarrow> relay_gateway \<times> gateway_effect list" where
  "gateway_run es = foldl gateway_step (gateway_new, []) es"

section \<open>Invariant\<close>

definition gateway_ok :: "relay_gateway \<Rightarrow> bool" where
  "gateway_ok g \<longleftrightarrow>
     distinct (map ga_id (rg_attempts g)) \<and> (\<forall>a \<in> set (rg_attempts g). ga_id a \<le> rg_connectionAttempt g) \<and>
     set (rg_open g) \<subseteq> set_option (rg_control g) \<and> distinct (rg_open g) \<and>
     (\<forall>c. rg_control g = Some c \<longrightarrow> c \<le> rg_connectionAttempt g) \<and>
     (\<forall>a \<in> set (rg_attempts g). rg_control g = Some (ga_id a) \<longrightarrow> ga_phase a = Retiring) \<and>
     (rg_control g \<noteq> None \<longrightarrow> (\<forall>a \<in> set (rg_attempts g). ga_id a = rg_connectionAttempt g \<longrightarrow> ga_phase a = Retiring)) \<and>
     (rg_stopped g \<longrightarrow> rg_control g = None)"

lemma gateway_ok_dest:
  assumes "gateway_ok g"
  shows "rg_stopped g \<Longrightarrow> rg_control g = None" "rg_control g = None \<Longrightarrow> rg_open g = []"
    "a \<in> set (rg_attempts g) \<Longrightarrow> ga_id a = rg_connectionAttempt g \<Longrightarrow> ga_phase a \<noteq> Retiring \<Longrightarrow> rg_control g = None"
    "a \<in> set (rg_attempts g) \<Longrightarrow> ga_id a \<le> rg_connectionAttempt g"
  using assms by (auto simp: gateway_ok_def)

lemma transport_call_eq:
  obtains ts effs where "transport_call i f g = (g\<lparr>rg_transports := ts\<rparr>, effs)" "\<And>e. e \<in> set effs \<Longrightarrow> \<exists>x. e = GE_Transport i x"
proof -
  have "\<exists>ts effs. transport_call i f g = (g\<lparr>rg_transports := ts\<rparr>, effs) \<and> (\<forall>e \<in> set effs. \<exists>x. e = GE_Transport i x)"
  proof (cases "i < length (rg_transports g)")
    case True
    then show ?thesis by (cases "f (rg_transports g ! i)") (auto simp: transport_call_def)
  next
    case False
    have "g = g\<lparr>rg_transports := rg_transports g\<rparr>" by simp
    with False show ?thesis unfolding transport_call_def by (metis empty_iff list.set(1))
  qed
  then show ?thesis using that by blast
qed

lemma gateway_ok_transports [simp]: "gateway_ok (g\<lparr>rg_transports := ts\<rparr>) = gateway_ok g"
  by (simp add: gateway_ok_def)

lemma gateway_ok_timers [simp]:
  "gateway_ok (g\<lparr>rg_reconnectTimer := b\<rparr>) = gateway_ok g" "gateway_ok (g\<lparr>rg_reconnectAttempt := n\<rparr>) = gateway_ok g"
  "gateway_ok (g\<lparr>rg_connectPromise := p\<rparr>) = gateway_ok g" "gateway_ok (g\<lparr>rg_stops := k\<rparr>) = gateway_ok g"
  by (simp_all add: gateway_ok_def)

lemma scheduleReconnect_ok: "gateway_ok g \<Longrightarrow> gateway_ok (fst (scheduleReconnect g))"
  by (simp add: scheduleReconnect_def)

lemma scheduleReconnect_quiet: "GE_Started b \<notin> set (snd (scheduleReconnect g))"
  by (simp add: scheduleReconnect_def)

lemma attempts_filter_ok: "gateway_ok g \<Longrightarrow> gateway_ok (g\<lparr>rg_attempts := filter P (rg_attempts g)\<rparr>)"
  by (auto simp: gateway_ok_def distinct_map_filter)

lemma settle_ok:
  assumes "gateway_ok g" "GE_Started False \<in> set (snd (settle a failed g)) \<longrightarrow> rg_control g = None"
  shows "gateway_ok (fst (settle a failed g))"
proof -
  let ?g = "g\<lparr>rg_attempts := filter (\<lambda>b. ga_id b \<noteq> ga_id a) (rg_attempts g)\<rparr>"
  have ok: "gateway_ok ?g" by (rule attempts_filter_ok [OF assms(1)])
  show ?thesis
  proof (cases "ga_caller a")
    case Start_Call
    then have "failed \<longrightarrow> rg_control g = None" using assms(2) by (simp add: settle_def Let_def)
    then have "gateway_ok (?g\<lparr>rg_stopped := (failed \<or> rg_stopped g)\<rparr>)" using ok by (auto simp: gateway_ok_def)
    then show ?thesis using Start_Call by (simp add: settle_def Let_def)
  next
    case Reconnect_Call
    have "gateway_ok (fst (scheduleReconnect (?g\<lparr>rg_connectPromise := q\<rparr>)))" for q using ok by (intro scheduleReconnect_ok) simp
    with scheduleReconnect_ok [OF ok] ok Reconnect_Call show ?thesis by (simp add: settle_def Let_def split_beta)
  qed
qed

lemma set_phase_ok:
  assumes "gateway_ok g" "rg_control g \<noteq> None \<and> n = rg_connectionAttempt g \<or> rg_control g = Some n \<longrightarrow> p = Retiring"
  shows "gateway_ok (set_phase n p g)"
proof -
  have "ga_id \<circ> (\<lambda>a :: attempt. if ga_id a = n then a\<lparr>ga_phase := p\<rparr> else a) = ga_id" by (intro ext) simp
  with assms show ?thesis by (auto simp: gateway_ok_def set_phase_def)
qed

lemma establish_ok:
  assumes "gateway_ok g" "rg_control g = None"
  shows "gateway_ok (fst (establishControl caller (g\<lparr>rg_stopped := False\<rparr>)))" "gateway_ok (fst (establishControl caller g))"
  using assms by (auto simp: establishControl_def gateway_ok_def Let_def le_Suc_eq)

lemma fails_ok:
  assumes "gateway_ok g" "rg_control g \<noteq> Some (ga_id a)" "a \<in> set (rg_attempts g)" "ga_id a = rg_connectionAttempt g \<longrightarrow> rg_control g = None"
    and "GE_Started False \<in> set (snd (attempt_fails a i reusing g)) \<longrightarrow> rg_control g = None"
  shows "gateway_ok (fst (attempt_fails a i reusing g))"
proof -
  let ?g1 = "g\<lparr>rg_open := removeAll (ga_id a) (rg_open g)\<rparr>"
  have ok: "gateway_ok ?g1" using assms(1) by (auto simp: gateway_ok_def distinct_removeAll)
  obtain ts effs where t: "transport_call i transport_stop ?g1 = (?g1\<lparr>rg_transports := ts\<rparr>, effs)" using transport_call_eq [of i transport_stop ?g1] by metis
  have "gateway_ok (set_phase (ga_id a) (Cleaning True) (?g1\<lparr>rg_transports := ts\<rparr>))"
    using ok assms(2,4) by (intro set_phase_ok) auto
  moreover have "gateway_ok (fst (settle a True ?g1))" if reusing
    using ok assms(5) that by (intro settle_ok) (auto simp: attempt_fails_def Let_def split_beta)
  ultimately show ?thesis using t by (simp add: attempt_fails_def Let_def split_beta)
qed

lemma registered_ok:
  assumes "gateway_ok g"
  shows "gateway_ok (fst (attempt_registered a g))"
proof -
  have "GE_Started False \<notin> set (snd (settle a False (g\<lparr>rg_reconnectAttempt := 0\<rparr>)))"
    by (auto simp: settle_def Let_def split_beta scheduleReconnect_quiet split: caller.split)
  with assms have "gateway_ok (fst (settle a False (g\<lparr>rg_reconnectAttempt := 0\<rparr>)))" by (intro settle_ok) simp_all
  then show ?thesis by (simp add: attempt_registered_def Let_def split_beta)
qed

text \<open>A successful settlement depends on the other attempts only.\<close>

lemma settle_filtered:
  "settle a failed (g\<lparr>rg_attempts := filter (\<lambda>b. ga_id b \<noteq> ga_id a) (rg_attempts g)\<rparr>) = settle a failed g"
  by (simp add: settle_def)

lemma registered_filtered:
  "attempt_registered a g = attempt_registered a (g\<lparr>rg_attempts := filter (\<lambda>b. ga_id b \<noteq> ga_id a) (rg_attempts g)\<rparr>)"
  by (simp add: attempt_registered_def settle_def)

lemma activated_ok:
  assumes "gateway_ok g" "rg_control g = None" "ga_id a = rg_connectionAttempt g" "\<not> rg_stopped g"
  shows "gateway_ok (set_phase (ga_id a) Retiring ((activate (ga_id a) i cellUrl epoch ack (g\<lparr>rg_open := rg_open g @ [ga_id a], rg_transports := ts\<rparr>))\<lparr>rg_transports := ts'\<rparr>))"
    "gateway_ok (fst (attempt_registered a (activate (ga_id a) i cellUrl epoch ack (g\<lparr>rg_open := rg_open g @ [ga_id a], rg_transports := ts\<rparr>))))"
proof -
  let ?h = "activate (ga_id a) i cellUrl epoch ack (g\<lparr>rg_open := rg_open g @ [ga_id a], rg_transports := ts\<rparr>)"
  have open0: "rg_open g = []" using gateway_ok_dest(2) [OF assms(1,2)] .
  let ?k = "set_phase (ga_id a) Retiring (?h\<lparr>rg_transports := ts'\<rparr>)"
  have "ga_id \<circ> (\<lambda>b :: attempt. if ga_id b = ga_id a then b\<lparr>ga_phase := Retiring\<rparr> else b) = ga_id" by (intro ext) simp
  then have ids: "map ga_id (rg_attempts ?k) = map ga_id (rg_attempts g)" by (simp add: set_phase_def activate_def)
  have phases: "\<forall>b \<in> set (rg_attempts ?k). ga_id b \<le> ga_id a \<and> (ga_id b = ga_id a \<longrightarrow> ga_phase b = Retiring)"
    using assms(1,3) by (auto simp: set_phase_def activate_def gateway_ok_def)
  have k: "rg_control ?k = Some (ga_id a)" "rg_open ?k = [ga_id a]" "rg_connectionAttempt ?k = ga_id a" "rg_stopped ?k = False"
    using open0 assms(3,4) by (simp_all add: set_phase_def activate_def)
  have "distinct (map ga_id (rg_attempts g))" using assms(1) by (simp add: gateway_ok_def)
  then show "gateway_ok ?k" unfolding gateway_ok_def ids k using phases by auto
  have "gateway_ok (?h\<lparr>rg_attempts := filter (\<lambda>b. ga_id b \<noteq> ga_id a) (rg_attempts ?h)\<rparr>)"
    using assms open0 by (auto simp: gateway_ok_def activate_def distinct_map_filter)
  then show "gateway_ok (fst (attempt_registered a ?h))" unfolding registered_filtered [of a ?h] by (rule registered_ok)
qed

lemma stale_ack_ok:
  assumes "gateway_ok g" "ga_id a \<notin> set (rg_open g)" "ga_id a = rg_connectionAttempt g \<longrightarrow> rg_control g = None" "rg_control g \<noteq> Some (ga_id a)"
  defines "h \<equiv> g\<lparr>rg_open := removeAll (ga_id a) (rg_open g @ [ga_id a])\<rparr>"
  shows "gateway_ok h" "gateway_ok (fst (settle a False h))" "gateway_ok (set_phase (ga_id a) (Cleaning False) (h\<lparr>rg_transports := ts\<rparr>))"
proof -
  show ok: "gateway_ok h" using assms(1,2) by (simp add: h_def gateway_ok_def removeAll_id)
  have "GE_Started False \<notin> set (snd (settle a False h))"
    by (auto simp: settle_def Let_def split_beta scheduleReconnect_quiet split: caller.split)
  with ok show "gateway_ok (fst (settle a False h))" by (intro settle_ok) simp_all
  show "gateway_ok (set_phase (ga_id a) (Cleaning False) (h\<lparr>rg_transports := ts\<rparr>))"
    using ok assms(3,4) by (intro set_phase_ok) (auto simp: h_def)
qed

lemma ack_ok:
  assumes ok: "gateway_ok g" and a: "a \<in> set (rg_attempts g)" "ga_phase a = Awaiting_Ack i reusing previous cellUrl epoch"
    and orderly: "GE_Started False \<in> set (snd (ack_received a i reusing previous cellUrl epoch ack g)) \<longrightarrow> rg_control g = None"
  shows "gateway_ok (fst (ack_received a i reusing previous cellUrl epoch ack g))"
proof -
  let ?g0 = "g\<lparr>rg_open := rg_open g @ [ga_id a]\<rparr>"
  have newest: "ga_id a = rg_connectionAttempt g \<longrightarrow> rg_control g = None" using gateway_ok_dest(3) [OF ok a(1)] a(2) by auto
  have other: "rg_control g \<noteq> Some (ga_id a)" using ok a by (auto simp: gateway_ok_def)
  then have fresh: "ga_id a \<notin> set (rg_open g)" using ok by (auto simp: gateway_ok_def)
  show ?thesis
  proof (cases "rg_stopped g \<or> ga_id a \<noteq> rg_connectionAttempt g")
    case True
    let ?g1 = "?g0\<lparr>rg_open := removeAll (ga_id a) (rg_open ?g0)\<rparr>"
    obtain ts effs where t: "transport_call i transport_stop ?g1 = (?g1\<lparr>rg_transports := ts\<rparr>, effs)"
      using transport_call_eq [of i transport_stop ?g1] by metis
    with True stale_ack_ok [OF ok fresh newest other] show ?thesis by (simp add: ack_received_def Let_def split_beta)
  next
    case False
    then have c: "rg_control g = None" "\<not> rg_stopped g" "ga_id a = rg_connectionAttempt g" using newest by auto
    obtain ts effs where t: "transport_call i (transport_setGeneration (fst ack)) ?g0 = (?g0\<lparr>rg_transports := ts\<rparr>, effs)"
      using transport_call_eq [of i "transport_setGeneration (fst ack)" ?g0] by metis
    show ?thesis
    proof (cases "GE_Transport i Dt_Threw \<in> set effs")
      case True
      have r: "ack_received a i reusing previous cellUrl epoch ack g = attempt_fails a i reusing (?g0\<lparr>rg_transports := ts\<rparr>)"
        using t True c by (simp add: ack_received_def Let_def)
      have "attempt_fails a i reusing (?g0\<lparr>rg_transports := ts\<rparr>) = attempt_fails a i reusing (g\<lparr>rg_transports := ts\<rparr>)"
        using fresh by (simp add: attempt_fails_def removeAll_id)
      then show ?thesis unfolding r using ok other a(1) c by (simp add: fails_ok)
    next
      case False
      let ?h = "activate (ga_id a) i cellUrl epoch ack (?g0\<lparr>rg_transports := ts\<rparr>)"
      have "gateway_ok (set_phase (ga_id a) Retiring (fst (transport_call q transport_stop ?h)))" for q
        using transport_call_eq [of q transport_stop ?h] activated_ok(1) [OF ok c(1,3,2)] by (metis fst_conv)
      then show ?thesis using t False c(2,3) activated_ok(2) [OF ok c(1,3,2), of i cellUrl epoch ack ts]
        by (auto simp: ack_received_def Let_def split_beta split: option.split)
    qed
  qed
qed

lemma assigned_ok:
  assumes "gateway_ok g" "a \<in> set (rg_attempts g)" "ga_phase a = Awaiting_Assignment"
    and "GE_Started False \<in> set (snd (assignment_received a assignment identity g)) \<longrightarrow> rg_control g = None"
  shows "gateway_ok (fst (assignment_received a assignment identity g))"
proof (cases "assignment \<noteq> None \<and> identity \<noteq> None")
  case True
  then obtain cellUrl epoch who where s: "assignment = Some (cellUrl, epoch)" "identity = Some who" by auto
  have "\<exists>ts effs i reusing previous. assignment_received a assignment identity g =
      (set_phase (ga_id a) (Awaiting_Ack i reusing previous cellUrl epoch) (g\<lparr>rg_transports := ts\<rparr>), effs)"
  proof -
    have calls: "\<exists>ts effs. transport_call i f (g\<lparr>rg_transports := ts0\<rparr>) = (g\<lparr>rg_transports := ts\<rparr>, effs)" for i f ts0
      by (rule transport_call_eq [of i f "g\<lparr>rg_transports := ts0\<rparr>"]) auto
    let ?handlers = "\<lambda>t :: data_transport. (t\<lparr>dt_messageHandler := True, dt_closeHandler := True\<rparr>, [] :: transport_effect list)"
    let ?start = "\<lambda>t. (transport_start t, [] :: transport_effect list)"
    show ?thesis
    proof (cases "rg_transport g \<noteq> None \<and> rg_transportCellUrl g = Some cellUrl")
      case True
      obtain ts effs where "transport_call (the (rg_transport g)) ?start g = (g\<lparr>rg_transports := ts\<rparr>, effs)"
        using transport_call_eq [of "the (rg_transport g)" ?start g] by metis
      then show ?thesis using True s by (simp add: assignment_received_def Let_def) blast
    next
      case False
      let ?i = "length (rg_transports g)"
      obtain ts1 e1 where 1: "transport_call ?i ?handlers (g\<lparr>rg_transports := rg_transports g @ [transport_new 0]\<rparr>) = (g\<lparr>rg_transports := ts1\<rparr>, e1)"
        using calls by blast
      obtain ts2 e2 where 2: "transport_call ?i ?start (g\<lparr>rg_transports := ts1\<rparr>) = (g\<lparr>rg_transports := ts2\<rparr>, e2)"
        using calls by blast
      have "assignment_received a assignment identity g = (set_phase (ga_id a) (Awaiting_Ack ?i False (rg_transport g) cellUrl epoch) (g\<lparr>rg_transports := ts2\<rparr>),
          [GE_Attach ?i] @ e1 @ e2 @ [GE_Connect (ga_id a) cellUrl epoch (rg_previousGeneration g) (rg_controlResumeSecret g)])"
        using False s 1 2 by (auto simp: assignment_received_def Let_def)
      then show ?thesis by blast
    qed
  qed
  moreover have "gateway_ok (set_phase (ga_id a) (Awaiting_Ack i reusing previous cellUrl epoch) (g\<lparr>rg_transports := ts\<rparr>))" for ts i reusing previous
    using assms(1-3) gateway_ok_dest(3) [OF assms(1,2)] by (intro set_phase_ok) (auto simp: gateway_ok_def)
  ultimately show ?thesis by force
next
  case False
  then have "assignment_received a assignment identity g = settle a True g" by (auto simp: assignment_received_def split: option.split)
  with assms(1,4) show ?thesis by (simp add: settle_ok)
qed

lemma continues_ok:
  assumes "gateway_ok g" "GE_Started False \<in> set (snd (attempt_continues a g)) \<longrightarrow> rg_control g = None"
  shows "gateway_ok (fst (attempt_continues a g))"
proof -
  have "GE_Started False \<notin> set (snd (settle a False g))"
    by (auto simp: settle_def Let_def split_beta scheduleReconnect_quiet split: caller.split)
  then have "gateway_ok (fst (settle a False g))" using assms(1) by (intro settle_ok) simp_all
  moreover have "gateway_ok (fst (settle a True g))" if "ga_phase a = Cleaning True"
    using assms that by (intro settle_ok) (simp_all add: attempt_continues_def split_beta Let_def)
  ultimately show ?thesis using assms(1) registered_ok [OF assms(1)]
    by (auto simp: attempt_continues_def split_beta Let_def split: phase.split bool.split)
qed

lemma find_attempt: "find (\<lambda>a. ga_id a = n) as = Some a \<Longrightarrow> a \<in> set as \<and> ga_id a = n"
  by (induction as) (auto split: if_splits)

lemma removeAll_all: "set xs \<subseteq> {x} \<Longrightarrow> removeAll x xs = []"
  by (induction xs) auto

lemma gateway_next_ok:
  assumes "gateway_ok g" "gateway_next g e = (g', effs)" "GE_Started False \<in> set effs \<longrightarrow> rg_control g = None"
  shows "gateway_ok g'"
proof (cases e)
  case GW_Start
  show ?thesis
  proof (cases "\<not> rg_stopped g \<and> (rg_control g \<noteq> None \<or> rg_connectPromise g \<noteq> None)")
    case True
    with assms GW_Start show ?thesis by (auto simp: gateway_start_def)
  next
    case False
    then have "rg_control g = None" using gateway_ok_dest(1) [OF assms(1)] by blast
    from establish_ok(1) [OF assms(1) this, of Start_Call] show ?thesis
      using assms(2) GW_Start False by (auto simp: gateway_start_def)
  qed
next
  case GW_Stop
  let ?g1 = "g\<lparr>rg_stopped := True, rg_connectionAttempt := Suc (rg_connectionAttempt g), rg_reconnectTimer := False, rg_control := None,
     rg_transport := None, rg_transportCellUrl := None, rg_endpoint := None, rg_previousGeneration := None, rg_controlResumeSecret := None,
     rg_open := (case rg_control g of Some c \<Rightarrow> removeAll c (rg_open g) | None \<Rightarrow> rg_open g)\<rparr>"
  have "(case rg_control g of Some c \<Rightarrow> removeAll c (rg_open g) | None \<Rightarrow> rg_open g) = []"
    using assms(1) by (auto simp: gateway_ok_def removeAll_all split: option.split)
  then have ok: "gateway_ok ?g1" using assms(1) by (auto simp: gateway_ok_def le_Suc_eq)
  have "gateway_ok (fst (transport_call i transport_stop ?g1))" for i
    using ok transport_call_eq [of i transport_stop ?g1] by (metis fst_conv gateway_ok_transports)
  with ok assms(2) GW_Stop show ?thesis by (auto simp: gateway_stop_def Let_def split_beta split: option.splits)
next
  case (GW_Assigned n x y)
  then show ?thesis using assms assigned_ok [of g _ x y]
    by (auto simp: on_attempt_def split: option.splits if_splits dest!: find_attempt) (metis fst_conv snd_conv)+
next
  case (GW_Acked n x)
  then obtain a where a: "a \<in> set (rg_attempts g) \<and> acked x a g = (g', effs) \<or> (g', effs) = (g, [])"
    using assms(2) by (auto simp: on_attempt_def split: option.splits dest!: find_attempt)
  have "gateway_ok (fst (acked x a g))" if "a \<in> set (rg_attempts g)" "GE_Started False \<in> set (snd (acked x a g)) \<longrightarrow> rg_control g = None"
  proof (cases "ga_phase a")
    case (Awaiting_Ack i reusing previous cellUrl epoch)
    then have "rg_control g \<noteq> Some (ga_id a)" "ga_id a = rg_connectionAttempt g \<longrightarrow> rg_control g = None"
      using assms(1) that(1) gateway_ok_dest(3) [OF assms(1) that(1)] by (auto simp: gateway_ok_def)
    then show ?thesis using Awaiting_Ack that assms(1)
      by (auto simp: acked_def ack_ok fails_ok split: option.splits)
  qed (use assms(1) in \<open>simp_all add: acked_def\<close>)
  with a assms show ?thesis by auto
next
  case (GW_Continue n)
  then show ?thesis using assms continues_ok [of g]
    by (auto simp: on_attempt_def split: option.splits) (metis fst_conv snd_conv)+
next
  case GW_Timer
  have "gateway_ok (fst (establishControl Reconnect_Call (g\<lparr>rg_reconnectTimer := False\<rparr>)))" if "rg_control g = None"
    using assms(1) that by (intro establish_ok(2)) simp_all
  with assms GW_Timer show ?thesis by (auto simp: timer_fires_def Let_def split: if_splits)
next
  case (GW_Control_Drain n)
  with assms show ?thesis by (auto simp: control_drains_def gateway_ok_def distinct_removeAll split: if_splits)
next
  case (GW_Control_Close n)
  have "gateway_ok (g\<lparr>rg_open := removeAll n (rg_open g)\<rparr>)" using assms(1) by (auto simp: gateway_ok_def distinct_removeAll)
  moreover have "gateway_ok (g\<lparr>rg_open := removeAll n (rg_open g), rg_control := None\<rparr>)" if "rg_control g = Some n"
    using assms(1) that by (auto simp: gateway_ok_def distinct_removeAll)
  ultimately show ?thesis using assms(2) GW_Control_Close scheduleReconnect_ok
    by (auto simp: control_closes_def Let_def split: if_splits) (metis fst_conv)
next
  case (GW_Transport opts i te)
  obtain ts xs where "transport_call i (\<lambda>t. transport_next opts t te) g = (g\<lparr>rg_transports := ts\<rparr>, xs)"
    using transport_call_eq [of i "\<lambda>t. transport_next opts t te" g] by metis
  with assms(1,2) GW_Transport show ?thesis by (auto simp: transport_does_def)
qed (use assms in \<open>auto simp: stop_continues_def split: if_splits\<close>)

text \<open>
  A run is orderly when no \<open>start\<close> fails while a control of a later one is active. The steps of an orderly run are the ones
  of this machine, which stands still where the code would not be orderly.
\<close>

definition orderly_step :: "relay_gateway \<Rightarrow> gateway_event \<Rightarrow> relay_gateway" where
  "orderly_step g e = (let (g', effs) = gateway_next g e in if GE_Started False \<in> set effs \<and> rg_control g \<noteq> None then g else g')"

fun orderly :: "relay_gateway \<Rightarrow> gateway_event list \<Rightarrow> bool" where
  "orderly g [] = True"
| "orderly g (e # es) =
     ((GE_Started False \<in> set (snd (gateway_next g e)) \<longrightarrow> rg_control g = None) \<and> orderly (fst (gateway_next g e)) es)"

interpretation gateway: event_machine orderly_step gateway_ok
  by unfold_locales (use gateway_next_ok in \<open>auto simp: orderly_step_def split: prod.split\<close>)

lemma orderly_run: "orderly g es \<Longrightarrow> fst (foldl gateway_step (g, tr) es) = foldl orderly_step g es"
proof (induction es arbitrary: g tr)
  case (Cons e es)
  obtain g' effs where n: "gateway_next g e = (g', effs)" by fastforce
  then show ?case using Cons.IH [of g' "tr @ effs"] Cons.prems by (auto simp: gateway_step_def orderly_step_def)
qed simp

lemma gateway_new_ok: "gateway_ok gateway_new"
  by (simp add: gateway_ok_def gateway_new_def)

section \<open>Properties\<close>

text \<open>
  Property C27. The gateway holds one control connection. Over any orderly run (starts, stops, answers of the director and of
  cells in any order, lost and drained connections, reconnect timers) at most one control is connected, it
  is the one the gateway uses, and a stopped gateway has none: controls of superseded or stopped attempts have been closed.
\<close>

theorem gateway_has_one_control:
  assumes "orderly gateway_new es" "g = fst (gateway_run es)"
  shows "set (rg_open g) \<subseteq> set_option (rg_control g) \<and> length (rg_open g) \<le> 1 \<and> (rg_stopped g \<longrightarrow> rg_control g = None \<and> rg_open g = [])"
proof -
  have ok: "gateway_ok g"
    using gateway.run_inv [OF gateway_new_ok] orderly_run [OF assms(1)] assms(2) by (simp add: gateway_run_def)
  then have sub: "set (rg_open g) \<subseteq> set_option (rg_control g)" "distinct (rg_open g)" by (simp_all add: gateway_ok_def)
  have "card (set (rg_open g)) \<le> card (set_option (rg_control g))" by (rule card_mono [OF _ sub(1)]) simp
  also have "\<dots> \<le> 1" by (cases "rg_control g") simp_all
  finally have "length (rg_open g) \<le> 1" using distinct_card [OF sub(2)] by simp
  with ok show ?thesis using gateway_ok_dest(1,2) [OF ok] by (auto simp: gateway_ok_def)
qed

text \<open>A session with two controls one after the other.\<close>

definition sample_who :: "json \<times> json \<times> json" where
  "sample_who = (JStr ''u'', JStr ''p'', JStr ''o'')"

definition sample_gateway_run :: "gateway_event list" where
  "sample_gateway_run =
     [GW_Start, GW_Assigned 1 (Some (''cell'', 1)) (Some sample_who), GW_Acked 1 (Some (1, ''secret'')), GW_Control_Close 1, GW_Timer,
      GW_Assigned 2 (Some (''cell'', 1)) (Some sample_who), GW_Acked 2 (Some (1, ''secret''))]"

lemmas gateway_eval = gateway_run_def gateway_step_def gateway_new_def gateway_start_def establishControl_def on_attempt_def
  assignment_received_def transport_call_def transport_start_def transport_new_def set_phase_def acked_def ack_received_def
  transport_setGeneration_def is_safe_integer_def activate_def attempt_registered_def settle_def control_closes_def scheduleReconnect_def
  timer_fires_def gateway_stop_def transport_stop_def

theorem gateway_has_one_control_witness:
  "let g = fst (gateway_run sample_gateway_run) in rg_control g = Some 2 \<and> set (rg_open g) \<subseteq> {2}"
proof -
  have "orderly gateway_new sample_gateway_run" "rg_control (fst (gateway_run sample_gateway_run)) = Some 2"
    by (simp_all add: sample_gateway_run_def gateway_eval Let_def)
  then show ?thesis using gateway_has_one_control [OF _ refl, of sample_gateway_run] by simp
qed

text \<open>
  Property C40. A superseded \<open>start\<close> that fails stops the gateway that a later \<open>start\<close> has connected. Whatever the state, when a first
  \<open>start\<close> still waits for the director while a later one holds the control, the failure of the first leaves the
  gateway marked as stopped with that control in place; when the control is lost afterwards, nothing reconnects.
\<close>

theorem stale_start_failure_stops_gateway:
  assumes "find (\<lambda>a. ga_id a = n) (rg_attempts g) = Some a" "ga_caller a = Start_Call" "ga_phase a = Awaiting_Assignment" "rg_control g = Some c"
  shows "\<exists>g'. gateway_next g (GW_Assigned n None identity) = (g', [GE_Started False]) \<and> rg_stopped g' \<and> rg_control g' = Some c \<and>
    rg_open g' = rg_open g \<and> snd (gateway_next g' (GW_Control_Close c)) = [] \<and>
    rg_reconnectTimer (fst (gateway_next g' (GW_Control_Close c))) = rg_reconnectTimer g"
  using assms by (auto simp: on_attempt_def assignment_received_def settle_def control_closes_def Let_def)

definition stale_start_run :: "gateway_event list" where
  "stale_start_run =
     [GW_Start, GW_Stop, GW_Start, GW_Assigned 3 (Some (''cell'', 1)) (Some sample_who), GW_Acked 3 (Some (1, ''secret''))]"

lemma stale_start_reached:
  "find (\<lambda>a. ga_id a = 1) (rg_attempts (fst (gateway_run stale_start_run))) = Some \<lparr>ga_id = 1, ga_caller = Start_Call, ga_phase = Awaiting_Assignment\<rparr>"
  "rg_control (fst (gateway_run stale_start_run)) = Some 3"
  by (simp_all add: stale_start_run_def gateway_eval Let_def)

theorem stale_start_failure_stops_gateway_witness:
  "\<exists>g'. gateway_next (fst (gateway_run stale_start_run)) (GW_Assigned 1 None None) = (g', [GE_Started False]) \<and> rg_stopped g' \<and> rg_control g' = Some 3"
  using stale_start_failure_stops_gateway [OF stale_start_reached(1) _ _ stale_start_reached(2), of None] by auto

definition paced :: "gateway_effect list \<Rightarrow> bool" where
  "paced effs \<longleftrightarrow> (\<forall>d. GE_Timer d \<in> set effs \<longrightarrow> 500 \<le> d \<and> d \<le> 15000)"

lemma reconnect_delay_bounds: "500 \<le> reconnect_delay n" "reconnect_delay n \<le> 15000"
proof -
  have "1 \<le> (2 :: nat) ^ min n 5" by simp
  then have "500 * 1 \<le> 500 * (2 :: nat) ^ min n 5" by (rule mult_left_mono) simp
  then show "500 \<le> reconnect_delay n" by (simp add: reconnect_delay_def RECONNECT_MAX_DELAY_MS_def RECONNECT_BASE_DELAY_MS_def)
qed (simp add: reconnect_delay_def RECONNECT_MAX_DELAY_MS_def)

lemma paced_simps [simp]:
  "paced []" "paced (xs @ ys) = (paced xs \<and> paced ys)" "paced (GE_Status st # xs) = paced xs" "paced (GE_Close_Control n # xs) = paced xs"
  "paced (GE_Attach n # xs) = paced xs" "paced (GE_Detach n # xs) = paced xs" "paced (GE_Started b # xs) = paced xs"
  "paced (GE_Connect n u e p s # xs) = paced xs" "paced (GE_Timer (reconnect_delay k) # xs) = paced xs"
  by (auto simp: paced_def reconnect_delay_bounds)

lemma paced_calls [simp]:
  "paced (snd (transport_call i f g))" "paced (snd (scheduleReconnect g))" "paced (snd (establishControl caller g))"
  by (auto simp: transport_call_def scheduleReconnect_def establishControl_def Let_def paced_def [of "map _ _"] split: prod.split)

lemma paced_settle [simp]: "paced (snd (settle a failed g))" "paced (snd (attempt_registered a g))" "paced (snd (attempt_fails a i reusing g))"
  by (simp_all add: settle_def attempt_registered_def attempt_fails_def Let_def split_beta split: caller.split)

lemma paced_failures [simp]: "paced (open_failures effs)"
  by (induction effs) (simp_all add: open_failures_def split: gateway_effect.split transport_effect.split)

lemma paced_next: "paced (snd (gateway_next g e))"
proof -
  have "paced (snd (ack_received a i reusing previous cellUrl epoch ack g))" for a i reusing previous cellUrl epoch ack
    by (simp add: ack_received_def Let_def split_beta split: option.split)
  moreover have "paced (snd (assignment_received a x y g))" for a x y
    by (simp add: assignment_received_def Let_def split_beta split: option.split)
  moreover have "paced (snd (attempt_continues a g))" for a
    by (simp add: attempt_continues_def Let_def split_beta split: phase.split bool.split)
  ultimately show ?thesis
    by (cases e) (simp_all add: gateway_start_def gateway_stop_def on_attempt_def acked_def stop_continues_def timer_fires_def
        control_drains_def control_closes_def transport_does_def Let_def split_beta split: option.split phase.split)
qed

lemma paced_run: "paced (snd w) \<Longrightarrow> paced (snd (foldl gateway_step w es))"
  by (induction es arbitrary: w) (auto simp: gateway_step_def split_beta paced_next)

text \<open>
  Reconnecting is paced. Over any run every delay that the gateway sets is between half a second and fifteen seconds,
  twice the one before it while attempts fail, and an attempt that registers starts the sequence again.
\<close>

theorem reconnect_is_paced:
  "(GE_Timer d \<in> set (snd (gateway_run es)) \<longrightarrow> 500 \<le> d \<and> d \<le> 15000) \<and>
   (n < 4 \<longrightarrow> reconnect_delay (Suc n) = 2 * reconnect_delay n) \<and> reconnect_delay 0 = 500 \<and>
   rg_reconnectAttempt (fst (attempt_registered a g)) \<in> {0, 1}"
proof (intro conjI)
  show "GE_Timer d \<in> set (snd (gateway_run es)) \<longrightarrow> 500 \<le> d \<and> d \<le> 15000"
    using paced_run [of "(gateway_new, [])" es] by (simp add: gateway_run_def paced_def)
  show "n < 4 \<longrightarrow> reconnect_delay (Suc n) = 2 * reconnect_delay n"
  proof
    assume "n < 4"
    then consider "n = 0" | "n = 1" | "n = 2" | "n = 3" by linarith
    then show "reconnect_delay (Suc n) = 2 * reconnect_delay n"
      by cases (simp_all add: reconnect_delay_def RECONNECT_MAX_DELAY_MS_def RECONNECT_BASE_DELAY_MS_def)
  qed
qed (auto simp: reconnect_delay_def RECONNECT_MAX_DELAY_MS_def RECONNECT_BASE_DELAY_MS_def attempt_registered_def settle_def scheduleReconnect_def
    Let_def split_beta split: caller.split)

theorem reconnect_is_paced_witness:
  "GE_Timer 500 \<in> set (snd (gateway_run sample_gateway_run)) \<and> (500 :: nat) \<le> 15000 \<and> reconnect_delay (Suc 3) = 2 * reconnect_delay 3"
proof -
  have "GE_Timer 500 \<in> set (snd (gateway_run sample_gateway_run))"
    by (simp add: sample_gateway_run_def gateway_eval Let_def reconnect_delay_def RECONNECT_MAX_DELAY_MS_def RECONNECT_BASE_DELAY_MS_def)
  with reconnect_is_paced [of 500 sample_gateway_run 3] show ?thesis by simp
qed

end
