(* ===== verification/Relay_Demand.thy ===== *)
theory Relay_Demand
  imports Device_Registry
begin

text \<open>
  What keeps the desktop's relay session wanted:
  \<^item> the durable queue of credential revocations, \<open>src/pie-mobile/upstream/src/main/runtime/relay/relay-revoke-outbox.ts\<close>,
    with the file it is kept in (a write may fail, and a restart reads the file back);
  \<^item> the demand ledger, \<open>src/pie-mobile/upstream/src/main/runtime/relay/relay-demand-ledger.ts\<close>: references held by
    operations in flight, pending revocations, and paired devices whose invite has not expired.

  \<open>JSON.stringify\<close> and \<open>JSON.parse\<close> are arguments over an arbitrary type of texts; random ids and the clock are
  arguments too. A release function that \<open>acquireTransient\<close> returns is named by the index of its closure.
\<close>

section \<open>The revoke outbox\<close>

record revoke_item = relay_binding +
  ri_reqId :: string
  ri_createdAt :: jsnum

record 'text outbox =
  ob_items :: "revoke_item list"
  ob_file :: "'text option"

definition is_finite_number :: "json option \<Rightarrow> bool" where
  "is_finite_number v \<longleftrightarrow> (case as_number v of Some n \<Rightarrow> num_is_finite n | None \<Rightarrow> False)"

definition isItem :: "json \<Rightarrow> bool" where
  "isItem v \<longleftrightarrow> truthy (Some v) \<and> typeof_object v \<and>
     as_string (jprop v ''reqId'') \<noteq> None \<and>
     as_string (jprop v ''relayHostId'') \<noteq> None \<and>
     as_string (jprop v ''relayDeviceId'') \<noteq> None \<and>
     as_string (jprop v ''ownerIdentityKey'') \<noteq> None \<and>
     (jprop v ''inviteExpiresAt'' = None \<or> is_finite_number (jprop v ''inviteExpiresAt'')) \<and>
     is_finite_number (jprop v ''createdAt'')"

text \<open>The fields the code reads of a value that passed \<open>isItem\<close>, and the properties of an item as they are written.\<close>

definition item_of :: "json \<Rightarrow> revoke_item" where
  "item_of v =
     (let str = (\<lambda>k. case as_string (jprop v k) of Some s \<Rightarrow> s | None \<Rightarrow> [])
      in \<lparr>rb_relayHostId = str ''relayHostId'', rb_relayDeviceId = str ''relayDeviceId'',
          rb_ownerIdentityKey = str ''ownerIdentityKey'', rb_inviteExpiresAt = as_number (jprop v ''inviteExpiresAt''),
          ri_reqId = str ''reqId'',
          ri_createdAt = (case as_number (jprop v ''createdAt'') of Some n \<Rightarrow> n | None \<Rightarrow> NaN)\<rparr>)"

definition json_of_item :: "revoke_item \<Rightarrow> json" where
  "json_of_item i = JObj
     ([(''relayHostId'', JStr (rb_relayHostId i)), (''relayDeviceId'', JStr (rb_relayDeviceId i)),
       (''ownerIdentityKey'', JStr (rb_ownerIdentityKey i))] @
      (case rb_inviteExpiresAt i of Some n \<Rightarrow> [(''inviteExpiresAt'', JNum n)] | None \<Rightarrow> []) @
      [(''reqId'', JStr (ri_reqId i)), (''createdAt'', JNum (ri_createdAt i))])"

definition outbox_load :: "('text \<Rightarrow> json option) \<Rightarrow> bool \<Rightarrow> 'text option \<Rightarrow> revoke_item list" where
  "outbox_load parse readable file =
     (case file of
        None \<Rightarrow> []
      | Some contents \<Rightarrow>
          (if \<not> readable then []
           else (case parse contents of Some (JArr vs) \<Rightarrow> map item_of (filter isItem vs) | _ \<Rightarrow> [])))"

definition outbox_new :: "('text \<Rightarrow> json option) \<Rightarrow> bool \<Rightarrow> 'text option \<Rightarrow> 'text outbox" where
  "outbox_new parse readable file = \<lparr>ob_items = outbox_load parse readable file, ob_file = file\<rparr>"

text \<open>The write replaces the file in one rename; \<open>written\<close> says whether it succeeds, and if not it throws.\<close>

definition outbox_save :: "(json \<Rightarrow> 'text) \<Rightarrow> bool \<Rightarrow> 'text outbox \<Rightarrow> 'text outbox" where
  "outbox_save stringify written ob =
     (if written then ob\<lparr>ob_file := Some (stringify (JArr (map json_of_item (ob_items ob))))\<rparr> else ob)"

definition same_device :: "relay_binding \<Rightarrow> revoke_item \<Rightarrow> bool" where
  "same_device b i \<longleftrightarrow> rb_relayHostId i = rb_relayHostId b \<and> rb_relayDeviceId i = rb_relayDeviceId b \<and>
     rb_ownerIdentityKey i = rb_ownerIdentityKey b"

text \<open>The result is \<open>None\<close> when the write throws; the item has been pushed by then.\<close>

definition outbox_enqueue ::
  "(json \<Rightarrow> 'text) \<Rightarrow> bool \<Rightarrow> string \<Rightarrow> rat \<Rightarrow> relay_binding \<Rightarrow> 'text outbox \<Rightarrow> 'text outbox \<times> revoke_item option" where
  "outbox_enqueue stringify written uuid now b ob =
     (case find (same_device b) (ob_items ob) of
        Some existing \<Rightarrow> (ob, Some existing)
      | None \<Rightarrow>
          (let item = relay_binding.extend b (revoke_item.fields uuid (Fin now))
           in (outbox_save stringify written (ob\<lparr>ob_items := ob_items ob @ [item]\<rparr>), if written then Some item else None)))"

definition pendingFor :: "string \<Rightarrow> string \<Rightarrow> 'text outbox \<Rightarrow> revoke_item list" where
  "pendingFor ownerIdentityKey relayHostId ob =
     filter (\<lambda>i. rb_ownerIdentityKey i = ownerIdentityKey \<and> rb_relayHostId i = relayHostId) (ob_items ob)"

definition outbox_remove :: "(json \<Rightarrow> 'text) \<Rightarrow> bool \<Rightarrow> string \<Rightarrow> 'text outbox \<Rightarrow> 'text outbox" where
  "outbox_remove stringify written reqId ob =
     (let kept = filter (\<lambda>i. ri_reqId i \<noteq> reqId) (ob_items ob)
      in if length kept = length (ob_items ob) then ob
         else outbox_save stringify written (ob\<lparr>ob_items := kept\<rparr>))"

text \<open>The life of an outbox: calls, and restarts of the process, which read the file again.\<close>

datatype outbox_event =
    OB_Enqueue relay_binding string rat bool
  | OB_Remove string bool
  | OB_Restart

fun outbox_step :: "(json \<Rightarrow> 'text) \<Rightarrow> ('text \<Rightarrow> json option) \<Rightarrow> 'text outbox \<Rightarrow> outbox_event \<Rightarrow> 'text outbox" where
  "outbox_step stringify parse ob (OB_Enqueue b uuid now written) = fst (outbox_enqueue stringify written uuid now b ob)"
| "outbox_step stringify parse ob (OB_Remove reqId written) = outbox_remove stringify written reqId ob"
| "outbox_step stringify parse ob OB_Restart = outbox_new parse True (ob_file ob)"

fun event_written :: "outbox_event \<Rightarrow> bool" where
  "event_written (OB_Enqueue b uuid now written) = written"
| "event_written (OB_Remove reqId written) = written"
| "event_written OB_Restart = True"

text \<open>A binding as the code makes them: an expiry, when there is one, is a finite number.\<close>

definition binding_finite :: "('a relay_binding_scheme) \<Rightarrow> bool" where
  "binding_finite b \<longleftrightarrow> (case rb_inviteExpiresAt b of Some n \<Rightarrow> num_is_finite n | None \<Rightarrow> True)"

fun event_finite :: "outbox_event \<Rightarrow> bool" where
  "event_finite (OB_Enqueue b uuid now written) = binding_finite b"
| "event_finite _ = True"

text \<open>The documented behaviour of the two library functions: a plain value with finite numbers survives the round trip.\<close>

fun storable :: "json \<Rightarrow> bool" where
  "storable (JNum n) = num_is_finite n"
| "storable (JArr vs) = (\<forall>v \<in> set vs. storable v)"
| "storable (JObj ps) = (distinct (map fst ps) \<and> (\<forall>v \<in> set (map snd ps). storable v))"
| "storable _ = True"

definition json_text_ok :: "(json \<Rightarrow> 'text) \<Rightarrow> ('text \<Rightarrow> json option) \<Rightarrow> bool" where
  "json_text_ok stringify parse \<longleftrightarrow> (\<forall>v. storable v \<longrightarrow> parse (stringify v) = Some v)"

section \<open>Storing and reading back\<close>

definition item_finite :: "revoke_item \<Rightarrow> bool" where
  "item_finite i \<longleftrightarrow> binding_finite i \<and> num_is_finite (ri_createdAt i)"

lemma json_of_item_props [simp]:
  "jprop (json_of_item i) ''relayHostId'' = Some (JStr (rb_relayHostId i))"
  "jprop (json_of_item i) ''relayDeviceId'' = Some (JStr (rb_relayDeviceId i))"
  "jprop (json_of_item i) ''ownerIdentityKey'' = Some (JStr (rb_ownerIdentityKey i))"
  "jprop (json_of_item i) ''inviteExpiresAt'' = map_option JNum (rb_inviteExpiresAt i)"
  "jprop (json_of_item i) ''reqId'' = Some (JStr (ri_reqId i))"
  "jprop (json_of_item i) ''createdAt'' = Some (JNum (ri_createdAt i))"
  by (auto simp: json_of_item_def split: option.split)

lemma storable_item: "item_finite i \<Longrightarrow> storable (json_of_item i)"
  by (auto simp: json_of_item_def item_finite_def binding_finite_def split: option.splits)

lemma isItem_json_of_item: "item_finite i \<Longrightarrow> isItem (json_of_item i)"
  by (auto simp: isItem_def item_finite_def binding_finite_def is_finite_number_def json_of_item_def split: option.splits)

lemma as_number_map [simp]: "as_number (map_option JNum n) = n"
  by (cases n) auto

lemma item_of_json [simp]: "item_of (json_of_item i) = i"
  by (cases i) (simp add: item_of_def)

lemma load_saved:
  assumes "json_text_ok stringify parse" "\<forall>i \<in> set items. item_finite i"
  shows "outbox_load parse True (Some (stringify (JArr (map json_of_item items)))) = items"
proof -
  have "parse (stringify (JArr (map json_of_item items))) = Some (JArr (map json_of_item items))"
    using assms by (auto simp: json_text_ok_def storable_item)
  moreover have "filter isItem (map json_of_item items) = map json_of_item items"
    using assms(2) by (auto simp: isItem_json_of_item)
  ultimately show ?thesis
    by (simp add: outbox_load_def comp_def)
qed

section \<open>Revocations are durable\<close>

definition item_key :: "revoke_item \<Rightarrow> string \<times> string \<times> string" where
  "item_key i = (rb_relayHostId i, rb_relayDeviceId i, rb_ownerIdentityKey i)"

definition outbox_ok :: "('text \<Rightarrow> json option) \<Rightarrow> 'text outbox \<Rightarrow> bool" where
  "outbox_ok parse ob \<longleftrightarrow> (\<forall>i \<in> set (ob_items ob). item_finite i) \<and> distinct (map item_key (ob_items ob)) \<and>
     outbox_load parse True (ob_file ob) = ob_items ob"

lemma same_device_find_None: "find (same_device b) items = None \<Longrightarrow>
    (rb_relayHostId b, rb_relayDeviceId b, rb_ownerIdentityKey b) \<notin> item_key ` set items"
  by (auto simp: find_None_iff same_device_def item_key_def)

lemma extend_fields [simp]:
  "rb_relayHostId (relay_binding.extend b m) = rb_relayHostId b"
  "rb_relayDeviceId (relay_binding.extend b m) = rb_relayDeviceId b"
  "rb_ownerIdentityKey (relay_binding.extend b m) = rb_ownerIdentityKey b"
  "rb_inviteExpiresAt (relay_binding.extend b m) = rb_inviteExpiresAt b"
  "ri_reqId (relay_binding.extend b (revoke_item.fields uuid t)) = uuid"
  "ri_createdAt (relay_binding.extend b (revoke_item.fields uuid t)) = t"
  by (cases b, simp add: relay_binding.defs revoke_item.defs)+

lemma new_item_finite: "binding_finite b \<Longrightarrow> item_finite (relay_binding.extend b (revoke_item.fields uuid (Fin now)))"
  by (simp add: item_finite_def binding_finite_def)

lemma save_ok:
  assumes "json_text_ok stringify parse" "\<forall>i \<in> set (ob_items ob). item_finite i" "distinct (map item_key (ob_items ob))"
  shows "outbox_ok parse (outbox_save stringify True ob)"
  using assms by (simp add: outbox_ok_def outbox_save_def load_saved)

lemma enqueue_ok:
  assumes "json_text_ok stringify parse" "outbox_ok parse ob" "binding_finite b"
  shows "outbox_ok parse (fst (outbox_enqueue stringify True uuid now b ob))"
proof (cases "find (same_device b) (ob_items ob)")
  case None
  then show ?thesis
    using assms same_device_find_None [OF None]
    by (auto simp: outbox_enqueue_def outbox_ok_def [of parse ob] item_key_def new_item_finite Let_def intro!: save_ok)
next
  case (Some i)
  then show ?thesis using assms by (simp add: outbox_enqueue_def)
qed

lemma remove_ok:
  assumes "json_text_ok stringify parse" "outbox_ok parse ob"
  shows "outbox_ok parse (outbox_remove stringify True reqId ob)"
  using assms by (auto simp: outbox_remove_def outbox_ok_def [of parse ob] Let_def distinct_map_filter intro!: save_ok)

lemma outbox_step_ok:
  assumes "json_text_ok stringify parse" "outbox_ok parse ob" "event_written e" "event_finite e"
  shows "outbox_ok parse (outbox_step stringify parse ob e)"
proof (cases e)
  case OB_Restart
  then show ?thesis using assms(2) by (simp add: outbox_ok_def outbox_new_def)
qed (use assms in \<open>auto simp: enqueue_ok remove_ok\<close>)

lemma outbox_run_ok:
  assumes "json_text_ok stringify parse" "outbox_ok parse ob" "\<forall>e \<in> set es. event_written e \<and> event_finite e"
  shows "outbox_ok parse (foldl (outbox_step stringify parse) ob es)"
  using assms(2,3) by (induction es arbitrary: ob) (auto intro: outbox_step_ok [OF assms(1)])

lemma outbox_empty_ok: "outbox_ok parse (outbox_new parse True None)"
  by (simp add: outbox_ok_def outbox_new_def outbox_load_def)

lemma step_keeps_item:
  assumes "outbox_ok parse ob" "i \<in> set (ob_items ob)" "\<forall>w. e \<noteq> OB_Remove (ri_reqId i) w"
  shows "i \<in> set (ob_items (outbox_step stringify parse ob e))"
  using assms
  by (cases e) (auto simp: outbox_enqueue_def outbox_remove_def outbox_save_def outbox_new_def outbox_ok_def Let_def split: option.split)

lemma run_keeps_item:
  assumes "json_text_ok stringify parse" "outbox_ok parse ob" "i \<in> set (ob_items ob)"
    "\<forall>e \<in> set es. event_written e \<and> event_finite e" "\<forall>w. OB_Remove (ri_reqId i) w \<notin> set es"
  shows "i \<in> set (ob_items (foldl (outbox_step stringify parse) ob es))"
  using assms(2-)
proof (induction es arbitrary: ob)
  case Nil
  then show ?case by simp
next
  case (Cons e es)
  then have "outbox_ok parse (outbox_step stringify parse ob e)" "i \<in> set (ob_items (outbox_step stringify parse ob e))"
    by (auto intro: outbox_step_ok [OF assms(1)] step_keeps_item)
  with Cons show ?case by auto
qed

lemma enqueued_item:
  assumes "outbox_enqueue stringify written uuid now b ob = (ob', Some i)"
  shows "i \<in> set (ob_items ob') \<and> same_device b i"
  using assms
  by (auto simp: outbox_enqueue_def outbox_save_def same_device_def Let_def find_Some_iff split: option.splits if_splits)

lemma find_unique_key:
  assumes "distinct (map item_key items)" "i \<in> set items" "same_device b i"
  shows "find (same_device b) items = Some i"
proof -
  obtain j where j: "find (same_device b) items = Some j"
    using assms(2,3) by (cases "find (same_device b) items") (auto simp: find_None_iff)
  then have "j \<in> set items" "same_device b j" by (auto simp: find_Some_iff)
  moreover from this assms(3) have "item_key j = item_key i" by (simp add: item_key_def same_device_def)
  ultimately have "j = i"
    using assms(1,2) by (auto simp: distinct_map dest: inj_onD)
  with j show ?thesis by simp
qed

text \<open>
  Property C23. A revocation is durable. Take any life of the outbox in which the file system accepts the writes, and
  let a binding be queued. After any further calls and restarts that do not remove that request, the same item is
  still pending for its owner and host, with the request id it was given, queueing the binding again returns that item and
  changes nothing, and reading the file gives exactly the queued items, one for each device.
\<close>

theorem revocation_is_durable:
  assumes "json_text_ok stringify parse"
    and "\<forall>e \<in> set (es @ es'). event_written e \<and> event_finite e" "binding_finite b"
    and "outbox_enqueue stringify True uuid now b (foldl (outbox_step stringify parse) (outbox_new parse True None) es) = (ob, Some item)"
    and "\<forall>w. OB_Remove (ri_reqId item) w \<notin> set es'"
  defines "end \<equiv> foldl (outbox_step stringify parse) ob es'"
  shows "item \<in> set (pendingFor (rb_ownerIdentityKey b) (rb_relayHostId b) end) \<and>
    outbox_enqueue stringify written uuid' now' b end = (end, Some item) \<and>
    outbox_load parse True (ob_file end) = ob_items end \<and>
    distinct (map item_key (ob_items end))"
proof -
  have start: "outbox_ok parse (foldl (outbox_step stringify parse) (outbox_new parse True None) es)"
    using assms(1,2) by (auto intro!: outbox_run_ok outbox_empty_ok)
  from enqueue_ok [OF assms(1) this assms(3), of uuid now] have ob: "outbox_ok parse ob"
    using assms(4) by simp
  have item: "item \<in> set (ob_items ob)" "same_device b item"
    using enqueued_item [OF assms(4)] by auto
  have ok: "outbox_ok parse end"
    unfolding end_def using assms(1,2) ob by (auto intro!: outbox_run_ok)
  have "item \<in> set (ob_items end)"
    unfolding end_def using assms(1,2,5) ob item by (auto intro!: run_keeps_item)
  moreover from this have "find (same_device b) (ob_items end) = Some item"
    using ok item(2) by (auto simp: outbox_ok_def intro: find_unique_key)
  ultimately show ?thesis
    using ok item(2) by (simp add: pendingFor_def same_device_def outbox_enqueue_def outbox_ok_def)
qed

definition sample_binding :: "string \<Rightarrow> relay_binding" where
  "sample_binding d = \<lparr>rb_relayHostId = ''host'', rb_relayDeviceId = d, rb_ownerIdentityKey = ''owner'', rb_inviteExpiresAt = Some (Fin 7)\<rparr>"

definition sample_item :: "string \<Rightarrow> string \<Rightarrow> rat \<Rightarrow> revoke_item" where
  "sample_item d reqId now = \<lparr>rb_relayHostId = ''host'', rb_relayDeviceId = d, rb_ownerIdentityKey = ''owner'',
     rb_inviteExpiresAt = Some (Fin 7), ri_reqId = reqId, ri_createdAt = Fin now\<rparr>"

theorem revocation_is_durable_witness:
  "json_text_ok (\<lambda>v. v) Some \<and>
   outbox_enqueue (\<lambda>v. v) True ''r2'' 5 (sample_binding ''b'')
      (foldl (outbox_step (\<lambda>v. v) Some) (outbox_new Some True None) [OB_Enqueue (sample_binding ''a'') ''r1'' 3 True]) =
     (\<lparr>ob_items = [sample_item ''a'' ''r1'' 3, sample_item ''b'' ''r2'' 5],
       ob_file = Some (JArr [json_of_item (sample_item ''a'' ''r1'' 3), json_of_item (sample_item ''b'' ''r2'' 5)])\<rparr>,
      Some (sample_item ''b'' ''r2'' 5)) \<and>
   sample_item ''b'' ''r2'' 5 \<in> set (pendingFor ''owner'' ''host''
     (foldl (outbox_step (\<lambda>v. v) Some)
       \<lparr>ob_items = [sample_item ''a'' ''r1'' 3, sample_item ''b'' ''r2'' 5],
        ob_file = Some (JArr [json_of_item (sample_item ''a'' ''r1'' 3), json_of_item (sample_item ''b'' ''r2'' 5)])\<rparr>
       [OB_Remove ''r1'' True, OB_Restart]))"
proof -
  have law: "json_text_ok (\<lambda>v. v) Some" by (simp add: json_text_ok_def)
  have run: "outbox_enqueue (\<lambda>v. v) True ''r2'' 5 (sample_binding ''b'')
      (foldl (outbox_step (\<lambda>v. v) Some) (outbox_new Some True None) [OB_Enqueue (sample_binding ''a'') ''r1'' 3 True]) =
     (\<lparr>ob_items = [sample_item ''a'' ''r1'' 3, sample_item ''b'' ''r2'' 5],
       ob_file = Some (JArr [json_of_item (sample_item ''a'' ''r1'' 3), json_of_item (sample_item ''b'' ''r2'' 5)])\<rparr>,
      Some (sample_item ''b'' ''r2'' 5))"
    by (simp add: outbox_enqueue_def outbox_save_def outbox_new_def outbox_load_def same_device_def sample_binding_def
        sample_item_def relay_binding.defs revoke_item.defs Let_def)
  show ?thesis
    using law run revocation_is_durable [OF law _ _ run, of "[OB_Remove ''r1'' True, OB_Restart]"]
    by (simp add: sample_binding_def sample_item_def binding_finite_def)
qed

section \<open>The demand ledger\<close>

text \<open>
  The map of reference counts, and the closures that \<open>acquireTransient\<close> has returned, each with its key and its
  \<open>released\<close> flag.
\<close>

record demand_ledger =
  dl_transientRefs :: "(string \<times> nat) list"
  dl_handles :: "(string \<times> bool) list"

definition ledger_new :: demand_ledger where
  "ledger_new = \<lparr>dl_transientRefs = [], dl_handles = []\<rparr>"

definition ref_count :: "demand_ledger \<Rightarrow> string \<Rightarrow> nat" where
  "ref_count l key = (case map_of (dl_transientRefs l) key of Some n \<Rightarrow> n | None \<Rightarrow> 0)"

definition acquireTransient :: "string \<Rightarrow> demand_ledger \<Rightarrow> nat \<times> demand_ledger" where
  "acquireTransient key l =
     (length (dl_handles l),
      l\<lparr>dl_transientRefs := AList.update key (ref_count l key + 1) (dl_transientRefs l), dl_handles := dl_handles l @ [(key, False)]\<rparr>)"

definition release :: "nat \<Rightarrow> demand_ledger \<Rightarrow> demand_ledger" where
  "release h l =
     (let (key, released) = dl_handles l ! h
      in if released then l
         else (let l1 = l\<lparr>dl_handles := (dl_handles l)[h := (key, True)]\<rparr>; count = ref_count l1 key
               in l1\<lparr>dl_transientRefs := (if count \<le> 1 then AList.delete key (dl_transientRefs l1)
                                           else AList.update key (count - 1) (dl_transientRefs l1))\<rparr>))"

definition invite_live :: "rat \<Rightarrow> relay_binding \<Rightarrow> bool" where
  "invite_live now b \<longleftrightarrow> (case rb_inviteExpiresAt b of None \<Rightarrow> True | Some e \<Rightarrow> num_gt e now)"

definition device_demand :: "rat \<Rightarrow> string \<Rightarrow> string \<Rightarrow> device_entry \<Rightarrow> bool" where
  "device_demand now ownerIdentityKey relayHostId d \<longleftrightarrow>
     (case de_relayBinding d of
        None \<Rightarrow> False
      | Some b \<Rightarrow> de_scope d = Scope_Mobile \<and> rb_ownerIdentityKey b = ownerIdentityKey \<and> rb_relayHostId b = relayHostId \<and>
          invite_live now b)"

definition hasDemand :: "rat \<Rightarrow> string \<Rightarrow> string \<Rightarrow> registry \<Rightarrow> 'text outbox \<Rightarrow> demand_ledger \<Rightarrow> bool" where
  "hasDemand now relayHostId ownerIdentityKey ds ob l \<longleftrightarrow>
     dl_transientRefs l \<noteq> [] \<or> pendingFor ownerIdentityKey relayHostId ob \<noteq> [] \<or>
     (\<exists>d \<in> set ds. device_demand now ownerIdentityKey relayHostId d)"

text \<open>The loop of \<open>nextPendingExpiry\<close>; an expiry of zero is falsy and skipped.\<close>

fun num_lt :: "jsnum \<Rightarrow> jsnum \<Rightarrow> bool" where
  "num_lt (Fin a) (Fin b) \<longleftrightarrow> a < b"
| "num_lt NegInf (Fin b) \<longleftrightarrow> True"
| "num_lt NegInf PosInf \<longleftrightarrow> True"
| "num_lt (Fin a) PosInf \<longleftrightarrow> True"
| "num_lt _ _ \<longleftrightarrow> False"

definition consider_expiry :: "rat \<Rightarrow> jsnum option \<Rightarrow> device_entry \<Rightarrow> jsnum option" where
  "consider_expiry now so_far d =
     (case Option.bind (de_relayBinding d) rb_inviteExpiresAt of
        None \<Rightarrow> so_far
      | Some e \<Rightarrow>
          (if truthy (Some (JNum e)) \<and> num_gt e now \<and> (case so_far of None \<Rightarrow> True | Some x \<Rightarrow> num_lt e x)
           then Some e else so_far))"

definition nextPendingExpiry :: "rat \<Rightarrow> registry \<Rightarrow> jsnum option" where
  "nextPendingExpiry now ds = foldl (consider_expiry now) None ds"

section \<open>References are counted\<close>

definition held :: "demand_ledger \<Rightarrow> string \<Rightarrow> nat" where
  "held l key = length (filter (\<lambda>h. h = (key, False)) (dl_handles l))"

definition ledger_ok :: "demand_ledger \<Rightarrow> bool" where
  "ledger_ok l \<longleftrightarrow> (\<forall>key. map_of (dl_transientRefs l) key = (if held l key = 0 then None else Some (held l key)))"

lemma ledger_ok_count: "ledger_ok l \<Longrightarrow> ref_count l key = held l key"
  by (simp add: ledger_ok_def ref_count_def)

lemma acquire_ok: "ledger_ok l \<Longrightarrow> ledger_ok (snd (acquireTransient key l))"
  by (auto simp: acquireTransient_def ledger_ok_count ledger_ok_def [of "l\<lparr>dl_transientRefs := _, dl_handles := _\<rparr>"] held_def)
     (auto simp: ledger_ok_def held_def)

lemma length_filter_update:
  assumes "i < length xs"
  shows "length (filter P (xs[i := v])) + (if P (xs ! i) then 1 else 0) = length (filter P xs) + (if P v then 1 else 0)"
proof -
  have "filter P xs = filter P (take i xs @ xs ! i # drop (Suc i) xs)"
    by (rule arg_cong [OF id_take_nth_drop [OF assms]])
  then show ?thesis using assms by (simp add: upd_conv_take_nth_drop)
qed

lemma release_held:
  assumes "h < length (dl_handles l)" "dl_handles l ! h = (key, False)"
  shows "held l k = held (l\<lparr>dl_handles := (dl_handles l)[h := (key, True)]\<rparr>) k + (if k = key then 1 else 0)"
  using length_filter_update [OF assms(1), of "\<lambda>h. h = (k, False)" "(key, True)"] assms(2) by (auto simp: held_def)

lemma held_refs [simp]: "held (l\<lparr>dl_transientRefs := m\<rparr>) = held l"
  by (simp add: held_def fun_eq_iff)

lemma release_ok:
  assumes "ledger_ok l" "h < length (dl_handles l)"
  shows "ledger_ok (release h l)"
proof (cases "dl_handles l ! h")
  case (Pair key released)
  show ?thesis
  proof (cases released)
    case False
    let ?l = "l\<lparr>dl_handles := (dl_handles l)[h := (key, True)]\<rparr>"
    have held: "held l k = held ?l k + (if k = key then 1 else 0)" for k
      using release_held assms(2) Pair False by simp
    have "ref_count ?l key = held ?l key + 1"
      using assms(1) held [of key] by (simp add: ref_count_def ledger_ok_def)
    moreover have "map_of (dl_transientRefs l) k = (if held ?l k + (if k = key then 1 else 0) = 0 then None else Some (held ?l k + (if k = key then 1 else 0)))" for k
      using assms(1) held [of k] by (simp add: ledger_ok_def)
    ultimately show ?thesis
      using Pair False by (auto simp: release_def ledger_ok_def Let_def)
  qed (use Pair assms(1) in \<open>simp add: release_def\<close>)
qed

text \<open>The calls that an operation makes; a release function can only be called once it was returned.\<close>

datatype ledger_event = DL_Acquire string | DL_Release nat

fun ledger_step :: "demand_ledger \<Rightarrow> ledger_event \<Rightarrow> demand_ledger" where
  "ledger_step l (DL_Acquire key) = snd (acquireTransient key l)"
| "ledger_step l (DL_Release h) = (if h < length (dl_handles l) then release h l else l)"

lemma ledger_step_ok: "ledger_ok l \<Longrightarrow> ledger_ok (ledger_step l e)"
  by (cases e) (auto simp: acquire_ok release_ok)

interpretation ledger: event_machine ledger_step ledger_ok
  by unfold_locales (rule ledger_step_ok)

lemma ledger_new_ok: "ledger_ok ledger_new"
  by (simp add: ledger_ok_def ledger_new_def held_def)

lemma held_pos: "0 < held l key \<longleftrightarrow> (key, False) \<in> set (dl_handles l)"
  by (auto simp: held_def filter_empty_conv)

lemma refs_empty_iff: "ledger_ok l \<Longrightarrow> dl_transientRefs l = [] \<longleftrightarrow> (\<forall>h \<in> set (dl_handles l). snd h)"
proof -
  assume ok: "ledger_ok l"
  have "dl_transientRefs l = [] \<longleftrightarrow> (\<forall>key. map_of (dl_transientRefs l) key = None)"
    by (cases "dl_transientRefs l") (auto simp: map_of_eq_None_iff intro: exI [of _ "fst (hd (dl_transientRefs l))"])
  also have "\<dots> \<longleftrightarrow> (\<forall>key. held l key = 0)"
    using ok by (auto simp: ledger_ok_def)
  also have "\<dots> \<longleftrightarrow> (\<forall>h \<in> set (dl_handles l). snd h)"
  proof
    assume z: "\<forall>key. held l key = 0"
    show "\<forall>h \<in> set (dl_handles l). snd h"
    proof
      fix h assume "h \<in> set (dl_handles l)"
      then have "h \<noteq> (fst h, False)" using z held_pos [of l "fst h"] by auto
      then show "snd h" by (cases h) auto
    qed
  next
    assume r: "\<forall>h \<in> set (dl_handles l). snd h"
    show "\<forall>key. held l key = 0"
      using r held_pos [of l] by (metis gr0I snd_conv)
  qed
  finally show ?thesis .
qed

text \<open>
  Transient demand is counted exactly: after any calls, a key of the map counts the release functions for it
  that have not been called, however often the others were called, and the ledger holds no transient reference
  exactly when every operation that took one has ended.
\<close>

theorem transient_demand_is_counted:
  "(let l = foldl ledger_step ledger_new es
    in (\<forall>key. ref_count l key = length (filter (\<lambda>h. h = (key, False)) (dl_handles l))) \<and>
       (dl_transientRefs l = [] \<longleftrightarrow> list_all snd (dl_handles l)))"
  using ledger.run_inv [OF ledger_new_ok, of es]
  by (simp add: Let_def ledger_ok_count held_def [symmetric] refs_empty_iff list_all_iff)

section \<open>Demand changes only when an invite expires\<close>

definition pending_expiries :: "rat \<Rightarrow> device_entry list \<Rightarrow> jsnum list" where
  "pending_expiries now ds =
     filter (\<lambda>e. num_gt e now) (List.map_filter (\<lambda>d. Option.bind (de_relayBinding d) rb_inviteExpiresAt) ds)"

lemma num_lt_trans: "num_lt a b \<Longrightarrow> num_lt b c \<Longrightarrow> num_lt a c"
  by (cases a; cases b; cases c) auto

lemma truthy_future: "0 \<le> now \<Longrightarrow> num_gt e now \<Longrightarrow> truthy (Some (JNum e))"
  by (cases e) auto

definition least_expiry :: "jsnum list \<Rightarrow> jsnum option \<Rightarrow> bool" where
  "least_expiry es r \<longleftrightarrow>
     (case r of None \<Rightarrow> es = [] | Some x \<Rightarrow> x \<in> set es \<and> (\<forall>e \<in> set es. \<not> num_lt e x))"

lemma consider_expiry_cases:
  "0 \<le> now \<Longrightarrow> consider_expiry now r d =
     (case pending_expiries now [d] of
        e # _ \<Rightarrow> (case r of None \<Rightarrow> Some e | Some x \<Rightarrow> (if num_lt e x then Some e else r)) | [] \<Rightarrow> r)"
  by (cases "Option.bind (de_relayBinding d) rb_inviteExpiresAt")
     (auto simp: consider_expiry_def pending_expiries_def map_filter_def truthy_future simp del: truthy.simps split: option.split)

lemma least_step:
  assumes "least_expiry es r"
  shows "least_expiry (es @ [e]) (case r of None \<Rightarrow> Some e | Some x \<Rightarrow> (if num_lt e x then Some e else r))"
proof (cases r)
  case None
  have "\<not> num_lt e e" by (cases e) auto
  then show ?thesis using None assms by (simp add: least_expiry_def)
next
  case (Some x)
  have "\<not> num_lt e e" by (cases e) auto
  moreover have "num_lt e x \<Longrightarrow> f \<in> set es \<Longrightarrow> \<not> num_lt f e" for f
    using Some assms num_lt_trans [of f e x] by (auto simp: least_expiry_def)
  ultimately show ?thesis using Some assms by (auto simp: least_expiry_def)
qed

lemma pending_expiries_snoc:
  "pending_expiries now (ds @ [d]) = pending_expiries now ds @ pending_expiries now [d]"
  by (simp add: pending_expiries_def map_filter_def)

lemma pending_expiries_single: "pending_expiries now [d] = [] \<or> (\<exists>e. pending_expiries now [d] = [e])"
  by (cases "Option.bind (de_relayBinding d) rb_inviteExpiresAt") (auto simp: pending_expiries_def map_filter_def)

lemma nextPendingExpiry_least: "0 \<le> now \<Longrightarrow> least_expiry (pending_expiries now ds) (nextPendingExpiry now ds)"
  unfolding nextPendingExpiry_def
proof (induction ds rule: rev_induct)
  case Nil
  then show ?case by (simp add: least_expiry_def pending_expiries_def map_filter_def)
next
  case (snoc d ds)
  then show ?case
    using pending_expiries_single [of now d]
    by (auto simp: consider_expiry_cases pending_expiries_snoc [of now ds d] least_step)
qed

lemma in_pending_expiries:
  "e \<in> set (pending_expiries now ds) \<longleftrightarrow>
     num_gt e now \<and> (\<exists>d \<in> set ds. \<exists>b. de_relayBinding d = Some b \<and> rb_inviteExpiresAt b = Some e)"
  by (force simp: pending_expiries_def map_filter_def bind_eq_Some_conv)

text \<open>
  Until the least pending expiry the demand of every owner stays what it is, so that it is enough to look again when
  that time has passed.
\<close>

lemma num_gt_between:
  assumes "now \<le> t" "num_gt e now" "\<not> num_lt e x" "num_gt x t"
  shows "num_gt e t"
  using assms by (cases e; cases x) auto

lemma device_demand_until:
  assumes "now \<le> t" "0 \<le> now" "d \<in> set ds" "case nextPendingExpiry now ds of None \<Rightarrow> True | Some x \<Rightarrow> num_gt x t"
  shows "device_demand t owner host d = device_demand now owner host d"
proof (cases "de_relayBinding d")
  case None
  then show ?thesis by (simp add: device_demand_def)
next
  case (Some b)
  have "num_gt e t = num_gt e now" if e: "rb_inviteExpiresAt b = Some e" for e
  proof
    assume "num_gt e t"
    then show "num_gt e now" using assms(1) by (cases e) auto
  next
    assume gt: "num_gt e now"
    then have "e \<in> set (pending_expiries now ds)" using e Some assms(3) by (auto simp: in_pending_expiries)
    then show "num_gt e t"
      using nextPendingExpiry_least [OF assms(2), of ds] assms(1,4) gt
      by (auto simp: least_expiry_def intro: num_gt_between split: option.splits)
  qed
  then show ?thesis
    using Some by (auto simp: device_demand_def invite_live_def split: option.split)
qed

text \<open>
  The demand is constant until the time that \<open>nextPendingExpiry\<close> names: for every owner and every time
  from now on that is before it (every later time when it names none), the ledger gives the same answer as now; and the
  time it names is the expiry of a device's invite that lies in the future.
\<close>

theorem demand_changes_only_at_expiry:
  assumes "0 \<le> now" "now \<le> t" "case nextPendingExpiry now ds of None \<Rightarrow> True | Some x \<Rightarrow> num_gt x t"
  shows "hasDemand t relayHostId owner ds ob l = hasDemand now relayHostId owner ds ob l \<and>
    (\<forall>x. nextPendingExpiry now ds = Some x \<longrightarrow>
       num_gt x now \<and> (\<exists>d \<in> set ds. \<exists>b. de_relayBinding d = Some b \<and> rb_inviteExpiresAt b = Some x))"
proof -
  have "(\<exists>d \<in> set ds. device_demand t owner relayHostId d) = (\<exists>d \<in> set ds. device_demand now owner relayHostId d)"
    using device_demand_until [OF assms(2,1) _ assms(3)] by blast
  moreover have "nextPendingExpiry now ds = Some x \<Longrightarrow> x \<in> set (pending_expiries now ds)" for x
    using nextPendingExpiry_least [OF assms(1), of ds] by (simp add: least_expiry_def)
  ultimately show ?thesis by (auto simp: hasDemand_def in_pending_expiries)
qed

definition sample_device :: "string \<Rightarrow> rat \<Rightarrow> device_entry" where
  "sample_device d expires = \<lparr>de_deviceId = d, de_name = ''phone'', de_token = d, de_scope = Scope_Mobile, de_pairedAt = 0,
     de_lastSeenAt = 0, de_relayBinding = Some ((sample_binding d)\<lparr>rb_inviteExpiresAt := Some (Fin expires)\<rparr>),
     de_mobilePairingConnectionMode = None\<rparr>"

theorem demand_changes_only_at_expiry_witness:
  "nextPendingExpiry 10 [sample_device ''a'' 30, sample_device ''b'' 20, sample_device ''c'' 5] = Some (Fin 20) \<and>
   hasDemand 19 ''host'' ''owner'' [sample_device ''a'' 30, sample_device ''b'' 20, sample_device ''c'' 5]
     (outbox_new Some True None) ledger_new =
   hasDemand 10 ''host'' ''owner'' [sample_device ''a'' 30, sample_device ''b'' 20, sample_device ''c'' 5]
     (outbox_new Some True None) ledger_new"
proof -
  have next_expiry: "nextPendingExpiry 10 [sample_device ''a'' 30, sample_device ''b'' 20, sample_device ''c'' 5] = Some (Fin 20)"
    by (simp add: nextPendingExpiry_def consider_expiry_def sample_device_def sample_binding_def)
  show ?thesis
    using demand_changes_only_at_expiry [of 10 19 "[sample_device ''a'' 30, sample_device ''b'' 20, sample_device ''c'' 5]"
        "''host''" "''owner''" "outbox_new Some True None" ledger_new] next_expiry
    by simp
qed

end
