(* ===== verification/Relay_Service.thy ===== *)
theory Relay_Service
  imports Relay_Auth Relay_Demand Mobile_Wiring
begin

text \<open>
  The desktop's relay service, \<open>src/pie-mobile/upstream/src/main/runtime/relay/desktop-relay-service.ts\<close>, together with the
  operations of \<open>src/pie-mobile/upstream/src/main/runtime/runtime-rpc.ts\<close> that pair a phone, bind it to the relay and revoke it.
  The two call each other: pairing asks the service for a relay invite, provisioning records a binding through
  the runtime, and a binding that is given up is queued for revocation, which the service sends to the broker.

  \<open>SV_Revoke\<close> stands for the call \<open>revokeDevice(item.relayDeviceId, item.reqId)\<close> of a broker, and \<open>SV_Revoked\<close> for its success.

  The state holds the components they share: the device registry, the revoke outbox, the demand ledger and the
  coordinator. The timer is the time at which it fires. Calls of a broker are recorded with the number that the
  coordinator knows the broker by; its answer is an event. An operation that is waiting for a broker goes on
  with the active broker at the time of its event. Random ids, the clock, and whether a write of the outbox succeeds, come
  with the events.
\<close>

section \<open>State\<close>

record pairing_context =
  pc_deviceId :: string
  pc_connectionId :: string
  pc_transport :: transport_metadata

datatype install_authorization = Authenticated_Direct string | Relay_Basis string

datatype service_op =
    Op_Pairing string string
  | Op_Endpoints pairing_context "string option" "string option"
  | Op_Provision pairing_context json

datatype op_phase = Wait_Broker | Wait_Status nat | Wait_Confirm nat | Wait_Reply nat

record op_task =
  ot_handle :: nat
  ot_op :: service_op
  ot_phase :: op_phase

datatype service_effect =
    SV_Revoke nat revoke_item
  | SV_Revoked string string string
  | SV_Create_Invite nat string
  | SV_Install nat string json install_authorization
  | SV_Install_Status nat string string
  | SV_Confirm_Resume nat string string
  | SV_Terminate string
  | SV_Endpoints string bool
  | SV_Installed string
  | SV_Failed string
  | SV_Offer string string bool
  | SV_Answer bool

record 'text relay_service =
  rs_relayHostId :: string
  rs_registry :: registry
  rs_outbox :: "'text outbox"
  rs_ledger :: demand_ledger
  rs_coordinator :: coordinator
  rs_demandExpiryTimer :: "rat option"
  rs_stopped :: bool
  rs_provider :: bool
  rs_flushes :: "(nat \<times> revoke_item list) list"
  rs_ops :: "op_task list"
  rs_trace :: "service_effect list"

definition service_new :: "string \<Rightarrow> registry \<Rightarrow> 'text outbox \<Rightarrow> 'text relay_service" where
  "service_new relayHostId ds ob =
     \<lparr>rs_relayHostId = relayHostId, rs_registry = ds, rs_outbox = ob, rs_ledger = ledger_new, rs_coordinator = coordinator_new,
      rs_demandExpiryTimer = None, rs_stopped = False, rs_provider = True, rs_flushes = [], rs_ops = [], rs_trace = []\<rparr>"

definition emit :: "service_effect \<Rightarrow> 'text relay_service \<Rightarrow> 'text relay_service" where
  "emit e s = s\<lparr>rs_trace := rs_trace s @ [e]\<rparr>"

section \<open>Demand\<close>

text \<open>\<open>setTimeout\<close> of Node: a delay above \<open>2\<^sup>31 - 1\<close> or below one becomes one millisecond.\<close>

definition node_timeout :: "rat \<Rightarrow> rat" where
  "node_timeout d = (if d > 2147483647 \<or> d < 1 then 1 else of_int \<lfloor>d\<rfloor>)"

fun expiry_delay :: "rat \<Rightarrow> jsnum \<Rightarrow> rat" where
  "expiry_delay now (Fin x) = node_timeout (max 1 (x - now + 1))"
| "expiry_delay now _ = 1"

definition refreshDemand :: "rat \<Rightarrow> 'text relay_service \<Rightarrow> 'text relay_service" where
  "refreshDemand now s =
     (if rs_stopped s then s
      else s\<lparr>rs_coordinator := reconcile (rs_coordinator s),
             rs_demandExpiryTimer := map_option (\<lambda>e. now + expiry_delay now e) (nextPendingExpiry now (rs_registry s))\<rparr>)"

definition service_hasDemand :: "rat \<Rightarrow> auth_identity \<Rightarrow> 'text relay_service \<Rightarrow> bool" where
  "service_hasDemand now identity s =
     hasDemand now (rs_relayHostId s) (identityKey identity) (rs_registry s) (rs_outbox s) (rs_ledger s)"

definition onDemandStateChanged :: "rat \<Rightarrow> 'text relay_service \<Rightarrow> 'text relay_service" where
  "onDemandStateChanged now s = (if rs_provider s then refreshDemand now s else s)"

definition service_stop :: "'text relay_service \<Rightarrow> 'text relay_service" where
  "service_stop s = s\<lparr>rs_stopped := True, rs_demandExpiryTimer := None, rs_coordinator := coord_stop (rs_coordinator s)\<rparr>"

section \<open>Revocations\<close>

definition broker_owner :: "nat \<Rightarrow> 'text relay_service \<Rightarrow> string option" where
  "broker_owner b s = map_of (co_opened (rs_coordinator s)) b"

text \<open>The loop of \<open>flushRevokeOutbox\<close> up to its next await: the first item of the rest is in flight.\<close>

definition flush :: "nat \<Rightarrow> revoke_item list \<Rightarrow> 'text relay_service \<Rightarrow> 'text relay_service" where
  "flush b items s =
     (case items of
        [] \<Rightarrow> s
      | i # _ \<Rightarrow> emit (SV_Revoke b i) (s\<lparr>rs_flushes := rs_flushes s @ [(b, items)]\<rparr>))"

definition flushRevokeOutbox :: "nat \<Rightarrow> string \<Rightarrow> 'text relay_service \<Rightarrow> 'text relay_service" where
  "flushRevokeOutbox b owner s = flush b (pendingFor owner (rs_relayHostId s) (rs_outbox s)) s"

text \<open>\<open>flushRevoke\<close> after its await, and the next turn of the loop. A write that throws skips the refresh.\<close>

definition revoke_settled ::
  "(json \<Rightarrow> 'text) \<Rightarrow> nat \<Rightarrow> bool \<Rightarrow> bool \<Rightarrow> rat \<Rightarrow> 'text relay_service \<Rightarrow> 'text relay_service" where
  "revoke_settled stringify n accepted written now s =
     (case rs_flushes s ! n of
        (b, i # rest) \<Rightarrow>
          (let s1 = s\<lparr>rs_flushes := take n (rs_flushes s) @ drop (Suc n) (rs_flushes s)\<rparr>;
               s2 = (if \<not> accepted then s1
                     else (let s3 = emit (SV_Revoked (rb_relayHostId i) (rb_relayDeviceId i) (rb_ownerIdentityKey i))
                                      (s1\<lparr>rs_outbox := outbox_remove stringify written (ri_reqId i) (rs_outbox s1)\<rparr>)
                           in if written \<or> ri_reqId i \<notin> ri_reqId ` set (ob_items (rs_outbox s1)) then refreshDemand now s3 else s3))
           in flush b rest s2)
      | _ \<Rightarrow> s)"

definition onDeviceRevokeQueued :: "rat \<Rightarrow> revoke_item \<Rightarrow> 'text relay_service \<Rightarrow> 'text relay_service" where
  "onDeviceRevokeQueued now item s =
     (let s1 = refreshDemand now s
      in case getActiveBroker (rs_coordinator s1) of
           Some b \<Rightarrow>
             (if rs_relayHostId s1 = rb_relayHostId item \<and> broker_owner b s1 = Some (rb_ownerIdentityKey item)
              then flush b [item] s1 else s1)
         | None \<Rightarrow> s1)"

text \<open>What an event supplies for a call that may queue a revocation: the request id, the time, the write.\<close>

record queue_draw =
  qd_uuid :: string
  qd_now :: rat
  qd_written :: bool

text \<open>The flag is false when the call throws.\<close>

definition queueRelayDeviceRevoke ::
  "(json \<Rightarrow> 'text) \<Rightarrow> queue_draw \<Rightarrow> relay_binding \<Rightarrow> 'text relay_service \<Rightarrow> 'text relay_service \<times> bool" where
  "queueRelayDeviceRevoke stringify q b s =
     (let (ob, r) = outbox_enqueue stringify (qd_written q) (qd_uuid q) (qd_now q) b (rs_outbox s); s1 = s\<lparr>rs_outbox := ob\<rparr>
      in case r of
           None \<Rightarrow> (s1, False)
         | Some item \<Rightarrow> ((if rs_provider s1 then onDeviceRevokeQueued (qd_now q) item s1 else s1), True))"

section \<open>Bindings\<close>

text \<open>\<open>None\<close> when the call throws, otherwise its result.\<close>

definition setMobileRelayBinding ::
  "(json \<Rightarrow> 'text) \<Rightarrow> queue_draw \<Rightarrow> string \<Rightarrow> relay_binding \<Rightarrow> 'text relay_service \<Rightarrow> 'text relay_service \<times> bool option" where
  "setMobileRelayBinding stringify q deviceId binding s =
     (case getDevice deviceId (rs_registry s) of
        None \<Rightarrow> (s, Some False)
      | Some current \<Rightarrow>
          (if de_scope current \<noteq> Scope_Mobile \<or>
              getMobilePairingConnectionMode deviceId (rs_registry s) = Some Mode_Local_Only then (s, Some False)
           else
             (let (s1, queued) =
                (case de_relayBinding current of
                   Some old \<Rightarrow>
                     (if rb_relayHostId old \<noteq> rb_relayHostId binding \<or> rb_ownerIdentityKey old \<noteq> rb_ownerIdentityKey binding
                      then queueRelayDeviceRevoke stringify q old s else (s, True))
                 | None \<Rightarrow> (s, True))
              in if \<not> queued then (s1, None)
                 else (let (updated, ds) = setRelayBinding deviceId binding (rs_registry s1); s2 = s1\<lparr>rs_registry := ds\<rparr>
                       in ((if updated then onDemandStateChanged (qd_now q) s2 else s2), Some updated)))))"

definition revokeMobileDevice ::
  "(json \<Rightarrow> 'text) \<Rightarrow> queue_draw \<Rightarrow> string \<Rightarrow> 'text relay_service \<Rightarrow> 'text relay_service" where
  "revokeMobileDevice stringify q deviceId s =
     (case getDevice deviceId (rs_registry s) of
        None \<Rightarrow> emit (SV_Answer False) s
      | Some device \<Rightarrow>
          (if de_scope device \<noteq> Scope_Mobile then emit (SV_Answer False) s
           else
             (let (s1, queued) = (case de_relayBinding device of Some b \<Rightarrow> queueRelayDeviceRevoke stringify q b s | None \<Rightarrow> (s, True))
              in if \<not> queued then emit (SV_Failed ''write'') s1
                 else (let (removed, ds) = removeDevice deviceId (rs_registry s1)
                       in if \<not> removed then emit (SV_Answer False) s1
                          else emit (SV_Answer True)
                                 (emit (SV_Terminate (de_token device)) (onDemandStateChanged (qd_now q) (s1\<lparr>rs_registry := ds\<rparr>)))))))"

definition revokeRuntimeAccess :: "string \<Rightarrow> 'text relay_service \<Rightarrow> 'text relay_service" where
  "revokeRuntimeAccess deviceId s =
     (case getDevice deviceId (rs_registry s) of
        None \<Rightarrow> emit (SV_Answer False) s
      | Some device \<Rightarrow>
          (let (removed, ds) = removeDevice deviceId (rs_registry s)
           in if de_scope device \<noteq> Scope_Runtime \<or> \<not> removed then emit (SV_Answer False) s
              else emit (SV_Answer True) (emit (SV_Terminate (de_token device)) (s\<lparr>rs_registry := ds\<rparr>))))"

section \<open>Operations with transient demand\<close>

fun op_key :: "service_op \<Rightarrow> string" where
  "op_key (Op_Pairing deviceId token) = ''pairing:'' @ deviceId"
| "op_key (Op_Endpoints ctx i r) = ''endpoints:'' @ pc_deviceId ctx"
| "op_key (Op_Provision ctx params) = ''provision:'' @ pc_deviceId ctx"

definition begin_op :: "rat \<Rightarrow> service_op \<Rightarrow> 'text relay_service \<Rightarrow> 'text relay_service" where
  "begin_op now op s =
     (let (h, l) = acquireTransient (op_key op) (rs_ledger s); s1 = refreshDemand now (s\<lparr>rs_ledger := l\<rparr>)
      in s1\<lparr>rs_ops := rs_ops s1 @ [\<lparr>ot_handle = h, ot_op = op, ot_phase = Wait_Broker\<rparr>]\<rparr>)"

definition without_op :: "nat \<Rightarrow> 'text relay_service \<Rightarrow> 'text relay_service" where
  "without_op n s = s\<lparr>rs_ops := take n (rs_ops s) @ drop (Suc n) (rs_ops s)\<rparr>"

definition set_op_phase :: "nat \<Rightarrow> op_phase \<Rightarrow> 'text relay_service \<Rightarrow> 'text relay_service" where
  "set_op_phase n ph s = s\<lparr>rs_ops := (rs_ops s)[n := (rs_ops s ! n)\<lparr>ot_phase := ph\<rparr>]\<rparr>"

text \<open>The \<open>finally\<close> of \<open>withTransientDemand\<close>, and the end of the call.\<close>

definition end_op :: "rat \<Rightarrow> nat \<Rightarrow> 'text relay_service \<Rightarrow> 'text relay_service" where
  "end_op now n s = without_op n (refreshDemand now (s\<lparr>rs_ledger := release (ot_handle (rs_ops s ! n)) (rs_ledger s)\<rparr>))"

definition pairingAuthorizationForContext :: "pairing_context \<Rightarrow> string \<Rightarrow> string + install_authorization option" where
  "pairingAuthorizationForContext ctx relayHostId =
     (case pc_transport ctx of
        Direct_Transport \<Rightarrow> Inr (Some (Authenticated_Direct (pc_connectionId ctx)))
      | Relay_Transport host device basis kind \<Rightarrow>
          (if host \<noteq> relayHostId then Inl ''stale_relay_connection''
           else Inr (if kind = Invite_Credential then Some (Relay_Basis basis) else None)))"

definition assertRelayHost :: "pairing_context \<Rightarrow> string \<Rightarrow> bool" where
  "assertRelayHost ctx relayHostId \<longleftrightarrow>
     (case pc_transport ctx of Direct_Transport \<Rightarrow> True | Relay_Transport host _ _ _ \<Rightarrow> host = relayHostId)"

definition requireMobileDevice :: "string \<Rightarrow> 'text relay_service \<Rightarrow> bool" where
  "requireMobileDevice deviceId s \<longleftrightarrow>
     (case getDevice deviceId (rs_registry s) of Some d \<Rightarrow> de_scope d = Scope_Mobile | None \<Rightarrow> False)"

definition local_only :: "string \<Rightarrow> 'text relay_service \<Rightarrow> bool" where
  "local_only deviceId s \<longleftrightarrow> getMobilePairingConnectionMode deviceId (rs_registry s) = Some Mode_Local_Only"

definition getEndpoints :: "rat \<Rightarrow> pairing_context \<Rightarrow> string option \<Rightarrow> string option \<Rightarrow> 'text relay_service \<Rightarrow> 'text relay_service" where
  "getEndpoints now ctx installReqId resumeConfirmReqId s =
     (if \<not> requireMobileDevice (pc_deviceId ctx) s then emit (SV_Failed ''mobile_device_not_found'') s
      else if local_only (pc_deviceId ctx) s then emit (SV_Endpoints (pc_deviceId ctx) False) s
      else begin_op now (Op_Endpoints ctx installReqId resumeConfirmReqId) s)"

definition provisionRelay :: "rat \<Rightarrow> pairing_context \<Rightarrow> json \<Rightarrow> 'text relay_service \<Rightarrow> 'text relay_service" where
  "provisionRelay now ctx params s =
     (if \<not> requireMobileDevice (pc_deviceId ctx) s then emit (SV_Failed ''mobile_device_not_found'') s
      else if local_only (pc_deviceId ctx) s then emit (SV_Failed ''relay_disabled_for_device'') s
      else begin_op now (Op_Provision ctx params) s)"

text \<open>The rest of \<open>getEndpoints\<close> once a broker is there. A request id that is the empty string counts as none.\<close>

definition given :: "string option \<Rightarrow> bool" where
  "given r \<longleftrightarrow> r \<noteq> None \<and> r \<noteq> Some []"

definition endpoints_confirm ::
  "rat \<Rightarrow> nat \<Rightarrow> nat \<Rightarrow> pairing_context \<Rightarrow> string option \<Rightarrow> 'text relay_service \<Rightarrow> 'text relay_service" where
  "endpoints_confirm now n b ctx resumeConfirmReqId s =
     (if \<not> given resumeConfirmReqId then emit (SV_Endpoints (pc_deviceId ctx) True) (end_op now n s)
      else (case pc_transport ctx of
              Relay_Transport host device basis kind \<Rightarrow>
                (if kind \<noteq> Invite_Credential
                 then emit (SV_Confirm_Resume b basis (the resumeConfirmReqId)) (set_op_phase n (Wait_Confirm b) s)
                 else emit (SV_Failed ''resume_confirmation_unavailable'') (end_op now n s))
            | Direct_Transport \<Rightarrow> emit (SV_Failed ''resume_confirmation_unavailable'') (end_op now n s)))"

definition endpoints_broker ::
  "rat \<Rightarrow> nat \<Rightarrow> bool \<Rightarrow> pairing_context \<Rightarrow> string option \<Rightarrow> string option \<Rightarrow> 'text relay_service \<Rightarrow> 'text relay_service" where
  "endpoints_broker now n endpoint ctx installReqId resumeConfirmReqId s =
     (case getActiveBroker (rs_coordinator s) of
        None \<Rightarrow> emit (SV_Endpoints (pc_deviceId ctx) False) (end_op now n s)
      | Some b \<Rightarrow>
          (if \<not> endpoint then emit (SV_Endpoints (pc_deviceId ctx) False) (end_op now n s)
           else if \<not> assertRelayHost ctx (rs_relayHostId s) then emit (SV_Failed ''stale_relay_connection'') (end_op now n s)
           else if given installReqId
           then emit (SV_Install_Status b (pc_deviceId ctx) (the installReqId)) (set_op_phase n (Wait_Status b) s)
           else endpoints_confirm now n b ctx resumeConfirmReqId s))"

text \<open>The rest of \<open>provisionRelay\<close> once a broker is there.\<close>

definition provision_broker ::
  "(json \<Rightarrow> 'text) \<Rightarrow> queue_draw \<Rightarrow> nat \<Rightarrow> bool \<Rightarrow> pairing_context \<Rightarrow> json \<Rightarrow> 'text relay_service \<Rightarrow> 'text relay_service" where
  "provision_broker stringify q n endpoint ctx params s =
     (let fail = (\<lambda>reason s. emit (SV_Failed reason) (end_op (qd_now q) n s))
      in case getActiveBroker (rs_coordinator s) of
           None \<Rightarrow> fail ''relay_control_not_active'' s
         | Some b \<Rightarrow>
             (if \<not> endpoint then fail ''relay_control_not_active'' s
              else if \<not> assertRelayHost ctx (rs_relayHostId s) then fail ''stale_relay_connection'' s
              else (case pairingAuthorizationForContext ctx (rs_relayHostId s) of
                      Inl reason \<Rightarrow> fail reason s
                    | Inr None \<Rightarrow> fail ''relay_provision_authorization_unavailable'' s
                    | Inr (Some authorization) \<Rightarrow>
                        (let (s1, bound) = setMobileRelayBinding stringify q (pc_deviceId ctx)
                           \<lparr>rb_relayHostId = rs_relayHostId s, rb_relayDeviceId = pc_deviceId ctx,
                            rb_ownerIdentityKey = (case broker_owner b s of Some k \<Rightarrow> k | None \<Rightarrow> []),
                            rb_inviteExpiresAt = None\<rparr> s
                         in case bound of
                              None \<Rightarrow> fail ''write'' s1
                            | Some False \<Rightarrow> fail ''mobile_device_not_found'' s1
                            | Some True \<Rightarrow>
                                set_op_phase n (Wait_Reply b)
                                  (emit (SV_Install b (pc_deviceId ctx) params authorization) (refreshDemand (qd_now q) s1))))))"

definition op_broker :: "(json \<Rightarrow> 'text) \<Rightarrow> queue_draw \<Rightarrow> nat \<Rightarrow> bool \<Rightarrow> 'text relay_service \<Rightarrow> 'text relay_service" where
  "op_broker stringify q n endpoint s =
     (case ot_op (rs_ops s ! n) of
        Op_Endpoints ctx i r \<Rightarrow> endpoints_broker (qd_now q) n endpoint ctx i r s
      | Op_Provision ctx params \<Rightarrow> provision_broker stringify q n endpoint ctx params s
      | Op_Pairing deviceId token \<Rightarrow>
          (case getActiveBroker (rs_coordinator s) of
             None \<Rightarrow> emit (SV_Offer deviceId token False) (end_op (qd_now q) n s)
           | Some b \<Rightarrow> emit (SV_Create_Invite b deviceId) (set_op_phase n (Wait_Reply b) s)))"

text \<open>
  The broker's promise settles: \<open>None\<close> for a rejection, otherwise the expiry of the invite, which only pairing reads.
  Pairing goes on in \<open>createMobilePairingOffer\<close>, which records the binding and falls back to the direct offer.
\<close>

definition pairing_reply :: "rat \<Rightarrow> nat \<Rightarrow> nat \<Rightarrow> jsnum option \<Rightarrow> string \<Rightarrow> string \<Rightarrow> 'text relay_service \<Rightarrow> 'text relay_service" where
  "pairing_reply now n b reply deviceId token s =
     (let s1 = end_op now n s
      in case reply of
           None \<Rightarrow> emit (SV_Offer deviceId token False) s1
         | Some expiresAt \<Rightarrow>
             (let (updated, ds) = setRelayBinding deviceId
                \<lparr>rb_relayHostId = rs_relayHostId s, rb_relayDeviceId = deviceId,
                 rb_ownerIdentityKey = (case broker_owner b s of Some k \<Rightarrow> k | None \<Rightarrow> []), rb_inviteExpiresAt = Some expiresAt\<rparr>
                (rs_registry s1)
              in if \<not> updated then emit (SV_Offer deviceId token False) s1
                 else emit (SV_Offer deviceId token True) (onDemandStateChanged now (s1\<lparr>rs_registry := ds\<rparr>))))"

definition op_reply :: "rat \<Rightarrow> nat \<Rightarrow> jsnum option \<Rightarrow> 'text relay_service \<Rightarrow> 'text relay_service" where
  "op_reply now n reply s =
     (case (ot_op (rs_ops s ! n), ot_phase (rs_ops s ! n)) of
        (Op_Pairing deviceId token, Wait_Reply b) \<Rightarrow> pairing_reply now n b reply deviceId token s
      | (Op_Provision ctx params, Wait_Reply b) \<Rightarrow>
          (if reply = None then emit (SV_Failed ''install'') (end_op now n s) else emit (SV_Installed (pc_deviceId ctx)) (end_op now n s))
      | (Op_Endpoints ctx i r, Wait_Status b) \<Rightarrow>
          (if reply = None then emit (SV_Failed ''status'') (end_op now n s) else endpoints_confirm now n b ctx r s)
      | (Op_Endpoints ctx i r, Wait_Confirm b) \<Rightarrow>
          (if reply = None then emit (SV_Failed ''confirm'') (end_op now n s) else emit (SV_Endpoints (pc_deviceId ctx) True) (end_op now n s))
      | _ \<Rightarrow> s)"

section \<open>Pairing offers\<close>

record offer_args =
  oa_local_only :: bool
  oa_rotate :: bool
  oa_available :: bool
  oa_name :: string
  oa_fresh :: fresh_device

text \<open>\<open>createMobilePairingOffer\<close> up to its await; the direct offer is the device's id and token.\<close>

definition createMobilePairingOffer ::
  "(json \<Rightarrow> 'text) \<Rightarrow> queue_draw \<Rightarrow> offer_args \<Rightarrow> 'text relay_service \<Rightarrow> 'text relay_service" where
  "createMobilePairingOffer stringify q args s =
     (let held_binding = (case getPendingDevice Scope_Mobile (rs_registry s) of Some d \<Rightarrow> de_relayBinding d | None \<Rightarrow> None);
          rotate = oa_rotate args \<or> (oa_local_only args \<and> held_binding \<noteq> None);
          (s1, queued) =
            (case held_binding of
               Some b \<Rightarrow> (if rotate then queueRelayDeviceRevoke stringify q b s else (s, True))
             | None \<Rightarrow> (s, True))
      in if \<not> queued then emit (SV_Failed ''write'') s1
         else if \<not> oa_available args then emit (SV_Answer False) s1
         else
           (let (device, ds) =
              (if rotate then rotatePendingDevice (oa_fresh args) (oa_name args) Scope_Mobile (rs_registry s1)
               else getOrCreatePendingDevice (oa_fresh args) (oa_name args) Scope_Mobile (rs_registry s1));
                ds1 = snd (setMobilePairingConnectionMode (de_deviceId device)
                  (if oa_local_only args then Mode_Local_Only else Mode_Automatic) ds);
                s2 = s1\<lparr>rs_registry := ds1\<rparr>
            in if oa_local_only args \<or> \<not> rs_provider s2 then emit (SV_Offer (de_deviceId device) (de_token device) False) s2
               else begin_op (qd_now q) (Op_Pairing (de_deviceId device) (de_token device)) s2))"

section \<open>Events\<close>

datatype service_event =
    SE_Refresh rat
  | SE_Timer
  | SE_Fence
  | SE_Stop
  | SE_Provider bool
  | SE_Context nat "auth_context option option" rat
  | SE_Opened nat nat "nat option"
  | SE_Linger rat
  | SE_Refresh_Token nat
  | SE_Token nat nat "auth_context option"
  | SE_Revoke_Settled nat bool bool rat
  | SE_Revoke_Mobile queue_draw string
  | SE_Revoke_Runtime string
  | SE_Offer queue_draw offer_args
  | SE_Endpoints rat pairing_context "string option" "string option"
  | SE_Provision rat pairing_context json
  | SE_Op_Broker queue_draw nat bool
  | SE_Op_Reply rat nat "jsnum option"
  | SE_Seen nat string

text \<open>
  \<open>openBroker\<close> of the service flushes the outbox as soon as the broker is connected, before the coordinator's
  \<open>await\<close> returns.
\<close>

definition service_opened :: "nat \<Rightarrow> nat \<Rightarrow> nat option \<Rightarrow> 'text relay_service \<Rightarrow> 'text relay_service" where
  "service_opened epoch r result s =
     (let s1 = (case result of
                  Some b \<Rightarrow> flushRevokeOutbox b (ow_identityKey (co_store (rs_coordinator s) ! r)) s
                | None \<Rightarrow> s)
      in s1\<lparr>rs_coordinator := broker_opened epoch r result (rs_coordinator s1)\<rparr>)"

definition demand_of :: "rat \<Rightarrow> auth_context option option \<Rightarrow> 'text relay_service \<Rightarrow> bool" where
  "demand_of now result s = (case result of Some (Some ctx) \<Rightarrow> service_hasDemand now (ac_identity ctx) s | _ \<Rightarrow> True)"

text \<open>An event that names a task, a timer or an operation that does not exist cannot happen.\<close>

fun service_step :: "(json \<Rightarrow> 'text) \<Rightarrow> 'text relay_service \<Rightarrow> service_event \<Rightarrow> 'text relay_service" where
  "service_step stringify s (SE_Refresh now) = refreshDemand now s"
| "service_step stringify s SE_Timer =
     (case rs_demandExpiryTimer s of Some due \<Rightarrow> refreshDemand due s | None \<Rightarrow> s)"
| "service_step stringify s SE_Fence = s\<lparr>rs_coordinator := fenceAndCloseNow (rs_coordinator s)\<rparr>"
| "service_step stringify s SE_Stop = service_stop s"
| "service_step stringify s (SE_Provider p) = s\<lparr>rs_provider := p\<rparr>"
| "service_step stringify s (SE_Context epoch result now) =
     (if Reading_Context epoch \<in> set (co_tasks (rs_coordinator s))
      then s\<lparr>rs_coordinator := context_read epoch result (demand_of now result s) (rs_coordinator s)\<rparr> else s)"
| "service_step stringify s (SE_Opened epoch r result) =
     (if Opening_Broker epoch r \<in> set (co_tasks (rs_coordinator s)) \<and>
         (case result of Some b \<Rightarrow> b \<notin> fst ` set (co_opened (rs_coordinator s)) | None \<Rightarrow> True)
      then service_opened epoch r result s else s)"
| "service_step stringify s (SE_Linger now) =
     (case co_lingerTimer (rs_coordinator s) of
        Some (ctx, r) \<Rightarrow>
          s\<lparr>rs_coordinator := linger_fired r (service_hasDemand now (ac_identity ctx) s) (rs_coordinator s)\<rparr>
      | None \<Rightarrow> s)"
| "service_step stringify s (SE_Refresh_Token r) =
     (if r < length (co_store (rs_coordinator s)) then s\<lparr>rs_coordinator := refreshAccessToken r (rs_coordinator s)\<rparr> else s)"
| "service_step stringify s (SE_Token r epoch result) =
     (if Refreshing r epoch \<in> set (co_tasks (rs_coordinator s))
      then s\<lparr>rs_coordinator := token_read r epoch result (rs_coordinator s)\<rparr> else s)"
| "service_step stringify s (SE_Revoke_Settled n accepted written now) =
     (if n < length (rs_flushes s) then revoke_settled stringify n accepted written now s else s)"
| "service_step stringify s (SE_Revoke_Mobile q deviceId) = revokeMobileDevice stringify q deviceId s"
| "service_step stringify s (SE_Revoke_Runtime deviceId) = revokeRuntimeAccess deviceId s"
| "service_step stringify s (SE_Offer q args) = createMobilePairingOffer stringify q args s"
| "service_step stringify s (SE_Endpoints now ctx i r) = getEndpoints now ctx i r s"
| "service_step stringify s (SE_Provision now ctx params) = provisionRelay now ctx params s"
| "service_step stringify s (SE_Op_Broker q n endpoint) =
     (if n < length (rs_ops s) \<and> ot_phase (rs_ops s ! n) = Wait_Broker then op_broker stringify q n endpoint s else s)"
| "service_step stringify s (SE_Op_Reply now n reply) = (if n < length (rs_ops s) then op_reply now n reply s else s)"
| "service_step stringify s (SE_Seen now deviceId) = s\<lparr>rs_registry := updateLastSeen now deviceId (rs_registry s)\<rparr>"

definition service_run :: "(json \<Rightarrow> 'text) \<Rightarrow> 'text relay_service \<Rightarrow> service_event list \<Rightarrow> 'text relay_service" where
  "service_run stringify s es = foldl (service_step stringify) s es"

section \<open>What the helpers leave alone\<close>

lemma refreshDemand_frame [simp]:
  "rs_relayHostId (refreshDemand now s) = rs_relayHostId s" "rs_registry (refreshDemand now s) = rs_registry s"
  "rs_outbox (refreshDemand now s) = rs_outbox s" "rs_ledger (refreshDemand now s) = rs_ledger s"
  "rs_stopped (refreshDemand now s) = rs_stopped s" "rs_provider (refreshDemand now s) = rs_provider s"
  "rs_flushes (refreshDemand now s) = rs_flushes s" "rs_ops (refreshDemand now s) = rs_ops s"
  "rs_trace (refreshDemand now s) = rs_trace s"
  by (simp_all add: refreshDemand_def)

lemma onDemandStateChanged_frame [simp]:
  "rs_relayHostId (onDemandStateChanged now s) = rs_relayHostId s" "rs_registry (onDemandStateChanged now s) = rs_registry s"
  "rs_outbox (onDemandStateChanged now s) = rs_outbox s" "rs_ledger (onDemandStateChanged now s) = rs_ledger s"
  "rs_flushes (onDemandStateChanged now s) = rs_flushes s" "rs_ops (onDemandStateChanged now s) = rs_ops s"
  "rs_trace (onDemandStateChanged now s) = rs_trace s"
  by (simp_all add: onDemandStateChanged_def)

lemma emit_frame [simp]:
  "rs_relayHostId (emit e s) = rs_relayHostId s" "rs_registry (emit e s) = rs_registry s" "rs_outbox (emit e s) = rs_outbox s"
  "rs_ledger (emit e s) = rs_ledger s" "rs_coordinator (emit e s) = rs_coordinator s" "rs_stopped (emit e s) = rs_stopped s"
  "rs_provider (emit e s) = rs_provider s" "rs_flushes (emit e s) = rs_flushes s" "rs_ops (emit e s) = rs_ops s"
  "rs_trace (emit e s) = rs_trace s @ [e]"
  by (simp_all add: emit_def)

lemma flush_frame [simp]:
  "rs_relayHostId (flush b items s) = rs_relayHostId s" "rs_registry (flush b items s) = rs_registry s"
  "rs_outbox (flush b items s) = rs_outbox s" "rs_ledger (flush b items s) = rs_ledger s"
  "rs_coordinator (flush b items s) = rs_coordinator s" "rs_stopped (flush b items s) = rs_stopped s"
  "rs_provider (flush b items s) = rs_provider s" "rs_ops (flush b items s) = rs_ops s"
  "rs_flushes (flush b items s) = rs_flushes s @ (if items = [] then [] else [(b, items)])"
  "rs_trace (flush b items s) = rs_trace s @ (if items = [] then [] else [SV_Revoke b (hd items)])"
  by (auto simp: flush_def split: list.split)

lemma onDeviceRevokeQueued_frame [simp]:
  "rs_relayHostId (onDeviceRevokeQueued now i s) = rs_relayHostId s" "rs_registry (onDeviceRevokeQueued now i s) = rs_registry s"
  "rs_outbox (onDeviceRevokeQueued now i s) = rs_outbox s" "rs_ledger (onDeviceRevokeQueued now i s) = rs_ledger s"
  "rs_provider (onDeviceRevokeQueued now i s) = rs_provider s" "rs_ops (onDeviceRevokeQueued now i s) = rs_ops s"
  by (auto simp: onDeviceRevokeQueued_def Let_def split: option.split)

lemma op_phase_frame [simp]:
  "rs_relayHostId (set_op_phase n ph s) = rs_relayHostId s" "rs_registry (set_op_phase n ph s) = rs_registry s"
  "rs_outbox (set_op_phase n ph s) = rs_outbox s" "rs_ledger (set_op_phase n ph s) = rs_ledger s"
  "rs_coordinator (set_op_phase n ph s) = rs_coordinator s" "rs_flushes (set_op_phase n ph s) = rs_flushes s"
  "rs_trace (set_op_phase n ph s) = rs_trace s"
  by (simp_all add: set_op_phase_def)

lemma begin_op_frame [simp]:
  "rs_relayHostId (begin_op now op s) = rs_relayHostId s" "rs_registry (begin_op now op s) = rs_registry s"
  "rs_outbox (begin_op now op s) = rs_outbox s" "rs_flushes (begin_op now op s) = rs_flushes s"
  "rs_trace (begin_op now op s) = rs_trace s"
  by (simp_all add: begin_op_def Let_def split_beta)

lemma end_op_frame [simp]:
  "rs_relayHostId (end_op now n s) = rs_relayHostId s" "rs_registry (end_op now n s) = rs_registry s"
  "rs_outbox (end_op now n s) = rs_outbox s" "rs_flushes (end_op now n s) = rs_flushes s"
  "rs_trace (end_op now n s) = rs_trace s"
  by (simp_all add: end_op_def without_op_def)

lemma queue_frame [simp]:
  "rs_relayHostId (fst (queueRelayDeviceRevoke f q b s)) = rs_relayHostId s"
  "rs_registry (fst (queueRelayDeviceRevoke f q b s)) = rs_registry s"
  "rs_outbox (fst (queueRelayDeviceRevoke f q b s)) = fst (outbox_enqueue f (qd_written q) (qd_uuid q) (qd_now q) b (rs_outbox s))"
  "rs_ledger (fst (queueRelayDeviceRevoke f q b s)) = rs_ledger s"
  "rs_ops (fst (queueRelayDeviceRevoke f q b s)) = rs_ops s"
  by (auto simp: queueRelayDeviceRevoke_def Let_def split_beta split: option.split)

section \<open>The coordinator inside the service\<close>

lemma reachable_refresh: "coord_reachable (rs_coordinator s) \<Longrightarrow> coord_reachable (rs_coordinator (refreshDemand now s))"
  by (auto simp: refreshDemand_def intro: coord_reachable.Step coord_step.Reconcile)

lemma reachable_helpers:
  assumes "coord_reachable (rs_coordinator s)"
  shows "coord_reachable (rs_coordinator (onDemandStateChanged now s))"
    "coord_reachable (rs_coordinator (onDeviceRevokeQueued now i s))"
    "coord_reachable (rs_coordinator (begin_op now op s))"
    "coord_reachable (rs_coordinator (end_op now n s))"
  using assms
  by (auto simp: onDemandStateChanged_def onDeviceRevokeQueued_def begin_op_def end_op_def without_op_def Let_def split_beta
      intro!: reachable_refresh split: option.split)

lemma reachable_queue:
  "coord_reachable (rs_coordinator s) \<Longrightarrow> coord_reachable (rs_coordinator (fst (queueRelayDeviceRevoke f q b s)))"
  by (auto simp: queueRelayDeviceRevoke_def Let_def split_beta intro!: reachable_helpers split: option.split)

lemma reachable_bind:
  "coord_reachable (rs_coordinator s) \<Longrightarrow> coord_reachable (rs_coordinator (fst (setMobileRelayBinding f q d b s)))"
  by (auto simp: setMobileRelayBinding_def Let_def split_beta intro!: reachable_helpers reachable_queue split: option.split)

lemma reachable_ops:
  assumes "coord_reachable (rs_coordinator s)"
  shows "coord_reachable (rs_coordinator (op_broker f q n endpoint s))"
    "coord_reachable (rs_coordinator (op_reply now n reply s))"
  using assms
  by (auto simp: op_broker_def endpoints_broker_def endpoints_confirm_def provision_broker_def op_reply_def pairing_reply_def Let_def
      split_beta intro!: reachable_helpers reachable_refresh reachable_bind
      split: service_op.split op_phase.split option.split transport_metadata.split sum.split bool.split)

lemma reachable_service_step:
  assumes "coord_reachable (rs_coordinator s)"
  shows "coord_reachable (rs_coordinator (service_step f s e))"
proof (cases e)
  case (SE_Context epoch result now)
  then show ?thesis using assms by (auto intro: coord_reachable.Step coord_step.Context)
next
  case (SE_Opened epoch r result)
  have "coord_reachable (broker_opened epoch r result (rs_coordinator s))"
    if "Opening_Broker epoch r \<in> set (co_tasks (rs_coordinator s))" "case result of Some b \<Rightarrow> b \<notin> fst ` set (co_opened (rs_coordinator s)) | None \<Rightarrow> True"
    using assms that by (cases result) (auto intro: coord_reachable.Step coord_step.Opened coord_step.Open_Failed)
  moreover have "rs_coordinator (case result of Some b \<Rightarrow> flushRevokeOutbox b k s | None \<Rightarrow> s) = rs_coordinator s" for k
    by (simp add: flushRevokeOutbox_def split: option.split)
  ultimately show ?thesis using SE_Opened assms by (simp add: service_opened_def Let_def)
next
  case (SE_Revoke_Settled n accepted written now)
  then show ?thesis
    using assms by (auto simp: revoke_settled_def Let_def intro!: reachable_refresh split: prod.split list.split)
qed (use assms in \<open>auto simp: service_stop_def revokeMobileDevice_def revokeRuntimeAccess_def createMobilePairingOffer_def
      getEndpoints_def provisionRelay_def Let_def split_beta
      intro: coord_reachable.Step coord_step.intros intro!: reachable_refresh reachable_helpers reachable_queue reachable_ops
      split: option.split\<close>)

interpretation service: event_machine "service_step f" "\<lambda>s. coord_reachable (rs_coordinator s)"
  by unfold_locales (rule reachable_service_step)


section \<open>Transient demand lasts as long as the operations\<close>

definition unreleased :: "demand_ledger \<Rightarrow> nat set" where
  "unreleased l = {h. h < length (dl_handles l) \<and> \<not> snd (dl_handles l ! h)}"

definition handles_ok :: "'text relay_service \<Rightarrow> bool" where
  "handles_ok s \<longleftrightarrow> ledger_ok (rs_ledger s) \<and> distinct (map ot_handle (rs_ops s)) \<and>
     set (map ot_handle (rs_ops s)) = unreleased (rs_ledger s)"

lemma handles_cong:
  "rs_ledger t = rs_ledger s \<Longrightarrow> map ot_handle (rs_ops t) = map ot_handle (rs_ops s) \<Longrightarrow> handles_ok t = handles_ok s"
  by (simp only: handles_ok_def)

lemma fst_acquire: "fst (acquireTransient key l) = length (dl_handles l)"
  by (simp add: acquireTransient_def)

lemma unreleased_acquire: "unreleased (snd (acquireTransient key l)) = insert (length (dl_handles l)) (unreleased l)"
  by (auto simp: unreleased_def acquireTransient_def nth_append less_Suc_eq)

lemma unreleased_release: "h \<in> unreleased l \<Longrightarrow> unreleased (release h l) = unreleased l - {h}"
  by (auto simp: unreleased_def release_def Let_def split_beta nth_list_update split: if_splits)

lemma unreleased_empty: "unreleased l = {} \<longleftrightarrow> (\<forall>h \<in> set (dl_handles l). snd h)"
  by (auto simp: unreleased_def all_set_conv_all_nth)

lemma handles_begin: "handles_ok s \<Longrightarrow> handles_ok (begin_op now op s)"
proof -
  assume ok: "handles_ok s"
  have "length (dl_handles (rs_ledger s)) \<notin> unreleased (rs_ledger s)" by (simp add: unreleased_def)
  with ok show ?thesis
    using acquire_ok [of "rs_ledger s" "op_key op"] unreleased_acquire [of "op_key op" "rs_ledger s"]
    by (auto simp: handles_ok_def begin_op_def Let_def split_beta fst_acquire)
qed

lemma take_drop_removed:
  assumes "distinct xs" "n < length xs"
  shows "distinct (take n xs @ drop (Suc n) xs) \<and> set (take n xs @ drop (Suc n) xs) = set xs - {xs ! n}"
proof -
  obtain ys zs where xs: "xs = ys @ xs ! n # zs" "ys = take n xs" "zs = drop (Suc n) xs"
    using assms(2) id_take_nth_drop by blast
  have "distinct (ys @ xs ! n # zs)" using assms(1) xs(1) by argo
  moreover have "set xs = set ys \<union> {xs ! n} \<union> set zs" using arg_cong [OF xs(1), of set] by auto
  ultimately show ?thesis unfolding xs(2,3) [symmetric] by auto
qed

lemma handles_end:
  assumes "handles_ok s" "n < length (rs_ops s)"
  shows "handles_ok (end_op now n s)"
proof -
  let ?hs = "map ot_handle (rs_ops s)"
  have h: "ot_handle (rs_ops s ! n) \<in> unreleased (rs_ledger s)" using assms by (auto simp: handles_ok_def)
  then have "ot_handle (rs_ops s ! n) < length (dl_handles (rs_ledger s))" by (simp add: unreleased_def)
  moreover have "map ot_handle (rs_ops (end_op now n s)) = take n ?hs @ drop (Suc n) ?hs"
    by (simp add: end_op_def without_op_def take_map drop_map)
  moreover have "rs_ledger (end_op now n s) = release (?hs ! n) (rs_ledger s)"
    using assms(2) by (simp add: end_op_def without_op_def)
  ultimately show ?thesis
    using assms h take_drop_removed [of ?hs n] release_ok [of "rs_ledger s" "?hs ! n"] unreleased_release [of "?hs ! n" "rs_ledger s"]
    unfolding handles_ok_def by simp
qed

lemma handles_phase: "n < length (rs_ops s) \<Longrightarrow> handles_ok (set_op_phase n ph s) = handles_ok s"
  by (rule handles_cong) (auto simp: set_op_phase_def map_update list_update_same_conv)

lemma handles_same [simp]:
  "handles_ok (emit e s) = handles_ok s" "handles_ok (refreshDemand now s) = handles_ok s"
  "handles_ok (onDemandStateChanged now s) = handles_ok s" "handles_ok (flush b items s) = handles_ok s"
  "handles_ok (s\<lparr>rs_registry := ds\<rparr>) = handles_ok s" "handles_ok (s\<lparr>rs_outbox := ob\<rparr>) = handles_ok s"
  "handles_ok (s\<lparr>rs_coordinator := c\<rparr>) = handles_ok s" "handles_ok (s\<lparr>rs_flushes := fl\<rparr>) = handles_ok s"
  "handles_ok (s\<lparr>rs_provider := p\<rparr>) = handles_ok s"
  "handles_ok (fst (queueRelayDeviceRevoke f q bnd s)) = handles_ok s"
  by (rule handles_cong; simp)+

lemma bind_frame [simp]:
  "rs_ledger (fst (setMobileRelayBinding f q d b s)) = rs_ledger s" "rs_ops (fst (setMobileRelayBinding f q d b s)) = rs_ops s"
  "rs_relayHostId (fst (setMobileRelayBinding f q d b s)) = rs_relayHostId s"
  by (auto simp: setMobileRelayBinding_def Let_def split_beta split: option.split)

lemma handles_bind [simp]: "handles_ok (fst (setMobileRelayBinding f q d b s)) = handles_ok s"
  by (rule handles_cong) auto

lemma handles_ops:
  assumes "handles_ok s" "n < length (rs_ops s)"
  shows "handles_ok (op_broker f q n endpoint s)" "handles_ok (op_reply now n reply s)"
  using assms
  by (auto simp: op_broker_def endpoints_broker_def endpoints_confirm_def provision_broker_def op_reply_def pairing_reply_def Let_def
      split_beta handles_phase intro!: handles_end
      split: service_op.split op_phase.split option.split transport_metadata.split sum.split bool.split)

lemma handles_step: "handles_ok s \<Longrightarrow> handles_ok (service_step f s e)"
proof (cases e)
  case (SE_Revoke_Settled n accepted written now)
  then show "handles_ok s \<Longrightarrow> ?thesis"
    by (auto simp: revoke_settled_def Let_def split: prod.split list.split)
next
  case SE_Stop
  show "handles_ok s \<Longrightarrow> ?thesis"
    using SE_Stop by (subst handles_cong [of _ s]) (simp_all add: service_stop_def)
qed (auto simp: handles_ops service_opened_def flushRevokeOutbox_def revokeMobileDevice_def revokeRuntimeAccess_def
      createMobilePairingOffer_def getEndpoints_def provisionRelay_def Let_def split_beta intro!: handles_begin split: option.split)

interpretation operations: event_machine "service_step f" handles_ok
  by unfold_locales (rule handles_step)

text \<open>
  Transient demand lasts exactly as long as the operations that take it: after any events, whatever
  answers or failures ended the pairing, endpoint and provisioning calls, the ledger holds a transient reference exactly
  when one of them is still in flight.
\<close>

theorem transient_demand_ends_with_operations:
  "(let s = service_run f (service_new host ds ob) es in dl_transientRefs (rs_ledger s) = [] \<longleftrightarrow> rs_ops s = [])"
proof -
  let ?s = "service_run f (service_new host ds ob) es"
  have new: "handles_ok (service_new host ds ob)"
    using ledger_new_ok by (simp add: handles_ok_def service_new_def ledger_new_def unreleased_def)
  have ok: "handles_ok ?s"
    unfolding service_run_def by (rule operations.run_inv) (rule new)
  have "unreleased (rs_ledger ?s) = {} \<longleftrightarrow> rs_ops ?s = []"
    using ok by (auto simp: handles_ok_def simp flip: set_empty)
  with ok show ?thesis by (simp add: Let_def handles_ok_def refs_empty_iff flip: unreleased_empty)
qed

section \<open>Revocations go to their account\<close>

lemma opened_invalidate [simp]: "co_opened (invalidatePendingOwnerships c) = co_opened c"
proof -
  obtain os where "fold invalidate (co_pendingOwnerships c) c = c\<lparr>co_store := os\<rparr>" using fold_invalidate by blast
  then show ?thesis by (simp add: invalidatePendingOwnerships_def)
qed

lemma opened_simps [simp]:
  "co_opened (onStatus st c) = co_opened c" "co_opened (cancelLinger c) = co_opened c"
  "co_opened (invalidateOwnership c) = co_opened c" "co_opened (scheduleLinger ctx r c) = co_opened c"
  "co_opened (closeNow x c) = co_opened c"
  by (auto simp: onStatus_def cancelLinger_def invalidateOwnership_def scheduleLinger_def closeNow_def invalidate_def split: option.split)

lemma opened_kept [simp]:
  "co_opened (reconcile c) = co_opened c" "co_opened (fenceAndCloseNow c) = co_opened c" "co_opened (coord_stop c) = co_opened c"
  "co_opened (context_read epoch result demand c) = co_opened c" "co_opened (linger_fired r demand c) = co_opened c"
  "co_opened (refreshAccessToken r c) = co_opened c" "co_opened (token_read r epoch token c) = co_opened c"
  by (auto simp: reconcile_def fenceAndCloseNow_def coord_stop_def context_read_def no_demand_def open_new_def linger_fired_def
      refreshAccessToken_def token_read_def Let_def split: option.split)

lemma opened_grows: "set (co_opened (broker_opened epoch r result c)) =
    (case result of Some b \<Rightarrow> {(b, ow_identityKey (co_store c ! r))} | None \<Rightarrow> {}) \<union> set (co_opened c)"
  by (auto simp: broker_opened_def Let_def split: option.split)

text \<open>A revocation that is in flight or was sent, to a broker of the item's owner for this host.\<close>

definition sent_right :: "string \<Rightarrow> coordinator \<Rightarrow> nat \<times> revoke_item list \<Rightarrow> bool" where
  "sent_right host c fl \<longleftrightarrow>
     (\<forall>i \<in> set (snd fl). rb_relayHostId i = host \<and> (fst fl, rb_ownerIdentityKey i) \<in> set (co_opened c))"

fun effect_right :: "string \<Rightarrow> coordinator \<Rightarrow> service_effect \<Rightarrow> bool" where
  "effect_right host c (SV_Revoke b i) \<longleftrightarrow> sent_right host c (b, [i])"
| "effect_right host c _ \<longleftrightarrow> True"

definition revokes_ok :: "'text relay_service \<Rightarrow> bool" where
  "revokes_ok s \<longleftrightarrow> list_all (sent_right (rs_relayHostId s) (rs_coordinator s)) (rs_flushes s) \<and>
     list_all (effect_right (rs_relayHostId s) (rs_coordinator s)) (rs_trace s)"

lemma sent_right_mono:
  "sent_right host c fl \<Longrightarrow> set (co_opened c) \<subseteq> set (co_opened c') \<Longrightarrow> sent_right host c' fl"
  by (auto simp: sent_right_def)

lemma effect_right_mono:
  "effect_right host c e \<Longrightarrow> set (co_opened c) \<subseteq> set (co_opened c') \<Longrightarrow> effect_right host c' e"
  by (cases e) (auto intro: sent_right_mono)

lemma revokes_coordinator:
  "revokes_ok s \<Longrightarrow> set (co_opened (rs_coordinator s)) \<subseteq> set (co_opened c) \<Longrightarrow> revokes_ok (s\<lparr>rs_coordinator := c\<rparr>)"
  by (auto simp: revokes_ok_def list_all_iff intro: sent_right_mono effect_right_mono)

lemma revokes_cong:
  assumes "rs_relayHostId t = rs_relayHostId s" "co_opened (rs_coordinator t) = co_opened (rs_coordinator s)"
    "rs_flushes t = rs_flushes s" "rs_trace t = rs_trace s"
  shows "revokes_ok t = revokes_ok s"
proof -
  have s: "sent_right host (rs_coordinator t) = sent_right host (rs_coordinator s)" for host
    using assms(2) by (simp add: fun_eq_iff sent_right_def)
  have "effect_right host (rs_coordinator t) e = effect_right host (rs_coordinator s) e" for host e
    using s by (cases e) auto
  then show ?thesis using assms s by (simp add: revokes_ok_def list_all_iff)
qed

lemma opened_service [simp]:
  "co_opened (rs_coordinator (refreshDemand now s)) = co_opened (rs_coordinator s)"
  "co_opened (rs_coordinator (onDemandStateChanged now s)) = co_opened (rs_coordinator s)"
  "co_opened (rs_coordinator (onDeviceRevokeQueued now i s)) = co_opened (rs_coordinator s)"
  "co_opened (rs_coordinator (begin_op now op s)) = co_opened (rs_coordinator s)"
  "co_opened (rs_coordinator (end_op now n s)) = co_opened (rs_coordinator s)"
  by (auto simp: refreshDemand_def onDemandStateChanged_def onDeviceRevokeQueued_def begin_op_def end_op_def without_op_def
      Let_def split_beta split: option.split)

lemma revokes_same [simp]:
  "revokes_ok (refreshDemand now s) = revokes_ok s" "revokes_ok (onDemandStateChanged now s) = revokes_ok s"
  "revokes_ok (begin_op now op s) = revokes_ok s" "revokes_ok (end_op now n s) = revokes_ok s"
  "revokes_ok (set_op_phase n ph s) = revokes_ok s" "revokes_ok (s\<lparr>rs_registry := ds\<rparr>) = revokes_ok s"
  "revokes_ok (s\<lparr>rs_outbox := ob\<rparr>) = revokes_ok s" "revokes_ok (s\<lparr>rs_provider := p\<rparr>) = revokes_ok s"
  by (rule revokes_cong; simp)+

lemma revokes_emit [simp]:
  "revokes_ok (emit e s) \<longleftrightarrow> revokes_ok s \<and> effect_right (rs_relayHostId s) (rs_coordinator s) e"
  by (auto simp: revokes_ok_def)

lemma revokes_flush:
  "revokes_ok s \<Longrightarrow> sent_right (rs_relayHostId s) (rs_coordinator s) (b, items) \<Longrightarrow> revokes_ok (flush b items s)"
  by (auto simp: revokes_ok_def sent_right_def)

lemma revokes_queued:
  assumes "revokes_ok s"
  shows "revokes_ok (onDeviceRevokeQueued now i s)"
proof -
  let ?s = "refreshDemand now s"
  have "sent_right (rs_relayHostId ?s) (rs_coordinator ?s) (b, [i])"
    if "rs_relayHostId s = rb_relayHostId i" "broker_owner b ?s = Some (rb_ownerIdentityKey i)" for b
    using that by (auto simp: sent_right_def broker_owner_def dest: map_of_SomeD)
  with assms show ?thesis
    by (auto simp: onDeviceRevokeQueued_def Let_def intro!: revokes_flush split: option.split)
qed

lemma revokes_queue: "revokes_ok s \<Longrightarrow> revokes_ok (fst (queueRelayDeviceRevoke f q b s))"
  by (auto simp: queueRelayDeviceRevoke_def Let_def split_beta intro!: revokes_queued split: option.split)

lemma revokes_bind: "revokes_ok s \<Longrightarrow> revokes_ok (fst (setMobileRelayBinding f q d b s))"
  by (auto simp: setMobileRelayBinding_def Let_def split_beta intro!: revokes_queue split: option.split)

lemma revokes_ops:
  assumes "revokes_ok s"
  shows "revokes_ok (op_broker f q n endpoint s)" "revokes_ok (op_reply now n reply s)"
  using assms
  by (auto simp: op_broker_def endpoints_broker_def endpoints_confirm_def provision_broker_def op_reply_def pairing_reply_def Let_def
      split_beta intro!: revokes_bind
      split: service_op.split op_phase.split option.split transport_metadata.split sum.split bool.split)

lemma revokes_opened:
  assumes "revokes_ok s"
  shows "revokes_ok (service_opened epoch r result s)"
proof (cases result)
  case None
  then show ?thesis using assms by (simp add: service_opened_def revokes_coordinator opened_grows)
next
  case (Some b)
  let ?owner = "ow_identityKey (co_store (rs_coordinator s) ! r)"
  let ?c = "broker_opened epoch r (Some b) (rs_coordinator s)"
  have "revokes_ok (s\<lparr>rs_coordinator := ?c\<rparr>)"
    using assms by (rule revokes_coordinator) (auto simp: opened_grows)
  moreover have "sent_right (rs_relayHostId s) ?c (b, pendingFor ?owner (rs_relayHostId s) (rs_outbox s))"
    by (auto simp: sent_right_def pendingFor_def opened_grows)
  ultimately have "revokes_ok (flush b (pendingFor ?owner (rs_relayHostId s) (rs_outbox s)) (s\<lparr>rs_coordinator := ?c\<rparr>))"
    by (intro revokes_flush) auto
  then show ?thesis
    by (subst revokes_cong) (auto simp: Some service_opened_def flushRevokeOutbox_def)
qed

lemma sent_right_refresh:
  "sent_right host (rs_coordinator (refreshDemand now s)) fl = sent_right host (rs_coordinator s) fl"
  by (simp add: sent_right_def)

lemma revokes_settled:
  assumes "revokes_ok s" "n < length (rs_flushes s)"
  shows "revokes_ok (revoke_settled f n accepted written now s)"
proof -
  let ?s = "s\<lparr>rs_flushes := take n (rs_flushes s) @ drop (Suc n) (rs_flushes s)\<rparr>"
  have all: "list_all (sent_right (rs_relayHostId s) (rs_coordinator s)) (rs_flushes s)" using assms(1) by (simp add: revokes_ok_def)
  then have "sent_right (rs_relayHostId s) (rs_coordinator s) (rs_flushes s ! n)" using assms(2) by (simp add: list_all_length)
  then have rest: "sent_right (rs_relayHostId s) (rs_coordinator s) (b, rest)" if "rs_flushes s ! n = (b, i # rest)" for b i rest
    using that by (simp add: sent_right_def)
  have "revokes_ok ?s"
    using assms(1) all by (auto simp: revokes_ok_def list_all_iff dest: in_set_takeD in_set_dropD)
  moreover obtain b items where fl: "rs_flushes s ! n = (b, items)" by fastforce
  ultimately show ?thesis
    using assms(1) rest
    by (cases items) (auto simp: revoke_settled_def fl Let_def sent_right_refresh intro!: revokes_flush)
qed

lemma revokes_step:
  assumes "revokes_ok s"
  shows "revokes_ok (service_step f s e)"
proof (cases e)
  case SE_Stop
  have "revokes_ok (service_stop s) = revokes_ok s" by (rule revokes_cong) (simp_all add: service_stop_def)
  with SE_Stop assms show ?thesis by simp
next
  case (SE_Offer q args)
  then show ?thesis
    using assms by (auto simp: createMobilePairingOffer_def Let_def split_beta intro!: revokes_queue split: option.split)
qed (use assms in \<open>auto simp: revokeMobileDevice_def revokeRuntimeAccess_def getEndpoints_def provisionRelay_def Let_def split_beta
      intro!: revokes_coordinator revokes_queue revokes_ops revokes_opened revokes_settled split: option.split\<close>)

interpretation revokes: event_machine "service_step f" revokes_ok
  by unfold_locales (rule revokes_step)

lemma step_host [simp]: "rs_relayHostId (service_step f s e) = rs_relayHostId s"
  by (cases e) (auto simp: service_stop_def revokeMobileDevice_def revokeRuntimeAccess_def service_opened_def flushRevokeOutbox_def
      createMobilePairingOffer_def getEndpoints_def provisionRelay_def revoke_settled_def op_broker_def endpoints_broker_def
      endpoints_confirm_def provision_broker_def op_reply_def pairing_reply_def Let_def split_beta
      split: option.split list.split service_op.split op_phase.split transport_metadata.split sum.split bool.split)

lemma run_host: "rs_relayHostId (service_run f (service_new host ds ob) es) = host"
proof -
  have "rs_relayHostId (foldl (service_step f) s es) = rs_relayHostId s" for s
    by (induction es arbitrary: s) auto
  then show ?thesis by (simp add: service_run_def service_new_def)
qed

text \<open>
  Property C14. A revocation is only ever sent to the account that owns the credential: after any events, every revocation
  that was sent to a broker went to one that was opened for the owner recorded in the item, and for this host, also when
  accounts were switched while items were queued or in flight.
\<close>

theorem revocations_go_to_their_account:
  "(let s = service_run f (service_new host ds ob) es
    in list_all (\<lambda>e. case e of SV_Revoke b i \<Rightarrow> broker_owner b s = Some (rb_ownerIdentityKey i) \<and> rb_relayHostId i = host | _ \<Rightarrow> True)
         (rs_trace s))"
proof -
  let ?s = "service_run f (service_new host ds ob) es"
  have "revokes_ok ?s"
    unfolding service_run_def by (rule revokes.run_inv) (simp add: revokes_ok_def service_new_def)
  moreover have "coord_reachable (rs_coordinator ?s)"
    unfolding service_run_def by (rule service.run_inv) (simp add: service_new_def coord_reachable.Start)
  then have "distinct (map fst (co_opened (rs_coordinator ?s)))"
    using coord_reachable_inv by (auto simp: coord_inv_def opened_ok_def)
  ultimately show ?thesis
    by (auto simp: Let_def revokes_ok_def list_all_iff sent_right_def broker_owner_def run_host split: service_effect.split)
qed

section \<open>The expiry timer\<close>

lemma node_timeout_bounds:
  assumes "1 \<le> d"
  shows "1 \<le> node_timeout d" "node_timeout d \<le> d"
proof -
  have "(1::int) \<le> \<lfloor>d\<rfloor>" using assms by (simp add: le_floor_iff)
  then have "(1::rat) \<le> of_int \<lfloor>d\<rfloor>" by linarith
  then show "1 \<le> node_timeout d" "node_timeout d \<le> d"
    using assms by (auto simp: node_timeout_def)
qed

lemma expiry_delay_bounds: "num_gt e now \<Longrightarrow> 1 \<le> expiry_delay now e \<and> (now + expiry_delay now e \<le> t + 1 \<or> num_gt e t)"
proof (cases e)
  case (Fin x)
  assume "num_gt e now"
  with Fin have "max 1 (x - now + 1) = x - now + 1" by simp
  then show ?thesis using node_timeout_bounds [of "x - now + 1"] Fin \<open>num_gt e now\<close> by (cases "x \<le> t") auto
qed auto

text \<open>
  The expiry timer wakes the service in time. After \<open>refreshDemand\<close> the demand of every identity stays
  what it was when the coordinator was told to look at it, for ever when no timer is set, and otherwise until the
  millisecond in which the timer fires, which lies in the future; the timer then refreshes again.
\<close>

theorem refresh_timer_covers_demand:
  assumes "0 \<le> now" "\<not> rs_stopped s" "now \<le> t"
    "case rs_demandExpiryTimer (refreshDemand now s) of None \<Rightarrow> True | Some due \<Rightarrow> t + 1 < due"
  shows "service_hasDemand t identity (refreshDemand now s) = service_hasDemand now identity (refreshDemand now s) \<and>
    (\<forall>due. rs_demandExpiryTimer (refreshDemand now s) = Some due \<longrightarrow> now < due)"
proof -
  let ?next = "nextPendingExpiry now (rs_registry s)"
  have due: "rs_demandExpiryTimer (refreshDemand now s) = map_option (\<lambda>e. now + expiry_delay now e) ?next"
    using assms(2) by (simp add: refreshDemand_def)
  have future: "?next = Some e \<Longrightarrow> num_gt e now" for e
    using nextPendingExpiry_least [OF assms(1), of "rs_registry s"] by (auto simp: least_expiry_def in_pending_expiries)
  have "case ?next of None \<Rightarrow> True | Some x \<Rightarrow> num_gt x t"
  proof (cases ?next)
    case (Some e)
    then have "t + 1 < now + expiry_delay now e" using assms(4) due by simp
    with Some show ?thesis using expiry_delay_bounds [OF future [OF Some], of t] by auto
  qed simp
  then have "device_demand t owner host d = device_demand now owner host d" if "d \<in> set (rs_registry s)" for owner host d
    using device_demand_until [OF assms(3,1) that] by simp
  then have "service_hasDemand t identity (refreshDemand now s) = service_hasDemand now identity (refreshDemand now s)"
    by (auto simp: service_hasDemand_def hasDemand_def)
  moreover have "now < now + expiry_delay now e" if "?next = Some e" for e
    using expiry_delay_bounds [OF future [OF that], of t] by linarith
  ultimately show ?thesis using due by auto
qed

theorem refresh_timer_covers_demand_witness:
  "(let s = refreshDemand 10 (service_new ''host'' [sample_device ''a'' 30, sample_device ''b'' 20] (outbox_new Some True None))
    in rs_demandExpiryTimer s = Some 21 \<and>
       service_hasDemand 19 \<lparr>ai_userId = ''u'', ai_profileId = ''p'', ai_organizationId = ''o''\<rparr> s =
       service_hasDemand 10 \<lparr>ai_userId = ''u'', ai_profileId = ''p'', ai_organizationId = ''o''\<rparr> s)"
proof -
  let ?s = "service_new ''host'' [sample_device ''a'' 30, sample_device ''b'' 20] (outbox_new Some True None)"
  have due: "rs_demandExpiryTimer (refreshDemand 10 ?s) = Some 21"
    by (simp add: refreshDemand_def service_new_def nextPendingExpiry_def consider_expiry_def sample_device_def sample_binding_def node_timeout_def)
  have "\<not> rs_stopped ?s" by (simp add: service_new_def)
  from refresh_timer_covers_demand [OF _ this, of 10 19] due show ?thesis by (simp add: Let_def)
qed

end
