(* ===== verification/Relay_Credentials.thy ===== *)
theory Relay_Credentials
  imports Relay_Service
begin

text \<open>
  What becomes of the relay credentials of paired devices. A device that is bound to a relay host has a
  credential family in the account that owns the binding; when the device gives the binding up, by being revoked, rotated or
  bound to another account, the family has to be revoked there. The theory follows every such credential, named by
  host, device and owner, through the runs of \<open>Relay_Service\<close>: it is bound, or queued for revocation, or revoked.
\<close>

section \<open>Relay credentials are never stranded\<close>

definition binding_key :: "('a relay_binding_scheme) \<Rightarrow> string \<times> string \<times> string" where
  "binding_key b = (rb_relayHostId b, rb_relayDeviceId b, rb_ownerIdentityKey b)"

definition device_key :: "device_entry \<Rightarrow> (string \<times> string \<times> string) set" where
  "device_key d = (case de_relayBinding d of Some b \<Rightarrow> {binding_key b} | None \<Rightarrow> {})"

text \<open>The credentials that devices hold, and what becomes of them when the registry changes.\<close>

definition bound_keys :: "registry \<Rightarrow> (string \<times> string \<times> string) set" where
  "bound_keys ds = (\<Union>d \<in> set ds. device_key d)"

definition registry_ok :: "registry \<Rightarrow> bool" where
  "registry_ok ds \<longleftrightarrow> registry_wf ds \<and> length (filter (pending Scope_Mobile) ds) \<le> 1 \<and>
     (\<forall>d \<in> set ds. de_scope d = Scope_Runtime \<longrightarrow> de_relayBinding d = None)"

definition scopes_of :: "registry \<Rightarrow> (string \<times> device_scope) set" where
  "scopes_of ds = (\<lambda>d. (de_deviceId d, de_scope d)) ` set ds"

lemma item_key_binding: "item_key i = binding_key i"
  by (simp add: item_key_def binding_key_def)

lemma getDevice_SomeD: "getDevice i ds = Some d \<Longrightarrow> d \<in> set ds \<and> de_deviceId d = i"
  by (auto simp: getDevice_def find_Some_iff)

lemma getDevice_unique: "registry_wf ds \<Longrightarrow> d \<in> set ds \<Longrightarrow> getDevice (de_deviceId d) ds = Some d"
proof -
  assume wf: "registry_wf ds" and d: "d \<in> set ds"
  then obtain x where x: "getDevice (de_deviceId d) ds = Some x"
    by (cases "getDevice (de_deviceId d) ds") (auto simp: getDevice_def find_None_iff)
  moreover have "x = d"
    using getDevice_SomeD [OF x] wf d by (auto simp: registry_wf_def distinct_map dest: inj_onD)
  ultimately show ?thesis by simp
qed

lemma set_update_first_unique:
  assumes "distinct xs" "d \<in> set xs" "P d" "\<And>x. x \<in> set xs \<Longrightarrow> P x \<Longrightarrow> x = d"
  shows "set (update_first P g xs) = insert (g d) (set xs - {d})"
  using assms
proof (induction xs)
  case (Cons x xs)
  show ?case
  proof (cases "P x")
    case True
    then have "x = d" using Cons.prems(4) by simp
    then show ?thesis using Cons.prems(1,3) by auto
  next
    case False
    then have "x \<noteq> d" "d \<in> set xs" using Cons.prems(2,3) by auto
    moreover have "set (update_first P g xs) = insert (g d) (set xs - {d})"
    proof (rule Cons.IH)
      show "distinct xs" using Cons.prems(1) by simp
      show "d \<in> set xs" "P d" by fact+
      show "y = d" if "y \<in> set xs" "P y" for y
        by (rule Cons.prems(4)) (use that in simp_all)
    qed
    ultimately show ?thesis using False by auto
  qed
qed simp

lemma update_first_keys:
  assumes "registry_wf ds" "getDevice i ds = Some d"
  shows "set (update_first (\<lambda>d. de_deviceId d = i) g ds) = insert (g d) (set ds - {d})"
proof (rule set_update_first_unique)
  show "distinct ds" using assms(1) by (simp add: registry_wf_def distinct_map)
  show "d \<in> set ds" "de_deviceId d = i" using getDevice_SomeD [OF assms(2)] by auto
  show "x = d" if "x \<in> set ds" "de_deviceId x = i" for x
    using getDevice_unique [OF assms(1) that(1)] that(2) assms(2) by simp
qed

lemma update_first_pending:
  "(\<And>d. P d \<Longrightarrow> pending Scope_Mobile (g d) \<Longrightarrow> pending Scope_Mobile d) \<Longrightarrow>
     length (filter (pending Scope_Mobile) (update_first P g ds)) \<le> length (filter (pending Scope_Mobile) ds)"
  by (induction ds) auto

lemma setRelayBinding_registry:
  assumes ok: "registry_ok ds" and set: "setRelayBinding i b ds = (True, ds')" and dev: "getDevice i ds = Some d" "de_scope d = Scope_Mobile"
  shows "registry_ok ds'" "bound_keys ds \<subseteq> bound_keys ds' \<union> device_key d" "binding_key b \<in> bound_keys ds'" "scopes_of ds' = scopes_of ds"
proof -
  have wf: "registry_wf ds" using ok by (simp add: registry_ok_def)
  have ds': "ds' = update_first (\<lambda>d. de_deviceId d = i) (\<lambda>d. d\<lparr>de_relayBinding := Some b\<rparr>) ds" "rb_relayDeviceId b = i"
    using set by (auto simp: setRelayBinding_def split: if_splits)
  have elems: "set ds' = insert (d\<lparr>de_relayBinding := Some b\<rparr>) (set ds - {d})"
    unfolding ds'(1) by (rule update_first_keys [OF wf dev(1)])
  have d: "d \<in> set ds" using getDevice_SomeD [OF dev(1)] by simp
  have "registry_wf ds'"
    using registry_apply_wf [OF wf, of "RE_Bind i b"] set by (simp add: draws_fresh_def)
  moreover have "length (filter (pending Scope_Mobile) ds') \<le> 1"
  proof -
    have "length (filter (pending Scope_Mobile) ds') \<le> length (filter (pending Scope_Mobile) ds)"
      unfolding ds'(1) by (rule update_first_pending) (simp add: pending_def)
    then show ?thesis using ok by (simp add: registry_ok_def)
  qed
  ultimately show "registry_ok ds'" using ok dev(2) elems by (auto simp: registry_ok_def)
  show "bound_keys ds \<subseteq> bound_keys ds' \<union> device_key d" "binding_key b \<in> bound_keys ds'"
    unfolding bound_keys_def elems by (auto simp: device_key_def)
  show "scopes_of ds' = scopes_of ds" unfolding scopes_of_def elems using d by (auto simp: image_iff)
qed

lemma removeDevice_registry:
  assumes "registry_ok ds" "removeDevice i ds = (r, ds')" "getDevice i ds = Some d"
  shows "registry_ok ds'" "bound_keys ds \<subseteq> bound_keys ds' \<union> device_key d" "scopes_of ds' \<subseteq> scopes_of ds"
proof -
  have ds': "ds' = filter (\<lambda>d. de_deviceId d \<noteq> i) ds" using assms(2) by (simp add: removeDevice_def Let_def)
  have "length (filter (pending Scope_Mobile) ds') \<le> length (filter (pending Scope_Mobile) ds)"
    unfolding ds' by (induction ds) auto
  then show "registry_ok ds'" using assms(1) by (auto simp: registry_ok_def ds' filter_wf)
  have "d' = d" if "d' \<in> set ds" "de_deviceId d' = i" for d'
    using that getDevice_unique [of ds d'] assms(1,3) by (simp add: registry_ok_def)
  then show "bound_keys ds \<subseteq> bound_keys ds' \<union> device_key d" by (auto simp: bound_keys_def ds')
  show "scopes_of ds' \<subseteq> scopes_of ds" by (auto simp: scopes_of_def ds')
qed

lemma addDevice_elems: "set (snd (addDevice f n sc ds)) = insert (fst (addDevice f n sc ds)) (set ds)"
  "de_relayBinding (fst (addDevice f n sc ds)) = None" "de_scope (fst (addDevice f n sc ds)) = sc"
  by (simp_all add: addDevice_def Let_def)

lemma none_pending: "find (pending Scope_Mobile) ds = None \<Longrightarrow> filter (pending Scope_Mobile) ds = []"
  by (auto simp: find_None_iff filter_empty_conv)

lemma one_pending:
  assumes "length (filter (pending Scope_Mobile) ds) \<le> 1" "d \<in> set ds" "pending Scope_Mobile d"
  shows "getPendingDevice Scope_Mobile ds = Some d"
proof -
  have "d \<in> set (filter (pending Scope_Mobile) ds)" using assms(2,3) by simp
  then have f: "filter (pending Scope_Mobile) ds = [d]"
    using assms(1) by (cases "filter (pending Scope_Mobile) ds") (auto simp: le_Suc_eq)
  obtain x where x: "find (pending Scope_Mobile) ds = Some x"
    using assms(2,3) by (cases "find (pending Scope_Mobile) ds") (auto simp: find_None_iff)
  then have "x \<in> set (filter (pending Scope_Mobile) ds)" by (auto simp: find_Some_iff)
  with f x show ?thesis by (simp add: getPendingDevice_def)
qed

text \<open>The draws of a new device are fresh.\<close>

definition fresh_for :: "registry \<Rightarrow> fresh_device \<Rightarrow> bool" where
  "fresh_for ds f \<longleftrightarrow> fd_uuid f \<notin> de_deviceId ` set ds \<and> fd_token f \<notin> de_token ` set ds"

lemma addDevice_registry:
  assumes "registry_ok ds" "fresh_for ds f" "filter (pending Scope_Mobile) ds = []"
  shows "registry_ok (snd (addDevice f n Scope_Mobile ds))" "bound_keys (snd (addDevice f n Scope_Mobile ds)) = bound_keys ds"
    "scopes_of (snd (addDevice f n Scope_Mobile ds)) = insert (fd_uuid f, Scope_Mobile) (scopes_of ds)"
proof -
  have "length (filter (pending Scope_Mobile) (snd (addDevice f n Scope_Mobile ds))) \<le> 1"
    using assms(3) by (simp add: addDevice_def Let_def)
  moreover have "registry_wf (snd (addDevice f n Scope_Mobile ds))"
    using assms(1,2) by (auto simp: registry_ok_def fresh_for_def intro: addDevice_wf)
  ultimately show "registry_ok (snd (addDevice f n Scope_Mobile ds))"
    using assms(1) by (auto simp: registry_ok_def addDevice_elems)
  show "bound_keys (snd (addDevice f n Scope_Mobile ds)) = bound_keys ds"
    by (simp add: bound_keys_def addDevice_elems device_key_def)
  show "scopes_of (snd (addDevice f n Scope_Mobile ds)) = insert (fd_uuid f, Scope_Mobile) (scopes_of ds)"
    by (auto simp: scopes_of_def addDevice_def Let_def)
qed

lemma getOrCreate_registry:
  assumes "registry_ok ds" "fresh_for ds f" "getOrCreatePendingDevice f n Scope_Mobile ds = (device, ds')"
  shows "registry_ok ds' \<and> bound_keys ds' = bound_keys ds \<and> scopes_of ds' \<subseteq> scopes_of ds \<union> UNIV \<times> {Scope_Mobile} \<and>
    device \<in> set ds' \<and> de_scope device = Scope_Mobile"
proof (cases "find (pending Scope_Mobile) ds")
  case None
  note new = addDevice_registry [OF assms(1,2) none_pending [OF None], of n]
  have "addDevice f n Scope_Mobile ds = (device, ds')" using assms(3) None by (simp add: getOrCreatePendingDevice_def)
  then show ?thesis using new addDevice_elems [of f n Scope_Mobile ds] by auto
next
  case (Some d)
  then have "d \<in> set ds" "de_scope d = Scope_Mobile" by (auto simp: find_Some_iff pending_def)
  moreover have "device = d" "ds' = ds" using Some assms(3) by (simp_all add: getOrCreatePendingDevice_def)
  ultimately show ?thesis using assms(1) by simp
qed

lemma rotate_registry:
  assumes "registry_ok ds" "fresh_for ds f" "rotatePendingDevice f n Scope_Mobile ds = (device, ds')"
  shows "registry_ok ds'" "bound_keys ds \<subseteq> bound_keys ds' \<union> (case getPendingDevice Scope_Mobile ds of Some d \<Rightarrow> device_key d | None \<Rightarrow> {})"
    "scopes_of ds' \<subseteq> scopes_of ds \<union> UNIV \<times> {Scope_Mobile}" "device \<in> set ds'" "de_scope device = Scope_Mobile"
proof -
  let ?kept = "filter (\<lambda>d. de_lastSeenAt d \<noteq> 0 \<or> de_scope d \<noteq> Scope_Mobile) ds"
  have none: "filter (pending Scope_Mobile) ?kept = []" by (auto simp: filter_empty_conv pending_def)
  have kept: "registry_ok ?kept" using assms(1) none by (auto simp: registry_ok_def filter_wf)
  have "fresh_for ?kept f" using assms(2) by (auto simp: fresh_for_def)
  note new = addDevice_registry [OF kept this none, of n]
  have add: "addDevice f n Scope_Mobile ?kept = (device, ds')" using assms(3) by (simp add: rotatePendingDevice_def)
  have gone: "d \<in> set ?kept \<or> getPendingDevice Scope_Mobile ds = Some d" if "d \<in> set ds" for d
  proof (cases "pending Scope_Mobile d")
    case True
    then show ?thesis using that assms(1) one_pending [of ds d] by (simp add: registry_ok_def)
  qed (use that in \<open>auto simp: pending_def\<close>)
  show "registry_ok ds'" "device \<in> set ds'" "de_scope device = Scope_Mobile"
    using new addDevice_elems [of f n Scope_Mobile ?kept] add by auto
  have "scopes_of ?kept \<subseteq> scopes_of ds" by (auto simp: scopes_of_def)
  then show "scopes_of ds' \<subseteq> scopes_of ds \<union> UNIV \<times> {Scope_Mobile}" using new add by auto
  have "bound_keys ds' = bound_keys ?kept" using new(2) add by simp
  moreover have "bound_keys ds \<subseteq> bound_keys ?kept \<union> (case getPendingDevice Scope_Mobile ds of Some d \<Rightarrow> device_key d | None \<Rightarrow> {})"
    using gone unfolding bound_keys_def by fastforce
  ultimately show "bound_keys ds \<subseteq> bound_keys ds' \<union> (case getPendingDevice Scope_Mobile ds of Some d \<Rightarrow> device_key d | None \<Rightarrow> {})"
    by simp
qed

text \<open>Updates of a field other than the binding.\<close>

lemma field_update_registry:
  fixes i
  assumes ok: "registry_ok ds"
    and g: "\<And>d. de_deviceId (g d) = de_deviceId d \<and> de_token (g d) = de_token d \<and> de_relayBinding (g d) = de_relayBinding d \<and> de_scope (g d) = de_scope d"
    and p: "\<And>d. pending Scope_Mobile (g d) \<Longrightarrow> pending Scope_Mobile d"
  defines "ds' \<equiv> update_first (\<lambda>d. de_deviceId d = i) g ds"
  shows "registry_ok ds'" "bound_keys ds' = bound_keys ds" "scopes_of ds' = scopes_of ds"
proof -
  have "registry_wf ds'"
    unfolding ds'_def using ok g by (auto simp: registry_ok_def intro!: update_first_wf)
  moreover have "length (filter (pending Scope_Mobile) ds') \<le> length (filter (pending Scope_Mobile) ds)"
    unfolding ds'_def by (rule update_first_pending) (rule p)
  moreover have m: "map (\<lambda>d. (de_deviceId d, de_scope d)) ds' = map (\<lambda>d. (de_deviceId d, de_scope d)) ds"
    "map device_key ds' = map device_key ds" "map (\<lambda>d. (de_scope d, de_relayBinding d)) ds' = map (\<lambda>d. (de_scope d, de_relayBinding d)) ds"
    unfolding ds'_def by (rule map_update_first, simp add: g device_key_def)+
  moreover have "(\<forall>d \<in> set ds'. de_scope d = Scope_Runtime \<longrightarrow> de_relayBinding d = None)"
    using ok arg_cong [OF m(3), of set] by (force simp: registry_ok_def)
  ultimately show "registry_ok ds'" using ok by (simp add: registry_ok_def)
  show "bound_keys ds' = bound_keys ds" using arg_cong [OF m(2), of set] by (simp add: bound_keys_def)
  show "scopes_of ds' = scopes_of ds" using arg_cong [OF m(1), of set] by (simp add: scopes_of_def)
qed

section \<open>Runs of the service\<close>

fun revoked_key :: "service_effect \<Rightarrow> (string \<times> string \<times> string) set" where
  "revoked_key (SV_Revoked host device owner) = {(host, device, owner)}"
| "revoked_key _ = {}"

definition held_keys :: "'text relay_service \<Rightarrow> (string \<times> string \<times> string) set" where
  "held_keys s = bound_keys (rs_registry s) \<union> item_key ` set (ob_items (rs_outbox s)) \<union> (\<Union>e \<in> set (rs_trace s). revoked_key e)"

definition known_items :: "'text relay_service \<Rightarrow> revoke_item set" where
  "known_items s = set (ob_items (rs_outbox s)) \<union> (\<Union>fl \<in> set (rs_flushes s). set (snd fl))"

text \<open>Request ids name one credential each, and pairings in flight are for mobile devices.\<close>

definition requests_ok :: "'text relay_service \<Rightarrow> bool" where
  "requests_ok s \<longleftrightarrow> (\<forall>i \<in> known_items s. \<forall>j \<in> known_items s. ri_reqId i = ri_reqId j \<longrightarrow> item_key i = item_key j)"

fun pairing_ok :: "registry \<Rightarrow> service_op \<Rightarrow> bool" where
  "pairing_ok ds (Op_Pairing i token) \<longleftrightarrow> (i, Scope_Runtime) \<notin> scopes_of ds"
| "pairing_ok ds _ \<longleftrightarrow> True"

definition pairings_ok :: "'text relay_service \<Rightarrow> bool" where
  "pairings_ok s \<longleftrightarrow> (\<forall>op \<in> set (map ot_op (rs_ops s)). pairing_ok (rs_registry s) op)"

definition credentials_ok :: "'text relay_service \<Rightarrow> bool" where
  "credentials_ok s \<longleftrightarrow> registry_ok (rs_registry s) \<and> requests_ok s \<and> pairings_ok s"

definition keeps :: "'text relay_service \<Rightarrow> 'text relay_service \<Rightarrow> bool" where
  "keeps s t \<longleftrightarrow> (credentials_ok s \<longrightarrow> credentials_ok t \<and> held_keys s \<subseteq> held_keys t)"

lemma keeps_refl [simp, intro]: "keeps s s"
  by (simp add: keeps_def)

lemma keeps_trans [trans]: "keeps s t \<Longrightarrow> keeps t u \<Longrightarrow> keeps s u"
  by (auto simp: keeps_def)

lemma keeps_frame:
  assumes "rs_registry t = rs_registry s" "rs_outbox t = rs_outbox s" "known_items t \<subseteq> known_items s"
    "set (map ot_op (rs_ops t)) \<subseteq> set (map ot_op (rs_ops s))" "set (rs_trace s) \<subseteq> set (rs_trace t)"
  shows "keeps s t"
proof -
  have "requests_ok s \<Longrightarrow> requests_ok t" using assms(3) by (auto simp: requests_ok_def)
  moreover have "pairings_ok s \<Longrightarrow> pairings_ok t"
    using assms(1,4) unfolding pairings_ok_def by (metis subsetD)
  ultimately show ?thesis using assms(1,2,5) by (auto simp: keeps_def credentials_ok_def held_keys_def)
qed

lemma known_items_cong: "rs_outbox t = rs_outbox s \<Longrightarrow> rs_flushes t = rs_flushes s \<Longrightarrow> known_items t = known_items s"
  by (simp add: known_items_def)

lemma requests_cong: "known_items t = known_items s \<Longrightarrow> requests_ok t = requests_ok s"
  by (simp only: requests_ok_def)

lemma keeps_simple:
  assumes "rs_registry t = rs_registry s" "rs_outbox t = rs_outbox s" "rs_flushes t = rs_flushes s" "rs_ops t = rs_ops s"
    "set (rs_trace s) \<subseteq> set (rs_trace t)"
  shows "keeps s t"
  using assms by (intro keeps_frame) (simp_all add: known_items_cong [of t s])

lemma keeps_helpers [intro]:
  "keeps s (emit e s)" "keeps s (refreshDemand now s)" "keeps s (onDemandStateChanged now s)"
  "keeps s (s\<lparr>rs_coordinator := c\<rparr>)" "keeps s (s\<lparr>rs_provider := p\<rparr>)" "keeps s (service_stop s)"
  by (rule keeps_simple; simp add: service_stop_def subset_insertI)+

lemma keeps_flush: "set items \<subseteq> known_items s \<Longrightarrow> keeps s (flush b items s)"
  by (rule keeps_frame) (auto simp: known_items_def)

lemma map_op_phase [simp]: "map ot_op (rs_ops (set_op_phase n ph s)) = map ot_op (rs_ops s)"
  by (cases "n < length (rs_ops s)"; rule nth_equalityI) (auto simp: set_op_phase_def nth_list_update list_update_beyond)

lemma keeps_phase: "keeps s (set_op_phase n ph s)"
  by (rule keeps_frame) (simp_all add: known_items_def del: set_map)

lemma keeps_end: "keeps s (end_op now n s)"
proof (rule keeps_frame)
  show "set (map ot_op (rs_ops (end_op now n s))) \<subseteq> set (map ot_op (rs_ops s))"
    by (auto simp: end_op_def without_op_def dest: in_set_takeD in_set_dropD)
qed (auto simp: known_items_def)

lemma rs_ops_begin: "map ot_op (rs_ops (begin_op now op s)) = map ot_op (rs_ops s) @ [op]"
  by (simp add: begin_op_def Let_def split_beta)

lemma keeps_begin:
  assumes "pairing_ok (rs_registry s) op"
  shows "keeps s (begin_op now op s)"
proof -
  have "pairings_ok s \<Longrightarrow> pairings_ok (begin_op now op s)"
    using assms by (simp add: pairings_ok_def rs_ops_begin del: set_map)
  moreover have "requests_ok (begin_op now op s) = requests_ok s"
    by (rule requests_cong) (simp add: known_items_def)
  ultimately show ?thesis
    by (simp add: keeps_def credentials_ok_def held_keys_def)
qed

text \<open>A new request id is one that no known item has.\<close>

definition fresh_request :: "'text relay_service \<Rightarrow> queue_draw \<Rightarrow> bool" where
  "fresh_request s q \<longleftrightarrow> qd_uuid q \<notin> ri_reqId ` known_items s"

lemma enqueue_items:
  fixes f w uuid now b ob
  defines "r \<equiv> outbox_enqueue f w uuid now b ob"
  shows "set (ob_items ob) \<subseteq> set (ob_items (fst r)) \<and>
    (\<forall>i \<in> set (ob_items (fst r)). i \<in> set (ob_items ob) \<or> ri_reqId i = uuid \<and> item_key i = binding_key b) \<and>
    binding_key b \<in> item_key ` set (ob_items (fst r)) \<and>
    (\<forall>i. snd r = Some i \<longrightarrow> i \<in> set (ob_items (fst r)))"
proof (cases "find (same_device b) (ob_items ob)")
  case None
  then show ?thesis
    by (auto simp: r_def outbox_enqueue_def outbox_save_def Let_def item_key_def binding_key_def)
next
  case (Some x)
  then have "x \<in> set (ob_items ob)" "binding_key b = item_key x"
    by (auto simp: find_Some_iff same_device_def item_key_def binding_key_def)
  with Some show ?thesis by (auto simp: r_def outbox_enqueue_def)
qed

lemma keeps_enqueue:
  assumes "fresh_request s q"
  shows "keeps s (s\<lparr>rs_outbox := fst (outbox_enqueue f w (qd_uuid q) now b (rs_outbox s))\<rparr>)"
proof -
  let ?ob = "fst (outbox_enqueue f w (qd_uuid q) now b (rs_outbox s))" and ?s = "s\<lparr>rs_outbox := fst (outbox_enqueue f w (qd_uuid q) now b (rs_outbox s))\<rparr>"
  have known: "i \<in> known_items s \<or> (ri_reqId i = qd_uuid q \<and> item_key i = binding_key b)" if "i \<in> known_items ?s" for i
    using that enqueue_items [of "rs_outbox s" f w "qd_uuid q" now b] by (auto simp: known_items_def)
  have "requests_ok ?s" if "requests_ok s"
    unfolding requests_ok_def
  proof (intro ballI impI)
    fix i j assume ij: "i \<in> known_items ?s" "j \<in> known_items ?s" "ri_reqId i = ri_reqId j"
    show "item_key i = item_key j"
    proof (cases "i \<in> known_items s \<and> j \<in> known_items s")
      case True
      then show ?thesis using that ij(3) by (simp add: requests_ok_def)
    next
      case False
      then have "ri_reqId i = qd_uuid q" using known [OF ij(1)] known [OF ij(2)] ij(3) by auto
      then have "i \<notin> known_items s" "j \<notin> known_items s" using ij(3) assms unfolding fresh_request_def by (metis imageI)+
      then show ?thesis using known [OF ij(1)] known [OF ij(2)] by simp
    qed
  qed
  moreover have "held_keys s \<subseteq> held_keys ?s"
    using enqueue_items [of "rs_outbox s" f w "qd_uuid q" now b] by (auto simp: held_keys_def)
  ultimately show ?thesis by (auto simp: keeps_def credentials_ok_def pairings_ok_def)
qed

lemma keeps_queue:
  assumes "fresh_request s q"
  shows "keeps s (fst (queueRelayDeviceRevoke f q b s))" "binding_key b \<in> item_key ` set (ob_items (rs_outbox (fst (queueRelayDeviceRevoke f q b s))))"
proof -
  let ?r = "outbox_enqueue f (qd_written q) (qd_uuid q) (qd_now q) b (rs_outbox s)"
  let ?s = "s\<lparr>rs_outbox := fst ?r\<rparr>"
  have "keeps ?s (onDeviceRevokeQueued (qd_now q) i ?s)" if "snd ?r = Some i" for i
  proof -
    have i: "i \<in> known_items (refreshDemand (qd_now q) ?s)"
      using enqueue_items [of "rs_outbox s" f "qd_written q" "qd_uuid q" "qd_now q" b] that by (simp add: known_items_def)
    have "keeps ?s (refreshDemand (qd_now q) ?s)" by auto
    moreover have "keeps (refreshDemand (qd_now q) ?s) (flush b' [i] (refreshDemand (qd_now q) ?s))" for b'
      using i by (intro keeps_flush) auto
    ultimately show ?thesis
      by (auto simp: onDeviceRevokeQueued_def Let_def intro: keeps_trans split: option.split)
  qed
  then show "keeps s (fst (queueRelayDeviceRevoke f q b s))"
    using keeps_enqueue [OF assms, of f "qd_written q" "qd_now q" b]
    by (auto simp: queueRelayDeviceRevoke_def Let_def split_beta intro: keeps_trans split: option.split)
  show "binding_key b \<in> item_key ` set (ob_items (rs_outbox (fst (queueRelayDeviceRevoke f q b s))))"
    using enqueue_items [of "rs_outbox s" f "qd_written q" "qd_uuid q" "qd_now q" b] by simp
qed

lemma keeps_registry:
  assumes "registry_ok (rs_registry s) \<Longrightarrow> registry_ok ds"
    and "registry_ok (rs_registry s) \<Longrightarrow> bound_keys (rs_registry s) \<subseteq> bound_keys ds \<union> item_key ` set (ob_items (rs_outbox s))"
    and "registry_ok (rs_registry s) \<Longrightarrow> scopes_of ds \<subseteq> scopes_of (rs_registry s) \<union> UNIV \<times> {Scope_Mobile}"
  shows "keeps s (s\<lparr>rs_registry := ds\<rparr>)"
proof -
  have "registry_ok (rs_registry s) \<Longrightarrow> pairing_ok (rs_registry s) op \<Longrightarrow> pairing_ok ds op" for op
    using assms(3) by (cases op) auto
  then have "registry_ok (rs_registry s) \<Longrightarrow> pairings_ok s \<Longrightarrow> pairings_ok (s\<lparr>rs_registry := ds\<rparr>)" by (simp add: pairings_ok_def)
  moreover have "requests_ok (s\<lparr>rs_registry := ds\<rparr>) = requests_ok s" by (rule requests_cong) (simp add: known_items_def)
  ultimately show ?thesis using assms(1,2) by (auto simp: keeps_def credentials_ok_def held_keys_def)
qed

text \<open>A device's binding is replaced by one of the same account and host, or its credential has been queued.\<close>

lemma keeps_bind_registry:
  assumes "setRelayBinding i b (rs_registry s) = (True, ds)" "getDevice i (rs_registry s) = Some d" "de_scope d = Scope_Mobile"
    and "registry_ok (rs_registry s) \<Longrightarrow> device_key d \<subseteq> insert (binding_key b) (item_key ` set (ob_items (rs_outbox s)))"
  shows "keeps s (s\<lparr>rs_registry := ds\<rparr>)"
proof (rule keeps_registry)
  assume ok: "registry_ok (rs_registry s)"
  note set = setRelayBinding_registry [OF ok assms(1-3)]
  show "registry_ok ds" using set by simp
  show "bound_keys (rs_registry s) \<subseteq> bound_keys ds \<union> item_key ` set (ob_items (rs_outbox s))"
    using set(2,3) assms(4) [OF ok] by auto
next
  have "ds = update_first (\<lambda>d. de_deviceId d = i) (\<lambda>d. d\<lparr>de_relayBinding := Some b\<rparr>) (rs_registry s)"
    using assms(1) by (auto simp: setRelayBinding_def split: if_splits)
  then have "map (\<lambda>d. (de_deviceId d, de_scope d)) ds = map (\<lambda>d. (de_deviceId d, de_scope d)) (rs_registry s)"
    by (simp add: map_update_first)
  then show "scopes_of ds \<subseteq> scopes_of (rs_registry s) \<union> UNIV \<times> {Scope_Mobile}"
    unfolding scopes_of_def by (metis (no_types, lifting) Un_upper1 list.set_map)
qed

lemma device_key_same:
  assumes "registry_ok ds" "getDevice i ds = Some d" "rb_relayDeviceId b = i"
    and "\<forall>old. de_relayBinding d = Some old \<longrightarrow> rb_relayHostId old = rb_relayHostId b \<and> rb_ownerIdentityKey old = rb_ownerIdentityKey b"
  shows "device_key d \<subseteq> {binding_key b}"
  using assms getDevice_SomeD [OF assms(2)]
  by (auto simp: device_key_def binding_key_def registry_ok_def registry_wf_def split: option.splits)

lemma setRelayBinding_True: "setRelayBinding i b ds = (True, ds') \<Longrightarrow> rb_relayDeviceId b = i \<and> getDevice i ds \<noteq> None"
  by (auto simp: setRelayBinding_def split: if_splits)

lemma setRelayBinding_False: "setRelayBinding i b ds = (False, ds') \<Longrightarrow> ds' = ds"
  by (auto simp: setRelayBinding_def split: if_splits)

text \<open>The old binding is queued first when it is of another account or host.\<close>

definition queue_old :: "(json \<Rightarrow> 'text) \<Rightarrow> queue_draw \<Rightarrow> relay_binding \<Rightarrow> device_entry \<Rightarrow> 'text relay_service \<Rightarrow> 'text relay_service \<times> bool" where
  "queue_old f q binding current s =
     (case de_relayBinding current of
        Some old \<Rightarrow>
          (if rb_relayHostId old \<noteq> rb_relayHostId binding \<or> rb_ownerIdentityKey old \<noteq> rb_ownerIdentityKey binding
           then queueRelayDeviceRevoke f q old s else (s, True))
      | None \<Rightarrow> (s, True))"

lemma queue_old_facts:
  assumes "fresh_request s q"
  shows "keeps s (fst (queue_old f q b d s))" "rs_registry (fst (queue_old f q b d s)) = rs_registry s"
    "registry_ok ds \<Longrightarrow> getDevice i ds = Some d \<Longrightarrow> rb_relayDeviceId b = i \<Longrightarrow>
       device_key d \<subseteq> insert (binding_key b) (item_key ` set (ob_items (rs_outbox (fst (queue_old f q b d s)))))"
proof -
  show "keeps s (fst (queue_old f q b d s))" "rs_registry (fst (queue_old f q b d s)) = rs_registry s"
    using keeps_queue(1) [OF assms] by (auto simp: queue_old_def split: option.split)
  assume dev: "registry_ok ds" "getDevice i ds = Some d" "rb_relayDeviceId b = i"
  show "device_key d \<subseteq> insert (binding_key b) (item_key ` set (ob_items (rs_outbox (fst (queue_old f q b d s)))))"
  proof (cases "\<forall>old. de_relayBinding d = Some old \<longrightarrow> rb_relayHostId old = rb_relayHostId b \<and> rb_ownerIdentityKey old = rb_ownerIdentityKey b")
    case True
    show ?thesis by (rule subset_trans [OF device_key_same [OF dev True]]) simp
  next
    case False
    then obtain old where old: "de_relayBinding d = Some old"
      "rb_relayHostId old \<noteq> rb_relayHostId b \<or> rb_ownerIdentityKey old \<noteq> rb_ownerIdentityKey b" by blast
    have "queue_old f q b d s = queueRelayDeviceRevoke f q old s" unfolding queue_old_def old(1) using old(2) by simp
    with old(1) show ?thesis using keeps_queue(2) [OF assms, of old f] by (auto simp: device_key_def)
  qed
qed

lemma keeps_bind:
  assumes "fresh_request s q"
  shows "keeps s (fst (setMobileRelayBinding f q i b s))"
proof (cases "getDevice i (rs_registry s)")
  case None
  then show ?thesis by (simp add: setMobileRelayBinding_def)
next
  case (Some d)
  let ?s = "fst (queue_old f q b d s)" and ?r = "setRelayBinding i b (rs_registry s)"
  note old = queue_old_facts [OF assms, where f = f and b = b and d = d]
  have bind: "keeps ?s (?s\<lparr>rs_registry := snd ?r\<rparr>)" if mobile: "de_scope d = Scope_Mobile"
  proof (cases "fst ?r")
    case True
    then have set: "setRelayBinding i b (rs_registry ?s) = (True, snd ?r)" by (metis old(2) prod.collapse)
    show ?thesis
      using set Some mobile old setRelayBinding_True [OF set] by (intro keeps_bind_registry [where d = d]) auto
  next
    case False
    then have "snd ?r = rs_registry ?s" using setRelayBinding_False old(2) by (metis prod.collapse)
    then show ?thesis by (intro keeps_simple) simp_all
  qed
  have eq: "setMobileRelayBinding f q i b s =
     (if de_scope d \<noteq> Scope_Mobile \<or> getMobilePairingConnectionMode i (rs_registry s) = Some Mode_Local_Only then (s, Some False)
      else if \<not> snd (queue_old f q b d s) then (?s, None)
      else ((if fst ?r then onDemandStateChanged (qd_now q) (?s\<lparr>rs_registry := snd ?r\<rparr>) else ?s\<lparr>rs_registry := snd ?r\<rparr>), Some (fst ?r)))"
    using Some old(2) by (simp add: setMobileRelayBinding_def queue_old_def [symmetric] Let_def split_beta)
  show ?thesis
    unfolding eq using old(1) bind
    by (auto intro: keeps_trans keeps_helpers)
qed

text \<open>
  The events the theorem allows: random draws are new, the clock is past zero, and an invite that arrives for a device
  does not find a binding of another account or host there.
\<close>

definition same_account :: "'text relay_service \<Rightarrow> nat \<Rightarrow> string \<Rightarrow> bool" where
  "same_account s b deviceId \<longleftrightarrow>
     (case getDevice deviceId (rs_registry s) of
        None \<Rightarrow> True
      | Some d \<Rightarrow>
          (case de_relayBinding d of
             None \<Rightarrow> True
           | Some old \<Rightarrow> rb_relayHostId old = rs_relayHostId s \<and>
               rb_ownerIdentityKey old = (case broker_owner b s of Some k \<Rightarrow> k | None \<Rightarrow> [])))"

fun orderly_event :: "'text relay_service \<Rightarrow> service_event \<Rightarrow> bool" where
  "orderly_event s (SE_Revoke_Mobile q deviceId) \<longleftrightarrow> fresh_request s q"
| "orderly_event s (SE_Offer q args) \<longleftrightarrow> fresh_request s q \<and> fresh_for (rs_registry s) (oa_fresh args)"
| "orderly_event s (SE_Op_Broker q n endpoint) \<longleftrightarrow> fresh_request s q"
| "orderly_event s (SE_Op_Reply now n reply) \<longleftrightarrow>
     (case (ot_op (rs_ops s ! n), ot_phase (rs_ops s ! n)) of
        (Op_Pairing deviceId token, Wait_Reply b) \<Rightarrow> same_account s b deviceId | _ \<Rightarrow> True)"
| "orderly_event s (SE_Seen now deviceId) \<longleftrightarrow> now > 0"
| "orderly_event s _ \<longleftrightarrow> True"

text \<open>A confirmed revocation takes its item out of the queue and into the history.\<close>

lemma keeps_revoked:
  assumes "rs_registry t = rs_registry s" "rs_ops t = rs_ops s" "known_items t \<subseteq> known_items s" "i \<in> known_items s"
    and "ob_items (rs_outbox t) = filter (\<lambda>j. ri_reqId j \<noteq> ri_reqId i) (ob_items (rs_outbox s))"
    and "insert (SV_Revoked (rb_relayHostId i) (rb_relayDeviceId i) (rb_ownerIdentityKey i)) (set (rs_trace s)) \<subseteq> set (rs_trace t)"
  shows "keeps s t"
  unfolding keeps_def
proof
  assume ok: "credentials_ok s"
  have "requests_ok t" using ok assms(3) unfolding credentials_ok_def requests_ok_def by blast
  then have "credentials_ok t" using ok assms(1,2) by (simp add: credentials_ok_def pairings_ok_def)
  moreover have "item_key j \<in> held_keys t" if j: "j \<in> set (ob_items (rs_outbox s))" for j
  proof (cases "ri_reqId j = ri_reqId i")
    case True
    have "j \<in> known_items s" using j by (simp add: known_items_def)
    with True ok assms(4) have "item_key j = item_key i" unfolding credentials_ok_def requests_ok_def by blast
    moreover have "item_key i \<in> revoked_key (SV_Revoked (rb_relayHostId i) (rb_relayDeviceId i) (rb_ownerIdentityKey i))"
      by (simp add: item_key_def)
    ultimately have "item_key j \<in> revoked_key (SV_Revoked (rb_relayHostId i) (rb_relayDeviceId i) (rb_ownerIdentityKey i))" by simp
    then show ?thesis using assms(6) unfolding held_keys_def by blast
  qed (use j assms(5) in \<open>auto simp: held_keys_def\<close>)
  then have "held_keys s \<subseteq> held_keys t"
    using assms(1,6) by (auto simp: held_keys_def [of s]) (auto simp: held_keys_def [of t])
  ultimately show "credentials_ok t \<and> held_keys s \<subseteq> held_keys t" by simp
qed

lemma outbox_remove_items: "ob_items (outbox_remove f written r ob) = filter (\<lambda>i. ri_reqId i \<noteq> r) (ob_items ob)"
proof (cases "length (filter (\<lambda>i. ri_reqId i \<noteq> r) (ob_items ob)) = length (ob_items ob)")
  case True
  then have "filter (\<lambda>i. ri_reqId i \<noteq> r) (ob_items ob) = ob_items ob"
    by (metis filter_True length_filter_less less_irrefl)
  then show ?thesis by (simp add: outbox_remove_def)
qed (simp add: outbox_remove_def outbox_save_def Let_def)

lemma keeps_settled:
  assumes "n < length (rs_flushes s)"
  shows "keeps s (revoke_settled f n accepted written now s)"
proof (cases "rs_flushes s ! n")
  case (Pair b items)
  show ?thesis
  proof (cases items)
    case (Cons i rest)
    let ?t = "revoke_settled f n accepted written now s"
    have fl: "(b, i # rest) \<in> set (rs_flushes s)" using Pair Cons assms nth_mem by fastforce
    have t: "rs_registry ?t = rs_registry s" "rs_ops ?t = rs_ops s"
      "rs_outbox ?t = (if accepted then outbox_remove f written (ri_reqId i) (rs_outbox s) else rs_outbox s)"
      "rs_flushes ?t = take n (rs_flushes s) @ drop (Suc n) (rs_flushes s) @ (if rest = [] then [] else [(b, rest)])"
      by (simp_all add: revoke_settled_def Pair Cons Let_def)
    have "set (rs_flushes ?t) \<subseteq> insert (b, rest) (set (rs_flushes s))"
      unfolding t(4) by (auto dest: in_set_takeD in_set_dropD)
    moreover have "set (ob_items (rs_outbox ?t)) \<subseteq> set (ob_items (rs_outbox s))"
      unfolding t(3) by (auto simp: outbox_remove_items)
    ultimately have known: "known_items ?t \<subseteq> known_items s" using fl unfolding known_items_def by force
    have i: "i \<in> known_items s" using fl unfolding known_items_def by force
    show ?thesis
    proof (cases accepted)
      case True
      then have "insert (SV_Revoked (rb_relayHostId i) (rb_relayDeviceId i) (rb_ownerIdentityKey i)) (set (rs_trace s)) \<subseteq> set (rs_trace ?t)"
        by (auto simp: revoke_settled_def Pair Cons Let_def)
      with True t known i show ?thesis by (intro keeps_revoked [where i = i]) (simp_all add: outbox_remove_items)
    next
      case False
      then have "set (rs_trace s) \<subseteq> set (rs_trace ?t)" by (auto simp: revoke_settled_def Pair Cons Let_def)
      with False t known show ?thesis by (intro keeps_frame) simp_all
    qed
  qed (simp add: revoke_settled_def Pair)
qed

lemma keeps_pairing_reply:
  assumes "same_account s b deviceId" "pairings_ok s" "(\<exists>t \<in> set (rs_ops s). ot_op t = Op_Pairing deviceId token)"
  shows "keeps s (pairing_reply now n b reply deviceId token s)"
proof -
  let ?s = "end_op now n s"
  have s: "keeps s ?s" by (rule keeps_end)
  have "keeps s (?s\<lparr>rs_registry := snd (setRelayBinding deviceId bnd (rs_registry s))\<rparr>)" if bound: "fst (setRelayBinding deviceId bnd (rs_registry s))"
    and bnd: "rb_relayHostId bnd = rs_relayHostId s" "rb_ownerIdentityKey bnd = (case broker_owner b s of Some k \<Rightarrow> k | None \<Rightarrow> [])" for bnd
  proof -
    let ?ds = "snd (setRelayBinding deviceId bnd (rs_registry s))"
    have set: "setRelayBinding deviceId bnd (rs_registry ?s) = (True, ?ds)" using bound by (simp add: prod_eq_iff)
    obtain d where d: "getDevice deviceId (rs_registry s) = Some d" "rb_relayDeviceId bnd = deviceId"
      using setRelayBinding_True [OF set] by auto
    have "pairing_ok (rs_registry s) (Op_Pairing deviceId token)"
      using assms(2,3) unfolding pairings_ok_def by (metis image_eqI list.set_map)
    then have "de_scope d \<noteq> Scope_Runtime"
      using getDevice_SomeD [OF d(1)] by (auto simp: scopes_of_def)
    then have mobile: "de_scope d = Scope_Mobile" by (cases "de_scope d") auto
    have "device_key d \<subseteq> {binding_key bnd}" if "registry_ok (rs_registry s)"
      using that d assms(1) bnd by (intro device_key_same [of "rs_registry s" deviceId]) (auto simp: same_account_def)
    then have "keeps ?s (?s\<lparr>rs_registry := ?ds\<rparr>)"
      using d mobile set by (intro keeps_bind_registry [where d = d]) auto
    with s show ?thesis by (rule keeps_trans)
  qed
  then show ?thesis
    using s by (auto simp: pairing_reply_def Let_def split_beta intro!: keeps_trans [OF _ keeps_helpers(1)]
        keeps_trans [OF _ keeps_helpers(3)] intro: keeps_trans split: option.split prod.split)
qed

lemma keeps_revokeMobile:
  assumes "fresh_request s q"
  shows "keeps s (revokeMobileDevice f q deviceId s)"
proof (cases "getDevice deviceId (rs_registry s)")
  case (Some d)
  let ?r = "case de_relayBinding d of Some b \<Rightarrow> queueRelayDeviceRevoke f q b s | None \<Rightarrow> (s, True)"
  let ?ds = "snd (removeDevice deviceId (rs_registry s))"
  have s: "keeps s (fst ?r)" and reg: "rs_registry (fst ?r) = rs_registry s"
    using keeps_queue(1) [OF assms] by (auto split: option.split)
  have key: "device_key d \<subseteq> item_key ` set (ob_items (rs_outbox (fst ?r)))"
    using keeps_queue(2) [OF assms] by (auto simp: device_key_def split: option.split)
  have "keeps (fst ?r) ((fst ?r)\<lparr>rs_registry := ?ds\<rparr>)"
  proof (rule keeps_registry)
    assume ok: "registry_ok (rs_registry (fst ?r))"
    show "registry_ok ?ds" "bound_keys (rs_registry (fst ?r)) \<subseteq> bound_keys ?ds \<union> item_key ` set (ob_items (rs_outbox (fst ?r)))"
      unfolding reg using removeDevice_registry [OF ok [unfolded reg] surjective_pairing Some] key by blast+
  next
    show "scopes_of ?ds \<subseteq> scopes_of (rs_registry (fst ?r)) \<union> UNIV \<times> {Scope_Mobile}"
      unfolding reg by (auto simp: scopes_of_def removeDevice_def Let_def)
  qed
  with s have "keeps s ((fst ?r)\<lparr>rs_registry := ?ds\<rparr>)" by (rule keeps_trans)
  with s Some reg show ?thesis
    by (auto simp: revokeMobileDevice_def Let_def split_beta intro!: keeps_trans [OF _ keeps_helpers(1)] keeps_trans [OF _ keeps_helpers(3)])
qed (auto simp: revokeMobileDevice_def)

lemma keeps_revokeRuntime: "keeps s (revokeRuntimeAccess deviceId s)"
proof (cases "getDevice deviceId (rs_registry s)")
  case (Some d)
  let ?ds = "snd (removeDevice deviceId (rs_registry s))"
  have "keeps s (s\<lparr>rs_registry := ?ds\<rparr>)" if "de_scope d = Scope_Runtime"
  proof (rule keeps_registry)
    assume ok: "registry_ok (rs_registry s)"
    have "device_key d = {}" using ok that getDevice_SomeD [OF Some] by (simp add: device_key_def registry_ok_def)
    then show "registry_ok ?ds" "bound_keys (rs_registry s) \<subseteq> bound_keys ?ds \<union> item_key ` set (ob_items (rs_outbox s))"
      using removeDevice_registry [OF ok surjective_pairing Some] by blast+
  next
    show "scopes_of ?ds \<subseteq> scopes_of (rs_registry s) \<union> UNIV \<times> {Scope_Mobile}"
      by (auto simp: scopes_of_def removeDevice_def Let_def)
  qed
  then show ?thesis
    using Some by (auto simp: revokeRuntimeAccess_def Let_def split_beta intro!: keeps_trans [OF _ keeps_helpers(1)])
qed (auto simp: revokeRuntimeAccess_def)

lemma setMode_registry:
  assumes "registry_ok ds"
  shows "registry_ok (snd (setMobilePairingConnectionMode i m ds))" "bound_keys (snd (setMobilePairingConnectionMode i m ds)) = bound_keys ds"
    "scopes_of (snd (setMobilePairingConnectionMode i m ds)) = scopes_of ds"
  using field_update_registry [OF assms, of "\<lambda>d. d\<lparr>de_mobilePairingConnectionMode := Some m\<rparr>" i] assms
  by (auto simp: setMobilePairingConnectionMode_def pending_def split: option.split)

lemma keeps_seen:
  assumes "now > 0"
  shows "keeps s (s\<lparr>rs_registry := updateLastSeen now deviceId (rs_registry s)\<rparr>)"
  using field_update_registry [of "rs_registry s" "\<lambda>d. d\<lparr>de_lastSeenAt := now\<rparr>" deviceId] assms
  by (intro keeps_registry) (auto simp: updateLastSeen_def pending_def)

text \<open>\<open>createMobilePairingOffer\<close>: the credential of the pending device is queued when the device is rotated.\<close>

definition held_binding :: "'text relay_service \<Rightarrow> relay_binding option" where
  "held_binding s = (case getPendingDevice Scope_Mobile (rs_registry s) of Some d \<Rightarrow> de_relayBinding d | None \<Rightarrow> None)"

definition offer_queue :: "(json \<Rightarrow> 'text) \<Rightarrow> queue_draw \<Rightarrow> bool \<Rightarrow> 'text relay_service \<Rightarrow> 'text relay_service \<times> bool" where
  "offer_queue f q rot s =
     (case held_binding s of Some b \<Rightarrow> (if rot then queueRelayDeviceRevoke f q b s else (s, True)) | None \<Rightarrow> (s, True))"

definition offer_device :: "offer_args \<Rightarrow> bool \<Rightarrow> registry \<Rightarrow> device_entry \<times> registry" where
  "offer_device args rot ds =
     (if rot then rotatePendingDevice (oa_fresh args) (oa_name args) Scope_Mobile ds
      else getOrCreatePendingDevice (oa_fresh args) (oa_name args) Scope_Mobile ds)"

lemma offer_eq:
  "createMobilePairingOffer f q args s =
     (let rot = oa_rotate args \<or> (oa_local_only args \<and> held_binding s \<noteq> None); (s1, queued) = offer_queue f q rot s
      in if \<not> queued then emit (SV_Failed ''write'') s1
         else if \<not> oa_available args then emit (SV_Answer False) s1
         else (let (device, ds) = offer_device args rot (rs_registry s1);
                   s2 = s1\<lparr>rs_registry := snd (setMobilePairingConnectionMode (de_deviceId device)
                     (if oa_local_only args then Mode_Local_Only else Mode_Automatic) ds)\<rparr>
               in if oa_local_only args \<or> \<not> rs_provider s2 then emit (SV_Offer (de_deviceId device) (de_token device) False) s2
                  else begin_op (qd_now q) (Op_Pairing (de_deviceId device) (de_token device)) s2))"
  by (simp only: createMobilePairingOffer_def held_binding_def offer_queue_def offer_device_def Let_def split_beta)

lemma offer_device_registry:
  assumes "registry_ok ds" "fresh_for ds (oa_fresh args)" "offer_device args rot ds = (device, ds')"
  shows "registry_ok ds' \<and> scopes_of ds' \<subseteq> scopes_of ds \<union> UNIV \<times> {Scope_Mobile} \<and> (de_deviceId device, Scope_Runtime) \<notin> scopes_of ds' \<and>
    bound_keys ds \<subseteq> bound_keys ds' \<union> (if rot then (case getPendingDevice Scope_Mobile ds of Some d \<Rightarrow> device_key d | None \<Rightarrow> {}) else {})"
proof -
  have facts: "registry_ok ds' \<and> scopes_of ds' \<subseteq> scopes_of ds \<union> UNIV \<times> {Scope_Mobile} \<and> device \<in> set ds' \<and> de_scope device = Scope_Mobile \<and>
    bound_keys ds \<subseteq> bound_keys ds' \<union> (if rot then (case getPendingDevice Scope_Mobile ds of Some d \<Rightarrow> device_key d | None \<Rightarrow> {}) else {})"
  proof (cases rot)
    case True
    then have "rotatePendingDevice (oa_fresh args) (oa_name args) Scope_Mobile ds = (device, ds')" using assms(3) by (simp add: offer_device_def)
    with True show ?thesis using rotate_registry [OF assms(1,2)] by simp
  next
    case False
    then have "getOrCreatePendingDevice (oa_fresh args) (oa_name args) Scope_Mobile ds = (device, ds')" using assms(3) by (simp add: offer_device_def)
    with False show ?thesis using getOrCreate_registry [OF assms(1,2)] by simp
  qed
  have "x = device" if "x \<in> set ds'" "de_deviceId x = de_deviceId device" for x
    using facts that getDevice_unique [of ds'] by (metis option.inject registry_ok_def)
  then have "(de_deviceId device, Scope_Runtime) \<notin> scopes_of ds'"
    using facts unfolding scopes_of_def by (metis (no_types, lifting) device_scope.distinct(1) imageE prod.inject)
  with facts show ?thesis by simp
qed

lemma offer_queue_facts:
  assumes "fresh_request s q"
  shows "keeps s (fst (offer_queue f q rot s))" "rs_registry (fst (offer_queue f q rot s)) = rs_registry s"
    "(if rot then (case getPendingDevice Scope_Mobile (rs_registry s) of Some d \<Rightarrow> device_key d | None \<Rightarrow> {}) else {})
       \<subseteq> item_key ` set (ob_items (rs_outbox (fst (offer_queue f q rot s))))"
  using keeps_queue [OF assms, where f = f]
  by (auto simp: offer_queue_def held_binding_def device_key_def split: option.split)

lemma keeps_offer:
  assumes "fresh_request s q" "fresh_for (rs_registry s) (oa_fresh args)" "credentials_ok s"
  shows "keeps s (createMobilePairingOffer f q args s)"
proof -
  define rot where "rot \<longleftrightarrow> oa_rotate args \<or> (oa_local_only args \<and> held_binding s \<noteq> None)"
  obtain s1 queued where q: "offer_queue f q rot s = (s1, queued)" by fastforce
  obtain device ds where dev: "offer_device args rot (rs_registry s) = (device, ds)" by fastforce
  define ds' where "ds' = snd (setMobilePairingConnectionMode (de_deviceId device) (if oa_local_only args then Mode_Local_Only else Mode_Automatic) ds)"
  note queue = offer_queue_facts [OF assms(1), where f = f and rot = rot, unfolded q fst_conv]
  note s1 = queue(1) and reg = queue(2) and key = queue(3)
  have ok: "registry_ok (rs_registry s)" using assms(3) by (simp add: credentials_ok_def)
  note new = offer_device_registry [OF ok assms(2) dev]
  have ds': "registry_ok ds'" "bound_keys ds' = bound_keys ds" "scopes_of ds' = scopes_of ds"
    unfolding ds'_def using new setMode_registry by blast+
  have "keeps s1 (s1\<lparr>rs_registry := ds'\<rparr>)"
    by (rule keeps_registry) (use new ds' key reg in auto)
  with s1 have s2: "keeps s (s1\<lparr>rs_registry := ds'\<rparr>)" by (rule keeps_trans)
  have "keeps (s1\<lparr>rs_registry := ds'\<rparr>) (begin_op (qd_now q) (Op_Pairing (de_deviceId device) (de_token device)) (s1\<lparr>rs_registry := ds'\<rparr>))"
    by (rule keeps_begin) (use new ds' in simp)
  with s1 s2 show ?thesis
    unfolding offer_eq Let_def rot_def [symmetric] q prod.case reg dev ds'_def [symmetric]
    by (auto intro: keeps_trans)
qed

lemma keeps_opened: "keeps s (service_opened epoch r result s)"
proof (cases result)
  case (Some b)
  let ?items = "pendingFor (ow_identityKey (co_store (rs_coordinator s) ! r)) (rs_relayHostId s) (rs_outbox s)"
  have "keeps s (flush b ?items s)" by (rule keeps_flush) (auto simp: pendingFor_def known_items_def)
  then show ?thesis
    using Some by (auto simp: service_opened_def flushRevokeOutbox_def Let_def intro: keeps_trans)
qed (auto simp: service_opened_def)

lemma keeps_provision:
  assumes "fresh_request s q"
  shows "keeps s (provision_broker f q n endpoint ctx params s)"
  using keeps_bind [OF assms]
  by (auto simp: provision_broker_def Let_def split_beta intro!: keeps_trans [OF _ keeps_helpers(1)] keeps_trans [OF _ keeps_end]
      keeps_trans [OF _ keeps_phase] keeps_trans [OF _ keeps_helpers(2)] split: option.split sum.split bool.split)

lemma keeps_endpoints:
  "keeps s (endpoints_confirm now n b ctx r s)" "keeps s (endpoints_broker now n endpoint ctx i r s)"
  by (auto simp: endpoints_confirm_def endpoints_broker_def intro!: keeps_trans [OF _ keeps_helpers(1)] keeps_end keeps_phase
      split: option.split transport_metadata.split)

lemma keeps_step:
  assumes "orderly_event s e" "credentials_ok s"
  shows "keeps s (service_step f s e)"
proof (cases e)
  case (SE_Op_Broker q n endpoint)
  then have "keeps s (op_broker f q n endpoint s)"
    using assms by (auto simp: op_broker_def keeps_provision keeps_endpoints intro!: keeps_trans [OF _ keeps_helpers(1)] keeps_end keeps_phase
        split: service_op.split option.split)
  with SE_Op_Broker show ?thesis by simp
next
  case (SE_Op_Reply now n reply)
  have "keeps s (op_reply now n reply s)" if "n < length (rs_ops s)"
  proof -
    have "rs_ops s ! n \<in> set (rs_ops s)" using that by simp
    then show ?thesis
      using assms SE_Op_Reply
      by (auto simp: op_reply_def credentials_ok_def keeps_endpoints intro!: keeps_trans [OF _ keeps_helpers(1)] keeps_end
          keeps_pairing_reply split: service_op.splits op_phase.splits)
  qed
  with SE_Op_Reply show ?thesis by simp
next
  case (SE_Offer q args)
  then show ?thesis using assms by (auto intro: keeps_offer)
qed (use assms in \<open>auto simp: getEndpoints_def provisionRelay_def keeps_opened keeps_settled keeps_revokeMobile keeps_revokeRuntime keeps_seen
      intro!: keeps_begin split: option.split\<close>)

fun orderly_run :: "(json \<Rightarrow> 'text) \<Rightarrow> 'text relay_service \<Rightarrow> service_event list \<Rightarrow> bool" where
  "orderly_run f s [] \<longleftrightarrow> True"
| "orderly_run f s (e # es) \<longleftrightarrow> orderly_event s e \<and> orderly_run f (service_step f s e) es"

lemma orderly_run_append: "orderly_run f s (es @ es') \<longleftrightarrow> orderly_run f s es \<and> orderly_run f (service_run f s es) es'"
  by (induction es arbitrary: s) (auto simp: service_run_def)

lemma keeps_run:
  assumes "credentials_ok s" "orderly_run f s es"
  shows "credentials_ok (service_run f s es) \<and> held_keys s \<subseteq> held_keys (service_run f s es)"
  using assms
proof (induction es arbitrary: s)
  case (Cons e es)
  then have "credentials_ok (service_step f s e)" "held_keys s \<subseteq> held_keys (service_step f s e)"
    using keeps_step [of s e f] by (auto simp: keeps_def)
  with Cons show ?case by (force simp: service_run_def)
qed (simp add: service_run_def)

section \<open>Properties\<close>

lemma credentials_new:
  assumes "registry_ok ds" "distinct (map ri_reqId (ob_items ob))"
  shows "credentials_ok (service_new host ds ob)"
proof -
  have "i = j" if "i \<in> set (ob_items ob)" "j \<in> set (ob_items ob)" "ri_reqId i = ri_reqId j" for i j
    using assms(2) that by (simp add: distinct_map inj_on_def)
  then show ?thesis
    using assms(1) unfolding credentials_ok_def requests_ok_def pairings_ok_def known_items_def
    by (auto simp: service_new_def)
qed

text \<open>
  Property C13. No relay credential is lost sight of. Let a device be bound to a relay host at some time of a run. Whatever
  happens afterwards (revocations, rotations, account switches, failing writes, brokers that come and go), the
  credential of that binding is still bound to a device, or it is queued for revocation, or the account's relay has
  confirmed its revocation. The run draws fresh ids, and a relay invite never arrives for a device that is bound to another
  account meanwhile.
\<close>

theorem relay_credentials_are_never_stranded:
  assumes "registry_ok ds" "distinct (map ri_reqId (ob_items ob))"
    and "orderly_run f (service_new host ds ob) (es @ es')"
    and "d \<in> set (rs_registry (service_run f (service_new host ds ob) es))" "de_relayBinding d = Some b"
  shows "(\<exists>d' b'. d' \<in> set (rs_registry (service_run f (service_new host ds ob) (es @ es'))) \<and>
       de_relayBinding d' = Some b' \<and> binding_key b' = binding_key b) \<or>
    (\<exists>i. i \<in> set (ob_items (rs_outbox (service_run f (service_new host ds ob) (es @ es')))) \<and> binding_key i = binding_key b) \<or>
    SV_Revoked (rb_relayHostId b) (rb_relayDeviceId b) (rb_ownerIdentityKey b)
      \<in> set (rs_trace (service_run f (service_new host ds ob) (es @ es')))"
proof -
  let ?s = "service_run f (service_new host ds ob) es" and ?t = "service_run f (service_new host ds ob) (es @ es')"
  have t: "?t = service_run f ?s es'" by (simp add: service_run_def)
  have run: "orderly_run f (service_new host ds ob) es" "orderly_run f ?s es'"
    using assms(3) by (simp_all add: orderly_run_append)
  have "credentials_ok ?s" using keeps_run [OF credentials_new [OF assms(1,2)] run(1)] by simp
  then have "held_keys ?s \<subseteq> held_keys ?t" unfolding t using keeps_run run(2) by blast
  moreover have "binding_key b \<in> held_keys ?s"
    using assms(4,5) unfolding held_keys_def bound_keys_def by (auto simp: device_key_def intro!: bexI [of _ d])
  ultimately have held: "binding_key b \<in> held_keys ?t" by blast
  have revoked: "binding_key b \<in> revoked_key e \<Longrightarrow> e = SV_Revoked (rb_relayHostId b) (rb_relayDeviceId b) (rb_ownerIdentityKey b)" for e
    by (cases e) (auto simp: binding_key_def)
  from held show ?thesis
    unfolding held_keys_def bound_keys_def item_key_binding Un_iff UN_iff
    by (auto simp: device_key_def item_key_binding dest!: revoked split: option.splits)
qed

text \<open>A run: the account \<open>user\<close> signs in while a phone is being paired, and the phone gets a relay invite.\<close>

definition sample_ctx :: "string \<Rightarrow> auth_context" where
  "sample_ctx user = \<lparr>ac_identity = \<lparr>ai_userId = user, ai_profileId = ''p'', ai_organizationId = ''o''\<rparr>, ac_accessToken = ''t'', ac_relayEntitled = True\<rparr>"

definition sample_draw_at :: "string \<Rightarrow> queue_draw" where
  "sample_draw_at uuid = \<lparr>qd_uuid = uuid, qd_now = 1, qd_written = True\<rparr>"

definition sample_args :: "string \<Rightarrow> offer_args" where
  "sample_args uuid = \<lparr>oa_local_only = False, oa_rotate = False, oa_available = True, oa_name = ''phone'',
     oa_fresh = \<lparr>fd_uuid = uuid, fd_token = uuid, fd_now = 1\<rparr>\<rparr>"

definition pairing_run :: "service_event list" where
  "pairing_run =
     [SE_Offer (sample_draw_at ''r1'') (sample_args ''d1''), SE_Context 1 (Some (Some (sample_ctx ''a''))) 1, SE_Opened 1 0 (Some 7),
      SE_Op_Broker (sample_draw_at ''r2'') 0 True, SE_Op_Reply 1 0 (Some (Fin 100))]"

definition sample_service :: "json relay_service" where
  "sample_service = service_new ''host'' [] \<lparr>ob_items = [], ob_file = None\<rparr>"

text \<open>The account is switched, and the same pending phone is offered again.\<close>

definition switch_run :: "service_event list" where
  "switch_run =
     [SE_Context 3 (Some (Some (sample_ctx ''b''))) 1, SE_Offer (sample_draw_at ''r3'') (sample_args ''d2''),
      SE_Context 4 (Some (Some (sample_ctx ''b''))) 1, SE_Opened 4 1 (Some 8), SE_Op_Broker (sample_draw_at ''r4'') 0 True]"

theorem relay_credentials_are_never_stranded_witness:
  "orderly_run (\<lambda>v. v) sample_service (pairing_run @ [SE_Revoke_Mobile (sample_draw_at ''r5'') ''d1'']) \<and>
   list_ex (\<lambda>d. de_relayBinding d \<noteq> None) (rs_registry (service_run (\<lambda>v. v) sample_service pairing_run)) \<and>
   \<not> list_ex (\<lambda>d. de_relayBinding d \<noteq> None)
     (rs_registry (service_run (\<lambda>v. v) sample_service (pairing_run @ [SE_Revoke_Mobile (sample_draw_at ''r5'') ''d1'']))) \<and>
   ((\<exists>i. i \<in> set (ob_items (rs_outbox (service_run (\<lambda>v. v) sample_service (pairing_run @ [SE_Revoke_Mobile (sample_draw_at ''r5'') ''d1''])))) \<and>
      rb_relayDeviceId i = ''d1'') \<or>
    (\<exists>h k. SV_Revoked h ''d1'' k \<in> set (rs_trace (service_run (\<lambda>v. v) sample_service (pairing_run @ [SE_Revoke_Mobile (sample_draw_at ''r5'') ''d1''])))))"
proof -
  let ?s = "service_run (\<lambda>v. v) sample_service pairing_run"
  let ?t = "service_run (\<lambda>v. v) sample_service (pairing_run @ [SE_Revoke_Mobile (sample_draw_at ''r5'') ''d1''])"
  have orderly: "orderly_run (\<lambda>v. v) sample_service (pairing_run @ [SE_Revoke_Mobile (sample_draw_at ''r5'') ''d1''])"
    by code_simp
  have bound: "list_ex (\<lambda>d. de_relayBinding d \<noteq> None \<and> rb_relayDeviceId (the (de_relayBinding d)) = ''d1'') (rs_registry ?s)"
    by code_simp
  have gone: "\<not> list_ex (\<lambda>d. de_relayBinding d \<noteq> None) (rs_registry ?t)"
    by code_simp
  obtain d b where d: "d \<in> set (rs_registry ?s)" "de_relayBinding d = Some b" "rb_relayDeviceId b = ''d1''"
    using bound by (auto simp: list_ex_iff)
  have "registry_ok []" by (simp add: registry_ok_def registry_wf_def)
  note kept = relay_credentials_are_never_stranded [of "[]" "\<lparr>ob_items = [], ob_file = None\<rparr>" "\<lambda>v. v" "''host''", folded sample_service_def,
      OF this _ orderly d(1,2)]
  then show ?thesis
    using orderly d gone by (auto simp: list_ex_iff binding_key_def)
qed

text \<open>
  Property C38. A pairing offer that is answered after the account was switched strands the old account's credential.
  \<open>createMobilePairingOffer\<close> writes the binding of the new invite over the one the pending device has. When that
  one belongs to another account, its credential is afterwards neither bound to a device nor queued for revocation, and no
  revocation was confirmed, although \<open>setMobileRelayBinding\<close> takes care to queue the old binding in the same case.
\<close>

theorem account_switch_strands_credential:
  assumes "n < length (rs_ops s)" "ot_op (rs_ops s ! n) = Op_Pairing deviceId token" "ot_phase (rs_ops s ! n) = Wait_Reply b"
    and "registry_wf (rs_registry s)" "getDevice deviceId (rs_registry s) = Some d" "de_relayBinding d = Some old"
    and "broker_owner b s = Some owner" "owner \<noteq> rb_ownerIdentityKey old"
    and "binding_key old \<notin> binding_key ` set (ob_items (rs_outbox s))"
  shows "(let t = service_step f s (SE_Op_Reply now n (Some expiresAt))
    in list_all (\<lambda>d'. case de_relayBinding d' of Some b' \<Rightarrow> binding_key b' \<noteq> binding_key old | None \<Rightarrow> True) (rs_registry t) \<and>
       binding_key old \<notin> binding_key ` set (ob_items (rs_outbox t)) \<and>
       rs_trace t = rs_trace s @ [SV_Offer deviceId token True])"
proof -
  define new where "new = \<lparr>rb_relayHostId = rs_relayHostId s, rb_relayDeviceId = deviceId, rb_ownerIdentityKey = owner, rb_inviteExpiresAt = Some expiresAt\<rparr>"
  let ?ds = "update_first (\<lambda>d. de_deviceId d = deviceId) (\<lambda>d. d\<lparr>de_relayBinding := Some new\<rparr>) (rs_registry s)"
  have set: "setRelayBinding deviceId new (rs_registry s) = (True, ?ds)"
    using assms(5) by (simp add: setRelayBinding_def new_def)
  have t: "service_step f s (SE_Op_Reply now n (Some expiresAt)) =
      emit (SV_Offer deviceId token True) (onDemandStateChanged now ((end_op now n s)\<lparr>rs_registry := ?ds\<rparr>))"
    using assms(1,2,3,7) set by (simp add: op_reply_def pairing_reply_def new_def)
  have elems: "set ?ds = insert (d\<lparr>de_relayBinding := Some new\<rparr>) (set (rs_registry s) - {d})"
    by (rule update_first_keys [OF assms(4,5)])
  have own: "rb_relayDeviceId old = deviceId" using assms(4,6) getDevice_SomeD [OF assms(5)] by (auto simp: registry_wf_def)
  have "binding_key b' \<noteq> binding_key old" if "d' \<in> set ?ds" "de_relayBinding d' = Some b'" for d' b'
  proof (cases "d' = d\<lparr>de_relayBinding := Some new\<rparr>")
    case True
    then show ?thesis using that(2) assms(8) by (auto simp: binding_key_def new_def)
  next
    case False
    then have d': "d' \<in> set (rs_registry s)" "d' \<noteq> d" using that(1) elems by auto
    then have "de_deviceId d' \<noteq> deviceId" using getDevice_unique [OF assms(4) d'(1)] assms(5) by auto
    moreover have "rb_relayDeviceId b' = de_deviceId d'" using assms(4) d'(1) that(2) by (simp add: registry_wf_def)
    ultimately show ?thesis using own by (auto simp: binding_key_def)
  qed
  then show ?thesis
    unfolding t using assms(9) by (auto simp: Let_def list_all_iff split: option.split)
qed

theorem account_switch_strands_credential_witness:
  "(let s = service_run (\<lambda>v. v) sample_service (pairing_run @ switch_run);
        t = service_step (\<lambda>v. v) s (SE_Op_Reply 2 0 (Some (Fin 200)))
    in list_ex (\<lambda>d. map_option rb_ownerIdentityKey (de_relayBinding d) = Some (identityKey (ac_identity (sample_ctx ''a'')))) (rs_registry s) \<and>
       \<not> list_ex (\<lambda>d. map_option rb_ownerIdentityKey (de_relayBinding d) = Some (identityKey (ac_identity (sample_ctx ''a'')))) (rs_registry t) \<and>
       ob_items (rs_outbox t) = [] \<and> rs_trace t = rs_trace s @ [SV_Offer ''d1'' ''d1'' True])"
proof -
  let ?s = "service_run (\<lambda>v. v) sample_service (pairing_run @ switch_run)"
  let ?old = "\<lparr>rb_relayHostId = ''host'', rb_relayDeviceId = ''d1'', rb_ownerIdentityKey = identityKey (ac_identity (sample_ctx ''a'')), rb_inviteExpiresAt = Some (Fin 100)\<rparr>"
  have n: "0 < length (rs_ops ?s) \<and> ot_op (rs_ops ?s ! 0) = Op_Pairing ''d1'' ''d1'' \<and> ot_phase (rs_ops ?s ! 0) = Wait_Reply 8" by code_simp
  have old: "map_option de_relayBinding (getDevice ''d1'' (rs_registry ?s)) = Some (Some ?old)" by code_simp
  have owner: "broker_owner 8 ?s = Some (identityKey (ac_identity (sample_ctx ''b'')))" by code_simp
  have ds: "map de_deviceId (rs_registry ?s) = [''d1''] \<and> map de_token (rs_registry ?s) = [''d1''] \<and> map de_relayBinding (rs_registry ?s) = [Some ?old] \<and>
    ob_items (rs_outbox ?s) = []" by code_simp
  have wf: "registry_wf (rs_registry ?s)"
    using ds by (cases "rs_registry ?s") (auto simp: registry_wf_def)
  from old obtain d where d: "getDevice ''d1'' (rs_registry ?s) = Some d" "de_relayBinding d = Some ?old" by auto
  have "identityKey (ac_identity (sample_ctx ''b'')) \<noteq> rb_ownerIdentityKey ?old" by code_simp
  from account_switch_strands_credential [OF _ _ _ wf d owner this, of 0 "''d1''" "\<lambda>v. v" 2 "Fin 200"] n ds
  have lost: "(let t = service_step (\<lambda>v. v) ?s (SE_Op_Reply 2 0 (Some (Fin 200)))
    in list_all (\<lambda>d'. case de_relayBinding d' of Some b' \<Rightarrow> binding_key b' \<noteq> binding_key ?old | None \<Rightarrow> True) (rs_registry t) \<and>
       rs_trace t = rs_trace ?s @ [SV_Offer ''d1'' ''d1'' True])" by (simp add: Let_def)
  have rest: "(let t = service_step (\<lambda>v. v) ?s (SE_Op_Reply 2 0 (Some (Fin 200))) in
     \<not> list_ex (\<lambda>d. map_option rb_ownerIdentityKey (de_relayBinding d) = Some (identityKey (ac_identity (sample_ctx ''a'')))) (rs_registry t) \<and>
     ob_items (rs_outbox t) = [])" by code_simp
  have before: "list_ex (\<lambda>d. map_option rb_ownerIdentityKey (de_relayBinding d) = Some (identityKey (ac_identity (sample_ctx ''a'')))) (rs_registry ?s)"
    by code_simp
  show ?thesis using lost rest before by (simp add: Let_def)
qed

text \<open>
  A switch to a local-only offer that overtakes a relay invite in flight has no effect on the invite: the pending device
  is local-only by then and is bound to the relay all the same, because only \<open>setMobileRelayBinding\<close> looks at the mode.
\<close>

lemma local_only_offer_is_overtaken:
  "(let s = service_run (\<lambda>v. v) sample_service
       (butlast pairing_run @ [SE_Offer (sample_draw_at ''r3'') ((sample_args ''d2'')\<lparr>oa_local_only := True\<rparr>), SE_Op_Reply 1 0 (Some (Fin 100))])
    in map de_deviceId (rs_registry s) = [''d1''] \<and> local_only ''d1'' s \<and>
       list_all (\<lambda>d. de_relayBinding d \<noteq> None) (rs_registry s) \<and> last (rs_trace s) = SV_Offer ''d1'' ''d1'' True)"
  by code_simp

text \<open>
  A device that is bound again to the account it was taken from keeps the queued revocation of that account: when the
  account is switched away and back and the revocation could not be sent meanwhile, the next broker of the
  account is asked to revoke the device that is bound.
\<close>

definition direct_ctx :: pairing_context where
  "direct_ctx = \<lparr>pc_deviceId = ''d1'', pc_connectionId = ''c1'', pc_transport = Direct_Transport\<rparr>"

definition rebinding_run :: "service_event list" where
  "rebinding_run =
     [SE_Provision 2 direct_ctx JNull, SE_Context 4 (Some (Some (sample_ctx ''b''))) 2, SE_Opened 4 1 (Some 8),
      SE_Op_Broker (sample_draw_at ''r6'') 0 True, SE_Op_Reply 2 0 (Some (Fin 0)),
      SE_Provision 3 direct_ctx JNull, SE_Context 9 (Some (Some (sample_ctx ''a''))) 3, SE_Opened 9 2 (Some 9),
      SE_Revoke_Settled 0 False True 3, SE_Op_Broker (sample_draw_at ''r7'') 0 True, SE_Op_Reply 3 0 (Some (Fin 0)),
      SE_Fence, SE_Refresh 4, SE_Context 15 (Some (Some (sample_ctx ''a''))) 4, SE_Opened 15 3 (Some 10)]"

lemma pending_revocation_survives_rebinding:
  "(let s = service_run (\<lambda>v. v) sample_service (pairing_run @ rebinding_run)
    in map (\<lambda>d. map_option binding_key (de_relayBinding d)) (rs_registry s) =
         [Some (''host'', ''d1'', identityKey (ac_identity (sample_ctx ''a'')))] \<and>
       getActiveBroker (rs_coordinator s) = Some 10 \<and>
       (case last (rs_trace s) of
          SV_Revoke b i \<Rightarrow> b = 10 \<and> binding_key i = (''host'', ''d1'', identityKey (ac_identity (sample_ctx ''a'')))
        | _ \<Rightarrow> False))"
  by code_simp

end
