(* ===== verification/Relay_Pool.thy ===== *)
theory Relay_Pool
  imports Data_Transport
begin

text \<open>
  The origins of a relay session, \<open>src/pie-mobile/upstream/src/main/runtime/relay/relay-control-origin.ts\<close> and
  \<open>src/pie-mobile/upstream/src/main/runtime/relay/relay-origin-pool.ts\<close>. An origin is a relay cell with its control
  connections (one active, others connecting or retired) and its data transport; the pool has one active origin and
  migrates to another when the cell drains, or rebinds the control when its lease runs out.

  Origins and controls are objects that several tables refer to; they live in stores and are named by their index. A
  control is what the pool sees of a \<open>RelayControlClient\<close>: the origin that made it, the number of its pending requests, and
  whether it was closed. An asynchronous operation that waits for a control to connect or for the director's answer is a task,
  and the answer is an event. A control that is closed while it connects never settles its promise, so no
  event resumes its task. The clock and the random number come with the events; \<open>isCurrent\<close> of the session's owner is the flag
  \<open>pl_current\<close>.
\<close>

section \<open>State\<close>

record relay_assignment =
  ra_cellUrl :: string
  ra_assignmentEpoch :: rat

record hello_ack =
  ak_generation :: rat
  ak_controlResumeSecret :: string
  ak_leaseExpiresAt :: rat
  ak_activeConnIds :: "string list"

record control_ref =
  ct_origin :: nat
  ct_requests :: nat
  ct_closed :: bool

record relay_origin =
  og_assignment :: relay_assignment
  og_transport :: data_transport
  og_controls :: "nat list"
  og_retiredControlTimers :: "nat list"
  og_activeControl :: "nat option"
  og_generation :: rat
  og_controlResumeSecret :: "string option"
  og_leaseExpiresAt :: rat
  og_acceptingConnections :: bool
  og_closed :: bool

text \<open>The suspended calls; the last components are what the call has in its closure.\<close>

datatype pool_task =
    Opening_Initial nat nat
  | Resolving nat rat
  | Rebinding_Drained nat nat "nat option" relay_assignment rat
  | Activating nat nat nat relay_assignment rat
  | Rebinding_Active nat nat "nat option"

datatype pool_status = Pool_Offline | Pool_Draining | Pool_Registered

datatype pool_effect =
    PL_Status pool_status
  | PL_Connect nat
  | PL_Auth_Refresh nat string
  | PL_Transport nat transport_effect
  | PL_Opened
  | PL_Open_Failed
  | PL_Rotate_In rat
  | PL_Ignored string

record origin_pool =
  pl_store :: "relay_origin list"
  pl_controls :: "control_ref list"
  pl_activeOrigin :: "nat option"
  pl_origins :: "nat list"
  pl_drainingOrigins :: "nat list"
  pl_basisOrigins :: "(string \<times> nat) list"
  pl_drainTimers :: "nat list"
  pl_assignment :: "relay_assignment option"
  pl_relayJwt :: "string option"
  pl_rotationTimer :: "nat option"
  pl_rotationPromise :: bool
  pl_closed :: bool
  pl_current :: bool
  pl_retries :: "(nat \<times> rat) list"
  pl_tasks :: "pool_task list"
  pl_trace :: "pool_effect list"

definition pool_new :: origin_pool where
  "pool_new = \<lparr>pl_store = [], pl_controls = [], pl_activeOrigin = None, pl_origins = [], pl_drainingOrigins = [], pl_basisOrigins = [],
     pl_drainTimers = [], pl_assignment = None, pl_relayJwt = None, pl_rotationTimer = None, pl_rotationPromise = False, pl_closed = False,
     pl_current = True, pl_retries = [], pl_tasks = [], pl_trace = []\<rparr>"

definition origin_of :: "nat \<Rightarrow> origin_pool \<Rightarrow> relay_origin" where
  "origin_of o' p = pl_store p ! o'"

definition upd_origin :: "nat \<Rightarrow> (relay_origin \<Rightarrow> relay_origin) \<Rightarrow> origin_pool \<Rightarrow> origin_pool" where
  "upd_origin i g p = p\<lparr>pl_store := (pl_store p)[i := g (pl_store p ! i)]\<rparr>"

definition pool_emit :: "pool_effect \<Rightarrow> origin_pool \<Rightarrow> origin_pool" where
  "pool_emit e p = p\<lparr>pl_trace := pl_trace p @ [e]\<rparr>"

definition pool_isCurrent :: "origin_pool \<Rightarrow> bool" where
  "pool_isCurrent p \<longleftrightarrow> \<not> pl_closed p \<and> pl_current p"

section \<open>An origin and its controls\<close>

definition origin_new :: "relay_assignment \<Rightarrow> relay_origin" where
  "origin_new a = \<lparr>og_assignment = a, og_transport = fst (transport_next \<lparr>do_cellWebSocketOrigin = [], do_relayHostId = []\<rparr> (transport_new 0) DE_Handlers),
     og_controls = [], og_retiredControlTimers = [], og_activeControl = None, og_generation = 0, og_controlResumeSecret = None,
     og_leaseExpiresAt = 0, og_acceptingConnections = True, og_closed = False\<rparr>"

definition close_control :: "nat \<Rightarrow> origin_pool \<Rightarrow> origin_pool" where
  "close_control c p = p\<lparr>pl_controls := (pl_controls p)[c := (pl_controls p ! c)\<lparr>ct_closed := True, ct_requests := 0\<rparr>]\<rparr>"

definition pendingRequestCount :: "nat \<Rightarrow> origin_pool \<Rightarrow> nat" where
  "pendingRequestCount i p = sum_list (map (\<lambda>c. ct_requests (pl_controls p ! c)) (og_controls (origin_of i p)))"

text \<open>A transport call with its effects recorded.\<close>

definition transport_op :: "nat \<Rightarrow> (data_transport \<Rightarrow> data_transport \<times> transport_effect list) \<Rightarrow> origin_pool \<Rightarrow> origin_pool" where
  "transport_op i g p =
     (let (t, effs) = g (og_transport (origin_of i p)); p1 = upd_origin i (\<lambda>x. x\<lparr>og_transport := t\<rparr>) p
      in p1\<lparr>pl_trace := pl_trace p1 @ map (PL_Transport i) effs\<rparr>)"

definition origin_close :: "nat \<Rightarrow> origin_pool \<Rightarrow> origin_pool" where
  "origin_close i p =
     (if og_closed (origin_of i p) then p
      else transport_op i transport_stop
             (upd_origin i (\<lambda>x. x\<lparr>og_closed := True, og_retiredControlTimers := [], og_controls := [], og_activeControl := None\<rparr>)
               (fold close_control (og_controls (origin_of i p)) p)))"

text \<open>\<open>openControl\<close> up to its await: the number of the new control.\<close>

definition openControl :: "nat \<Rightarrow> origin_pool \<Rightarrow> nat \<times> origin_pool" where
  "openControl i p =
     (let c = length (pl_controls p);
          p1 = p\<lparr>pl_controls := pl_controls p @ [\<lparr>ct_origin = i, ct_requests = 0, ct_closed = False\<rparr>]\<rparr>
      in (c, pool_emit (PL_Connect c) (upd_origin i (\<lambda>x. x\<lparr>og_controls := og_controls x @ [c]\<rparr>) p1)))"

text \<open>\<open>controls.delete(control)\<close> and \<open>control.closeNow()\<close>.\<close>

definition drop_control :: "nat \<Rightarrow> nat \<Rightarrow> origin_pool \<Rightarrow> origin_pool" where
  "drop_control i c p = close_control c (upd_origin i (\<lambda>x. x\<lparr>og_controls := removeAll c (og_controls x)\<rparr>) p)"

definition closeRetiredControl :: "nat \<Rightarrow> nat \<Rightarrow> origin_pool \<Rightarrow> origin_pool" where
  "closeRetiredControl i c p =
     (let p1 = upd_origin i (\<lambda>x. x\<lparr>og_retiredControlTimers := removeAll c (og_retiredControlTimers x)\<rparr>) p
      in if og_activeControl (origin_of i p1) \<noteq> Some c \<and> c \<in> set (og_controls (origin_of i p1)) then drop_control i c p1 else p1)"

section \<open>Ownership of connections\<close>

definition onConnectionOwned :: "nat \<Rightarrow> string \<Rightarrow> origin_pool \<Rightarrow> origin_pool" where
  "onConnectionOwned i connId p =
     (if pool_isCurrent p \<and> i \<in> set (pl_origins p) then p\<lparr>pl_basisOrigins := AList.update connId i (pl_basisOrigins p)\<rparr> else p)"

definition closeOrigin :: "nat \<Rightarrow> origin_pool \<Rightarrow> origin_pool" where
  "closeOrigin i p =
     (if pl_activeOrigin p = Some i then p
      else origin_close i
             (p\<lparr>pl_drainTimers := removeAll i (pl_drainTimers p), pl_basisOrigins := filter (\<lambda>b. snd b \<noteq> i) (pl_basisOrigins p),
                pl_drainingOrigins := removeAll i (pl_drainingOrigins p), pl_origins := removeAll i (pl_origins p)\<rparr>))"

definition maybeCloseDrainedOrigin :: "nat \<Rightarrow> origin_pool \<Rightarrow> origin_pool" where
  "maybeCloseDrainedOrigin i p =
     (if i \<notin> set (pl_drainingOrigins p) \<or> pendingRequestCount i p > 0 \<or> i \<in> snd ` set (pl_basisOrigins p) then p else closeOrigin i p)"

definition onConnectionReleased :: "nat \<Rightarrow> string \<Rightarrow> origin_pool \<Rightarrow> origin_pool" where
  "onConnectionReleased i connId p =
     maybeCloseDrainedOrigin i
       (if map_of (pl_basisOrigins p) connId = Some i then p\<lparr>pl_basisOrigins := AList.delete connId (pl_basisOrigins p)\<rparr> else p)"

text \<open>The callbacks that the effects of a transport call stand for.\<close>

definition released_by :: "data_transport \<Rightarrow> transport_effect \<Rightarrow> string list" where
  "released_by t e =
     (case e of
        Dt_Connection_Closed connId \<Rightarrow> [connId]
      | Dt_Open_Failed ws \<Rightarrow> [co_connId (sk_connection (dt_sockets t ! ws))]
      | _ \<Rightarrow> [])"

definition transport_event :: "transport_options \<Rightarrow> nat \<Rightarrow> transport_event \<Rightarrow> origin_pool \<Rightarrow> origin_pool" where
  "transport_event opts i e p =
     (let (t, effs) = transport_next opts (og_transport (origin_of i p)) e
      in fold (onConnectionReleased i) (concat (map (released_by t) effs)) (transport_op i (\<lambda>t. transport_next opts t e) p))"

text \<open>\<open>openConnection\<close> of the origin; a transport that is stopped refuses, and the connection is released again.\<close>

definition origin_openConnection :: "transport_options \<Rightarrow> nat \<Rightarrow> connection_open \<Rightarrow> origin_pool \<Rightarrow> origin_pool" where
  "origin_openConnection opts i c p =
     (if \<not> og_acceptingConnections (origin_of i p) then pool_emit (PL_Ignored (co_connId c)) p
      else (let p1 = onConnectionOwned i (co_connId c) p; refused = dt_stopped (og_transport (origin_of i p1));
                p2 = transport_op i (openConnection opts c) p1
            in if refused then onConnectionReleased i (co_connId c) p2 else p2))"

text \<open>\<open>activate\<close>; the flag is false when it throws, before anything but the transport may have changed.\<close>

definition activate :: "nat \<Rightarrow> nat \<Rightarrow> hello_ack \<Rightarrow> origin_pool \<Rightarrow> origin_pool \<times> bool" where
  "activate i c ack p =
     (if ak_generation ack \<le> 0 then (p, False)
      else if Dt_Threw \<in> set (snd (transport_setGeneration (ak_generation ack) (og_transport (origin_of i p)))) then (p, False)
      else (let p1 = upd_origin i (\<lambda>x. x\<lparr>og_transport := fst (transport_setGeneration (ak_generation ack) (og_transport x)),
                       og_generation := ak_generation ack, og_controlResumeSecret := Some (ak_controlResumeSecret ack),
                       og_leaseExpiresAt := ak_leaseExpiresAt ack, og_activeControl := Some c\<rparr>) p
            in (fold (onConnectionOwned i) (ak_activeConnIds ack) p1, True)))"

section \<open>Rebinding and rotation\<close>

definition rebind_refused :: "nat \<Rightarrow> relay_assignment \<Rightarrow> origin_pool \<Rightarrow> bool" where
  "rebind_refused i a p \<longleftrightarrow>
     ra_cellUrl a \<noteq> ra_cellUrl (og_assignment (origin_of i p)) \<or>
     og_controlResumeSecret (origin_of i p) = None \<or> og_controlResumeSecret (origin_of i p) = Some [] \<or> og_generation (origin_of i p) \<le> 0"

text \<open>\<open>rebind\<close> after its await.\<close>

definition rebound :: "nat \<Rightarrow> nat option \<Rightarrow> origin_pool \<Rightarrow> origin_pool" where
  "rebound i previous p =
     (let p1 = upd_origin i (\<lambda>x. x\<lparr>og_acceptingConnections := True\<rparr>) p
      in case previous of
           None \<Rightarrow> p1
         | Some c \<Rightarrow>
             (if ct_requests (pl_controls p1 ! c) = 0 then closeRetiredControl i c p1
              else upd_origin i (\<lambda>x. x\<lparr>og_retiredControlTimers := og_retiredControlTimers x @ [c]\<rparr>) p1))"

record clock =
  ck_now :: rat
  ck_random :: rat

definition rotation_delay :: "clock \<Rightarrow> rat \<Rightarrow> rat" where
  "rotation_delay ck lease = max 0 (lease - (60000 + of_int \<lfloor>ck_random ck * 60001\<rfloor>) - ck_now ck)"

definition scheduleControlRotation :: "clock \<Rightarrow> origin_pool \<Rightarrow> origin_pool" where
  "scheduleControlRotation ck p =
     (case pl_activeOrigin p of
        None \<Rightarrow> p\<lparr>pl_rotationTimer := None\<rparr>
      | Some i \<Rightarrow>
          (if pl_closed p then p\<lparr>pl_rotationTimer := None\<rparr>
           else pool_emit (PL_Rotate_In (rotation_delay ck (og_leaseExpiresAt (origin_of i p)))) (p\<lparr>pl_rotationTimer := Some i\<rparr>)))"

definition add_task :: "pool_task \<Rightarrow> origin_pool \<Rightarrow> origin_pool" where
  "add_task t p = p\<lparr>pl_tasks := pl_tasks p @ [t]\<rparr>"

text \<open>The \<open>catch\<close> of \<open>rebindActiveControl\<close>.\<close>

definition rotation_failed :: "nat \<Rightarrow> origin_pool \<Rightarrow> origin_pool" where
  "rotation_failed i p = (if pool_isCurrent p \<and> pl_activeOrigin p = Some i then p\<lparr>pl_rotationTimer := Some i\<rparr> else p)"

definition rebindActiveControl :: "nat \<Rightarrow> origin_pool \<Rightarrow> origin_pool" where
  "rebindActiveControl i p0 =
     (let p = p0\<lparr>pl_rotationTimer := None\<rparr>
      in if \<not> pool_isCurrent p \<or> pl_activeOrigin p \<noteq> Some i \<or> pl_rotationPromise p then p
         else (case (pl_relayJwt p, pl_assignment p) of
                 (Some jwt, Some a) \<Rightarrow>
                   (if jwt = [] then p
                    else if rebind_refused i a p then rotation_failed i p
                    else (let previous = og_activeControl (origin_of i p); (c, p1) = openControl i p
                          in add_task (Rebinding_Active i c previous) p1))
               | _ \<Rightarrow> p))"

section \<open>Draining\<close>

text \<open>The \<open>catch\<close> of \<open>resolveDrainTarget\<close> and the \<open>finally\<close> after it.\<close>

definition drain_failed :: "nat \<Rightarrow> rat \<Rightarrow> origin_pool \<Rightarrow> origin_pool" where
  "drain_failed i graceMs p =
     (if pool_isCurrent p then p\<lparr>pl_retries := pl_retries p @ [(i, graceMs)], pl_rotationPromise := False\<rparr>
      else p\<lparr>pl_rotationPromise := False\<rparr>)"

definition drain_done :: "clock \<Rightarrow> origin_pool \<Rightarrow> origin_pool" where
  "drain_done ck p = (scheduleControlRotation ck (pool_emit (PL_Status Pool_Registered) p))\<lparr>pl_rotationPromise := False\<rparr>"

definition handleDrain :: "nat \<Rightarrow> rat \<Rightarrow> origin_pool \<Rightarrow> origin_pool" where
  "handleDrain i graceMs p =
     (if \<not> pool_isCurrent p \<or> pl_activeOrigin p \<noteq> Some i then p
      else (let p1 = upd_origin i (\<lambda>x. x\<lparr>og_acceptingConnections := False\<rparr>) p;
                p2 = pool_emit (PL_Status Pool_Draining) (p1\<lparr>pl_drainingOrigins := List.insert i (pl_drainingOrigins p1)\<rparr>)
            in if pl_rotationPromise p2 then p2
               else if pl_relayJwt p2 = None \<or> pl_relayJwt p2 = Some [] then drain_failed i graceMs p2
               else add_task (Resolving i graceMs) (p2\<lparr>pl_rotationPromise := True\<rparr>)))"

text \<open>\<open>activateTarget\<close> up to its await.\<close>

definition activateTarget :: "nat \<Rightarrow> relay_assignment \<Rightarrow> rat \<Rightarrow> origin_pool \<Rightarrow> origin_pool" where
  "activateTarget i a graceMs p =
     (let target = length (pl_store p); p1 = p\<lparr>pl_store := pl_store p @ [origin_new a], pl_origins := pl_origins p @ [target]\<rparr>;
          (c, p2) = openControl target p1
      in add_task (Activating i target c a graceMs) p2)"

definition target_failed :: "nat \<Rightarrow> nat \<Rightarrow> rat \<Rightarrow> origin_pool \<Rightarrow> origin_pool" where
  "target_failed i target graceMs p =
     drain_failed i graceMs (origin_close target (p\<lparr>pl_origins := removeAll target (pl_origins p)\<rparr>))"

definition scheduleDrainDeadline :: "nat \<Rightarrow> origin_pool \<Rightarrow> origin_pool" where
  "scheduleDrainDeadline i p = p\<lparr>pl_drainTimers := List.insert i (pl_drainTimers p)\<rparr>"

text \<open>\<open>resolveDrainTarget\<close> after the director's answer.\<close>

definition target_assigned :: "nat \<Rightarrow> rat \<Rightarrow> relay_assignment option \<Rightarrow> origin_pool \<Rightarrow> origin_pool" where
  "target_assigned i graceMs answer p =
     (case answer of
        None \<Rightarrow> drain_failed i graceMs p
      | Some a \<Rightarrow>
          (if \<not> pool_isCurrent p then drain_failed i graceMs p
           else if ra_cellUrl a = ra_cellUrl (og_assignment (origin_of i p))
           then (if rebind_refused i a p then activateTarget i a graceMs p
                 else (let previous = og_activeControl (origin_of i p); (c, p1) = openControl i p
                       in add_task (Rebinding_Drained i c previous a graceMs) p1))
           else activateTarget i a graceMs p))"

definition drained_rebound :: "clock \<Rightarrow> nat \<Rightarrow> nat option \<Rightarrow> relay_assignment \<Rightarrow> rat \<Rightarrow> origin_pool \<Rightarrow> origin_pool" where
  "drained_rebound ck i previous a graceMs p =
     (let p1 = rebound i previous p
      in if \<not> pool_isCurrent p1 then drain_failed i graceMs p1
         else drain_done ck (p1\<lparr>pl_activeOrigin := Some i, pl_assignment := Some a,
                pl_drainingOrigins := removeAll i (pl_drainingOrigins p1)\<rparr>))"

definition target_activated :: "clock \<Rightarrow> nat \<Rightarrow> nat \<Rightarrow> relay_assignment \<Rightarrow> rat \<Rightarrow> origin_pool \<Rightarrow> origin_pool" where
  "target_activated ck i target a graceMs p =
     (if \<not> pool_isCurrent p then target_failed i target graceMs p
      else drain_done ck (maybeCloseDrainedOrigin i (scheduleDrainDeadline i (p\<lparr>pl_activeOrigin := Some target, pl_assignment := Some a\<rparr>))))"

section \<open>The pool\<close>

definition openInitial :: "relay_assignment \<Rightarrow> string \<Rightarrow> origin_pool \<Rightarrow> origin_pool" where
  "openInitial a relayJwt p =
     (let i = length (pl_store p);
          p1 = p\<lparr>pl_assignment := Some a, pl_relayJwt := Some relayJwt, pl_store := pl_store p @ [origin_new a], pl_origins := pl_origins p @ [i]\<rparr>;
          (c, p2) = openControl i p1
      in add_task (Opening_Initial i c) p2)"

definition initial_opened :: "clock \<Rightarrow> nat \<Rightarrow> origin_pool \<Rightarrow> origin_pool" where
  "initial_opened ck i p =
     (if \<not> pool_isCurrent p then pool_emit PL_Open_Failed p
      else pool_emit PL_Opened (scheduleControlRotation ck (p\<lparr>pl_activeOrigin := Some i\<rparr>)))"

definition pool_refreshAuthorization :: "string \<Rightarrow> origin_pool \<Rightarrow> origin_pool" where
  "pool_refreshAuthorization relayJwt p =
     p\<lparr>pl_relayJwt := Some relayJwt,
       pl_trace := pl_trace p @ map (\<lambda>c. PL_Auth_Refresh c relayJwt) (concat (map (\<lambda>i. og_controls (origin_of i p)) (pl_origins p)))\<rparr>"

definition pool_closeNow :: "origin_pool \<Rightarrow> origin_pool" where
  "pool_closeNow p =
     (if pl_closed p then p
      else (let p1 = fold origin_close (pl_origins p) (p\<lparr>pl_closed := True, pl_rotationTimer := None, pl_drainTimers := []\<rparr>)
            in p1\<lparr>pl_origins := [], pl_drainingOrigins := [], pl_basisOrigins := [], pl_activeOrigin := None\<rparr>))"

definition activeControl :: "origin_pool \<Rightarrow> nat option" where
  "activeControl p = (case pl_activeOrigin p of Some i \<Rightarrow> og_activeControl (origin_of i p) | None \<Rightarrow> None)"

definition controlForBasis :: "string \<Rightarrow> origin_pool \<Rightarrow> nat option" where
  "controlForBasis basisConnId p =
     (case map_of (pl_basisOrigins p) basisConnId of Some i \<Rightarrow> og_activeControl (origin_of i p) | None \<Rightarrow> None)"

section \<open>Events\<close>

datatype pool_event =
    PV_Open_Initial relay_assignment string
  | PV_Refresh_Authorization string
  | PV_Close
  | PV_Stale
  | PV_Connected nat clock hello_ack
  | PV_Connect_Failed nat
  | PV_Assigned nat "relay_assignment option"
  | PV_Drain nat rat
  | PV_Connection_Open transport_options nat connection_open
  | PV_Control_Closed nat
  | PV_Requests nat nat
  | PV_Transport transport_options nat transport_event
  | PV_Drain_Timer nat
  | PV_Rotation_Timer
  | PV_Retired_Timer nat
  | PV_Retry_Timer nat

fun task_control :: "pool_task \<Rightarrow> nat option" where
  "task_control (Opening_Initial i c) = Some c"
| "task_control (Resolving i g) = None"
| "task_control (Rebinding_Drained i c prev a g) = Some c"
| "task_control (Activating i t c a g) = Some c"
| "task_control (Rebinding_Active i c prev) = Some c"

definition without_task :: "nat \<Rightarrow> origin_pool \<Rightarrow> origin_pool" where
  "without_task n p = p\<lparr>pl_tasks := take n (pl_tasks p) @ drop (Suc n) (pl_tasks p)\<rparr>"

text \<open>A suspended call resumes with the acknowledgement, or with the failure of the connection.\<close>

fun connected_task :: "pool_task \<Rightarrow> clock \<Rightarrow> hello_ack \<Rightarrow> origin_pool \<Rightarrow> origin_pool" where
  "connected_task (Opening_Initial i c) ck ack p =
     (let (p1, ok) = activate i c ack p in if ok then initial_opened ck i p1 else pool_emit PL_Open_Failed p1)"
| "connected_task (Resolving i g) ck ack p = p"
| "connected_task (Rebinding_Drained i c prev a g) ck ack p =
     (let (p1, ok) = activate i c ack p in if ok then drained_rebound ck i prev a g p1 else activateTarget i a g p1)"
| "connected_task (Activating i t c a g) ck ack p =
     (let (p1, ok) = activate t c ack p in if ok then target_activated ck i t a g p1 else target_failed i t g p1)"
| "connected_task (Rebinding_Active i c prev) ck ack p =
     (let (p1, ok) = activate i c ack p
      in if \<not> ok then rotation_failed i p1
         else (let p2 = rebound i prev p1 in if pool_isCurrent p2 then scheduleControlRotation ck p2 else rotation_failed i p2))"

fun failed_task :: "pool_task \<Rightarrow> origin_pool \<Rightarrow> origin_pool" where
  "failed_task (Opening_Initial i c) p = pool_emit PL_Open_Failed (drop_control i c p)"
| "failed_task (Resolving i g) p = p"
| "failed_task (Rebinding_Drained i c prev a g) p = activateTarget i a g (drop_control i c p)"
| "failed_task (Activating i t c a g) p = target_failed i t g (drop_control t c p)"
| "failed_task (Rebinding_Active i c prev) p = rotation_failed i (drop_control i c p)"

text \<open>A control's socket closes; the origin's callback, and the pool's when the control was the active one.\<close>

definition control_closed :: "nat \<Rightarrow> origin_pool \<Rightarrow> origin_pool" where
  "control_closed c p =
     (let i = ct_origin (pl_controls p ! c);
          was_active = (og_activeControl (origin_of i p) = Some c);
          p1 = close_control c (upd_origin i (\<lambda>x. x\<lparr>og_controls := removeAll c (og_controls x),
                 og_retiredControlTimers := removeAll c (og_retiredControlTimers x),
                 og_activeControl := (if og_activeControl x = Some c then None else og_activeControl x)\<rparr>) p)
      in if was_active \<and> pl_activeOrigin p1 = Some i \<and> pool_isCurrent p1
         then handleDrain i 0 (pool_emit (PL_Status Pool_Offline) p1) else p1)"

definition open_control :: "nat \<Rightarrow> origin_pool \<Rightarrow> bool" where
  "open_control c p \<longleftrightarrow> c < length (pl_controls p) \<and> \<not> ct_closed (pl_controls p ! c)"

definition connecting :: "nat \<Rightarrow> origin_pool \<Rightarrow> bool" where
  "connecting c p \<longleftrightarrow> Some c \<in> set (map task_control (pl_tasks p))"

definition settles :: "nat \<Rightarrow> origin_pool \<Rightarrow> bool" where
  "settles n p \<longleftrightarrow> n < length (pl_tasks p) \<and>
     (case task_control (pl_tasks p ! n) of Some c \<Rightarrow> open_control c p | None \<Rightarrow> False)"

fun pool_step :: "origin_pool \<Rightarrow> pool_event \<Rightarrow> origin_pool" where
  "pool_step p (PV_Open_Initial a jwt) = (if pl_store p = [] \<and> pool_isCurrent p then openInitial a jwt p else p)"
| "pool_step p (PV_Refresh_Authorization jwt) = pool_refreshAuthorization jwt p"
| "pool_step p PV_Close = pool_closeNow p"
| "pool_step p PV_Stale = p\<lparr>pl_current := False\<rparr>"
| "pool_step p (PV_Connected n ck ack) = (if settles n p then connected_task (pl_tasks p ! n) ck ack (without_task n p) else p)"
| "pool_step p (PV_Connect_Failed n) = (if settles n p then failed_task (pl_tasks p ! n) (without_task n p) else p)"
| "pool_step p (PV_Assigned n answer) =
     (if n < length (pl_tasks p)
      then (case pl_tasks p ! n of Resolving i g \<Rightarrow> target_assigned i g answer (without_task n p) | _ \<Rightarrow> p) else p)"
| "pool_step p (PV_Drain c g) = (if open_control c p \<and> \<not> connecting c p then handleDrain (ct_origin (pl_controls p ! c)) g p else p)"
| "pool_step p (PV_Connection_Open opts c conn) =
     (if open_control c p \<and> \<not> connecting c p then origin_openConnection opts (ct_origin (pl_controls p ! c)) conn p else p)"
| "pool_step p (PV_Control_Closed c) = (if open_control c p \<and> \<not> connecting c p then control_closed c p else p)"
| "pool_step p (PV_Requests c n) =
     (if open_control c p then p\<lparr>pl_controls := (pl_controls p)[c := (pl_controls p ! c)\<lparr>ct_requests := n\<rparr>]\<rparr> else p)"
| "pool_step p (PV_Transport opts i e) = (if i < length (pl_store p) then transport_event opts i e p else p)"
| "pool_step p (PV_Drain_Timer i) = (if i \<in> set (pl_drainTimers p) then closeOrigin i p else p)"
| "pool_step p PV_Rotation_Timer = (case pl_rotationTimer p of Some i \<Rightarrow> rebindActiveControl i p | None \<Rightarrow> p)"
| "pool_step p (PV_Retired_Timer c) =
     (if c < length (pl_controls p) \<and> ct_origin (pl_controls p ! c) < length (pl_store p) \<and>
         c \<in> set (og_retiredControlTimers (origin_of (ct_origin (pl_controls p ! c)) p))
      then closeRetiredControl (ct_origin (pl_controls p ! c)) c p else p)"
| "pool_step p (PV_Retry_Timer n) =
     (if n < length (pl_retries p)
      then handleDrain (fst (pl_retries p ! n)) (snd (pl_retries p ! n))
             (p\<lparr>pl_retries := take n (pl_retries p) @ drop (Suc n) (pl_retries p)\<rparr>) else p)"

definition pool_run :: "pool_event list \<Rightarrow> origin_pool" where
  "pool_run es = foldl pool_step pool_new es"

section \<open>What the helpers leave alone\<close>

text \<open>The fields beside the stores, the basis table and the trace.\<close>

definition frame_of :: "origin_pool \<Rightarrow> (nat option \<times> nat list \<times> nat list \<times> nat list \<times> nat option) \<times> (bool \<times> bool \<times> bool \<times> pool_task list)" where
  "frame_of p = ((pl_activeOrigin p, pl_origins p, pl_drainTimers p, pl_drainingOrigins p, pl_rotationTimer p),
     (pl_rotationPromise p, pl_closed p, pl_current p, pl_tasks p))"

definition core :: "relay_origin \<Rightarrow> nat list \<times> nat option \<times> bool" where
  "core x = (og_controls x, og_activeControl x, og_closed x)"

definition tie :: "control_ref \<Rightarrow> nat \<times> bool" where
  "tie k = (ct_origin k, ct_closed k)"

text \<open>Two states with the same cores, links, frame and basis table are the same for the invariant.\<close>

definition same_pool :: "origin_pool \<Rightarrow> origin_pool \<Rightarrow> bool" where
  "same_pool p q \<longleftrightarrow> map core (pl_store p) = map core (pl_store q) \<and> map tie (pl_controls p) = map tie (pl_controls q) \<and>
     frame_of p = frame_of q \<and> pl_basisOrigins p = pl_basisOrigins q"

lemma same_refl [simp, intro]: "same_pool p p"
  by (simp add: same_pool_def)

lemma same_trans [trans]: "same_pool p q \<Longrightarrow> same_pool q r \<Longrightarrow> same_pool p r"
  by (simp add: same_pool_def)

lemma same_upd: "(\<And>x. core (g x) = core x) \<Longrightarrow> same_pool (upd_origin i g p) p"
  by (cases "i < length (pl_store p)") (auto simp: same_pool_def upd_origin_def frame_of_def map_update list_update_beyond intro!: nth_equalityI simp: nth_list_update)

lemma same_emit: "same_pool (pool_emit e p) p"
  by (simp add: same_pool_def pool_emit_def frame_of_def)

lemma same_transport: "same_pool (transport_op i g p) p"
proof -
  have "same_pool (upd_origin i (\<lambda>x. x\<lparr>og_transport := t\<rparr>) p) p" for t
    by (rule same_upd) (simp add: core_def)
  then show ?thesis by (simp add: transport_op_def Let_def split_beta same_pool_def frame_of_def)
qed

section \<open>Cells: origins and controls without their details\<close>

type_synonym cell = "nat list \<times> nat option \<times> bool"

definition cells :: "origin_pool \<Rightarrow> cell list" where
  "cells p = map core (pl_store p)"

definition ties :: "origin_pool \<Rightarrow> (nat \<times> bool) list" where
  "ties p = map tie (pl_controls p)"

definition cell_ok :: "(nat \<times> bool) list \<Rightarrow> nat \<Rightarrow> cell \<Rightarrow> bool" where
  "cell_ok ks i x \<longleftrightarrow> (snd (snd x) \<longrightarrow> fst x = []) \<and> (\<forall>c. fst (snd x) = Some c \<longrightarrow> c \<in> set (fst x)) \<and>
     (\<forall>c \<in> set (fst x). c < length ks \<and> ks ! c = (i, False))"

definition cells_ok :: "cell list \<Rightarrow> (nat \<times> bool) list \<Rightarrow> bool" where
  "cells_ok xs ks \<longleftrightarrow> (\<forall>i < length xs. cell_ok ks i (xs ! i)) \<and>
     (\<forall>c i. c < length ks \<and> ks ! c = (i, False) \<longrightarrow> i < length xs \<and> c \<in> set (fst (xs ! i)))"

definition close_ties :: "nat list \<Rightarrow> (nat \<times> bool) list \<Rightarrow> (nat \<times> bool) list" where
  "close_ties cs ks = fold (\<lambda>c ks. ks[c := (fst (ks ! c), True)]) cs ks"

lemma length_close_ties [simp]: "length (close_ties cs ks) = length ks"
  unfolding close_ties_def by (induction cs arbitrary: ks) auto

lemma nth_upd: "j < length xs \<Longrightarrow> xs[i := v] ! j = (if j = i then v else xs ! j)"
  by (simp add: nth_list_update)

lemma nth_close_ties: "c < length ks \<Longrightarrow> close_ties cs ks ! c = (fst (ks ! c), snd (ks ! c) \<or> c \<in> set cs)"
proof (induction cs arbitrary: ks)
  case Nil
  then show ?case by (simp add: close_ties_def)
next
  case (Cons d cs)
  have "close_ties (d # cs) ks = close_ties cs (ks[d := (fst (ks ! d), True)])" by (simp add: close_ties_def)
  with Cons.IH [of "ks[d := (fst (ks ! d), True)]"] Cons.prems show ?case by (auto simp: nth_upd)
qed

lemma cells_okI:
  assumes "\<And>i. i < length xs \<Longrightarrow> cell_ok ks i (xs ! i)"
    and "\<And>c i. c < length ks \<Longrightarrow> ks ! c = (i, False) \<Longrightarrow> i < length xs \<and> c \<in> set (fst (xs ! i))"
  shows "cells_ok xs ks"
  unfolding cells_ok_def using assms by blast

lemma cells_cellD: "cells_ok xs ks \<Longrightarrow> i < length xs \<Longrightarrow> cell_ok ks i (xs ! i)"
  by (simp add: cells_ok_def)

lemma cells_tieD: "cells_ok xs ks \<Longrightarrow> c < length ks \<Longrightarrow> ks ! c = (i, False) \<Longrightarrow> i < length xs \<and> c \<in> set (fst (xs ! i))"
  by (simp add: cells_ok_def)

lemma cell_controlD: "cell_ok ks i x \<Longrightarrow> c \<in> set (fst x) \<Longrightarrow> c < length ks \<and> ks ! c = (i, False)"
  by (simp add: cell_ok_def)

lemma cells_ok_close:
  assumes ok: "cells_ok xs ks" and i: "i < length xs"
  shows "cells_ok (xs[i := ([], None, True)]) (close_ties (fst (xs ! i)) ks)"
proof (rule cells_okI)
  fix j assume "j < length (xs[i := ([], None, True)])"
  then have j: "j < length xs" by simp
  show "cell_ok (close_ties (fst (xs ! i)) ks) j (xs[i := ([], None, True)] ! j)"
  proof (cases "j = i")
    case True
    then show ?thesis using i by (simp add: cell_ok_def)
  next
    case False
    note cell = cells_cellD [OF ok j]
    have "c < length ks \<and> close_ties (fst (xs ! i)) ks ! c = (j, False)" if c: "c \<in> set (fst (xs ! j))" for c
    proof -
      have "c < length ks" "ks ! c = (j, False)" using cell_controlD [OF cell c] by auto
      moreover have "c \<notin> set (fst (xs ! i))"
        using cell_controlD [OF cells_cellD [OF ok i], of c] \<open>ks ! c = (j, False)\<close> False by auto
      ultimately show ?thesis by (simp add: nth_close_ties)
    qed
    then show ?thesis using cell False by (simp add: cell_ok_def)
  qed
next
  fix c j assume "c < length (close_ties (fst (xs ! i)) ks)" "close_ties (fst (xs ! i)) ks ! c = (j, False)"
  then have c: "c < length ks" "ks ! c = (j, False)" "c \<notin> set (fst (xs ! i))"
    by (auto simp: nth_close_ties prod_eq_iff)
  from cells_tieD [OF ok c(1,2)] c(3) show "j < length (xs[i := ([], None, True)]) \<and> c \<in> set (fst (xs[i := ([], None, True)] ! j))"
    by (auto simp: nth_upd)
qed

lemma cells_ok_new: 
  assumes "cells_ok xs ks"
  shows "cells_ok (xs @ [([], None, False)]) ks"
proof (rule cells_okI)
  fix i assume "i < length (xs @ [([], None, False)])"
  then show "cell_ok ks i ((xs @ [([], None, False)]) ! i)"
    using cells_cellD [OF assms, of i] by (cases "i < length xs") (auto simp: nth_append cell_ok_def)
next
  fix c i assume "c < length ks" "ks ! c = (i, False)"
  from cells_tieD [OF assms this] show "i < length (xs @ [([], None, False)]) \<and> c \<in> set (fst ((xs @ [([], None, False)]) ! i))"
    by (simp add: nth_append)
qed

lemma cells_ok_open:
  assumes ok: "cells_ok xs ks" and i: "i < length xs" "\<not> snd (snd (xs ! i))"
  shows "cells_ok (xs[i := (fst (xs ! i) @ [length ks], fst (snd (xs ! i)), False)]) (ks @ [(i, False)])" (is "cells_ok ?xs ?ks")
proof (rule cells_okI)
  fix j assume "j < length ?xs"
  then have j: "j < length xs" by simp
  note cell = cells_cellD [OF ok j]
  show "cell_ok ?ks j (?xs ! j)"
    using cell i j by (auto simp: nth_upd cell_ok_def nth_append)
next
  fix c j assume c: "c < length ?ks" "?ks ! c = (j, False)"
  show "j < length ?xs \<and> c \<in> set (fst (?xs ! j))"
  proof (cases "c = length ks")
    case True
    then show ?thesis using c i by (simp add: nth_upd)
  next
    case False
    then have "c < length ks" "ks ! c = (j, False)" using c by (auto simp: nth_append)
    from cells_tieD [OF ok this] show ?thesis by (auto simp: nth_upd)
  qed
qed

lemma cells_ok_drop:
  assumes ok: "cells_ok xs ks" and c: "c < length ks" "ks ! c = (i, False)" and a: "act = None \<or> act = fst (snd (xs ! i)) \<and> act \<noteq> Some c"
  shows "cells_ok (xs[i := (removeAll c (fst (xs ! i)), act, snd (snd (xs ! i)))]) (ks[c := (i, True)])" (is "cells_ok ?xs ?ks")
proof (rule cells_okI)
  have i: "i < length xs" using cells_tieD [OF ok c] by simp
  fix j assume "j < length ?xs"
  then have j: "j < length xs" by simp
  note cell = cells_cellD [OF ok j]
  show "cell_ok ?ks j (?xs ! j)"
  proof (cases "j = i")
    case True
    then show ?thesis using cell a i by (auto simp: cell_ok_def nth_upd)
  next
    case False
    then have "c \<notin> set (fst (xs ! j))" using cell_controlD [OF cell] c(2) by auto
    then show ?thesis using cell False j by (auto simp: cell_ok_def nth_upd)
  qed
next
  fix d j assume d: "d < length ?ks" "?ks ! d = (j, False)"
  then have "d < length ks" "d \<noteq> c" "ks ! d = (j, False)" by (auto simp: nth_upd split: if_splits)
  with cells_tieD [OF ok this(1,3)] show "j < length ?xs \<and> d \<in> set (fst (?xs ! j))" by (auto simp: nth_upd)
qed

lemma cells_ok_activate:
  assumes ok: "cells_ok xs ks" and c: "c < length ks" "ks ! c = (i, False)"
  shows "cells_ok (xs[i := (fst (xs ! i), Some c, snd (snd (xs ! i)))]) ks" (is "cells_ok ?xs ks")
proof (rule cells_okI)
  fix j assume "j < length ?xs"
  then have j: "j < length xs" by simp
  show "cell_ok ks j (?xs ! j)"
    using cells_cellD [OF ok j] cells_tieD [OF ok c] j by (auto simp: nth_upd cell_ok_def)
next
  fix d j assume "d < length ks" "ks ! d = (j, False)"
  from cells_tieD [OF ok this] show "j < length ?xs \<and> d \<in> set (fst (?xs ! j))" by (auto simp: nth_upd)
qed

section \<open>The operations on cells\<close>

lemma cells_upd: "i < length (pl_store p) \<Longrightarrow> cells (upd_origin i g p) = (cells p)[i := core (g (pl_store p ! i))]"
  by (simp add: cells_def upd_origin_def map_update)

lemma ties_upd [simp]: "ties (upd_origin i g p) = ties p"
  by (simp add: ties_def upd_origin_def)

lemma frame_upd [simp]: "frame_of (upd_origin i g p) = frame_of p" "pl_basisOrigins (upd_origin i g p) = pl_basisOrigins p"
  by (simp_all add: frame_of_def upd_origin_def)

lemma close_control_view [simp]:
  "cells (close_control c p) = cells p" "frame_of (close_control c p) = frame_of p" "pl_basisOrigins (close_control c p) = pl_basisOrigins p"
  "pl_store (close_control c p) = pl_store p"
  by (simp_all add: cells_def frame_of_def close_control_def)

lemma ties_close_control: "ties (close_control c p) = (ties p)[c := (fst (ties p ! c), True)]"
  by (cases "c < length (pl_controls p)") (simp_all add: ties_def close_control_def map_update tie_def list_update_beyond)

lemma close_controls_view:
  "cells (fold close_control cs p) = cells p" "frame_of (fold close_control cs p) = frame_of p"
  "pl_basisOrigins (fold close_control cs p) = pl_basisOrigins p" "pl_store (fold close_control cs p) = pl_store p"
  "ties (fold close_control cs p) = close_ties cs (ties p)"
  by (induction cs arbitrary: p) (auto simp: close_ties_def ties_close_control)

lemma same_views: "same_pool p q \<longleftrightarrow> cells p = cells q \<and> ties p = ties q \<and> frame_of p = frame_of q \<and> pl_basisOrigins p = pl_basisOrigins q"
  by (simp add: same_pool_def cells_def ties_def)

lemma transport_views [simp]:
  "cells (transport_op i g p) = cells p" "ties (transport_op i g p) = ties p" "frame_of (transport_op i g p) = frame_of p"
  "pl_basisOrigins (transport_op i g p) = pl_basisOrigins p"
  using same_transport [of i g p] by (simp_all add: same_views)

lemma emit_views [simp]:
  "cells (pool_emit e p) = cells p" "ties (pool_emit e p) = ties p" "frame_of (pool_emit e p) = frame_of p"
  "pl_basisOrigins (pool_emit e p) = pl_basisOrigins p"
  using same_emit [of e p] by (simp_all add: same_views)

lemma length_cells [simp]: "length (cells p) = length (pl_store p)"
  by (simp add: cells_def)

lemma length_ties [simp]: "length (ties p) = length (pl_controls p)"
  by (simp add: ties_def)

lemma cells_nth: "i < length (pl_store p) \<Longrightarrow> cells p ! i = core (pl_store p ! i)"
  by (simp add: cells_def)

lemma origin_close_views:
  assumes "i < length (pl_store p)" "cells_ok (cells p) (ties p)"
  shows "cells (origin_close i p) = (cells p)[i := ([], None, True)] \<and> ties (origin_close i p) = close_ties (fst (cells p ! i)) (ties p) \<and>
    frame_of (origin_close i p) = frame_of p \<and> pl_basisOrigins (origin_close i p) = pl_basisOrigins p"
proof (cases "og_closed (origin_of i p)")
  case True
  have "cells p ! i = core (origin_of i p)" using assms(1) by (simp add: cells_nth origin_of_def)
  then have "cells p ! i = ([], None, True)"
    using cells_cellD [OF assms(2), of i] assms(1) True by (cases "og_activeControl (origin_of i p)") (auto simp: core_def cell_ok_def)
  then show ?thesis
    using True by (simp add: origin_close_def close_ties_def) (metis list_update_id)
next
  case False
  then show ?thesis
    using assms(1) by (simp add: origin_close_def close_controls_view cells_upd core_def cells_nth origin_of_def)
qed

lemma openControl_views:
  assumes "i < length (pl_store p)" "\<not> snd (snd (cells p ! i))"
  shows "fst (openControl i p) = length (ties p)"
    "cells (snd (openControl i p)) = (cells p)[i := (fst (cells p ! i) @ [length (ties p)], fst (snd (cells p ! i)), False)]"
    "ties (snd (openControl i p)) = ties p @ [(i, False)]"
    "frame_of (snd (openControl i p)) = frame_of p" "pl_basisOrigins (snd (openControl i p)) = pl_basisOrigins p"
proof -
  let ?p = "p\<lparr>pl_controls := pl_controls p @ [\<lparr>ct_origin = i, ct_requests = 0, ct_closed = False\<rparr>]\<rparr>"
  have v: "cells ?p = cells p" "ties ?p = ties p @ [(i, False)]" "frame_of ?p = frame_of p"
    by (simp_all add: cells_def ties_def tie_def frame_of_def)
  show "fst (openControl i p) = length (ties p)" "ties (snd (openControl i p)) = ties p @ [(i, False)]"
    "frame_of (snd (openControl i p)) = frame_of p" "pl_basisOrigins (snd (openControl i p)) = pl_basisOrigins p"
    using v by (simp_all add: openControl_def Let_def)
  show "cells (snd (openControl i p)) = (cells p)[i := (fst (cells p ! i) @ [length (ties p)], fst (snd (cells p ! i)), False)]"
    using assms v by (simp add: openControl_def Let_def cells_upd core_def cells_nth)
qed

lemma drop_control_views:
  assumes "c < length (ties p)" "ties p ! c = (i, False)" "i < length (pl_store p)"
  shows "cells (drop_control i c p) = (cells p)[i := (removeAll c (fst (cells p ! i)), fst (snd (cells p ! i)), snd (snd (cells p ! i)))]"
    "ties (drop_control i c p) = (ties p)[c := (i, True)]"
    "frame_of (drop_control i c p) = frame_of p" "pl_basisOrigins (drop_control i c p) = pl_basisOrigins p"
  using assms by (simp_all add: drop_control_def ties_close_control cells_upd core_def cells_nth)

section \<open>The invariant\<close>

definition controls_of :: "pool_task list \<Rightarrow> nat list" where
  "controls_of ts = List.map_filter task_control ts"

fun task_tied :: "(nat \<times> bool) list \<Rightarrow> pool_task \<Rightarrow> bool" where
  "task_tied ks (Opening_Initial i c) \<longleftrightarrow> fst (ks ! c) = i"
| "task_tied ks (Resolving i g) \<longleftrightarrow> True"
| "task_tied ks (Rebinding_Drained i c prev a g) \<longleftrightarrow> fst (ks ! c) = i"
| "task_tied ks (Activating i t c a g) \<longleftrightarrow> fst (ks ! c) = t"
| "task_tied ks (Rebinding_Active i c prev) \<longleftrightarrow> fst (ks ! c) = i"

fun drain_origin :: "pool_task \<Rightarrow> nat option" where
  "drain_origin (Resolving i g) = Some i"
| "drain_origin (Rebinding_Drained i c prev a g) = Some i"
| "drain_origin (Activating i t c a g) = Some i"
| "drain_origin _ = None"

fun target_of :: "pool_task \<Rightarrow> nat option" where
  "target_of (Activating i t c a g) = Some t"
| "target_of _ = None"

fun initial_task :: "pool_task \<Rightarrow> bool" where
  "initial_task (Opening_Initial i c) = True"
| "initial_task _ = False"

definition idle :: "cell list \<Rightarrow> nat \<Rightarrow> bool" where
  "idle xs c \<longleftrightarrow> (\<forall>x \<in> set xs. fst (snd x) \<noteq> Some c)"

definition open_cells :: "cell list \<Rightarrow> nat set" where
  "open_cells xs = {i. i < length xs \<and> \<not> snd (snd (xs ! i))}"

text \<open>The tables of the pool name open origins; a closed pool has nothing left.\<close>

definition sets_ok :: "origin_pool \<Rightarrow> bool" where
  "sets_ok p \<longleftrightarrow> set (pl_origins p) = open_cells (cells p) \<and>
     (\<forall>i. pl_activeOrigin p = Some i \<longrightarrow> i \<in> set (pl_origins p) \<and> i \<notin> set (pl_drainTimers p)) \<and>
     set (pl_drainTimers p) \<subseteq> set (pl_origins p) \<and>
     snd ` set (pl_basisOrigins p) \<subseteq> {..<length (cells p)} \<and>
     (pl_closed p \<longrightarrow> pl_activeOrigin p = None \<and> pl_rotationTimer p = None \<and> pl_origins p = [] \<and> pl_drainingOrigins p = [])"

definition calls_ok :: "origin_pool \<Rightarrow> bool" where
  "calls_ok p \<longleftrightarrow> distinct (controls_of (pl_tasks p)) \<and>
     (\<forall>c \<in> set (controls_of (pl_tasks p)). c < length (ties p) \<and> idle (cells p) c) \<and>
     (\<forall>t \<in> set (pl_tasks p). task_tied (ties p) t)"

text \<open>
  One migration at a time, of the active origin, and no origin is forgotten. \<open>b\<close> says that the code of a migration is running,
  and \<open>l\<close> is the target it has in hand; between events there is neither.
\<close>

definition migration_ok :: "bool \<Rightarrow> nat option \<Rightarrow> origin_pool \<Rightarrow> bool" where
  "migration_ok b l p \<longleftrightarrow>
     length (List.map_filter drain_origin (pl_tasks p)) + (if b then 1 else 0) = (if pl_rotationPromise p then 1 else (0::nat)) \<and>
     (\<forall>i \<in> set (List.map_filter drain_origin (pl_tasks p)). pl_activeOrigin p = Some i) \<and>
     (\<forall>t \<in> set (List.map_filter target_of (pl_tasks p)) \<union> set_option l.
        t \<in> set (pl_origins p) \<and> t \<notin> set (pl_drainTimers p) \<and> pl_activeOrigin p \<noteq> Some t \<and> pl_activeOrigin p \<noteq> None) \<and>
     length (filter initial_task (pl_tasks p)) \<le> (if pl_activeOrigin p = None \<and> 0 < length (cells p) then 1 else 0) \<and>
     (pl_activeOrigin p = None \<longrightarrow> length (cells p) \<le> 1 \<and> \<not> pl_rotationPromise p \<and> pl_drainTimers p = []) \<and>
     (\<forall>i \<in> set (pl_drainingOrigins p). pl_activeOrigin p = Some i \<or> i \<in> set (pl_drainTimers p)) \<and>
     (\<forall>i \<in> set (pl_origins p). pl_activeOrigin p = None \<or> pl_activeOrigin p = Some i \<or> i \<in> set (pl_drainTimers p) \<or>
        i \<in> set (List.map_filter target_of (pl_tasks p)) \<or> l = Some i)"

definition pool_mid :: "bool \<Rightarrow> nat option \<Rightarrow> origin_pool \<Rightarrow> bool" where
  "pool_mid b l p \<longleftrightarrow> cells_ok (cells p) (ties p) \<and> sets_ok p \<and> calls_ok p \<and> (\<not> pl_closed p \<longrightarrow> migration_ok b l p)"

abbreviation pool_ok :: "origin_pool \<Rightarrow> bool" where
  "pool_ok \<equiv> pool_mid False None"

lemma frame_fields:
  assumes "frame_of p = frame_of q"
  shows "pl_activeOrigin p = pl_activeOrigin q" "pl_origins p = pl_origins q" "pl_drainTimers p = pl_drainTimers q"
    "pl_drainingOrigins p = pl_drainingOrigins q" "pl_rotationTimer p = pl_rotationTimer q" "pl_rotationPromise p = pl_rotationPromise q"
    "pl_closed p = pl_closed q" "pl_current p = pl_current q" "pl_tasks p = pl_tasks q"
  using assms by (simp_all add: frame_of_def)

lemma mid_cong:
  assumes "cells p = cells q" "ties p = ties q" "frame_of p = frame_of q" "pl_basisOrigins p = pl_basisOrigins q"
  shows "pool_mid b l p = pool_mid b l q"
  using assms(1,2,4) frame_fields [OF assms(3)]
  by (simp add: pool_mid_def sets_ok_def calls_ok_def migration_ok_def pool_isCurrent_def)

lemma mid_emit [simp]: "pool_mid b l (pool_emit e p) = pool_mid b l p"
  by (rule mid_cong) simp_all

lemma mid_transport [simp]: "pool_mid b l (transport_op i g p) = pool_mid b l p"
  by (rule mid_cong) simp_all

lemma mid_retries [simp]: "pool_mid b l (p\<lparr>pl_retries := rs\<rparr>) = pool_mid b l p" "pool_mid b l (p\<lparr>pl_assignment := a\<rparr>) = pool_mid b l p"
  "pool_mid b l (p\<lparr>pl_relayJwt := j\<rparr>) = pool_mid b l p" "pool_mid b l (p\<lparr>pl_trace := tr\<rparr>) = pool_mid b l p"
  by (rule mid_cong; simp add: cells_def ties_def frame_of_def)+

lemma mid_flag:
  assumes "\<And>x. core (g x) = core x"
  shows "pool_mid b l (upd_origin i g p) = pool_mid b l p"
  using same_upd [of g i p] assms by (intro mid_cong) (simp_all add: same_views)

lemma mid_closed_cells:
  assumes "pool_mid b l p" "c < length (ties p)" "ties p ! c = (i, False)"
  shows "i \<in> set (pl_origins p)" "\<not> pl_closed p" "i < length (pl_store p)" "\<not> snd (snd (cells p ! i))"
proof -
  have c: "i < length (cells p)" "c \<in> set (fst (cells p ! i))"
    using cells_tieD [of "cells p" "ties p"] assms by (auto simp: pool_mid_def)
  have "cell_ok (ties p) i (cells p ! i)" using cells_cellD [of "cells p" "ties p" i] assms(1) c(1) by (auto simp: pool_mid_def)
  with c(2) show "\<not> snd (snd (cells p ! i))" by (auto simp: cell_ok_def)
  with c(1) assms(1) show "i \<in> set (pl_origins p)" "i < length (pl_store p)" by (simp_all add: pool_mid_def sets_ok_def open_cells_def)
  then show "\<not> pl_closed p" using assms(1) by (auto simp: pool_mid_def sets_ok_def)
qed

section \<open>The operations keep the invariant\<close>

lemma midD:
  assumes "pool_mid b l p"
  shows "cells_ok (cells p) (ties p)" "sets_ok p" "calls_ok p" "\<not> pl_closed p \<Longrightarrow> migration_ok b l p"
  using assms by (simp_all add: pool_mid_def)

lemma task_tied_mono:
  assumes "task_tied ks t" "\<And>c. task_control t = Some c \<Longrightarrow> fst (ks' ! c) = fst (ks ! c)"
  shows "task_tied ks' t"
  using assms by (cases t) auto

lemma controls_of_mem: "t \<in> set ts \<Longrightarrow> task_control t = Some c \<Longrightarrow> c \<in> set (controls_of ts)"
  by (force simp: controls_of_def List.map_filter_def)

lemma calls_ok_mono:
  assumes "calls_ok p" "pl_tasks q = pl_tasks p" "length (ties p) \<le> length (ties q)"
    and "\<And>c. c < length (ties p) \<Longrightarrow> fst (ties q ! c) = fst (ties p ! c)"
    and "\<And>c. c \<in> set (controls_of (pl_tasks p)) \<Longrightarrow> idle (cells p) c \<Longrightarrow> idle (cells q) c"
  shows "calls_ok q"
  unfolding calls_ok_def assms(2)
proof (intro conjI ballI)
  show "distinct (controls_of (pl_tasks p))" using assms(1) by (simp add: calls_ok_def)
next
  fix c assume c: "c \<in> set (controls_of (pl_tasks p))"
  then have "c < length (ties p)" "idle (cells p) c" using assms(1) by (auto simp: calls_ok_def)
  then show "c < length (ties q)" "idle (cells q) c" using assms(3,5) c by auto
next
  fix t assume t: "t \<in> set (pl_tasks p)"
  then have "task_tied (ties p) t" using assms(1) by (simp add: calls_ok_def)
  then show "task_tied (ties q) t"
    using task_tied_mono [of "ties p" t "ties q"] controls_of_mem [OF t] assms(1,4) by (auto simp: calls_ok_def)
qed

lemma mid_basis:
  assumes "pool_mid b l p" "snd ` set bs \<subseteq> {..<length (cells p)}"
  shows "pool_mid b l (p\<lparr>pl_basisOrigins := bs\<rparr>)"
proof -
  let ?q = "p\<lparr>pl_basisOrigins := bs\<rparr>"
  have v: "cells ?q = cells p" "ties ?q = ties p" by (simp_all add: cells_def ties_def)
  have "sets_ok ?q" using midD(2) [OF assms(1)] assms(2) unfolding sets_ok_def v pool_isCurrent_def by auto
  moreover have "calls_ok ?q" using midD(3) [OF assms(1)] unfolding calls_ok_def v by simp
  moreover have "\<not> pl_closed p \<longrightarrow> migration_ok b l ?q" using midD(4) [OF assms(1)] unfolding migration_ok_def v by simp
  ultimately show ?thesis using midD(1) [OF assms(1)] by (simp add: pool_mid_def v)
qed

lemma mid_owners: "pool_mid b l p \<Longrightarrow> x \<in> set (pl_basisOrigins p) \<Longrightarrow> snd x < length (cells p)"
  using midD(2) [of b l p] unfolding sets_ok_def by blast

lemma mid_origins: "pool_mid b l p \<Longrightarrow> i \<in> set (pl_origins p) \<Longrightarrow> i < length (cells p)"
  using midD(2) [of b l p] unfolding sets_ok_def open_cells_def by blast

lemma set_alist_update: "set (AList.update k v al) \<subseteq> insert (k, v) (set al)"
  by (induction al) auto

lemma owned_mid: "pool_mid b l p \<Longrightarrow> pool_mid b l (onConnectionOwned i connId p)"
  using set_alist_update [of connId i "pl_basisOrigins p"] mid_owners [of b l p] mid_origins [of b l p i]
  by (fastforce simp: onConnectionOwned_def intro: mid_basis)

lemma owned_fold_mid: "pool_mid b l p \<Longrightarrow> pool_mid b l (fold (onConnectionOwned i) ids p)"
  by (induction ids arbitrary: p) (simp_all add: owned_mid)

lemma idle_upd: "idle xs c \<Longrightarrow> fst (snd x) \<noteq> Some c \<Longrightarrow> idle (xs[i := x]) c"
  using set_update_subset_insert [of xs i x] by (auto simp: idle_def)

lemma open_cells_close: "i < length xs \<Longrightarrow> open_cells (xs[i := ([], None, True)]) = open_cells xs - {i}"
  by (auto simp: open_cells_def nth_upd split: if_splits)

lemma closeOrigin_views:
  assumes "cells_ok (cells p) (ties p)" "i < length (pl_store p)" "pl_activeOrigin p \<noteq> Some i"
  shows "cells (closeOrigin i p) = (cells p)[i := ([], None, True)] \<and> ties (closeOrigin i p) = close_ties (fst (cells p ! i)) (ties p) \<and>
    frame_of (closeOrigin i p) = frame_of (p\<lparr>pl_drainTimers := removeAll i (pl_drainTimers p),
      pl_drainingOrigins := removeAll i (pl_drainingOrigins p), pl_origins := removeAll i (pl_origins p)\<rparr>) \<and>
    pl_basisOrigins (closeOrigin i p) = filter (\<lambda>b. snd b \<noteq> i) (pl_basisOrigins p)"
proof -
  define q where "q = p\<lparr>pl_drainTimers := removeAll i (pl_drainTimers p), pl_basisOrigins := filter (\<lambda>b. snd b \<noteq> i) (pl_basisOrigins p),
                pl_drainingOrigins := removeAll i (pl_drainingOrigins p), pl_origins := removeAll i (pl_origins p)\<rparr>"
  have v: "cells q = cells p" "ties q = ties p" "pl_store q = pl_store p"
    by (simp_all add: q_def cells_def ties_def)
  have "closeOrigin i p = origin_close i q" using assms(3) by (simp add: closeOrigin_def q_def)
  moreover have "frame_of q = frame_of (p\<lparr>pl_drainTimers := removeAll i (pl_drainTimers p),
      pl_drainingOrigins := removeAll i (pl_drainingOrigins p), pl_origins := removeAll i (pl_origins p)\<rparr>)"
    "pl_basisOrigins q = filter (\<lambda>b. snd b \<noteq> i) (pl_basisOrigins p)" by (simp_all add: q_def frame_of_def)
  ultimately show ?thesis using origin_close_views [of i q] assms(1,2) v by simp
qed

lemma closeOrigin_mid:
  assumes mid: "pool_mid b l p" and i: "i \<in> set (pl_drainTimers p)"
  shows "pool_mid b l (closeOrigin i p)"
proof -
  have cells: "cells_ok (cells p) (ties p)" and sets: "sets_ok p" using midD [OF mid] by auto
  from sets i have o: "i \<in> set (pl_origins p)" "pl_activeOrigin p \<noteq> Some i" "i < length (pl_store p)"
    by (auto simp: sets_ok_def open_cells_def)
  define q where "q = closeOrigin i p"
  have v: "cells q = (cells p)[i := ([], None, True)]" "ties q = close_ties (fst (cells p ! i)) (ties p)"
    "pl_basisOrigins q = filter (\<lambda>b. snd b \<noteq> i) (pl_basisOrigins p)"
    and "frame_of q = frame_of (p\<lparr>pl_drainTimers := removeAll i (pl_drainTimers p),
      pl_drainingOrigins := removeAll i (pl_drainingOrigins p), pl_origins := removeAll i (pl_origins p)\<rparr>)"
    using closeOrigin_views [OF cells o(3,2)] by (auto simp: q_def)
  note f = frame_fields [OF this(4)]
  have "cells_ok (cells q) (ties q)" using cells_ok_close [OF cells] o(3) v by simp
  moreover have "sets_ok q"
    using sets o by (auto simp: sets_ok_def v f open_cells_close pool_isCurrent_def)
  moreover have "calls_ok q"
    by (rule calls_ok_mono [OF midD(3) [OF mid]]) (simp_all add: v f nth_close_ties idle_upd)
  moreover have "migration_ok b l q" if "\<not> pl_closed q"
    using midD(4) [OF mid] that i by (auto simp: migration_ok_def v f)
  ultimately show ?thesis by (simp add: pool_mid_def q_def)
qed

lemma maybeClose_mid: 
  assumes "pool_mid b l p"
  shows "pool_mid b l (maybeCloseDrainedOrigin i p)"
proof (cases "i \<in> set (pl_drainingOrigins p)")
  case True
  then have "\<not> pl_closed p" using midD(2) [OF assms] by (auto simp: sets_ok_def)
  with True have "pl_activeOrigin p = Some i \<or> i \<in> set (pl_drainTimers p)"
    using midD(4) [OF assms] by (auto simp: migration_ok_def)
  then have "pool_mid b l (closeOrigin i p)"
  proof
    assume "pl_activeOrigin p = Some i"
    then show ?thesis using assms by (simp add: closeOrigin_def)
  qed (rule closeOrigin_mid [OF assms])
  then show ?thesis using assms by (simp add: maybeCloseDrainedOrigin_def)
qed (use assms in \<open>simp add: maybeCloseDrainedOrigin_def\<close>)

lemma released_mid:
  assumes "pool_mid b l p"
  shows "pool_mid b l (onConnectionReleased i connId p)"
proof -
  have "pool_mid b l (p\<lparr>pl_basisOrigins := AList.delete connId (pl_basisOrigins p)\<rparr>)"
    using mid_owners [OF assms] by (intro mid_basis assms) (fastforce simp: AList.delete_eq)
  with assms show ?thesis by (simp add: onConnectionReleased_def maybeClose_mid)
qed

lemma released_fold_mid: "pool_mid b l p \<Longrightarrow> pool_mid b l (fold (onConnectionReleased i) ids p)"
  by (induction ids arbitrary: p) (simp_all add: released_mid)

lemma transport_event_mid: "pool_mid b l p \<Longrightarrow> pool_mid b l (transport_event opts i e p)"
  by (simp add: transport_event_def split_beta released_fold_mid)

lemma openConnection_mid: "pool_mid b l p \<Longrightarrow> pool_mid b l (origin_openConnection opts i c p)"
  by (simp add: origin_openConnection_def Let_def released_mid owned_mid)

text \<open>A step that changes cells and controls only.\<close>

lemma mid_cells:
  assumes mid: "pool_mid b l p" and "cells_ok (cells q) (ties q)" "frame_of q = frame_of p" "pl_basisOrigins q = pl_basisOrigins p"
    and "length (cells q) = length (cells p)" "open_cells (cells q) = open_cells (cells p)" "length (ties p) \<le> length (ties q)"
    and "\<And>c. c < length (ties p) \<Longrightarrow> fst (ties q ! c) = fst (ties p ! c)"
    and "\<And>c. c \<in> set (controls_of (pl_tasks p)) \<Longrightarrow> idle (cells p) c \<Longrightarrow> idle (cells q) c"
  shows "pool_mid b l q"
proof -
  note f = frame_fields [OF assms(3)]
  have "sets_ok q" using midD(2) [OF mid] unfolding sets_ok_def assms(4-6) f .
  moreover have "calls_ok q" by (rule calls_ok_mono [OF midD(3) [OF mid]]) (use assms(7-9) f in auto)
  moreover have "\<not> pl_closed q \<longrightarrow> migration_ok b l q"
    using midD(4) [OF mid] unfolding migration_ok_def assms(5) f by blast
  ultimately show ?thesis using assms(2) by (simp add: pool_mid_def)
qed

lemma open_cells_upd: "i < length xs \<Longrightarrow> snd (snd x) = snd (snd (xs ! i)) \<Longrightarrow> open_cells (xs[i := x]) = open_cells xs"
  by (auto simp: open_cells_def nth_upd split: if_splits)

lemma idle_nth: "idle xs c \<Longrightarrow> i < length xs \<Longrightarrow> fst (snd (xs ! i)) \<noteq> Some c"
  by (simp add: idle_def)

lemma owned_views:
  "cells (onConnectionOwned i k p) = cells p" "ties (onConnectionOwned i k p) = ties p" "frame_of (onConnectionOwned i k p) = frame_of p"
  by (simp_all add: onConnectionOwned_def cells_def ties_def frame_of_def)

lemma owned_fold_views:
  "cells (fold (onConnectionOwned i) ids p) = cells p" "ties (fold (onConnectionOwned i) ids p) = ties p"
  "frame_of (fold (onConnectionOwned i) ids p) = frame_of p"
  by (induction ids arbitrary: p) (simp_all add: owned_views)

lemma activate_views: "frame_of (fst (activate i c ack p)) = frame_of p" "ties (fst (activate i c ack p)) = ties p"
  "length (cells (fst (activate i c ack p))) = length (cells p)"
  by (auto simp: activate_def Let_def owned_fold_views simp del: length_cells) (simp add: cells_def upd_origin_def)

lemma activate_mid:
  assumes mid: "pool_mid b l p" and c: "c < length (ties p)" "ties p ! c = (i, False)" "c \<notin> set (controls_of (pl_tasks p))"
  shows "pool_mid b l (fst (activate i c ack p))"
proof -
  have i: "i < length (pl_store p)" using mid_closed_cells(3) [OF mid c(1,2)] .
  define g where "g = (\<lambda>x::relay_origin. x\<lparr>og_transport := fst (transport_setGeneration (ak_generation ack) (og_transport x)),
    og_generation := ak_generation ack, og_controlResumeSecret := Some (ak_controlResumeSecret ack),
    og_leaseExpiresAt := ak_leaseExpiresAt ack, og_activeControl := Some c\<rparr>)"
  have v: "cells (upd_origin i g p) = (cells p)[i := (fst (cells p ! i), Some c, snd (snd (cells p ! i)))]"
    using i by (simp add: cells_upd g_def core_def cells_nth)
  have "pool_mid b l (upd_origin i g p)"
  proof (rule mid_cells [OF mid])
    show "cells_ok (cells (upd_origin i g p)) (ties (upd_origin i g p))" using cells_ok_activate [OF midD(1) [OF mid] c(1,2)] v by simp
    show "open_cells (cells (upd_origin i g p)) = open_cells (cells p)" using i by (simp add: v open_cells_upd)
    fix d assume "d \<in> set (controls_of (pl_tasks p))" "idle (cells p) d"
    then show "idle (cells (upd_origin i g p)) d" using c(3) v by (auto intro!: idle_upd)
  qed (simp_all add: v del: length_cells length_ties)
  then show ?thesis using mid by (simp add: activate_def Let_def g_def owned_fold_mid)
qed

lemma drop_mid:
  assumes mid: "pool_mid b l p" and c: "c < length (ties p)" "ties p ! c = (i, False)" and act: "fst (snd (cells p ! i)) \<noteq> Some c"
  shows "pool_mid b l (drop_control i c p)"
proof -
  have i: "i < length (pl_store p)" using mid_closed_cells(3) [OF mid c] .
  note v = drop_control_views [OF c i]
  show ?thesis
  proof (rule mid_cells [OF mid])
    show "cells_ok (cells (drop_control i c p)) (ties (drop_control i c p))"
      using cells_ok_drop [OF midD(1) [OF mid] c, of "fst (snd (cells p ! i))"] act by (simp add: v)
    show "open_cells (cells (drop_control i c p)) = open_cells (cells p)" using i by (simp add: v open_cells_upd)
    fix d assume "idle (cells p) d"
    then show "idle (cells (drop_control i c p)) d" using i idle_nth [of "cells p" d i] by (auto simp: v intro!: idle_upd)
  next
    fix d assume "d < length (ties p)"
    then show "fst (ties (drop_control i c p) ! d) = fst (ties p ! d)" using c by (simp add: v nth_upd)
  qed (simp_all add: v del: length_cells length_ties)
qed

lemma closeRetired_mid:
  assumes mid: "pool_mid b l p" and i: "i < length (pl_store p)"
  shows "pool_mid b l (closeRetiredControl i c p)"
proof -
  define q where "q = upd_origin i (\<lambda>x. x\<lparr>og_retiredControlTimers := removeAll c (og_retiredControlTimers x)\<rparr>) p"
  have q: "pool_mid b l q" unfolding q_def using mid by (subst mid_flag) (simp_all add: core_def)
  have l: "i < length (pl_store q)" using i by (simp add: q_def upd_origin_def)
  have core: "fst (cells q ! i) = og_controls (origin_of i q)" "fst (snd (cells q ! i)) = og_activeControl (origin_of i q)"
    using l by (simp_all add: cells_nth origin_of_def core_def)
  have "pool_mid b l (drop_control i c q)" if "og_activeControl (origin_of i q) \<noteq> Some c" "c \<in> set (og_controls (origin_of i q))"
    using drop_mid [OF q, of c i] cell_controlD [OF cells_cellD [OF midD(1) [OF q], of i], of c] l that core by simp
  then show ?thesis using q by (simp add: closeRetiredControl_def q_def Let_def)
qed

lemma rebound_mid:
  assumes "pool_mid b l p" "i < length (pl_store p)"
  shows "pool_mid b l (rebound i previous p)"
proof -
  define q where "q = upd_origin i (\<lambda>x. x\<lparr>og_acceptingConnections := True\<rparr>) p"
  have q: "pool_mid b l q" "i < length (pl_store q)"
    using assms mid_flag [of "\<lambda>x. x\<lparr>og_acceptingConnections := True\<rparr>" b l i p] by (simp_all add: q_def core_def upd_origin_def)
  moreover have "pool_mid b l (upd_origin i (\<lambda>x. x\<lparr>og_retiredControlTimers := og_retiredControlTimers x @ [c]\<rparr>) q)" for c
    using q by (subst mid_flag) (simp_all add: core_def)
  ultimately show ?thesis by (auto simp: rebound_def Let_def q_def [symmetric] closeRetired_mid split: option.split)
qed

lemma closeRetired_frame: "frame_of (closeRetiredControl i c p) = frame_of p"
  by (simp add: closeRetiredControl_def Let_def drop_control_def)

lemma rebound_frame: "frame_of (rebound i previous p) = frame_of p"
  by (simp add: rebound_def Let_def closeRetired_frame split: option.split)

lemma drain_tasks_none:
  assumes "pool_mid True l p" "\<not> pl_closed p"
  shows "List.map_filter drain_origin (pl_tasks p) = []" "List.map_filter target_of (pl_tasks p) = []" "pl_rotationPromise p"
proof -
  show *: "List.map_filter drain_origin (pl_tasks p) = []" and "pl_rotationPromise p"
    using midD(4) [OF assms] by (auto simp: migration_ok_def split: if_splits)
  have "target_of t = None" if "drain_origin t = None" for t using that by (cases t) auto
  with * show "List.map_filter target_of (pl_tasks p) = []" by (auto simp: List.map_filter_def filter_empty_conv)
qed

text \<open>The pieces of the invariant that only look at the frame, for an update of frame fields.\<close>

lemma mid_frame:
  assumes "pool_mid b l p" "cells q = cells p" "ties q = ties p" "pl_tasks q = pl_tasks p" "sets_ok q" "\<not> pl_closed q \<Longrightarrow> migration_ok b' l' q"
  shows "pool_mid b' l' q"
  using assms midD(1,3) [OF assms(1)] by (simp add: pool_mid_def calls_ok_def)

lemma promise_mid:
  assumes mid: "pool_mid b None p" and "\<not> b \<Longrightarrow> \<not> pl_rotationPromise p"
  shows "pool_ok (p\<lparr>pl_rotationPromise := False\<rparr>)"
  by (rule mid_frame [OF mid])
    (use midD(2,4) [OF mid] assms(2) in \<open>auto simp: sets_ok_def migration_ok_def cells_def ties_def pool_isCurrent_def split: if_splits\<close>)

lemma drain_failed_mid: "pool_mid b None p \<Longrightarrow> (\<not> b \<Longrightarrow> \<not> pl_rotationPromise p) \<Longrightarrow> pool_ok (drain_failed i g p)"
  by (auto simp: drain_failed_def intro!: promise_mid)

lemma rotationTimer_mid:
  assumes mid: "pool_mid b l p" and "t = None \<or> \<not> pl_closed p"
  shows "pool_mid b l (p\<lparr>pl_rotationTimer := t\<rparr>)"
  by (rule mid_frame [OF mid])
    (use midD(2,4) [OF mid] assms(2) in \<open>auto simp: sets_ok_def migration_ok_def cells_def ties_def pool_isCurrent_def split: if_splits\<close>)

lemma schedule_mid: "pool_mid b l p \<Longrightarrow> pool_mid b l (scheduleControlRotation ck p)"
  by (auto simp: scheduleControlRotation_def rotationTimer_mid split: option.split)

lemma drain_done_mid: "pool_mid True None p \<Longrightarrow> pool_ok (drain_done ck p)"
  unfolding drain_done_def by (rule promise_mid [of True]) (simp_all add: schedule_mid)

lemma controls_of_snoc: "controls_of (ts @ [t]) = controls_of ts @ (case task_control t of Some c \<Rightarrow> [c] | None \<Rightarrow> [])"
  by (simp add: controls_of_def List.map_filter_def split: option.split)

lemma handleDrain_mid:
  assumes mid: "pool_ok p"
  shows "pool_ok (handleDrain i g p)"
proof (cases "pool_isCurrent p \<and> pl_activeOrigin p = Some i")
  case True
  then have a: "\<not> pl_closed p" "pl_activeOrigin p = Some i" by (auto simp: pool_isCurrent_def)
  define p1 where "p1 = upd_origin i (\<lambda>x. x\<lparr>og_acceptingConnections := False\<rparr>) p"
  have m1: "pool_ok p1" unfolding p1_def using mid by (subst mid_flag) (simp_all add: core_def)
  have f1: "frame_of p1 = frame_of p" by (simp add: p1_def)
  define p2 where "p2 = pool_emit (PL_Status Pool_Draining) (p1\<lparr>pl_drainingOrigins := List.insert i (pl_drainingOrigins p1)\<rparr>)"
  have m2: "pool_ok p2" unfolding p2_def mid_emit
    by (rule mid_frame [OF m1])
      (use midD(2,4) [OF m1] a frame_fields [OF f1] in \<open>auto simp: sets_ok_def migration_ok_def cells_def ties_def pool_isCurrent_def\<close>)
  have a2: "\<not> pl_closed p2" "pl_activeOrigin p2 = Some i" using a frame_fields [OF f1] by (simp_all add: p2_def pool_emit_def)
  have "pool_ok (add_task (Resolving i g) (p2\<lparr>pl_rotationPromise := True\<rparr>))" (is "pool_ok ?q") if "\<not> pl_rotationPromise p2"
  proof -
    have v: "cells ?q = cells p2" "ties ?q = ties p2" by (simp_all add: add_task_def cells_def ties_def)
    have t: "pl_tasks ?q = pl_tasks p2 @ [Resolving i g]" by (simp add: add_task_def)
    have "sets_ok ?q" using midD(2) [OF m2] a2 unfolding sets_ok_def v by (auto simp: add_task_def pool_isCurrent_def)
    moreover have "calls_ok ?q" using midD(3) [OF m2] unfolding calls_ok_def v t by (auto simp: controls_of_snoc)
    moreover have "migration_ok False None ?q" using midD(4) [OF m2 a2(1)] that a2 unfolding migration_ok_def v t
      by (auto simp: add_task_def List.map_filter_def)
    ultimately show ?thesis using midD(1) [OF m2] by (simp add: pool_mid_def v)
  qed
  with m2 True show ?thesis by (simp add: handleDrain_def Let_def p1_def [symmetric] p2_def [symmetric] drain_failed_mid)
qed (use mid in \<open>auto simp: handleDrain_def\<close>)

lemma task_tied_control: "task_control t = Some c \<Longrightarrow> task_tied ks t \<Longrightarrow> ks' ! c = ks ! c \<Longrightarrow> task_tied ks' t"
  by (cases t) auto

lemma mapf_snoc: "List.map_filter g (ts @ [t]) = List.map_filter g ts @ (case g t of Some x \<Rightarrow> [x] | None \<Rightarrow> [])"
  by (simp add: List.map_filter_def split: option.split)

lemma idle_fresh: "cells_ok xs ks \<Longrightarrow> idle xs (length ks)"
  by (fastforce simp: idle_def in_set_conv_nth cell_ok_def dest: cells_cellD)

text \<open>A control is opened and the call waits for it; the migration and the target are handed to the task.\<close>

lemma open_mid:
  assumes mid: "pool_mid b l p" and i: "i \<in> set (pl_origins p)"
    and T: "task_control T = Some (length (pl_controls p))" "task_tied (ties p @ [(i, False)]) T"
    and hand: "b = (drain_origin T \<noteq> None)" "l = target_of T" "initial_task T \<Longrightarrow> pl_activeOrigin p = None \<and> filter initial_task (pl_tasks p) = []"
    and drain: "\<And>j. drain_origin T = Some j \<Longrightarrow> pl_activeOrigin p = Some j"
  shows "pool_ok (add_task T (snd (openControl i p)))"
proof -
  have il: "i < length (pl_store p)" "\<not> snd (snd (cells p ! i))" "\<not> pl_closed p"
    using midD(2) [OF mid] i by (auto simp: sets_ok_def open_cells_def)
  define q where "q = snd (openControl i p)"
  have v: "cells q = (cells p)[i := (fst (cells p ! i) @ [length (ties p)], fst (snd (cells p ! i)), False)]"
    "ties q = ties p @ [(i, False)]" "frame_of q = frame_of p" "pl_basisOrigins q = pl_basisOrigins p"
    using openControl_views [OF il(1,2)] by (auto simp: q_def)
  note f = frame_fields [OF v(3)]
  have mq: "pool_mid b l q"
  proof (rule mid_cells [OF mid])
    show "cells_ok (cells q) (ties q)" using cells_ok_open [OF midD(1) [OF mid]] il by (simp add: v)
    show "open_cells (cells q) = open_cells (cells p)" using il by (simp add: v(1) open_cells_upd)
    fix c assume "idle (cells p) c"
    then show "idle (cells q) c" using il idle_nth [of "cells p" c i] by (auto simp: v(1) intro!: idle_upd)
  qed (use v in \<open>simp_all add: nth_append del: length_cells length_ties\<close>)
  have lq: "length (pl_store q) = length (pl_store p)" using arg_cong [OF v(1), of length] by simp
  let ?q = "add_task T q"
  have v': "cells ?q = cells q" "ties ?q = ties q" by (simp_all add: add_task_def cells_def ties_def)
  have t: "pl_tasks ?q = pl_tasks q @ [T]" by (simp add: add_task_def)
  have fresh: "idle (cells q) (length (ties p))"
    using il idle_fresh [OF midD(1) [OF mid]] idle_nth [of "cells p" "length (ties p)" i] by (auto simp: v(1) intro!: idle_upd)
  have "sets_ok ?q" using midD(2) [OF mq] unfolding sets_ok_def v' by (auto simp: add_task_def pool_isCurrent_def)
  moreover have "calls_ok ?q"
    using midD(3) [OF mid] midD(3) [OF mq] T fresh unfolding calls_ok_def v' t by (auto simp: controls_of_snoc f v)
  moreover have "migration_ok False None ?q"
    using midD(4) [OF mq] il(3) hand drain il(1) unfolding migration_ok_def v' t
    by (auto simp: f lq add_task_def mapf_snoc eq_commute [of "Some _" "target_of _"] split: if_splits)
  ultimately have "pool_ok ?q" using midD(1) [OF mq] by (simp add: pool_mid_def v')
  then show ?thesis by (simp add: q_def)
qed

text \<open>A new origin; it is in hand until a control of it is opened.\<close>

lemma new_origin_mid:
  fixes p :: origin_pool
  defines "t \<equiv> length (pl_store p)"
  defines "q a \<equiv> p\<lparr>pl_store := pl_store p @ [origin_new a], pl_origins := pl_origins p @ [t]\<rparr>"
  assumes mid: "pool_mid b None p" and open': "\<not> pl_closed p" "pl_activeOrigin p = None \<Longrightarrow> pl_store p = []"
  shows "pool_mid b (if pl_activeOrigin p = None then None else Some t) (q a)"
proof -
  have v: "cells (q a) = cells p @ [([], None, False)]" "ties (q a) = ties p"
    by (simp_all add: q_def cells_def ties_def core_def origin_new_def)
  have oc: "open_cells (cells p @ [([], None, False)]) = insert t (open_cells (cells p))"
    by (auto simp: open_cells_def t_def nth_append less_Suc_eq)
  note sets = midD(2) [OF mid]
  have "t \<notin> set (pl_origins p)" using sets by (simp add: sets_ok_def open_cells_def t_def)
  then have t: "t \<notin> set (pl_drainTimers p)" "pl_activeOrigin p \<noteq> Some t" using sets by (auto simp: sets_ok_def)
  have "cells_ok (cells (q a)) (ties (q a))" using cells_ok_new midD(1) [OF mid] by (simp add: v)
  moreover have "sets_ok (q a)" using sets open'(1) unfolding sets_ok_def v oc by (auto simp: q_def)
  moreover have "calls_ok (q a)"
    by (rule calls_ok_mono [OF midD(3) [OF mid]]) (simp_all add: v, simp_all add: q_def idle_def)
  moreover have "migration_ok b (if pl_activeOrigin p = None then None else Some t) (q a)"
    using midD(4) [OF mid open'(1)] open'(2) t unfolding migration_ok_def v by (auto simp: q_def split: if_splits)
  ultimately show ?thesis by (simp add: pool_mid_def)
qed

lemma activateTarget_mid:
  assumes mid: "pool_mid True None p" and i: "pl_activeOrigin p = Some i" "\<not> pl_closed p"
  shows "pool_ok (activateTarget i a g p)"
proof -
  define q where "q = p\<lparr>pl_store := pl_store p @ [origin_new a], pl_origins := pl_origins p @ [length (pl_store p)]\<rparr>"
  have mq: "pool_mid True (Some (length (pl_store p))) q" using new_origin_mid [OF mid i(2), of a] i by (simp add: q_def)
  have c: "fst (openControl (length (pl_store p)) q) = length (pl_controls q)" by (simp add: openControl_def Let_def)
  have "length (pl_store p) \<in> set (pl_origins q)" "pl_activeOrigin q = Some i" by (simp_all add: q_def i)
  then have "pool_ok (add_task (Activating i (length (pl_store p)) (length (pl_controls q)) a g) (snd (openControl (length (pl_store p)) q)))"
    by (intro open_mid [OF mq]) (simp_all add: nth_append ties_def)
  then show ?thesis using c by (simp add: activateTarget_def Let_def split_beta q_def)
qed

lemma openInitial_mid:
  assumes mid: "pool_ok p" and i: "pl_store p = []" "\<not> pl_closed p"
  shows "pool_ok (openInitial a jwt p)"
proof -
  have none: "pl_activeOrigin p = None" using midD(2) [OF mid] i(1) by (auto simp: sets_ok_def open_cells_def)
  define r where "r = p\<lparr>pl_assignment := Some a, pl_relayJwt := Some jwt\<rparr>"
  define q where "q = r\<lparr>pl_store := pl_store r @ [origin_new a], pl_origins := pl_origins r @ [length (pl_store r)]\<rparr>"
  have mq: "pool_ok q" using new_origin_mid [of False r a] mid i none by (simp add: q_def r_def)
  have c: "fst (openControl (length (pl_store p)) q) = length (pl_controls q)" by (simp add: openControl_def Let_def)
  have "filter initial_task (pl_tasks p) = []" using midD(4) [OF mid i(2)] i(1) by (simp add: migration_ok_def cells_def)
  then have "length (pl_store p) \<in> set (pl_origins q)" "pl_activeOrigin q = None" "filter initial_task (pl_tasks q) = []"
    by (simp_all add: q_def r_def none)
  then have "pool_ok (add_task (Opening_Initial (length (pl_store p)) (length (pl_controls q))) (snd (openControl (length (pl_store p)) q)))"
    by (intro open_mid [OF mq]) (simp_all add: nth_append ties_def)
  then show ?thesis using c by (simp add: openInitial_def Let_def split_beta q_def r_def)
qed

text \<open>A task is taken up: its migration and its target are in hand, and its control is open and not yet active.\<close>

lemma mapf_append: "List.map_filter g (xs @ ys) = List.map_filter g xs @ List.map_filter g ys"
  by (simp add: List.map_filter_def)

lemma mapf_Cons: "List.map_filter g (x # xs) = (case g x of Some y \<Rightarrow> [y] | None \<Rightarrow> []) @ List.map_filter g xs"
  by (simp add: List.map_filter_def split: option.split)

lemma without_split:
  assumes "n < length (pl_tasks p)"
  obtains A B where "pl_tasks p = A @ pl_tasks p ! n # B" "without_task n p = p\<lparr>pl_tasks := A @ B\<rparr>"
  using id_take_nth_drop [OF assms] by (auto simp: without_task_def)

lemma migration_without:
  assumes mig: "migration_ok False None p" and t: "pl_tasks p = A @ T # B"
  shows "migration_ok (drain_origin T \<noteq> None) (target_of T) (p\<lparr>pl_tasks := A @ B\<rparr>)"
proof -
  let ?d = "List.map_filter drain_origin" and ?t = "List.map_filter target_of"
  have v: "length (cells (p\<lparr>pl_tasks := A @ B\<rparr>)) = length (cells p)" by (simp add: cells_def)
  have d: "?d (pl_tasks p) = ?d A @ (case drain_origin T of Some y \<Rightarrow> [y] | None \<Rightarrow> []) @ ?d B"
    and g: "?t (pl_tasks p) = ?t A @ (case target_of T of Some y \<Rightarrow> [y] | None \<Rightarrow> []) @ ?t B"
    by (simp_all add: t mapf_append mapf_Cons split: option.split)
  have set_g: "set (?t (pl_tasks p)) = set (?t (A @ B)) \<union> set_option (target_of T)"
    by (auto simp: g mapf_append split: option.splits)
  have "length (?d (A @ B)) + (if drain_origin T \<noteq> None then 1 else 0) = (if pl_rotationPromise p then 1 else (0::nat))"
    using mig by (auto simp: migration_ok_def d mapf_append split: option.splits if_splits)
  moreover have "\<forall>i \<in> set (?d (A @ B)). pl_activeOrigin p = Some i"
    using mig unfolding migration_ok_def d by (simp add: mapf_append ball_Un)
  moreover have "\<forall>x \<in> set (?t (A @ B)) \<union> set_option (target_of T).
      x \<in> set (pl_origins p) \<and> x \<notin> set (pl_drainTimers p) \<and> pl_activeOrigin p \<noteq> Some x \<and> pl_activeOrigin p \<noteq> None"
    using mig unfolding migration_ok_def set_g by simp
  moreover have "length (filter initial_task (A @ B)) \<le> (if pl_activeOrigin p = None \<and> 0 < length (cells p) then 1 else 0)"
    using mig unfolding migration_ok_def t by (cases "initial_task T") auto
  moreover have "\<forall>i \<in> set (pl_origins p). pl_activeOrigin p = None \<or> pl_activeOrigin p = Some i \<or> i \<in> set (pl_drainTimers p) \<or>
      i \<in> set (?t (A @ B)) \<or> target_of T = Some i"
    using mig unfolding migration_ok_def set_g by (auto simp: elem_set)
  ultimately show ?thesis using mig unfolding migration_ok_def v by simp
qed

lemma without_mid:
  assumes mid: "pool_ok p" and n: "n < length (pl_tasks p)"
  shows "pool_mid (drain_origin (pl_tasks p ! n) \<noteq> None) (target_of (pl_tasks p ! n)) (without_task n p)"
proof -
  obtain A B where t: "pl_tasks p = A @ pl_tasks p ! n # B" and q: "without_task n p = p\<lparr>pl_tasks := A @ B\<rparr>"
    using without_split [OF n] .
  let ?q = "p\<lparr>pl_tasks := A @ B\<rparr>"
  have v: "cells ?q = cells p" "ties ?q = ties p" by (simp_all add: cells_def ties_def)
  have "sets_ok ?q" using midD(2) [OF mid] unfolding sets_ok_def v by auto
  moreover have "calls_ok ?q"
  proof -
    have "controls_of (pl_tasks p) = controls_of A @ (case task_control (pl_tasks p ! n) of Some y \<Rightarrow> [y] | None \<Rightarrow> []) @ controls_of B"
      unfolding controls_of_def by (subst t) (simp add: mapf_append mapf_Cons split: option.split)
    moreover have "set (pl_tasks p) = set A \<union> {pl_tasks p ! n} \<union> set B" by (subst t) auto
    moreover have "controls_of (A @ B) = controls_of A @ controls_of B" by (simp add: controls_of_def mapf_append)
    ultimately show ?thesis using midD(3) [OF mid] unfolding calls_ok_def v by simp blast
  qed
  ultimately show ?thesis using midD(1) [OF mid] migration_without [OF midD(4) [OF mid] t] by (simp add: pool_mid_def v q)
qed

fun task_origin :: "pool_task \<Rightarrow> nat" where
  "task_origin (Opening_Initial i c) = i"
| "task_origin (Resolving i g) = i"
| "task_origin (Rebinding_Drained i c prev a g) = i"
| "task_origin (Activating i t c a g) = t"
| "task_origin (Rebinding_Active i c prev) = i"

lemma settles_facts:
  assumes mid: "pool_ok p" and s: "settles n p"
  obtains c where "task_control (pl_tasks p ! n) = Some c" "c < length (ties p)" "ties p ! c = (task_origin (pl_tasks p ! n), False)"
    "c \<notin> set (controls_of (pl_tasks (without_task n p)))" "idle (cells p) c"
proof -
  from s obtain c where n: "n < length (pl_tasks p)" and c: "task_control (pl_tasks p ! n) = Some c" and o: "open_control c p"
    by (auto simp: settles_def split: option.splits)
  have calls: "calls_ok p" using midD(3) [OF mid] .
  have cl: "c < length (ties p)" "snd (ties p ! c) = False" using o by (auto simp: open_control_def ties_def tie_def)
  have "task_tied (ties p) (pl_tasks p ! n)" using calls n by (simp add: calls_ok_def)
  then have "fst (ties p ! c) = task_origin (pl_tasks p ! n)" using c by (cases "pl_tasks p ! n") auto
  then have "ties p ! c = (task_origin (pl_tasks p ! n), False)" using cl(2) by (simp add: prod_eq_iff)
  moreover have "c \<notin> set (controls_of (pl_tasks (without_task n p)))"
  proof -
    obtain A B where t: "pl_tasks p = A @ pl_tasks p ! n # B" and q: "without_task n p = p\<lparr>pl_tasks := A @ B\<rparr>"
      using without_split [OF n] .
    have "distinct (controls_of (A @ pl_tasks p ! n # B))" using calls t by (simp add: calls_ok_def)
    then show ?thesis using c by (simp add: q controls_of_def mapf_append mapf_Cons)
  qed
  moreover have "idle (cells p) c" using calls controls_of_mem [OF nth_mem [OF n] c] by (simp add: calls_ok_def)
  ultimately show ?thesis using that [OF c cl(1)] by simp
qed

lemma drain_failed_running: "pool_mid True None p \<Longrightarrow> pool_ok (drain_failed i g p)"
  by (rule drain_failed_mid [of True]) simp_all

lemma target_failed_mid:
  assumes mid: "pool_mid True (Some t) p" and t: "\<not> pl_closed p"
  shows "pool_ok (target_failed i t g p)"
proof -
  let ?r = "p\<lparr>pl_origins := removeAll t (pl_origins p)\<rparr>"
  define q where "q = origin_close t ?r"
  have o: "t \<in> set (pl_origins p)" "t \<notin> set (pl_drainTimers p)" "pl_activeOrigin p \<noteq> Some t"
    using midD(4) [OF mid t] by (auto simp: migration_ok_def)
  have l: "t < length (pl_store p)" using midD(2) [OF mid] o(1) by (auto simp: sets_ok_def open_cells_def)
  have r: "cells ?r = cells p" "ties ?r = ties p" by (simp_all add: cells_def ties_def)
  have v: "cells q = (cells p)[t := ([], None, True)]" "ties q = close_ties (fst (cells p ! t)) (ties p)"
    "pl_basisOrigins q = pl_basisOrigins p" "frame_of q = frame_of ?r"
    using origin_close_views [of t ?r] midD(1) [OF mid] l r by (auto simp: q_def)
  note f = frame_fields [OF v(4)]
  have "cells_ok (cells q) (ties q)" using cells_ok_close [OF midD(1) [OF mid]] l v by simp
  moreover have "sets_ok q"
    using midD(2) [OF mid] o l t by (auto simp: sets_ok_def v(1,3) f open_cells_close)
  moreover have "calls_ok q"
    by (rule calls_ok_mono [OF midD(3) [OF mid]]) (simp_all add: v(1,2) f nth_close_ties idle_upd)
  moreover have "migration_ok True None q"
    using midD(4) [OF mid t] drain_tasks_none [OF mid t] by (auto simp: migration_ok_def v(1) f)
  ultimately have "pool_mid True None q" by (simp add: pool_mid_def)
  then show ?thesis by (simp add: target_failed_def q_def drain_failed_running)
qed
lemma drained_rebound_mid:
  assumes mid: "pool_mid True None p" and i: "pl_activeOrigin p = Some i" "\<not> pl_closed p"
  shows "pool_ok (drained_rebound ck i prev a g p)"
proof -
  have l: "i < length (pl_store p)" using midD(2) [OF mid] i(1) mid_origins [OF mid, of i] by (auto simp: sets_ok_def)
  define q where "q = rebound i prev p"
  have mq: "pool_mid True None q" using rebound_mid [OF mid l] by (simp add: q_def)
  have "frame_of q = frame_of p" by (simp add: q_def rebound_frame)
  note f = frame_fields [OF this]
  have "pool_mid True None (q\<lparr>pl_activeOrigin := Some i, pl_assignment := Some a, pl_drainingOrigins := removeAll i (pl_drainingOrigins q)\<rparr>)"
    by (rule mid_frame [OF mq])
      (use midD(2,4) [OF mq] i f in \<open>auto simp: sets_ok_def migration_ok_def cells_def ties_def\<close>)
  with mq show ?thesis by (simp add: drained_rebound_def q_def [symmetric] Let_def drain_failed_running drain_done_mid)
qed

lemma target_activated_mid:
  assumes mid: "pool_mid True (Some t) p" and i: "pl_activeOrigin p = Some i" "\<not> pl_closed p"
  shows "pool_ok (target_activated ck i t a g p)"
proof -
  define q where "q = scheduleDrainDeadline i (p\<lparr>pl_activeOrigin := Some t, pl_assignment := Some a\<rparr>)"
  have v: "cells q = cells p" "ties q = ties p" "pl_tasks q = pl_tasks p" by (simp_all add: q_def scheduleDrainDeadline_def cells_def ties_def)
  have "pool_mid True None q"
  proof (rule mid_frame [OF mid v])
    show "sets_ok q" using midD(2,4) [OF mid] i unfolding sets_ok_def migration_ok_def v
      by (auto simp: q_def scheduleDrainDeadline_def)
    show "migration_ok True None q" using midD(2) [OF mid] midD(4) [OF mid i(2)] drain_tasks_none [OF mid i(2)] i
      unfolding migration_ok_def v sets_ok_def by (auto simp: q_def scheduleDrainDeadline_def)
  qed
  with mid i show ?thesis
    by (simp add: target_activated_def q_def [symmetric] target_failed_mid drain_done_mid maybeClose_mid)
qed

lemma rotation_failed_mid: "pool_mid b l p \<Longrightarrow> pool_mid b l (rotation_failed i p)"
  by (simp add: rotation_failed_def rotationTimer_mid pool_isCurrent_def)

lemma openControl_fst: "fst (openControl i p) = length (pl_controls p)"
  by (simp add: openControl_def Let_def)

lemma active_live: "pool_mid b l p \<Longrightarrow> pl_activeOrigin p = Some i \<Longrightarrow> i \<in> set (pl_origins p)"
  using midD(2) [of b l p] unfolding sets_ok_def by blast

lemma tie_fresh: "(ties p @ [x]) ! length (pl_controls p) = x"
  by (simp add: nth_append)

lemma rebindActive_mid:
  assumes "pool_ok p0"
  shows "pool_ok (rebindActiveControl i p0)"
proof -
  define p where "p = p0\<lparr>pl_rotationTimer := None\<rparr>"
  have mid: "pool_ok p" using rotationTimer_mid [OF assms] by (simp add: p_def)
  have "pool_ok (add_task (Rebinding_Active i (length (pl_controls p)) prev) (snd (openControl i p)))" if "pl_activeOrigin p = Some i" for prev
    using active_live [OF mid that] by (intro open_mid [OF mid]) (simp_all add: tie_fresh)
  with mid show ?thesis
    by (auto simp: rebindActiveControl_def p_def [symmetric] Let_def split_beta openControl_fst rotation_failed_mid split: option.split)
qed

lemma target_assigned_mid:
  assumes mid: "pool_mid True None p" and i: "\<not> pl_closed p \<Longrightarrow> pl_activeOrigin p = Some i"
  shows "pool_ok (target_assigned i g answer p)"
proof -
  have "pool_ok (add_task (Rebinding_Drained i (length (pl_controls p)) prev a g) (snd (openControl i p)))" if "\<not> pl_closed p" for prev a
    using active_live [OF mid i [OF that]] i [OF that] by (intro open_mid [OF mid]) (simp_all add: tie_fresh)
  with mid i show ?thesis
    by (auto simp: target_assigned_def pool_isCurrent_def Let_def split_beta openControl_fst drain_failed_running activateTarget_mid split: option.split)
qed

text \<open>A suspended call resumes.\<close>

lemma initial_opened_mid:
  assumes mid: "pool_ok p" and i: "pl_activeOrigin p = None" "i \<in> set (pl_origins p)" "filter initial_task (pl_tasks p) = []"
  shows "pool_ok (initial_opened ck i p)"
proof -
  have nc: "\<not> pl_closed p" using midD(2) [OF mid] i(2) by (auto simp: sets_ok_def)
  have mig: "migration_ok False None p" using midD(4) [OF mid nc] .
  have l: "length (cells p) \<le> 1" "pl_drainTimers p = []" using mig i(1) by (auto simp: migration_ok_def)
  have "length (List.map_filter drain_origin (pl_tasks p)) = 0" "set (List.map_filter target_of (pl_tasks p)) = {}"
    "set (pl_drainingOrigins p) = {}" and np: "\<not> pl_rotationPromise p"
    using mig i(1) l(2) by (simp_all add: migration_ok_def)
  then have none: "List.map_filter drain_origin (pl_tasks p) = []" "List.map_filter target_of (pl_tasks p) = []" "pl_drainingOrigins p = []"
    "\<not> pl_rotationPromise p" by simp_all
  have only: "j = i" if "j \<in> set (pl_origins p)" for j
    using mid_origins [OF mid that] mid_origins [OF mid i(2)] l(1) by simp
  have "pool_ok (p\<lparr>pl_activeOrigin := Some i\<rparr>)"
  proof (rule mid_frame [OF mid])
    have v: "cells (p\<lparr>pl_activeOrigin := Some i\<rparr>) = cells p" by (simp add: cells_def)
    show "sets_ok (p\<lparr>pl_activeOrigin := Some i\<rparr>)" using midD(2) [OF mid] i(2) l(2) nc unfolding sets_ok_def v by auto
    show "migration_ok False None (p\<lparr>pl_activeOrigin := Some i\<rparr>)"
      using none i(3) l(2) only unfolding migration_ok_def v by auto
  qed (simp_all add: cells_def ties_def)
  then show ?thesis using mid by (simp add: initial_opened_def schedule_mid)
qed

lemma initial_task_alone:
  assumes mid: "pool_ok p" and n: "n < length (pl_tasks p)" "initial_task (pl_tasks p ! n)" and nc: "\<not> pl_closed p"
  shows "pl_activeOrigin p = None" "filter initial_task (pl_tasks (without_task n p)) = []"
proof -
  obtain A B where t: "pl_tasks p = A @ pl_tasks p ! n # B" and q: "without_task n p = p\<lparr>pl_tasks := A @ B\<rparr>"
    using without_split [OF n(1)] .
  have "length (filter initial_task (A @ pl_tasks p ! n # B)) \<le> (if pl_activeOrigin p = None \<and> 0 < length (cells p) then 1 else 0)"
    using midD(4) [OF mid nc] t by (simp add: migration_ok_def)
  then show "pl_activeOrigin p = None" "filter initial_task (pl_tasks (without_task n p)) = []"
    using n(2) by (auto simp: q split: if_splits)
qed

lemma drain_task_active:
  assumes mid: "pool_ok p" and n: "n < length (pl_tasks p)" "drain_origin (pl_tasks p ! n) = Some i" and nc: "\<not> pl_closed p"
  shows "pl_activeOrigin p = Some i"
proof -
  have "i \<in> set (List.map_filter drain_origin (pl_tasks p))" using n nth_mem [OF n(1)] by (force simp: List.map_filter_def)
  then show ?thesis using midD(4) [OF mid nc] by (simp add: migration_ok_def)
qed

lemma without_views:
  "cells (without_task n p) = cells p" "ties (without_task n p) = ties p" "pl_closed (without_task n p) = pl_closed p"
  "pl_activeOrigin (without_task n p) = pl_activeOrigin p" "pl_origins (without_task n p) = pl_origins p"
  by (simp_all add: without_task_def cells_def ties_def)

lemma connected_mid:
  assumes mid: "pool_ok p" and s: "settles n p"
  shows "pool_ok (connected_task (pl_tasks p ! n) ck ack (without_task n p))"
proof -
  have n: "n < length (pl_tasks p)" using s by (simp add: settles_def)
  obtain c where c: "task_control (pl_tasks p ! n) = Some c" "c < length (ties p)" "ties p ! c = (task_origin (pl_tasks p ! n), False)"
    "c \<notin> set (controls_of (pl_tasks (without_task n p)))" "idle (cells p) c"
    using settles_facts [OF mid s] .
  define i where "i = task_origin (pl_tasks p ! n)"
  have o: "i \<in> set (pl_origins p)" "\<not> pl_closed p" "i < length (pl_store p)"
    using mid_closed_cells [OF mid c(2,3)] by (auto simp: i_def)
  define q where "q = fst (activate i c ack (without_task n p))"
  define ok where "ok = snd (activate i c ack (without_task n p))"
  have act: "activate i c ack (without_task n p) = (q, ok)" by (simp add: q_def ok_def)
  have mq: "pool_mid (drain_origin (pl_tasks p ! n) \<noteq> None) (target_of (pl_tasks p ! n)) q"
    unfolding q_def using c by (intro activate_mid without_mid [OF mid n]) (simp_all add: i_def without_views)
  have "frame_of q = frame_of (without_task n p)" by (simp add: q_def activate_views)
  note f = frame_fields [OF this]
  have lq: "i < length (pl_store q)"
    using o(3) activate_views(3) [of i c ack "without_task n p"] without_views(1) [of n p]
    by (simp add: q_def flip: length_cells)
  show ?thesis
  proof (cases "pl_tasks p ! n")
    case (Opening_Initial j d)
    then have "pl_activeOrigin q = None" "filter initial_task (pl_tasks q) = []" "i \<in> set (pl_origins q)"
      using initial_task_alone [OF mid n _ o(2)] o(1) by (simp_all add: f without_views)
    then have "pool_ok (initial_opened ck i q)" "pool_ok q" using initial_opened_mid mq Opening_Initial by simp_all
    then show ?thesis using Opening_Initial c(1) act by (simp add: i_def)
  next
    case (Resolving j g)
    then show ?thesis using c(1) by simp
  next
    case (Rebinding_Drained j d prev a g)
    then have "pl_activeOrigin q = Some j" "\<not> pl_closed q" using drain_task_active [OF mid n _ o(2)] o(2) by (simp_all add: f without_views)
    then show ?thesis using Rebinding_Drained c(1) act mq by (simp add: i_def drained_rebound_mid activateTarget_mid)
  next
    case (Activating j t d a g)
    then have "pl_activeOrigin q = Some j" "\<not> pl_closed q" using drain_task_active [OF mid n _ o(2)] o(2) by (simp_all add: f without_views)
    then show ?thesis using Activating c(1) act mq by (simp add: i_def target_activated_mid target_failed_mid)
  next
    case (Rebinding_Active j d prev)
    then have "pool_ok q" "j = i" "d = c" using mq c(1) by (simp_all add: i_def)
    then show ?thesis using Rebinding_Active act rebound_mid [of False None q i prev] lq
      by (simp add: Let_def rotation_failed_mid schedule_mid)
  qed
qed

lemma failed_mid:
  assumes mid: "pool_ok p" and s: "settles n p"
  shows "pool_ok (failed_task (pl_tasks p ! n) (without_task n p))"
proof -
  have n: "n < length (pl_tasks p)" using s by (simp add: settles_def)
  obtain c where c: "task_control (pl_tasks p ! n) = Some c" "c < length (ties p)" "ties p ! c = (task_origin (pl_tasks p ! n), False)"
    "idle (cells p) c"
    using settles_facts [OF mid s] .
  define i where "i = task_origin (pl_tasks p ! n)"
  have o: "i \<in> set (pl_origins p)" "\<not> pl_closed p" "i < length (pl_store p)"
    using mid_closed_cells [OF mid c(2,3)] by (auto simp: i_def)
  define q where "q = drop_control i c (without_task n p)"
  have mq: "pool_mid (drain_origin (pl_tasks p ! n) \<noteq> None) (target_of (pl_tasks p ! n)) q"
    unfolding q_def using c o(3) idle_nth [OF c(4), of i]
    by (intro drop_mid without_mid [OF mid n]) (simp_all add: i_def without_views)
  have "frame_of q = frame_of (without_task n p)" by (simp add: q_def drop_control_def)
  note f = frame_fields [OF this]
  show ?thesis
  proof (cases "pl_tasks p ! n")
    case (Rebinding_Drained j d prev a g)
    then have "pl_activeOrigin q = Some j" "\<not> pl_closed q" using drain_task_active [OF mid n _ o(2)] o(2) by (simp_all add: f without_views)
    then show ?thesis using Rebinding_Drained c(1) mq by (simp add: i_def q_def activateTarget_mid)
  next
    case (Activating j t d a g)
    then have "\<not> pl_closed q" using o(2) by (simp add: f without_views)
    then show ?thesis using Activating c(1) mq by (simp add: i_def q_def target_failed_mid)
  qed (use c(1) mq in \<open>simp_all add: i_def q_def rotation_failed_mid\<close>)
qed

text \<open>A control goes down.\<close>

lemma down_mid:
  fixes p :: origin_pool
  defines "g c \<equiv> (\<lambda>x. x\<lparr>og_controls := removeAll c (og_controls x), og_retiredControlTimers := removeAll c (og_retiredControlTimers x),
                 og_activeControl := (if og_activeControl x = Some c then None else og_activeControl x)\<rparr>)"
  assumes mid: "pool_mid b l p" and c: "c < length (ties p)" "ties p ! c = (i, False)"
  shows "pool_mid b l (close_control c (upd_origin i (g c) p))"
proof -
  let ?q = "close_control c (upd_origin i (g c) p)" and ?act = "if fst (snd (cells p ! i)) = Some c then None else fst (snd (cells p ! i))"
  have i: "i < length (pl_store p)" using mid_closed_cells(3) [OF mid c] .
  have v: "cells ?q = (cells p)[i := (removeAll c (fst (cells p ! i)), ?act, snd (snd (cells p ! i)))]" "ties ?q = (ties p)[c := (i, True)]"
    using i c by (simp_all add: cells_upd g_def core_def cells_nth ties_close_control)
  show ?thesis
  proof (rule mid_cells [OF mid])
    show "cells_ok (cells ?q) (ties ?q)" unfolding v by (rule cells_ok_drop [OF midD(1) [OF mid] c]) auto
    show "open_cells (cells ?q) = open_cells (cells p)" unfolding v using i by (simp add: open_cells_upd)
    fix d assume "idle (cells p) d"
    then show "idle (cells ?q) d" unfolding v using i idle_nth [of "cells p" d i] by (auto intro!: idle_upd)
  next
    fix d assume "d < length (ties p)"
    then show "fst (ties ?q ! d) = fst (ties p ! d)" unfolding v using c by (simp add: nth_upd)
  qed (unfold v, simp_all del: length_cells length_ties)
qed

lemma open_tie: "open_control c p \<Longrightarrow> c < length (ties p) \<and> ties p ! c = (ct_origin (pl_controls p ! c), False)"
  by (simp add: open_control_def ties_def tie_def)

lemma control_closed_mid: "pool_ok p \<Longrightarrow> open_control c p \<Longrightarrow> pool_ok (control_closed c p)"
  using down_mid [of False None p c "ct_origin (pl_controls p ! c)"] open_tie [of c p]
  by (simp add: control_closed_def Let_def handleDrain_mid)

text \<open>Closing the pool.\<close>

lemma close_all_views:
  assumes "cells_ok (cells p) (ties p)" "\<forall>i \<in> set is. i < length (pl_store p)"
  shows "cells_ok (cells (fold origin_close is p)) (ties (fold origin_close is p)) \<and>
    open_cells (cells (fold origin_close is p)) = open_cells (cells p) - set is \<and> frame_of (fold origin_close is p) = frame_of p \<and>
    length (ties (fold origin_close is p)) = length (ties p) \<and>
    (\<forall>c < length (ties p). fst (ties (fold origin_close is p) ! c) = fst (ties p ! c)) \<and>
    (\<forall>c. idle (cells p) c \<longrightarrow> idle (cells (fold origin_close is p)) c)"
  using assms
proof (induction "is" arbitrary: p)
  case (Cons i "is")
  have i: "i < length (pl_store p)" using Cons.prems(2) by simp
  note v = origin_close_views [OF i Cons.prems(1)]
  have "length (cells (origin_close i p)) = length (cells p)" using v by (metis length_list_update)
  then have l: "\<forall>j \<in> set is. j < length (pl_store (origin_close i p))" using Cons.prems(2) by simp
  have ok: "cells_ok (cells (origin_close i p)) (ties (origin_close i p))" using cells_ok_close [OF Cons.prems(1)] i v by simp
  show ?case using Cons.IH [OF ok l] v i
    by (auto simp: open_cells_close nth_close_ties idle_upd simp del: length_ties)
qed simp

lemma pool_closeNow_mid:
  assumes mid: "pool_ok p"
  shows "pool_ok (pool_closeNow p)"
proof (cases "pl_closed p")
  case False
  define r where "r = p\<lparr>pl_closed := True, pl_rotationTimer := None, pl_drainTimers := []\<rparr>"
  have vr: "cells r = cells p" "ties r = ties p" by (simp_all add: r_def cells_def ties_def)
  define s where "s = fold origin_close (pl_origins p) r"
  define q where "q = s\<lparr>pl_origins := [], pl_drainingOrigins := [], pl_basisOrigins := [], pl_activeOrigin := None\<rparr>"
  have vq: "cells q = cells s" "ties q = ties s" by (simp_all add: q_def cells_def ties_def)
  have "\<forall>i \<in> set (pl_origins p). i < length (pl_store r)" using mid_origins [OF mid] by (simp add: r_def)
  from close_all_views [of r, OF _ this] midD(1) [OF mid]
  have s: "cells_ok (cells s) (ties s)" "open_cells (cells s) = open_cells (cells p) - set (pl_origins p)" "frame_of s = frame_of r"
    "length (ties s) = length (ties p)" "\<And>c. c < length (ties p) \<Longrightarrow> fst (ties s ! c) = fst (ties p ! c)"
    "\<And>c. idle (cells p) c \<Longrightarrow> idle (cells s) c"
    by (simp_all add: vr s_def)
  note f = frame_fields [OF s(3)]
  have "open_cells (cells q) = {}" using s(2) midD(2) [OF mid] by (simp add: vq sets_ok_def)
  then have "sets_ok q" by (simp add: sets_ok_def) (simp add: q_def f r_def)
  moreover have "calls_ok q"
    by (rule calls_ok_mono [OF midD(3) [OF mid]]) (use s in \<open>simp_all add: vq\<close>, simp add: q_def f r_def)
  moreover have "pl_closed q" by (simp add: q_def f r_def)
  ultimately have "pool_ok q" using s(1) by (simp add: pool_mid_def vq)
  then show ?thesis using False by (simp add: pool_closeNow_def q_def s_def r_def)
qed (use mid in \<open>simp add: pool_closeNow_def\<close>)

section \<open>Every step keeps the invariant\<close>

lemma requests_mid: "pool_mid b l (p\<lparr>pl_controls := (pl_controls p)[c := (pl_controls p ! c)\<lparr>ct_requests := n\<rparr>]\<rparr>) = pool_mid b l p"
  by (rule mid_cong)
    (simp_all add: cells_def frame_of_def ties_def map_update, cases "c < length (pl_controls p)",
      simp_all add: tie_def list_update_beyond map_update list_update_same_conv)

lemma stale_mid:
  assumes "pool_ok p"
  shows "pool_ok (p\<lparr>pl_current := False\<rparr>)"
proof -
  have v: "cells (p\<lparr>pl_current := False\<rparr>) = cells p" by (simp add: cells_def)
  show ?thesis
    by (rule mid_frame [OF assms])
      (use midD(2,4) [OF assms] in \<open>simp_all add: v ties_def sets_ok_def migration_ok_def, auto\<close>)
qed

lemma resolving_mid:
  assumes mid: "pool_ok p" and n: "n < length (pl_tasks p)" "pl_tasks p ! n = Resolving i g"
  shows "pool_ok (target_assigned i g answer (without_task n p))"
proof (rule target_assigned_mid)
  show "pool_mid True None (without_task n p)" using without_mid [OF mid n(1)] n(2) by simp
  show "pl_activeOrigin (without_task n p) = Some i" if "\<not> pl_closed (without_task n p)"
    using drain_task_active [OF mid n(1)] n(2) that by (simp add: without_views)
qed

lemma pool_step_ok:
  assumes "pool_ok p"
  shows "pool_ok (pool_step p e)"
proof (cases e)
  case (PV_Open_Initial a jwt)
  then show ?thesis using assms by (simp add: openInitial_mid pool_isCurrent_def)
next
  case (PV_Refresh_Authorization jwt)
  then show ?thesis using assms by (simp add: pool_refreshAuthorization_def)
next
  case PV_Close
  then show ?thesis using assms by (simp add: pool_closeNow_mid)
next
  case PV_Stale
  then show ?thesis using assms by (simp add: stale_mid)
next
  case (PV_Connected n ck ack)
  then show ?thesis using assms by (simp add: connected_mid)
next
  case (PV_Connect_Failed n)
  then show ?thesis using assms by (simp add: failed_mid)
next
  case (PV_Assigned n answer)
  then show ?thesis using assms resolving_mid [OF assms] by (simp split: pool_task.split)
next
  case (PV_Control_Closed c)
  then show ?thesis using assms by (simp add: control_closed_mid)
next
  case (PV_Requests c n)
  then show ?thesis using assms by (simp add: requests_mid)
next
  case PV_Rotation_Timer
  then show ?thesis using assms by (simp add: rebindActive_mid split: option.split)
qed (use assms in \<open>simp_all add: handleDrain_mid openConnection_mid transport_event_mid closeOrigin_mid closeRetired_mid\<close>)

interpretation pool: event_machine pool_step pool_ok
  by unfold_locales (rule pool_step_ok)

lemma pool_new_ok: "pool_ok pool_new"
  by (simp add: pool_mid_def pool_new_def cells_ok_def sets_ok_def calls_ok_def migration_ok_def cells_def ties_def open_cells_def
      controls_of_def List.map_filter_def)

lemma pool_run_ok: "pool_ok (pool_run es)"
  unfolding pool_run_def by (rule pool.run_inv [OF pool_new_ok])

section \<open>What the invariant gives\<close>

lemma live_origin_cell: "pool_mid b l p \<Longrightarrow> i \<in> set (pl_origins p) \<longleftrightarrow> i < length (pl_store p) \<and> \<not> og_closed (origin_of i p)"
  using midD(2) [of b l p] by (auto simp: sets_ok_def open_cells_def cells_nth core_def origin_of_def)

lemma open_control_listed:
  assumes "pool_mid b l p" "open_control c p"
  shows "ct_origin (pl_controls p ! c) \<in> set (pl_origins p) \<and> c \<in> set (og_controls (origin_of (ct_origin (pl_controls p ! c)) p))"
proof -
  have c: "c < length (ties p)" "ties p ! c = (ct_origin (pl_controls p ! c), False)" using open_tie [OF assms(2)] by auto
  note m = mid_closed_cells [OF assms(1) c]
  show ?thesis using cells_tieD [OF midD(1) [OF assms(1)] c] m by (simp add: cells_nth core_def origin_of_def)
qed

lemma listed_control_open:
  assumes "pool_mid b l p" "i < length (pl_store p)" "c \<in> set (og_controls (origin_of i p))"
  shows "open_control c p \<and> ct_origin (pl_controls p ! c) = i"
proof -
  have "cell_ok (ties p) i (cells p ! i)" using cells_cellD [OF midD(1) [OF assms(1)], of i] assms(2) by simp
  then have "c < length (ties p) \<and> ties p ! c = (i, False)"
    by (rule cell_controlD) (use assms(2,3) in \<open>simp add: cells_nth core_def origin_of_def\<close>)
  then show ?thesis by (auto simp: open_control_def ties_def tie_def)
qed

lemma active_control_open:
  assumes "pool_mid b l p" "i < length (pl_store p)" "og_activeControl (origin_of i p) = Some c"
  shows "open_control c p \<and> ct_origin (pl_controls p ! c) = i"
proof -
  have "cell_ok (ties p) i (cells p ! i)" using cells_cellD [OF midD(1) [OF assms(1)], of i] assms(2) by simp
  then have "c \<in> set (og_controls (origin_of i p))"
    using assms(2,3) by (simp add: cell_ok_def cells_nth core_def origin_of_def)
  then show ?thesis using listed_control_open [OF assms(1,2)] by simp
qed

lemma active_answer:
  assumes ok: "pool_mid b l p" and h: "activeControl p = Some c"
  shows "open_control c p \<and> pl_activeOrigin p = Some (ct_origin (pl_controls p ! c))"
proof -
  obtain i where i: "pl_activeOrigin p = Some i" "og_activeControl (origin_of i p) = Some c"
    using h by (auto simp: activeControl_def split: option.splits)
  show ?thesis using mid_origins [OF ok active_live [OF ok i(1)]] active_control_open [OF ok _ i(2)] i(1) by simp
qed

lemma basis_answer:
  assumes ok: "pool_mid b l p" and h: "controlForBasis basis p = Some c"
  shows "open_control c p \<and> map_of (pl_basisOrigins p) basis = Some (ct_origin (pl_controls p ! c))"
proof -
  obtain i where i: "map_of (pl_basisOrigins p) basis = Some i" "og_activeControl (origin_of i p) = Some c"
    using h by (auto simp: controlForBasis_def split: option.splits)
  show ?thesis using mid_owners [OF ok map_of_SomeD [OF i(1)]] active_control_open [OF ok _ i(2)] i(1) by simp
qed

lemma closed_pool_empty:
  assumes "pool_mid b l p" "pl_closed p"
  shows "pl_origins p = []" "pl_activeOrigin p = None" "pl_rotationTimer p = None" "pl_drainTimers p = []" "pl_drainingOrigins p = []"
    "\<not> open_control c p"
proof -
  show o: "pl_origins p = []" "pl_activeOrigin p = None" "pl_rotationTimer p = None" "pl_drainTimers p = []" "pl_drainingOrigins p = []"
    using midD(2) [OF assms(1)] assms(2) by (auto simp: sets_ok_def)
  show "\<not> open_control c p" using open_control_listed [OF assms(1), of c] o(1) by auto
qed

lemma closed_pool_step:
  assumes ok: "pool_ok p" and closed: "pl_closed p"
  shows "pl_closed (pool_step p e)"
proof -
  note none = closed_pool_empty [OF ok closed]
  have released: "pl_closed (fold (onConnectionReleased i) ids q)" if "pl_closed q" "pl_drainingOrigins q = []" for i ids q
    using that by (induction ids arbitrary: q) (simp_all add: onConnectionReleased_def maybeCloseDrainedOrigin_def)
  have transport: "pl_closed (transport_op i g p)" "pl_drainingOrigins (transport_op i g p) = []" for i g
    using transport_views(3) [of i g p] none closed by (simp_all add: frame_of_def)
  show ?thesis
  proof (cases e)
    case (PV_Assigned n answer)
    then show ?thesis using closed
      by (auto simp: target_assigned_def drain_failed_def pool_isCurrent_def without_task_def split: pool_task.splits option.splits)
  next
    case (PV_Transport opts i ev)
    then show ?thesis using closed released [OF transport] by (simp add: transport_event_def split_beta)
  next
    case (PV_Retired_Timer c)
    then show ?thesis using closed frame_fields(7) [OF closeRetired_frame, of "ct_origin (pl_controls p ! c)" c p] by simp
  qed (use none closed in \<open>simp_all add: settles_def pool_isCurrent_def pool_refreshAuthorization_def pool_closeNow_def handleDrain_def
      split: option.splits\<close>)
qed

lemma closed_forever: "pool_ok p \<Longrightarrow> pl_closed p \<Longrightarrow> pl_closed (foldl pool_step p es)"
  by (induction es arbitrary: p) (simp_all add: closed_pool_step pool_step_ok)

lemma close_closes:
  assumes "pool_ok p"
  shows "pl_closed (pool_closeNow p)"
proof (cases "pl_closed p")
  case False
  define r where "r = p\<lparr>pl_closed := True, pl_rotationTimer := None, pl_drainTimers := []\<rparr>"
  have "\<forall>i \<in> set (pl_origins p). i < length (pl_store r)" using mid_origins [OF assms] by (simp add: r_def)
  moreover have "cells_ok (cells r) (ties r)" using midD(1) [OF assms] by (simp add: r_def cells_def ties_def)
  ultimately have "frame_of (fold origin_close (pl_origins p) r) = frame_of r" using close_all_views [of r "pl_origins p"] by simp
  then have "pl_closed (fold origin_close (pl_origins p) r)" by (simp add: frame_of_def r_def)
  then show ?thesis using False by (simp add: pool_closeNow_def r_def)
qed (simp add: pool_closeNow_def)

section \<open>What only the owner changes\<close>

text \<open>The pool is closed and loses its owner only through its own methods; no event of a control, a timer or a transport does it.\<close>

definition flags :: "origin_pool \<Rightarrow> bool \<times> bool" where
  "flags p = (pl_closed p, pl_current p)"

lemma flags_frame: "frame_of p = frame_of q \<Longrightarrow> flags p = flags q"
  by (simp add: flags_def frame_of_def)

lemma flags_fields [simp]:
  "flags (p\<lparr>pl_store := x1\<rparr>) = flags p" "flags (p\<lparr>pl_controls := x2\<rparr>) = flags p" "flags (p\<lparr>pl_activeOrigin := x3\<rparr>) = flags p"
  "flags (p\<lparr>pl_origins := x4\<rparr>) = flags p" "flags (p\<lparr>pl_drainingOrigins := x4\<rparr>) = flags p" "flags (p\<lparr>pl_basisOrigins := x5\<rparr>) = flags p"
  "flags (p\<lparr>pl_drainTimers := x4\<rparr>) = flags p" "flags (p\<lparr>pl_assignment := x6\<rparr>) = flags p" "flags (p\<lparr>pl_relayJwt := x7\<rparr>) = flags p"
  "flags (p\<lparr>pl_rotationTimer := x3\<rparr>) = flags p" "flags (p\<lparr>pl_rotationPromise := x8\<rparr>) = flags p" "flags (p\<lparr>pl_retries := x9\<rparr>) = flags p"
  "flags (p\<lparr>pl_tasks := x10\<rparr>) = flags p" "flags (p\<lparr>pl_trace := x11\<rparr>) = flags p"
  by (simp_all add: flags_def)

lemma flags_fold: "(\<And>x q. flags (g x q) = flags q) \<Longrightarrow> flags (fold g xs p) = flags p"
  by (induction xs arbitrary: p) simp_all

lemma flags_helpers [simp]:
  "flags (upd_origin i g p) = flags p" "flags (pool_emit e p) = flags p" "flags (close_control c p) = flags p"
  "flags (transport_op i h p) = flags p" "flags (snd (openControl i p)) = flags p" "flags (drop_control i c p) = flags p"
  "flags (onConnectionOwned i k p) = flags p" "flags (add_task t p) = flags p" "flags (without_task n p) = flags p"
  "flags (rebound i prev p) = flags p" "flags (closeRetiredControl i c p) = flags p" "flags (fst (activate i c ack p)) = flags p"
  by (simp_all add: upd_origin_def pool_emit_def close_control_def transport_op_def openControl_def drop_control_def onConnectionOwned_def
      add_task_def without_task_def Let_def split_beta flags_frame [OF rebound_frame] flags_frame [OF closeRetired_frame]
      flags_frame [OF activate_views(1)])

lemma flags_origin_close [simp]: "flags (origin_close i p) = flags p"
  by (simp add: origin_close_def flags_fold)

lemma flags_closing [simp]:
  "flags (closeOrigin i p) = flags p" "flags (maybeCloseDrainedOrigin i p) = flags p" "flags (onConnectionReleased i k p) = flags p"
  by (simp_all add: closeOrigin_def maybeCloseDrainedOrigin_def onConnectionReleased_def)

lemma flags_migration [simp]:
  "flags (scheduleControlRotation ck p) = flags p" "flags (rotation_failed i p) = flags p" "flags (drain_failed i g p) = flags p"
  "flags (handleDrain i g p) = flags p" "flags (activateTarget i a g p) = flags p" "flags (target_failed i t g p) = flags p"
  "flags (scheduleDrainDeadline i p) = flags p" "flags (initial_opened ck i p) = flags p"
  by (simp_all add: scheduleControlRotation_def rotation_failed_def drain_failed_def handleDrain_def activateTarget_def target_failed_def
      scheduleDrainDeadline_def initial_opened_def Let_def split_beta split: option.split)

lemma flags_drained [simp]:
  "flags (drain_done ck p) = flags p" "flags (rebindActiveControl i p) = flags p" "flags (target_assigned i g answer p) = flags p"
  by (simp_all add: drain_done_def rebindActiveControl_def target_assigned_def Let_def split_beta split: option.split)

lemma flags_resumed [simp]:
  "flags (drained_rebound ck i prev a g p) = flags p" "flags (target_activated ck i t a g p) = flags p"
  by (simp_all add: drained_rebound_def target_activated_def Let_def)

lemma flags_tasks [simp]: "flags (connected_task t ck ack p) = flags p" "flags (failed_task t p) = flags p"
  by (cases t; simp add: split_beta Let_def)+

lemma flags_events [simp]:
  "flags (control_closed c p) = flags p" "flags (origin_openConnection opts i conn p) = flags p" "flags (transport_event opts i e p) = flags p"
  by (simp_all add: control_closed_def origin_openConnection_def transport_event_def Let_def split_beta flags_fold)

text \<open>The pool's own events; what starts, closes or renews the pool is called by its owner.\<close>

fun own_event :: "pool_event \<Rightarrow> bool" where
  "own_event (PV_Open_Initial a jwt) = False"
| "own_event (PV_Refresh_Authorization jwt) = False"
| "own_event PV_Close = False"
| "own_event PV_Stale = False"
| "own_event _ = True"

lemma own_event_flags: "own_event e \<Longrightarrow> flags (pool_step p e) = flags p"
  by (cases e) (simp_all split: pool_task.split option.split)

section \<open>Properties\<close>

definition ex_assignment :: relay_assignment where
  "ex_assignment = \<lparr>ra_cellUrl = ''https://cell-a'', ra_assignmentEpoch = 1\<rparr>"

definition ex_ack :: "rat \<Rightarrow> hello_ack" where
  "ex_ack g = \<lparr>ak_generation = g, ak_controlResumeSecret = ''s'', ak_leaseExpiresAt = 600000, ak_activeConnIds = []\<rparr>"

definition ex_clock :: clock where
  "ex_clock = \<lparr>ck_now = 0, ck_random = 0\<rparr>"

text \<open>A session that opens its origin, and then migrates to a second cell because the first one drains.\<close>

definition ex_open :: "pool_event list" where
  "ex_open = [PV_Open_Initial ex_assignment ''jwt'', PV_Connected 0 ex_clock (ex_ack 1)]"

definition ex_migrate :: "pool_event list" where
  "ex_migrate = ex_open @ [PV_Requests 0 1, PV_Drain 0 5000, PV_Assigned 0 (Some (ex_assignment\<lparr>ra_cellUrl := ''https://cell-b''\<rparr>)),
     PV_Connected 0 ex_clock (ex_ack 1)]"

text \<open>
  A drain whose resolution fails leaves a retry timer; the control closes, the origin rebinds to the same cell, and only
  then does the timer fire.
\<close>

definition ex_recovered :: "pool_event list" where
  "ex_recovered = ex_open @ [PV_Drain 0 5000, PV_Assigned 0 None, PV_Control_Closed 0, PV_Assigned 0 (Some ex_assignment),
     PV_Connected 0 ex_clock (ex_ack 2)]"

text \<open>
  Property C16. Nothing of the pool is forgotten, after any events. Every control that is not closed is in the table of
  its origin, and that origin is one of the pool's, so that closing the pool reaches it. While the pool is open, every
  one of its origins is the active one, or has a drain deadline pending that closes it, or is the target that a
  migration is connecting to, or is the first one being opened; at most one migration is under way, and it is the
  active origin's.
\<close>

theorem pool_accounts_for_controls:
  fixes es :: "pool_event list"
  defines "p \<equiv> pool_run es"
  shows "(\<forall>c. open_control c p \<longrightarrow> ct_origin (pl_controls p ! c) \<in> set (pl_origins p) \<and>
            c \<in> set (og_controls (origin_of (ct_origin (pl_controls p ! c)) p))) \<and>
    (\<not> pl_closed p \<longrightarrow>
       (\<forall>i \<in> set (pl_origins p). pl_activeOrigin p = Some i \<or> i \<in> set (pl_drainTimers p) \<or>
          (\<exists>j c a g. Activating j i c a g \<in> set (pl_tasks p)) \<or> pl_activeOrigin p = None \<and> length (pl_store p) = 1) \<and>
       length (filter (\<lambda>t. drain_origin t \<noteq> None) (pl_tasks p)) \<le> 1 \<and>
       (\<forall>t i. t \<in> set (pl_tasks p) \<and> drain_origin t = Some i \<longrightarrow> pl_activeOrigin p = Some i))"
proof (intro conjI impI allI)
  have ok: "pool_ok p" by (simp add: p_def pool_run_ok)
  fix c assume "open_control c p"
  from open_control_listed [OF ok this]
  show "ct_origin (pl_controls p ! c) \<in> set (pl_origins p)" "c \<in> set (og_controls (origin_of (ct_origin (pl_controls p ! c)) p))" by auto
next
  assume nc: "\<not> pl_closed p"
  have ok: "pool_ok p" by (simp add: p_def pool_run_ok)
  note mig = midD(4) [OF ok nc]
  have "length (pl_store p) = 1" if "i \<in> set (pl_origins p)" "pl_activeOrigin p = None" for i
    using mig that mid_origins [OF ok that(1)] by (auto simp: migration_ok_def)
  moreover have "\<exists>j c a g. Activating j i c a g \<in> set (pl_tasks p)" if "i \<in> set (List.map_filter target_of (pl_tasks p))" for i
    using that by (auto simp: List.map_filter_def elim!: target_of.elims) blast
  ultimately show "\<forall>i \<in> set (pl_origins p). pl_activeOrigin p = Some i \<or> i \<in> set (pl_drainTimers p) \<or>
      (\<exists>j c a g. Activating j i c a g \<in> set (pl_tasks p)) \<or> pl_activeOrigin p = None \<and> length (pl_store p) = 1"
    using mig by (auto simp: migration_ok_def)
  show "length (filter (\<lambda>t. drain_origin t \<noteq> None) (pl_tasks p)) \<le> 1"
    using mig by (auto simp: migration_ok_def List.map_filter_def comp_def split: if_splits)
  show "pl_activeOrigin p = Some i" if "t \<in> set (pl_tasks p) \<and> drain_origin t = Some i" for t i
    using mig that by (force simp: migration_ok_def List.map_filter_def)
qed

theorem pool_accounts_for_controls_witness:
  "pl_activeOrigin (pool_run ex_migrate) = Some 1 \<and> pl_drainTimers (pool_run ex_migrate) = [0] \<and>
   open_control 0 (pool_run ex_migrate) \<and> \<not> pl_closed (pool_run ex_migrate) \<and>
   0 \<in> set (og_controls (origin_of (ct_origin (pl_controls (pool_run ex_migrate) ! 0)) (pool_run ex_migrate)))"
proof -
  have "pl_activeOrigin (pool_run ex_migrate) = Some 1 \<and> pl_drainTimers (pool_run ex_migrate) = [0] \<and>
    open_control 0 (pool_run ex_migrate) \<and> \<not> pl_closed (pool_run ex_migrate)"
    by code_simp
  then show ?thesis using pool_accounts_for_controls [of ex_migrate] by blast
qed

text \<open>
  A closed pool stays closed and holds nothing: after \<open>closeNow\<close>, whatever timers fire, connections settle or
  answers arrive afterwards, no origin is listed or active, no drain or rotation timer is pending, and every control that
  was ever opened is closed.
\<close>

theorem closed_pool_holds_nothing:
  "let p = pool_run (es @ PV_Close # es') in
     pl_closed p \<and> pl_origins p = [] \<and> pl_activeOrigin p = None \<and> pl_rotationTimer p = None \<and> pl_drainTimers p = [] \<and>
     list_all ct_closed (pl_controls p)"
proof -
  define q where "q = pool_step (pool_run es) PV_Close"
  have q: "pool_ok q" "pl_closed q" using pool_run_ok [of es] close_closes by (simp_all add: q_def pool_closeNow_mid)
  have run: "pool_run (es @ PV_Close # es') = foldl pool_step q es'" by (simp add: pool_run_def q_def)
  have p: "pool_ok (foldl pool_step q es')" "pl_closed (foldl pool_step q es')"
    using pool.run_inv [OF q(1)] closed_forever [OF q] by simp_all
  show ?thesis using closed_pool_empty [OF p] p(2) by (auto simp: run Let_def list_all_length open_control_def)
qed

text \<open>
  The controls that the pool answers with are usable: after any events, the active control and the control for
  a basis connection are open controls that belong to the origin they were looked up in, even when the origin of the
  basis connection has been closed or replaced in the meantime.
\<close>

theorem answered_controls_are_open:
  fixes es :: "pool_event list"
  defines "p \<equiv> pool_run es"
  shows "(\<forall>c. activeControl p = Some c \<longrightarrow> open_control c p \<and> pl_activeOrigin p = Some (ct_origin (pl_controls p ! c))) \<and>
    (\<forall>basis c. controlForBasis basis p = Some c \<longrightarrow> open_control c p \<and> map_of (pl_basisOrigins p) basis = Some (ct_origin (pl_controls p ! c)))"
  unfolding p_def using active_answer [OF pool_run_ok] basis_answer [OF pool_run_ok] by blast

theorem answered_controls_are_open_witness:
  "activeControl (pool_run ex_open) = Some 0 \<and> open_control 0 (pool_run ex_open)"
proof -
  have "activeControl (pool_run ex_open) = Some 0" by code_simp
  then show ?thesis using answered_controls_are_open [of ex_open] by blast
qed

text \<open>
  A retry that is left over drains an origin that has recovered: the timer of a failed resolution is never
  cancelled, so when it fires while the same origin is active again and accepts connections, the origin stops accepting,
  the status goes back to draining, and a connection that the relay announces on its control is dropped without an answer.
\<close>

theorem stale_retry_drains_recovered_origin:
  assumes "pool_isCurrent p" "pl_activeOrigin p = Some i" "i < length (pl_store p)"
    and "n < length (pl_retries p)" "fst (pl_retries p ! n) = i"
    and "og_acceptingConnections (origin_of i p)" "i \<notin> set (pl_drainingOrigins p)"
  shows "\<not> og_acceptingConnections (origin_of i (pool_step p (PV_Retry_Timer n))) \<and>
    i \<in> set (pl_drainingOrigins (pool_step p (PV_Retry_Timer n))) \<and>
    PL_Status Pool_Draining \<in> set (drop (length (pl_trace p)) (pl_trace (pool_step p (PV_Retry_Timer n)))) \<and>
    origin_openConnection opts i conn (pool_step p (PV_Retry_Timer n)) =
      pool_emit (PL_Ignored (co_connId conn)) (pool_step p (PV_Retry_Timer n))"
  using assms
  by (auto simp: handleDrain_def Let_def origin_of_def upd_origin_def pool_isCurrent_def pool_emit_def drain_failed_def add_task_def
      origin_openConnection_def)

theorem stale_retry_drains_recovered_origin_witness:
  "og_acceptingConnections (origin_of 0 (pool_run ex_recovered)) \<and> last (pl_trace (pool_run ex_recovered)) = PL_Rotate_In 540000 \<and>
   \<not> og_acceptingConnections (origin_of 0 (pool_run (ex_recovered @ [PV_Retry_Timer 0])))"
proof -
  have h: "pool_isCurrent (pool_run ex_recovered)" "pl_activeOrigin (pool_run ex_recovered) = Some 0" "0 < length (pl_store (pool_run ex_recovered))"
    "0 < length (pl_retries (pool_run ex_recovered))" "fst (pl_retries (pool_run ex_recovered) ! 0) = 0"
    "og_acceptingConnections (origin_of 0 (pool_run ex_recovered))" "0 \<notin> set (pl_drainingOrigins (pool_run ex_recovered))"
    by code_simp+
  moreover have "last (pl_trace (pool_run ex_recovered)) = PL_Rotate_In 540000" by code_simp
  moreover have "pool_run (ex_recovered @ [PV_Retry_Timer 0]) = pool_step (pool_run ex_recovered) (PV_Retry_Timer 0)"
    by (simp add: pool_run_def)
  ultimately show ?thesis using stale_retry_drains_recovered_origin [OF h, of "\<lparr>do_cellWebSocketOrigin = [], do_relayHostId = []\<rparr>"
      "\<lparr>co_connId = ''c'', co_connTicket = ''t'', co_kind = Invite_Credential, co_relayDeviceId = ''d''\<rparr>"] by simp
qed

text \<open>
  The control is rotated before its lease runs out: when the lease has at least two minutes and a
  millisecond left, the timer fires between one and two minutes before the expiry, whatever the random number.
\<close>

theorem rotation_precedes_expiry:
  assumes "0 \<le> ck_random ck" "ck_random ck < 1" "ck_now ck + 120001 \<le> lease"
  shows "lease - 120000 \<le> ck_now ck + rotation_delay ck lease \<and> ck_now ck + rotation_delay ck lease \<le> lease - 60000"
proof -
  have f: "0 \<le> \<lfloor>ck_random ck * 60001\<rfloor>" "\<lfloor>ck_random ck * 60001\<rfloor> \<le> 60000"
    using assms(1,2) by (auto simp: floor_le_iff)
  then have "(0::rat) \<le> of_int \<lfloor>ck_random ck * 60001\<rfloor>" "(of_int \<lfloor>ck_random ck * 60001\<rfloor> :: rat) \<le> 60000"
    by (simp_all add: of_int_le_iff [of _ 60000, simplified])
  then show ?thesis using assms(3) unfolding rotation_delay_def by linarith
qed

theorem rotation_precedes_expiry_witness:
  "ex_clock = \<lparr>ck_now = 0, ck_random = 0\<rparr> \<and> 480000 \<le> rotation_delay ex_clock 600000 \<and> rotation_delay ex_clock 600000 \<le> 540000"
  using rotation_precedes_expiry [of ex_clock 600000] by (simp add: ex_clock_def)

end
