(* ===== verification/Relay_Broker.thy ===== *)
theory Relay_Broker
  imports Relay_Pool Relay_Service
begin

text \<open>
  The session broker, \<open>src/pie-mobile/upstream/src/main/runtime/relay/relay-session-broker.ts\<close>: it exchanges the account's
  access token for a relay authorization, asks the director for a cell, opens the pool of origins on it, keeps the
  authorization fresh and passes the requests of the relay service to the right control.

  The answers of the token endpoint and of the director arrive as events, as does the answer of a control to a request; a call
  that waits is a task. Each event carries the clock and the random number. \<open>options.isCurrent()\<close> is the flag \<open>bk_current\<close>, which the pool has
  too. The last sections compose the broker with the pool below it and with the coordinator above it.
\<close>

section \<open>State\<close>

record relay_authorization =
  az_relayToken :: string
  az_expiresAt :: rat

datatype relay_status = St_Connecting | St_Registered | St_Draining | St_Offline

datatype broker_request =
    Create_Invite string
  | Create_Pairing_Relay string
  | Revoke_Device string "string option"
  | Install_Credential string install_authorization
  | Credential_Install_Status string string
  | Confirm_Resume string string

datatype broker_error = Relay_Control_Not_Active | Relay_Basis_Origin_Not_Found | Stale_Relay_Broker | Control_Failed

datatype broker_task =
    Exchanging_First
  | Requesting_Assignment relay_authorization
  | Opening_Pool relay_authorization
  | Refreshing_Access_Token
  | Exchanging_Again
  | Awaiting_Control nat broker_request "relay_assignment option"

datatype broker_effect =
    BE_Status relay_status
  | BE_Refresh_In rat
  | BE_Connected
  | BE_Connect_Failed
  | BE_Request nat broker_request
  | BE_Rejected broker_request broker_error
  | BE_Resolved broker_request "relay_assignment option"

record session_broker =
  bk_pool :: origin_pool
  bk_authorization :: "relay_authorization option"
  bk_refreshTimer :: bool
  bk_closed :: bool
  bk_current :: bool
  bk_tasks :: "broker_task list"
  bk_trace :: "broker_effect list"

definition broker_emit :: "broker_effect \<Rightarrow> session_broker \<Rightarrow> session_broker" where
  "broker_emit e b = b\<lparr>bk_trace := bk_trace b @ [e]\<rparr>"

definition broker_isCurrent :: "session_broker \<Rightarrow> bool" where
  "broker_isCurrent b \<longleftrightarrow> \<not> bk_closed b \<and> bk_current b"

definition publishStatus :: "relay_status \<Rightarrow> session_broker \<Rightarrow> session_broker" where
  "publishStatus st b = (if broker_isCurrent b then broker_emit (BE_Status st) b else b)"

definition await_task :: "broker_task \<Rightarrow> session_broker \<Rightarrow> session_broker" where
  "await_task t b = b\<lparr>bk_tasks := bk_tasks b @ [t]\<rparr>"

definition resume_task :: "nat \<Rightarrow> session_broker \<Rightarrow> session_broker" where
  "resume_task n b = b\<lparr>bk_tasks := take n (bk_tasks b) @ drop (Suc n) (bk_tasks b)\<rparr>"

section \<open>Opening and closing\<close>

definition broker_closeNow :: "session_broker \<Rightarrow> session_broker" where
  "broker_closeNow b =
     (if bk_closed b then b
      else (let b1 = b\<lparr>bk_closed := True, bk_refreshTimer := False, bk_pool := pool_closeNow (bk_pool b)\<rparr>
            in if bk_current b then broker_emit (BE_Status St_Offline) b1 else b1))"

text \<open>\<open>connect\<close> with \<open>open\<close> up to its first await; its \<open>catch\<close>; and \<open>open\<close> after each await.\<close>

definition broker_connect :: "bool \<Rightarrow> session_broker" where
  "broker_connect current =
     await_task Exchanging_First
       (publishStatus St_Connecting
         \<lparr>bk_pool = (if current then pool_new else pool_new\<lparr>pl_current := False\<rparr>), bk_authorization = None, bk_refreshTimer = False,
          bk_closed = False, bk_current = current, bk_tasks = [], bk_trace = []\<rparr>)"

definition connect_failed :: "session_broker \<Rightarrow> session_broker" where
  "connect_failed b = broker_emit BE_Connect_Failed (broker_closeNow b)"

definition first_exchanged :: "relay_authorization option \<Rightarrow> session_broker \<Rightarrow> session_broker" where
  "first_exchanged answer b =
     (case answer of
        None \<Rightarrow> connect_failed b
      | Some a \<Rightarrow> (if \<not> broker_isCurrent b then connect_failed b else await_task (Requesting_Assignment a) b))"

definition assignment_answered :: "relay_authorization \<Rightarrow> relay_assignment option \<Rightarrow> session_broker \<Rightarrow> session_broker" where
  "assignment_answered auth answer b =
     (case answer of
        None \<Rightarrow> connect_failed b
      | Some a \<Rightarrow>
          (if \<not> broker_isCurrent b then connect_failed b
           else await_task (Opening_Pool auth) (b\<lparr>bk_pool := openInitial a (az_relayToken auth) (bk_pool b)\<rparr>)))"

definition refresh_delay :: "clock \<Rightarrow> rat \<Rightarrow> rat" where
  "refresh_delay ck expiresAt = max 0 (expiresAt - (60000 + of_int \<lfloor>ck_random ck * 60001\<rfloor>) - ck_now ck)"

definition scheduleRefresh :: "clock \<Rightarrow> session_broker \<Rightarrow> session_broker" where
  "scheduleRefresh ck b =
     (case bk_authorization b of
        None \<Rightarrow> b
      | Some a \<Rightarrow> (if bk_closed b then b else broker_emit (BE_Refresh_In (refresh_delay ck (az_expiresAt a))) (b\<lparr>bk_refreshTimer := True\<rparr>)))"

definition pool_opened :: "clock \<Rightarrow> relay_authorization \<Rightarrow> session_broker \<Rightarrow> session_broker" where
  "pool_opened ck auth b =
     (if \<not> broker_isCurrent b then connect_failed b
      else broker_emit BE_Connected (scheduleRefresh ck (publishStatus St_Registered (b\<lparr>bk_authorization := Some auth\<rparr>))))"

section \<open>Refreshing the authorization\<close>

text \<open>The \<open>catch\<close> of \<open>refreshAuthorization\<close>.\<close>

definition refresh_failed :: "clock \<Rightarrow> session_broker \<Rightarrow> session_broker" where
  "refresh_failed ck b =
     (let expiry = (case bk_authorization b of Some a \<Rightarrow> az_expiresAt a | None \<Rightarrow> 0)
      in if \<not> bk_closed b \<and> bk_current b \<and> ck_now ck \<le> expiry + 60000
         then broker_emit (BE_Refresh_In (5000 + of_int \<lfloor>ck_random ck * 10001\<rfloor>)) (b\<lparr>bk_refreshTimer := True\<rparr>)
         else broker_closeNow b)"

definition refreshAuthorization :: "session_broker \<Rightarrow> session_broker" where
  "refreshAuthorization b = await_task Refreshing_Access_Token (b\<lparr>bk_refreshTimer := False\<rparr>)"

text \<open>The access token: \<open>None\<close> for a rejected promise, \<open>Some None\<close> for null.\<close>

definition access_token_read :: "clock \<Rightarrow> string option option \<Rightarrow> session_broker \<Rightarrow> session_broker" where
  "access_token_read ck answer b =
     (case answer of
        None \<Rightarrow> refresh_failed ck b
      | Some tok \<Rightarrow>
          (if \<not> broker_isCurrent b then refresh_failed ck b
           else if tok = None \<or> tok = Some [] then broker_closeNow b
           else await_task Exchanging_Again b))"

definition again_exchanged :: "clock \<Rightarrow> relay_authorization option \<Rightarrow> session_broker \<Rightarrow> session_broker" where
  "again_exchanged ck answer b =
     (case answer of
        None \<Rightarrow> refresh_failed ck b
      | Some a \<Rightarrow>
          (if \<not> broker_isCurrent b then refresh_failed ck b
           else scheduleRefresh ck (b\<lparr>bk_pool := pool_refreshAuthorization (az_relayToken a) (bk_pool b), bk_authorization := Some a\<rparr>)))"

section \<open>Requests\<close>

fun request_basis :: "broker_request \<Rightarrow> string option" where
  "request_basis (Install_Credential dev (Relay_Basis basis)) = Some basis"
| "request_basis (Confirm_Resume basis reqId) = Some basis"
| "request_basis _ = None"

definition request_control :: "broker_request \<Rightarrow> session_broker \<Rightarrow> nat option" where
  "request_control r b = (case request_basis r of Some basis \<Rightarrow> controlForBasis basis (bk_pool b) | None \<Rightarrow> activeControl (bk_pool b))"

fun not_found :: "broker_request \<Rightarrow> broker_error" where
  "not_found (Confirm_Resume basis reqId) = Relay_Basis_Origin_Not_Found"
| "not_found _ = Relay_Control_Not_Active"

fun is_pairing :: "broker_request \<Rightarrow> bool" where
  "is_pairing (Create_Pairing_Relay dev) = True"
| "is_pairing _ = False"

definition broker_request_to :: "broker_request \<Rightarrow> session_broker \<Rightarrow> session_broker" where
  "broker_request_to r b =
     (case request_control r b of
        None \<Rightarrow> broker_emit (BE_Rejected r (not_found r)) b
      | Some c \<Rightarrow>
          (if is_pairing r \<and> pl_assignment (bk_pool b) = None then broker_emit (BE_Rejected r Relay_Control_Not_Active) b
           else await_task (Awaiting_Control c r (pl_assignment (bk_pool b))) (broker_emit (BE_Request c r) b)))"

text \<open>\<open>createInvite\<close> and \<open>revokeDevice\<close> return the control's promise; the others check that the broker is still current.\<close>

fun passes_through :: "broker_request \<Rightarrow> bool" where
  "passes_through (Create_Invite dev) = True"
| "passes_through (Revoke_Device dev reqId) = True"
| "passes_through _ = False"

definition control_replied :: "broker_request \<Rightarrow> relay_assignment option \<Rightarrow> bool \<Rightarrow> session_broker \<Rightarrow> session_broker" where
  "control_replied r assignment ok b =
     (if \<not> ok then broker_emit (BE_Rejected r Control_Failed) b
      else if \<not> passes_through r \<and> \<not> broker_isCurrent b then broker_emit (BE_Rejected r Stale_Relay_Broker) b
      else broker_emit (BE_Resolved r (if is_pairing r then assignment else None)) b)"

record relay_endpoint =
  ep_directorUrl :: string
  ep_cellUrl :: string
  ep_assignmentEpoch :: rat
  ep_relayHostId :: string

definition endpoint :: "string \<Rightarrow> string \<Rightarrow> session_broker \<Rightarrow> relay_endpoint option" where
  "endpoint directorUrl relayHostId b =
     (case pl_assignment (bk_pool b) of
        None \<Rightarrow> None
      | Some a \<Rightarrow> Some \<lparr>ep_directorUrl = directorUrl, ep_cellUrl = ra_cellUrl a, ep_assignmentEpoch = ra_assignmentEpoch a, ep_relayHostId = relayHostId\<rparr>)"

section \<open>Events\<close>

datatype broker_event =
    BV_First_Exchanged nat "relay_authorization option"
  | BV_Assigned nat "relay_assignment option"
  | BV_Pool clock pool_event
  | BV_Refresh_Timer
  | BV_Access_Token nat clock "string option option"
  | BV_Again_Exchanged nat clock "relay_authorization option"
  | BV_Request broker_request
  | BV_Reply nat bool
  | BV_Close
  | BV_Stale

fun pool_statuses :: "pool_effect \<Rightarrow> broker_effect list" where
  "pool_statuses (PL_Status Pool_Offline) = [BE_Status St_Offline]"
| "pool_statuses (PL_Status Pool_Draining) = [BE_Status St_Draining]"
| "pool_statuses (PL_Status Pool_Registered) = [BE_Status St_Registered]"
| "pool_statuses _ = []"

definition opening_of :: "session_broker \<Rightarrow> (nat \<times> relay_authorization) option" where
  "opening_of b =
     (case List.find (\<lambda>n. case bk_tasks b ! n of Opening_Pool a \<Rightarrow> True | _ \<Rightarrow> False) [0..<length (bk_tasks b)] of
        None \<Rightarrow> None
      | Some n \<Rightarrow> (case bk_tasks b ! n of Opening_Pool a \<Rightarrow> Some (n, a) | _ \<Rightarrow> None))"

text \<open>A pool event: its statuses are published, and the call of \<open>openInitial\<close> settles when the pool says so.\<close>

definition broker_pool :: "clock \<Rightarrow> pool_event \<Rightarrow> session_broker \<Rightarrow> session_broker" where
  "broker_pool ck e b =
     (let p = pool_step (bk_pool b) e; new = drop (length (pl_trace (bk_pool b))) (pl_trace p);
          b1 = b\<lparr>bk_pool := p, bk_trace := bk_trace b @ (if broker_isCurrent b then concat (map pool_statuses new) else [])\<rparr>
      in case opening_of b1 of
           None \<Rightarrow> b1
         | Some (n, auth) \<Rightarrow>
             (if PL_Opened \<in> set new then pool_opened ck auth (resume_task n b1)
              else if PL_Open_Failed \<in> set new then connect_failed (resume_task n b1)
              else b1))"

fun broker_step :: "session_broker \<Rightarrow> broker_event \<Rightarrow> session_broker" where
  "broker_step b (BV_First_Exchanged n answer) =
     (if n < length (bk_tasks b) \<and> bk_tasks b ! n = Exchanging_First then first_exchanged answer (resume_task n b) else b)"
| "broker_step b (BV_Assigned n answer) =
     (if n < length (bk_tasks b)
      then (case bk_tasks b ! n of Requesting_Assignment a \<Rightarrow> assignment_answered a answer (resume_task n b) | _ \<Rightarrow> b) else b)"
| "broker_step b (BV_Pool ck e) = (if own_event e then broker_pool ck e b else b)"
| "broker_step b BV_Refresh_Timer = (if bk_refreshTimer b then refreshAuthorization b else b)"
| "broker_step b (BV_Access_Token n ck answer) =
     (if n < length (bk_tasks b) \<and> bk_tasks b ! n = Refreshing_Access_Token then access_token_read ck answer (resume_task n b) else b)"
| "broker_step b (BV_Again_Exchanged n ck answer) =
     (if n < length (bk_tasks b) \<and> bk_tasks b ! n = Exchanging_Again then again_exchanged ck answer (resume_task n b) else b)"
| "broker_step b (BV_Request r) = broker_request_to r b"
| "broker_step b (BV_Reply n ok) =
     (if n < length (bk_tasks b)
      then (case bk_tasks b ! n of Awaiting_Control c r a \<Rightarrow> control_replied r a ok (resume_task n b) | _ \<Rightarrow> b) else b)"
| "broker_step b BV_Close = broker_closeNow b"
| "broker_step b BV_Stale = b\<lparr>bk_current := False, bk_pool := pool_step (bk_pool b) PV_Stale\<rparr>"

definition broker_run :: "bool \<Rightarrow> broker_event list \<Rightarrow> session_broker" where
  "broker_run current es = foldl broker_step (broker_connect current) es"

section \<open>Invariant\<close>

fun opens :: "broker_task \<Rightarrow> bool" where
  "opens Exchanging_First = True"
| "opens (Requesting_Assignment a) = True"
| "opens (Opening_Pool a) = True"
| "opens _ = False"

fun refreshes :: "broker_task \<Rightarrow> bool" where
  "refreshes Refreshing_Access_Token = True"
| "refreshes Exchanging_Again = True"
| "refreshes _ = False"

fun before_pool :: "broker_task \<Rightarrow> bool" where
  "before_pool Exchanging_First = True"
| "before_pool (Requesting_Assignment a) = True"
| "before_pool _ = False"

text \<open>A pool that was not opened yet.\<close>

definition pristine :: "origin_pool \<Rightarrow> bool" where
  "pristine p \<longleftrightarrow> pl_store p = [] \<and> pl_controls p = [] \<and> pl_tasks p = [] \<and> pl_retries p = [] \<and> pl_rotationTimer p = None \<and> pl_drainTimers p = []"

text \<open>The broker and its pool agree, whatever the broker waits for.\<close>

definition linked :: "session_broker \<Rightarrow> bool" where
  "linked b \<longleftrightarrow> pool_ok (bk_pool b) \<and> flags (bk_pool b) = (bk_closed b, bk_current b) \<and> (bk_closed b \<longrightarrow> \<not> bk_refreshTimer b)"

definition timers :: "session_broker \<Rightarrow> nat" where
  "timers b = length (filter refreshes (bk_tasks b)) + (if bk_refreshTimer b then 1 else 0)"

definition openings :: "session_broker \<Rightarrow> nat" where
  "openings b = length (filter opens (bk_tasks b))"

text \<open>
  Between events an open broker is being opened or has one refresh pending. While the code runs that resumed from one of these
  awaits, nothing is pending (\<open>in_hand\<close>).
\<close>

definition in_hand :: "session_broker \<Rightarrow> bool" where
  "in_hand b \<longleftrightarrow> linked b \<and> (\<not> bk_closed b \<longrightarrow> openings b + timers b = 0)"

definition broker_ok :: "session_broker \<Rightarrow> bool" where
  "broker_ok b \<longleftrightarrow> linked b \<and>
     (\<not> bk_closed b \<longrightarrow> openings b + timers b = 1 \<and> (openings b = 0 \<longrightarrow> bk_authorization b \<noteq> None) \<and>
        (list_ex before_pool (bk_tasks b) \<longrightarrow> pristine (bk_pool b)))"

lemma count_resume:
  assumes "n < length (bk_tasks b)"
  shows "openings (resume_task n b) + (if opens (bk_tasks b ! n) then 1 else 0) = openings b"
    "timers (resume_task n b) + (if refreshes (bk_tasks b ! n) then 1 else 0) = timers b"
proof -
  have *: "length (filter P (take n (bk_tasks b) @ drop (Suc n) (bk_tasks b))) + (if P (bk_tasks b ! n) then 1 else 0) = length (filter P (bk_tasks b))" for P
    using arg_cong [OF id_take_nth_drop [OF assms], of "\<lambda>ts. length (filter P ts)"] by (simp del: append_take_drop_id)
  show "openings (resume_task n b) + (if opens (bk_tasks b ! n) then 1 else 0) = openings b"
    "timers (resume_task n b) + (if refreshes (bk_tasks b ! n) then 1 else 0) = timers b"
    using * [of opens] * [of refreshes] by (simp_all add: openings_def timers_def resume_task_def)
qed

lemma count_await [simp]:
  "openings (await_task t b) = openings b + (if opens t then 1 else 0)" "timers (await_task t b) = timers b + (if refreshes t then 1 else 0)"
  by (simp_all add: openings_def timers_def await_task_def)

lemma resume_views [simp]:
  "bk_pool (resume_task n b) = bk_pool b" "bk_authorization (resume_task n b) = bk_authorization b" "bk_closed (resume_task n b) = bk_closed b"
  "bk_refreshTimer (resume_task n b) = bk_refreshTimer b" "bk_current (resume_task n b) = bk_current b" "bk_trace (resume_task n b) = bk_trace b"
  by (simp_all add: resume_task_def)

lemma await_views [simp]:
  "bk_pool (await_task t b) = bk_pool b" "bk_authorization (await_task t b) = bk_authorization b" "bk_closed (await_task t b) = bk_closed b"
  "bk_refreshTimer (await_task t b) = bk_refreshTimer b" "bk_current (await_task t b) = bk_current b" "bk_trace (await_task t b) = bk_trace b"
  by (simp_all add: await_task_def)

lemma emit_ok [simp]:
  "linked (broker_emit e b) = linked b" "in_hand (broker_emit e b) = in_hand b" "broker_ok (broker_emit e b) = broker_ok b"
  "bk_closed (broker_emit e b) = bk_closed b" "bk_authorization (broker_emit e b) = bk_authorization b" "bk_pool (broker_emit e b) = bk_pool b"
  "bk_current (broker_emit e b) = bk_current b" "bk_refreshTimer (broker_emit e b) = bk_refreshTimer b"
  by (simp_all add: broker_emit_def linked_def in_hand_def broker_ok_def openings_def timers_def)

lemma publish_ok [simp]:
  "broker_ok (publishStatus st b) = broker_ok b" "in_hand (publishStatus st b) = in_hand b" "bk_closed (publishStatus st b) = bk_closed b"
  "bk_authorization (publishStatus st b) = bk_authorization b"
  by (simp_all add: publishStatus_def)

lemma resume_linked [simp]: "linked (resume_task n b) = linked b" "linked (await_task t b) = linked b"
  by (simp_all add: linked_def)

lemma ok_linked: "broker_ok b \<Longrightarrow> linked b" "in_hand b \<Longrightarrow> linked b"
  by (simp_all add: broker_ok_def in_hand_def)

lemma resume_hand:
  assumes "broker_ok b" "n < length (bk_tasks b)" "opens (bk_tasks b ! n) \<or> refreshes (bk_tasks b ! n)"
  shows "in_hand (resume_task n b)"
  using assms count_resume [OF assms(2)] by (cases "bk_tasks b ! n") (auto simp: broker_ok_def in_hand_def)

lemma resume_other:
  assumes "broker_ok b" "n < length (bk_tasks b)" "\<not> opens (bk_tasks b ! n)" "\<not> refreshes (bk_tasks b ! n)"
  shows "broker_ok (resume_task n b)"
proof -
  have "list_ex before_pool (bk_tasks (resume_task n b)) \<Longrightarrow> list_ex before_pool (bk_tasks b)"
    by (auto simp: resume_task_def list_ex_iff dest: in_set_takeD in_set_dropD)
  then show ?thesis using assms count_resume [OF assms(2)] by (auto simp: broker_ok_def)
qed

lemma refresh_has_authorization:
  assumes "broker_ok b" "n < length (bk_tasks b)" "refreshes (bk_tasks b ! n)" "\<not> bk_closed b"
  shows "bk_authorization b \<noteq> None"
proof -
  have "openings b = 0" using assms count_resume(2) [OF assms(2)] by (auto simp: broker_ok_def)
  then show ?thesis using assms by (simp add: broker_ok_def)
qed

lemma close_ok:
  assumes "linked b"
  shows "broker_ok (broker_closeNow b)" "linked (broker_closeNow b)" "bk_closed (broker_closeNow b)"
proof -
  have "flags (pool_closeNow (bk_pool b)) = (True, bk_current b)" if "\<not> bk_closed b"
  proof -
    have "pl_closed (pool_closeNow (bk_pool b))" using assms close_closes by (simp add: linked_def)
    moreover have "pl_current (pool_closeNow (bk_pool b)) = pl_current (bk_pool b)"
      using flags_fold [of origin_close "pl_origins (bk_pool b)"
          "(bk_pool b)\<lparr>pl_closed := True, pl_rotationTimer := None, pl_drainTimers := []\<rparr>", OF flags_origin_close]
      by (simp add: pool_closeNow_def Let_def flags_def)
    ultimately show ?thesis using assms by (simp add: flags_def linked_def)
  qed
  then show l: "linked (broker_closeNow b)" "bk_closed (broker_closeNow b)"
    using assms by (auto simp: broker_closeNow_def Let_def linked_def pool_closeNow_mid)
  then show "broker_ok (broker_closeNow b)" by (simp add: broker_ok_def)
qed

lemma failed_ok: "linked b \<Longrightarrow> broker_ok (connect_failed b)"
  by (simp add: connect_failed_def close_ok)

lemma no_before_pool: "in_hand b \<Longrightarrow> \<not> bk_closed b \<Longrightarrow> \<not> list_ex before_pool (bk_tasks b)"
proof -
  assume "in_hand b" "\<not> bk_closed b"
  then have "filter opens (bk_tasks b) = []" by (simp add: in_hand_def openings_def)
  moreover have "before_pool t \<Longrightarrow> opens t" for t by (cases t) auto
  ultimately show ?thesis by (auto simp: list_ex_iff filter_empty_conv)
qed

lemma await_ok:
  assumes "in_hand b" "opens t \<noteq> refreshes t" "opens t \<or> bk_authorization b \<noteq> None" "before_pool t \<Longrightarrow> pristine (bk_pool b)"
  shows "broker_ok (await_task t b)"
  using assms no_before_pool [OF assms(1)]
  by (cases "opens t") (auto simp: broker_ok_def in_hand_def await_task_def openings_def timers_def linked_def)

lemma schedule_ok:
  assumes "in_hand b" "bk_authorization b \<noteq> None"
  shows "broker_ok (scheduleRefresh ck b)"
proof (cases "bk_closed b")
  case True
  then show ?thesis using assms by (auto simp: scheduleRefresh_def in_hand_def broker_ok_def)
next
  case False
  have "broker_ok (b\<lparr>bk_refreshTimer := True\<rparr>)"
    using assms False no_before_pool [OF assms(1) False] by (simp add: broker_ok_def in_hand_def linked_def openings_def timers_def)
  then show ?thesis using assms(2) False by (auto simp: scheduleRefresh_def)
qed

lemma refresh_failed_ok:
  assumes "in_hand b" "\<not> bk_closed b \<Longrightarrow> bk_authorization b \<noteq> None"
  shows "broker_ok (refresh_failed ck b)"
proof -
  have "broker_ok (b\<lparr>bk_refreshTimer := True\<rparr>)" if "\<not> bk_closed b"
    using assms that no_before_pool [OF assms(1) that] by (simp add: broker_ok_def in_hand_def linked_def openings_def timers_def)
  then show ?thesis using close_ok(1) [OF ok_linked(2) [OF assms(1)]] by (simp add: refresh_failed_def Let_def)
qed

lemma current_open: "linked b \<Longrightarrow> broker_isCurrent b \<Longrightarrow> \<not> bk_closed b \<and> \<not> pl_closed (bk_pool b)"
  by (simp add: linked_def flags_def broker_isCurrent_def)

lemma openInitial_flags: "flags (openInitial a jwt p) = flags p"
  by (simp add: openInitial_def Let_def split_beta)

lemma assignment_ok:
  assumes "in_hand b" "broker_isCurrent b \<Longrightarrow> pristine (bk_pool b)"
  shows "broker_ok (assignment_answered auth answer b)"
proof -
  have "in_hand (b\<lparr>bk_pool := openInitial a (az_relayToken auth) (bk_pool b)\<rparr>)" if "broker_isCurrent b" for a
    using assms that current_open [OF ok_linked(2) [OF assms(1)] that] openInitial_mid [of "bk_pool b" a "az_relayToken auth"]
    by (simp add: in_hand_def linked_def pristine_def openings_def timers_def openInitial_flags)
  then show ?thesis using failed_ok [OF ok_linked(2) [OF assms(1)]] by (auto simp: assignment_answered_def intro!: await_ok split: option.split)
qed

lemma refresh_pool_ok: "pool_ok (pool_refreshAuthorization jwt p) = pool_ok p" "flags (pool_refreshAuthorization jwt p) = flags p"
  by (simp_all add: pool_refreshAuthorization_def)

lemma again_ok:
  assumes "in_hand b" "\<not> bk_closed b \<Longrightarrow> bk_authorization b \<noteq> None"
  shows "broker_ok (again_exchanged ck answer b)"
proof -
  have "in_hand (b\<lparr>bk_pool := pool_refreshAuthorization (az_relayToken a) (bk_pool b), bk_authorization := Some a\<rparr>)" for a
    using assms(1) by (simp add: in_hand_def linked_def refresh_pool_ok openings_def timers_def)
  then show ?thesis using refresh_failed_ok [OF assms] by (simp add: again_exchanged_def schedule_ok split: option.split)
qed

lemma token_ok:
  assumes "in_hand b" "\<not> bk_closed b \<Longrightarrow> bk_authorization b \<noteq> None"
  shows "broker_ok (access_token_read ck answer b)"
proof -
  have "broker_ok (await_task Exchanging_Again b)" if "broker_isCurrent b"
    using assms that by (intro await_ok) (simp_all add: broker_isCurrent_def)
  then show ?thesis using refresh_failed_ok [OF assms] close_ok(1) [OF ok_linked(2) [OF assms(1)]]
    by (simp add: access_token_read_def split: option.split)
qed

lemma find_in: "List.find P xs = Some x \<Longrightarrow> x \<in> set xs"
  by (induction xs) (auto split: if_splits)

lemma opening_of_Some: "opening_of b = Some (n, a) \<Longrightarrow> n < length (bk_tasks b) \<and> bk_tasks b ! n = Opening_Pool a"
  by (auto simp: opening_of_def dest!: find_in split: option.splits broker_task.splits)

lemma pristine_step: "pristine p \<Longrightarrow> own_event e \<Longrightarrow> pool_step p e = p"
  by (cases e) (simp_all add: pristine_def settles_def open_control_def)

lemma pool_opened_ok:
  assumes "in_hand b"
  shows "broker_ok (pool_opened ck auth b)"
proof -
  have "in_hand (b\<lparr>bk_authorization := Some auth\<rparr>)" using assms by (simp add: in_hand_def linked_def openings_def timers_def)
  then show ?thesis using failed_ok [OF ok_linked(2) [OF assms]] by (auto simp: pool_opened_def intro!: schedule_ok)
qed

lemma broker_pool_ok:
  assumes ok: "broker_ok b" and e: "own_event e"
  shows "broker_ok (broker_pool ck e b)"
proof -
  define b1 where "b1 = b\<lparr>bk_pool := pool_step (bk_pool b) e, bk_trace := bk_trace b @
    (if broker_isCurrent b then concat (map pool_statuses (drop (length (pl_trace (bk_pool b))) (pl_trace (pool_step (bk_pool b) e)))) else [])\<rparr>"
  have l1: "linked b1" using ok_linked(1) [OF ok] own_event_flags [OF e] by (simp add: b1_def linked_def pool_step_ok)
  have ok1: "broker_ok b1"
    using ok l1 pristine_step [OF _ e, of "bk_pool b"] by (auto simp: broker_ok_def b1_def openings_def timers_def)
  have "in_hand (resume_task n b1)" if "opening_of b1 = Some (n, a)" for n a
    using resume_hand [OF ok1] opening_of_Some [OF that] by simp
  then have "broker_ok (case opening_of b1 of None \<Rightarrow> b1
     | Some (n, auth) \<Rightarrow> (if op then pool_opened ck auth (resume_task n b1) else if f then connect_failed (resume_task n b1) else b1))" for op f
    using ok1 failed_ok ok_linked(2) pool_opened_ok by (auto split: option.split)
  then show ?thesis unfolding broker_pool_def Let_def b1_def .
qed

lemma request_ok:
  assumes "broker_ok b"
  shows "broker_ok (broker_request_to r b)"
proof -
  have "broker_ok (await_task (Awaiting_Control c r a) b)" if "broker_ok b" for c r a b
    using that by (simp add: broker_ok_def) (simp add: await_task_def)
  then show ?thesis using assms by (simp add: broker_request_to_def split: option.split)
qed

lemma refresh_ok:
  assumes "broker_ok b" "bk_refreshTimer b"
  shows "broker_ok (refreshAuthorization b)"
proof -
  have "\<not> bk_closed b" using assms by (auto simp: broker_ok_def linked_def)
  moreover have "timers (b\<lparr>bk_refreshTimer := False\<rparr>) + 1 = timers b" "openings (b\<lparr>bk_refreshTimer := False\<rparr>) = openings b"
    using assms(2) by (simp_all add: timers_def openings_def)
  ultimately have "in_hand (b\<lparr>bk_refreshTimer := False\<rparr>)" "bk_authorization b \<noteq> None"
    using assms by (simp_all add: broker_ok_def in_hand_def linked_def)
  then show ?thesis unfolding refreshAuthorization_def by (intro await_ok) simp_all
qed

lemma broker_step_ok:
  assumes ok: "broker_ok b"
  shows "broker_ok (broker_step b e)"
proof (cases e)
  case (BV_First_Exchanged n answer)
  have "broker_ok (first_exchanged answer (resume_task n b))" if n: "n < length (bk_tasks b)" "bk_tasks b ! n = Exchanging_First"
  proof -
    have h: "in_hand (resume_task n b)" using resume_hand [OF ok n(1)] n(2) by simp
    have "list_ex before_pool (bk_tasks b)" using n nth_mem [OF n(1)] by (auto simp: list_ex_iff intro!: bexI [of _ Exchanging_First])
    then have "pristine (bk_pool b)" if "broker_isCurrent b" using ok that by (simp add: broker_ok_def broker_isCurrent_def)
    then show ?thesis using h failed_ok [OF ok_linked(2) [OF h]]
      by (auto simp: first_exchanged_def broker_isCurrent_def intro!: await_ok split: option.split)
  qed
  then show ?thesis using ok BV_First_Exchanged by simp
next
  case (BV_Assigned n answer)
  have "broker_ok (assignment_answered a answer (resume_task n b))" if n: "n < length (bk_tasks b)" "bk_tasks b ! n = Requesting_Assignment a" for a
  proof -
    have "list_ex before_pool (bk_tasks b)" using n nth_mem [OF n(1)] by (auto simp: list_ex_iff intro!: bexI [of _ "Requesting_Assignment a"])
    then have "pristine (bk_pool b)" if "broker_isCurrent b" using ok that by (simp add: broker_ok_def broker_isCurrent_def)
    then show ?thesis using resume_hand [OF ok n(1)] n(2) by (intro assignment_ok) (simp_all add: broker_isCurrent_def)
  qed
  then show ?thesis using ok BV_Assigned by (simp split: broker_task.split)
next
  case (BV_Access_Token n ck answer)
  have "broker_ok (access_token_read ck answer (resume_task n b))" if "n < length (bk_tasks b)" "bk_tasks b ! n = Refreshing_Access_Token"
    using resume_hand [OF ok] refresh_has_authorization [OF ok] that by (intro token_ok) simp_all
  then show ?thesis using ok BV_Access_Token by simp
next
  case (BV_Again_Exchanged n ck answer)
  have "broker_ok (again_exchanged ck answer (resume_task n b))" if "n < length (bk_tasks b)" "bk_tasks b ! n = Exchanging_Again"
    using resume_hand [OF ok] refresh_has_authorization [OF ok] that by (intro again_ok) simp_all
  then show ?thesis using ok BV_Again_Exchanged by simp
next
  case (BV_Reply n res)
  have "broker_ok (control_replied r a res (resume_task n b))" if "n < length (bk_tasks b)" "bk_tasks b ! n = Awaiting_Control c r a" for c r a
    using resume_other [OF ok] that by (simp add: control_replied_def)
  then show ?thesis using ok BV_Reply by (simp split: broker_task.split)
next
  case BV_Stale
  then show ?thesis using ok stale_mid [of "bk_pool b"]
    by (simp add: broker_ok_def linked_def flags_def openings_def timers_def pristine_def)
qed (use ok in \<open>simp_all add: broker_pool_ok refresh_ok request_ok close_ok ok_linked\<close>)

interpretation broker: event_machine broker_step broker_ok
  by unfold_locales (rule broker_step_ok)

lemma broker_connect_ok: "broker_ok (broker_connect current)"
proof -
  define p0 where "p0 = (if current then pool_new else pool_new\<lparr>pl_current := False\<rparr>)"
  have p0: "pool_ok p0" "flags p0 = (False, current)" "pristine p0"
    using pool_new_ok stale_mid [OF pool_new_ok] by (simp_all add: p0_def) (simp_all add: pool_new_def flags_def pristine_def)
  then show ?thesis
    unfolding broker_connect_def p0_def [symmetric]
    by (intro await_ok) (simp_all add: publishStatus_def, simp_all add: in_hand_def linked_def openings_def timers_def)
qed

lemma broker_run_ok: "broker_ok (broker_run current es)"
  unfolding broker_run_def by (rule broker.run_inv [OF broker_connect_ok])

lemma closed_stays: "bk_closed b \<Longrightarrow> bk_closed (broker_step b e)"
  by (cases e) (auto simp: first_exchanged_def assignment_answered_def connect_failed_def broker_closeNow_def broker_pool_def pool_opened_def
      refreshAuthorization_def access_token_read_def again_exchanged_def refresh_failed_def scheduleRefresh_def broker_request_to_def
      control_replied_def Let_def broker_isCurrent_def split: option.split broker_task.split)

lemma closed_stays_run: "bk_closed b \<Longrightarrow> bk_closed (foldl broker_step b es)"
  by (induction es arbitrary: b) (simp_all add: closed_stays)

lemma request_control_open:
  assumes "linked b" "request_control r b = Some c"
  shows "open_control c (bk_pool b)"
    "case request_basis r of
       Some basis \<Rightarrow> map_of (pl_basisOrigins (bk_pool b)) basis = Some (ct_origin (pl_controls (bk_pool b) ! c))
     | None \<Rightarrow> pl_activeOrigin (bk_pool b) = Some (ct_origin (pl_controls (bk_pool b) ! c))"
proof -
  have ok: "pool_ok (bk_pool b)" using assms(1) by (simp add: linked_def)
  show "open_control c (bk_pool b)"
    "case request_basis r of
       Some basis \<Rightarrow> map_of (pl_basisOrigins (bk_pool b)) basis = Some (ct_origin (pl_controls (bk_pool b) ! c))
     | None \<Rightarrow> pl_activeOrigin (bk_pool b) = Some (ct_origin (pl_controls (bk_pool b) ! c))"
    using assms(2) active_answer [OF ok, of c] basis_answer [OF ok] by (auto simp: request_control_def split: option.splits)
qed

lemma closed_rejects:
  assumes "linked b" "bk_closed b"
  shows "request_control r b = None"
proof (cases "request_control r b")
  case (Some c)
  have "pool_ok (bk_pool b)" "pl_closed (bk_pool b)" using assms by (simp_all add: linked_def flags_def)
  then show ?thesis using request_control_open(1) [OF assms(1) Some] closed_pool_empty(6) by simp
qed

section \<open>Properties\<close>

text \<open>
  Property C17. A request goes to a control that is open, and to the right one: after any events, a call of the broker either
  is rejected at once or is sent on an open control; a call that is bound to a connection of the phone goes to the
  origin that owns this connection, also during a migration, and every other call to the active origin.
\<close>

theorem requests_reach_open_controls:
  fixes es :: "broker_event list" and current :: bool
  defines "b \<equiv> broker_run current es"
  shows "(\<exists>err. bk_trace (broker_step b (BV_Request r)) = bk_trace b @ [BE_Rejected r err]) \<or>
    (\<exists>c. bk_trace (broker_step b (BV_Request r)) = bk_trace b @ [BE_Request c r] \<and> open_control c (bk_pool b) \<and> \<not> bk_closed b \<and>
       (case request_basis r of
          Some basis \<Rightarrow> map_of (pl_basisOrigins (bk_pool b)) basis = Some (ct_origin (pl_controls (bk_pool b) ! c))
        | None \<Rightarrow> pl_activeOrigin (bk_pool b) = Some (ct_origin (pl_controls (bk_pool b) ! c))))"
proof -
  have l: "linked b" by (simp add: b_def ok_linked broker_run_ok)
  show ?thesis
  proof (cases "request_control r b")
    case None
    then show ?thesis by (simp add: broker_request_to_def broker_emit_def)
  next
    case (Some c)
    then have "\<not> bk_closed b" using closed_rejects [OF l, of r] by auto
    then show ?thesis using request_control_open [OF l Some] Some by (simp add: broker_request_to_def broker_emit_def)
  qed
qed

text \<open>
  Property C18. An open session stays authorized: after any events, a broker that is not closed is either still being opened
  (one exchange, assignment or pool opening is awaited) or holds an authorization and has exactly one refresh ahead of
  it, as a timer, a token being read or a token being exchanged. A failed refresh never leaves it without either.
\<close>

theorem open_broker_has_one_refresh:
  fixes es :: "broker_event list" and current :: bool
  defines "b \<equiv> broker_run current es"
  shows "\<not> bk_closed b \<longrightarrow>
    length (filter opens (bk_tasks b)) + length (filter refreshes (bk_tasks b)) + (if bk_refreshTimer b then 1 else 0) = 1 \<and>
    (filter opens (bk_tasks b) = [] \<longrightarrow> bk_authorization b \<noteq> None)"
  using broker_run_ok [of current es] by (auto simp: b_def broker_ok_def openings_def timers_def split: if_splits)

definition ex_auth :: relay_authorization where
  "ex_auth = \<lparr>az_relayToken = ''jwt'', az_expiresAt = 600000\<rparr>"

definition ex_registered :: "broker_event list" where
  "ex_registered = [BV_First_Exchanged 0 (Some ex_auth), BV_Assigned 0 (Some ex_assignment), BV_Pool ex_clock (PV_Connected 0 ex_clock (ex_ack 1))]"

theorem open_broker_has_one_refresh_witness:
  "BE_Connected \<in> set (bk_trace (broker_run True ex_registered)) \<and> bk_tasks (broker_run True ex_registered) = [] \<and>
   bk_refreshTimer (broker_run True ex_registered)"
proof -
  have "BE_Connected \<in> set (bk_trace (broker_run True ex_registered))" "bk_tasks (broker_run True ex_registered) = []"
    "\<not> bk_closed (broker_run True ex_registered)"
    by code_simp+
  with open_broker_has_one_refresh [of True ex_registered] show ?thesis by (simp split: if_splits)
qed

text \<open>
  Property C19. A closed session is closed for good and leaves nothing behind: after \<open>closeNow\<close>, whatever exchanges, refreshes
  or connections were under way and settle later, the broker and its pool stay closed, every control is closed, no
  refresh timer is pending, and every further call is rejected.
\<close>

theorem closed_broker_holds_nothing:
  "let b = broker_run current (es @ BV_Close # es') in
     bk_closed b \<and> pl_closed (bk_pool b) \<and> list_all ct_closed (pl_controls (bk_pool b)) \<and> \<not> bk_refreshTimer b \<and>
     (\<forall>r. bk_trace (broker_step b (BV_Request r)) = bk_trace b @ [BE_Rejected r (not_found r)])"
proof -
  define b where "b = broker_run current (es @ BV_Close # es')"
  have l: "linked b" by (simp add: b_def ok_linked broker_run_ok)
  have "bk_closed (broker_closeNow (broker_run current es))" using close_ok(3) ok_linked(1) [OF broker_run_ok] by simp
  then have c: "bk_closed b" using closed_stays_run by (simp add: b_def broker_run_def)
  then have p: "pool_ok (bk_pool b)" "pl_closed (bk_pool b)" "\<not> bk_refreshTimer b" using l by (simp_all add: linked_def flags_def)
  have "list_all ct_closed (pl_controls (bk_pool b))"
    using closed_pool_empty(6) [OF p(1,2)] by (auto simp: list_all_length open_control_def)
  with c p closed_rejects [OF l c] show ?thesis by (simp add: b_def [symmetric] Let_def broker_request_to_def broker_emit_def)
qed

section \<open>The broker and its coordinator\<close>

text \<open>The value that \<open>refreshAccessToken\<close> of the coordinator returns, beside the state that \<^const>\<open>token_read\<close> gives.\<close>

definition token_answer :: "nat \<Rightarrow> nat \<Rightarrow> auth_context option \<Rightarrow> coordinator \<Rightarrow> string option" where
  "token_answer r epoch result s =
     (case result of
        None \<Rightarrow> None
      | Some ctx \<Rightarrow>
          (if \<not> ow_valid (co_store s ! r) \<or> \<not> isEpochCurrent epoch s \<or> \<not> ac_relayEntitled ctx \<or>
              identityKey (ac_identity ctx) \<noteq> ow_identityKey (co_store s ! r)
           then None else Some (ac_accessToken ctx)))"

lemma token_answer_granted:
  "co_granted (token_read r epoch result s) = (case token_answer r epoch result s of None \<Rightarrow> co_granted s | Some tok \<Rightarrow> (r, the result) # co_granted s)"
  by (simp add: token_read_def token_answer_def Let_def isEpochCurrent_def split: option.split)

lemma overtaken_token_is_null: "co_authEpoch s \<noteq> epoch \<Longrightarrow> token_answer r epoch result s = None"
  by (simp add: token_answer_def isEpochCurrent_def split: option.split)

lemma reconcile_keeps_owner:
  assumes "coord_reachable s" "co_ownership s = Some r" "\<not> co_stopped s"
  shows "co_authEpoch (reconcile s) = Suc (co_authEpoch s)" "co_ownership (reconcile s) = Some r" "\<not> co_stopped (reconcile s)"
    "ow_valid (co_store (reconcile s) ! r)" "ow_broker (co_store (reconcile s) ! r) = ow_broker (co_store s ! r)"
    "ow_identityKey (co_store (reconcile s) ! r) = ow_identityKey (co_store s ! r)"
    "Reading_Context (co_authEpoch (reconcile s)) \<in> set (co_tasks (reconcile s))"
proof -
  have inv: "coord_inv s" and inv': "coord_inv (reconcile s)"
    using assms(1) coord_reachable.Step [OF assms(1) coord_step.Reconcile] by (simp_all add: coord_reachable_inv)
  obtain os' where e: "fold invalidate (co_pendingOwnerships s) (s\<lparr>co_authEpoch := Suc (co_authEpoch s)\<rparr>) =
      s\<lparr>co_authEpoch := Suc (co_authEpoch s), co_store := os'\<rparr>" and sbv: "same_but_valid (set (co_pendingOwnerships s)) (co_store s) os'"
    using fold_invalidate [of "co_pendingOwnerships s" "s\<lparr>co_authEpoch := Suc (co_authEpoch s)\<rparr>"] by auto
  have rec: "reconcile s = s\<lparr>co_authEpoch := Suc (co_authEpoch s), co_store := os', co_pendingOwnerships := [],
      co_tasks := co_tasks s @ [Reading_Context (Suc (co_authEpoch s))]\<rparr>"
    using assms(3) by (simp add: reconcile_def invalidatePendingOwnerships_def Let_def e)
  show "co_authEpoch (reconcile s) = Suc (co_authEpoch s)" "co_ownership (reconcile s) = Some r" "\<not> co_stopped (reconcile s)"
    "Reading_Context (co_authEpoch (reconcile s)) \<in> set (co_tasks (reconcile s))"
    using assms by (simp_all add: rec)
  then show "ow_valid (co_store (reconcile s) ! r)" using inv' by (simp add: coord_inv_def own_ok_def)
  have "r < length (co_store s)" using inv assms(2) by (simp add: coord_inv_def own_ok_def)
  then show "ow_broker (co_store (reconcile s) ! r) = ow_broker (co_store s ! r)"
    "ow_identityKey (co_store (reconcile s) ! r) = ow_identityKey (co_store s ! r)"
    using sbv by (simp_all add: rec same_but_valid_def)
qed

text \<open>
  Property C37. A refresh that a reconciliation overtakes ends the session without its owner noticing. The coordinator's
  \<open>refreshAccessToken\<close> answers null when \<open>reconcile\<close> (any change of demand) bumps the epoch while it reads the context,
  although the account is the same and still entitled. The broker takes null for a lost login and closes itself. The
  coordinator, which still tells it that it is current, keeps the closed broker as its valid one: the reconciliation that caused it reports the session as
  registered, \<open>getActiveBroker\<close> still answers with it, and every request to it is rejected.
\<close>

theorem overtaken_refresh_strands_session:
  fixes ck :: clock and bes :: "broker_event list"
  defines "b \<equiv> broker_run True bes"
  assumes "coord_reachable s" "co_ownership s = Some r" "\<not> co_stopped s"
    and "ac_relayEntitled ctx" "identityKey (ac_identity ctx) = ow_identityKey (co_store s ! r)"
    and "n < length (bk_tasks b)" "bk_tasks b ! n = Refreshing_Access_Token" "\<not> bk_closed b"
    and "bk_current b = Relay_Auth.isCurrent e r (reconcile s)"
  defines "s1 \<equiv> reconcile s"
  defines "answer \<equiv> token_answer r (co_authEpoch s) (Some ctx) s1"
  defines "s2 \<equiv> context_read (co_authEpoch s1) (Some (Some ctx)) True (token_read r (co_authEpoch s) (Some ctx) s1)"
  defines "b1 \<equiv> broker_step b (BV_Access_Token n ck (Some answer))"
  shows "answer = None \<and> bk_closed b1 \<and> (\<forall>req. bk_trace (broker_step b1 (BV_Request req)) = bk_trace b1 @ [BE_Rejected req (not_found req)]) \<and>
    getActiveBroker s2 = getActiveBroker s \<and> getActiveBroker s2 \<noteq> None \<and> last (co_statuses s2) = Registered"
proof -
  note keeps = reconcile_keeps_owner [OF assms(2-4), folded s1_def]
  have answer: "answer = None" using keeps(1) by (simp add: answer_def overtaken_token_is_null)
  obtain k where k: "ow_broker (co_store s ! r) = Some k" "ow_valid (co_store s ! r)"
    using coord_reachable_inv [OF assms(2)] assms(3) by (auto simp: coord_inv_def own_ok_def)
  have "bk_current b" using assms(10) keeps k(1) by (simp add: Relay_Auth.isCurrent_def s1_def)
  then have b1: "b1 = broker_closeNow (resume_task n b)"
    using assms(7-9) by (simp add: b1_def answer access_token_read_def broker_isCurrent_def)
  have l: "linked (resume_task n b)" by (simp add: b_def ok_linked broker_run_ok)
  have closed: "bk_closed b1" "linked b1" using close_ok(2,3) [OF l] by (simp_all add: b1)
  have read: "token_read r (co_authEpoch s) (Some ctx) s1 = s1\<lparr>co_tasks := remove1 (Refreshing r (co_authEpoch s)) (co_tasks s1)\<rparr>"
    using keeps(1) by (simp add: token_read_def Let_def isEpochCurrent_def)
  have "getActiveBroker s2 = Some k" "last (co_statuses s2) = Registered"
    using keeps assms(5,6) k unfolding s2_def read
    by (simp_all add: context_read_def Let_def isEpochCurrent_def cancelLinger_def valid_ownership_def onStatus_def getActiveBroker_def)
  moreover have "getActiveBroker s = Some k" using assms(3) k by (simp add: getActiveBroker_def valid_ownership_def)
  ultimately show ?thesis
    using answer closed closed_rejects [OF closed(2,1)] by (simp add: broker_request_to_def broker_emit_def)
qed

theorem overtaken_refresh_strands_session_witness:
  "bk_closed (broker_step (broker_run True (ex_registered @ [BV_Refresh_Timer])) (BV_Access_Token 0 ex_clock (Some None))) \<and>
   getActiveBroker (context_read 2 (Some (Some (sample_context ''u''))) True
     (token_read 0 1 (Some (sample_context ''u'')) (reconcile (refreshAccessToken 0 signed_in)))) = Some 7"
proof -
  define s where "s = refreshAccessToken 0 signed_in"
  define b where "b = broker_run True (ex_registered @ [BV_Refresh_Timer])"
  have "0 < length (co_store signed_in)" by (simp add: signed_in_def coord_eval)
  then have s: "coord_reachable s" unfolding s_def by (intro coord_reachable.Step [OF signed_in_reachable] coord_step.Refresh)
  have o: "co_ownership s = Some 0" "\<not> co_stopped s" "ac_relayEntitled (sample_context ''u'')" "co_authEpoch s = 1"
    "identityKey (ac_identity (sample_context ''u'')) = ow_identityKey (co_store s ! 0)" "getActiveBroker s = Some 7"
    "co_authEpoch (reconcile s) = 2"
    by (simp_all add: s_def refreshAccessToken_def signed_in_def coord_eval)
  have b: "0 < length (bk_tasks b)" "bk_tasks b ! 0 = Refreshing_Access_Token" "\<not> bk_closed b" "bk_current b" unfolding b_def by code_simp+
  have "Relay_Auth.isCurrent 1 0 (reconcile s)"
    by (simp add: s_def refreshAccessToken_def signed_in_def coord_eval Relay_Auth.isCurrent_def)
  with b(4) have cur: "bk_current b = Relay_Auth.isCurrent 1 0 (reconcile s)" by simp
  note h = overtaken_refresh_strands_session [OF s o(1,2,3,5) b(1-3) [unfolded b_def] cur [unfolded b_def], of ex_clock]
  show ?thesis using h o(4,6,7) by (simp only: s_def b_def) auto
qed

end
