(* ===== verification/Mobile_Logical.thy ===== *)
theory Mobile_Logical
  imports Relay_Prelude
begin

text \<open>
  The phone's logical RPC client, \<open>src/pie-mobile/upstream/mobile/src/transport/stable-logical-rpc-client.ts\<close>: one client for
  the application while the physical session under it is replaced, suspended in the background or migrated between the
  local network and the relay.

  Physical sessions, requests and subscription records live in stores and are named by their index; a session is handed
  over by the call that migrates to it. What a physical session does (its state changes, responses and results) and
  the authentication deadline of a migration are events. A promise is settled once: later calls of its resolve or reject function
  change nothing. State listeners run after the operation that publishes the state; what they call is an event of its own.
\<close>

section \<open>State\<close>

datatype connection_state = Cs_Connecting | Cs_Handshaking | Cs_Connected | Cs_Disconnected | Cs_Reconnecting | Cs_Auth_Failed

datatype connection_path = Path_Lan | Path_Tailscale | Path_Relay

record physical_session =
  ph_state :: connection_state
  ph_closed :: bool

record subscription_record =
  sn_method :: string
  sn_params :: json
  sn_physical :: "(nat \<times> nat) option"
  sn_cancelled :: bool

datatype outcome = Resolved | Client_Closed | Client_Suspended | Cutover | Session_Rejected

record logical_request =
  rq_session :: nat
  rq_generation :: nat
  rq_outcome :: "outcome option"

datatype logical_effect =
    LE_Send nat nat
  | LE_Settled nat outcome
  | LE_Attach nat nat nat
  | LE_Dispose nat nat nat
  | LE_Deliver nat nat nat
  | LE_State connection_state
  | LE_Close nat
  | LE_Migrated nat
  | LE_Migration_Failed nat
  | LE_Viewport nat string json

record logical_client =
  lc_activeSession :: nat
  lc_activePath :: connection_path
  lc_generation :: nat
  lc_closed :: bool
  lc_suspended :: bool
  lc_activeState :: "(nat \<times> nat) option"
  lc_records :: "subscription_record list"
  lc_subscriptions :: "nat list"
  lc_requests :: "logical_request list"
  lc_pendingRequests :: "nat list"
  lc_state :: connection_state
  lc_sessions :: "physical_session list"
  lc_migrations :: "(nat \<times> connection_path) list"
  lc_trace :: "logical_effect list"

definition createStableLogicalRpcClient :: "connection_state \<Rightarrow> connection_path \<Rightarrow> logical_client" where
  "createStableLogicalRpcClient st path =
     \<lparr>lc_activeSession = 0, lc_activePath = path, lc_generation = 1, lc_closed = False, lc_suspended = False, lc_activeState = Some (0, 1),
      lc_records = [], lc_subscriptions = [], lc_requests = [], lc_pendingRequests = [], lc_state = st,
      lc_sessions = [\<lparr>ph_state = st, ph_closed = False\<rparr>], lc_migrations = [], lc_trace = []\<rparr>"

definition lc_emit :: "logical_effect \<Rightarrow> logical_client \<Rightarrow> logical_client" where
  "lc_emit e c = c\<lparr>lc_trace := lc_trace c @ [e]\<rparr>"

section \<open>Operations\<close>

definition publishState :: "connection_state \<Rightarrow> logical_client \<Rightarrow> logical_client" where
  "publishState st c = (if lc_state c = st then c else lc_emit (LE_State st) (c\<lparr>lc_state := st\<rparr>))"

definition session_close :: "nat \<Rightarrow> logical_client \<Rightarrow> logical_client" where
  "session_close s c = lc_emit (LE_Close s) (c\<lparr>lc_sessions := (lc_sessions c)[s := (lc_sessions c ! s)\<lparr>ph_closed := True\<rparr>]\<rparr>)"

definition settle :: "outcome \<Rightarrow> nat \<Rightarrow> logical_client \<Rightarrow> logical_client" where
  "settle out r c =
     (if rq_outcome (lc_requests c ! r) \<noteq> None then c
      else lc_emit (LE_Settled r out) (c\<lparr>lc_requests := (lc_requests c)[r := (lc_requests c ! r)\<lparr>rq_outcome := Some out\<rparr>]\<rparr>))"

definition reject_pending :: "outcome \<Rightarrow> logical_client \<Rightarrow> logical_client" where
  "reject_pending out c = (fold (settle out) (lc_pendingRequests c) c)\<lparr>lc_pendingRequests := []\<rparr>"

text \<open>\<open>record.disposePhysical?.()\<close>, and an assignment to \<open>disposePhysical\<close>.\<close>

definition disposePhysical :: "nat \<Rightarrow> logical_client \<Rightarrow> logical_client" where
  "disposePhysical i c = (case sn_physical (lc_records c ! i) of None \<Rightarrow> c | Some (s, g) \<Rightarrow> lc_emit (LE_Dispose i s g) c)"

definition set_physical :: "(nat \<times> nat) option \<Rightarrow> nat \<Rightarrow> logical_client \<Rightarrow> logical_client" where
  "set_physical p i c = c\<lparr>lc_records := (lc_records c)[i := (lc_records c ! i)\<lparr>sn_physical := p\<rparr>]\<rparr>"

definition attachSubscription :: "nat \<Rightarrow> nat \<Rightarrow> nat \<Rightarrow> logical_client \<Rightarrow> logical_client" where
  "attachSubscription s g i c = lc_emit (LE_Attach i s g) (set_physical (Some (s, g)) i c)"

definition sendRequest :: "logical_client \<Rightarrow> logical_client" where
  "sendRequest c =
     (let r = length (lc_requests c);
          c1 = c\<lparr>lc_requests := lc_requests c @ [\<lparr>rq_session = lc_activeSession c, rq_generation = lc_generation c, rq_outcome = None\<rparr>]\<rparr>
      in if lc_closed c then settle Client_Closed r c1
         else if lc_suspended c then settle Client_Suspended r c1
         else lc_emit (LE_Send (lc_activeSession c) r) (c1\<lparr>lc_pendingRequests := lc_pendingRequests c @ [r]\<rparr>))"

text \<open>The two callbacks of the session's promise.\<close>

definition responded :: "nat \<Rightarrow> bool \<Rightarrow> logical_client \<Rightarrow> logical_client" where
  "responded r ok c =
     settle (if \<not> ok then Session_Rejected
             else if lc_closed c then Client_Closed
             else if rq_generation (lc_requests c ! r) \<noteq> lc_generation c then Cutover else Resolved) r
       (c\<lparr>lc_pendingRequests := removeAll r (lc_pendingRequests c)\<rparr>)"

definition subscribe :: "string \<Rightarrow> json \<Rightarrow> logical_client \<Rightarrow> logical_client" where
  "subscribe method params c =
     (if lc_closed c then c
      else (let i = length (lc_records c);
                c1 = c\<lparr>lc_records := lc_records c @ [\<lparr>sn_method = method, sn_params = params, sn_physical = None, sn_cancelled = False\<rparr>],
                       lc_subscriptions := lc_subscriptions c @ [i]\<rparr>
            in if lc_suspended c then c1 else attachSubscription (lc_activeSession c) (lc_generation c) i c1))"

definition unsubscribe :: "nat \<Rightarrow> logical_client \<Rightarrow> logical_client" where
  "unsubscribe i c =
     (if sn_cancelled (lc_records c ! i) then c
      else (let c1 = set_physical None i (disposePhysical i c)
            in c1\<lparr>lc_records := (lc_records c1)[i := (lc_records c1 ! i)\<lparr>sn_cancelled := True\<rparr>],
                  lc_subscriptions := removeAll i (lc_subscriptions c1)\<rparr>))"

text \<open>\<open>{ ...params, viewport }\<close> for parameters that name the terminal.\<close>

definition with_viewport :: "string \<Rightarrow> json \<Rightarrow> json \<Rightarrow> json" where
  "with_viewport terminal viewport params =
     (case params of
        JObj ps \<Rightarrow> (if map_of ps ''terminal'' = Some (JStr terminal) then JObj (AList.update ''viewport'' viewport ps) else params)
      | _ \<Rightarrow> params)"

definition update_params :: "string \<Rightarrow> json \<Rightarrow> nat \<Rightarrow> logical_client \<Rightarrow> logical_client" where
  "update_params terminal viewport i c =
     c\<lparr>lc_records := (lc_records c)[i := (lc_records c ! i)\<lparr>sn_params := with_viewport terminal viewport (sn_params (lc_records c ! i))\<rparr>]\<rparr>"

definition updateTerminalSubscriptionViewport :: "string \<Rightarrow> json \<Rightarrow> logical_client \<Rightarrow> logical_client" where
  "updateTerminalSubscriptionViewport terminal viewport c =
     (let c1 = fold (update_params terminal viewport) (lc_subscriptions c) c
      in if lc_suspended c then c1 else lc_emit (LE_Viewport (lc_activeSession c) terminal viewport) c1)"

definition logical_close :: "logical_client \<Rightarrow> logical_client" where
  "logical_close c =
     (if lc_closed c then c
      else (let c1 = reject_pending Client_Closed (c\<lparr>lc_closed := True, lc_activeState := None\<rparr>);
                c2 = (fold disposePhysical (lc_subscriptions c1) c1)\<lparr>lc_subscriptions := []\<rparr>
            in publishState Cs_Disconnected (session_close (lc_activeSession c2) c2)))"

definition suspend_record :: "nat \<Rightarrow> logical_client \<Rightarrow> logical_client" where
  "suspend_record i c = set_physical None i (disposePhysical i c)"

definition suspendActiveSession :: "logical_client \<Rightarrow> logical_client" where
  "suspendActiveSession c =
     (if lc_closed c \<or> lc_suspended c then c
      else (let c1 = reject_pending Client_Suspended (c\<lparr>lc_suspended := True, lc_activeState := None\<rparr>);
                c2 = fold suspend_record (lc_subscriptions c1) c1
            in publishState Cs_Disconnected (session_close (lc_activeSession c2) c2)))"

text \<open>\<open>migrateTo\<close>: after the wait, when the replacement is authenticated.\<close>

definition replay_record :: "nat \<Rightarrow> nat \<Rightarrow> nat \<Rightarrow> logical_client \<Rightarrow> logical_client" where
  "replay_record s g i c =
     (let previous = sn_physical (lc_records c ! i); c1 = attachSubscription s g i c
      in case previous of None \<Rightarrow> c1 | Some (s', g') \<Rightarrow> lc_emit (LE_Dispose i s' g') c1)"

definition migration_refused :: "nat \<Rightarrow> logical_client \<Rightarrow> logical_client" where
  "migration_refused s c = lc_emit (LE_Migration_Failed s) (session_close s c)"

definition cut_over :: "nat \<Rightarrow> connection_path \<Rightarrow> logical_client \<Rightarrow> logical_client" where
  "cut_over s path c =
     (if lc_closed c then migration_refused s c
      else (let previous = lc_activeSession c; g = lc_generation c + 1;
                c1 = fold (replay_record s g) (lc_subscriptions c) c;
                c2 = reject_pending Cutover (c1\<lparr>lc_generation := g, lc_activeSession := s, lc_activePath := path, lc_suspended := False,
                       lc_activeState := Some (s, g)\<rparr>);
                st = ph_state (lc_sessions c2 ! s)
            in lc_emit (LE_Migrated s) (session_close previous (lc_emit (LE_State st) (c2\<lparr>lc_state := st\<rparr>)))))"

text \<open>\<open>migrateTo\<close> with a session that is in the given state; \<open>waitForAuthenticated\<close> waits for the others.\<close>

definition migrateTo :: "connection_state \<Rightarrow> connection_path \<Rightarrow> logical_client \<Rightarrow> logical_client" where
  "migrateTo st path c =
     (let s = length (lc_sessions c); c1 = c\<lparr>lc_sessions := lc_sessions c @ [\<lparr>ph_state = st, ph_closed = False\<rparr>]\<rparr>
      in if lc_closed c then migration_refused s c1
         else if st = Cs_Connected then cut_over s path c1
         else c1\<lparr>lc_migrations := lc_migrations c1 @ [(s, path)]\<rparr>)"

definition waits_on :: "nat \<Rightarrow> logical_client \<Rightarrow> connection_path option" where
  "waits_on s c = map_of (lc_migrations c) s"

definition stop_waiting :: "nat \<Rightarrow> logical_client \<Rightarrow> logical_client" where
  "stop_waiting s c = c\<lparr>lc_migrations := filter (\<lambda>m. fst m \<noteq> s) (lc_migrations c)\<rparr>"

definition authentication_progress :: "nat \<Rightarrow> connection_state \<Rightarrow> logical_client \<Rightarrow> logical_client" where
  "authentication_progress s st c =
     (case waits_on s c of
        None \<Rightarrow> c
      | Some path \<Rightarrow>
          (if st = Cs_Connected then cut_over s path (stop_waiting s c)
           else if st = Cs_Auth_Failed \<or> st = Cs_Disconnected then migration_refused s (stop_waiting s c) else c))"

text \<open>A state change of a session: the listener of the active session, and the listener of a migration that waits.\<close>

definition session_state :: "nat \<Rightarrow> connection_state \<Rightarrow> logical_client \<Rightarrow> logical_client" where
  "session_state s st c =
     (let c1 = c\<lparr>lc_sessions := (lc_sessions c)[s := (lc_sessions c ! s)\<lparr>ph_state := st\<rparr>]\<rparr>;
          c2 = (case lc_activeState c1 of
                  Some (s', g) \<Rightarrow> (if s' = s \<and> \<not> lc_closed c1 \<and> lc_generation c1 = g \<and> s = lc_activeSession c1 then publishState st c1 else c1)
                | None \<Rightarrow> c1)
      in authentication_progress s st c2)"

definition migration_timeout :: "nat \<Rightarrow> logical_client \<Rightarrow> logical_client" where
  "migration_timeout s c = (if waits_on s c = None then c else migration_refused s (stop_waiting s c))"

text \<open>A result that session \<open>s\<close> hands to the callback it got for a record in a generation.\<close>

definition session_result :: "nat \<Rightarrow> nat \<Rightarrow> nat \<Rightarrow> logical_client \<Rightarrow> logical_client" where
  "session_result i s g c =
     (if \<not> lc_closed c \<and> \<not> sn_cancelled (lc_records c ! i) \<and> lc_generation c = g then lc_emit (LE_Deliver i s g) c else c)"

section \<open>Events\<close>

datatype logical_event =
    LV_Send
  | LV_Response nat bool
  | LV_Subscribe string json
  | LV_Unsubscribe nat
  | LV_Viewport string json
  | LV_Close
  | LV_Suspend
  | LV_Migrate connection_state connection_path
  | LV_Session_State nat connection_state
  | LV_Timeout nat
  | LV_Result nat nat nat

fun logical_step :: "logical_client \<Rightarrow> logical_event \<Rightarrow> logical_client" where
  "logical_step c LV_Send = sendRequest c"
| "logical_step c (LV_Response r ok) = (if r < length (lc_requests c) then responded r ok c else c)"
| "logical_step c (LV_Subscribe method params) = subscribe method params c"
| "logical_step c (LV_Unsubscribe i) = (if i < length (lc_records c) then unsubscribe i c else c)"
| "logical_step c (LV_Viewport terminal viewport) = updateTerminalSubscriptionViewport terminal viewport c"
| "logical_step c LV_Close = logical_close c"
| "logical_step c LV_Suspend = suspendActiveSession c"
| "logical_step c (LV_Migrate st path) = migrateTo st path c"
| "logical_step c (LV_Session_State s st) = (if s < length (lc_sessions c) then session_state s st c else c)"
| "logical_step c (LV_Timeout s) = migration_timeout s c"
| "logical_step c (LV_Result i s g) = (if LE_Attach i s g \<in> set (lc_trace c) then session_result i s g c else c)"

definition logical_run :: "connection_state \<Rightarrow> connection_path \<Rightarrow> logical_event list \<Rightarrow> logical_client" where
  "logical_run st path es = foldl logical_step (createStableLogicalRpcClient st path) es"

section \<open>What the helpers change\<close>

definition upd_at :: "('a \<Rightarrow> 'a) \<Rightarrow> nat \<Rightarrow> 'a list \<Rightarrow> 'a list" where
  "upd_at h i xs = xs[i := h (xs ! i)]"

lemma length_upd_at [simp]: "length (upd_at h i xs) = length xs"
  by (simp add: upd_at_def)

lemma length_fold_upd [simp]: "length (fold (upd_at h) is xs) = length xs"
  by (induction "is" arbitrary: xs) simp_all

lemma nth_upd_at: "j < length xs \<Longrightarrow> upd_at h i xs ! j = (if j = i then h (xs ! j) else xs ! j)"
  by (auto simp: upd_at_def nth_list_update)

lemma nth_fold_upd: "distinct is \<Longrightarrow> j < length xs \<Longrightarrow> fold (upd_at h) is xs ! j = (if j \<in> set is then h (xs ! j) else xs ! j)"
proof (induction "is" arbitrary: xs)
  case (Cons i "is")
  then show ?case by (auto simp: nth_upd_at)
qed simp

definition attachments :: "logical_client \<Rightarrow> (nat \<times> nat \<times> nat) set" where
  "attachments c = {(i, s, g). LE_Attach i s g \<in> set (lc_trace c)}"

text \<open>Everything but the requests, the records, the pending list and the trace.\<close>

definition lc_frame :: "logical_client \<Rightarrow> (nat \<times> connection_path \<times> nat \<times> bool \<times> bool) \<times> ((nat \<times> nat) option \<times> nat list \<times> connection_state) \<times>
    physical_session list \<times> (nat \<times> connection_path) list" where
  "lc_frame c = ((lc_activeSession c, lc_activePath c, lc_generation c, lc_closed c, lc_suspended c),
     (lc_activeState c, lc_subscriptions c, lc_state c), lc_sessions c, lc_migrations c)"

lemma lc_frame_fields:
  assumes "lc_frame c = lc_frame d"
  shows "lc_activeSession c = lc_activeSession d" "lc_generation c = lc_generation d" "lc_closed c = lc_closed d" "lc_suspended c = lc_suspended d"
    "lc_activeState c = lc_activeState d" "lc_subscriptions c = lc_subscriptions d" "lc_state c = lc_state d" "lc_sessions c = lc_sessions d"
    "lc_migrations c = lc_migrations d" "lc_activePath c = lc_activePath d"
  using assms by (simp_all add: lc_frame_def)

fun attaches :: "logical_effect \<Rightarrow> bool" where
  "attaches (LE_Attach i s g) = True"
| "attaches _ = False"

lemma emit_view [simp]:
  "lc_frame (lc_emit e c) = lc_frame c" "lc_records (lc_emit e c) = lc_records c" "lc_requests (lc_emit e c) = lc_requests c"
  "lc_pendingRequests (lc_emit e c) = lc_pendingRequests c" "\<not> attaches e \<Longrightarrow> attachments (lc_emit e c) = attachments c"
  "attachments (lc_emit (LE_Attach i s g) c) = insert (i, s, g) (attachments c)"
  by (auto simp: lc_emit_def lc_frame_def attachments_def elim: attaches.elims)

lemma settle_view:
  "lc_frame (settle out r c) = lc_frame c" "lc_records (settle out r c) = lc_records c" "attachments (settle out r c) = attachments c"
  "lc_pendingRequests (settle out r c) = lc_pendingRequests c"
  "lc_requests (settle out r c) = upd_at (\<lambda>q. if rq_outcome q = None then q\<lparr>rq_outcome := Some out\<rparr> else q) r (lc_requests c)"
proof -
  let ?q = "lc_requests c ! r" and ?c = "c\<lparr>lc_requests := (lc_requests c)[r := (lc_requests c ! r)\<lparr>rq_outcome := Some out\<rparr>]\<rparr>"
  have v: "lc_frame ?c = lc_frame c" "attachments ?c = attachments c" by (simp_all add: lc_frame_def attachments_def)
  show "lc_frame (settle out r c) = lc_frame c" "lc_records (settle out r c) = lc_records c" "attachments (settle out r c) = attachments c"
    "lc_pendingRequests (settle out r c) = lc_pendingRequests c"
    "lc_requests (settle out r c) = upd_at (\<lambda>q. if rq_outcome q = None then q\<lparr>rq_outcome := Some out\<rparr> else q) r (lc_requests c)"
    using v by (simp_all add: settle_def upd_at_def)
qed

lemma settle_fold_view:
  "lc_frame (fold (settle out) rs c) = lc_frame c" "lc_records (fold (settle out) rs c) = lc_records c"
  "attachments (fold (settle out) rs c) = attachments c" "lc_pendingRequests (fold (settle out) rs c) = lc_pendingRequests c"
  "lc_requests (fold (settle out) rs c) = fold (upd_at (\<lambda>q. if rq_outcome q = None then q\<lparr>rq_outcome := Some out\<rparr> else q)) rs (lc_requests c)"
  by (induction rs arbitrary: c) (simp_all add: settle_view)

lemma pending_update_view:
  "lc_frame (c\<lparr>lc_pendingRequests := ps\<rparr>) = lc_frame c" "attachments (c\<lparr>lc_pendingRequests := ps\<rparr>) = attachments c"
  by (simp_all add: lc_frame_def attachments_def)

lemma reject_view:
  "lc_frame (reject_pending out c) = lc_frame c" "lc_records (reject_pending out c) = lc_records c"
  "attachments (reject_pending out c) = attachments c" "lc_pendingRequests (reject_pending out c) = []"
  "length (lc_requests (reject_pending out c)) = length (lc_requests c)"
  by (simp_all add: reject_pending_def settle_fold_view pending_update_view)

lemma dispose_view [simp]:
  "lc_frame (disposePhysical i c) = lc_frame c" "lc_records (disposePhysical i c) = lc_records c" "lc_requests (disposePhysical i c) = lc_requests c"
  "lc_pendingRequests (disposePhysical i c) = lc_pendingRequests c" "attachments (disposePhysical i c) = attachments c"
  by (simp_all add: disposePhysical_def split: option.split prod.split)

lemma dispose_fold_view:
  "lc_frame (fold disposePhysical is c) = lc_frame c" "lc_records (fold disposePhysical is c) = lc_records c"
  "lc_requests (fold disposePhysical is c) = lc_requests c" "lc_pendingRequests (fold disposePhysical is c) = lc_pendingRequests c"
  "attachments (fold disposePhysical is c) = attachments c"
  by (induction "is" arbitrary: c) simp_all

lemma set_physical_view [simp]:
  "lc_frame (set_physical p i c) = lc_frame c" "lc_records (set_physical p i c) = upd_at (\<lambda>x. x\<lparr>sn_physical := p\<rparr>) i (lc_records c)"
  "lc_requests (set_physical p i c) = lc_requests c" "lc_pendingRequests (set_physical p i c) = lc_pendingRequests c"
  "attachments (set_physical p i c) = attachments c"
  by (simp_all add: set_physical_def lc_frame_def upd_at_def attachments_def)

lemma attach_view [simp]:
  "lc_frame (attachSubscription s g i c) = lc_frame c"
  "lc_records (attachSubscription s g i c) = upd_at (\<lambda>x. x\<lparr>sn_physical := Some (s, g)\<rparr>) i (lc_records c)"
  "lc_requests (attachSubscription s g i c) = lc_requests c" "lc_pendingRequests (attachSubscription s g i c) = lc_pendingRequests c"
  "attachments (attachSubscription s g i c) = insert (i, s, g) (attachments c)"
  by (simp_all add: attachSubscription_def)

lemma suspend_fold_view:
  "lc_frame (fold suspend_record is c) = lc_frame c"
  "lc_records (fold suspend_record is c) = fold (upd_at (\<lambda>x. x\<lparr>sn_physical := None\<rparr>)) is (lc_records c)"
  "lc_requests (fold suspend_record is c) = lc_requests c" "lc_pendingRequests (fold suspend_record is c) = lc_pendingRequests c"
  "attachments (fold suspend_record is c) = attachments c"
  by (induction "is" arbitrary: c) (simp_all add: suspend_record_def)

lemma replay_view:
  "lc_frame (replay_record s g i c) = lc_frame c"
  "lc_records (replay_record s g i c) = upd_at (\<lambda>x. x\<lparr>sn_physical := Some (s, g)\<rparr>) i (lc_records c)"
  "lc_requests (replay_record s g i c) = lc_requests c" "lc_pendingRequests (replay_record s g i c) = lc_pendingRequests c"
  "attachments (replay_record s g i c) = insert (i, s, g) (attachments c)"
  by (simp_all add: replay_record_def Let_def split: option.split prod.split)

lemma replay_fold_view:
  "lc_frame (fold (replay_record s g) is c) = lc_frame c"
  "lc_records (fold (replay_record s g) is c) = fold (upd_at (\<lambda>x. x\<lparr>sn_physical := Some (s, g)\<rparr>)) is (lc_records c)"
  "lc_requests (fold (replay_record s g) is c) = lc_requests c" "lc_pendingRequests (fold (replay_record s g) is c) = lc_pendingRequests c"
  "attachments (fold (replay_record s g) is c) = attachments c \<union> (\<lambda>i. (i, s, g)) ` set is"
  by (induction "is" arbitrary: c) (auto simp: replay_view)

section \<open>Invariant\<close>

definition live :: "logical_client \<Rightarrow> bool" where
  "live c \<longleftrightarrow> \<not> lc_closed c \<and> \<not> lc_suspended c"

text \<open>A session that was handed over is open exactly when it is the active one of a running client or a replacement that is awaited.\<close>

definition sessions_ok :: "logical_client \<Rightarrow> bool" where
  "sessions_ok c \<longleftrightarrow> lc_activeSession c < length (lc_sessions c) \<and>
     (\<forall>m \<in> set (lc_migrations c). fst m < length (lc_sessions c) \<and> fst m \<noteq> lc_activeSession c) \<and>
     (\<forall>s < length (lc_sessions c). ph_closed (lc_sessions c ! s) \<longleftrightarrow> s \<notin> fst ` set (lc_migrations c) \<and> \<not> (s = lc_activeSession c \<and> live c))"

definition state_ok :: "logical_client \<Rightarrow> bool" where
  "state_ok c \<longleftrightarrow> lc_state c = (if live c then ph_state (lc_sessions c ! lc_activeSession c) else Cs_Disconnected) \<and>
     lc_activeState c = (if live c then Some (lc_activeSession c, lc_generation c) else None)"

definition requests_live :: "logical_client \<Rightarrow> bool" where
  "requests_live c \<longleftrightarrow> distinct (lc_pendingRequests c) \<and>
     (\<forall>r. r \<in> set (lc_pendingRequests c) \<longleftrightarrow> r < length (lc_requests c) \<and> rq_outcome (lc_requests c ! r) = None) \<and>
     (\<forall>r \<in> set (lc_pendingRequests c). live c \<and> rq_session (lc_requests c ! r) = lc_activeSession c \<and> rq_generation (lc_requests c ! r) = lc_generation c)"

definition subscriptions_ok :: "logical_client \<Rightarrow> bool" where
  "subscriptions_ok c \<longleftrightarrow> distinct (lc_subscriptions c) \<and> (lc_closed c \<longrightarrow> lc_subscriptions c = []) \<and>
     (\<forall>i \<in> set (lc_subscriptions c). i < length (lc_records c) \<and>
        sn_physical (lc_records c ! i) = (if lc_suspended c then None else Some (lc_activeSession c, lc_generation c))) \<and>
     (\<not> lc_closed c \<longrightarrow> (\<forall>i < length (lc_records c). sn_cancelled (lc_records c ! i) \<longleftrightarrow> i \<notin> set (lc_subscriptions c)))"

definition attachments_ok :: "logical_client \<Rightarrow> bool" where
  "attachments_ok c \<longleftrightarrow> (\<forall>(i, s, g) \<in> attachments c. i < length (lc_records c) \<and> g \<le> lc_generation c \<and> (g = lc_generation c \<longrightarrow> s = lc_activeSession c))"

definition logical_ok :: "logical_client \<Rightarrow> bool" where
  "logical_ok c \<longleftrightarrow> sessions_ok c \<and> state_ok c \<and> requests_live c \<and> subscriptions_ok c \<and> attachments_ok c"

lemma logical_new_ok: "logical_ok (createStableLogicalRpcClient st path)"
  by (simp add: logical_ok_def createStableLogicalRpcClient_def sessions_ok_def state_ok_def requests_live_def subscriptions_ok_def
      attachments_ok_def attachments_def live_def)

lemma logical_cong:
  assumes "lc_frame c = lc_frame d" "lc_records c = lc_records d" "lc_requests c = lc_requests d" "lc_pendingRequests c = lc_pendingRequests d"
    "attachments c = attachments d"
  shows "logical_ok c = logical_ok d"
  using lc_frame_fields [OF assms(1)] assms(2-5)
  unfolding logical_ok_def sessions_ok_def state_ok_def requests_live_def subscriptions_ok_def attachments_ok_def live_def by simp

lemma logical_emit_ok [simp]: "\<not> attaches e \<Longrightarrow> logical_ok (lc_emit e c) = logical_ok c"
  by (rule logical_cong) simp_all

lemma okD:
  assumes "logical_ok c"
  shows "sessions_ok c" "state_ok c" "requests_live c" "subscriptions_ok c" "attachments_ok c"
  using assms by (simp_all add: logical_ok_def)

text \<open>A step that touches only requests, only records, or only the sessions leaves the other parts of the invariant alone.\<close>

lemma parts_cong:
  assumes "lc_frame c = lc_frame d"
  shows "sessions_ok c = sessions_ok d" "state_ok c = state_ok d" "live c = live d"
    "lc_requests c = lc_requests d \<Longrightarrow> lc_pendingRequests c = lc_pendingRequests d \<Longrightarrow> requests_live c = requests_live d"
    "lc_records c = lc_records d \<Longrightarrow> subscriptions_ok c = subscriptions_ok d"
    "length (lc_records c) = length (lc_records d) \<Longrightarrow> attachments c = attachments d \<Longrightarrow> attachments_ok c = attachments_ok d"
  using lc_frame_fields [OF assms]
  by (simp_all add: sessions_ok_def state_ok_def requests_live_def subscriptions_ok_def attachments_ok_def live_def)

lemma settle_requests:
  assumes "r < length (lc_requests c)"
  shows "lc_requests (settle out r c) ! q = (if q = r \<and> rq_outcome (lc_requests c ! r) = None then (lc_requests c ! r)\<lparr>rq_outcome := Some out\<rparr> else lc_requests c ! q)"
  using assms by (auto simp: settle_view upd_at_def nth_list_update)

lemma responded_ok:
  assumes ok: "logical_ok c" and r: "r < length (lc_requests c)"
  shows "logical_ok (responded r ok' c)"
proof -
  define out where "out = (if \<not> ok' then Session_Rejected else if lc_closed c then Client_Closed
    else if rq_generation (lc_requests c ! r) \<noteq> lc_generation c then Cutover else Resolved)"
  define d where "d = c\<lparr>lc_pendingRequests := removeAll r (lc_pendingRequests c)\<rparr>"
  have d: "lc_frame d = lc_frame c" "lc_records d = lc_records c" "lc_requests d = lc_requests c" "attachments d = attachments c"
    "lc_pendingRequests d = removeAll r (lc_pendingRequests c)"
    by (simp_all add: d_def pending_update_view)
  define e where "e = settle out r d"
  have f: "lc_frame e = lc_frame c" by (simp add: e_def settle_view d)
  have p: "lc_pendingRequests e = removeAll r (lc_pendingRequests c)" "length (lc_requests e) = length (lc_requests c)"
    by (simp_all add: e_def settle_view d)
  have q: "rq_outcome (lc_requests e ! j) = None \<longleftrightarrow> j \<noteq> r \<and> rq_outcome (lc_requests c ! j) = None"
    "rq_session (lc_requests e ! j) = rq_session (lc_requests c ! j) \<and> rq_generation (lc_requests e ! j) = rq_generation (lc_requests c ! j)"
    if "j < length (lc_requests c)" for j
    using that by (simp_all add: e_def settle_view d nth_upd_at)
  have "requests_live e"
    using okD(3) [OF ok] q unfolding requests_live_def live_def lc_frame_fields [OF f] p by (auto simp: distinct_removeAll)
  then have "logical_ok e"
    using okD [OF ok] parts_cong [OF f] by (simp add: logical_ok_def e_def settle_view d)
  then show ?thesis by (simp add: responded_def e_def d_def out_def)
qed

lemma send_ok:
  assumes ok: "logical_ok c"
  shows "logical_ok (sendRequest c)"
proof -
  define q where "q = \<lparr>rq_session = lc_activeSession c, rq_generation = lc_generation c, rq_outcome = None\<rparr>"
  let ?r = "length (lc_requests c)"
  have "logical_ok (settle out ?r (c\<lparr>lc_requests := lc_requests c @ [q]\<rparr>))" for out
  proof -
    let ?c = "c\<lparr>lc_requests := lc_requests c @ [q]\<rparr>"
    have v: "lc_frame ?c = lc_frame c" "attachments ?c = attachments c" by (simp_all add: lc_frame_def attachments_def)
    have f: "lc_frame (settle out ?r ?c) = lc_frame c" by (simp add: settle_view v)
    have "lc_requests (settle out ?r ?c) = lc_requests c @ [q\<lparr>rq_outcome := Some out\<rparr>]" by (simp add: settle_view upd_at_def q_def)
    then have "requests_live (settle out ?r ?c)"
      using okD(3) [OF ok] lc_frame_fields [OF f] by (auto simp: requests_live_def live_def settle_view nth_append less_Suc_eq)
    then show ?thesis using okD [OF ok] parts_cong [OF f] by (simp add: logical_ok_def settle_view v)
  qed
  moreover have "logical_ok (c\<lparr>lc_requests := lc_requests c @ [q], lc_pendingRequests := lc_pendingRequests c @ [?r]\<rparr>)" (is "logical_ok ?d") if "live c"
  proof -
    have f: "lc_frame ?d = lc_frame c" "attachments ?d = attachments c" by (simp_all add: lc_frame_def attachments_def)
    have "requests_live ?d"
      using okD(3) [OF ok] that lc_frame_fields [OF f(1)] by (auto simp: requests_live_def live_def nth_append less_Suc_eq q_def)
    then show ?thesis using okD [OF ok] parts_cong [OF f(1)] f(2) by (simp add: logical_ok_def)
  qed
  ultimately show ?thesis by (simp add: sendRequest_def Let_def q_def live_def)
qed

lemma subscribe_ok:
  assumes ok: "logical_ok c"
  shows "logical_ok (subscribe method params c)"
proof (cases "lc_closed c")
  case False
  define d where "d = c\<lparr>lc_records := lc_records c @ [\<lparr>sn_method = method, sn_params = params, sn_physical = None, sn_cancelled = False\<rparr>],
    lc_subscriptions := lc_subscriptions c @ [length (lc_records c)]\<rparr>"
  define e where "e = (if lc_suspended c then d else attachSubscription (lc_activeSession c) (lc_generation c) (length (lc_records c)) d)"
  let ?p = "if lc_suspended c then None else Some (lc_activeSession c, lc_generation c)"
  have at: "attachments d = attachments c" by (simp add: d_def attachments_def)
  have rec: "lc_records e = lc_records c @ [\<lparr>sn_method = method, sn_params = params, sn_physical = ?p, sn_cancelled = False\<rparr>]"
    by (simp add: e_def d_def upd_at_def)
  have f: "lc_frame e = lc_frame (c\<lparr>lc_subscriptions := lc_subscriptions c @ [length (lc_records c)]\<rparr>)"
    by (simp add: e_def d_def) (simp add: lc_frame_def)
  note ff = lc_frame_fields [OF f, simplified]
  have pe: "lc_requests e = lc_requests c" "lc_pendingRequests e = lc_pendingRequests c" by (simp_all add: e_def d_def)
  have "sessions_ok e" "state_ok e" using okD(1,2) [OF ok] by (simp_all add: sessions_ok_def state_ok_def live_def ff)
  moreover have "requests_live e" using okD(3) [OF ok] by (auto simp: requests_live_def live_def ff pe)
  moreover have "subscriptions_ok e"
    using okD(4) [OF ok] False by (auto simp: subscriptions_ok_def ff rec nth_append less_Suc_eq)
  moreover have "attachments_ok e" using okD(5) [OF ok] by (auto simp: attachments_ok_def ff rec) (auto simp: e_def at split: if_splits)
  moreover have "subscribe method params c = e" using False by (simp add: subscribe_def Let_def e_def d_def)
  ultimately show ?thesis by (simp add: logical_ok_def)
qed (simp add: subscribe_def ok)

lemma unsubscribe_ok:
  assumes ok: "logical_ok c" and i: "i < length (lc_records c)"
  shows "logical_ok (unsubscribe i c)"
proof (cases "sn_cancelled (lc_records c ! i)")
  case False
  define d where "d = set_physical None i (disposePhysical i c)"
  define e where "e = d\<lparr>lc_records := (lc_records d)[i := (lc_records d ! i)\<lparr>sn_cancelled := True\<rparr>], lc_subscriptions := removeAll i (lc_subscriptions d)\<rparr>"
  have fd: "lc_frame d = lc_frame c" by (simp add: d_def)
  have rec: "length (lc_records e) = length (lc_records c)"
    "\<And>j. j < length (lc_records c) \<Longrightarrow> lc_records e ! j = (if j = i then (lc_records c ! i)\<lparr>sn_physical := None, sn_cancelled := True\<rparr> else lc_records c ! j)"
    using i by (auto simp: e_def d_def nth_list_update nth_upd_at)
  have f: "lc_frame e = lc_frame (c\<lparr>lc_subscriptions := removeAll i (lc_subscriptions c)\<rparr>)" 
    using lc_frame_fields [OF fd] by (simp add: e_def lc_frame_def)
  note ff = lc_frame_fields [OF f, simplified]
  have v: "lc_requests e = lc_requests c" "lc_pendingRequests e = lc_pendingRequests c" "attachments e = attachments c"
    by (simp_all add: e_def d_def attachments_def) (simp add: attachments_def [symmetric])
  have "sessions_ok e" "state_ok e" "requests_live e" "attachments_ok e"
    using okD [OF ok] by (simp_all add: sessions_ok_def state_ok_def requests_live_def attachments_ok_def live_def ff v rec)
  moreover have "subscriptions_ok e" using okD(4) [OF ok] by (auto simp: subscriptions_ok_def ff rec distinct_removeAll)
  ultimately show ?thesis using False by (simp add: logical_ok_def unsubscribe_def Let_def e_def d_def)
qed (simp add: unsubscribe_def ok)

lemma update_params_view:
  "lc_frame (fold (update_params t v) is c) = lc_frame c"
  "lc_records (fold (update_params t v) is c) = fold (upd_at (\<lambda>x. x\<lparr>sn_params := with_viewport t v (sn_params x)\<rparr>)) is (lc_records c)"
  "lc_requests (fold (update_params t v) is c) = lc_requests c" "lc_pendingRequests (fold (update_params t v) is c) = lc_pendingRequests c"
  "attachments (fold (update_params t v) is c) = attachments c"
  by (induction "is" arbitrary: c) (simp_all add: update_params_def upd_at_def lc_frame_def attachments_def)

lemma viewport_ok:
  assumes ok: "logical_ok c"
  shows "logical_ok (updateTerminalSubscriptionViewport t v c)"
proof -
  define e where "e = fold (update_params t v) (lc_subscriptions c) c"
  have f: "lc_frame e = lc_frame c" by (simp add: e_def update_params_view)
  note ff = lc_frame_fields [OF f]
  have rec: "sn_physical (lc_records e ! j) = sn_physical (lc_records c ! j) \<and> sn_cancelled (lc_records e ! j) = sn_cancelled (lc_records c ! j)"
    if "j < length (lc_records c)" for j
    using that okD(4) [OF ok] by (simp add: e_def update_params_view nth_fold_upd subscriptions_ok_def)
  have "subscriptions_ok e" using okD(4) [OF ok] rec by (auto simp: subscriptions_ok_def ff) (simp_all add: e_def update_params_view)
  then have "logical_ok e" using okD [OF ok] parts_cong [OF f] by (simp add: logical_ok_def e_def update_params_view)
  then show ?thesis by (simp add: updateTerminalSubscriptionViewport_def Let_def e_def)
qed

lemma emit_fields [simp]:
  "lc_activeSession (lc_emit e c) = lc_activeSession c" "lc_generation (lc_emit e c) = lc_generation c" "lc_closed (lc_emit e c) = lc_closed c"
  "lc_suspended (lc_emit e c) = lc_suspended c" "lc_activeState (lc_emit e c) = lc_activeState c" "lc_subscriptions (lc_emit e c) = lc_subscriptions c"
  "lc_state (lc_emit e c) = lc_state c" "lc_sessions (lc_emit e c) = lc_sessions c" "lc_migrations (lc_emit e c) = lc_migrations c"
  by (simp_all add: lc_emit_def)

lemma publish_fields [simp]:
  "lc_activeSession (publishState st c) = lc_activeSession c" "lc_generation (publishState st c) = lc_generation c"
  "lc_closed (publishState st c) = lc_closed c" "lc_suspended (publishState st c) = lc_suspended c"
  "lc_activeState (publishState st c) = lc_activeState c" "lc_subscriptions (publishState st c) = lc_subscriptions c"
  "lc_state (publishState st c) = st" "lc_sessions (publishState st c) = lc_sessions c" "lc_migrations (publishState st c) = lc_migrations c"
  "lc_records (publishState st c) = lc_records c" "lc_requests (publishState st c) = lc_requests c"
  "lc_pendingRequests (publishState st c) = lc_pendingRequests c" "attachments (publishState st c) = attachments c"
  by (simp_all add: publishState_def) (simp add: attachments_def)

lemma close_fields [simp]:
  "lc_activeSession (session_close s c) = lc_activeSession c" "lc_generation (session_close s c) = lc_generation c"
  "lc_closed (session_close s c) = lc_closed c" "lc_suspended (session_close s c) = lc_suspended c"
  "lc_activeState (session_close s c) = lc_activeState c" "lc_subscriptions (session_close s c) = lc_subscriptions c"
  "lc_state (session_close s c) = lc_state c" "lc_migrations (session_close s c) = lc_migrations c"
  "lc_records (session_close s c) = lc_records c" "lc_requests (session_close s c) = lc_requests c"
  "lc_pendingRequests (session_close s c) = lc_pendingRequests c" "attachments (session_close s c) = attachments c"
  "lc_sessions (session_close s c) = upd_at (\<lambda>x. x\<lparr>ph_closed := True\<rparr>) s (lc_sessions c)"
  by (simp_all add: session_close_def upd_at_def) (simp add: attachments_def)

text \<open>Rejecting the pending requests settles all that were unsettled.\<close>

lemma reject_settles:
  assumes "requests_live c" "lc_requests d = lc_requests c" "lc_pendingRequests d = lc_pendingRequests c" "r < length (lc_requests c)"
  shows "rq_outcome (lc_requests (reject_pending out d) ! r) \<noteq> None"
  using assms by (auto simp: reject_pending_def settle_fold_view requests_live_def nth_fold_upd)

lemma close_client_ok:
  assumes ok: "logical_ok c"
  shows "logical_ok (logical_close c)"
proof (cases "lc_closed c")
  case False
  define c0 where "c0 = c\<lparr>lc_closed := True, lc_activeState := None\<rparr>"
  define c1 where "c1 = reject_pending Client_Closed c0"
  define w where "w = fold disposePhysical (lc_subscriptions c1) c1"
  define e where "e = publishState Cs_Disconnected (session_close (lc_activeSession w) (w\<lparr>lc_subscriptions := []\<rparr>))"
  have "lc_frame c1 = lc_frame c0" by (simp add: c1_def reject_view)
  note f1 = lc_frame_fields [OF this]
  have "lc_frame w = lc_frame c1" by (simp add: w_def dispose_fold_view)
  note f2 = lc_frame_fields [OF this]
  have f0: "lc_activeSession c0 = lc_activeSession c" "lc_generation c0 = lc_generation c" "lc_closed c0" "lc_activeState c0 = None"
    "lc_migrations c0 = lc_migrations c" "lc_sessions c0 = lc_sessions c" "attachments c0 = attachments c"
    "lc_records c0 = lc_records c" "lc_requests c0 = lc_requests c" "lc_pendingRequests c0 = lc_pendingRequests c"
    by (simp_all add: c0_def attachments_def)
  have w: "lc_records w = lc_records c" "lc_pendingRequests w = []" "lc_requests w = lc_requests c1" "attachments w = attachments c"
    by (simp_all add: w_def dispose_fold_view c1_def reject_view f0)
  have [simp]: "attachments (w\<lparr>lc_subscriptions := []\<rparr>) = attachments w" by (simp add: attachments_def)
  have v: "lc_activeSession e = lc_activeSession c" "lc_generation e = lc_generation c" "lc_closed e" "lc_activeState e = None" "lc_subscriptions e = []"
    "lc_state e = Cs_Disconnected" "lc_migrations e = lc_migrations c" "lc_records e = lc_records c" "lc_pendingRequests e = []"
    "lc_sessions e = upd_at (\<lambda>x. x\<lparr>ph_closed := True\<rparr>) (lc_activeSession c) (lc_sessions c)" "attachments e = attachments c" "lc_requests e = lc_requests c1"
    by (simp_all add: e_def f2 f1 f0 w)
  have settled: "rq_outcome (lc_requests e ! r) \<noteq> None" if "r < length (lc_requests e)" for r
    using reject_settles [OF okD(3) [OF ok] f0(9,10), of r] that by (simp add: v c1_def reject_view f0)
  have "sessions_ok e" using okD(1) [OF ok] False by (auto simp: sessions_ok_def live_def v nth_upd_at)
  moreover have "state_ok e" "subscriptions_ok e" by (simp_all add: state_ok_def live_def subscriptions_ok_def v)
  moreover have "requests_live e" using settled by (auto simp: requests_live_def v)
  moreover have "attachments_ok e" using okD(5) [OF ok] by (simp add: attachments_ok_def v)
  moreover have "logical_close c = e" using False by (simp add: logical_close_def Let_def e_def w_def c1_def c0_def)
  ultimately show ?thesis by (simp add: logical_ok_def)
qed (simp add: logical_close_def ok)

lemma suspend_ok:
  assumes ok: "logical_ok c"
  shows "logical_ok (suspendActiveSession c)"
proof (cases "live c")
  case True
  define c0 where "c0 = c\<lparr>lc_suspended := True, lc_activeState := None\<rparr>"
  define c1 where "c1 = reject_pending Client_Suspended c0"
  define c2 where "c2 = fold suspend_record (lc_subscriptions c1) c1"
  define e where "e = publishState Cs_Disconnected (session_close (lc_activeSession c2) c2)"
  have "lc_frame c1 = lc_frame c0" by (simp add: c1_def reject_view)
  note f1 = lc_frame_fields [OF this]
  have "lc_frame c2 = lc_frame c1" by (simp add: c2_def suspend_fold_view)
  note f2 = lc_frame_fields [OF this]
  have f0: "lc_activeSession c0 = lc_activeSession c" "lc_generation c0 = lc_generation c" "lc_closed c0 = lc_closed c" "lc_suspended c0" "lc_activeState c0 = None"
    "lc_subscriptions c0 = lc_subscriptions c" "lc_migrations c0 = lc_migrations c" "lc_sessions c0 = lc_sessions c" "attachments c0 = attachments c"
    "lc_records c0 = lc_records c" "lc_requests c0 = lc_requests c" "lc_pendingRequests c0 = lc_pendingRequests c"
    by (simp_all add: c0_def attachments_def)
  have v: "lc_activeSession e = lc_activeSession c" "lc_generation e = lc_generation c" "lc_closed e = lc_closed c" "lc_suspended e" "lc_activeState e = None"
    "lc_subscriptions e = lc_subscriptions c" "lc_state e = Cs_Disconnected" "lc_migrations e = lc_migrations c" "lc_pendingRequests e = []"
    "lc_sessions e = upd_at (\<lambda>x. x\<lparr>ph_closed := True\<rparr>) (lc_activeSession c) (lc_sessions c)" "attachments e = attachments c"
    "lc_records e = fold (upd_at (\<lambda>x. x\<lparr>sn_physical := None\<rparr>)) (lc_subscriptions c) (lc_records c)" "lc_requests e = lc_requests c1"
    by (simp_all add: e_def f2 f1 f0) (simp_all add: c2_def suspend_fold_view, simp_all add: c1_def reject_view f1 [unfolded c1_def] f0)
  have settled: "rq_outcome (lc_requests e ! r) \<noteq> None" if "r < length (lc_requests e)" for r
    using reject_settles [OF okD(3) [OF ok] f0(11,12), of r] that by (simp add: v c1_def reject_view f0)
  have "sessions_ok e" using okD(1) [OF ok] True by (auto simp: sessions_ok_def live_def v nth_upd_at)
  moreover have "state_ok e" by (simp add: state_ok_def live_def v)
  moreover have "subscriptions_ok e"
    using okD(4) [OF ok] True by (auto simp: subscriptions_ok_def v nth_fold_upd live_def)
  moreover have "requests_live e" using settled by (auto simp: requests_live_def v)
  moreover have "attachments_ok e" using okD(5) [OF ok] by (simp add: attachments_ok_def v)
  moreover have "suspendActiveSession c = e" using True by (simp add: suspendActiveSession_def Let_def live_def e_def c2_def c1_def c0_def)
  ultimately show ?thesis by (simp add: logical_ok_def)
qed (auto simp: suspendActiveSession_def ok live_def)

text \<open>The cut-over: the replacement is open and not awaited any more.\<close>

definition replacement_ready :: "nat \<Rightarrow> logical_client \<Rightarrow> bool" where
  "replacement_ready s c \<longleftrightarrow> s < length (lc_sessions c) \<and> s \<noteq> lc_activeSession c \<and> s \<notin> fst ` set (lc_migrations c) \<and>
     lc_activeSession c < length (lc_sessions c) \<and>
     (\<forall>m \<in> set (lc_migrations c). fst m < length (lc_sessions c) \<and> fst m \<noteq> lc_activeSession c) \<and>
     (\<forall>s' < length (lc_sessions c). ph_closed (lc_sessions c ! s') \<longleftrightarrow> s' \<noteq> s \<and> s' \<notin> fst ` set (lc_migrations c) \<and> \<not> (s' = lc_activeSession c \<and> live c)) \<and>
     state_ok c \<and> requests_live c \<and> subscriptions_ok c \<and> attachments_ok c"

lemma refused_ok:
  assumes "replacement_ready s c"
  shows "logical_ok (migration_refused s c)"
proof -
  have "sessions_ok (session_close s c)" using assms by (auto simp: replacement_ready_def sessions_ok_def live_def nth_upd_at)
  moreover have "state_ok (session_close s c)" "requests_live (session_close s c)" "subscriptions_ok (session_close s c)" "attachments_ok (session_close s c)"
    using assms by (auto simp: replacement_ready_def state_ok_def live_def requests_live_def subscriptions_ok_def attachments_ok_def nth_upd_at)
  ultimately have "logical_ok (session_close s c)" by (simp add: logical_ok_def)
  then show ?thesis by (simp add: migration_refused_def)
qed

lemma cut_over_ok:
  assumes r: "replacement_ready s c"
  shows "logical_ok (cut_over s path c)"
proof (cases "lc_closed c")
  case False
  define g where "g = lc_generation c + 1"
  define c1 where "c1 = fold (replay_record s g) (lc_subscriptions c) c"
  define c0 where "c0 = c1\<lparr>lc_generation := g, lc_activeSession := s, lc_activePath := path, lc_suspended := False, lc_activeState := Some (s, g)\<rparr>"
  define c2 where "c2 = reject_pending Cutover c0"
  define st where "st = ph_state (lc_sessions c2 ! s)"
  define e where "e = session_close (lc_activeSession c) (lc_emit (LE_State st) (c2\<lparr>lc_state := st\<rparr>))"
  have "lc_frame c1 = lc_frame c" by (simp add: c1_def replay_fold_view)
  note f1 = lc_frame_fields [OF this]
  have c1: "lc_requests c1 = lc_requests c" "lc_pendingRequests c1 = lc_pendingRequests c"
    "attachments c1 = attachments c \<union> (\<lambda>i. (i, s, g)) ` set (lc_subscriptions c)"
    "lc_records c1 = fold (upd_at (\<lambda>x. x\<lparr>sn_physical := Some (s, g)\<rparr>)) (lc_subscriptions c) (lc_records c)"
    by (simp_all add: c1_def replay_fold_view)
  have f0: "lc_activeSession c0 = s" "lc_generation c0 = g" "lc_closed c0 = False" "lc_suspended c0 = False" "lc_activeState c0 = Some (s, g)"
    "lc_subscriptions c0 = lc_subscriptions c" "lc_migrations c0 = lc_migrations c" "lc_sessions c0 = lc_sessions c" "attachments c0 = attachments c1"
    "lc_records c0 = lc_records c1" "lc_requests c0 = lc_requests c" "lc_pendingRequests c0 = lc_pendingRequests c"
    using False by (simp_all add: c0_def f1 c1 attachments_def)
  have "lc_frame c2 = lc_frame c0" by (simp add: c2_def reject_view)
  note f2 = lc_frame_fields [OF this]
  have at: "attachments (c2\<lparr>lc_state := st\<rparr>) = attachments c2" by (simp add: attachments_def)
  have v: "lc_activeSession e = s" "lc_generation e = g" "lc_closed e = False" "lc_suspended e = False" "lc_activeState e = Some (s, g)"
    "lc_subscriptions e = lc_subscriptions c" "lc_state e = st" "lc_migrations e = lc_migrations c" "lc_pendingRequests e = []"
    "lc_sessions e = upd_at (\<lambda>x. x\<lparr>ph_closed := True\<rparr>) (lc_activeSession c) (lc_sessions c)" "attachments e = attachments c1"
    "lc_records e = lc_records c1" "lc_requests e = lc_requests c2"
    by (simp_all add: e_def f2 f0 at) (simp_all add: c2_def reject_view f0)
  have st: "st = ph_state (lc_sessions c ! s)" by (simp add: st_def f2 f0)
  have settled: "rq_outcome (lc_requests e ! q) \<noteq> None" if "q < length (lc_requests e)" for q
    using reject_settles [of c c0 q Cutover] r that by (simp add: v c2_def reject_view f0 replacement_ready_def)
  have "sessions_ok e" using r by (auto simp: replacement_ready_def sessions_ok_def live_def v nth_upd_at)
  moreover have "state_ok e" using r by (simp add: replacement_ready_def state_ok_def live_def v st nth_upd_at)
  moreover have "subscriptions_ok e"
    using r False by (auto simp: replacement_ready_def subscriptions_ok_def v c1 nth_fold_upd)
  moreover have "requests_live e" using settled by (auto simp: requests_live_def v)
  moreover have "attachments_ok e"
    using r by (fastforce simp: replacement_ready_def attachments_ok_def subscriptions_ok_def v c1 g_def)
  moreover have "cut_over s path c = lc_emit (LE_Migrated s) e"
    using False by (simp add: cut_over_def Let_def e_def st_def c2_def c0_def c1_def g_def)
  ultimately show ?thesis by (simp add: logical_ok_def [of e]) 
qed (simp add: cut_over_def refused_ok r)

lemma waiting_ready:
  assumes ok: "logical_ok c" and "waits_on s c = Some path"
  shows "replacement_ready s (stop_waiting s c)"
proof -
  let ?d = "stop_waiting s c"
  have m: "(s, path) \<in> set (lc_migrations c)" using assms(2) by (simp add: waits_on_def map_of_SomeD)
  then have s: "s < length (lc_sessions c)" "s \<noteq> lc_activeSession c" using okD(1) [OF ok] by (auto simp: sessions_ok_def)
  have ms: "fst ` set (lc_migrations ?d) = fst ` set (lc_migrations c) - {s}" by (auto simp: stop_waiting_def image_iff)
  have v: "lc_sessions ?d = lc_sessions c" "lc_activeSession ?d = lc_activeSession c" "live ?d = live c"
    by (simp_all add: stop_waiting_def live_def)
  have "state_ok ?d" "requests_live ?d" "subscriptions_ok ?d" "attachments_ok ?d"
    using okD(2-5) [OF ok]
    by (simp_all add: state_ok_def requests_live_def subscriptions_ok_def attachments_ok_def stop_waiting_def live_def attachments_def)
  moreover have "\<forall>k \<in> set (lc_migrations ?d). fst k < length (lc_sessions c) \<and> fst k \<noteq> lc_activeSession c"
    using okD(1) [OF ok] by (simp add: sessions_ok_def stop_waiting_def)
  moreover have "ph_closed (lc_sessions c ! s') \<longleftrightarrow> s' \<noteq> s \<and> s' \<notin> fst ` set (lc_migrations c) - {s} \<and> \<not> (s' = lc_activeSession c \<and> live c)"
    if "s' < length (lc_sessions c)" for s'
    using okD(1) [OF ok] m s that unfolding sessions_ok_def by force
  ultimately show ?thesis using s okD(1) [OF ok] by (simp add: replacement_ready_def ms v sessions_ok_def)
qed

lemma progress_ok: "logical_ok c \<Longrightarrow> logical_ok (authentication_progress s st c)"
  using waiting_ready [of c s] by (auto simp: authentication_progress_def cut_over_ok refused_ok split: option.split)

lemma session_state_ok:
  assumes ok: "logical_ok c" and s: "s < length (lc_sessions c)"
  shows "logical_ok (session_state s st c)"
proof -
  define c1 where "c1 = c\<lparr>lc_sessions := (lc_sessions c)[s := (lc_sessions c ! s)\<lparr>ph_state := st\<rparr>]\<rparr>"
  define c2 where "c2 = (case lc_activeState c1 of
                  Some (s', g) \<Rightarrow> (if s' = s \<and> \<not> lc_closed c1 \<and> lc_generation c1 = g \<and> s = lc_activeSession c1 then publishState st c1 else c1)
                | None \<Rightarrow> c1)"
  have b: "c2 = (if live c \<and> s = lc_activeSession c then publishState st c1 else c1)"
    using okD(2) [OF ok] by (auto simp: c2_def state_ok_def c1_def live_def)
  have v: "lc_activeSession c2 = lc_activeSession c" "lc_generation c2 = lc_generation c" "lc_closed c2 = lc_closed c" "lc_suspended c2 = lc_suspended c"
    "lc_activeState c2 = lc_activeState c" "lc_subscriptions c2 = lc_subscriptions c" "lc_migrations c2 = lc_migrations c"
    "lc_records c2 = lc_records c" "lc_requests c2 = lc_requests c" "lc_pendingRequests c2 = lc_pendingRequests c"
    "lc_sessions c2 = upd_at (\<lambda>x. x\<lparr>ph_state := st\<rparr>) s (lc_sessions c)"
    "lc_state c2 = (if live c \<and> s = lc_activeSession c then st else lc_state c)" "attachments c2 = attachments c"
    by (simp_all add: b) (simp_all add: c1_def upd_at_def attachments_def)
  have "sessions_ok c2" using okD(1) [OF ok] by (simp add: sessions_ok_def live_def v nth_upd_at)
  moreover have "state_ok c2" using okD(1,2) [OF ok] by (auto simp: sessions_ok_def state_ok_def live_def v nth_upd_at)
  moreover have "requests_live c2" "subscriptions_ok c2" "attachments_ok c2"
    using okD(3-5) [OF ok] by (simp_all add: requests_live_def subscriptions_ok_def attachments_ok_def live_def v)
  ultimately have "logical_ok c2" by (simp add: logical_ok_def)
  moreover have "session_state s st c = authentication_progress s st c2" unfolding session_state_def Let_def c1_def [symmetric] c2_def ..
  ultimately show ?thesis by (simp add: progress_ok)
qed

lemma migrate_ok:
  assumes ok: "logical_ok c"
  shows "logical_ok (migrateTo st path c)"
proof -
  define d where "d = c\<lparr>lc_sessions := lc_sessions c @ [\<lparr>ph_state = st, ph_closed = False\<rparr>]\<rparr>"
  have v: "lc_activeSession d = lc_activeSession c" "lc_migrations d = lc_migrations c" "live d = live c" "attachments d = attachments c"
    by (simp_all add: d_def live_def attachments_def)
  have "state_ok d" using okD(1,2) [OF ok] by (simp add: state_ok_def sessions_ok_def v) (simp add: d_def nth_append)
  moreover have "requests_live d" "subscriptions_ok d" "attachments_ok d"
    using okD(3-5) [OF ok] unfolding requests_live_def subscriptions_ok_def attachments_ok_def v by (simp_all add: d_def)
  ultimately have rest: "state_ok d" "requests_live d" "subscriptions_ok d" "attachments_ok d" by simp_all
  have "replacement_ready (length (lc_sessions c)) d"
    using okD(1) [OF ok] rest unfolding replacement_ready_def v sessions_ok_def by (auto simp: d_def nth_append less_Suc_eq)
  moreover have "logical_ok (d\<lparr>lc_migrations := lc_migrations d @ [(length (lc_sessions c), path)]\<rparr>)" (is "logical_ok ?e")
  proof -
    have "sessions_ok ?e" using okD(1) [OF ok] by (auto simp: sessions_ok_def live_def d_def nth_append less_Suc_eq)
    moreover have "state_ok ?e" "requests_live ?e" "subscriptions_ok ?e" "attachments_ok ?e"
      using rest by (simp_all add: state_ok_def requests_live_def subscriptions_ok_def attachments_ok_def live_def attachments_def)
    ultimately show ?thesis by (simp add: logical_ok_def)
  qed
  ultimately show ?thesis by (simp add: migrateTo_def Let_def d_def [symmetric] refused_ok cut_over_ok)
qed

lemma logical_step_ok: "logical_ok c \<Longrightarrow> logical_ok (logical_step c e)"
  using waiting_ready [of c]
  by (cases e) (auto simp: send_ok responded_ok subscribe_ok unsubscribe_ok viewport_ok close_client_ok suspend_ok migrate_ok session_state_ok
      migration_timeout_def refused_ok session_result_def)

interpretation logical: event_machine logical_step logical_ok
  by unfold_locales (rule logical_step_ok)

lemma logical_run_ok: "logical_ok (logical_run st path es)"
  unfolding logical_run_def by (rule logical.run_inv [OF logical_new_ok])

section \<open>Properties\<close>

text \<open>
  No physical session is leaked and the state shown is the active session's: after any events, of all the sessions
  ever handed to the client exactly the active one (while the client runs) and the replacements that are still being
  authenticated are open; the client reports the state of its active session, and disconnected when it is closed or suspended.
\<close>

theorem logical_sessions_are_owned:
  fixes es :: "logical_event list" and st :: connection_state and path :: connection_path
  defines "c \<equiv> logical_run st path es"
  shows "(\<forall>s < length (lc_sessions c).
      \<not> ph_closed (lc_sessions c ! s) \<longleftrightarrow> s \<in> fst ` set (lc_migrations c) \<or> s = lc_activeSession c \<and> \<not> lc_closed c \<and> \<not> lc_suspended c) \<and>
    lc_state c = (if lc_closed c \<or> lc_suspended c then Cs_Disconnected else ph_state (lc_sessions c ! lc_activeSession c))"
  using okD(1,2) [OF logical_run_ok [of st path es]] by (auto simp: c_def sessions_ok_def state_ok_def live_def)

definition ex_logical :: "logical_event list" where
  "ex_logical = [LV_Subscribe ''terminal.subscribe'' JNull, LV_Send, LV_Migrate Cs_Connecting Path_Relay, LV_Session_State 1 Cs_Connected]"

theorem logical_sessions_are_owned_witness:
  "ph_closed (lc_sessions (logical_run Cs_Connected Path_Lan ex_logical) ! 0) \<and> lc_activeSession (logical_run Cs_Connected Path_Lan ex_logical) = 1 \<and>
   \<not> ph_closed (lc_sessions (logical_run Cs_Connected Path_Lan ex_logical) ! 1)"
proof -
  have "length (lc_sessions (logical_run Cs_Connected Path_Lan ex_logical)) = 2" "lc_activeSession (logical_run Cs_Connected Path_Lan ex_logical) = 1"
    "lc_migrations (logical_run Cs_Connected Path_Lan ex_logical) = []"
    "\<not> lc_closed (logical_run Cs_Connected Path_Lan ex_logical)" "\<not> lc_suspended (logical_run Cs_Connected Path_Lan ex_logical)"
    by code_simp+
  with logical_sessions_are_owned [of Cs_Connected Path_Lan ex_logical] show ?thesis by (simp add: numeral_2_eq_2 All_less_Suc)
qed

text \<open>
  Property C21. No request is left hanging on a session that was replaced: after any events, a request whose promise is not
  settled was sent on the session that is active now, in the current generation, by a client that is neither closed nor
  suspended. A migration, a suspension and a close therefore settle every request that was open before it.
\<close>

theorem logical_requests_never_hang:
  fixes es :: "logical_event list" and st :: connection_state and path :: connection_path
  defines "c \<equiv> logical_run st path es"
  shows "\<forall>r < length (lc_requests c). rq_outcome (lc_requests c ! r) = None \<longrightarrow>
    \<not> lc_closed c \<and> \<not> lc_suspended c \<and> rq_session (lc_requests c ! r) = lc_activeSession c \<and>
    rq_generation (lc_requests c ! r) = lc_generation c \<and> \<not> ph_closed (lc_sessions c ! lc_activeSession c)"
  using okD(1,3) [OF logical_run_ok [of st path es]] by (auto simp: c_def requests_live_def sessions_ok_def live_def)

theorem logical_requests_never_hang_witness:
  "rq_outcome (lc_requests (logical_run Cs_Connected Path_Lan (ex_logical @ [LV_Send])) ! 0) = Some Cutover \<and>
   rq_session (lc_requests (logical_run Cs_Connected Path_Lan (ex_logical @ [LV_Send])) ! 1) = 1"
proof -
  have "length (lc_requests (logical_run Cs_Connected Path_Lan (ex_logical @ [LV_Send]))) = 2"
    "rq_outcome (lc_requests (logical_run Cs_Connected Path_Lan (ex_logical @ [LV_Send])) ! 1) = None"
    "rq_outcome (lc_requests (logical_run Cs_Connected Path_Lan (ex_logical @ [LV_Send])) ! 0) = Some Cutover"
    "lc_activeSession (logical_run Cs_Connected Path_Lan (ex_logical @ [LV_Send])) = 1"
    by code_simp+
  with logical_requests_never_hang [of Cs_Connected Path_Lan "ex_logical @ [LV_Send]"] show ?thesis by simp
qed

text \<open>
  A result reaches the application only from the current session: whatever a session does with a callback it was ever
  given, the result is delivered exactly when the client is not closed, the subscription is still wanted and the callback is of the
  current generation, and the session is then the active one; a session that was replaced delivers nothing any more.
\<close>

theorem results_come_from_active_session:
  fixes es :: "logical_event list" and st :: connection_state and path :: connection_path
  defines "c \<equiv> logical_run st path es"
  assumes "LE_Attach i s g \<in> set (lc_trace c)"
  shows "logical_step c (LV_Result i s g) =
      (if \<not> lc_closed c \<and> i \<in> set (lc_subscriptions c) \<and> g = lc_generation c then lc_emit (LE_Deliver i s g) c else c) \<and>
    (g = lc_generation c \<longrightarrow> s = lc_activeSession c)"
proof -
  have ok: "logical_ok c" by (simp add: c_def logical_run_ok)
  have "(i, s, g) \<in> attachments c" using assms(2) by (simp add: attachments_def)
  then have "i < length (lc_records c)" "g = lc_generation c \<longrightarrow> s = lc_activeSession c" using okD(5) [OF ok] by (auto simp: attachments_ok_def)
  then show ?thesis using assms(2) okD(4) [OF ok] by (auto simp: session_result_def subscriptions_ok_def)
qed

theorem results_come_from_active_session_witness:
  "logical_step (logical_run Cs_Connected Path_Lan ex_logical) (LV_Result 0 0 1) = logical_run Cs_Connected Path_Lan ex_logical"
proof -
  have "LE_Attach 0 0 1 \<in> set (lc_trace (logical_run Cs_Connected Path_Lan ex_logical))" "lc_generation (logical_run Cs_Connected Path_Lan ex_logical) = 2"
    by code_simp+
  with results_come_from_active_session [of 0 0 1 Cs_Connected Path_Lan ex_logical] show ?thesis by simp
qed

subsection \<open>What the application sees\<close>

text \<open>The specification: a table of subscriptions that no session event changes.\<close>

type_synonym subscription_table = "bool \<times> nat \<times> (nat \<times> string \<times> json) list"

fun table_step :: "subscription_table \<Rightarrow> logical_event \<Rightarrow> subscription_table" where
  "table_step (cl, n, ts) (LV_Subscribe method params) = (if cl then (cl, n, ts) else (cl, Suc n, ts @ [(n, method, params)]))"
| "table_step (cl, n, ts) (LV_Unsubscribe i) = (cl, n, filter (\<lambda>t. fst t \<noteq> i) ts)"
| "table_step (cl, n, ts) (LV_Viewport terminal viewport) = (cl, n, map (\<lambda>(i, m, p). (i, m, with_viewport terminal viewport p)) ts)"
| "table_step (cl, n, ts) LV_Close = (True, n, [])"
| "table_step t _ = t"

definition entry :: "subscription_record list \<Rightarrow> nat \<Rightarrow> nat \<times> string \<times> json" where
  "entry rs i = (i, sn_method (rs ! i), sn_params (rs ! i))"

definition table_of :: "logical_client \<Rightarrow> subscription_table" where
  "table_of c = (lc_closed c, length (lc_records c), map (entry (lc_records c)) (lc_subscriptions c))"

lemma entry_physical: "entry (upd_at (\<lambda>x. x\<lparr>sn_physical := p\<rparr>) i rs) j = entry rs j"
  by (cases "i = j"; cases "i < length rs") (simp_all add: entry_def upd_at_def list_update_beyond)

lemma table_others [simp]:
  "table_step t LV_Send = t" "table_step t (LV_Response r ok) = t" "table_step t LV_Suspend = t" "table_step t (LV_Migrate st path) = t"
  "table_step t (LV_Session_State s st) = t" "table_step t (LV_Timeout s) = t" "table_step t (LV_Result i s g) = t"
  by (cases t; simp)+

lemma table_cong:
  assumes "lc_closed c = lc_closed d" "lc_subscriptions c = lc_subscriptions d" "length (lc_records c) = length (lc_records d)"
    "\<And>i. i \<in> set (lc_subscriptions d) \<Longrightarrow> entry (lc_records c) i = entry (lc_records d) i"
  shows "table_of c = table_of d"
  using assms by (simp add: table_of_def)

lemma table_same: "lc_frame c = lc_frame d \<Longrightarrow> lc_records c = lc_records d \<Longrightarrow> table_of c = table_of d"
  using lc_frame_fields [of c d] by (intro table_cong) simp_all

lemma table_close_session [simp]: "table_of (session_close s c) = table_of c" "table_of (publishState st c) = table_of c" "table_of (lc_emit e c) = table_of c"
  by (rule table_cong; simp)+

lemma table_sessions [simp]:
  "table_of (c\<lparr>lc_sessions := xs\<rparr>) = table_of c" "subscriptions_ok (c\<lparr>lc_sessions := xs\<rparr>) = subscriptions_ok c"
  "table_of (c\<lparr>lc_migrations := ms\<rparr>) = table_of c" "subscriptions_ok (publishState st c) = subscriptions_ok c"
  by (simp_all add: table_of_def subscriptions_ok_def)

lemma table_send: "table_of (sendRequest c) = table_of c"
proof -
  have "table_of (settle out r d) = table_of d" for out r d by (rule table_same) (simp_all add: settle_view)
  then show ?thesis by (simp add: sendRequest_def Let_def) (simp add: table_of_def)
qed

lemma table_responded: "table_of (responded r ok c) = table_of c"
proof -
  have "table_of (settle out r d) = table_of d" for out d by (rule table_same) (simp_all add: settle_view)
  then show ?thesis by (simp add: responded_def) (simp add: table_of_def)
qed

lemma table_cut_over:
  assumes "subscriptions_ok c"
  shows "table_of (cut_over s path c) = table_of c"
proof (cases "lc_closed c")
  case False
  define c1 where "c1 = fold (replay_record s (lc_generation c + 1)) (lc_subscriptions c) c"
  have f: "lc_frame c1 = lc_frame c" by (simp add: c1_def replay_fold_view)
  have 1: "table_of c1 = table_of c"
    by (rule table_cong) (use lc_frame_fields [OF f] assms in
      \<open>auto simp: c1_def replay_fold_view entry_def nth_fold_upd subscriptions_ok_def\<close>)
  have 2: "table_of (reject_pending out d) = table_of d" for out d by (rule table_same) (simp_all add: reject_view)
  have 3: "table_of (d\<lparr>lc_state := x\<rparr>) = table_of d" "table_of (d\<lparr>lc_generation := g, lc_activeSession := a, lc_activePath := path,
      lc_suspended := False, lc_activeState := b\<rparr>) = table_of d" for d x g a b
    by (simp_all add: table_of_def)
  show ?thesis using False by (simp add: cut_over_def Let_def c1_def [symmetric, simplified] 2 3 1)
qed (simp add: cut_over_def migration_refused_def)

lemma table_suspend:
  assumes "subscriptions_ok c"
  shows "table_of (suspendActiveSession c) = table_of c"
proof (cases "live c")
  case True
  define c1 where "c1 = reject_pending Client_Suspended (c\<lparr>lc_suspended := True, lc_activeState := None\<rparr>)"
  have f1: "lc_frame c1 = lc_frame (c\<lparr>lc_suspended := True, lc_activeState := None\<rparr>)" "lc_records c1 = lc_records c"
    by (simp_all add: c1_def reject_view)
  note ff = lc_frame_fields [OF f1(1), simplified]
  define w where "w = fold suspend_record (lc_subscriptions c1) c1"
  have "lc_frame w = lc_frame c1" by (simp add: w_def suspend_fold_view)
  note f2 = lc_frame_fields [OF this]
  have w: "lc_records w = fold (upd_at (\<lambda>x. x\<lparr>sn_physical := None\<rparr>)) (lc_subscriptions c) (lc_records c)"
    by (simp add: w_def suspend_fold_view ff f1)
  have "table_of w = table_of c"
    by (rule table_cong) (use assms in \<open>auto simp: f2 ff w entry_def nth_fold_upd subscriptions_ok_def\<close>)
  then show ?thesis using True by (simp add: suspendActiveSession_def live_def Let_def c1_def w_def)
qed (auto simp: suspendActiveSession_def live_def)

lemma table_unsubscribe:
  assumes "logical_ok c" "i < length (lc_records c)"
  shows "table_of (unsubscribe i c) = table_step (table_of c) (LV_Unsubscribe i)"
proof (cases "sn_cancelled (lc_records c ! i)")
  case True
  then have "i \<notin> set (lc_subscriptions c)" using okD(4) [OF assms(1)] assms(2) by (cases "lc_closed c") (auto simp: subscriptions_ok_def)
  then have "filter (\<lambda>t. fst t \<noteq> i) (map (entry (lc_records c)) (lc_subscriptions c)) = map (entry (lc_records c)) (lc_subscriptions c)"
    by (intro filter_True) (auto simp: entry_def)
  then show ?thesis using True by (simp add: unsubscribe_def table_of_def)
next
  case False
  define d where "d = set_physical None i (disposePhysical i c)"
  have f: "lc_frame d = lc_frame c" "lc_records d = upd_at (\<lambda>x. x\<lparr>sn_physical := None\<rparr>) i (lc_records c)" by (simp_all add: d_def)
  note ff = lc_frame_fields [OF f(1)]
  have "entry ((lc_records d)[i := (lc_records d ! i)\<lparr>sn_cancelled := True\<rparr>]) j = entry (lc_records c) j" for j
    by (cases "i = j"; cases "i < length (lc_records c)") (simp_all add: entry_def f upd_at_def list_update_beyond)
  moreover have "unsubscribe i c = d\<lparr>lc_records := (lc_records d)[i := (lc_records d ! i)\<lparr>sn_cancelled := True\<rparr>],
      lc_subscriptions := removeAll i (lc_subscriptions d)\<rparr>" using False by (simp add: unsubscribe_def Let_def d_def)
  moreover have "filter (\<lambda>t. fst t \<noteq> i) (map (entry rs) xs) = map (entry rs) (removeAll i xs)" for rs xs
    by (induction xs) (auto simp: entry_def)
  ultimately show ?thesis by (simp add: table_of_def ff f)
qed

lemma table_subscribe: "table_of (subscribe method params c) = table_step (table_of c) (LV_Subscribe method params)"
  if "subscriptions_ok c"
proof (cases "lc_closed c")
  case False
  define d where "d = c\<lparr>lc_records := lc_records c @ [\<lparr>sn_method = method, sn_params = params, sn_physical = None, sn_cancelled = False\<rparr>],
    lc_subscriptions := lc_subscriptions c @ [length (lc_records c)]\<rparr>"
  have "lc_frame (attachSubscription s g (length (lc_records c)) d) = lc_frame d" for s g by simp
  note ff = lc_frame_fields [OF this]
  have t: "table_of (attachSubscription s g (length (lc_records c)) d) = table_of d" for s g
    by (rule table_cong) (simp_all add: ff entry_physical)
  have "table_of d = table_step (table_of c) (LV_Subscribe method params)"
    using that False by (auto simp: table_of_def d_def entry_def nth_append subscriptions_ok_def)
  then show ?thesis using False t by (simp add: subscribe_def Let_def d_def [symmetric])
qed (simp add: subscribe_def table_of_def)

lemma table_viewport:
  assumes "subscriptions_ok c"
  shows "table_of (updateTerminalSubscriptionViewport t v c) = table_step (table_of c) (LV_Viewport t v)"
proof -
  define d where "d = fold (update_params t v) (lc_subscriptions c) c"
  have f: "lc_frame d = lc_frame c" by (simp add: d_def update_params_view)
  note ff = lc_frame_fields [OF f]
  have "table_of d = table_step (table_of c) (LV_Viewport t v)"
    using assms unfolding table_of_def ff
    by (auto simp: entry_def d_def update_params_view nth_fold_upd subscriptions_ok_def)
  then show ?thesis by (simp add: updateTerminalSubscriptionViewport_def Let_def d_def [symmetric])
qed

lemma table_close:
  assumes "subscriptions_ok c"
  shows "table_of (logical_close c) = table_step (table_of c) LV_Close"
proof (cases "lc_closed c")
  case True
  then show ?thesis using assms by (simp add: logical_close_def table_of_def subscriptions_ok_def)
next
  case False
  define c1 where "c1 = reject_pending Client_Closed (c\<lparr>lc_closed := True, lc_activeState := None\<rparr>)"
  have f1: "lc_frame c1 = lc_frame (c\<lparr>lc_closed := True, lc_activeState := None\<rparr>)" "lc_records c1 = lc_records c"
    by (simp_all add: c1_def reject_view)
  note ff = lc_frame_fields [OF f1(1), simplified]
  define w where "w = fold disposePhysical (lc_subscriptions c1) c1"
  have "lc_frame w = lc_frame c1" "lc_records w = lc_records c" by (simp_all add: w_def dispose_fold_view f1)
  note f2 = lc_frame_fields [OF this(1)] this(2)
  have "table_of (w\<lparr>lc_subscriptions := []\<rparr>) = table_step (table_of c) LV_Close"
    by (simp add: table_of_def f2 ff)
  then show ?thesis using False by (simp add: logical_close_def Let_def c1_def w_def)
qed

lemma table_stop_waiting [simp]: "table_of (stop_waiting s c) = table_of c" "subscriptions_ok (stop_waiting s c) = subscriptions_ok c"
  by (simp_all add: stop_waiting_def table_of_def subscriptions_ok_def)

lemma table_progress: "subscriptions_ok c \<Longrightarrow> table_of (authentication_progress s st c) = table_of c"
  by (simp add: authentication_progress_def table_cut_over migration_refused_def split: option.split)

lemma table_session_state: "subscriptions_ok c \<Longrightarrow> table_of (session_state s st c) = table_of c"
  by (simp add: session_state_def table_progress Let_def split: option.split prod.split)

lemma table_step_refines:
  assumes ok: "logical_ok c"
  shows "table_of (logical_step c e) = table_step (table_of c) e"
proof -
  note subs = okD(4) [OF ok]
  show ?thesis
  proof (cases e)
    case (LV_Unsubscribe i)
    have "table_step (table_of c) (LV_Unsubscribe i) = table_of c" if "\<not> i < length (lc_records c)"
      using that subs by (auto simp: table_of_def entry_def subscriptions_ok_def intro!: filter_True)
    then show ?thesis using LV_Unsubscribe table_unsubscribe [OF ok] by auto
  next
    case (LV_Migrate st path)
    then show ?thesis using subs by (simp add: migrateTo_def Let_def table_cut_over migration_refused_def)
  qed (use subs in \<open>simp_all add: table_send table_responded table_subscribe table_viewport table_close table_suspend table_session_state
      migration_timeout_def migration_refused_def session_result_def\<close>)
qed

text \<open>
  Property C20. A migration is transparent to the application: after any events the client's subscriptions, with their numbers, methods
  and current parameters, are those of a plain table that only subscribe, unsubscribe, viewport and close change, whatever
  sessions were replaced, suspended or lost in between; and while the client runs, each of them is attached to the
  active session in the current generation.
\<close>

theorem subscriptions_survive_migrations:
  fixes es :: "logical_event list" and st :: connection_state and path :: connection_path
  defines "c \<equiv> logical_run st path es"
  shows "table_of c = foldl table_step (False, 0, []) es \<and>
    (\<not> lc_suspended c \<longrightarrow> (\<forall>i \<in> set (lc_subscriptions c). sn_physical (lc_records c ! i) = Some (lc_activeSession c, lc_generation c)))"
proof -
  have "table_of (foldl logical_step d es) = foldl table_step (table_of d) es" if "logical_ok d" for d
    using that by (induction es arbitrary: d) (simp_all add: table_step_refines logical_step_ok)
  from this [OF logical_new_ok [of st path]]
  have "table_of c = foldl table_step (False, 0, []) es"
    by (simp add: c_def logical_run_def) (simp add: table_of_def createStableLogicalRpcClient_def)
  then show ?thesis using okD(4) [OF logical_run_ok [of st path es]] by (simp add: c_def subscriptions_ok_def)
qed

theorem subscriptions_survive_migrations_witness:
  "table_of (logical_run Cs_Connected Path_Lan ex_logical) = (False, 1, [(0, ''terminal.subscribe'', JNull)]) \<and>
   sn_physical (lc_records (logical_run Cs_Connected Path_Lan ex_logical) ! 0) = Some (1, 2)"
proof -
  have "\<not> lc_suspended (logical_run Cs_Connected Path_Lan ex_logical)" "lc_activeSession (logical_run Cs_Connected Path_Lan ex_logical) = 1"
    "lc_generation (logical_run Cs_Connected Path_Lan ex_logical) = 2" "lc_subscriptions (logical_run Cs_Connected Path_Lan ex_logical) = [0]"
    "foldl table_step (False, 0, []) ex_logical = (False, 1, [(0, ''terminal.subscribe'', JNull)])"
    by code_simp+
  with subscriptions_survive_migrations [of Cs_Connected Path_Lan ex_logical] show ?thesis by simp
qed

end
