(* ===== verification/Mobile_Hysteresis.thy ===== *)
theory Mobile_Hysteresis
  imports Complex_Main
begin

text \<open>
  The rule by which the phone moves a session from the relay back to a direct path,
  \<open>src/pie-mobile/upstream/mobile/src/transport/mobile-endpoint-hysteresis.ts\<close>: direct probes must succeed several times over an
  observation period, with no failure in between, after a cooldown, and not soon after the last migration. The theorem compares
  the four counters of the class with the history of probes and migrations they stand for.
\<close>

section \<open>State and operations\<close>

record hysteresis_options =
  ho_directSuccessesRequired :: nat
  ho_directObservationMs :: rat
  ho_failureCooldownMs :: rat
  ho_minimumDwellMs :: rat

record hysteresis =
  hy_consecutiveDirectSuccesses :: nat
  hy_directObservationStartedAt :: "rat option"
  hy_cooldownUntil :: rat
  hy_lastMigrationAt :: rat

definition hysteresis_new :: "rat \<Rightarrow> hysteresis" where
  "hysteresis_new startedAt = \<lparr>hy_consecutiveDirectSuccesses = 0, hy_directObservationStartedAt = None, hy_cooldownUntil = 0, hy_lastMigrationAt = startedAt\<rparr>"

definition recordDirectSuccess :: "hysteresis_options \<Rightarrow> rat \<Rightarrow> hysteresis \<Rightarrow> hysteresis \<times> bool" where
  "recordDirectSuccess opts now h =
     (if now < hy_cooldownUntil h then (h, False)
      else (let h1 = (if hy_consecutiveDirectSuccesses h = 0 then h\<lparr>hy_directObservationStartedAt := Some now\<rparr> else h);
                h2 = h1\<lparr>hy_consecutiveDirectSuccesses := hy_consecutiveDirectSuccesses h1 + 1\<rparr>
            in (h2, ho_directSuccessesRequired opts \<le> hy_consecutiveDirectSuccesses h2 \<and>
                    (case hy_directObservationStartedAt h2 of None \<Rightarrow> False | Some t \<Rightarrow> ho_directObservationMs opts \<le> now - t) \<and>
                    ho_minimumDwellMs opts \<le> now - hy_lastMigrationAt h2)))"

definition recordDirectFailure :: "hysteresis_options \<Rightarrow> rat \<Rightarrow> hysteresis \<Rightarrow> hysteresis" where
  "recordDirectFailure opts now h =
     h\<lparr>hy_consecutiveDirectSuccesses := 0, hy_directObservationStartedAt := None, hy_cooldownUntil := now + ho_failureCooldownMs opts\<rparr>"

definition recordMigration :: "rat \<Rightarrow> hysteresis \<Rightarrow> hysteresis" where
  "recordMigration now h = h\<lparr>hy_lastMigrationAt := now, hy_consecutiveDirectSuccesses := 0, hy_directObservationStartedAt := None\<rparr>"

definition canProbe :: "rat \<Rightarrow> hysteresis \<Rightarrow> bool" where
  "canProbe now h \<longleftrightarrow> hy_cooldownUntil h \<le> now"

datatype probe_event = HV_Success rat | HV_Failure rat | HV_Migration rat

fun hysteresis_step :: "hysteresis_options \<Rightarrow> hysteresis \<Rightarrow> probe_event \<Rightarrow> hysteresis" where
  "hysteresis_step opts h (HV_Success now) = fst (recordDirectSuccess opts now h)"
| "hysteresis_step opts h (HV_Failure now) = recordDirectFailure opts now h"
| "hysteresis_step opts h (HV_Migration now) = recordMigration now h"

definition hysteresis_run :: "hysteresis_options \<Rightarrow> rat \<Rightarrow> probe_event list \<Rightarrow> hysteresis" where
  "hysteresis_run opts startedAt es = foldl (hysteresis_step opts) (hysteresis_new startedAt) es"

section \<open>The history it stands for\<close>

text \<open>Of a history with the latest event first: when the cooldown ends, the last migration, and the successes that count.\<close>

fun cooldown_end :: "hysteresis_options \<Rightarrow> probe_event list \<Rightarrow> rat" where
  "cooldown_end opts [] = 0"
| "cooldown_end opts (HV_Failure t # es) = t + ho_failureCooldownMs opts"
| "cooldown_end opts (_ # es) = cooldown_end opts es"

fun last_migration :: "rat \<Rightarrow> probe_event list \<Rightarrow> rat" where
  "last_migration startedAt [] = startedAt"
| "last_migration startedAt (HV_Migration t # es) = t"
| "last_migration startedAt (_ # es) = last_migration startedAt es"

fun streak :: "hysteresis_options \<Rightarrow> probe_event list \<Rightarrow> rat list" where
  "streak opts (HV_Success t # es) = (if t < cooldown_end opts es then streak opts es else t # streak opts es)"
| "streak opts _ = []"

lemma run_snoc: "hysteresis_run opts t0 (es @ [e]) = hysteresis_step opts (hysteresis_run opts t0 es) e"
  by (simp add: hysteresis_run_def)

lemma run_history:
  "hy_cooldownUntil (hysteresis_run opts t0 es) = cooldown_end opts (rev es) \<and>
   hy_lastMigrationAt (hysteresis_run opts t0 es) = last_migration t0 (rev es) \<and>
   hy_consecutiveDirectSuccesses (hysteresis_run opts t0 es) = length (streak opts (rev es)) \<and>
   hy_directObservationStartedAt (hysteresis_run opts t0 es) = (if streak opts (rev es) = [] then None else Some (last (streak opts (rev es))))"
proof (induction es rule: rev_induct)
  case Nil
  then show ?case by (simp add: hysteresis_run_def hysteresis_new_def)
next
  case (snoc e es)
  then show ?case
    by (cases e) (auto simp: run_snoc recordDirectSuccess_def recordDirectFailure_def recordMigration_def Let_def)
qed

lemma streak_after_cooldown: "x \<in> set (streak opts es) \<Longrightarrow> cooldown_end opts es \<le> x"
  by (induction opts es rule: streak.induct) (auto split: if_splits)

section \<open>Properties\<close>

text \<open>
  Property C22. The counters decide exactly as the history would: after any probes and migrations, a direct success at \<open>now\<close> asks for
  the switch if and only if the cooldown of the last failure is over, the successes since then and since the last
  migration, with this one, are at least as many as required and span the observation period, and the dwell time since the last
  migration has passed. So a switch never comes earlier than the cooldown plus the observation period after a failure.
\<close>

theorem direct_switch_matches_history:
  fixes es :: "probe_event list" and opts :: hysteresis_options and t0 now :: rat
  defines "ts \<equiv> now # streak opts (rev es)"
  shows "(snd (recordDirectSuccess opts now (hysteresis_run opts t0 es)) \<longleftrightarrow>
      cooldown_end opts (rev es) \<le> now \<and> ho_directSuccessesRequired opts \<le> length ts \<and>
      ho_directObservationMs opts \<le> now - last ts \<and> ho_minimumDwellMs opts \<le> now - last_migration t0 (rev es)) \<and>
    (snd (recordDirectSuccess opts now (hysteresis_run opts t0 es)) \<longrightarrow> cooldown_end opts (rev es) + ho_directObservationMs opts \<le> now)"
proof -
  have *: "snd (recordDirectSuccess opts now (hysteresis_run opts t0 es)) \<longleftrightarrow>
      cooldown_end opts (rev es) \<le> now \<and> ho_directSuccessesRequired opts \<le> length ts \<and>
      ho_directObservationMs opts \<le> now - last ts \<and> ho_minimumDwellMs opts \<le> now - last_migration t0 (rev es)"
    using run_history [of opts t0 es] by (auto simp: recordDirectSuccess_def Let_def ts_def)
  have "last ts \<in> set ts" by (simp add: ts_def)
  then have "cooldown_end opts (rev es) \<le> last ts" if "cooldown_end opts (rev es) \<le> now"
    using that streak_after_cooldown by (auto simp: ts_def)
  with * show ?thesis by fastforce
qed

definition supervisor_options :: hysteresis_options where
  "supervisor_options = \<lparr>ho_directSuccessesRequired = 3, ho_directObservationMs = 30000, ho_failureCooldownMs = 60000, ho_minimumDwellMs = 60000\<rparr>"

theorem direct_switch_matches_history_witness:
  "snd (recordDirectSuccess supervisor_options 95000 (hysteresis_run supervisor_options 0 [HV_Failure 1000, HV_Success 65000, HV_Success 80000])) \<and>
   cooldown_end supervisor_options (rev [HV_Failure 1000, HV_Success 65000, HV_Success 80000]) + 30000 \<le> 95000"
proof -
  have "snd (recordDirectSuccess supervisor_options 95000 (hysteresis_run supervisor_options 0 [HV_Failure 1000, HV_Success 65000, HV_Success 80000]))"
    by code_simp
  then show ?thesis using direct_switch_matches_history [of supervisor_options 95000 0 "[HV_Failure 1000, HV_Success 65000, HV_Success 80000]"]
    by (simp add: supervisor_options_def)
qed

end
