(* ===== verification/Spec2Isabelle.thy ===== *)
theory Spec2Isabelle
  imports Relay_Connection Desktop_Chat Desktop_Terminal Desktop_Rooms Desktop_Link Desktop_Relay Gateway_Rpc
    Terminal_Stream Relay_Auth Relay_Control Host_Proof Mobile_Handshake Gateway_Relay Relay_Credentials Relay_Broker
    Mobile_Logical Mobile_Hysteresis
begin

text \<open>
  A verification library of \<open>pie-relay\<close>, a system that lets a person drive an agent session that runs on
  one machine from another machine or from a phone. Paths below are relative to \<open>src/\<close>; in the second and third part
  \<open>runtime/\<close> is \<open>pie-mobile/upstream/src/main/runtime/\<close> and \<open>shared/\<close> is \<open>pie-mobile/upstream/src/shared/\<close>.

  \<^bold>\<open>The parts and how they interact.\<close>

  \<^item> The \<^emph>\<open>session relay\<close> (\<open>pie-mobile/upstream/platform/apps/relay/src\<close>) forwards frames between the members of a
    room. A connection joins after the control plane has admitted its credential; its frames are checked against the
    wire contract, rate limited, stamped with the admitted identity and queued for every other member.
    \<open>Relay_Wire\<close> (\<open>relay-wire-contract.ts\<close>, \<open>relay-config.ts\<close>, \<open>admission-verifier.ts\<close>), \<open>Relay_Limiter\<close>
    (\<open>frame-rate-limiter.ts\<close>), \<open>Relay_Queue\<close> (\<open>consumer-send-queue.ts\<close>), \<open>Relay_Room\<close> (\<open>relay-room.ts\<close>) and
    \<open>Relay_Connection\<close> (\<open>relay-connection.ts\<close>), which is the event machine of the whole relay over the others.
  \<^item> The \<^emph>\<open>desktop client\<close> (\<open>desktop/src\<close>) shows a room: \<open>Desktop_Protocol\<close> and \<open>Desktop_Chat\<close> (\<open>protocol.ts\<close>: parsers
    and builders, and the chat reducer), \<open>Desktop_Terminal\<close> (\<open>terminal-stream.ts\<close>, \<open>terminal-output-scheduler.ts\<close>),
    \<open>Desktop_Rooms\<close> (\<open>rooms.ts\<close>), \<open>Desktop_Link\<close> (\<open>connection.ts\<close>) and \<open>Desktop_Relay\<close> (\<open>relay.ts\<close>,
    \<open>relay-config.ts\<close>).
  \<^item> The \<^emph>\<open>encrypted mobile channel\<close> runs between a phone and a desktop over a direct or relayed socket that need
    not be trusted. \<open>Base64\<close>, \<open>E2ee_Framing\<close> (\<open>shared/mobile-e2ee-v2-framing.ts\<close>), \<open>E2ee_Contract\<close>
    (\<open>shared/mobile-e2ee-v2-contract.ts\<close>) and \<open>E2ee_Session\<close> (both sessions and the key schedule) are the protocol;
    \<open>Ws_Outbound\<close> (\<open>shared/ws-outbound-backpressure-queue.ts\<close>) is the queue before each socket;
    \<open>Device_Registry\<close> (\<open>runtime/device-registry.ts\<close>), \<open>E2ee_Channel\<close> (\<open>runtime/rpc/e2ee-channel.ts\<close>) and
    \<open>Mobile_Wiring\<close> (\<open>runtime/rpc/mobile-socket-wiring.ts\<close>) are the desktop's end; \<open>Mobile_Channel\<close>
    (\<open>pie-mobile/upstream/mobile/src/transport/mobile-e2ee-v2-physical-channel.ts\<close>) is the phone's; \<open>Mobile_Handshake\<close>
    runs the two against each other. \<open>Terminal_Stream\<close> is the binary terminal protocol that the channel carries. Above the
    channel, \<open>Mobile_Logical\<close> (\<open>mobile/src/transport/stable-logical-rpc-client.ts\<close>) is the client the phone's application
    keeps while the session under it moves between the local network and the relay, and \<open>Mobile_Hysteresis\<close>
    (\<open>mobile-endpoint-hysteresis.ts\<close>) decides when to move back.
  \<^item> The \<^emph>\<open>host gateway\<close> (\<open>pie-mobile/adapter/host-gateway/src\<close>) answers the phone's requests on a host without
    the desktop application: \<open>Gateway_Terminal\<close> (\<open>terminal-session.ts\<close>), \<open>Gateway_Rpc\<close> (\<open>rpc-handler.ts\<close>) and
    \<open>Gateway_Relay\<close> (\<open>relay-gateway.ts\<close>), which keeps one control connection to a relay cell and hands each data
    socket the cell announces to \<open>Data_Transport\<close> (\<open>runtime/rpc/relay-transport.ts\<close>).
  \<^item> The \<^emph>\<open>relay control\<close> of the desktop (\<open>runtime/relay\<close>) keeps a desktop reachable through a relay cell:
    \<open>Relay_Auth\<close> (\<open>relay-auth-coordinator.ts\<close>) follows the signed-in identity and owns at most one broker,
    \<open>Relay_Control\<close> (\<open>relay-control-client.ts\<close> with its requests and schemas) is the control connection to a cell, and
    \<open>Host_Proof\<close> (\<open>relay-host-proof.ts\<close>) answers the cell's challenge. \<open>Relay_Demand\<close> (\<open>relay-revoke-outbox.ts\<close>,
    \<open>relay-demand-ledger.ts\<close>) says whether a session is wanted, \<open>Relay_Service\<close> (\<open>desktop-relay-service.ts\<close>, and the
    pairing operations of \<open>runtime/runtime-rpc.ts\<close>) puts the coordinator, the ledger, the outbox and the device registry
    together, and \<open>Relay_Credentials\<close> follows the credentials of paired devices through its runs. \<open>Relay_Pool\<close>
    (\<open>relay-origin-pool.ts\<close>, \<open>relay-control-origin.ts\<close>) holds the cells a session is connected to and migrates between them,
    and \<open>Relay_Broker\<close> (\<open>relay-session-broker.ts\<close>) is the session that the coordinator owns, on top of the pool.

  \<^bold>\<open>How the model corresponds to the code.\<close> A class or a closure with state is a record whose fields keep the
  source's names behind a short prefix; a tagged union is a datatype; every operation is a function from the state to the
  new state and the list of what it does to the outside (frames written, callbacks called, an exception that leaves it). An
  asynchronous operation is split at its awaits, and the continuation is an event of its own, so that everything that
  can happen meanwhile may happen between the two. The events of a component are a datatype, a run is the fold of its step
  over a list of events (\<open>Relay_Auth\<close> has an inductive step relation instead), and the invariants are proved
  for every run through the locales of \<open>Relay_Prelude\<close>: \<open>event_machine\<close> (an invariant that each step keeps),
  \<open>monotone_machine\<close> (a quantity that no step decreases) and \<open>codec\<close> (an encoder and its decoder), each interpreted on
  the definitions of the components; \<open>E2ee_Framing\<close> adds \<open>ordered_channel\<close>, the contract of a sealed stream, which both
  directions of the encrypted channel instantiate. Objects that are shared by reference (rooms, members) live in an
  explicit store, as do the origins and controls of the pool, whose asynchronous calls are tasks that an event resumes.

  JSON values are the datatype \<open>json\<close>; numbers that come off a wire are \<open>jsnum\<close> (a rational, an infinity or NaN); counters
  that the code keeps as 64-bit numbers keep their bound; bytes are words of eight bits. Strings are lists of characters
  of one byte. What is not in the repository is an argument: \<open>JSON.parse\<close> and \<open>JSON.stringify\<close>, the text
  decoder, \<open>nacl\<close>, the hash functions, \<open>fetch\<close>, clocks and random bytes. The theorems that need a law of one of them state
  it as a hypothesis (\<open>crypto_ok\<close>, \<open>nacl_ok\<close>, \<open>ends_match\<close>), and a witness shows a function that has it.

  \<^bold>\<open>Bounds and loops.\<close> Loops are structural recursions or \<open>function\<close>s with a termination proof. The one loop of
  the sources that may run for ever, the trimming of a lane in \<open>consumer-send-queue.ts\<close>, is a
  \<open>partial_function (option)\<close>: it is shown to return for every non-negative bound and to diverge for a negative one.
  No definition uses fuel.

  \<^bold>\<open>What the lemmas show.\<close> For the relay: frames carry the identity that was admitted, admission fails closed, a
  connection that is not admitted has no effect on others, routing reaches exactly the other members, queues conserve
  frames up to the ones they report as dropped, the limiter's budgets hold over every window. For the desktop: the
  transcript only grows, the scheduler loses and reorders nothing, rooms stay consistent, events are well formed. For the
  encrypted channel: the handshake of a paired phone and desktop completes and yields equal keys, the phone accepts only
  the desktop it has pinned, each direction is a reliable ordered stream whatever an attacker does to the
  frames, nothing is delivered before authentication at either end, and an authenticated socket acts only as its own
  device; the logical client leaves no request hanging, leaks no session and keeps every subscription through migrations, and
  the hysteresis decides as the history of probes would. For the gateway: a terminal is written to only with the token of the socket's device, each request is answered
  once, streams are numbered without gaps, at most one control is held, reconnects are paced, and a relayed data socket
  is counted while it lives and acts for the device that was announced with it. For the relay control: at most one broker lives, calls on the
  control connection settle once, a draining connection opens nothing, a proof attests the host's own identity, the
  demand timer wakes when the demand changes, transient demand ends with the operations that hold it, a revocation survives
  restarts and goes to the account that owns it, and no credential is lost between binding and revocation. For a session:
  every open control and every origin is accounted for through migrations and rebinds, requests go to open controls of the
  origin that owns the connection, an open session has one refresh of its authorization ahead, and a closed one leaves
  nothing behind; composed with its coordinator, a refresh that is overtaken closes the session unnoticed. Where
  the code does something it does not mean to, a theorem shows the behaviour.

  \<^bold>\<open>Not modelled.\<close> Sockets and HTTP servers (\<open>relay-server.ts\<close>, \<open>relay-socket.ts\<close>) and the start-up code, which
  only call libraries; the parsing of URLs, which is an option where it matters; the two HTTP calls of
  \<open>runtime/relay/relay-http-client.ts\<close>, whose answers arrive in events; file persistence of the device registry beyond its contents; the user interfaces
  (\<open>desktop/src/App.tsx\<close>, \<open>pie-mobile/upstream/mobile/app\<close>), which are view code; the upstream application around the
  mobile runtime, the phone's endpoint supervisor, pairing screens and credential storage included; the parts in Go (\<open>server\<close>, \<open>client\<close>, \<open>executor-manager\<close>) and Rust (\<open>desktop/src-tauri\<close>), which are
  other programs in other languages.
\<close>

end
